(* ===== verification/Prelude.thy ===== *)
theory Prelude
  imports Main "HOL-Library.Word" "HOL-Library.Monad_Syntax"
begin

unbundle bit_operations_syntax

text \<open>
  Shared vocabulary of the development: the widths of the C integers, the two outcomes a C
  function can have in the model, byte order, and the generic lemmas the components use.

  A C function is modelled by a function whose result is \<open>(return value, new state) option\<close>
  (with the values of its out-parameters beside the return value). \<open>None\<close> stands for a run
  that the C code does not survive: a NULL or dangling pointer is dereferenced, an array is
  indexed out of its bounds, or an enabled \<open>RTE_ASSERT\<close> fails. Error returns of the code are
  ordinary return values, with the code's own negative numbers.
\<close>

type_synonym u8 = "8 word"
type_synonym u16 = "16 word"
type_synonym u32 = "32 word"
type_synonym u64 = "64 word"

text \<open>An address, as a \<open>void *\<close> holds it: 0 is NULL.\<close>

type_synonym ptr = int

abbreviation (input) NULL :: ptr where
  "NULL \<equiv> 0"

section \<open>Lemma collections\<close>

text \<open>
  \<open>hal_simps\<close> collects what the hardware shims do to the fields they leave alone, \<open>const_defs\<close>
  the numeric constants of the headers.
\<close>

named_theorems hal_simps
named_theorems const_defs

section \<open>Running a function to its end\<close>

lemma bind_SomeE:
  assumes "Option.bind m f = Some r"
  obtains x where "m = Some x" and "f x = Some r"
  using assms by (cases m) auto

lemma bind_pair_SomeE:
  assumes "Option.bind m (\<lambda>(a, b). f a b) = Some r"
  obtains a b where "m = Some (a, b)" and "f a b = Some r"
  using assms by (cases m) auto

lemma bind_pair_Some_conv:
  "Option.bind m (\<lambda>(a, b). f a b) = Some r \<longleftrightarrow> (\<exists>a b. m = Some (a, b) \<and> f a b = Some r)"
  by (cases m) auto

section \<open>Byte order\<close>

text \<open>
  The agent is built for x86-64, which is little endian: \<open>rte_be_to_cpu_32\<close>, \<open>ntohl\<close> and their
  16-bit kin reverse the bytes of the word they are given.
\<close>

definition bswap32 :: "u32 \<Rightarrow> u32" where
  "bswap32 x =
     (push_bit 24 (take_bit 8 x) OR push_bit 16 (take_bit 8 (drop_bit 8 x)) OR
      push_bit 8 (take_bit 8 (drop_bit 16 x)) OR drop_bit 24 x)"

definition bswap16 :: "u16 \<Rightarrow> u16" where
  "bswap16 x = (push_bit 8 (take_bit 8 x) OR drop_bit 8 x)"

abbreviation rte_be_to_cpu_32 :: "u32 \<Rightarrow> u32" where
  "rte_be_to_cpu_32 \<equiv> bswap32"

abbreviation rte_cpu_to_be_32 :: "u32 \<Rightarrow> u32" where
  "rte_cpu_to_be_32 \<equiv> bswap32"

abbreviation rte_cpu_to_be_16 :: "u16 \<Rightarrow> u16" where
  "rte_cpu_to_be_16 \<equiv> bswap16"

lemma bit_bswap32:
  "bit (bswap32 x) n \<longleftrightarrow>
     n < 32 \<and> bit x (if n < 8 then n + 24 else if n < 16 then n + 8
                     else if n < 24 then n - 8 else n - 24)"
  using bit_imp_le_length [of x] unfolding bswap32_def
  by (cases "n < 8"; cases "n < 16"; cases "n < 24"; cases "n < 32")
     (auto simp: bit_or_iff bit_push_bit_iff bit_take_bit_iff bit_drop_bit_eq add.commute
           dest: bit_imp_le_length)

lemma bswap32_bswap32 [simp]: "bswap32 (bswap32 x) = x"
  by (rule bit_eqI) (auto simp: bit_bswap32)

lemma bswap32_inj [simp]: "bswap32 x = bswap32 y \<longleftrightarrow> x = y"
  by (metis bswap32_bswap32)

end
