(* ===== verification/Errno.thy ===== *)
theory Errno
  imports Prelude
begin

text \<open>
  \<open>agent/shc_errno.h\<close>: the error codes. The header lists the codes in one X-macro
  (\<open>foreach_shc_err_code\<close>) and expands it twice, to the index of each code and to the code
  itself, the negated index (\<open>SHC_ERRNO_START\<close> is 0). Each code is a constant here, the X-macro
  is the list of them in its order, and the lemmas show that the constants are what the second
  expansion gives: consecutive from 0 downwards, so pairwise distinct, and none of them but
  success is non-negative.
\<close>

definition SHC_ERRNO_START :: int where [const_defs]: "SHC_ERRNO_START = 0"

definition SHC_COMM_SUCCESS :: int where [const_defs]: "SHC_COMM_SUCCESS = 0"
definition SHC_COMM_FAILURE :: int where [const_defs]: "SHC_COMM_FAILURE = -1"
definition SHC_COMM_NOMEM :: int where [const_defs]: "SHC_COMM_NOMEM = -2"
definition SHC_COMM_NOENT :: int where [const_defs]: "SHC_COMM_NOENT = -3"
definition SHC_COMM_INVAL_PARAM :: int where [const_defs]: "SHC_COMM_INVAL_PARAM = -4"
definition SHC_REGIST_REPORT_CHANNEL_FAIL :: int where [const_defs]: "SHC_REGIST_REPORT_CHANNEL_FAIL = -5"
definition SHC_VRF_NAME_INVALID :: int where [const_defs]: "SHC_VRF_NAME_INVALID = -6"
definition SHC_VRF_NOENT :: int where [const_defs]: "SHC_VRF_NOENT = -7"
definition SHC_VRF_EXIST :: int where [const_defs]: "SHC_VRF_EXIST = -8"
definition SHC_VRF_INVAL_VRFID :: int where [const_defs]: "SHC_VRF_INVAL_VRFID = -9"
definition SHC_VRF_IP_TYPE_NOT_SUPPORTED :: int where [const_defs]: "SHC_VRF_IP_TYPE_NOT_SUPPORTED = -10"
definition SHC_TUNNEL_NO_FOUND :: int where [const_defs]: "SHC_TUNNEL_NO_FOUND = -11"
definition SHC_TUNNEL_INUSED :: int where [const_defs]: "SHC_TUNNEL_INUSED = -12"
definition SHC_TUNNEL_MAP_NOSPACE :: int where [const_defs]: "SHC_TUNNEL_MAP_NOSPACE = -13"
definition SHC_TUNNEL_BUNDLE_NOSPACE :: int where [const_defs]: "SHC_TUNNEL_BUNDLE_NOSPACE = -14"
definition SHC_TUNNEL_BUNDLE_EXIST :: int where [const_defs]: "SHC_TUNNEL_BUNDLE_EXIST = -15"
definition SHC_TUNNEL_BUNDLE_NO_EXIST :: int where [const_defs]: "SHC_TUNNEL_BUNDLE_NO_EXIST = -16"
definition SHC_TUNNEL_CLEAR_STAT_ERR :: int where [const_defs]: "SHC_TUNNEL_CLEAR_STAT_ERR = -17"
definition SHC_TUNNEL_GET_STAT_ERR :: int where [const_defs]: "SHC_TUNNEL_GET_STAT_ERR = -18"
definition SHC_EG_TUNNEL_MAP_NOSPACE :: int where [const_defs]: "SHC_EG_TUNNEL_MAP_NOSPACE = -19"
definition SHC_ND_PROXY_NOSPACE :: int where [const_defs]: "SHC_ND_PROXY_NOSPACE = -20"
definition SHC_ND_PROXY_NOEXIST :: int where [const_defs]: "SHC_ND_PROXY_NOEXIST = -21"
definition SHC_NEIGH_ENTRY_NO_FOUND :: int where [const_defs]: "SHC_NEIGH_ENTRY_NO_FOUND = -22"
definition SHC_IPV4_PREFIXLEN_OUT_RANGE :: int where [const_defs]: "SHC_IPV4_PREFIXLEN_OUT_RANGE = -23"
definition SHC_IPV4_ROUTETYPE_NO_SAME :: int where [const_defs]: "SHC_IPV4_ROUTETYPE_NO_SAME = -24"
definition SHC_VXLAN_VNI_INVALID :: int where [const_defs]: "SHC_VXLAN_VNI_INVALID = -25"
definition SHC_VXLAN_REMOTEIP_NOSET :: int where [const_defs]: "SHC_VXLAN_REMOTEIP_NOSET = -26"
definition SHC_VXLAN_DSCP_OUT_RANGE :: int where [const_defs]: "SHC_VXLAN_DSCP_OUT_RANGE = -27"
definition SHC_TGRE_VPCID_INVALID :: int where [const_defs]: "SHC_TGRE_VPCID_INVALID = -28"
definition SHC_ROUTE_NH_ALLOC_OID_FAIL :: int where [const_defs]: "SHC_ROUTE_NH_ALLOC_OID_FAIL = -29"
definition SHC_ROUTE_TYPE_CONFLICT :: int where [const_defs]: "SHC_ROUTE_TYPE_CONFLICT = -30"
definition SHC_ROUTE_ECMP_OUT_RANGE :: int where [const_defs]: "SHC_ROUTE_ECMP_OUT_RANGE = -31"
definition SHC_VRF_NOT_EXIST :: int where [const_defs]: "SHC_VRF_NOT_EXIST = -32"
definition SHC_ROUTE_PREFIX_NOSPACE :: int where [const_defs]: "SHC_ROUTE_PREFIX_NOSPACE = -33"
definition SHC_ROUTE_PREFIX_PER_VRF_NOSPACE :: int where [const_defs]: "SHC_ROUTE_PREFIX_PER_VRF_NOSPACE = -34"
definition SHC_ROUTE_RESULT_NOSPACE :: int where [const_defs]: "SHC_ROUTE_RESULT_NOSPACE = -35"
definition SHC_ROUTE_NEXTHOP_NOT_FOUND :: int where [const_defs]: "SHC_ROUTE_NEXTHOP_NOT_FOUND = -36"
definition SHC_ROUTE_NEXTHOP_ECMP_NOSPACE :: int where [const_defs]: "SHC_ROUTE_NEXTHOP_ECMP_NOSPACE = -37"
definition SHC_GRPC_PARAMS_INVALID :: int where [const_defs]: "SHC_GRPC_PARAMS_INVALID = -38"
definition SHC_ROUTE_PREFIX_NOT_FOUND :: int where [const_defs]: "SHC_ROUTE_PREFIX_NOT_FOUND = -39"
definition SHC_LOAD_TO_P4_FAIL :: int where [const_defs]: "SHC_LOAD_TO_P4_FAIL = -40"
definition SHC_TUNNEL_OBJ_EXCEED_SPEC :: int where [const_defs]: "SHC_TUNNEL_OBJ_EXCEED_SPEC = -41"
definition SHC_VXLAN_BD_OBJ_EXCEED_SPEC :: int where [const_defs]: "SHC_VXLAN_BD_OBJ_EXCEED_SPEC = -42"
definition SHC_FIB_HOST_OBJ_EXCEED_SPEC :: int where [const_defs]: "SHC_FIB_HOST_OBJ_EXCEED_SPEC = -43"
definition SHC_FIB_LPM_OBJ_EXCEED_SPEC :: int where [const_defs]: "SHC_FIB_LPM_OBJ_EXCEED_SPEC = -44"
definition SHC_NHOP_OBJ_EXCEED_SPEC :: int where [const_defs]: "SHC_NHOP_OBJ_EXCEED_SPEC = -45"
definition SHC_EGRESS_TUNNEL_OBJ_EXCEED_SPEC :: int where [const_defs]: "SHC_EGRESS_TUNNEL_OBJ_EXCEED_SPEC = -46"
definition SHC_INNER_NEIGH_OBJ_EXCEED_SPEC :: int where [const_defs]: "SHC_INNER_NEIGH_OBJ_EXCEED_SPEC = -47"
definition SHC_ECMP_OBJ_EXCEED_SPEC :: int where [const_defs]: "SHC_ECMP_OBJ_EXCEED_SPEC = -48"
definition SHC_MROUTE_OBJ_EXCEED_SPEC :: int where [const_defs]: "SHC_MROUTE_OBJ_EXCEED_SPEC = -49"
definition SHC_IPV6_NOT_SUPPORT :: int where [const_defs]: "SHC_IPV6_NOT_SUPPORT = -50"
definition SHC_HOSTIF_NO_SPACE :: int where [const_defs]: "SHC_HOSTIF_NO_SPACE = -51"
definition SHC_HOSTIF_NO_FOUND :: int where [const_defs]: "SHC_HOSTIF_NO_FOUND = -52"
definition SHC_HOSTIF_IP_SET_KERNEL_FAIL :: int where [const_defs]: "SHC_HOSTIF_IP_SET_KERNEL_FAIL = -53"
definition SHC_HOSTIF_IP_UNSET_KERNEL_FAIL :: int where [const_defs]: "SHC_HOSTIF_IP_UNSET_KERNEL_FAIL = -54"
definition SHC_HOSTIF_IP_ALREADY_SET :: int where [const_defs]: "SHC_HOSTIF_IP_ALREADY_SET = -55"
definition SHC_TERMVIP_NO_SPACE :: int where [const_defs]: "SHC_TERMVIP_NO_SPACE = -56"
definition SHC_FORWARD_VIP_ALREADY_SET :: int where [const_defs]: "SHC_FORWARD_VIP_ALREADY_SET = -57"
definition SHC_FORWARD_VIP_NO_SET :: int where [const_defs]: "SHC_FORWARD_VIP_NO_SET = -58"
definition SHC_LO_DEV_NO_SET :: int where [const_defs]: "SHC_LO_DEV_NO_SET = -59"
definition SHC_CAPUTRE_DEV_ALREADY_SET :: int where [const_defs]: "SHC_CAPUTRE_DEV_ALREADY_SET = -60"
definition SHC_CAPUTRE_DEV_NOT_SUPPORTED :: int where [const_defs]: "SHC_CAPUTRE_DEV_NOT_SUPPORTED = -61"
definition SHC_CNTL_IP_ALREADY_SET :: int where [const_defs]: "SHC_CNTL_IP_ALREADY_SET = -62"
definition SHC_ONLINE_ALREADY :: int where [const_defs]: "SHC_ONLINE_ALREADY = -63"
definition SHC_GRESIP_NO_SPACE :: int where [const_defs]: "SHC_GRESIP_NO_SPACE = -64"
definition SHC_KERNEL_INTERFACE_NO_EXIST :: int where [const_defs]: "SHC_KERNEL_INTERFACE_NO_EXIST = -65"
definition SHC_CAPTURE_SUCCESS :: int where [const_defs]: "SHC_CAPTURE_SUCCESS = -66"
definition SHC_CAPTURE_INVAL_PARAM :: int where [const_defs]: "SHC_CAPTURE_INVAL_PARAM = -67"
definition SHC_CAPTURE_NO_VRF :: int where [const_defs]: "SHC_CAPTURE_NO_VRF = -68"
definition SHC_CAPTURE_ENTRY_EXIST :: int where [const_defs]: "SHC_CAPTURE_ENTRY_EXIST = -69"
definition SHC_CAPTURE_UPDATE_TABLE_FAIL :: int where [const_defs]: "SHC_CAPTURE_UPDATE_TABLE_FAIL = -70"
definition SHC_CAPTURE_SET_PACKET_NUM_FAIL :: int where [const_defs]: "SHC_CAPTURE_SET_PACKET_NUM_FAIL = -71"
definition SHC_CAPTURE_START_TCPDUMP_FAIL :: int where [const_defs]: "SHC_CAPTURE_START_TCPDUMP_FAIL = -72"
definition SHC_CAPTURE_STOP_TCPDUMP_FAIL :: int where [const_defs]: "SHC_CAPTURE_STOP_TCPDUMP_FAIL = -73"
definition SHC_CAPTURE_ALREADY_STOP :: int where [const_defs]: "SHC_CAPTURE_ALREADY_STOP = -74"
definition SHC_CAPTURE_NO_FOUND_IN_ACL :: int where [const_defs]: "SHC_CAPTURE_NO_FOUND_IN_ACL = -75"
definition SHC_CAPTURE_DEL_TABLE_FAIL :: int where [const_defs]: "SHC_CAPTURE_DEL_TABLE_FAIL = -76"
definition SHC_ADD_ACL_ENTRY_FAIL :: int where [const_defs]: "SHC_ADD_ACL_ENTRY_FAIL = -77"
definition SHC_DEL_ACL_ENTRY_FAIL :: int where [const_defs]: "SHC_DEL_ACL_ENTRY_FAIL = -78"
definition SHC_GET_ACL_STATIS_FAIL :: int where [const_defs]: "SHC_GET_ACL_STATIS_FAIL = -79"
definition SHC_MALLOC_ACL_FAIL :: int where [const_defs]: "SHC_MALLOC_ACL_FAIL = -80"
definition SHC_ERRNO_END :: int where [const_defs]: "SHC_ERRNO_END = -81"

definition foreach_shc_err_code :: "int list" where
  "foreach_shc_err_code =
    [SHC_COMM_SUCCESS,
     SHC_COMM_FAILURE,
     SHC_COMM_NOMEM,
     SHC_COMM_NOENT,
     SHC_COMM_INVAL_PARAM,
     SHC_REGIST_REPORT_CHANNEL_FAIL,
     SHC_VRF_NAME_INVALID,
     SHC_VRF_NOENT,
     SHC_VRF_EXIST,
     SHC_VRF_INVAL_VRFID,
     SHC_VRF_IP_TYPE_NOT_SUPPORTED,
     SHC_TUNNEL_NO_FOUND,
     SHC_TUNNEL_INUSED,
     SHC_TUNNEL_MAP_NOSPACE,
     SHC_TUNNEL_BUNDLE_NOSPACE,
     SHC_TUNNEL_BUNDLE_EXIST,
     SHC_TUNNEL_BUNDLE_NO_EXIST,
     SHC_TUNNEL_CLEAR_STAT_ERR,
     SHC_TUNNEL_GET_STAT_ERR,
     SHC_EG_TUNNEL_MAP_NOSPACE,
     SHC_ND_PROXY_NOSPACE,
     SHC_ND_PROXY_NOEXIST,
     SHC_NEIGH_ENTRY_NO_FOUND,
     SHC_IPV4_PREFIXLEN_OUT_RANGE,
     SHC_IPV4_ROUTETYPE_NO_SAME,
     SHC_VXLAN_VNI_INVALID,
     SHC_VXLAN_REMOTEIP_NOSET,
     SHC_VXLAN_DSCP_OUT_RANGE,
     SHC_TGRE_VPCID_INVALID,
     SHC_ROUTE_NH_ALLOC_OID_FAIL,
     SHC_ROUTE_TYPE_CONFLICT,
     SHC_ROUTE_ECMP_OUT_RANGE,
     SHC_VRF_NOT_EXIST,
     SHC_ROUTE_PREFIX_NOSPACE,
     SHC_ROUTE_PREFIX_PER_VRF_NOSPACE,
     SHC_ROUTE_RESULT_NOSPACE,
     SHC_ROUTE_NEXTHOP_NOT_FOUND,
     SHC_ROUTE_NEXTHOP_ECMP_NOSPACE,
     SHC_GRPC_PARAMS_INVALID,
     SHC_ROUTE_PREFIX_NOT_FOUND,
     SHC_LOAD_TO_P4_FAIL,
     SHC_TUNNEL_OBJ_EXCEED_SPEC,
     SHC_VXLAN_BD_OBJ_EXCEED_SPEC,
     SHC_FIB_HOST_OBJ_EXCEED_SPEC,
     SHC_FIB_LPM_OBJ_EXCEED_SPEC,
     SHC_NHOP_OBJ_EXCEED_SPEC,
     SHC_EGRESS_TUNNEL_OBJ_EXCEED_SPEC,
     SHC_INNER_NEIGH_OBJ_EXCEED_SPEC,
     SHC_ECMP_OBJ_EXCEED_SPEC,
     SHC_MROUTE_OBJ_EXCEED_SPEC,
     SHC_IPV6_NOT_SUPPORT,
     SHC_HOSTIF_NO_SPACE,
     SHC_HOSTIF_NO_FOUND,
     SHC_HOSTIF_IP_SET_KERNEL_FAIL,
     SHC_HOSTIF_IP_UNSET_KERNEL_FAIL,
     SHC_HOSTIF_IP_ALREADY_SET,
     SHC_TERMVIP_NO_SPACE,
     SHC_FORWARD_VIP_ALREADY_SET,
     SHC_FORWARD_VIP_NO_SET,
     SHC_LO_DEV_NO_SET,
     SHC_CAPUTRE_DEV_ALREADY_SET,
     SHC_CAPUTRE_DEV_NOT_SUPPORTED,
     SHC_CNTL_IP_ALREADY_SET,
     SHC_ONLINE_ALREADY,
     SHC_GRESIP_NO_SPACE,
     SHC_KERNEL_INTERFACE_NO_EXIST,
     SHC_CAPTURE_SUCCESS,
     SHC_CAPTURE_INVAL_PARAM,
     SHC_CAPTURE_NO_VRF,
     SHC_CAPTURE_ENTRY_EXIST,
     SHC_CAPTURE_UPDATE_TABLE_FAIL,
     SHC_CAPTURE_SET_PACKET_NUM_FAIL,
     SHC_CAPTURE_START_TCPDUMP_FAIL,
     SHC_CAPTURE_STOP_TCPDUMP_FAIL,
     SHC_CAPTURE_ALREADY_STOP,
     SHC_CAPTURE_NO_FOUND_IN_ACL,
     SHC_CAPTURE_DEL_TABLE_FAIL,
     SHC_ADD_ACL_ENTRY_FAIL,
     SHC_DEL_ACL_ENTRY_FAIL,
     SHC_GET_ACL_STATIS_FAIL,
     SHC_MALLOC_ACL_FAIL,
     SHC_ERRNO_END]"

definition SHC_ERR_CODE_VALID :: "int \<Rightarrow> bool" where
  "SHC_ERR_CODE_VALID e \<longleftrightarrow> SHC_ERRNO_END \<le> e \<and> e \<le> - SHC_ERRNO_START"

lemma foreach_shc_err_code_eq:
  "foreach_shc_err_code = map (\<lambda>i. - (int i + SHC_ERRNO_START)) [0..<82]"
  by (simp add: foreach_shc_err_code_def const_defs upt_rec)

lemma SHC_ERR_CODE_VALID_alt: "SHC_ERR_CODE_VALID e \<longleftrightarrow> -81 \<le> e \<and> e \<le> 0"
  by (simp add: SHC_ERR_CODE_VALID_def const_defs)

text \<open>
  The error codes are the negated positions of the X-macro: they are pairwise distinct, and
  the range test \<open>SHC_ERR_CODE_VALID\<close> accepts exactly the codes of the list (the terminator
  \<open>SHC_ERRNO_END\<close> included).
\<close>

theorem shc_err_codes_exact:
  "distinct foreach_shc_err_code \<and>
   SHC_ERR_CODE_VALID e = (e \<in> set foreach_shc_err_code)"
proof
  show "distinct foreach_shc_err_code"
    unfolding foreach_shc_err_code_eq by (simp add: distinct_map inj_on_def)
  have "SHC_ERR_CODE_VALID e \<longleftrightarrow> (\<exists>i < 82. e = - int i)"
  proof
    assume "SHC_ERR_CODE_VALID e"
    then have "nat (- e) < 82 \<and> e = - int (nat (- e))" by (auto simp: SHC_ERR_CODE_VALID_alt)
    then show "\<exists>i < 82. e = - int i" by blast
  qed (auto simp: SHC_ERR_CODE_VALID_alt)
  then show "SHC_ERR_CODE_VALID e = (e \<in> set foreach_shc_err_code)"
    unfolding foreach_shc_err_code_eq by (auto simp: SHC_ERRNO_START_def)
qed

end
