(* ===== verification/Dataplane.thy ===== *)
theory Dataplane
  imports Errno
begin

text \<open>
  \<open>agent/shc_dp.h\<close>: the data plane's specification constants and the sanity-check macros over
  them. Macro arguments are C integers, so the checks take \<open>int\<close>.
\<close>

section \<open>Sizes\<close>

definition SHC_NR_VRF :: int where [const_defs]: "SHC_NR_VRF = 4096"
definition SHC_NR_ROUTES_ALL :: int where [const_defs]: "SHC_NR_ROUTES_ALL = 800 * 1024"
definition SHC_NR_FIB_RES_ALL :: int where [const_defs]: "SHC_NR_FIB_RES_ALL = 800 * 1024"
definition SHC_NR_NHOP_ALL :: int where [const_defs]: "SHC_NR_NHOP_ALL = SHC_NR_FIB_RES_ALL"
definition SHC_NR_TUNNEL_ALL :: int where [const_defs]: "SHC_NR_TUNNEL_ALL = 8 * 1024"
definition SHC_VRF_NAME_LEN :: nat where [const_defs]: "SHC_VRF_NAME_LEN = 64"
definition MAX_VRF_GW_HASH_ENT :: int where [const_defs]: "MAX_VRF_GW_HASH_ENT = 10000"

section \<open>ECMP, weights, prefix lengths, DSCP, VXLAN\<close>

definition ROUTE_MAX_ECMP :: nat where [const_defs]: "ROUTE_MAX_ECMP = 1"
definition MROUTE_MAX_ECMP :: nat where [const_defs]: "MROUTE_MAX_ECMP = 8"

definition MAX_NHOPS_PER_RTOUE :: nat where [const_defs]:
  "MAX_NHOPS_PER_RTOUE =
     (if ROUTE_MAX_ECMP > MROUTE_MAX_ECMP then ROUTE_MAX_ECMP else MROUTE_MAX_ECMP)"

definition ROUTE_ECMP_VALID :: "int \<Rightarrow> bool" where
  "ROUTE_ECMP_VALID e \<longleftrightarrow> e \<le> int ROUTE_MAX_ECMP"

definition MROUTE_ECMP_VALID :: "int \<Rightarrow> bool" where
  "MROUTE_ECMP_VALID e \<longleftrightarrow> e \<le> int MROUTE_MAX_ECMP"

definition NH_WEIGHT_MIN :: int where [const_defs]: "NH_WEIGHT_MIN = 1"
definition NH_WEIGHT_MAX :: int where [const_defs]: "NH_WEIGHT_MAX = 99"
definition NH_WEIGHT_DEF :: int where [const_defs]: "NH_WEIGHT_DEF = 5"

definition NH_WEIGHT_VALID :: "int \<Rightarrow> bool" where
  "NH_WEIGHT_VALID w \<longleftrightarrow> NH_WEIGHT_MIN \<le> w \<and> w \<le> NH_WEIGHT_MAX"

definition NH_WEIGHT_ARG_VALID :: "int \<Rightarrow> bool" where
  "NH_WEIGHT_ARG_VALID w \<longleftrightarrow> 0 \<le> w \<and> w \<le> NH_WEIGHT_MAX"

definition IP4_PREFIX_LEN_VALID :: "int \<Rightarrow> bool" where
  "IP4_PREFIX_LEN_VALID l \<longleftrightarrow> l \<le> 32"

definition IP6_PREFIX_LEN_VALID :: "int \<Rightarrow> bool" where
  "IP6_PREFIX_LEN_VALID l \<longleftrightarrow> l \<le> 128"

definition IP4_ADDR_IS_ZERO :: "u32 \<Rightarrow> bool" where
  "IP4_ADDR_IS_ZERO ip4 \<longleftrightarrow> ip4 = 0"

definition DSCP_ID_VALID :: "int \<Rightarrow> bool" where
  "DSCP_ID_VALID d \<longleftrightarrow> 0 \<le> d \<and> d \<le> 63"

definition VXLAN_HF_VNI :: u32 where [const_defs]: "VXLAN_HF_VNI = 0x08000000"
definition VXLAN_DEFAULT_SPORT :: u16 where [const_defs]: "VXLAN_DEFAULT_SPORT = 55555"

section \<open>VRF names\<close>

text \<open>
  A C string is the list of its characters before the terminating NUL. \<open>isprint\<close> is the C
  library's, in the C locale.
\<close>

definition isprint :: "char \<Rightarrow> bool" where
  "isprint c \<longleftrightarrow> 32 \<le> (of_char c :: nat) \<and> (of_char c :: nat) < 127"

fun find_str_spec_char :: "string \<Rightarrow> int" where
  "find_str_spec_char [] = 0"
| "find_str_spec_char (c # cs) = (if \<not> isprint c then 1 else find_str_spec_char cs)"

definition VRF_NAME_VALID :: "string option \<Rightarrow> bool" where
  "VRF_NAME_VALID vrfname =
     (case vrfname of
        None \<Rightarrow> False
      | Some n \<Rightarrow> n \<noteq> [] \<and> hd n \<noteq> CHR '' '' \<and> length n < SHC_VRF_NAME_LEN
          \<and> find_str_spec_char n = 0)"

lemma find_str_spec_char_iff: "find_str_spec_char n = 0 \<longleftrightarrow> (\<forall>c \<in> set n. isprint c)"
  by (induction n) auto

lemma VRF_NAME_VALID_length: "VRF_NAME_VALID (Some n) \<Longrightarrow> length n < SHC_VRF_NAME_LEN"
  by (auto simp: VRF_NAME_VALID_def)

end
