(* ===== verification/Pmd_Ctx.thy ===== *)
theory Pmd_Ctx
  imports Dataplane
begin

text \<open>
  The packet threads' contexts: \<open>shc_pmd_ctx_t\<close> of \<open>agent/shc_dp.h\<close> and the table
  \<open>shc_pmd_ctxs\<close> of \<open>agent/pmd.c\<close>, its allocation (\<open>shc_pmd_ctx_create\<close>) and the walk over it
  (\<open>shc_pmd_thread_walk\<close>). The table has \<open>SHC_PMD_THR_MAX\<close> slots; a slot is NULL (\<open>None\<close>) or
  holds a context. The mempool, event base and timer handles of a context are the DPDK's and
  libevent's and are not part of the record.
\<close>

record shc_pmd_ctx =
  msize :: u32
  pid :: int
  ip_pktid :: u16
  evt_stat :: "u64 list"
  is_valid :: bool

definition SHC_PMD_THR_MAX :: nat where [const_defs]: "SHC_PMD_THR_MAX = 8"

type_synonym pmd_ctxs = "shc_pmd_ctx option list"

text \<open>A context fresh from \<open>calloc\<close>; \<open>n\<close> is the number of its counters.\<close>

definition shc_pmd_ctx_zero :: "nat \<Rightarrow> shc_pmd_ctx" where
  "shc_pmd_ctx_zero n =
     \<lparr>msize = 0, pid = 0, ip_pktid = 0, evt_stat = replicate n 0, is_valid = False\<rparr>"

section \<open>The walk\<close>

text \<open>
  The callback gets the context and the walk's argument, both of which it may change, and stops
  the walk with a negative result.
\<close>

fun shc_pmd_thread_walk ::
  "(shc_pmd_ctx \<Rightarrow> 'a \<Rightarrow> int \<times> shc_pmd_ctx \<times> 'a) \<Rightarrow> pmd_ctxs \<Rightarrow> 'a \<Rightarrow> pmd_ctxs \<times> 'a" where
  "shc_pmd_thread_walk cb [] arg = ([], arg)"
| "shc_pmd_thread_walk cb (None # cs) arg =
     (let (cs', arg') = shc_pmd_thread_walk cb cs arg in (None # cs', arg'))"
| "shc_pmd_thread_walk cb (Some c # cs) arg =
     (let (r, c', arg1) = cb c arg in
      if r < 0 then (Some c' # cs, arg1)
      else let (cs', arg') = shc_pmd_thread_walk cb cs arg1 in (Some c' # cs', arg'))"

lemma shc_pmd_thread_walk_length:
  "length (fst (shc_pmd_thread_walk cb cs arg)) = length cs"
  by (induction cb cs arg rule: shc_pmd_thread_walk.induct)
     (auto simp: Let_def split: prod.splits)

text \<open>A callback that never stops the walk and leaves the contexts alone folds over them.\<close>

lemma shc_pmd_thread_walk_fold:
  assumes "\<And>c a. cb c a = (0, c, g c a)"
  shows "shc_pmd_thread_walk cb cs arg = (cs, fold g (map the (filter (\<lambda>c. c \<noteq> None) cs)) arg)"
  using assms
  by (induction cb cs arg rule: shc_pmd_thread_walk.induct) (auto simp: Let_def)

text \<open>One that never stops it and changes each context on its own maps over them.\<close>

lemma shc_pmd_thread_walk_map:
  assumes "\<And>c a. cb c a = (0, g c, a)"
  shows "shc_pmd_thread_walk cb cs arg = (map (map_option g) cs, arg)"
  using assms
  by (induction cb cs arg rule: shc_pmd_thread_walk.induct) (auto simp: Let_def)

section \<open>Creating a context\<close>

text \<open>
  The first free slot, scanned from 0; \<open>calloc_ok\<close> says whether \<open>calloc\<close> returns memory. The
  result is the slot of the new context, or \<open>None\<close> for the NULL the function returns.
\<close>

fun pmd_free_slot :: "pmd_ctxs \<Rightarrow> nat \<Rightarrow> nat" where
  "pmd_free_slot [] i = i"
| "pmd_free_slot (None # cs) i = i"
| "pmd_free_slot (Some c # cs) i = pmd_free_slot cs (Suc i)"

definition shc_pmd_ctx_create :: "nat \<Rightarrow> bool \<Rightarrow> pmd_ctxs \<Rightarrow> nat option \<times> pmd_ctxs" where
  "shc_pmd_ctx_create n calloc_ok cs =
     (let i = pmd_free_slot cs 0 in
      if i \<ge> length cs then (None, cs)
      else if \<not> calloc_ok then (None, cs)
      else (Some i, cs[i := Some ((shc_pmd_ctx_zero n)\<lparr>pid := int i\<rparr>)]))"

lemma pmd_free_slot_ge: "i \<le> pmd_free_slot cs i"
  by (induction cs i rule: pmd_free_slot.induct) auto

lemma pmd_free_slot_spec:
  "pmd_free_slot cs i < i + length cs \<Longrightarrow>
     cs ! (pmd_free_slot cs i - i) = None \<and> (\<forall>j < pmd_free_slot cs i - i. cs ! j \<noteq> None)"
proof (induction cs i rule: pmd_free_slot.induct)
  case (3 c cs i)
  have ge: "Suc i \<le> pmd_free_slot cs (Suc i)" by (rule pmd_free_slot_ge)
  with 3 have IH: "cs ! (pmd_free_slot cs (Suc i) - Suc i) = None"
    "\<forall>j < pmd_free_slot cs (Suc i) - Suc i. cs ! j \<noteq> None" by auto
  obtain d where "pmd_free_slot cs (Suc i) = Suc i + d" using ge le_Suc_ex by blast
  with IH show ?case by (auto simp: nth_Cons split: nat.splits)
qed auto

lemma pmd_free_slot_full:
  "pmd_free_slot cs i \<ge> i + length cs \<longleftrightarrow> None \<notin> set cs"
proof (induction cs i rule: pmd_free_slot.induct)
  case (3 c cs i)
  then show ?case by simp
qed auto

text \<open>The table's invariant: a context sits in the slot its \<open>pid\<close> names.\<close>

definition pmd_ctxs_ok :: "pmd_ctxs \<Rightarrow> bool" where
  "pmd_ctxs_ok cs \<longleftrightarrow>
     length cs = SHC_PMD_THR_MAX \<and> (\<forall>i < length cs. \<forall>c. cs ! i = Some c \<longrightarrow> pid c = int i)"

text \<open>
  Creating a packet-thread context keeps the table well-formed (a context's \<open>pid\<close> is its
  slot, so no two threads share one), takes the lowest free slot, leaves every other slot alone,
  and fails exactly when all \<open>SHC_PMD_THR_MAX\<close> slots are taken or \<open>calloc\<close> fails.
\<close>

theorem shc_pmd_ctx_create_ok:
  assumes ok: "pmd_ctxs_ok cs" and run: "shc_pmd_ctx_create n calloc_ok cs = (r, cs')"
  shows "pmd_ctxs_ok cs' \<and> (r = None \<longleftrightarrow> None \<notin> set cs \<or> \<not> calloc_ok) \<and>
    (\<forall>i. r = Some i \<longrightarrow> cs ! i = None \<and> (\<forall>j < i. cs ! j \<noteq> None) \<and>
       cs' ! i = Some ((shc_pmd_ctx_zero n)\<lparr>pid := int i\<rparr>) \<and> (\<forall>j. j \<noteq> i \<longrightarrow> cs' ! j = cs ! j))"
proof -
  note spec = pmd_free_slot_spec [where cs = cs and i = 0]
    and full = pmd_free_slot_full [where cs = cs and i = 0]
  show ?thesis
  proof (cases "pmd_free_slot cs 0 \<ge> length cs \<or> \<not> calloc_ok")
    case True
    with run full ok show ?thesis
      by (auto simp: shc_pmd_ctx_create_def Let_def split: if_splits)
  next
    case False
    with run spec full ok show ?thesis
      by (auto simp: shc_pmd_ctx_create_def Let_def pmd_ctxs_ok_def nth_list_update split: if_splits)
  qed
qed

theorem shc_pmd_ctx_create_ok_witness:
  "pmd_ctxs_ok (snd (shc_pmd_ctx_create 40 True (replicate 8 None)))"
proof -
  have "pmd_ctxs_ok (replicate 8 None)" by (simp add: pmd_ctxs_ok_def SHC_PMD_THR_MAX_def)
  from shc_pmd_ctx_create_ok [OF this prod.collapse [symmetric]] show ?thesis by blast
qed

end
