(* ===== verification/Stat.thy ===== *)
theory Stat
  imports Pmd_Ctx
begin

text \<open>
  \<open>agent/stat.h\<close> and \<open>agent/stat.c\<close>: the software-forwarding event counters. The header lists the
  events in one X-macro with an error mark each; the constants here are its positions and
  \<open>PACKET_MAX\<close>, the last of them, is the number of counters. Every packet thread counts in its
  own array of 64-bit counters; the totals are summed over the threads' contexts.
\<close>

section \<open>Events\<close>

definition NETIO_MBUF_ALLOC_FAILED :: nat where [const_defs]: "NETIO_MBUF_ALLOC_FAILED = 0"
definition NETIO_PKT_RECV_FAILED :: nat where [const_defs]: "NETIO_PKT_RECV_FAILED = 1"
definition NETIO_PKT_RECV_SUCCEED :: nat where [const_defs]: "NETIO_PKT_RECV_SUCCEED = 2"
definition IP_TUNNEL_TYPE_UNSUPPORTED :: nat where [const_defs]: "IP_TUNNEL_TYPE_UNSUPPORTED = 3"
definition VXLAN_RX_NOT_UDP :: nat where [const_defs]: "VXLAN_RX_NOT_UDP = 4"
definition VXLAN_RX_NOT_VXLAN_PORT :: nat where [const_defs]: "VXLAN_RX_NOT_VXLAN_PORT = 5"
definition VXLAN_NOT_MAP_VRF :: nat where [const_defs]: "VXLAN_NOT_MAP_VRF = 6"
definition VXLAN_TX_MBUF_PREPARE_NOSPACE :: nat where [const_defs]: "VXLAN_TX_MBUF_PREPARE_NOSPACE = 7"
definition VXLAN_TX_SEND_FAILED :: nat where [const_defs]: "VXLAN_TX_SEND_FAILED = 8"
definition TGRE_INNER_NOT_IP4 :: nat where [const_defs]: "TGRE_INNER_NOT_IP4 = 9"
definition TGRE_NOT_MAP_VRF :: nat where [const_defs]: "TGRE_NOT_MAP_VRF = 10"
definition TGRE_TX_MBUF_PREPARE_NOSPACE :: nat where [const_defs]: "TGRE_TX_MBUF_PREPARE_NOSPACE = 11"
definition TGRE_TX_SEND_FAILED :: nat where [const_defs]: "TGRE_TX_SEND_FAILED = 12"
definition OVERLAY_IP_RECEIVED :: nat where [const_defs]: "OVERLAY_IP_RECEIVED = 13"
definition OVERLAY_IP_LOOKUP_ROUTE_FAILED :: nat where [const_defs]: "OVERLAY_IP_LOOKUP_ROUTE_FAILED = 14"
definition OVERLAY_IP_ROUTE_REJECT :: nat where [const_defs]: "OVERLAY_IP_ROUTE_REJECT = 15"
definition OVERLAY_IP_TTL_EXCEEDED :: nat where [const_defs]: "OVERLAY_IP_TTL_EXCEEDED = 16"
definition OVERLAY_IP_FORWARD_NOARP :: nat where [const_defs]: "OVERLAY_IP_FORWARD_NOARP = 17"
definition OVERLAY_IP_FORWARD_SEND :: nat where [const_defs]: "OVERLAY_IP_FORWARD_SEND = 18"
definition OVERLAY_ICMP_INTIP_NOT_SET :: nat where [const_defs]: "OVERLAY_ICMP_INTIP_NOT_SET = 19"
definition OVERLAY_ICMP_NOT_FIRST_FRAG :: nat where [const_defs]: "OVERLAY_ICMP_NOT_FIRST_FRAG = 20"
definition OVERLAY_ICMP_MBUF_ALLOC_FAILED :: nat where [const_defs]: "OVERLAY_ICMP_MBUF_ALLOC_FAILED = 21"
definition OVERLAY_ICMP_MBUF_PREP_NOSPACE :: nat where [const_defs]: "OVERLAY_ICMP_MBUF_PREP_NOSPACE = 22"
definition OVERLAY_ICMP_LOOKUP_ROUTE_FAILED :: nat where [const_defs]: "OVERLAY_ICMP_LOOKUP_ROUTE_FAILED = 23"
definition OVERLAY_ICMP_NEXTHOP_REJECT :: nat where [const_defs]: "OVERLAY_ICMP_NEXTHOP_REJECT = 24"
definition OVERLAY_ICMP_NEXTHOP_NOARP :: nat where [const_defs]: "OVERLAY_ICMP_NEXTHOP_NOARP = 25"
definition OVERLAY_ICMP_SEND :: nat where [const_defs]: "OVERLAY_ICMP_SEND = 26"
definition OVERLAY_ARP_RECEIVED :: nat where [const_defs]: "OVERLAY_ARP_RECEIVED = 27"
definition OVERLAY_ARP_REQ_RECEIVED :: nat where [const_defs]: "OVERLAY_ARP_REQ_RECEIVED = 28"
definition OVERLAY_ARP_REQ_NOT_TO_ME :: nat where [const_defs]: "OVERLAY_ARP_REQ_NOT_TO_ME = 29"
definition OVERLAY_ARP_REPLAY_SEND :: nat where [const_defs]: "OVERLAY_ARP_REPLAY_SEND = 30"
definition OVERLAY_ARP_PROBE_MBUF_ALLOC_FAILED :: nat where [const_defs]: "OVERLAY_ARP_PROBE_MBUF_ALLOC_FAILED = 31"
definition OVERLAY_ARP_PROBE_VRF_LOOKUP_FAILED :: nat where [const_defs]: "OVERLAY_ARP_PROBE_VRF_LOOKUP_FAILED = 32"
definition OVERLAY_ARP_PROBE_ROUTE_LOOKUP_FAILED :: nat where [const_defs]: "OVERLAY_ARP_PROBE_ROUTE_LOOKUP_FAILED = 33"
definition OVERLAY_ARP_PROBE_ROUTE_RESULT_REJECT :: nat where [const_defs]: "OVERLAY_ARP_PROBE_ROUTE_RESULT_REJECT = 34"
definition OVERLAY_ARP_PROBE_SELECT_SIP_FAILED :: nat where [const_defs]: "OVERLAY_ARP_PROBE_SELECT_SIP_FAILED = 35"
definition OVERLAY_ARP_PROBE_SEND :: nat where [const_defs]: "OVERLAY_ARP_PROBE_SEND = 36"
definition OVERLAY_ARP_LEARN_NOTIFY :: nat where [const_defs]: "OVERLAY_ARP_LEARN_NOTIFY = 37"
definition OVERLAY_ARP_LEARN_NOTIFY_FAILED :: nat where [const_defs]: "OVERLAY_ARP_LEARN_NOTIFY_FAILED = 38"
definition PACKET_MAX :: nat where [const_defs]: "PACKET_MAX = 39"

text \<open>The X-macro: each event with its error mark.\<close>

definition foreach_swf_evt_type :: "(nat \<times> int) list" where
  "foreach_swf_evt_type =
    [(NETIO_MBUF_ALLOC_FAILED, 1),
     (NETIO_PKT_RECV_FAILED, 1),
     (NETIO_PKT_RECV_SUCCEED, 0),
     (IP_TUNNEL_TYPE_UNSUPPORTED, 1),
     (VXLAN_RX_NOT_UDP, 1),
     (VXLAN_RX_NOT_VXLAN_PORT, 1),
     (VXLAN_NOT_MAP_VRF, 1),
     (VXLAN_TX_MBUF_PREPARE_NOSPACE, 1),
     (VXLAN_TX_SEND_FAILED, 1),
     (TGRE_INNER_NOT_IP4, 1),
     (TGRE_NOT_MAP_VRF, 1),
     (TGRE_TX_MBUF_PREPARE_NOSPACE, 1),
     (TGRE_TX_SEND_FAILED, 1),
     (OVERLAY_IP_RECEIVED, 0),
     (OVERLAY_IP_LOOKUP_ROUTE_FAILED, 1),
     (OVERLAY_IP_ROUTE_REJECT, 1),
     (OVERLAY_IP_TTL_EXCEEDED, 1),
     (OVERLAY_IP_FORWARD_NOARP, 1),
     (OVERLAY_IP_FORWARD_SEND, 0),
     (OVERLAY_ICMP_INTIP_NOT_SET, 1),
     (OVERLAY_ICMP_NOT_FIRST_FRAG, 1),
     (OVERLAY_ICMP_MBUF_ALLOC_FAILED, 1),
     (OVERLAY_ICMP_MBUF_PREP_NOSPACE, 1),
     (OVERLAY_ICMP_LOOKUP_ROUTE_FAILED, 1),
     (OVERLAY_ICMP_NEXTHOP_REJECT, 1),
     (OVERLAY_ICMP_NEXTHOP_NOARP, 1),
     (OVERLAY_ICMP_SEND, 0),
     (OVERLAY_ARP_RECEIVED, 0),
     (OVERLAY_ARP_REQ_RECEIVED, 0),
     (OVERLAY_ARP_REQ_NOT_TO_ME, 1),
     (OVERLAY_ARP_REPLAY_SEND, 0),
     (OVERLAY_ARP_PROBE_MBUF_ALLOC_FAILED, 1),
     (OVERLAY_ARP_PROBE_VRF_LOOKUP_FAILED, 1),
     (OVERLAY_ARP_PROBE_ROUTE_LOOKUP_FAILED, 1),
     (OVERLAY_ARP_PROBE_ROUTE_RESULT_REJECT, 1),
     (OVERLAY_ARP_PROBE_SELECT_SIP_FAILED, 1),
     (OVERLAY_ARP_PROBE_SEND, 0),
     (OVERLAY_ARP_LEARN_NOTIFY, 0),
     (OVERLAY_ARP_LEARN_NOTIFY_FAILED, 1),
     (PACKET_MAX, 0)]"

text \<open>The names the macro stringifies, in the same order.\<close>

definition shc_swf_evt_strs :: "String.literal list" where
  "shc_swf_evt_strs =
    [STR ''NETIO_MBUF_ALLOC_FAILED'',
     STR ''NETIO_PKT_RECV_FAILED'',
     STR ''NETIO_PKT_RECV_SUCCEED'',
     STR ''IP_TUNNEL_TYPE_UNSUPPORTED'',
     STR ''VXLAN_RX_NOT_UDP'',
     STR ''VXLAN_RX_NOT_VXLAN_PORT'',
     STR ''VXLAN_NOT_MAP_VRF'',
     STR ''VXLAN_TX_MBUF_PREPARE_NOSPACE'',
     STR ''VXLAN_TX_SEND_FAILED'',
     STR ''TGRE_INNER_NOT_IP4'',
     STR ''TGRE_NOT_MAP_VRF'',
     STR ''TGRE_TX_MBUF_PREPARE_NOSPACE'',
     STR ''TGRE_TX_SEND_FAILED'',
     STR ''OVERLAY_IP_RECEIVED'',
     STR ''OVERLAY_IP_LOOKUP_ROUTE_FAILED'',
     STR ''OVERLAY_IP_ROUTE_REJECT'',
     STR ''OVERLAY_IP_TTL_EXCEEDED'',
     STR ''OVERLAY_IP_FORWARD_NOARP'',
     STR ''OVERLAY_IP_FORWARD_SEND'',
     STR ''OVERLAY_ICMP_INTIP_NOT_SET'',
     STR ''OVERLAY_ICMP_NOT_FIRST_FRAG'',
     STR ''OVERLAY_ICMP_MBUF_ALLOC_FAILED'',
     STR ''OVERLAY_ICMP_MBUF_PREP_NOSPACE'',
     STR ''OVERLAY_ICMP_LOOKUP_ROUTE_FAILED'',
     STR ''OVERLAY_ICMP_NEXTHOP_REJECT'',
     STR ''OVERLAY_ICMP_NEXTHOP_NOARP'',
     STR ''OVERLAY_ICMP_SEND'',
     STR ''OVERLAY_ARP_RECEIVED'',
     STR ''OVERLAY_ARP_REQ_RECEIVED'',
     STR ''OVERLAY_ARP_REQ_NOT_TO_ME'',
     STR ''OVERLAY_ARP_REPLAY_SEND'',
     STR ''OVERLAY_ARP_PROBE_MBUF_ALLOC_FAILED'',
     STR ''OVERLAY_ARP_PROBE_VRF_LOOKUP_FAILED'',
     STR ''OVERLAY_ARP_PROBE_ROUTE_LOOKUP_FAILED'',
     STR ''OVERLAY_ARP_PROBE_ROUTE_RESULT_REJECT'',
     STR ''OVERLAY_ARP_PROBE_SELECT_SIP_FAILED'',
     STR ''OVERLAY_ARP_PROBE_SEND'',
     STR ''OVERLAY_ARP_LEARN_NOTIFY'',
     STR ''OVERLAY_ARP_LEARN_NOTIFY_FAILED'',
     STR ''PACKET_MAX'']"

definition SHC_SWF_EVT_TYPE_VALID :: "int \<Rightarrow> bool" where
  "SHC_SWF_EVT_TYPE_VALID t \<longleftrightarrow> 0 \<le> t \<and> t < int PACKET_MAX"

definition shc_swf_evt_str_get :: "int \<Rightarrow> String.literal" where
  "shc_swf_evt_str_get type =
     (if SHC_SWF_EVT_TYPE_VALID type then shc_swf_evt_strs ! nat type
      else STR ''SWF event type is not defined.'')"

definition shc_swf_evt_is_err :: "int \<Rightarrow> int" where
  "shc_swf_evt_is_err type =
     (if SHC_SWF_EVT_TYPE_VALID type then snd (foreach_swf_evt_type ! nat type) else 0)"

lemma foreach_swf_evt_type_indices: "map fst foreach_swf_evt_type = [0..<Suc PACKET_MAX]"
  by (simp add: foreach_swf_evt_type_def const_defs upt_rec)

section \<open>Counting\<close>

text \<open>
  \<open>SWF_EVT_STAT_INC\<close> counts in the array \<open>cur_thr_stats\<close> points to. The pointer is thread-local and
  starts NULL; the model gives it as the slot of the context whose array it points to.
\<close>

definition SWF_EVT_STAT_INC :: "nat \<Rightarrow> nat option \<Rightarrow> pmd_ctxs \<Rightarrow> pmd_ctxs option" where
  "SWF_EVT_STAT_INC type cur_thr_stats cs =
     (case cur_thr_stats of
        None \<Rightarrow> None
      | Some i \<Rightarrow>
          (if i < length cs then
             (case cs ! i of
                None \<Rightarrow> None
              | Some c \<Rightarrow>
                  if type < length (evt_stat c) then
                    Some (cs[i := Some (c\<lparr>evt_stat := (evt_stat c)[type := evt_stat c ! type + 1]\<rparr>)])
                  else None)
           else None))"

section \<open>Totals\<close>

definition pmd_thr_stat_cb :: "shc_pmd_ctx \<Rightarrow> u64 list \<Rightarrow> int \<times> shc_pmd_ctx \<times> u64 list" where
  "pmd_thr_stat_cb c tot = (0, c, map (\<lambda>i. tot ! i + evt_stat c ! i) [0..<PACKET_MAX])"

definition shc_swf_evt_stat_total_get :: "pmd_ctxs \<Rightarrow> int \<times> u64 list" where
  "shc_swf_evt_stat_total_get cs =
     (0, snd (shc_pmd_thread_walk pmd_thr_stat_cb cs (replicate PACKET_MAX 0)))"

definition pmd_thr_stat_clr_cb :: "shc_pmd_ctx \<Rightarrow> unit \<Rightarrow> int \<times> shc_pmd_ctx \<times> unit" where
  "pmd_thr_stat_clr_cb c u = (0, c\<lparr>evt_stat := replicate PACKET_MAX 0\<rparr>, u)"

definition shc_swf_evt_stat_clear :: "pmd_ctxs \<Rightarrow> int \<times> pmd_ctxs" where
  "shc_swf_evt_stat_clear cs = (0, fst (shc_pmd_thread_walk pmd_thr_stat_clr_cb cs ()))"

text \<open>The contexts in use.\<close>

definition live_ctxs :: "pmd_ctxs \<Rightarrow> shc_pmd_ctx list" where
  "live_ctxs cs = map the (filter (\<lambda>c. c \<noteq> None) cs)"

lemma fold_stat_nth:
  "i < PACKET_MAX \<Longrightarrow>
     fold (\<lambda>c tot. map (\<lambda>i. tot ! i + evt_stat c ! i) [0..<PACKET_MAX]) xs acc ! i =
       (if xs = [] then acc ! i else acc ! i + (\<Sum>c \<leftarrow> xs. evt_stat c ! i))"
  by (induction xs arbitrary: acc) (auto simp: add.assoc)

lemma total_get_fold:
  "snd (shc_swf_evt_stat_total_get cs) =
     fold (\<lambda>c tot. map (\<lambda>i. tot ! i + evt_stat c ! i) [0..<PACKET_MAX]) (live_ctxs cs)
       (replicate PACKET_MAX 0)"
  unfolding shc_swf_evt_stat_total_get_def live_ctxs_def
  by (subst shc_pmd_thread_walk_fold [where g = "\<lambda>c tot. map (\<lambda>i. tot ! i + evt_stat c ! i) [0..<PACKET_MAX]"])
     (simp_all add: pmd_thr_stat_cb_def)

text \<open>
  The totals are the sums over the packet threads' contexts, in 64-bit arithmetic; after the
  counters are cleared every total is zero, and clearing keeps the contexts themselves.
\<close>

theorem shc_swf_evt_stat_totals:
  "i < PACKET_MAX \<Longrightarrow>
     snd (shc_swf_evt_stat_total_get cs) ! i = (\<Sum>c \<leftarrow> live_ctxs cs. evt_stat c ! i) \<and>
     snd (shc_swf_evt_stat_total_get (snd (shc_swf_evt_stat_clear cs))) ! i = 0 \<and>
     map (map_option pid) (snd (shc_swf_evt_stat_clear cs)) = map (map_option pid) cs"
proof -
  assume i: "i < PACKET_MAX"
  have clr: "snd (shc_swf_evt_stat_clear cs)
      = map (map_option (\<lambda>c. c\<lparr>evt_stat := replicate PACKET_MAX 0\<rparr>)) cs"
    unfolding shc_swf_evt_stat_clear_def
    by (subst shc_pmd_thread_walk_map [where g = "\<lambda>c. c\<lparr>evt_stat := replicate PACKET_MAX 0\<rparr>"])
       (simp_all add: pmd_thr_stat_clr_cb_def)
  have z: "\<forall>c \<in> set (live_ctxs (snd (shc_swf_evt_stat_clear cs))). evt_stat c ! i = 0"
    using i by (auto simp: clr live_ctxs_def)
  then have "(\<Sum>c \<leftarrow> live_ctxs (snd (shc_swf_evt_stat_clear cs)). evt_stat c ! i) = 0"
    by (simp add: sum_list_0 cong: map_cong)
  with i show ?thesis
    by (auto simp: total_get_fold fold_stat_nth clr option.map_comp comp_def)
qed

theorem shc_swf_evt_stat_totals_witness:
  "snd (shc_swf_evt_stat_total_get
     [Some ((shc_pmd_ctx_zero 39)\<lparr>evt_stat := replicate 39 5\<rparr>), None,
      Some ((shc_pmd_ctx_zero 39)\<lparr>evt_stat := replicate 39 7\<rparr>)]) ! 3 = 12"
proof -
  have "3 < PACKET_MAX" by (simp add: PACKET_MAX_def)
  from shc_swf_evt_stat_totals [OF this, THEN conjunct1,
      of "[Some ((shc_pmd_ctx_zero 39)\<lparr>evt_stat := replicate 39 5\<rparr>), None,
           Some ((shc_pmd_ctx_zero 39)\<lparr>evt_stat := replicate 39 7\<rparr>)]"]
  show ?thesis by (simp add: live_ctxs_def)
qed

section \<open>Memory pools and sockets\<close>

text \<open>
  The pools and the sockets' heaps are the DPDK's. What the code reads of them is an argument:
  a pool's size and its available objects, or \<open>None\<close> where the lookup fails.
\<close>

record mempool_stat =
  mp_name :: String.literal
  count_avail :: u32
  count_inuse :: u32
  count_all :: u32

definition shc_mempool_stat_get :: "(u32 \<times> u32) option \<Rightarrow> int \<times> mempool_stat option" where
  "shc_mempool_stat_get mbuf_pool =
     (case mbuf_pool of
        None \<Rightarrow> (-1, None)
      | Some (sz, avail) \<Rightarrow>
          (0, Some \<lparr>mp_name = STR ''MBUF_POOL'', count_avail = avail,
                    count_inuse = sz - avail, count_all = sz\<rparr>))"

definition shc_mempool_cnt_get :: "'p list \<Rightarrow> u32" where
  "shc_mempool_cnt_get pools = fold (\<lambda>_ mpcnt. mpcnt + 1) pools 0"

definition mpool_stat_priv_cb ::
  "(mempool_stat \<Rightarrow> 'a \<Rightarrow> 'a) \<Rightarrow> String.literal \<times> u32 \<times> u32 \<Rightarrow> 'a \<Rightarrow> 'a" where
  "mpool_stat_priv_cb cb mp arg =
     (case mp of (name, sz, avail) \<Rightarrow>
        cb \<lparr>mp_name = name, count_avail = avail, count_inuse = sz - avail, count_all = sz\<rparr> arg)"

definition shc_mempool_stat_walk ::
  "(mempool_stat \<Rightarrow> 'a \<Rightarrow> 'a) \<Rightarrow> (String.literal \<times> u32 \<times> u32) list \<Rightarrow> 'a \<Rightarrow> 'a" where
  "shc_mempool_stat_walk cb pools arg = fold (mpool_stat_priv_cb cb) pools arg"

record shc_socket_mem_stat =
  node_id :: int
  total_bytes :: u64
  free_bytes :: u64
  alloc_bytes :: u64

text \<open>
  The loop over the NUMA nodes: \<open>stats i\<close> is what \<open>rte_malloc_get_socket_stats\<close> reports of node
  \<open>i\<close> (heap total, free and allocated bytes), \<open>None\<close> for a negative return. Entry \<open>nid\<close> of the
  caller's array is written only for a node that is available.
\<close>

fun socket_stat_loop ::
  "(int \<Rightarrow> (u64 \<times> u64 \<times> u64) option) \<Rightarrow> int list \<Rightarrow> shc_socket_mem_stat list \<Rightarrow> shc_socket_mem_stat list" where
  "socket_stat_loop stats [] out = out"
| "socket_stat_loop stats (i # is) out =
     (case stats i of
        None \<Rightarrow> socket_stat_loop stats is out
      | Some (tot, fr, al) \<Rightarrow>
          socket_stat_loop stats is
            (out @ [\<lparr>node_id = i, total_bytes = tot, free_bytes = fr, alloc_bytes = al\<rparr>]))"

definition shc_socket_mem_stat_get ::
  "(int \<Rightarrow> (u64 \<times> u64 \<times> u64) option) \<Rightarrow> int \<Rightarrow> int \<times> shc_socket_mem_stat list" where
  "shc_socket_mem_stat_get stats node_n =
     (let out = socket_stat_loop stats [0..node_n - 1] [] in (int (length out), out))"

lemma socket_stat_loop_ids:
  "map node_id (socket_stat_loop stats is out) =
     map node_id out @ filter (\<lambda>i. stats i \<noteq> None) is"
  by (induction stats "is" out rule: socket_stat_loop.induct) (auto split: option.splits)

text \<open>
  The per-socket memory report lists exactly the nodes that are available, in ascending
  order, and returns how many there are, never more than it was asked to look at.
\<close>

theorem shc_socket_mem_stat_get_nodes:
  "map node_id (snd (shc_socket_mem_stat_get stats n)) = filter (\<lambda>i. stats i \<noteq> None) [0..n - 1] \<and>
   fst (shc_socket_mem_stat_get stats n) = int (length (snd (shc_socket_mem_stat_get stats n))) \<and>
   fst (shc_socket_mem_stat_get stats n) \<le> max 0 n"
proof -
  have ids: "map node_id (snd (shc_socket_mem_stat_get stats n)) = filter (\<lambda>i. stats i \<noteq> None) [0..n - 1]"
    by (simp add: shc_socket_mem_stat_get_def Let_def socket_stat_loop_ids)
  have "length (snd (shc_socket_mem_stat_get stats n)) \<le> length [0..n - 1]"
    by (metis ids length_map length_filter_le)
  then show ?thesis
    using ids by (auto simp: shc_socket_mem_stat_get_def Let_def)
qed

end
