(* ===== verification/Agent_Types.thy ===== *)
theory Agent_Types
  imports Stat
begin

text \<open>
  The agent's data (\<open>agent/route.h\<close>, \<open>agent/neigh.h\<close>, \<open>agent/tunnel_map.h\<close>, \<open>agent/vrf.h\<close>,
  \<open>platform/drivers/hal_table_type.h\<close>) and the state its C files share.
\<close>

section \<open>Enumerations\<close>

datatype shc_encap_type =
  SHC_ENCAP_INVALID | SHC_ENCAP_VXLAN | SHC_ENCAP_TGRE | SHC_ENCAP_MAX

datatype rib_type = RT_DEFAULT | RT_MROUTE | RT_MAX

datatype prefix_type = RT_PREFIX_INVALID | RT_PREFIX_LPM | RT_PREFIX_HOST | RT_PREFIX_MAX

datatype shc_tunnel_type =
  SHC_TUNNEL_INVALID | SHC_TUNNEL_VXLAN | SHC_TUNNEL_TGRE | SHC_TUNNEL_MAX

text \<open>The range macros compare enumerators by their values, so the enumerations are ordered.\<close>

fun encap_code :: "shc_encap_type \<Rightarrow> int" where
  "encap_code SHC_ENCAP_INVALID = 0"
| "encap_code SHC_ENCAP_VXLAN = 1"
| "encap_code SHC_ENCAP_TGRE = 2"
| "encap_code SHC_ENCAP_MAX = 3"

fun tunnel_code :: "shc_tunnel_type \<Rightarrow> int" where
  "tunnel_code SHC_TUNNEL_INVALID = 0"
| "tunnel_code SHC_TUNNEL_VXLAN = 1"
| "tunnel_code SHC_TUNNEL_TGRE = 2"
| "tunnel_code SHC_TUNNEL_MAX = 3"

fun rib_code :: "rib_type \<Rightarrow> int" where
  "rib_code RT_DEFAULT = 0"
| "rib_code RT_MROUTE = 1"
| "rib_code RT_MAX = 2"

lemma encap_code_inj: "encap_code a = encap_code b \<Longrightarrow> a = b"
  by (cases a; cases b) auto

lemma tunnel_code_inj: "tunnel_code a = tunnel_code b \<Longrightarrow> a = b"
  by (cases a; cases b) auto

lemma rib_code_inj: "rib_code a = rib_code b \<Longrightarrow> a = b"
  by (cases a; cases b) auto

instantiation shc_encap_type :: linorder
begin
definition less_eq_shc_encap_type :: "shc_encap_type \<Rightarrow> shc_encap_type \<Rightarrow> bool" where
  "a \<le> b \<longleftrightarrow> encap_code a \<le> encap_code b"
definition less_shc_encap_type :: "shc_encap_type \<Rightarrow> shc_encap_type \<Rightarrow> bool" where
  "a < b \<longleftrightarrow> encap_code a < encap_code b"
instance
  by standard (auto simp: less_eq_shc_encap_type_def less_shc_encap_type_def intro: encap_code_inj)
end

instantiation shc_tunnel_type :: linorder
begin
definition less_eq_shc_tunnel_type :: "shc_tunnel_type \<Rightarrow> shc_tunnel_type \<Rightarrow> bool" where
  "a \<le> b \<longleftrightarrow> tunnel_code a \<le> tunnel_code b"
definition less_shc_tunnel_type :: "shc_tunnel_type \<Rightarrow> shc_tunnel_type \<Rightarrow> bool" where
  "a < b \<longleftrightarrow> tunnel_code a < tunnel_code b"
instance
  by standard (auto simp: less_eq_shc_tunnel_type_def less_shc_tunnel_type_def intro: tunnel_code_inj)
end

instantiation rib_type :: linorder
begin
definition less_eq_rib_type :: "rib_type \<Rightarrow> rib_type \<Rightarrow> bool" where
  "a \<le> b \<longleftrightarrow> rib_code a \<le> rib_code b"
definition less_rib_type :: "rib_type \<Rightarrow> rib_type \<Rightarrow> bool" where
  "a < b \<longleftrightarrow> rib_code a < rib_code b"
instance
  by standard (auto simp: less_eq_rib_type_def less_rib_type_def intro: rib_code_inj)
end

definition SHC_ENCAP_TYPE_VALID :: "shc_encap_type \<Rightarrow> bool" where
  "SHC_ENCAP_TYPE_VALID proto \<longleftrightarrow> proto > SHC_ENCAP_INVALID \<and> proto < SHC_ENCAP_MAX"

definition SHC_ROUTE_TYPE_VALID :: "rib_type \<Rightarrow> bool" where
  "SHC_ROUTE_TYPE_VALID rtype \<longleftrightarrow> rtype \<ge> RT_DEFAULT \<and> rtype < RT_MAX"

definition TUNNEL_TYPE_VALID :: "shc_tunnel_type \<Rightarrow> bool" where
  "TUNNEL_TYPE_VALID type \<longleftrightarrow> type > SHC_TUNNEL_INVALID \<and> type < SHC_TUNNEL_MAX"

lemma SHC_ENCAP_TYPE_VALID_iff:
  "SHC_ENCAP_TYPE_VALID p \<longleftrightarrow> p = SHC_ENCAP_VXLAN \<or> p = SHC_ENCAP_TGRE"
  by (cases p) (auto simp: SHC_ENCAP_TYPE_VALID_def less_shc_encap_type_def)

lemma SHC_ROUTE_TYPE_VALID_iff: "SHC_ROUTE_TYPE_VALID r \<longleftrightarrow> r = RT_DEFAULT \<or> r = RT_MROUTE"
  by (cases r) (auto simp: SHC_ROUTE_TYPE_VALID_def less_eq_rib_type_def less_rib_type_def)

lemma TUNNEL_TYPE_VALID_iff:
  "TUNNEL_TYPE_VALID t \<longleftrightarrow> t = SHC_TUNNEL_VXLAN \<or> t = SHC_TUNNEL_TGRE"
  by (cases t) (auto simp: TUNNEL_TYPE_VALID_def less_shc_tunnel_type_def)

text \<open>\<open>MAX_VNI_ID\<close> is \<open>1UL << 24\<close> (the comment beside it in the header says \<open>1 << 24-1\<close>).\<close>

definition VNI_ID_VALID :: "int \<Rightarrow> bool" where
  "VNI_ID_VALID v \<longleftrightarrow> 1 \<le> v \<and> v \<le> 2 ^ 24"

section \<open>Keys and records\<close>

text \<open>
  \<open>struct ip_tunnel_info\<close> is packed: a family byte, the encapsulation type and a union of two
  structs of three 32-bit words each. The union is its three words; \<open>vxlan\<close> reads them as remote,
  local and the bit fields \<open>vni:24, dscp:8\<close> (the VNI in the low bits), \<open>tgre\<close> as remote, vpcid
  and vmip. Two records are equal exactly when \<open>memcmp\<close> finds the structs equal.
\<close>

record ip_tunnel_info =
  tun_family :: u8
  tun_type :: shc_encap_type
  tun_w0 :: u32
  tun_w1 :: u32
  tun_w2 :: u32

definition vxlan_remote :: "ip_tunnel_info \<Rightarrow> u32" where "vxlan_remote t = tun_w0 t"
definition vxlan_local :: "ip_tunnel_info \<Rightarrow> u32" where "vxlan_local t = tun_w1 t"
definition vxlan_vni :: "ip_tunnel_info \<Rightarrow> u32" where "vxlan_vni t = take_bit 24 (tun_w2 t)"
definition vxlan_dscp :: "ip_tunnel_info \<Rightarrow> u32" where "vxlan_dscp t = drop_bit 24 (tun_w2 t)"
definition tgre_vpcid :: "ip_tunnel_info \<Rightarrow> u32" where "tgre_vpcid t = tun_w1 t"

record shc_rib_key =
  rk_vrf_id :: u32
  rk_family :: u8
  rk_prefixlen :: u8
  rk_prefix4 :: u32

text \<open>\<open>struct fib_nhop_encap_data\<close>, and \<open>struct shc_nhop_hash_key\<close> with the same fields.\<close>

record nhop_key =
  nk_gateway :: u32
  nk_tunnel_info :: ip_tunnel_info

record ol_neigh_lookup_key =
  nl_vrfid :: u32
  nl_nexthop :: u32

record tunnel_map_key =
  tm_type :: shc_tunnel_type
  tm_id :: u32

text \<open>The keys of the agent's hash tables; a table only ever holds keys of one kind.\<close>

datatype hkey =
    K_rib shc_rib_key
  | K_nhop nhop_key
  | K_neigh ol_neigh_lookup_key
  | K_tun tunnel_map_key

record fib_nhop =
  nh_oid :: u32
  nh_ref_count :: u32
  nh_neigh_oid :: u32
  nh_gateway :: u32
  nh_tunnel_info :: ip_tunnel_info
  nh_exit_flag :: u8

text \<open>
  \<open>struct fib_res\<close>. The array \<open>mpath\<close> has \<open>ROUTE_MAX_ECMP\<close> slots, each NULL or a next hop's
  address. The two counts never exceed \<open>MROUTE_MAX_ECMP\<close> and are naturals.
\<close>

record fib_res =
  f_res_oid :: u32
  fr_flags :: u32
  mpath_cnt :: nat
  mpath_max :: nat
  mpath :: "ptr list"
  lpm_em :: int

type_synonym mac = "u8 list"

text \<open>
  \<open>struct ol_neigh_entry\<close>: the one-bit fields are booleans, \<open>hh\<close> the 22 bytes of the header
  template; the timestamps no function uses are left out.
\<close>

record ol_neigh_entry =
  F_arp_valid :: bool
  F_fast_arp :: bool
  F_entry_valid :: bool
  F_arp_static :: bool
  hh_len :: u8
  hh :: "u8 list"
  ne_neigh_oid :: u32
  ne_refcnt :: u32
  ne_exit_flag :: u8

record shc_tunnel_attr =
  urpf :: bool
  htab16 :: bool

definition TUNNEL_ATTR_EQUAL :: "shc_tunnel_attr \<Rightarrow> shc_tunnel_attr \<Rightarrow> bool" where
  "TUNNEL_ATTR_EQUAL t1 t2 \<longleftrightarrow> urpf t1 = urpf t2 \<and> htab16 t1 = htab16 t2"

record shc_tunnel_info =
  ti_type :: shc_tunnel_type
  ti_id :: u32
  ti_bd_ids :: "u32 list"
  ti_vrf_id :: u32
  ti_attribute :: shc_tunnel_attr
  ti_exit_flag :: u8

text \<open>
  The list of offloaded destinations of a VRF. A node is reachable from its list only, so a list
  is the sequence of its nodes; \<open>List_len\<close> is the separate counter the code keeps, an \<open>int\<close> of 32 bits
  that is read with its sign. It wraps here; in C a step over \<open>2 ^ 31\<close> is undefined, and the properties stay
  below it.
\<close>

record linkNode =
  lpm_counter :: u32
  rout_info :: u32

record ListNode_t =
  List_head :: "linkNode list"
  List_len :: "32 word"

text \<open>
  \<open>vrf_dp_t\<close>. All VRFs' \<open>rib\<close> pointers are the one shared table and their \<open>fib_res_array\<close>
  pointers the one shared array, which are fields of the agent's state. \<open>tunnel_rmap\<close> is the
  singly linked list of tunnel records, as the sequence of their addresses. \<open>List_Node\<close> is a
  pointer, NULL (\<open>None\<close>) until a list is made.
\<close>

record 'f vrf_dp =
  fib :: 'f
  rib_cnt :: u32
  tunnel_rmap :: "ptr list"
  tunnel_cnt :: u32
  neigh_cnt :: u32
  internal_ip :: u32
  route_mac :: mac
  vrf_id :: u32
  exit_flag :: u8
  List_Node :: "ListNode_t option"

text \<open>A VRF slot; \<open>name\<close> holds the characters before the NUL, or all 64 where none is stored.\<close>

record 'f shc_vrf =
  name :: string
  valid :: bool
  dp :: "'f vrf_dp"

section \<open>Route flags\<close>

definition FRF_REJECT :: u32 where "FRF_REJECT = push_bit 0 1"
definition FRF_MROUTE :: u32 where "FRF_MROUTE = push_bit 1 1"
definition FRF_NOTTL :: u32 where "FRF_NOTTL = push_bit 2 1"

definition fib_res_is_reject :: "fib_res \<Rightarrow> bool" where
  "fib_res_is_reject f_res \<longleftrightarrow> fr_flags f_res AND FRF_REJECT \<noteq> 0"

definition fib_res_is_mroute :: "fib_res \<Rightarrow> bool" where
  "fib_res_is_mroute f_res \<longleftrightarrow> fr_flags f_res AND FRF_MROUTE \<noteq> 0"

definition fib_res_is_nottl :: "fib_res \<Rightarrow> bool" where
  "fib_res_is_nottl f_res \<longleftrightarrow> fr_flags f_res AND FRF_NOTTL \<noteq> 0"

definition fib_res_set_flags :: "fib_res \<Rightarrow> u32 \<Rightarrow> fib_res" where
  "fib_res_set_flags f_res flags = f_res\<lparr>fr_flags := fr_flags f_res OR flags\<rparr>"

definition fib_res_unset_flags :: "fib_res \<Rightarrow> u32 \<Rightarrow> fib_res" where
  "fib_res_unset_flags f_res flags = f_res\<lparr>fr_flags := fr_flags f_res AND NOT flags\<rparr>"

definition fib_res_clone_flags :: "fib_res \<Rightarrow> fib_res \<Rightarrow> fib_res" where
  "fib_res_clone_flags f_res_d f_res_s = f_res_d\<lparr>fr_flags := fr_flags f_res_s\<rparr>"

lemma mroute_set_unset:
  "fib_res_is_mroute (fib_res_set_flags r FRF_MROUTE)"
  "\<not> fib_res_is_mroute (fib_res_unset_flags r FRF_MROUTE)"
proof -
  have b: "(fr_flags r OR FRF_MROUTE) AND FRF_MROUTE = FRF_MROUTE"
    by (rule bit_eqI) (auto simp: bit_simps)
  show "fib_res_is_mroute (fib_res_set_flags r FRF_MROUTE)"
    by (simp add: fib_res_is_mroute_def fib_res_set_flags_def b) (simp add: FRF_MROUTE_def)
  have c: "(fr_flags r AND NOT FRF_MROUTE) AND FRF_MROUTE = 0"
    by (rule bit_eqI) (auto simp: bit_simps)
  show "\<not> fib_res_is_mroute (fib_res_unset_flags r FRF_MROUTE)"
    by (simp add: fib_res_is_mroute_def fib_res_unset_flags_def c)
qed

section \<open>The hardware tables' entries\<close>

datatype hal_tunnel_key_type = TYPE_TUNNEL_TYPE_NONE | TYPE_TUNNEL_TYPE_VXLAN | TYPE_TUNNEL_TYPE_GRE

record hal_tunnel_map_vrf_key =
  hk_tunnel_type :: hal_tunnel_key_type
  hk_tunnel_key :: u32

record hal_tunnel_map_vrf_data =
  hd_vrf :: u16

record hal_route_key =
  hk_vrf :: u16
  hk_ip_src_addr :: u32
  hk_ip_dst_addr :: u32

record hal_route_data =
  hd_nhop_id :: u32

record hal_nhop_key =
  hk_nhop_id :: u32

record hal_nhop_data =
  hd_tunnel_key :: u32
  hd_local :: u32
  hd_remote :: u32
  hd_neigh_id :: u32

record hal_neigh_key =
  hk_neigh_id :: u32

record hal_neigh_data =
  hd_dmac :: mac

text \<open>The calls the agent makes into the hardware abstraction layer.\<close>

datatype hal_call =
    Hal_tunnel_map_vrf_entry_add hal_tunnel_map_vrf_key hal_tunnel_map_vrf_data
  | Hal_tunnel_map_vrf_entry_del hal_tunnel_map_vrf_key
  | Hal_route_entry_add hal_route_key hal_route_data
  | Hal_route_entry_del hal_route_key
  | Hal_nhop_entry_add hal_nhop_key hal_nhop_data
  | Hal_nhop_entry_del hal_nhop_key
  | Hal_neigh_entry_add hal_neigh_key hal_neigh_data
  | Hal_neigh_entry_del hal_neigh_key
  | Hal_nhop_alloc_oid
  | Hal_neigh_alloc_oid

type_synonym hal_trace = "(hal_call \<times> int) list"

section \<open>The libraries\<close>

text \<open>
  What the agent calls of code that is not its own: the DPDK's hash tables (of type \<open>'h\<close>), LPM
  tables (\<open>'f\<close>), file-backed array's slot bitmap (\<open>'b\<close>) and allocator, the C library's
  \<open>malloc\<close>, and the answers of the hardware layer to the calls made so far. Every function of the
  model that uses one of them takes this record as its argument \<open>E\<close>.

  \<^item> \<open>rte_hash_lookup_data\<close> gives the data stored with a key, \<open>None\<close> for a negative return (the
    data pointer is then not written); the other hash, LPM and array operations give their return
    value and the table after the call.
  \<^item> \<open>rte_fib_lookup\<close> is \<open>rte_fib_lookup_bulk\<close> of one address.
  \<^item> \<open>rte_zmalloc\<close> is given which addresses are in use and returns the address of a zeroed
    object, or 0.
  \<^item> \<open>malloc_ok\<close> says that no \<open>malloc\<close> of the run fails. The agent writes through the result of a
    \<open>malloc\<close> without a test, so after a failing one it dereferences NULL and the call is \<open>None\<close>;
    the runs that the properties speak of are those in which none fails.
  \<^item> \<open>rte_assert_on\<close> says whether \<open>RTE_ASSERT\<close> is compiled in (the DPDK leaves it out unless
    \<open>RTE_ENABLE_ASSERT\<close> is defined, which this build does not do).
  \<^item> \<open>hal_status\<close> and \<open>hal_oid\<close> are the status of a hardware call and the identifier an
    allocation call writes, given the calls made before it.
\<close>

record ('h, 'f, 'b) lib =
  rte_hash_create :: "string \<Rightarrow> int \<Rightarrow> 'h option"
  rte_hash_lookup_data :: "'h \<Rightarrow> hkey \<Rightarrow> int option"
  rte_hash_add_key_data :: "'h \<Rightarrow> hkey \<Rightarrow> int \<Rightarrow> int \<times> 'h"
  rte_hash_del_key :: "'h \<Rightarrow> hkey \<Rightarrow> int \<times> 'h"
  rte_hash_iterate :: "'h \<Rightarrow> nat \<Rightarrow> (hkey \<times> int \<times> nat) option"
  rte_fib_create :: "u32 \<Rightarrow> int \<Rightarrow> int \<Rightarrow> 'f option"
  rte_fib_add :: "'f \<Rightarrow> u32 \<Rightarrow> u8 \<Rightarrow> int \<Rightarrow> int \<times> 'f"
  rte_fib_delete :: "'f \<Rightarrow> u32 \<Rightarrow> u8 \<Rightarrow> int \<times> 'f"
  rte_fib_lookup :: "'f \<Rightarrow> u32 \<Rightarrow> int"
  rte_fbarray_init :: "int \<Rightarrow> int \<times> 'b"
  rte_fbarray_find_next_free :: "'b \<Rightarrow> int \<Rightarrow> int"
  rte_fbarray_set_used :: "'b \<Rightarrow> int \<Rightarrow> int \<times> 'b"
  rte_fbarray_set_free :: "'b \<Rightarrow> int \<Rightarrow> int \<times> 'b"
  rte_zmalloc :: "(ptr \<Rightarrow> bool) \<Rightarrow> ptr"
  malloc_ok :: bool
  rte_assert_on :: bool
  hal_status :: "hal_trace \<Rightarrow> hal_call \<Rightarrow> int"
  hal_oid :: "hal_trace \<Rightarrow> hal_call \<Rightarrow> u32"

definition RTE_ASSERT :: "('h, 'f, 'b) lib \<Rightarrow> bool \<Rightarrow> unit option" where
  "RTE_ASSERT E c = (if rte_assert_on E \<and> \<not> c then None else Some ())"

lemma RTE_ASSERT_off [simp]: "\<not> rte_assert_on E \<Longrightarrow> RTE_ASSERT E c = Some ()"
  by (simp add: RTE_ASSERT_def)

lemma RTE_ASSERT_holds [simp]: "RTE_ASSERT E True = Some ()"
  by (simp add: RTE_ASSERT_def)

section \<open>The agent's state\<close>

text \<open>
  The file-scope variables of \<open>vrf.c\<close>, \<open>route.c\<close>, \<open>neigh.c\<close>, \<open>tunnel_map.c\<close> and \<open>pmd.c\<close>, the
  objects they point to (one partial map from addresses per C type; an address outside it is not
  a live object), and the calls made to the hardware layer so far, the last first.
\<close>

record ('h, 'f, 'b) agent =
  g_shc_vrfs :: "nat \<Rightarrow> 'f shc_vrf"
  g_shc_vrf_n :: int
  f_res_blackhole :: int
  fib_res_used :: 'b
  fib_res_mem :: "int \<Rightarrow> fib_res"
  rib_tbl :: 'h
  nhop_tbl :: 'h
  nhop_mem :: "ptr \<rightharpoonup> fib_nhop"
  neigh_tbl :: 'h
  neigh_count :: u32
  neigh_mem :: "ptr \<rightharpoonup> ol_neigh_entry"
  vrf_hash_tbl :: 'h
  tunnel_mem :: "ptr \<rightharpoonup> shc_tunnel_info"
  fake_mac :: mac
  def_gw_mac :: mac
  pmd_ctxs_tbl :: pmd_ctxs
  cur_thr_stats :: "nat option"
  hal_log :: hal_trace

text \<open>A pointer to the data plane of a VRF is the VRF's slot; writing through it:\<close>

abbreviation vrf_dp_of :: "('h, 'f, 'b) agent \<Rightarrow> nat \<Rightarrow> 'f vrf_dp" where
  "vrf_dp_of s v \<equiv> dp (g_shc_vrfs s v)"

definition dp_upd :: "nat \<Rightarrow> ('f vrf_dp \<Rightarrow> 'f vrf_dp) \<Rightarrow> ('h, 'f, 'b) agent \<Rightarrow> ('h, 'f, 'b) agent" where
  "dp_upd v g s = s\<lparr>g_shc_vrfs := (g_shc_vrfs s)(v := (g_shc_vrfs s v)\<lparr>dp := g (vrf_dp_of s v)\<rparr>)\<rparr>"

lemma dp_upd_simps [simp]:
  "neigh_tbl (dp_upd v g s) = neigh_tbl s" "neigh_mem (dp_upd v g s) = neigh_mem s"
  "neigh_count (dp_upd v g s) = neigh_count s" "hal_log (dp_upd v g s) = hal_log s"
  "nhop_tbl (dp_upd v g s) = nhop_tbl s" "nhop_mem (dp_upd v g s) = nhop_mem s"
  "rib_tbl (dp_upd v g s) = rib_tbl s" "fib_res_mem (dp_upd v g s) = fib_res_mem s"
  "fib_res_used (dp_upd v g s) = fib_res_used s" "f_res_blackhole (dp_upd v g s) = f_res_blackhole s"
  "vrf_hash_tbl (dp_upd v g s) = vrf_hash_tbl s" "tunnel_mem (dp_upd v g s) = tunnel_mem s"
  "g_shc_vrf_n (dp_upd v g s) = g_shc_vrf_n s" "fake_mac (dp_upd v g s) = fake_mac s"
  "def_gw_mac (dp_upd v g s) = def_gw_mac s" "pmd_ctxs_tbl (dp_upd v g s) = pmd_ctxs_tbl s"
  "cur_thr_stats (dp_upd v g s) = cur_thr_stats s"
  by (simp_all add: dp_upd_def)

lemma vrf_dp_of_upd [simp]:
  "vrf_dp_of (dp_upd v g s) w = (if w = v then g (vrf_dp_of s v) else vrf_dp_of s w)"
  by (simp add: dp_upd_def)

lemma vrf_slot_upd [simp]:
  "valid (g_shc_vrfs (dp_upd v g s) w) = valid (g_shc_vrfs s w)"
  "name (g_shc_vrfs (dp_upd v g s) w) = name (g_shc_vrfs s w)"
  by (simp_all add: dp_upd_def)

text \<open>A call into the hardware layer: its status, and the call in the trace.\<close>

definition hal_do ::
  "('h, 'f, 'b) lib \<Rightarrow> hal_call \<Rightarrow> ('h, 'f, 'b) agent \<Rightarrow> int \<times> ('h, 'f, 'b) agent" where
  "hal_do E c s = (let st = hal_status E (hal_log s) c in (st, s\<lparr>hal_log := (c, st) # hal_log s\<rparr>))"

end
