(* ===== verification/Hal_Shim.thy ===== *)
theory Hal_Shim
  imports Agent_Types
begin

text \<open>
  The shims over the hardware tables: the static \<open>_shc_hal_*\<close> functions of \<open>route.c\<close>, \<open>neigh.c\<close>
  and \<open>tunnel_map.c\<close>. Each makes one call of the hardware layer, whose status is 0 on success,
  and returns 0 or \<open>SHC_LOAD_TO_P4_FAIL\<close>. The logging of a failure is left out.
\<close>

definition hal_ret :: "int \<Rightarrow> int" where
  "hal_ret st = (if st \<noteq> 0 then SHC_LOAD_TO_P4_FAIL else 0)"

section \<open>\<open>route.c\<close>\<close>

text \<open>\<open>hal_route_key.vrf\<close> has 16 bits; the VRF identifier is cut to them.\<close>

definition shc_hal_route_entry_add ::
  "('h, 'f, 'b) lib \<Rightarrow> u32 \<Rightarrow> u32 \<Rightarrow> u32 \<Rightarrow> u32 \<Rightarrow> ('h, 'f, 'b) agent \<Rightarrow> int \<times> ('h, 'f, 'b) agent" where
  "shc_hal_route_entry_add E vrfid src_ip dst_ip nhoid s =
     (let key1 = \<lparr>hk_vrf = ucast vrfid, hk_ip_src_addr = src_ip, hk_ip_dst_addr = dst_ip\<rparr>;
          data1 = \<lparr>hd_nhop_id = nhoid\<rparr>;
          (st, s') = hal_do E (Hal_route_entry_add key1 data1) s
      in (hal_ret st, s'))"

definition shc_hal_route_entry_del ::
  "('h, 'f, 'b) lib \<Rightarrow> u32 \<Rightarrow> u32 \<Rightarrow> u32 \<Rightarrow> ('h, 'f, 'b) agent \<Rightarrow> int \<times> ('h, 'f, 'b) agent" where
  "shc_hal_route_entry_del E vrfid src_ip dst_ip s =
     (let key1 = \<lparr>hk_vrf = ucast vrfid, hk_ip_src_addr = src_ip, hk_ip_dst_addr = dst_ip\<rparr>;
          (st, s') = hal_do E (Hal_route_entry_del key1) s
      in (hal_ret st, s'))"

text \<open>
  The next-hop entry takes its tunnel key and its local address from constants (11 and
  \<open>0xD00001\<close>), not from the parameters the caller passes.
\<close>

definition shc_hal_nhop_entry_add ::
  "('h, 'f, 'b) lib \<Rightarrow> u32 \<Rightarrow> u32 \<Rightarrow> u32 \<Rightarrow> u32 \<Rightarrow> u32 \<Rightarrow> ('h, 'f, 'b) agent
     \<Rightarrow> int \<times> ('h, 'f, 'b) agent" where
  "shc_hal_nhop_entry_add E nhop_id tunnel_key local remote neigh_id s =
     (let key1 = \<lparr>hk_nhop_id = nhop_id\<rparr>;
          data1 = \<lparr>hd_tunnel_key = 11, hd_local = 0xD00001, hd_remote = remote,
                   hd_neigh_id = neigh_id\<rparr>;
          (st, s') = hal_do E (Hal_nhop_entry_add key1 data1) s
      in (hal_ret st, s'))"

definition shc_hal_nhop_entry_del ::
  "('h, 'f, 'b) lib \<Rightarrow> u32 \<Rightarrow> ('h, 'f, 'b) agent \<Rightarrow> int \<times> ('h, 'f, 'b) agent" where
  "shc_hal_nhop_entry_del E nhop_id s =
     (let (st, s') = hal_do E (Hal_nhop_entry_del \<lparr>hk_nhop_id = nhop_id\<rparr>) s
      in (hal_ret st, s'))"

section \<open>\<open>neigh.c\<close>\<close>

definition shc_hal_neigh_entry_add ::
  "('h, 'f, 'b) lib \<Rightarrow> u32 \<Rightarrow> mac \<Rightarrow> ('h, 'f, 'b) agent \<Rightarrow> int \<times> ('h, 'f, 'b) agent" where
  "shc_hal_neigh_entry_add E oid dmac s =
     (let key1 = \<lparr>hk_neigh_id = oid\<rparr>; data1 = \<lparr>hd_dmac = take 6 dmac\<rparr>;
          (st, s') = hal_do E (Hal_neigh_entry_add key1 data1) s
      in (hal_ret st, s'))"

definition shc_hal_neigh_entry_del ::
  "('h, 'f, 'b) lib \<Rightarrow> u32 \<Rightarrow> ('h, 'f, 'b) agent \<Rightarrow> int \<times> ('h, 'f, 'b) agent" where
  "shc_hal_neigh_entry_del E oid s =
     (let (st, s') = hal_do E (Hal_neigh_entry_del \<lparr>hk_neigh_id = oid\<rparr>) s
      in (hal_ret st, s'))"

section \<open>\<open>tunnel_map.c\<close>\<close>

text \<open>
  A tunnel identifier is a union of three names for the same 32 bits, so \<open>id.vpcid\<close> and \<open>id.vni\<close>
  are the same number.
\<close>

definition shc_hal_tunnel_map_vrf_entry_add ::
  "('h, 'f, 'b) lib \<Rightarrow> shc_tunnel_type \<Rightarrow> u32 \<Rightarrow> u32 \<Rightarrow> ('h, 'f, 'b) agent
     \<Rightarrow> int \<times> ('h, 'f, 'b) agent" where
  "shc_hal_tunnel_map_vrf_entry_add E type tid vrfid s =
     (let (key1, data1) =
            (if type = SHC_TUNNEL_VXLAN then
               (\<lparr>hk_tunnel_type = TYPE_TUNNEL_TYPE_VXLAN, hk_tunnel_key = tid\<rparr>,
                \<lparr>hd_vrf = ucast vrfid\<rparr>)
             else
               (\<lparr>hk_tunnel_type = TYPE_TUNNEL_TYPE_GRE, hk_tunnel_key = tid\<rparr>,
                \<lparr>hd_vrf = ucast tid\<rparr>));
          (st, s') = hal_do E (Hal_tunnel_map_vrf_entry_add key1 data1) s
      in (hal_ret st, s'))"

definition shc_hal_tunnel_map_vrf_entry_del ::
  "('h, 'f, 'b) lib \<Rightarrow> shc_tunnel_type \<Rightarrow> u32 \<Rightarrow> ('h, 'f, 'b) agent \<Rightarrow> int \<times> ('h, 'f, 'b) agent" where
  "shc_hal_tunnel_map_vrf_entry_del E type tid s =
     (let key1 = (if type = SHC_TUNNEL_VXLAN
                  then \<lparr>hk_tunnel_type = TYPE_TUNNEL_TYPE_VXLAN, hk_tunnel_key = tid\<rparr>
                  else \<lparr>hk_tunnel_type = TYPE_TUNNEL_TYPE_GRE, hk_tunnel_key = tid\<rparr>);
          (st, s') = hal_do E (Hal_tunnel_map_vrf_entry_del key1) s
      in (hal_ret st, s'))"

lemmas hal_shim_defs =
  shc_hal_route_entry_add_def shc_hal_route_entry_del_def shc_hal_nhop_entry_add_def
  shc_hal_nhop_entry_del_def shc_hal_neigh_entry_add_def shc_hal_neigh_entry_del_def
  shc_hal_tunnel_map_vrf_entry_add_def shc_hal_tunnel_map_vrf_entry_del_def

text \<open>A shim's result is negative exactly when the hardware call failed.\<close>

lemma hal_ret_neg [simp]: "hal_ret st < 0 \<longleftrightarrow> st \<noteq> 0"
  by (simp add: hal_ret_def const_defs)

lemma hal_ret_zero [simp]: "hal_ret st = 0 \<longleftrightarrow> st = 0"
  by (simp add: hal_ret_def const_defs)

lemma hal_ret_0 [simp]: "hal_ret 0 = 0"
  by (simp add: hal_ret_def)

text \<open>A shim only writes the trace.\<close>

lemma hal_do_state: "snd (hal_do E c s) = s\<lparr>hal_log := (c, hal_status E (hal_log s) c) # hal_log s\<rparr>"
  by (simp add: hal_do_def Let_def)

lemma hal_do_eq:
  "hal_do E c s = (hal_status E (hal_log s) c, s\<lparr>hal_log := (c, hal_status E (hal_log s) c) # hal_log s\<rparr>)"
  by (simp add: hal_do_def Let_def)

end
