(* ===== verification/Lib_Laws.thy ===== *)
theory Lib_Laws
  imports Hal_Shim
begin

text \<open>
  The documented behaviour of the libraries the agent calls, as named hypotheses over the
  parameter \<open>E\<close>, and a concrete library that has it, for the witnesses.
\<close>

section \<open>Hash tables\<close>

text \<open>
  \<open>rte_hash\<close>: an add that succeeds stores the data, one that fails (negative) changes nothing, and
  an add to a key that is present succeeds; a delete fails exactly when the key is absent.
\<close>

definition hash_laws :: "('h, 'f, 'b) lib \<Rightarrow> bool" where
  "hash_laws E \<longleftrightarrow>
     (\<forall>h k d. rte_hash_lookup_data E (snd (rte_hash_add_key_data E h k d)) =
        (if fst (rte_hash_add_key_data E h k d) < 0 then rte_hash_lookup_data E h
         else (rte_hash_lookup_data E h)(k \<mapsto> d))) \<and>
     (\<forall>h k d. rte_hash_lookup_data E h k \<noteq> None \<longrightarrow> \<not> fst (rte_hash_add_key_data E h k d) < 0) \<and>
     (\<forall>h k. rte_hash_lookup_data E (snd (rte_hash_del_key E h k)) =
        (rte_hash_lookup_data E h)(k := None)) \<and>
     (\<forall>h k. fst (rte_hash_del_key E h k) < 0 \<longleftrightarrow> rte_hash_lookup_data E h k = None) \<and>
     (\<forall>n c h. rte_hash_create E n c = Some h \<longrightarrow> rte_hash_lookup_data E h = Map.empty)"

lemma hash_lawsD:
  assumes "hash_laws E"
  shows hash_add: "rte_hash_lookup_data E (snd (rte_hash_add_key_data E h k d)) =
        (if fst (rte_hash_add_key_data E h k d) < 0 then rte_hash_lookup_data E h
         else (rte_hash_lookup_data E h)(k \<mapsto> d))"
    and hash_add_present:
      "rte_hash_lookup_data E h k \<noteq> None \<Longrightarrow> \<not> fst (rte_hash_add_key_data E h k d) < 0"
    and hash_del: "rte_hash_lookup_data E (snd (rte_hash_del_key E h k)) =
        (rte_hash_lookup_data E h)(k := None)"
    and hash_del_neg: "fst (rte_hash_del_key E h k) < 0 \<longleftrightarrow> rte_hash_lookup_data E h k = None"
    and hash_create: "rte_hash_create E n c = Some h' \<Longrightarrow> rte_hash_lookup_data E h' = Map.empty"
  using assms unfolding hash_laws_def by (blast, blast, blast, blast, blast)

text \<open>
  \<open>rte_hash_iterate\<close>: \<open>hpos h k\<close> is the position of a key that is present. From position \<open>i\<close> the
  entry with the least position at or after \<open>i\<close> is reported, with the position to go on from;
  deleting a key does not move the others.
\<close>

definition iter_laws :: "('h, 'f, 'b) lib \<Rightarrow> ('h \<Rightarrow> hkey \<Rightarrow> nat) \<Rightarrow> bool" where
  "iter_laws E hpos \<longleftrightarrow>
     (\<forall>h i k d j. rte_hash_iterate E h i = Some (k, d, j) \<longrightarrow>
        rte_hash_lookup_data E h k = Some d \<and> i \<le> hpos h k \<and> j = Suc (hpos h k) \<and>
        (\<forall>k'. rte_hash_lookup_data E h k' \<noteq> None \<and> i \<le> hpos h k' \<longrightarrow> hpos h k \<le> hpos h k')) \<and>
     (\<forall>h i. rte_hash_iterate E h i = None \<longrightarrow>
        (\<forall>k'. rte_hash_lookup_data E h k' \<noteq> None \<longrightarrow> hpos h k' < i)) \<and>
     (\<forall>h k k'. rte_hash_lookup_data E h k \<noteq> None \<and> rte_hash_lookup_data E h k' \<noteq> None \<and>
        hpos h k = hpos h k' \<longrightarrow> k = k') \<and>
     (\<forall>h k k'. k' \<noteq> k \<and> rte_hash_lookup_data E h k' \<noteq> None \<longrightarrow>
        hpos (snd (rte_hash_del_key E h k)) k' = hpos h k')"

section \<open>LPM tables\<close>

text \<open>The network of an address at a prefix length, and the longest match in a set of routes.\<close>

definition ip_net :: "u32 \<Rightarrow> u8 \<Rightarrow> u32" where
  "ip_net ip d = (let n = 32 - unat d in push_bit n (drop_bit n ip))"

fun lpm_from :: "nat \<Rightarrow> (u32 \<times> u8 \<Rightarrow> int option) \<Rightarrow> u32 \<Rightarrow> int option" where
  "lpm_from 0 m ip = m (ip_net ip 0, 0)"
| "lpm_from (Suc l) m ip =
     (case m (ip_net ip (of_nat (Suc l)), of_nat (Suc l)) of
        Some nh \<Rightarrow> Some nh
      | None \<Rightarrow> lpm_from l m ip)"

text \<open>
  \<open>rte_fib\<close> of the dummy type: \<open>fm f\<close> are the routes of a table and \<open>fd f\<close> is its default next
  hop. An add stores the route of the address's network or fails and changes nothing; a delete
  succeeds exactly when the route is present; a lookup is the longest match, or the default.
\<close>

definition fib_laws ::
  "('h, 'f, 'b) lib \<Rightarrow> ('f \<Rightarrow> u32 \<times> u8 \<rightharpoonup> int) \<Rightarrow> ('f \<Rightarrow> int) \<Rightarrow> bool" where
  "fib_laws E fm fd \<longleftrightarrow>
     (\<forall>f ip d nh. fm (snd (rte_fib_add E f ip d nh)) =
        (if fst (rte_fib_add E f ip d nh) = 0 then (fm f)((ip_net ip d, d) \<mapsto> nh) else fm f) \<and>
        fd (snd (rte_fib_add E f ip d nh)) = fd f) \<and>
     (\<forall>f ip d. fm (snd (rte_fib_delete E f ip d)) = (fm f)((ip_net ip d, d) := None) \<and>
        fd (snd (rte_fib_delete E f ip d)) = fd f \<and>
        (fst (rte_fib_delete E f ip d) = 0 \<longleftrightarrow> fm f (ip_net ip d, d) \<noteq> None)) \<and>
     (\<forall>f ip. rte_fib_lookup E f ip =
        (case lpm_from 32 (fm f) ip of Some nh \<Rightarrow> nh | None \<Rightarrow> fd f)) \<and>
     (\<forall>v mx dflt f. rte_fib_create E v mx dflt = Some f \<longrightarrow> fm f = Map.empty \<and> fd f = dflt)"

lemma fib_lawsD:
  assumes "fib_laws E fm fd"
  shows fib_add: "fm (snd (rte_fib_add E f ip d nh)) =
        (if fst (rte_fib_add E f ip d nh) = 0 then (fm f)((ip_net ip d, d) \<mapsto> nh) else fm f)"
    and fib_add_default: "fd (snd (rte_fib_add E f ip d nh)) = fd f"
    and fib_delete: "fm (snd (rte_fib_delete E f ip d)) = (fm f)((ip_net ip d, d) := None)"
    and fib_delete_default: "fd (snd (rte_fib_delete E f ip d)) = fd f"
    and fib_delete_zero: "fst (rte_fib_delete E f ip d) = 0 \<longleftrightarrow> fm f (ip_net ip d, d) \<noteq> None"
    and fib_lookup: "rte_fib_lookup E f ip =
        (case lpm_from 32 (fm f) ip of Some nh \<Rightarrow> nh | None \<Rightarrow> fd f)"
    and fib_create: "rte_fib_create E v mx dflt = Some f' \<Longrightarrow> fm f' = Map.empty \<and> fd f' = dflt"
  using assms unfolding fib_laws_def by (blast, blast, blast, blast, blast, blast, blast)

section \<open>The array's slot bitmap\<close>

text \<open>
  \<open>rte_fbarray\<close> of \<open>FIB_RES_LEN\<close> slots: \<open>us b\<close> are the slots in use. A free slot that is found is
  in range and not in use; marking a slot in range succeeds.
\<close>

definition FIB_RES_LEN :: int where [const_defs]: "FIB_RES_LEN = SHC_NR_FIB_RES_ALL + 1"

definition fba_laws :: "('h, 'f, 'b) lib \<Rightarrow> ('b \<Rightarrow> int set) \<Rightarrow> bool" where
  "fba_laws E us \<longleftrightarrow>
     (\<forall>b. 0 \<le> rte_fbarray_find_next_free E b 0 \<longrightarrow>
        rte_fbarray_find_next_free E b 0 < FIB_RES_LEN \<and> rte_fbarray_find_next_free E b 0 \<notin> us b) \<and>
     (\<forall>b i. 0 \<le> i \<and> i < FIB_RES_LEN \<longrightarrow>
        fst (rte_fbarray_set_used E b i) = 0 \<and> us (snd (rte_fbarray_set_used E b i)) = insert i (us b) \<and>
        fst (rte_fbarray_set_free E b i) = 0 \<and> us (snd (rte_fbarray_set_free E b i)) = us b - {i}) \<and>
     (\<forall>b. rte_fbarray_init E FIB_RES_LEN = (0, b) \<longrightarrow> us b = {} \<and> rte_fbarray_find_next_free E b 0 = 0)"

lemma fba_lawsD:
  assumes "fba_laws E us"
  shows fba_free: "0 \<le> rte_fbarray_find_next_free E b 0 \<Longrightarrow>
        rte_fbarray_find_next_free E b 0 < FIB_RES_LEN \<and> rte_fbarray_find_next_free E b 0 \<notin> us b"
    and fba_set_used: "0 \<le> i \<Longrightarrow> i < FIB_RES_LEN \<Longrightarrow> us (snd (rte_fbarray_set_used E b i)) = insert i (us b)"
    and fba_set_free: "0 \<le> i \<Longrightarrow> i < FIB_RES_LEN \<Longrightarrow> us (snd (rte_fbarray_set_free E b i)) = us b - {i}"
    and fba_init: "rte_fbarray_init E FIB_RES_LEN = (0, b) \<Longrightarrow>
        us b = {} \<and> rte_fbarray_find_next_free E b 0 = 0"
  using assms unfolding fba_laws_def by blast+

section \<open>Allocation\<close>

text \<open>\<open>rte_zmalloc_socket\<close> returns 0 or an address that is not in use.\<close>

definition zmalloc_law :: "('h, 'f, 'b) lib \<Rightarrow> bool" where
  "zmalloc_law E \<longleftrightarrow> (\<forall>live. rte_zmalloc E live \<noteq> NULL \<longrightarrow> \<not> live (rte_zmalloc E live))"

lemma zmalloc_fresh: "zmalloc_law E \<Longrightarrow> rte_zmalloc E live \<noteq> NULL \<Longrightarrow> \<not> live (rte_zmalloc E live)"
  unfolding zmalloc_law_def by blast

section \<open>A library that has this behaviour\<close>

text \<open>
  A hash table is a list of slots, a slot freed by a delete is reused by the next add, and a table
  has \<open>cap\<close> slots at most; an LPM table is an association list with its default; the bitmap is the
  list of the slots in use.
\<close>

type_synonym slots = "(hkey \<times> int) option list"

fun slot_lookup :: "slots \<Rightarrow> hkey \<Rightarrow> int option" where
  "slot_lookup [] k = None"
| "slot_lookup (None # xs) k = slot_lookup xs k"
| "slot_lookup (Some (k', d) # xs) k = (if k' = k then Some d else slot_lookup xs k)"

fun slot_update :: "slots \<Rightarrow> hkey \<Rightarrow> int \<Rightarrow> slots" where
  "slot_update [] k d = []"
| "slot_update (None # xs) k d = None # slot_update xs k d"
| "slot_update (Some (k', e) # xs) k d =
     (if k' = k then Some (k, d) else Some (k', e)) # slot_update xs k d"

fun slot_fill :: "nat \<Rightarrow> slots \<Rightarrow> hkey \<Rightarrow> int \<Rightarrow> slots option" where
  "slot_fill cap [] k d = (if cap = 0 then None else Some [Some (k, d)])"
| "slot_fill cap (None # xs) k d = Some (Some (k, d) # xs)"
| "slot_fill cap (Some x # xs) k d = map_option ((#) (Some x)) (slot_fill (cap - 1) xs k d)"

definition slot_add :: "nat \<Rightarrow> slots \<Rightarrow> hkey \<Rightarrow> int \<Rightarrow> int \<times> slots" where
  "slot_add cap xs k d =
     (if slot_lookup xs k \<noteq> None then (0, slot_update xs k d)
      else case slot_fill cap xs k d of None \<Rightarrow> (-28, xs) | Some ys \<Rightarrow> (0, ys))"

fun slot_clear :: "slots \<Rightarrow> hkey \<Rightarrow> slots" where
  "slot_clear [] k = []"
| "slot_clear (None # xs) k = None # slot_clear xs k"
| "slot_clear (Some (k', e) # xs) k = (if k' = k then None else Some (k', e)) # slot_clear xs k"

definition slot_del :: "slots \<Rightarrow> hkey \<Rightarrow> int \<times> slots" where
  "slot_del xs k = (if slot_lookup xs k = None then (-2, xs) else (0, slot_clear xs k))"

fun slot_iter :: "slots \<Rightarrow> hkey list \<Rightarrow> nat \<Rightarrow> nat \<Rightarrow> (hkey \<times> int \<times> nat) option" where
  "slot_iter [] seen p i = None"
| "slot_iter (None # xs) seen p i = slot_iter xs seen (Suc p) i"
| "slot_iter (Some (k, d) # xs) seen p i =
     (if i \<le> p \<and> k \<notin> set seen then Some (k, d, Suc p) else slot_iter xs (k # seen) (Suc p) i)"

fun slot_pos :: "slots \<Rightarrow> hkey \<Rightarrow> nat" where
  "slot_pos [] k = 0"
| "slot_pos (None # xs) k = Suc (slot_pos xs k)"
| "slot_pos (Some (k', d) # xs) k = (if k' = k then 0 else Suc (slot_pos xs k))"

type_synonym alist_fib = "((u32 \<times> u8) \<times> int) list \<times> int"

definition alist_fib_add :: "alist_fib \<Rightarrow> u32 \<Rightarrow> u8 \<Rightarrow> int \<Rightarrow> int \<times> alist_fib" where
  "alist_fib_add f ip d nh =
     (if d > 32 then (-22, f) else (0, ((ip_net ip d, d), nh) # fst f, snd f))"

definition alist_fib_delete :: "alist_fib \<Rightarrow> u32 \<Rightarrow> u8 \<Rightarrow> int \<times> alist_fib" where
  "alist_fib_delete f ip d =
     (if map_of (fst f) (ip_net ip d, d) = None then (-2, f)
      else (0, filter (\<lambda>e. fst e \<noteq> (ip_net ip d, d)) (fst f), snd f))"

definition alist_fib_lookup :: "alist_fib \<Rightarrow> u32 \<Rightarrow> int" where
  "alist_fib_lookup f ip = (case lpm_from 32 (map_of (fst f)) ip of Some nh \<Rightarrow> nh | None \<Rightarrow> snd f)"

definition list_next_free :: "int list \<Rightarrow> int \<Rightarrow> int" where
  "list_next_free us i =
     (case find (\<lambda>j. j \<notin> set us) [i, i + 1, i + 2, i + 3, i + 4, i + 5, i + 6, i + 7] of
        None \<Rightarrow> -1 | Some j \<Rightarrow> if j < FIB_RES_LEN then j else -1)"

definition first_free :: "(ptr \<Rightarrow> bool) \<Rightarrow> ptr" where
  "first_free live =
     (case find (\<lambda>p. \<not> live p) [1, 2, 3, 4, 5, 6, 7, 8] of None \<Rightarrow> NULL | Some p \<Rightarrow> p)"

definition lib0 :: "nat \<Rightarrow> (slots, alist_fib, int list) lib" where
  "lib0 cap =
     \<lparr>rte_hash_create = (\<lambda>_ _. Some []),
      rte_hash_lookup_data = slot_lookup,
      rte_hash_add_key_data = slot_add cap,
      rte_hash_del_key = slot_del,
      rte_hash_iterate = (\<lambda>xs i. slot_iter xs [] 0 i),
      rte_fib_create = (\<lambda>_ _ dflt. Some ([], dflt)),
      rte_fib_add = alist_fib_add,
      rte_fib_delete = alist_fib_delete,
      rte_fib_lookup = alist_fib_lookup,
      rte_fbarray_init = (\<lambda>_. (0, [])),
      rte_fbarray_find_next_free = list_next_free,
      rte_fbarray_set_used = (\<lambda>us i. (0, i # us)),
      rte_fbarray_set_free = (\<lambda>us i. (0, removeAll i us)),
      rte_zmalloc = first_free,
      malloc_ok = True,
      rte_assert_on = False,
      hal_status = (\<lambda>_ _. 0),
      hal_oid = (\<lambda>tr _. of_nat (length tr) + 1)\<rparr>"

lemma lib0_simps [simp]:
  "rte_hash_create (lib0 cap) n sz = Some []"
  "rte_hash_lookup_data (lib0 cap) = slot_lookup"
  "rte_hash_add_key_data (lib0 cap) = slot_add cap"
  "rte_hash_del_key (lib0 cap) = slot_del"
  "rte_hash_iterate (lib0 cap) xs i = slot_iter xs [] 0 i"
  "rte_fib_create (lib0 cap) v mx dflt = Some ([], dflt)"
  "rte_fib_add (lib0 cap) = alist_fib_add"
  "rte_fib_delete (lib0 cap) = alist_fib_delete"
  "rte_fib_lookup (lib0 cap) = alist_fib_lookup"
  "rte_fbarray_init (lib0 cap) len = (0, [])"
  "rte_fbarray_find_next_free (lib0 cap) = list_next_free"
  "rte_fbarray_set_used (lib0 cap) us j = (0, j # us)"
  "rte_fbarray_set_free (lib0 cap) us j = (0, removeAll j us)"
  "rte_zmalloc (lib0 cap) = first_free"
  "malloc_ok (lib0 cap)"
  "\<not> rte_assert_on (lib0 cap)"
  "hal_status (lib0 cap) tr c = 0"
  "hal_oid (lib0 cap) tr c = of_nat (length tr) + 1"
  by (simp_all add: lib0_def)

lemma slot_lookup_update:
  "slot_lookup xs k \<noteq> None \<Longrightarrow> slot_lookup (slot_update xs k d) = (slot_lookup xs)(k \<mapsto> d)"
proof
  fix k'
  assume "slot_lookup xs k \<noteq> None"
  then show "slot_lookup (slot_update xs k d) k' = ((slot_lookup xs)(k \<mapsto> d)) k'"
  proof (cases "k' = k")
    case True
    with \<open>slot_lookup xs k \<noteq> None\<close> show ?thesis
      by (induction xs k d rule: slot_update.induct) (auto split: if_splits)
  next
    case False
    then show ?thesis by (induction xs k d rule: slot_update.induct) auto
  qed
qed

lemma slot_lookup_fill:
  "slot_lookup xs k = None \<Longrightarrow> slot_fill cap xs k d = Some ys \<Longrightarrow>
     slot_lookup ys = (slot_lookup xs)(k \<mapsto> d)"
  by (induction cap xs k d arbitrary: ys rule: slot_fill.induct)
     (auto simp: fun_eq_iff split: if_splits prod.splits option.splits)

lemma slot_lookup_clear: "slot_lookup (slot_clear xs k) = (slot_lookup xs)(k := None)"
  by (induction xs k rule: slot_clear.induct) (auto simp: fun_eq_iff)

lemma hash_laws_lib0: "hash_laws (lib0 cap)"
  unfolding hash_laws_def
  by (auto simp: slot_add_def slot_del_def slot_lookup_update slot_lookup_fill slot_lookup_clear
           fun_eq_iff split: option.splits)

lemma slot_iter_Some:
  "slot_iter xs seen p i = Some (k, d, j) \<Longrightarrow>
     k \<notin> set seen \<and> slot_lookup xs k = Some d \<and> i \<le> p + slot_pos xs k \<and> j = Suc (p + slot_pos xs k) \<and>
     (\<forall>k'. k' \<notin> set seen \<and> slot_lookup xs k' \<noteq> None \<and> i \<le> p + slot_pos xs k' \<longrightarrow>
        slot_pos xs k \<le> slot_pos xs k')"
  by (induction xs seen p i rule: slot_iter.induct) (fastforce split: if_splits)+

lemma slot_iter_None:
  "slot_iter xs seen p i = None \<Longrightarrow> k \<notin> set seen \<Longrightarrow> slot_lookup xs k \<noteq> None \<Longrightarrow> p + slot_pos xs k < i"
  by (induction xs seen p i rule: slot_iter.induct) (fastforce split: if_splits)+

lemma slot_pos_inj:
  "slot_lookup xs k \<noteq> None \<Longrightarrow> slot_lookup xs k' \<noteq> None \<Longrightarrow> slot_pos xs k = slot_pos xs k' \<Longrightarrow> k = k'"
  by (induction xs k rule: slot_pos.induct) (auto split: if_splits)

lemma slot_pos_clear:
  "k' \<noteq> k \<Longrightarrow> slot_lookup xs k' \<noteq> None \<Longrightarrow> slot_pos (slot_clear xs k) k' = slot_pos xs k'"
  by (induction xs k rule: slot_clear.induct) auto

lemma iter_laws_lib0: "iter_laws (lib0 cap) slot_pos"
  unfolding iter_laws_def
  using slot_iter_Some [where seen = "[]" and p = 0] slot_iter_None [where seen = "[]" and p = 0]
  by (auto simp: slot_del_def slot_pos_clear intro: slot_pos_inj)

lemma map_of_filter_neq:
  "map_of (filter (\<lambda>e. fst e \<noteq> k) xs) = (map_of xs)(k := None)"
  by (induction xs) (auto simp: fun_eq_iff)

lemma fib_laws_lib0: "fib_laws (lib0 cap) (\<lambda>f. map_of (fst f)) snd"
  unfolding fib_laws_def
  by (auto simp: alist_fib_add_def alist_fib_delete_def alist_fib_lookup_def map_of_filter_neq
           fun_eq_iff)

lemma fba_laws_lib0: "fba_laws (lib0 cap) set"
  unfolding fba_laws_def
  by (auto simp: list_next_free_def FIB_RES_LEN_def SHC_NR_FIB_RES_ALL_def split: option.splits if_splits)

lemma zmalloc_law_lib0: "zmalloc_law (lib0 cap)"
  by (auto simp: zmalloc_law_def first_free_def split: option.splits if_splits)

section \<open>An agent over that library\<close>

text \<open>
  The state the witnesses start from: one VRF, named \<open>red\<close>, in slot 0, empty tables, and the
  result of the blackhole route in entry 0 of the array.
\<close>

definition vrf_dp0 :: "nat \<Rightarrow> alist_fib vrf_dp" where
  "vrf_dp0 i = \<lparr>fib = ([], 0), rib_cnt = 0, tunnel_rmap = [], tunnel_cnt = 0, neigh_cnt = 0,
     internal_ip = 0, route_mac = [0, 0, 0, 0, 0, 0], vrf_id = of_nat i + 1, exit_flag = 0,
     List_Node = None\<rparr>"

definition agent0 :: "(slots, alist_fib, int list) agent" where
  "agent0 =
     \<lparr>g_shc_vrfs = (\<lambda>i. if i = 0 then \<lparr>name = ''red'', valid = True, dp = vrf_dp0 0\<rparr>
                        else \<lparr>name = [], valid = False, dp = vrf_dp0 i\<rparr>),
      g_shc_vrf_n = 1, f_res_blackhole = 0, fib_res_used = [0],
      fib_res_mem = (\<lambda>_. \<lparr>f_res_oid = 0, fr_flags = FRF_REJECT, mpath_cnt = 0, mpath_max = 0,
                          mpath = [NULL], lpm_em = 0\<rparr>),
      rib_tbl = [], nhop_tbl = [], nhop_mem = Map.empty, neigh_tbl = [], neigh_count = 0,
      neigh_mem = Map.empty, vrf_hash_tbl = [], tunnel_mem = Map.empty,
      fake_mac = [0x3c, 0xfd, 0xfe, 0x29, 0xcb, 0xc2], def_gw_mac = [0x3c, 0xfd, 0xfe, 0x29, 0xcb, 0xc2],
      pmd_ctxs_tbl = replicate 8 None, cur_thr_stats = None, hal_log = []\<rparr>"

lemma agent0_simps [simp]:
  "rib_tbl agent0 = []" "nhop_tbl agent0 = []" "neigh_tbl agent0 = []" "vrf_hash_tbl agent0 = []"
  "nhop_mem agent0 = Map.empty" "neigh_mem agent0 = Map.empty" "tunnel_mem agent0 = Map.empty"
  "vrf_id (vrf_dp_of agent0 0) = 1" "hal_log agent0 = []"
  by (simp_all add: agent0_def vrf_dp0_def)

lemma slot_lookup_Nil [simp]: "slot_lookup [] = Map.empty"
  by (simp add: fun_eq_iff)

end
