(* ===== verification/Offload_Counter.thy ===== *)
theory Offload_Counter
  imports Lib_Laws
begin

text \<open>
  The offload protocol that \<open>shc_tunnel_map_vrf_lookup\<close>, \<open>shc_neigh_lookup\<close> and the next-hop part
  of \<open>shc_route_lookup\<close> share: a lookup with flag 0 counts one more user of the entry and
  programs the hardware for the first, a lookup with flag 1 counts one less and clears the
  hardware with the last. The counter is an \<open>int8_t\<close>. The locale states the contract of one
  lookup; its lemmas are about sequences of lookups.
\<close>

section \<open>The C library's error numbers\<close>

abbreviation (input) ENOENT :: int where "ENOENT \<equiv> 2"
abbreviation (input) ENOMEM :: int where "ENOMEM \<equiv> 12"
abbreviation (input) EFAULT :: int where "EFAULT \<equiv> 14"
abbreviation (input) EINVAL :: int where "EINVAL \<equiv> 22"
abbreviation (input) ENOSPC :: int where "ENOSPC \<equiv> 28"

section \<open>What the hardware holds\<close>

text \<open>
  The last successful call of the trace that adds or deletes an entry decides whether the entry
  is present. \<open>ad c\<close> and \<open>del c\<close> say that a call adds or deletes it.
\<close>

fun hw_present :: "(hal_call \<Rightarrow> bool) \<Rightarrow> (hal_call \<Rightarrow> bool) \<Rightarrow> hal_trace \<Rightarrow> bool" where
  "hw_present ad del [] = False"
| "hw_present ad del ((c, st) # tr) =
     (if st = 0 \<and> ad c then True
      else if st = 0 \<and> del c then False
      else hw_present ad del tr)"

text \<open>A hardware layer in which no call fails.\<close>

definition hal_never_fails :: "('h, 'f, 'b) lib \<Rightarrow> bool" where
  "hal_never_fails E \<longleftrightarrow> (\<forall>tr c. hal_status E tr c = 0)"

lemma hal_never_failsD: "hal_never_fails E \<Longrightarrow> hal_status E tr c = 0"
  by (simp add: hal_never_fails_def)

lemma hal_never_fails_lib0: "hal_never_fails (lib0 cap)"
  by (simp add: hal_never_fails_def)

section \<open>Sequences of lookups\<close>

text \<open>A sequence of lookups, by their flags; it stops where a lookup does not return.\<close>

fun lookups :: "(int \<Rightarrow> 's \<Rightarrow> 's option) \<Rightarrow> int list \<Rightarrow> 's \<Rightarrow> 's option" where
  "lookups step [] s = Some s"
| "lookups step (f # fs) s = Option.bind (step f s) (lookups step fs)"

text \<open>The users left after a sequence: an add counts one more, a delete one less, if there is one.\<close>

fun users :: "int list \<Rightarrow> int \<Rightarrow> int" where
  "users [] n = n"
| "users (f # fs) n =
     users fs (if f = 0 then n + 1 else if f = 1 \<and> n > 0 then n - 1 else n)"

text \<open>The most users at any time of the sequence.\<close>

fun peak :: "int list \<Rightarrow> int \<Rightarrow> int" where
  "peak [] n = n"
| "peak (f # fs) n = max n (peak fs (users [f] n))"

lemma peak_ge: "n \<le> peak fs n"
  by (cases fs) simp_all

lemma peak_adds: "peak (replicate k 0) n = n + int k"
  by (induction k arbitrary: n) auto

lemma users_nonneg: "0 \<le> n \<Longrightarrow> 0 \<le> users fs n"
  by (induction fs arbitrary: n) auto

lemma users_adds: "users (replicate k 0) n = n + int k"
  by (induction k arbitrary: n) auto

lemma lookups_append:
  "lookups step (fs @ gs) s = Option.bind (lookups step fs s) (lookups step gs)"
  by (induction fs arbitrary: s) (auto split: Option.bind_splits)

lemma replicate_split: "replicate 128 x = replicate 127 x @ [x]"
proof -
  have "replicate (127 + 1) x = replicate 127 x @ replicate 1 x" by (rule replicate_add)
  then show ?thesis by simp
qed

section \<open>The counter's arithmetic\<close>

lemma sint_add_one:
  fixes c :: u8 assumes "sint c < 127" shows "sint (c + 1) = sint c + 1"
  using assms sint_greater_eq [of c] by (simp add: sint_word_ariths signed_take_bit_int_eq_self)

lemma sint_sub_one:
  fixes c :: u8 assumes "- 128 < sint c" shows "sint (c - 1) = sint c - 1"
  using assms sint_less [of c] by (simp add: sint_word_ariths signed_take_bit_int_eq_self)

lemma sint_zero_iff: "sint (c :: u8) = 0 \<longleftrightarrow> c = 0"
  using signed_word_eqI [of c 0] by auto

lemma sint_one_iff: "sint (c :: u8) = 1 \<longleftrightarrow> c = 1"
  using signed_word_eqI [of c 1] by auto

section \<open>The contract\<close>

text \<open>
  \<open>step f\<close> is a lookup with flag \<open>f\<close>, \<open>cnt\<close> the entry's counter, \<open>hw\<close> whether the hardware holds
  the entry, and \<open>ok\<close> the states in which the entry can be looked up and the hardware answers.
\<close>

locale offload_counter =
  fixes step :: "int \<Rightarrow> 's \<Rightarrow> 's option"
    and ok :: "'s \<Rightarrow> bool"
    and cnt :: "'s \<Rightarrow> u8"
    and hw :: "'s \<Rightarrow> bool"
  assumes ok_step: "ok s \<Longrightarrow> \<exists>s'. step f s = Some s' \<and> ok s'"
    and add_first: "ok s \<Longrightarrow> cnt s = 0 \<Longrightarrow> step 0 s = Some s' \<Longrightarrow> cnt s' = 1 \<and> hw s'"
    and add_more: "ok s \<Longrightarrow> cnt s \<noteq> 0 \<Longrightarrow> step 0 s = Some s' \<Longrightarrow>
      cnt s' = cnt s + 1 \<and> hw s' = hw s"
    and del_last: "ok s \<Longrightarrow> cnt s = 1 \<Longrightarrow> step 1 s = Some s' \<Longrightarrow> cnt s' = 0 \<and> \<not> hw s'"
    and del_more: "ok s \<Longrightarrow> 1 < sint (cnt s) \<Longrightarrow> step 1 s = Some s' \<Longrightarrow>
      cnt s' = cnt s - 1 \<and> hw s' = hw s"
    and del_none: "ok s \<Longrightarrow> sint (cnt s) \<le> 0 \<Longrightarrow> step 1 s = Some s' \<Longrightarrow>
      cnt s' = cnt s \<and> hw s' = hw s"
    and other: "ok s \<Longrightarrow> f \<noteq> 0 \<Longrightarrow> f \<noteq> 1 \<Longrightarrow> step f s = Some s' \<Longrightarrow>
      cnt s' = cnt s \<and> hw s' = hw s"
begin

text \<open>The hardware holds the entry exactly while it has users.\<close>

definition synced :: "'s \<Rightarrow> bool" where
  "synced s \<longleftrightarrow> ok s \<and> 0 \<le> sint (cnt s) \<and> (hw s \<longleftrightarrow> cnt s \<noteq> 0)"

lemma step_synced:
  assumes s: "synced s" and room: "f = 0 \<Longrightarrow> sint (cnt s) < 127" and st: "step f s = Some s'"
  shows "synced s' \<and> sint (cnt s') = users [f] (sint (cnt s))"
proof -
  have ok: "ok s" and nn: "0 \<le> sint (cnt s)" and hw: "hw s \<longleftrightarrow> cnt s \<noteq> 0"
    using s by (auto simp: synced_def)
  have ok': "ok s'" using ok_step [OF ok, of f] st by auto
  consider (add0) "f = 0" "cnt s = 0" | (add) "f = 0" "cnt s \<noteq> 0" | (del0) "f = 1" "sint (cnt s) \<le> 0"
    | (del1) "f = 1" "cnt s = 1" | (del) "f = 1" "1 < sint (cnt s)" | (no) "f \<noteq> 0" "f \<noteq> 1"
    using sint_one_iff [of "cnt s"] by linarith
  then show ?thesis
  proof cases
    case add0
    with add_first [OF ok _ st [unfolded add0(1)]] ok' show ?thesis
      by (auto simp: synced_def)
  next
    case add
    have "cnt s' = cnt s + 1" "hw s' = hw s" using add_more [OF ok add(2)] st add(1) by auto
    moreover have "sint (cnt s + 1) = sint (cnt s) + 1" using room add(1) by (simp add: sint_add_one)
    ultimately show ?thesis
      using ok' nn hw add sint_zero_iff [of "cnt s + 1"] by (auto simp: synced_def)
  next
    case del0
    with del_none [OF ok del0(2)] st ok' nn hw show ?thesis by (auto simp: synced_def)
  next
    case del1
    with del_last [OF ok del1(2)] st ok' show ?thesis by (auto simp: synced_def)
  next
    case del
    have "cnt s' = cnt s - 1" "hw s' = hw s" using del_more [OF ok del(2)] st del(1) by auto
    moreover have "sint (cnt s - 1) = sint (cnt s) - 1" using nn by (simp add: sint_sub_one)
    ultimately show ?thesis
      using ok' nn hw del sint_zero_iff [of "cnt s - 1"] by (auto simp: synced_def)
  next
    case no
    with other [OF ok no] st ok' nn hw show ?thesis by (auto simp: synced_def)
  qed
qed

text \<open>A sequence whose users never exceed 127 keeps the hardware in step with them.\<close>

lemma lookups_synced:
  assumes "synced s" and "peak fs (sint (cnt s)) \<le> 127"
  shows "\<exists>s'. lookups step fs s = Some s' \<and> synced s' \<and> sint (cnt s') = users fs (sint (cnt s))"
  using assms
proof (induction fs arbitrary: s)
  case (Cons f fs)
  obtain s1 where st: "step f s = Some s1" using ok_step Cons.prems(1) by (auto simp: synced_def)
  have "f = 0 \<Longrightarrow> sint (cnt s) < 127" using Cons.prems(2) peak_ge [of "sint (cnt s) + 1" fs] by simp
  from step_synced [OF Cons.prems(1) this st]
  have s1: "synced s1" "sint (cnt s1) = users [f] (sint (cnt s))" by auto
  moreover have "peak fs (sint (cnt s1)) \<le> 127" using Cons.prems(2) s1(2) by simp
  ultimately show ?case using Cons.IH [of s1] st by auto
qed (auto simp: synced_def)

text \<open>
  The 128th add turns the counter negative: from then on deletes change nothing, so the hardware
  keeps the entry when every user is gone.
\<close>

lemma deletes_ignored:
  assumes "ok s" and "sint (cnt s) \<le> 0"
  shows "\<exists>s'. lookups step (replicate k 1) s = Some s' \<and> ok s' \<and> cnt s' = cnt s \<and> hw s' = hw s"
  using assms
proof (induction k arbitrary: s)
  case (Suc k)
  obtain s1 where st: "step 1 s = Some s1" "ok s1" using ok_step Suc.prems(1) by blast
  with del_none [OF Suc.prems st(1)] Suc.IH [of s1] Suc.prems show ?case by auto
qed auto

lemma wrap_stuck:
  assumes "synced s" and "cnt s = 0"
  shows "\<exists>s'. lookups step (replicate 128 0 @ replicate k 1) s = Some s' \<and> hw s'"
proof -
  obtain s1 where s1: "lookups step (replicate 127 0) s = Some s1" "synced s1" "sint (cnt s1) = 127"
    using lookups_synced [OF assms(1), of "replicate 127 0"] assms(2)
    by (auto simp: users_adds peak_adds)
  have c1: "cnt s1 = 127" using s1(3) signed_word_eqI [of "cnt s1" 127] by simp
  have hw1: "hw s1" using s1 by (auto simp: synced_def)
  obtain s2 where s2: "step 0 s1 = Some s2" "ok s2" using s1(2) ok_step by (auto simp: synced_def)
  have "cnt s2 = 127 + 1" "hw s2"
    using add_more [of s1 s2] s1(2) s2 c1 hw1 by (auto simp: synced_def)
  then have "sint (cnt s2) \<le> 0" by simp
  from deletes_ignored [OF s2(2) this, of k] obtain s3
    where s3: "lookups step (replicate k 1) s2 = Some s3" "hw s3 = hw s2" by auto
  have "lookups step (replicate 127 0 @ [0]) s = Some s2"
    using s1(1) s2(1) by (simp add: lookups_append)
  then have "lookups step ((replicate 127 0 @ [0]) @ replicate k 1) s = Some s3"
    unfolding lookups_append using s3(1) by simp
  moreover note replicate_split [of "0::int"]
  ultimately show ?thesis using s3(2) \<open>hw s2\<close> by auto
qed

end

section \<open>Meeting the contract\<close>

text \<open>What one lookup does to the counter and to the hardware, as the code's branches have it.\<close>

definition count_user :: "int \<Rightarrow> u8 \<Rightarrow> u8" where
  "count_user f c = (if f = 0 then c + 1 else if f = 1 \<and> 0 < sint c then c - 1 else c)"

definition hw_user :: "int \<Rightarrow> u8 \<Rightarrow> bool \<Rightarrow> bool" where
  "hw_user f c h = (if f = 0 \<and> c = 0 then True else if f = 1 \<and> c = 1 then False else h)"

lemma offload_counterI:
  assumes "\<And>s f. ok s \<Longrightarrow> \<exists>s'. step f s = Some s' \<and> ok s' \<and>
      cnt s' = count_user f (cnt s) \<and> hw s' = hw_user f (cnt s) (hw s)"
  shows "offload_counter step ok cnt hw"
proof -
  have ok: "ok s \<Longrightarrow> \<exists>s'. step f s = Some s' \<and> ok s'" for s f using assms by blast
  have eqs: "cnt s' = count_user f (cnt s)" "hw s' = hw_user f (cnt s) (hw s)"
    if "ok s" "step f s = Some s'" for s f s'
    using assms [OF that(1), of f] that(2) by auto
  show ?thesis
    by unfold_locales
       (erule ok, auto simp: eqs count_user_def hw_user_def)
qed

end
