(* ===== verification/Obj_Table.thy ===== *)
theory Obj_Table
  imports Prelude
begin

text \<open>
  A hash table of pointers to allocated objects, which the neighbour, next-hop and tunnel tables
  are: \<open>L\<close> maps keys to addresses, \<open>M\<close> addresses to live objects. In a sound table every pointer
  is to a live object that is right for its key (\<open>P\<close>), no two keys share one, and no live object
  is out of the table. The view of the table is then a map from keys to objects, and updating,
  inserting and removing an object are the three operations on the view.
\<close>

definition allocated :: "(ptr \<rightharpoonup> 'e) \<Rightarrow> ptr \<Rightarrow> bool" where
  "allocated M p \<longleftrightarrow> M p \<noteq> None"

definition obj_table :: "('k \<Rightarrow> 'e \<Rightarrow> bool) \<Rightarrow> ('k \<rightharpoonup> ptr) \<Rightarrow> (ptr \<rightharpoonup> 'e) \<Rightarrow> bool" where
  "obj_table P L M \<longleftrightarrow>
     (\<forall>k p. L k = Some p \<longrightarrow> (\<exists>e. M p = Some e \<and> P k e)) \<and>
     (\<forall>k k' p. L k = Some p \<and> L k' = Some p \<longrightarrow> k = k') \<and>
     (\<forall>p. M p \<noteq> None \<longrightarrow> (\<exists>k. L k = Some p))"

definition obj_view :: "('k \<rightharpoonup> ptr) \<Rightarrow> (ptr \<rightharpoonup> 'e) \<Rightarrow> 'k \<rightharpoonup> 'e" where
  "obj_view L M k = (case L k of None \<Rightarrow> None | Some p \<Rightarrow> M p)"

lemma obj_tableI:
  assumes "\<And>k p. L k = Some p \<Longrightarrow> \<exists>e. M p = Some e \<and> P k e"
    and "\<And>k k' p. L k = Some p \<Longrightarrow> L k' = Some p \<Longrightarrow> k = k'"
    and "\<And>p. M p \<noteq> None \<Longrightarrow> \<exists>k. L k = Some p"
  shows "obj_table P L M"
  using assms unfolding obj_table_def by blast

lemma obj_tableD:
  assumes "obj_table P L M"
  shows obj_live: "L k = Some p \<Longrightarrow> \<exists>e. M p = Some e \<and> P k e"
    and obj_inj: "L k = Some p \<Longrightarrow> L k' = Some p \<Longrightarrow> k = k'"
    and obj_noleak: "M p \<noteq> None \<Longrightarrow> \<exists>k. L k = Some p"
  using assms unfolding obj_table_def by blast+

lemma obj_table_mono:
  assumes "obj_table P L M" and "\<And>k e. P k e \<Longrightarrow> Q k e"
  shows "obj_table Q L M"
  using assms unfolding obj_table_def by blast

lemma obj_liveE:
  assumes "obj_table P L M" "L k = Some p"
  obtains e where "M p = Some e" "P k e" "obj_view L M k = Some e"
  using obj_live [OF assms] assms(2) by (auto simp: obj_view_def)

lemma obj_view_None_iff: "obj_table P L M \<Longrightarrow> obj_view L M k = None \<longleftrightarrow> L k = None"
  by (auto simp: obj_view_def dest: obj_live split: option.splits)

lemma obj_view_SomeD: "obj_table P L M \<Longrightarrow> obj_view L M k = Some e \<Longrightarrow> P k e"
  by (auto simp: obj_view_def dest: obj_live split: option.splits)

lemma obj_empty [simp]: "obj_table P Map.empty Map.empty" "obj_view Map.empty M = Map.empty"
  by (auto simp: obj_table_def obj_view_def)

lemma obj_update:
  assumes t: "obj_table P L M" and k: "L k = Some p" and e: "P k e"
  shows "obj_table P L (M(p \<mapsto> e))" "obj_view L (M(p \<mapsto> e)) = (obj_view L M)(k \<mapsto> e)"
proof -
  note inj = obj_inj [OF t k]
  show "obj_table P L (M(p \<mapsto> e))"
  proof (rule obj_tableI)
    fix k' p' assume "L k' = Some p'"
    then show "\<exists>e'. (M(p \<mapsto> e)) p' = Some e' \<and> P k' e'"
      using obj_live [OF t] inj [of k'] e by (cases "p' = p") auto
  next
    fix p' assume "(M(p \<mapsto> e)) p' \<noteq> None"
    then show "\<exists>k. L k = Some p'" using obj_noleak [OF t] k by (cases "p' = p") auto
  qed (rule obj_inj [OF t])
  show "obj_view L (M(p \<mapsto> e)) = (obj_view L M)(k \<mapsto> e)"
  proof
    fix k' show "obj_view L (M(p \<mapsto> e)) k' = ((obj_view L M)(k \<mapsto> e)) k'"
      using k inj [of k'] by (cases "k' = k") (auto simp: obj_view_def split: option.splits)
  qed
qed

lemma obj_insert:
  assumes t: "obj_table P L M" and p: "M p = None" and e: "P k e" and k: "L k = None"
  shows "obj_table P (L(k \<mapsto> p)) (M(p \<mapsto> e))"
    "obj_view (L(k \<mapsto> p)) (M(p \<mapsto> e)) = (obj_view L M)(k \<mapsto> e)"
proof -
  have fresh: "L k' \<noteq> Some p" for k' using obj_live [OF t] p by fastforce
  show "obj_table P (L(k \<mapsto> p)) (M(p \<mapsto> e))"
  proof (rule obj_tableI)
    fix k' p' assume "(L(k \<mapsto> p)) k' = Some p'"
    then show "\<exists>e'. (M(p \<mapsto> e)) p' = Some e' \<and> P k' e'"
      using obj_live [OF t] fresh e by (cases "k' = k"; cases "p' = p") auto
  next
    fix k1 k2 p' assume "(L(k \<mapsto> p)) k1 = Some p'" "(L(k \<mapsto> p)) k2 = Some p'"
    then show "k1 = k2" using obj_inj [OF t] fresh by (auto split: if_splits)
  next
    fix p' assume a: "(M(p \<mapsto> e)) p' \<noteq> None"
    show "\<exists>k'. (L(k \<mapsto> p)) k' = Some p'"
    proof (cases "p' = p")
      case False
      with a have "M p' \<noteq> None" by simp
      then obtain k' where k': "L k' = Some p'" using obj_noleak [OF t] by blast
      with k have "k' \<noteq> k" by auto
      with k' show ?thesis by (intro exI [of _ k']) simp
    qed (auto intro: exI [of _ k])
  qed
  show "obj_view (L(k \<mapsto> p)) (M(p \<mapsto> e)) = (obj_view L M)(k \<mapsto> e)"
    using fresh by (auto simp: obj_view_def fun_eq_iff split: option.splits)
qed

lemma obj_remove:
  assumes t: "obj_table P L M" and k: "L k = Some p"
  shows "obj_table P (L(k := None)) (M(p := None))"
    "obj_view (L(k := None)) (M(p := None)) = (obj_view L M)(k := None)"
proof -
  note inj = obj_inj [OF t k]
  show "obj_table P (L(k := None)) (M(p := None))"
  proof (rule obj_tableI)
    fix k' p' assume "(L(k := None)) k' = Some p'"
    then have "k' \<noteq> k" "L k' = Some p'" by (auto split: if_splits)
    moreover then have "p' \<noteq> p" using inj by auto
    ultimately show "\<exists>e'. (M(p := None)) p' = Some e' \<and> P k' e'" using obj_live [OF t] by simp
  next
    fix k1 k2 p' assume "(L(k := None)) k1 = Some p'" "(L(k := None)) k2 = Some p'"
    then show "k1 = k2" using obj_inj [OF t] by (auto split: if_splits)
  next
    fix p' assume a: "(M(p := None)) p' \<noteq> None"
    then have "p' \<noteq> p" "M p' \<noteq> None" by (auto split: if_splits)
    then obtain k' where "L k' = Some p'" using obj_noleak [OF t] by blast
    with \<open>p' \<noteq> p\<close> k show "\<exists>k'. (L(k := None)) k' = Some p'"
      by (intro exI [of _ k']) (auto split: if_splits)
  qed
  show "obj_view (L(k := None)) (M(p := None)) = (obj_view L M)(k := None)"
  proof
    fix k' show "obj_view (L(k := None)) (M(p := None)) k' = ((obj_view L M)(k := None)) k'"
      using inj [of k'] by (cases "k' = k") (auto simp: obj_view_def split: option.splits)
  qed
qed

end
