(* ===== verification/Neigh.thy ===== *)
theory Neigh
  imports Offload_Counter Obj_Table
begin

text \<open>
  \<open>agent/neigh.c\<close>: the overlay neighbours. A hash table maps a VRF and a gateway to a neighbour
  entry; the routes that use the gateway hold references to the entry, which is freed with the
  last. A lookup copies the neighbour's MAC address out and offloads the entry to the hardware.
  \<open>neigh_probe_xmit\<close>, which sends a packet, is in the theory of the packet path.
\<close>

section \<open>MAC addresses\<close>

text \<open>The initial values of \<open>fake_mac\<close> and \<open>def_gw_mac\<close>, and the constant addresses.\<close>

definition fake_mac_init :: mac where
  "fake_mac_init = [0x3c, 0xfd, 0xfe, 0x29, 0xcb, 0xc2]"

definition def_gw_mac_init :: mac where
  "def_gw_mac_init = [0x3c, 0xfd, 0xfe, 0x29, 0xcb, 0xc2]"

definition rte_ether_addr_copy :: "mac \<Rightarrow> mac" where
  "rte_ether_addr_copy ea_from = take 6 ea_from"

definition shc_fake_mac_get :: "('h, 'f, 'b) agent \<Rightarrow> mac" where
  "shc_fake_mac_get s = fake_mac s"

definition shc_fake_mac_set :: "mac \<Rightarrow> ('h, 'f, 'b) agent \<Rightarrow> int \<times> ('h, 'f, 'b) agent" where
  "shc_fake_mac_set ether_addr s = (0, s\<lparr>fake_mac := rte_ether_addr_copy ether_addr\<rparr>)"

definition shc_def_gw_mac_get :: "('h, 'f, 'b) agent \<Rightarrow> mac" where
  "shc_def_gw_mac_get s = def_gw_mac s"

definition shc_def_gw_mac_set :: "mac \<Rightarrow> ('h, 'f, 'b) agent \<Rightarrow> int \<times> ('h, 'f, 'b) agent" where
  "shc_def_gw_mac_set ether_addr s = (0, s\<lparr>def_gw_mac := rte_ether_addr_copy ether_addr\<rparr>)"

definition shc_broadcast_mac_get :: mac where
  "shc_broadcast_mac_get = [0xff, 0xff, 0xff, 0xff, 0xff, 0xff]"

definition shc_zero_mac_get :: mac where
  "shc_zero_mac_get = [0, 0, 0, 0, 0, 0]"

section \<open>The table\<close>

definition neigh_key :: "u32 \<Rightarrow> u32 \<Rightarrow> hkey" where
  "neigh_key vrfid gw = K_neigh \<lparr>nl_vrfid = vrfid, nl_nexthop = gw\<rparr>"

text \<open>An entry fresh from \<open>rte_zmalloc_socket\<close>.\<close>

definition ol_neigh_zero :: ol_neigh_entry where
  "ol_neigh_zero =
     \<lparr>F_arp_valid = False, F_fast_arp = False, F_entry_valid = False, F_arp_static = False,
      hh_len = 0, hh = replicate 22 0, ne_neigh_oid = 0, ne_refcnt = 0, ne_exit_flag = 0\<rparr>"

text \<open>The entry is copied to the caller's, which is untouched (\<open>None\<close>) when there is none.\<close>

definition ol_neigh_lookup ::
  "('h, 'f, 'b) lib \<Rightarrow> u32 \<Rightarrow> u32 \<Rightarrow> ('h, 'f, 'b) agent \<Rightarrow> (int \<times> ol_neigh_entry option) option" where
  "ol_neigh_lookup E vrfid gw s =
     (case rte_hash_lookup_data E (neigh_tbl s) (neigh_key vrfid gw) of
        None \<Rightarrow> Some (-1, None)
      | Some p \<Rightarrow> do { e \<leftarrow> neigh_mem s p; Some (0, Some e) })"

text \<open>
  The end of \<open>ol_neigh_add_static\<close>, on the entry at \<open>p\<close>: the reference of the static entry is
  taken once, and the header template gets the address, the agent's own and the type \<open>0x0800\<close>.
\<close>

definition neigh_set_static :: "ptr \<Rightarrow> mac \<Rightarrow> ('h, 'f, 'b) agent \<Rightarrow> (int \<times> ('h, 'f, 'b) agent) option" where
  "neigh_set_static p hw_addr s = do {
     e \<leftarrow> neigh_mem s p;
     let e = (if \<not> F_arp_static e then e\<lparr>ne_refcnt := ne_refcnt e + 1\<rparr> else e);
     Some (0, s\<lparr>neigh_mem := (neigh_mem s)(p \<mapsto>
       e\<lparr>F_arp_static := True, F_entry_valid := True,
         hh := rte_ether_addr_copy hw_addr @ rte_ether_addr_copy (shc_fake_mac_get s) @ [0x08, 0x00] @
               drop 14 (hh e),
         hh_len := 14, F_arp_valid := True\<rparr>)\<rparr>)
   }"

definition ol_neigh_add_static ::
  "('h, 'f, 'b) lib \<Rightarrow> u32 \<Rightarrow> u32 \<Rightarrow> mac \<Rightarrow> ('h, 'f, 'b) agent \<Rightarrow> (int \<times> ('h, 'f, 'b) agent) option" where
  "ol_neigh_add_static E vrfid gw hw_addr s =
     (let key = neigh_key vrfid gw in
      case rte_hash_lookup_data E (neigh_tbl s) key of
        Some p \<Rightarrow> neigh_set_static p hw_addr s
      | None \<Rightarrow>
          let p = rte_zmalloc E (allocated (neigh_mem s)) in
          if p = NULL then Some (SHC_COMM_NOMEM, s)
          else
            let (r, h) = rte_hash_add_key_data E (neigh_tbl s) key p in
            if r < 0 then Some (- EFAULT, s\<lparr>neigh_tbl := h\<rparr>)
            else neigh_set_static p hw_addr
                   (s\<lparr>neigh_tbl := h, neigh_mem := (neigh_mem s)(p \<mapsto> ol_neigh_zero),
                      neigh_count := neigh_count s + 1\<rparr>))"

text \<open>
  \<open>shc_neigh_add\<close>: one more reference to the neighbour, or a new entry with one reference and an
  identifier of the hardware's. The identifier is written to the caller's variable on success
  only. An allocation call that fails leaves the identifier of the entry at 0.
\<close>

definition hal_alloc_oid ::
  "('h, 'f, 'b) lib \<Rightarrow> hal_call \<Rightarrow> ('h, 'f, 'b) agent \<Rightarrow> int \<times> u32 \<times> ('h, 'f, 'b) agent" where
  "hal_alloc_oid E c s =
     (let (st, s') = hal_do E c s in (st, if st = 0 then hal_oid E (hal_log s) c else 0, s'))"

definition shc_neigh_add ::
  "('h, 'f, 'b) lib \<Rightarrow> nat \<Rightarrow> u32 \<Rightarrow> ('h, 'f, 'b) agent
     \<Rightarrow> (int \<times> u32 option \<times> ('h, 'f, 'b) agent) option" where
  "shc_neigh_add E v gw s =
     (let key = neigh_key (vrf_id (vrf_dp_of s v)) gw in
      case rte_hash_lookup_data E (neigh_tbl s) key of
        Some p \<Rightarrow> do {
          e \<leftarrow> neigh_mem s p;
          Some (0, Some (ne_neigh_oid e),
                s\<lparr>neigh_mem := (neigh_mem s)(p \<mapsto> e\<lparr>ne_refcnt := ne_refcnt e + 1\<rparr>)\<rparr>)
        }
      | None \<Rightarrow>
          let p = rte_zmalloc E (allocated (neigh_mem s)) in
          if p = NULL then Some (- ENOMEM, None, s)
          else
            let e = ol_neigh_zero\<lparr>ne_refcnt := 1, F_fast_arp := True, F_entry_valid := True\<rparr>;
                (r, h) = rte_hash_add_key_data E (neigh_tbl s) key p in
            if r < 0 then Some (- EFAULT, None, s\<lparr>neigh_tbl := h\<rparr>)
            else
              let (st, oid, s1) = hal_alloc_oid E Hal_neigh_alloc_oid (s\<lparr>neigh_tbl := h\<rparr>) in
              if st < 0
              then Some (st, None, s1\<lparr>neigh_tbl := snd (rte_hash_del_key E (neigh_tbl s1) key)\<rparr>)
              else Some (0, Some oid,
                     dp_upd v (\<lambda>d. d\<lparr>neigh_cnt := neigh_cnt d + 1\<rparr>)
                       (s1\<lparr>neigh_count := neigh_count s1 + 1,
                           neigh_mem := (neigh_mem s1)(p \<mapsto> e\<lparr>ne_neigh_oid := oid\<rparr>)\<rparr>)))"

definition shc_neigh_del ::
  "('h, 'f, 'b) lib \<Rightarrow> nat \<Rightarrow> u32 \<Rightarrow> ('h, 'f, 'b) agent \<Rightarrow> (int \<times> ('h, 'f, 'b) agent) option" where
  "shc_neigh_del E v gw s =
     (let key = neigh_key (vrf_id (vrf_dp_of s v)) gw in
      case rte_hash_lookup_data E (neigh_tbl s) key of
        None \<Rightarrow> Some (-1, s)
      | Some p \<Rightarrow> do {
          e \<leftarrow> neigh_mem s p;
          RTE_ASSERT E (ne_refcnt e > 0);
          let e = e\<lparr>ne_refcnt := ne_refcnt e - 1\<rparr>;
          if ne_refcnt e > 0 then Some (0, s\<lparr>neigh_mem := (neigh_mem s)(p \<mapsto> e)\<rparr>)
          else Some (0,
            dp_upd v (\<lambda>d. d\<lparr>neigh_cnt := neigh_cnt d - 1\<rparr>)
              (s\<lparr>neigh_count := neigh_count s - 1,
                 neigh_tbl := snd (rte_hash_del_key E (neigh_tbl s) key),
                 neigh_mem := (neigh_mem s)(p := None)\<rparr>))
        })"

text \<open>The address is copied to \<open>hw_addr\<close> before the hardware is told, so also when that fails.\<close>

definition shc_neigh_lookup ::
  "('h, 'f, 'b) lib \<Rightarrow> u32 \<Rightarrow> u32 \<Rightarrow> int \<Rightarrow> ('h, 'f, 'b) agent
     \<Rightarrow> (int \<times> mac option \<times> ('h, 'f, 'b) agent) option" where
  "shc_neigh_lookup E vrfid gw flag_of_add_del s =
     (case rte_hash_lookup_data E (neigh_tbl s) (neigh_key vrfid gw) of
        None \<Rightarrow> Some (- ENOENT, None, s)
      | Some p \<Rightarrow> do {
          e \<leftarrow> neigh_mem s p;
          if \<not> F_arp_valid e then Some (-1, None, s)
          else
            let hw_addr = rte_ether_addr_copy (hh e) in
            if flag_of_add_del = 0 then
              let (ret, s1) = (if ne_exit_flag e = 0
                               then shc_hal_neigh_entry_add E (ne_neigh_oid e) hw_addr s else (0, s)) in
              if ret < 0 then Some (ret, Some hw_addr, s1)
              else Some (0, Some hw_addr,
                s1\<lparr>neigh_mem := (neigh_mem s1)(p \<mapsto> e\<lparr>ne_exit_flag := ne_exit_flag e + 1\<rparr>)\<rparr>)
            else if flag_of_add_del = 1 \<and> sint (ne_exit_flag e) > 0 then
              let (ret, s1) = (if ne_exit_flag e = 1
                               then shc_hal_neigh_entry_del E (ne_neigh_oid e) s else (0, s)) in
              if ret < 0 then Some (ret, Some hw_addr, s1)
              else Some (0, Some hw_addr,
                s1\<lparr>neigh_mem := (neigh_mem s1)(p \<mapsto> e\<lparr>ne_exit_flag := ne_exit_flag e - 1\<rparr>)\<rparr>)
            else Some (0, Some hw_addr, s)
        })"

text \<open>
  A table that cannot be created stays NULL, which the first lookup dereferences: that is the
  outcome \<open>None\<close> here already.
\<close>

definition shc_neigh_init ::
  "('h, 'f, 'b) lib \<Rightarrow> ('h, 'f, 'b) agent \<Rightarrow> (int \<times> ('h, 'f, 'b) agent) option" where
  "shc_neigh_init E s =
     (case rte_hash_create E ''HASH_OVERLAY_GW'' (MAX_VRF_GW_HASH_ENT * 6) of
        None \<Rightarrow> None
      | Some h \<Rightarrow> Some (0, s\<lparr>neigh_tbl := h\<rparr>))"

definition shc_neigh_deinit :: int where
  "shc_neigh_deinit = 0"

section \<open>The neighbours as a map\<close>

text \<open>
  The abstract view of the component: which neighbours exist, with their entries; from it, the
  number of references each has (0 for one that does not exist). The invariant: the table is a
  sound table of entries that have references.
\<close>

definition neighs :: "('h, 'f, 'b) lib \<Rightarrow> ('h, 'f, 'b) agent \<Rightarrow> hkey \<rightharpoonup> ol_neigh_entry" where
  "neighs E s = obj_view (rte_hash_lookup_data E (neigh_tbl s)) (neigh_mem s)"

definition neigh_refs :: "('h, 'f, 'b) lib \<Rightarrow> ('h, 'f, 'b) agent \<Rightarrow> hkey \<Rightarrow> nat" where
  "neigh_refs E s k = (case neighs E s k of None \<Rightarrow> 0 | Some e \<Rightarrow> unat (ne_refcnt e))"

definition neigh_inv :: "('h, 'f, 'b) lib \<Rightarrow> ('h, 'f, 'b) agent \<Rightarrow> bool" where
  "neigh_inv E s \<longleftrightarrow>
     obj_table (\<lambda>_ e. 0 < ne_refcnt e) (rte_hash_lookup_data E (neigh_tbl s)) (neigh_mem s)"

lemma neigh_key_inj [simp]: "neigh_key a b = neigh_key c d \<longleftrightarrow> a = c \<and> b = d"
  by (auto simp: neigh_key_def)

lemma neigh_refs_upd:
  "neighs E s' = (neighs E s)(k \<mapsto> e) \<Longrightarrow> neigh_refs E s' = (neigh_refs E s)(k := unat (ne_refcnt e))"
  by (auto simp: neigh_refs_def fun_eq_iff)

lemma neigh_refs_del:
  "neighs E s' = (neighs E s)(k := None) \<Longrightarrow> neigh_refs E s' = (neigh_refs E s)(k := 0)"
  by (auto simp: neigh_refs_def fun_eq_iff)

lemma neigh_refs_zero_iff:
  "neigh_inv E s \<Longrightarrow> neigh_refs E s k = 0 \<longleftrightarrow> rte_hash_lookup_data E (neigh_tbl s) k = None"
  unfolding neigh_inv_def neigh_refs_def neighs_def
  by (auto simp: obj_view_def word_less_nat_alt unat_eq_0 split: option.splits dest: obj_live)

lemma neigh_cong:
  assumes "rte_hash_lookup_data E (neigh_tbl s') = rte_hash_lookup_data E (neigh_tbl s)"
    "neigh_mem s' = neigh_mem s"
  shows "neigh_inv E s' = neigh_inv E s" "neighs E s' = neighs E s" "neigh_refs E s' = neigh_refs E s"
  unfolding neigh_inv_def neighs_def neigh_refs_def by (simp_all only: assms)

text \<open>What the reference operations write.\<close>

definition neigh_only :: "nat \<Rightarrow> ('h, 'f, 'b) agent \<Rightarrow> ('h, 'f, 'b) agent \<Rightarrow> bool" where
  "neigh_only v s s' \<longleftrightarrow>
     (\<exists>c t n m l. s' = dp_upd v (\<lambda>d. d\<lparr>neigh_cnt := c\<rparr>)
        (s\<lparr>neigh_tbl := t, neigh_count := n, neigh_mem := m, hal_log := l\<rparr>))"

lemma hal_alloc_oid_eq:
  "hal_alloc_oid E c s =
     (hal_status E (hal_log s) c, if hal_status E (hal_log s) c = 0 then hal_oid E (hal_log s) c else 0,
      s\<lparr>hal_log := (c, hal_status E (hal_log s) c) # hal_log s\<rparr>)"
  by (simp add: hal_alloc_oid_def hal_do_eq Let_def)

lemma neigh_onlyI:
  "neigh_only v s (s\<lparr>neigh_tbl := t, neigh_count := n, neigh_mem := m, hal_log := l\<rparr>)"
  unfolding neigh_only_def dp_upd_def
  by (rule exI [of _ "neigh_cnt (vrf_dp_of s v)"], rule exI [of _ t], rule exI [of _ n],
      rule exI [of _ m], rule exI [of _ l]) simp

lemma neigh_onlyI_cnt:
  "neigh_only v s (dp_upd v (\<lambda>d. d\<lparr>neigh_cnt := g d\<rparr>)
     (s\<lparr>neigh_tbl := t, neigh_count := n, neigh_mem := m, hal_log := l\<rparr>))"
  unfolding neigh_only_def dp_upd_def
  by (rule exI [of _ "g (vrf_dp_of s v)"], rule exI [of _ t], rule exI [of _ n],
      rule exI [of _ m], rule exI [of _ l]) simp

lemma neigh_only_refl: "neigh_only v s s"
  using neigh_onlyI [where v = v and s = s and t = "neigh_tbl s" and n = "neigh_count s" and m = "neigh_mem s" and l = "hal_log s"] by simp

text \<open>Everything else is as it was.\<close>

lemma neigh_only_frame:
  assumes "neigh_only v s s'"
  shows "nhop_tbl s' = nhop_tbl s" "nhop_mem s' = nhop_mem s" "rib_tbl s' = rib_tbl s"
    "fib_res_mem s' = fib_res_mem s" "fib_res_used s' = fib_res_used s"
    "f_res_blackhole s' = f_res_blackhole s" "vrf_hash_tbl s' = vrf_hash_tbl s"
    "tunnel_mem s' = tunnel_mem s" "g_shc_vrf_n s' = g_shc_vrf_n s"
    "fib (vrf_dp_of s' w) = fib (vrf_dp_of s w)" "rib_cnt (vrf_dp_of s' w) = rib_cnt (vrf_dp_of s w)"
    "vrf_id (vrf_dp_of s' w) = vrf_id (vrf_dp_of s w)"
    "tunnel_rmap (vrf_dp_of s' w) = tunnel_rmap (vrf_dp_of s w)"
    "tunnel_cnt (vrf_dp_of s' w) = tunnel_cnt (vrf_dp_of s w)"
    "valid (g_shc_vrfs s' w) = valid (g_shc_vrfs s w)" "name (g_shc_vrfs s' w) = name (g_shc_vrfs s w)"
  using assms unfolding neigh_only_def by auto

section \<open>The contract of the reference operations\<close>

text \<open>
  \<open>shc_neigh_add\<close> on a sound table whose counter has room: it either takes exactly one reference
  to the neighbour, creating it if need be, and returns its identifier, or returns a negative
  code and leaves every reference as it was.
\<close>

definition neigh_add_post ::
  "('h, 'f, 'b) lib \<Rightarrow> hkey \<Rightarrow> ('h, 'f, 'b) agent \<Rightarrow> int \<times> u32 option \<times> ('h, 'f, 'b) agent \<Rightarrow> bool" where
  "neigh_add_post E k s r =
     (case r of (ret, oid, s') \<Rightarrow> neigh_inv E s' \<and> ret \<le> 0 \<and>
        (if ret = 0 then neigh_refs E s' = (neigh_refs E s)(k := neigh_refs E s k + 1) \<and>
              oid = map_option ne_neigh_oid (neighs E s' k) \<and> oid \<noteq> None
         else neigh_refs E s' = neigh_refs E s \<and> oid = None))"

lemma shc_neigh_add_present:
  assumes "neigh_inv E s" and look: "rte_hash_lookup_data E (neigh_tbl s) k = Some p"
    and k: "k = neigh_key (vrf_id (vrf_dp_of s v)) gw" and room: "neigh_refs E s k < 2 ^ 32 - 1"
  shows "\<exists>r. shc_neigh_add E v gw s = Some r \<and> neigh_add_post E k s r \<and> neigh_only v s (snd (snd r))"
proof -
  note inv = assms(1) [unfolded neigh_inv_def]
  from obj_liveE [OF inv look] obtain e where
    e: "neigh_mem s p = Some e" "0 < ne_refcnt e" "neighs E s k = Some e" by (auto simp: neighs_def)
  let ?e = "e\<lparr>ne_refcnt := ne_refcnt e + 1\<rparr>"
  let ?s = "s\<lparr>neigh_mem := (neigh_mem s)(p \<mapsto> ?e)\<rparr>"
  have cnt: "unat (ne_refcnt ?e) = unat (ne_refcnt e) + 1"
    using room e(3) by (simp add: neigh_refs_def unat_word_ariths)
  then have "0 < ne_refcnt ?e" by (simp add: word_less_nat_alt)
  note u = obj_update [OF inv look this]
  have inv': "neigh_inv E ?s" using u(1) by (simp add: neigh_inv_def)
  have view: "neighs E ?s = (neighs E s)(k \<mapsto> ?e)" using u(2) by (simp add: neighs_def)
  have "neigh_refs E ?s = (neigh_refs E s)(k := neigh_refs E s k + 1)"
    using neigh_refs_upd [OF view] cnt e(3) by (simp add: neigh_refs_def fun_eq_iff)
  then have "neigh_add_post E k s (0, Some (ne_neigh_oid e), ?s)"
    using inv' by (simp add: neigh_add_post_def view)
  moreover have "neigh_only v s ?s"
    using neigh_onlyI [where v = v and s = s and t = "neigh_tbl s" and n = "neigh_count s" and m = "(neigh_mem s)(p \<mapsto> ?e)" and l = "hal_log s"] by simp
  moreover have "shc_neigh_add E v gw s = Some (0, Some (ne_neigh_oid e), ?s)"
    using look e(1) k by (simp add: shc_neigh_add_def)
  ultimately show ?thesis by simp
qed

lemma shc_neigh_add_absent:
  assumes laws: "hash_laws E" "zmalloc_law E" and inv: "neigh_inv E s"
    and look: "rte_hash_lookup_data E (neigh_tbl s) k = None"
    and k: "k = neigh_key (vrf_id (vrf_dp_of s v)) gw"
  shows "\<exists>r. shc_neigh_add E v gw s = Some r \<and> neigh_add_post E k s r \<and> neigh_only v s (snd (snd r))"
proof -
  define p where "p = rte_zmalloc E (allocated (neigh_mem s))"
  define r where "r = fst (rte_hash_add_key_data E (neigh_tbl s) k p)"
  define h where "h = snd (rte_hash_add_key_data E (neigh_tbl s) k p)"
  define st where "st = hal_status E (hal_log s) Hal_neigh_alloc_oid"
  define oid where "oid = (if st = 0 then hal_oid E (hal_log s) Hal_neigh_alloc_oid else 0)"
  have add: "rte_hash_add_key_data E (neigh_tbl s) k p = (r, h)" by (simp add: r_def h_def)
  have alloc: "hal_alloc_oid E Hal_neigh_alloc_oid (s\<lparr>neigh_tbl := h\<rparr>) =
      (st, oid, s\<lparr>neigh_tbl := h, hal_log := (Hal_neigh_alloc_oid, st) # hal_log s\<rparr>)"
    by (simp add: hal_alloc_oid_eq st_def oid_def)
  have tbl: "rte_hash_lookup_data E h =
      (if r < 0 then rte_hash_lookup_data E (neigh_tbl s) else (rte_hash_lookup_data E (neigh_tbl s))(k \<mapsto> p))"
    by (simp add: hash_add [OF laws(1)] r_def h_def)
  have run: "shc_neigh_add E v gw s =
      (if p = NULL then Some (-12, None, s)
       else if r < 0 then Some (-14, None, s\<lparr>neigh_tbl := h\<rparr>)
       else if st < 0 then Some (st, None, s\<lparr>neigh_tbl := snd (rte_hash_del_key E h k),
          hal_log := (Hal_neigh_alloc_oid, st) # hal_log s\<rparr>)
       else Some (0, Some oid, dp_upd v (\<lambda>d. d\<lparr>neigh_cnt := neigh_cnt d + 1\<rparr>)
         (s\<lparr>neigh_tbl := h, neigh_count := neigh_count s + 1,
            neigh_mem := (neigh_mem s)(p \<mapsto> ol_neigh_zero\<lparr>ne_refcnt := 1, F_fast_arp := True,
              F_entry_valid := True, ne_neigh_oid := oid\<rparr>),
            hal_log := (Hal_neigh_alloc_oid, st) # hal_log s\<rparr>)))"
    unfolding shc_neigh_add_def Let_def k [symmetric] look p_def [symmetric] add
    by (simp add: alloc dp_upd_def)
  have fail: "\<exists>r. shc_neigh_add E v gw s = Some r \<and> neigh_add_post E k s r \<and> neigh_only v s (snd (snd r))"
    if "shc_neigh_add E v gw s = Some (ret, None, s\<lparr>neigh_tbl := t, hal_log := l\<rparr>)" "ret < 0"
      "rte_hash_lookup_data E t = rte_hash_lookup_data E (neigh_tbl s)" for ret t l
  proof -
    let ?s = "s\<lparr>neigh_tbl := t, hal_log := l\<rparr>"
    have "neigh_inv E ?s" "neigh_refs E ?s = neigh_refs E s"
      using neigh_cong [of E ?s s] that(3) inv by simp_all
    moreover have "neigh_only v s ?s"
      using neigh_onlyI [where v = v and s = s and t = t and n = "neigh_count s" and m = "neigh_mem s" and l = l]
      by simp
    ultimately show ?thesis using that(1,2) by (simp add: neigh_add_post_def)
  qed
  consider (nomem) "p = NULL" | (nospace) "p \<noteq> NULL" "r < 0"
    | (nooid) "p \<noteq> NULL" "\<not> r < 0" "st < 0" | (new) "p \<noteq> NULL" "\<not> r < 0" "\<not> st < 0" by blast
  then show ?thesis
  proof cases
    case nomem
    then show ?thesis
      by (intro fail [where ret = "-12" and t = "neigh_tbl s" and l = "hal_log s"]) (auto simp: run)
  next
    case nospace
    then show ?thesis
      by (intro fail [where ret = "-14" and t = h and l = "hal_log s"]) (auto simp: run tbl)
  next
    case nooid
    then show ?thesis
      by (intro fail [where ret = st and t = "snd (rte_hash_del_key E h k)"])
         (auto simp: run tbl hash_del [OF laws(1)] look fun_upd_idem)
  next
    case new
    define e where "e = ol_neigh_zero\<lparr>ne_refcnt := 1, F_fast_arp := True, F_entry_valid := True, ne_neigh_oid := oid\<rparr>"
    define s' where "s' = dp_upd v (\<lambda>d. d\<lparr>neigh_cnt := neigh_cnt d + 1\<rparr>)
      (s\<lparr>neigh_tbl := h, neigh_count := neigh_count s + 1, neigh_mem := (neigh_mem s)(p \<mapsto> e),
         hal_log := (Hal_neigh_alloc_oid, st) # hal_log s\<rparr>)"
    have "neigh_mem s p = None"
      using zmalloc_fresh [OF laws(2), of "allocated (neigh_mem s)"] new(1)
      by (simp add: p_def allocated_def)
    moreover have "0 < ne_refcnt e" by (simp add: e_def)
    ultimately have u: "neigh_inv E s'" "neighs E s' = (neighs E s)(k \<mapsto> e)"
      using obj_insert [OF inv [unfolded neigh_inv_def] _ _ look, of p e] tbl new(2)
      by (simp_all add: neigh_inv_def neighs_def s'_def)
    have "neigh_refs E s k = 0" using look neigh_refs_zero_iff [OF inv] by simp
    then have "neigh_refs E s' = (neigh_refs E s)(k := neigh_refs E s k + 1)"
      using neigh_refs_upd [OF u(2)] by (simp add: e_def)
    then have "neigh_add_post E k s (0, Some oid, s')"
      using u by (simp add: neigh_add_post_def e_def)
    moreover have "shc_neigh_add E v gw s = Some (0, Some oid, s')"
      using new by (simp add: run s'_def e_def)
    moreover have "neigh_only v s s'" unfolding s'_def by (rule neigh_onlyI_cnt)
    ultimately show ?thesis by simp
  qed
qed

lemma shc_neigh_add_spec:
  assumes "hash_laws E" "zmalloc_law E" "neigh_inv E s" "k = neigh_key (vrf_id (vrf_dp_of s v)) gw"
    "neigh_refs E s k < 2 ^ 32 - 1"
  shows "\<exists>r. shc_neigh_add E v gw s = Some r \<and> neigh_add_post E k s r \<and> neigh_only v s (snd (snd r))"
  using shc_neigh_add_present [OF assms(3) _ assms(4,5)] shc_neigh_add_absent [OF assms(1-3) _ assms(4)]
  by (cases "rte_hash_lookup_data E (neigh_tbl s) k") auto

text \<open>
  \<open>shc_neigh_del\<close> gives one reference back, frees the entry with the last, and returns -1 for a
  neighbour that does not exist.
\<close>

definition neigh_del_post ::
  "('h, 'f, 'b) lib \<Rightarrow> hkey \<Rightarrow> ('h, 'f, 'b) agent \<Rightarrow> int \<times> ('h, 'f, 'b) agent \<Rightarrow> bool" where
  "neigh_del_post E k s r =
     (case r of (ret, s') \<Rightarrow> neigh_inv E s' \<and>
        (if neigh_refs E s k = 0 then ret = -1 \<and> s' = s
         else ret = 0 \<and> neigh_refs E s' = (neigh_refs E s)(k := neigh_refs E s k - 1)))"

lemma unat_minus_one_word: "0 < (x :: 'a :: len word) \<Longrightarrow> unat (x - 1) = unat x - 1"
  by (simp add: unat_minus_one word_neq_0_conv)

lemma shc_neigh_del_spec:
  assumes laws: "hash_laws E" and inv: "neigh_inv E s"
    and k: "k = neigh_key (vrf_id (vrf_dp_of s v)) gw"
  shows "\<exists>r. shc_neigh_del E v gw s = Some r \<and> neigh_del_post E k s r \<and> neigh_only v s (snd r)"
proof (cases "rte_hash_lookup_data E (neigh_tbl s) k")
  case None
  then show ?thesis
    using inv k neigh_refs_zero_iff [OF inv, of k]
    by (simp add: shc_neigh_del_def neigh_del_post_def neigh_only_refl)
next
  case (Some p)
  from obj_liveE [OF inv [unfolded neigh_inv_def] Some] obtain e where
    e: "neigh_mem s p = Some e" "0 < ne_refcnt e" "neighs E s k = Some e" by (auto simp: neighs_def)
  define e' where "e' = e\<lparr>ne_refcnt := ne_refcnt e - 1\<rparr>"
  have refs: "neigh_refs E s k \<noteq> 0" using neigh_refs_zero_iff [OF inv, of k] Some by simp
  have cnt: "unat (ne_refcnt e') = neigh_refs E s k - 1"
    using e by (simp add: e'_def unat_minus_one_word neigh_refs_def)
  define s1 where "s1 = s\<lparr>neigh_mem := (neigh_mem s)(p \<mapsto> e')\<rparr>"
  define s2 where "s2 = dp_upd v (\<lambda>d. d\<lparr>neigh_cnt := neigh_cnt d - 1\<rparr>)
    (s\<lparr>neigh_tbl := snd (rte_hash_del_key E (neigh_tbl s) k), neigh_count := neigh_count s - 1,
       neigh_mem := (neigh_mem s)(p := None), hal_log := hal_log s\<rparr>)"
  have run: "shc_neigh_del E v gw s = Some (0, if ne_refcnt e' > 0 then s1 else s2)"
    unfolding shc_neigh_del_def Let_def k [symmetric] Some
    using e by (simp add: s1_def s2_def e'_def dp_upd_def)
  show ?thesis
  proof (cases "ne_refcnt e' > 0")
    case True
    note u = obj_update [OF inv [unfolded neigh_inv_def] Some True]
    have "neigh_inv E s1" "neighs E s1 = (neighs E s)(k \<mapsto> e')"
      using u by (simp_all add: neigh_inv_def neighs_def s1_def)
    moreover have "neigh_only v s s1"
      using neigh_onlyI [where v = v and s = s and t = "neigh_tbl s" and n = "neigh_count s"
          and m = "(neigh_mem s)(p \<mapsto> e')" and l = "hal_log s"]
      by (simp add: s1_def)
    ultimately show ?thesis
      using run True refs neigh_refs_upd [of E s1 s k e'] cnt by (simp add: neigh_del_post_def)
  next
    case False
    then have one: "neigh_refs E s k - 1 = 0" using cnt by (simp add: word_less_nat_alt)
    note u = obj_remove [OF inv [unfolded neigh_inv_def] Some]
    have "neigh_inv E s2" "neighs E s2 = (neighs E s)(k := None)"
      using u by (simp_all add: neigh_inv_def neighs_def s2_def hash_del [OF laws])
    moreover have "neigh_only v s s2" unfolding s2_def by (rule neigh_onlyI_cnt)
    ultimately show ?thesis
      using run False refs one neigh_refs_del [of E s2 s k] by (simp add: neigh_del_post_def)
  qed
qed

lemma neigh_inv_agent0: "neigh_inv (lib0 cap) agent0"
  by (simp add: neigh_inv_def)

text \<open>
  \<open>shc_neigh_add\<close> on a sound neighbour table always returns, keeps the table sound, and
  either returns 0, has taken exactly one reference to the neighbour of the VRF and gateway and
  hands out that neighbour's identifier, or returns a negative code and changes no reference:
  a failed allocation or insertion is rolled back.
\<close>

theorem shc_neigh_add_contract:
  assumes "hash_laws E" "zmalloc_law E" "neigh_inv E s"
    and "neigh_refs E s (neigh_key (vrf_id (vrf_dp_of s v)) gw) < 2 ^ 32 - 1"
  shows "\<exists>r. shc_neigh_add E v gw s = Some r \<and>
             neigh_add_post E (neigh_key (vrf_id (vrf_dp_of s v)) gw) s r"
  using shc_neigh_add_spec [OF assms(1-3) refl assms(4)] by blast

lemma shc_neigh_add_contract_witness:
  "\<exists>r. shc_neigh_add (lib0 4) 0 5 agent0 = Some r \<and> neigh_add_post (lib0 4) (neigh_key 1 5) agent0 r"
proof -
  have "neigh_refs (lib0 4) agent0 (neigh_key (vrf_id (vrf_dp_of agent0 0)) 5) < 2 ^ 32 - 1"
    by (simp add: neigh_refs_def neighs_def obj_view_def)
  from shc_neigh_add_contract [OF hash_laws_lib0 zmalloc_law_lib0 neigh_inv_agent0 this]
  show ?thesis by simp
qed

text \<open>
  A reference taken by \<open>shc_neigh_add\<close> and given back by \<open>shc_neigh_del\<close> leaves every
  neighbour's references as they were, and the deletion succeeds.
\<close>

theorem shc_neigh_add_del_balance:
  assumes "hash_laws E" "zmalloc_law E" "neigh_inv E s"
    and "neigh_refs E s (neigh_key (vrf_id (vrf_dp_of s v)) gw) < 2 ^ 32 - 1"
    and "shc_neigh_add E v gw s = Some (0, oid, s1)"
  shows "\<exists>s2. shc_neigh_del E v gw s1 = Some (0, s2) \<and> neigh_inv E s2 \<and> neigh_refs E s2 = neigh_refs E s"
proof -
  let ?k = "neigh_key (vrf_id (vrf_dp_of s v)) gw"
  from shc_neigh_add_spec [OF assms(1-3) refl assms(4)] assms(5)
  have post: "neigh_add_post E ?k s (0, oid, s1)" and only: "neigh_only v s s1" by auto
  have inv1: "neigh_inv E s1" and refs1: "neigh_refs E s1 = (neigh_refs E s)(?k := neigh_refs E s ?k + 1)"
    using post by (auto simp: neigh_add_post_def)
  have "?k = neigh_key (vrf_id (vrf_dp_of s1 v)) gw" by (simp add: neigh_only_frame [OF only])
  from shc_neigh_del_spec [OF assms(1) inv1 this] show ?thesis
    using refs1 by (auto simp: neigh_del_post_def)
qed

lemma shc_neigh_add_del_balance_witness:
  "\<exists>s2. shc_neigh_del (lib0 4) 0 5 (snd (snd (the (shc_neigh_add (lib0 4) 0 5 agent0)))) = Some (0, s2) \<and>
     neigh_inv (lib0 4) s2 \<and> neigh_refs (lib0 4) s2 = neigh_refs (lib0 4) agent0"
proof -
  have small: "neigh_refs (lib0 4) agent0 (neigh_key (vrf_id (vrf_dp_of agent0 0)) 5) < 2 ^ 32 - 1"
    by (simp add: neigh_refs_def neighs_def obj_view_def)
  have "shc_neigh_add (lib0 4) 0 5 agent0 =
      Some (0, Some 1, snd (snd (the (shc_neigh_add (lib0 4) 0 5 agent0))))"
    by (simp add: shc_neigh_add_def Let_def hal_alloc_oid_eq slot_add_def first_free_def allocated_def)
  from shc_neigh_add_del_balance [OF hash_laws_lib0 zmalloc_law_lib0 neigh_inv_agent0 small this]
  show ?thesis by simp
qed

section \<open>The offload of a neighbour\<close>

text \<open>
  The hardware's entry of a neighbour identifier, and the lookup of one neighbour as a step of the
  offload protocol: it can be looked up once its address is known.
\<close>

fun adds_neigh :: "u32 \<Rightarrow> hal_call \<Rightarrow> bool" where
  "adds_neigh oid (Hal_neigh_entry_add key data) = (hk_neigh_id key = oid)"
| "adds_neigh oid _ = False"

fun dels_neigh :: "u32 \<Rightarrow> hal_call \<Rightarrow> bool" where
  "dels_neigh oid (Hal_neigh_entry_del key) = (hk_neigh_id key = oid)"
| "dels_neigh oid _ = False"

definition neigh_offloaded :: "('h, 'f, 'b) lib \<Rightarrow> hkey \<Rightarrow> ('h, 'f, 'b) agent \<Rightarrow> bool" where
  "neigh_offloaded E k s =
     (case neighs E s k of None \<Rightarrow> False
      | Some e \<Rightarrow> hw_present (adds_neigh (ne_neigh_oid e)) (dels_neigh (ne_neigh_oid e)) (hal_log s))"

definition neigh_users :: "('h, 'f, 'b) lib \<Rightarrow> hkey \<Rightarrow> ('h, 'f, 'b) agent \<Rightarrow> u8" where
  "neigh_users E k s = (case neighs E s k of None \<Rightarrow> 0 | Some e \<Rightarrow> ne_exit_flag e)"

definition neigh_ready :: "('h, 'f, 'b) lib \<Rightarrow> hkey \<Rightarrow> ('h, 'f, 'b) agent \<Rightarrow> bool" where
  "neigh_ready E k s \<longleftrightarrow> hal_never_fails E \<and>
     (case neighs E s k of None \<Rightarrow> False | Some e \<Rightarrow> F_arp_valid e)"

definition neigh_lookup_step ::
  "('h, 'f, 'b) lib \<Rightarrow> u32 \<Rightarrow> u32 \<Rightarrow> int \<Rightarrow> ('h, 'f, 'b) agent \<Rightarrow> ('h, 'f, 'b) agent option" where
  "neigh_lookup_step E vrfid gw flag s = map_option (\<lambda>(r, m, s'). s') (shc_neigh_lookup E vrfid gw flag s)"

text \<open>The entry and the calls after one lookup with flag \<open>f\<close>.\<close>

definition neigh_counted :: "int \<Rightarrow> ol_neigh_entry \<Rightarrow> ol_neigh_entry" where
  "neigh_counted f e =
     (if f = 0 then e\<lparr>ne_exit_flag := ne_exit_flag e + 1\<rparr>
      else if f = 1 \<and> sint (ne_exit_flag e) > 0 then e\<lparr>ne_exit_flag := ne_exit_flag e - 1\<rparr> else e)"

definition neigh_calls :: "int \<Rightarrow> ol_neigh_entry \<Rightarrow> hal_trace" where
  "neigh_calls f e =
     (if f = 0 \<and> ne_exit_flag e = 0
      then [(Hal_neigh_entry_add \<lparr>hk_neigh_id = ne_neigh_oid e\<rparr> \<lparr>hd_dmac = take 6 (hh e)\<rparr>, 0)]
      else if f = 1 \<and> ne_exit_flag e = 1 then [(Hal_neigh_entry_del \<lparr>hk_neigh_id = ne_neigh_oid e\<rparr>, 0)]
      else [])"

lemma shc_neigh_lookup_ready:
  assumes "rte_hash_lookup_data E (neigh_tbl s) (neigh_key vrfid gw) = Some p"
    "neigh_mem s p = Some e" "F_arp_valid e" "hal_never_fails E"
  shows "shc_neigh_lookup E vrfid gw f s = Some (0, Some (take 6 (hh e)),
    s\<lparr>hal_log := neigh_calls f e @ hal_log s, neigh_mem := (neigh_mem s)(p \<mapsto> neigh_counted f e)\<rparr>)"
proof -
  note run = shc_neigh_lookup_def assms(1-3) rte_ether_addr_copy_def Let_def
    shc_hal_neigh_entry_add_def shc_hal_neigh_entry_del_def hal_do_eq hal_never_failsD [OF assms(4)]
    neigh_calls_def neigh_counted_def
  have one: "0 < sint (1 :: u8)" by simp
  consider "f = 0" "ne_exit_flag e = 0" | "f = 0" "ne_exit_flag e \<noteq> 0" | "f = 1" "ne_exit_flag e = 1"
    | "f = 1" "ne_exit_flag e \<noteq> 1" "0 < sint (ne_exit_flag e)" | "f = 1" "ne_exit_flag e \<noteq> 1" "\<not> 0 < sint (ne_exit_flag e)"
    | "f \<noteq> 0" "f \<noteq> 1" by blast
  then show ?thesis
    by cases (simp_all add: run one map_upd_triv assms(2))
qed

lemma neigh_readyE:
  assumes "neigh_ready E (neigh_key vrfid gw) s"
  obtains p e where "hal_never_fails E" "neighs E s (neigh_key vrfid gw) = Some e"
    "rte_hash_lookup_data E (neigh_tbl s) (neigh_key vrfid gw) = Some p"
    "neigh_mem s p = Some e" "F_arp_valid e"
    "\<And>f. neigh_lookup_step E vrfid gw f s = Some
      (s\<lparr>hal_log := neigh_calls f e @ hal_log s, neigh_mem := (neigh_mem s)(p \<mapsto> neigh_counted f e)\<rparr>)"
proof -
  from assms obtain p e where pe: "rte_hash_lookup_data E (neigh_tbl s) (neigh_key vrfid gw) = Some p"
    "neigh_mem s p = Some e" "F_arp_valid e" "hal_never_fails E" "neighs E s (neigh_key vrfid gw) = Some e"
    by (auto simp: neigh_ready_def neighs_def obj_view_def split: option.splits)
  from pe(4,5,1,2,3) show thesis
    by (rule that) (simp add: neigh_lookup_step_def shc_neigh_lookup_ready [OF pe(1-4)])
qed

lemma neighs_counted:
  assumes "rte_hash_lookup_data E (neigh_tbl s) k = Some p"
  shows "neighs E (s\<lparr>hal_log := l, neigh_mem := (neigh_mem s)(p \<mapsto> e')\<rparr>) k = Some e'"
  using assms by (simp add: neighs_def obj_view_def)

lemma neigh_counted_same [simp]:
  "ne_neigh_oid (neigh_counted f e) = ne_neigh_oid e" "F_arp_valid (neigh_counted f e) = F_arp_valid e"
  by (simp_all add: neigh_counted_def)

interpretation neigh_off: offload_counter "neigh_lookup_step E vrfid gw"
  "neigh_ready E (neigh_key vrfid gw)" "neigh_users E (neigh_key vrfid gw)"
  "neigh_offloaded E (neigh_key vrfid gw)" for E :: "('h, 'f, 'b) lib" and vrfid gw
proof (rule offload_counterI)
  fix s :: "('h, 'f, 'b) agent" and f
  assume "neigh_ready E (neigh_key vrfid gw) s"
  then show "\<exists>s'. neigh_lookup_step E vrfid gw f s = Some s' \<and> neigh_ready E (neigh_key vrfid gw) s' \<and>
      neigh_users E (neigh_key vrfid gw) s' = count_user f (neigh_users E (neigh_key vrfid gw) s) \<and>
      neigh_offloaded E (neigh_key vrfid gw) s' =
        hw_user f (neigh_users E (neigh_key vrfid gw) s) (neigh_offloaded E (neigh_key vrfid gw) s)"
    by (rule neigh_readyE)
       (simp add: neigh_ready_def neighs_counted neigh_users_def neigh_offloaded_def neigh_calls_def
          neigh_counted_def count_user_def hw_user_def)
qed

text \<open>
  C7. Take a neighbour with a known address whose hardware entry is there exactly if its counter is not 0,
  and a hardware layer in which no call fails. As long as it has at most 127 users at any time (the
  \<open>peak\<close> of the sequence), every sequence of \<open>shc_neigh_lookup\<close> calls with the flags \<open>fs\<close> returns and
  keeps the hardware in step: the counter is the number of users (an add counts one more, a delete one
  less but never below 0), and the neighbour is in the hardware's table exactly while there are users.
\<close>

theorem shc_neigh_lookup_offload_sync:
  assumes "neigh_ready E (neigh_key vrfid gw) s"
    and "0 \<le> sint (neigh_users E (neigh_key vrfid gw) s)"
    and "neigh_offloaded E (neigh_key vrfid gw) s = (neigh_users E (neigh_key vrfid gw) s \<noteq> 0)"
    and "peak fs (sint (neigh_users E (neigh_key vrfid gw) s)) \<le> 127"
  shows "\<exists>s'. lookups (neigh_lookup_step E vrfid gw) fs s = Some s' \<and>
      sint (neigh_users E (neigh_key vrfid gw) s') = users fs (sint (neigh_users E (neigh_key vrfid gw) s)) \<and>
      neigh_offloaded E (neigh_key vrfid gw) s' = (users fs (sint (neigh_users E (neigh_key vrfid gw) s)) > 0)"
proof -
  have "neigh_off.synced E vrfid gw s" using assms(1-3) by (simp add: neigh_off.synced_def)
  from neigh_off.lookups_synced [OF this assms(4)] show ?thesis
    using sint_zero_iff by (fastforce simp: neigh_off.synced_def)
qed

text \<open>A neighbour whose address is known: the state after a static entry is added.\<close>

definition agent_static :: "(slots, alist_fib, int list) agent" where
  "agent_static = snd (the (ol_neigh_add_static (lib0 4) 1 5 [2, 0, 0, 0, 0, 1] agent0))"

lemma agent_static_entry:
  "neighs (lib0 4) agent_static (neigh_key 1 5) = Some
     \<lparr>F_arp_valid = True, F_fast_arp = False, F_entry_valid = True, F_arp_static = True, hh_len = 14,
      hh = [2, 0, 0, 0, 0, 1, 0x3c, 0xfd, 0xfe, 0x29, 0xcb, 0xc2, 8, 0, 0, 0, 0, 0, 0, 0, 0, 0],
      ne_neigh_oid = 0, ne_refcnt = 1, ne_exit_flag = 0\<rparr>"
  "hal_log agent_static = []"
  by (simp_all add: agent_static_def ol_neigh_add_static_def neigh_set_static_def slot_add_def Let_def
      first_free_def allocated_def ol_neigh_zero_def rte_ether_addr_copy_def shc_fake_mac_get_def neighs_def
      obj_view_def agent0_def numeral_eq_Suc)

lemma shc_neigh_lookup_offload_sync_witness:
  "\<exists>s'. lookups (neigh_lookup_step (lib0 4) 1 5) [0, 0, 1] agent_static = Some s' \<and>
      sint (neigh_users (lib0 4) (neigh_key 1 5) s') = 1 \<and>
      neigh_offloaded (lib0 4) (neigh_key 1 5) s'"
  using shc_neigh_lookup_offload_sync [of "lib0 4" 1 5 agent_static "[0, 0, 1]"] hal_never_fails_lib0 [of 4]
  by (simp add: neigh_ready_def neigh_users_def neigh_offloaded_def agent_static_entry)

text \<open>
  C34. The counter is an \<open>int8_t\<close> and is not checked: after 128 adds it is negative, and from then
  on the deletes change nothing. The neighbour stays in the hardware's table however many users
  go, all 128 of them included.
\<close>

theorem shc_neigh_lookup_counter_wraps:
  assumes "neigh_ready E (neigh_key vrfid gw) s" and "neigh_users E (neigh_key vrfid gw) s = 0"
    and "\<not> neigh_offloaded E (neigh_key vrfid gw) s"
  shows "\<exists>s'. lookups (neigh_lookup_step E vrfid gw) (replicate 128 0 @ replicate n 1) s = Some s' \<and>
      neigh_offloaded E (neigh_key vrfid gw) s'"
proof -
  have "neigh_off.synced E vrfid gw s" using assms by (simp add: neigh_off.synced_def)
  from neigh_off.wrap_stuck [OF this assms(2)] show ?thesis .
qed

lemma shc_neigh_lookup_counter_wraps_witness:
  "\<exists>s'. lookups (neigh_lookup_step (lib0 4) 1 5) (replicate 128 0 @ replicate 128 1) agent_static = Some s' \<and>
      neigh_offloaded (lib0 4) (neigh_key 1 5) s'"
  by (rule shc_neigh_lookup_counter_wraps)
     (simp_all add: neigh_ready_def neigh_users_def neigh_offloaded_def agent_static_entry hal_never_fails_lib0)

section \<open>The neighbour's address\<close>

lemma shc_neigh_lookup_valid:
  assumes "rte_hash_lookup_data E (neigh_tbl s) (neigh_key vrfid gw) = Some p"
    and "neigh_mem s p = Some e" and "F_arp_valid e"
  shows "\<exists>r s'. shc_neigh_lookup E vrfid gw f s = Some (r, Some (take 6 (hh e)), s') \<and>
     (r = 0 \<or> r = SHC_LOAD_TO_P4_FAIL)"
  using assms
  by (auto simp: shc_neigh_lookup_def Let_def rte_ether_addr_copy_def shc_hal_neigh_entry_add_def
      shc_hal_neigh_entry_del_def hal_do_eq hal_ret_def const_defs split: if_splits)

text \<open>
  An address set by \<open>ol_neigh_add_static\<close> is the one every later \<open>shc_neigh_lookup\<close> of the
  neighbour copies out, whatever the lookup's flag and whether or not the hardware accepts the
  entry; and the table stays sound.
\<close>

theorem ol_neigh_add_static_lookup:
  assumes "hash_laws E" "zmalloc_law E" "neigh_inv E s" "length hw_addr = 6"
    and "neigh_refs E s (neigh_key vrfid gw) < 2 ^ 32 - 1"
    and "ol_neigh_add_static E vrfid gw hw_addr s = Some (0, s1)"
  shows "neigh_inv E s1 \<and> (\<exists>r s2. shc_neigh_lookup E vrfid gw flag s1 = Some (r, Some hw_addr, s2) \<and>
           (r = 0 \<or> r = SHC_LOAD_TO_P4_FAIL))"
proof -
  let ?k = "neigh_key vrfid gw"
  have set: "neigh_inv E s1 \<and> (\<exists>r s2. shc_neigh_lookup E vrfid gw flag s1 = Some (r, Some hw_addr, s2) \<and>
           (r = 0 \<or> r = SHC_LOAD_TO_P4_FAIL))"
    if st: "neigh_set_static p hw_addr t = Some (0, s1)" and look: "rte_hash_lookup_data E (neigh_tbl t) ?k = Some p"
      and mem: "neigh_mem t p = Some e" and tab: "obj_table (\<lambda>k e. k = ?k \<or> 0 < ne_refcnt e)
        (rte_hash_lookup_data E (neigh_tbl t)) (neigh_mem t)"
      and pos: "F_arp_static e \<longrightarrow> 0 < ne_refcnt e" and room: "unat (ne_refcnt e) < 2 ^ 32 - 1" for p t e
  proof -
    obtain e' where s1: "s1 = t\<lparr>neigh_mem := (neigh_mem t)(p \<mapsto> e')\<rparr>" and e': "F_arp_valid e'"
      "take 6 (hh e') = hw_addr" "ne_refcnt e' = (if F_arp_static e then ne_refcnt e else ne_refcnt e + 1)"
      using st mem assms(4) by (auto simp: neigh_set_static_def rte_ether_addr_copy_def Let_def split: if_splits)
    have "unat (ne_refcnt e + 1) = unat (ne_refcnt e) + 1" using room by (simp add: unat_word_ariths)
    then have pos': "0 < ne_refcnt e'" using pos e'(3) by (simp add: word_less_nat_alt)
    have "obj_table (\<lambda>k e. 0 < ne_refcnt e) (rte_hash_lookup_data E (neigh_tbl s1)) (neigh_mem s1)"
    proof (rule obj_tableI)
      fix k q assume "rte_hash_lookup_data E (neigh_tbl s1) k = Some q"
      then show "\<exists>e. neigh_mem s1 q = Some e \<and> 0 < ne_refcnt e"
        using obj_live [OF tab, of k q] obj_inj [OF tab look, of k] look pos' s1 by (cases "q = p") auto
    qed (use obj_inj [OF tab] obj_noleak [OF tab] look s1 in \<open>auto split: if_splits\<close>)
    then have "neigh_inv E s1" by (simp add: neigh_inv_def)
    moreover have "rte_hash_lookup_data E (neigh_tbl s1) ?k = Some p" "neigh_mem s1 p = Some e'"
      using look by (simp_all add: s1)
    ultimately show ?thesis using shc_neigh_lookup_valid [of E s1 vrfid gw p e' flag] e'(1,2) by simp
  qed
  note inv = assms(3) [unfolded neigh_inv_def]
  show ?thesis
  proof (cases "rte_hash_lookup_data E (neigh_tbl s) ?k")
    case (Some p)
    from obj_liveE [OF inv Some] obtain e where e: "neigh_mem s p = Some e" "0 < ne_refcnt e"
      "neighs E s ?k = Some e" by (auto simp: neighs_def)
    have "obj_table (\<lambda>k e. k = ?k \<or> 0 < ne_refcnt e) (rte_hash_lookup_data E (neigh_tbl s)) (neigh_mem s)"
      using inv unfolding obj_table_def by blast
    then show ?thesis
      using set [OF _ Some e(1)] assms(5,6) Some e by (simp add: ol_neigh_add_static_def neigh_refs_def)
  next
    case None
    define p where "p = rte_zmalloc E (allocated (neigh_mem s))"
    define h where "h = snd (rte_hash_add_key_data E (neigh_tbl s) ?k p)"
    define t where "t = s\<lparr>neigh_tbl := h, neigh_mem := (neigh_mem s)(p \<mapsto> ol_neigh_zero),
      neigh_count := neigh_count s + 1\<rparr>"
    have ok: "p \<noteq> NULL" "\<not> fst (rte_hash_add_key_data E (neigh_tbl s) ?k p) < 0"
      "neigh_set_static p hw_addr t = Some (0, s1)"
      using assms(6) None
      by (auto simp: ol_neigh_add_static_def Let_def p_def h_def t_def const_defs split: if_splits prod.splits)
    have tbl: "rte_hash_lookup_data E h = (rte_hash_lookup_data E (neigh_tbl s))(?k \<mapsto> p)"
      using ok(2) by (simp add: h_def hash_add [OF assms(1)])
    have fresh: "neigh_mem s p = None"
      using zmalloc_fresh [OF assms(2), of "allocated (neigh_mem s)"] ok(1) by (simp add: p_def allocated_def)
    have "obj_table (\<lambda>k e. k = ?k \<or> 0 < ne_refcnt e) (rte_hash_lookup_data E (neigh_tbl s)) (neigh_mem s)"
      using inv unfolding obj_table_def by blast
    from obj_insert [OF this fresh _ None, of ol_neigh_zero]
    have "obj_table (\<lambda>k e. k = ?k \<or> 0 < ne_refcnt e) (rte_hash_lookup_data E (neigh_tbl t)) (neigh_mem t)"
      by (simp add: t_def tbl)
    then show ?thesis
      using set [OF ok(3), of ol_neigh_zero] by (simp add: t_def tbl ol_neigh_zero_def)
  qed
qed

lemma ol_neigh_add_static_lookup_witness:
  "neigh_inv (lib0 4) agent_static \<and>
   (\<exists>r s2. shc_neigh_lookup (lib0 4) 1 5 0 agent_static = Some (r, Some [2, 0, 0, 0, 0, 1], s2) \<and>
           (r = 0 \<or> r = SHC_LOAD_TO_P4_FAIL))"
proof (rule ol_neigh_add_static_lookup [OF hash_laws_lib0 zmalloc_law_lib0 neigh_inv_agent0])
  show "ol_neigh_add_static (lib0 4) 1 5 [2, 0, 0, 0, 0, 1] agent0 = Some (0, agent_static)"
    by (simp add: agent_static_def ol_neigh_add_static_def neigh_set_static_def slot_add_def Let_def
        first_free_def allocated_def)
qed (simp_all add: neigh_refs_def neighs_def obj_view_def)

text \<open>
  A neighbour that only \<open>shc_neigh_add\<close> has created (the way every route creates them) has
  no address: \<open>shc_neigh_lookup\<close> returns -1 for it, copies nothing out and offloads nothing.
\<close>

theorem shc_neigh_add_unresolved:
  assumes "hash_laws E" "zmalloc_law E"
    and "rte_hash_lookup_data E (neigh_tbl s) (neigh_key (vrf_id (vrf_dp_of s v)) gw) = None"
    and "shc_neigh_add E v gw s = Some (0, oid, s1)"
  shows "shc_neigh_lookup E (vrf_id (vrf_dp_of s v)) gw flag s1 = Some (-1, None, s1)"
proof -
  let ?k = "neigh_key (vrf_id (vrf_dp_of s v)) gw"
  obtain p e where "rte_hash_lookup_data E (neigh_tbl s1) ?k = Some p" "neigh_mem s1 p = Some e" "\<not> F_arp_valid e"
    using assms hash_add [OF assms(1), of "neigh_tbl s" ?k "rte_zmalloc E (allocated (neigh_mem s))"]
    by (auto simp: shc_neigh_add_def Let_def hal_alloc_oid_eq ol_neigh_zero_def split: if_splits prod.splits)
  then show ?thesis by (simp add: shc_neigh_lookup_def)
qed

lemma shc_neigh_add_unresolved_witness:
  "\<exists>s1. shc_neigh_add (lib0 4) 0 5 agent0 = Some (0, Some 1, s1) \<and>
     shc_neigh_lookup (lib0 4) 1 5 0 s1 = Some (-1, None, s1)"
proof -
  obtain s1 where s1: "shc_neigh_add (lib0 4) 0 5 agent0 = Some (0, Some 1, s1)"
    by (simp add: shc_neigh_add_def Let_def hal_alloc_oid_eq slot_add_def first_free_def allocated_def)
  from shc_neigh_add_unresolved [OF hash_laws_lib0 zmalloc_law_lib0 _ this, of 0] s1
  show ?thesis by simp
qed

end
