(* ===== verification/Vrf_Table.thy ===== *)
theory Vrf_Table
  imports Neigh
begin

text \<open>
  \<open>agent/vrf.c\<close>, the table of VRFs: lookup by name and by identifier, creation, and the getters
  and setters. Deletion and start-up, which call the other components, are in the theory of the
  VRFs' life cycle. A pointer to a VRF, or to its data plane, is the VRF's slot.
\<close>

section \<open>Lookup\<close>

text \<open>
  The identifier is an unsigned number one above the slot. It is checked against the table's end
  only, so for identifier 0 (slot -1), or one above \<open>2 ^ 31\<close>, the read is out of the table.
\<close>

definition shc_vrf_get_by_id :: "u32 \<Rightarrow> ('h, 'f, 'b) agent \<Rightarrow> nat option option" where
  "shc_vrf_get_by_id vrfid s =
     (let index = sint (vrfid - 1) in
      if index < SHC_NR_VRF then
        if index < 0 then None
        else if valid (g_shc_vrfs s (nat index)) then Some (Some (nat index)) else Some None
      else Some None)"

definition shc_vrf_dp_get_by_id :: "u32 \<Rightarrow> ('h, 'f, 'b) agent \<Rightarrow> nat option option" where
  "shc_vrf_dp_get_by_id vrfid s = shc_vrf_get_by_id vrfid s"

text \<open>
  \<open>strcmp\<close> of a slot's name with a C string, as equality. A name that fills its 64 bytes has no
  NUL: if the string goes on after it, or ends with it, the comparison reads past the array.
\<close>

definition strcmp_slot :: "string \<Rightarrow> string \<Rightarrow> bool option" where
  "strcmp_slot slot_name vrf_name =
     (if length slot_name \<ge> SHC_VRF_NAME_LEN \<and> take (length slot_name) vrf_name = slot_name then None
      else Some (slot_name = vrf_name))"

fun vrf_find :: "(nat \<Rightarrow> 'f shc_vrf) \<Rightarrow> string \<Rightarrow> nat list \<Rightarrow> nat option option" where
  "vrf_find vrfs vrf_name [] = Some None"
| "vrf_find vrfs vrf_name (i # is) =
     (if valid (vrfs i) then do {
        eq \<leftarrow> strcmp_slot (name (vrfs i)) vrf_name;
        if eq then Some (Some i) else vrf_find vrfs vrf_name is
      } else vrf_find vrfs vrf_name is)"

definition vrf_slots :: "nat list" where
  "vrf_slots = [0..<nat SHC_NR_VRF]"

definition shc_vrf_lookup :: "string \<Rightarrow> ('h, 'f, 'b) agent \<Rightarrow> nat option option" where
  "shc_vrf_lookup vrf_name s = vrf_find (g_shc_vrfs s) vrf_name vrf_slots"

definition shc_vrf_id_lookup :: "string \<Rightarrow> ('h, 'f, 'b) agent \<Rightarrow> int option" where
  "shc_vrf_id_lookup vrf_name s = do {
     vrf \<leftarrow> shc_vrf_lookup vrf_name s;
     case vrf of None \<Rightarrow> Some SHC_VRF_NOT_EXIST | Some i \<Rightarrow> Some (sint (vrf_id (vrf_dp_of s i)))
   }"

definition shc_vrf_count :: "('h, 'f, 'b) agent \<Rightarrow> int" where
  "shc_vrf_count s = g_shc_vrf_n s"

section \<open>Creation\<close>

definition shc_vrf_dp_ctor :: "'f vrf_dp \<Rightarrow> 'f vrf_dp" where
  "shc_vrf_dp_ctor d = d\<lparr>tunnel_rmap := [], tunnel_cnt := 0, neigh_cnt := 0\<rparr>"

text \<open>
  The scan of \<open>shc_vrf_add\<close>: \<open>None\<close> inside when the name is taken, else the first free slot
  (\<open>free_ent\<close> is -1 before one is seen).
\<close>

fun vrf_scan :: "(nat \<Rightarrow> 'f shc_vrf) \<Rightarrow> string \<Rightarrow> nat list \<Rightarrow> int \<Rightarrow> int option option" where
  "vrf_scan vrfs vrf_name [] free_ent = Some (Some free_ent)"
| "vrf_scan vrfs vrf_name (i # is) free_ent =
     (if valid (vrfs i) then do {
        eq \<leftarrow> strcmp_slot (name (vrfs i)) vrf_name;
        if eq then Some None else vrf_scan vrfs vrf_name is free_ent
      } else vrf_scan vrfs vrf_name is (if free_ent = -1 then int i else free_ent))"

definition shc_vrf_add :: "string \<Rightarrow> ('h, 'f, 'b) agent \<Rightarrow> (int \<times> ('h, 'f, 'b) agent) option" where
  "shc_vrf_add vrf_name s = do {
     res \<leftarrow> vrf_scan (g_shc_vrfs s) vrf_name vrf_slots (-1);
     case res of
       None \<Rightarrow> Some (0, s)
     | Some free_ent \<Rightarrow>
         if free_ent = -1 then Some (SHC_VRF_NOENT, s)
         else
           let i = nat free_ent;
               vrf = g_shc_vrfs s i;
               d = (shc_vrf_dp_ctor (dp vrf))\<lparr>route_mac := rte_ether_addr_copy (shc_fake_mac_get s)\<rparr>
           in Some (0, s\<lparr>g_shc_vrfs := (g_shc_vrfs s)
                         (i := \<lparr>name = take SHC_VRF_NAME_LEN vrf_name, valid = True, dp = d\<rparr>),
                       g_shc_vrf_n := g_shc_vrf_n s + 1\<rparr>)
   }"

section \<open>Internal address and route MAC\<close>

definition shc_vrf_intip_set ::
  "string \<Rightarrow> u32 \<Rightarrow> ('h, 'f, 'b) agent \<Rightarrow> (int \<times> ('h, 'f, 'b) agent) option" where
  "shc_vrf_intip_set vrf_name intip s = do {
     vrf \<leftarrow> shc_vrf_lookup vrf_name s;
     case vrf of None \<Rightarrow> Some (SHC_VRF_NOT_EXIST, s)
     | Some i \<Rightarrow> Some (0, dp_upd i (\<lambda>d. d\<lparr>internal_ip := intip\<rparr>) s)
   }"

definition shc_vrf_intip_unset ::
  "string \<Rightarrow> ('h, 'f, 'b) agent \<Rightarrow> (int \<times> ('h, 'f, 'b) agent) option" where
  "shc_vrf_intip_unset vrf_name s = shc_vrf_intip_set vrf_name 0 s"

definition shc_vrf_intip_get :: "string \<Rightarrow> ('h, 'f, 'b) agent \<Rightarrow> (int \<times> u32 option) option" where
  "shc_vrf_intip_get vrf_name s = do {
     vrf \<leftarrow> shc_vrf_lookup vrf_name s;
     case vrf of None \<Rightarrow> Some (SHC_VRF_NOT_EXIST, None)
     | Some i \<Rightarrow> Some (0, Some (internal_ip (vrf_dp_of s i)))
   }"

definition shc_vrf_rmac_set ::
  "string \<Rightarrow> mac \<Rightarrow> ('h, 'f, 'b) agent \<Rightarrow> (int \<times> ('h, 'f, 'b) agent) option" where
  "shc_vrf_rmac_set vrf_name mac_addr s = do {
     vrf \<leftarrow> shc_vrf_lookup vrf_name s;
     case vrf of None \<Rightarrow> Some (SHC_VRF_NOT_EXIST, s)
     | Some i \<Rightarrow> Some (0, dp_upd i (\<lambda>d. d\<lparr>route_mac := rte_ether_addr_copy mac_addr\<rparr>) s)
   }"

definition shc_vrf_rmac_unset ::
  "string \<Rightarrow> mac \<Rightarrow> ('h, 'f, 'b) agent \<Rightarrow> (int \<times> ('h, 'f, 'b) agent) option" where
  "shc_vrf_rmac_unset vrf_name mac_addr s = do {
     vrf \<leftarrow> shc_vrf_lookup vrf_name s;
     case vrf of None \<Rightarrow> Some (SHC_VRF_NOT_EXIST, s)
     | Some i \<Rightarrow>
         if take 6 mac_addr \<noteq> route_mac (vrf_dp_of s i) then Some (SHC_COMM_INVAL_PARAM, s)
         else Some (0, dp_upd i (\<lambda>d. d\<lparr>route_mac := rte_ether_addr_copy (shc_fake_mac_get s)\<rparr>) s)
   }"

definition shc_vrf_rmac_get :: "string \<Rightarrow> ('h, 'f, 'b) agent \<Rightarrow> (int \<times> mac option) option" where
  "shc_vrf_rmac_get vrf_name s = do {
     vrf \<leftarrow> shc_vrf_lookup vrf_name s;
     case vrf of None \<Rightarrow> Some (SHC_VRF_NOT_EXIST, None)
     | Some i \<Rightarrow> Some (0, Some (rte_ether_addr_copy (route_mac (vrf_dp_of s i))))
   }"

section \<open>The table of names\<close>

text \<open>
  The invariant of the table: the names of the valid slots fit their arrays with the NUL and are
  distinct, the count is the number of valid slots, and slot \<open>i\<close> has the identifier \<open>i + 1\<close>.
  \<open>is_vrf s nm i\<close> is the abstract content: VRF \<open>nm\<close> exists, in slot \<open>i\<close>.
\<close>

definition valid_slots :: "('h, 'f, 'b) agent \<Rightarrow> nat set" where
  "valid_slots s = {i. i < nat SHC_NR_VRF \<and> valid (g_shc_vrfs s i)}"

definition is_vrf :: "('h, 'f, 'b) agent \<Rightarrow> string \<Rightarrow> nat \<Rightarrow> bool" where
  "is_vrf s nm i \<longleftrightarrow> i \<in> valid_slots s \<and> name (g_shc_vrfs s i) = nm"

definition vrf_inv :: "('h, 'f, 'b) agent \<Rightarrow> bool" where
  "vrf_inv s \<longleftrightarrow>
     (\<forall>i \<in> valid_slots s. length (name (g_shc_vrfs s i)) < SHC_VRF_NAME_LEN) \<and>
     inj_on (\<lambda>i. name (g_shc_vrfs s i)) (valid_slots s) \<and>
     g_shc_vrf_n s = int (card (valid_slots s)) \<and>
     (\<forall>i < nat SHC_NR_VRF. vrf_id (vrf_dp_of s i) = of_nat i + 1)"

lemma finite_valid_slots [simp]: "finite (valid_slots s)"
  by (simp add: valid_slots_def)

lemma set_vrf_slots: "set vrf_slots = {i. i < nat SHC_NR_VRF}"
  by (auto simp: vrf_slots_def)

lemma strcmp_slot_short: "length a < SHC_VRF_NAME_LEN \<Longrightarrow> strcmp_slot a b = Some (a = b)"
  by (simp add: strcmp_slot_def)

lemma vrf_find_spec:
  assumes "\<And>i. i \<in> set is \<Longrightarrow> valid (vrfs i) \<Longrightarrow> length (name (vrfs i)) < SHC_VRF_NAME_LEN"
  shows "vrf_find vrfs nm is = Some (find (\<lambda>i. valid (vrfs i) \<and> name (vrfs i) = nm) is)"
  using assms by (induction "is") (auto simp: strcmp_slot_short)

lemma vrf_scan_spec:
  assumes "\<And>i. i \<in> set is \<Longrightarrow> valid (vrfs i) \<Longrightarrow> length (name (vrfs i)) < SHC_VRF_NAME_LEN"
  shows "vrf_scan vrfs nm is free_ent = Some
    (if \<exists>i \<in> set is. valid (vrfs i) \<and> name (vrfs i) = nm then None
     else Some (if free_ent = -1
                then (case find (\<lambda>i. \<not> valid (vrfs i)) is of None \<Rightarrow> -1 | Some i \<Rightarrow> int i)
                else free_ent))"
  using assms by (induction "is" arbitrary: free_ent) (auto simp: strcmp_slot_short)

lemma find_None_set: "find P xs = None \<longleftrightarrow> (\<forall>x \<in> set xs. \<not> P x)"
  by (auto simp: find_None_iff)

lemma find_Some_set: "find P xs = Some x \<Longrightarrow> x \<in> set xs \<and> P x"
  by (induction xs) (auto split: if_splits)

lemma vrf_short:
  "vrf_inv s \<Longrightarrow> i \<in> set vrf_slots \<Longrightarrow> valid (g_shc_vrfs s i) \<Longrightarrow>
     length (name (g_shc_vrfs s i)) < SHC_VRF_NAME_LEN"
  by (auto simp: vrf_inv_def valid_slots_def set_vrf_slots)

lemma shc_vrf_lookup_spec:
  assumes "vrf_inv s"
  obtains "\<And>i. \<not> is_vrf s nm i" "shc_vrf_lookup nm s = Some None"
  | i where "is_vrf s nm i" "\<And>j. is_vrf s nm j \<longleftrightarrow> j = i" "shc_vrf_lookup nm s = Some (Some i)"
proof -
  let ?P = "\<lambda>i. valid (g_shc_vrfs s i) \<and> name (g_shc_vrfs s i) = nm"
  have run: "shc_vrf_lookup nm s = Some (find ?P vrf_slots)"
    unfolding shc_vrf_lookup_def by (rule vrf_find_spec) (rule vrf_short [OF assms])
  have uniq: "is_vrf s nm i \<Longrightarrow> is_vrf s nm j \<Longrightarrow> i = j" for i j
    using assms by (auto simp: vrf_inv_def is_vrf_def inj_on_def)
  show thesis
  proof (cases "find ?P vrf_slots")
    case None
    then show ?thesis
      using that(1) run by (auto simp: find_None_set is_vrf_def valid_slots_def set_vrf_slots)
  next
    case (Some i)
    then have "is_vrf s nm i"
      using find_Some_set [OF Some] by (auto simp: is_vrf_def valid_slots_def set_vrf_slots)
    with uniq run Some show ?thesis by (intro that(2) [of i]) auto
  qed
qed

lemma shc_vrf_lookup_iff:
  "vrf_inv s \<Longrightarrow> shc_vrf_lookup nm s = Some (Some i) \<longleftrightarrow> is_vrf s nm i"
  by (rule shc_vrf_lookup_spec [of s nm]) auto

text \<open>The least free slot, which the scan of \<open>shc_vrf_add\<close> takes.\<close>

definition first_free_slot :: "('h, 'f, 'b) agent \<Rightarrow> nat \<Rightarrow> bool" where
  "first_free_slot s i \<longleftrightarrow> i < nat SHC_NR_VRF \<and> i \<notin> valid_slots s \<and> (\<forall>j < i. j \<in> valid_slots s)"

lemma find_upt_first:
  assumes "find P [m..<n] = Some i" and "m \<le> j" and "j < i"
  shows "\<not> P j"
proof -
  from assms(1) obtain k where k: "i = m + k" "\<forall>j < k. \<not> P ([m..<n] ! j)" "m + k < n"
    by (auto simp: find_Some_iff)
  then show ?thesis using assms(2,3) k(2) [rule_format, of "j - m"] by (simp add: nth_upt)
qed

lemma sint_word_of_nat_small:
  assumes "i < 2 ^ 31" shows "sint (word_of_nat i :: u32) = int i"
proof -
  have "uint (word_of_nat i :: u32) = int i" using assms by (simp add: uint_nat unat_of_nat)
  then show ?thesis using assms by (simp add: sint_uint signed_take_bit_int_eq_self)
qed

lemma shc_vrf_add_run:
  assumes "vrf_inv s"
  obtains (exist) i where "is_vrf s nm i" "shc_vrf_add nm s = Some (0, s)"
  | (full) "\<And>i. \<not> is_vrf s nm i" "valid_slots s = {i. i < nat SHC_NR_VRF}"
      "shc_vrf_add nm s = Some (SHC_VRF_NOENT, s)"
  | (new) i where "\<And>i. \<not> is_vrf s nm i" "first_free_slot s i"
      "shc_vrf_add nm s = Some (0,
         s\<lparr>g_shc_vrfs := (g_shc_vrfs s)(i := \<lparr>name = take SHC_VRF_NAME_LEN nm, valid = True,
             dp = (shc_vrf_dp_ctor (vrf_dp_of s i))\<lparr>route_mac := rte_ether_addr_copy (shc_fake_mac_get s)\<rparr>\<rparr>),
           g_shc_vrf_n := g_shc_vrf_n s + 1\<rparr>)"
proof -
  have scan: "vrf_scan (g_shc_vrfs s) nm vrf_slots (-1) = Some
      (if \<exists>i \<in> set vrf_slots. valid (g_shc_vrfs s i) \<and> name (g_shc_vrfs s i) = nm then None
       else Some (case find (\<lambda>i. \<not> valid (g_shc_vrfs s i)) vrf_slots of None \<Rightarrow> -1 | Some i \<Rightarrow> int i))"
    using vrf_scan_spec [of vrf_slots "g_shc_vrfs s" nm "-1"] vrf_short [OF assms] by auto
  have ex: "(\<exists>i \<in> set vrf_slots. valid (g_shc_vrfs s i) \<and> name (g_shc_vrfs s i) = nm) \<longleftrightarrow> (\<exists>i. is_vrf s nm i)"
    by (auto simp: is_vrf_def valid_slots_def set_vrf_slots)
  show thesis
  proof (cases "\<exists>i. is_vrf s nm i")
    case True
    then show ?thesis using exist scan ex by (auto simp: shc_vrf_add_def)
  next
    case no: False
    show ?thesis
    proof (cases "find (\<lambda>i. \<not> valid (g_shc_vrfs s i)) vrf_slots")
      case None
      show ?thesis
      proof (rule full)
        show "valid_slots s = {i. i < nat SHC_NR_VRF}"
          using None [unfolded find_None_set set_vrf_slots] by (auto simp: valid_slots_def)
        show "shc_vrf_add nm s = Some (SHC_VRF_NOENT, s)"
          using no scan ex None by (simp add: shc_vrf_add_def)
      qed (use no in blast)
    next
      case (Some i)
      have "first_free_slot s i"
        using find_Some_set [OF Some] find_upt_first [OF Some [unfolded vrf_slots_def], simplified]
        by (auto simp: first_free_slot_def valid_slots_def set_vrf_slots)
      then show ?thesis
        using new no scan ex Some by (auto simp: shc_vrf_add_def Let_def)
    qed
  qed
qed

lemma vrf_inv_agent0: "vrf_inv agent0" and valid_slots_agent0: "valid_slots agent0 = {0}"
proof -
  show v: "valid_slots agent0 = {0}"
    by (auto simp: valid_slots_def agent0_def SHC_NR_VRF_def split: if_splits)
  show "vrf_inv agent0"
    by (simp add: vrf_inv_def v) (simp add: agent0_def vrf_dp0_def SHC_VRF_NAME_LEN_def)
qed

lemma agent0_room: "valid_slots agent0 \<noteq> {i. i < nat SHC_NR_VRF}"
proof -
  have "2 \<in> {i. i < nat SHC_NR_VRF}" "2 \<notin> valid_slots agent0"
    by (simp_all add: SHC_NR_VRF_def valid_slots_agent0)
  then show ?thesis by blast
qed

text \<open>The table with VRF \<open>nm\<close> in slot \<open>i\<close>.\<close>

definition slot_taken :: "string \<Rightarrow> nat \<Rightarrow> ('h, 'f, 'b) agent \<Rightarrow> ('h, 'f, 'b) agent" where
  "slot_taken nm i s =
     s\<lparr>g_shc_vrfs := (g_shc_vrfs s)(i := \<lparr>name = take SHC_VRF_NAME_LEN nm, valid = True,
         dp = (shc_vrf_dp_ctor (vrf_dp_of s i))\<lparr>route_mac := rte_ether_addr_copy (shc_fake_mac_get s)\<rparr>\<rparr>),
       g_shc_vrf_n := g_shc_vrf_n s + 1\<rparr>"

lemma slot_taken_sound:
  assumes "vrf_inv s" "length nm < SHC_VRF_NAME_LEN" "\<And>i. \<not> is_vrf s nm i" "first_free_slot s i"
  shows "vrf_inv (slot_taken nm i s)" "valid_slots (slot_taken nm i s) = insert i (valid_slots s)"
    "is_vrf (slot_taken nm i s) n j = (is_vrf s n j \<or> (n = nm \<and> j = i))"
proof -
  let ?s' = "slot_taken nm i s"
  have i: "i < nat SHC_NR_VRF" "i \<notin> valid_slots s" using assms(4) by (auto simp: first_free_slot_def)
  have nm: "take SHC_VRF_NAME_LEN nm = nm" using assms(2) by simp
  have f: "valid (g_shc_vrfs ?s' j) = (j = i \<or> valid (g_shc_vrfs s j))"
    "name (g_shc_vrfs ?s' j) = (if j = i then nm else name (g_shc_vrfs s j))"
    "vrf_id (vrf_dp_of ?s' j) = vrf_id (vrf_dp_of s j)" "g_shc_vrf_n ?s' = g_shc_vrf_n s + 1" for j
    by (simp_all add: slot_taken_def nm shc_vrf_dp_ctor_def)
  show slots: "valid_slots ?s' = insert i (valid_slots s)"
    using i(1) by (auto simp: valid_slots_def f)
  show "is_vrf ?s' n j = (is_vrf s n j \<or> (n = nm \<and> j = i))"
    using i(2) by (auto simp: is_vrf_def slots f)
  have "nm \<noteq> name (g_shc_vrfs s j)" if "j \<in> valid_slots s" for j
    using assms(3) that by (auto simp: is_vrf_def)
  then have "inj_on (\<lambda>j. name (g_shc_vrfs ?s' j)) (valid_slots ?s')"
    using assms(1) i(2) unfolding slots vrf_inv_def by (auto simp: f inj_on_def)
  then show "vrf_inv ?s'" using assms(1,2) i unfolding vrf_inv_def slots by (auto simp: f)
qed

text \<open>
  \<open>shc_vrf_add\<close> on a sound table, for a name that fits its array: it returns 0 and changes
  nothing if the VRF exists, returns \<open>SHC_VRF_NOENT\<close> and changes nothing if all 4096 slots are
  taken, and otherwise returns 0 and has put the VRF in the least free slot, with no tunnels and
  no neighbours, beside the VRFs there were. The table stays sound.
\<close>

theorem shc_vrf_add_contract:
  assumes "vrf_inv s" and "length nm < SHC_VRF_NAME_LEN"
  shows "\<exists>r s'. shc_vrf_add nm s = Some (r, s') \<and> vrf_inv s' \<and>
    (((\<exists>i. is_vrf s nm i) \<and> r = 0 \<and> s' = s) \<or>
     (valid_slots s = {i. i < nat SHC_NR_VRF} \<and> r = SHC_VRF_NOENT \<and> s' = s) \<or>
     (\<exists>i. first_free_slot s i \<and> r = 0 \<and>
        (\<forall>n j. is_vrf s' n j = (is_vrf s n j \<or> (n = nm \<and> j = i))) \<and>
        tunnel_rmap (vrf_dp_of s' i) = [] \<and> tunnel_cnt (vrf_dp_of s' i) = 0 \<and>
        neigh_cnt (vrf_dp_of s' i) = 0 \<and> route_mac (vrf_dp_of s' i) = rte_ether_addr_copy (fake_mac s)))"
  using assms(1)
proof (cases rule: shc_vrf_add_run [of s nm, case_names exist full new])
  case (new i)
  note taken = slot_taken_sound [OF assms new(1,2)]
  have "tunnel_rmap (vrf_dp_of (slot_taken nm i s) i) = [] \<and> tunnel_cnt (vrf_dp_of (slot_taken nm i s) i) = 0 \<and>
      neigh_cnt (vrf_dp_of (slot_taken nm i s) i) = 0 \<and> route_mac (vrf_dp_of (slot_taken nm i s) i) = rte_ether_addr_copy (fake_mac s)"
    by (simp add: slot_taken_def shc_vrf_dp_ctor_def shc_fake_mac_get_def)
  then show ?thesis
    using new(2,3) taken(1,3) unfolding slot_taken_def [symmetric] by blast
qed (use assms(1) in auto)

lemma shc_vrf_add_contract_witness:
  "\<exists>r s'. shc_vrf_add ''blue'' agent0 = Some (r, s') \<and> vrf_inv s' \<and> r = 0 \<and> is_vrf s' ''blue'' 1"
proof -
  have no: "\<not> is_vrf agent0 ''blue'' i" for i
    by (auto simp: is_vrf_def valid_slots_agent0) (simp add: agent0_def)
  note room = agent0_room
  have one: "first_free_slot agent0 i \<Longrightarrow> i = 1" for i
    by (cases "i < 1"; cases "1 < i") (auto simp: first_free_slot_def valid_slots_agent0)
  from shc_vrf_add_contract [OF vrf_inv_agent0, of "''blue''"] no room one show ?thesis
    by (fastforce simp: SHC_VRF_NAME_LEN_def)
qed

text \<open>
  A name of 64 bytes or more is stored without its NUL: once such a VRF is made, looking it up
  by that name reads past the name's array.
\<close>

theorem shc_vrf_add_long_name:
  assumes "vrf_inv s" and "SHC_VRF_NAME_LEN \<le> length nm" and "valid_slots s \<noteq> {i. i < nat SHC_NR_VRF}"
  shows "\<exists>s'. shc_vrf_add nm s = Some (0, s') \<and> shc_vrf_lookup nm s' = None"
  using assms(1)
proof (cases rule: shc_vrf_add_run [of s nm, case_names exist full new])
  case (exist i)
  then have "length nm < SHC_VRF_NAME_LEN" using assms(1) by (auto simp: vrf_inv_def is_vrf_def)
  with assms(2) show ?thesis by simp
next
  case full
  with assms(3) show ?thesis by simp
next
  case (new i)
  define vrf where "vrf = \<lparr>name = take SHC_VRF_NAME_LEN nm, valid = True,
      dp = (shc_vrf_dp_ctor (vrf_dp_of s i))\<lparr>route_mac := rte_ether_addr_copy (shc_fake_mac_get s)\<rparr>\<rparr>"
  have "vrf_find ((g_shc_vrfs s)(i := vrf)) nm is = None"
    if "i \<in> set is" "set is \<subseteq> set vrf_slots" for "is"
    using that
  proof (induction "is")
    case (Cons j js)
    show ?case
    proof (cases "j = i")
      case True
      then show ?thesis using assms(2) by (simp add: strcmp_slot_def vrf_def)
    next
      case False
      then have "valid (g_shc_vrfs s j) \<Longrightarrow> strcmp_slot (name (g_shc_vrfs s j)) nm = Some False"
        using new(1) [of j] vrf_short [OF assms(1), of j] Cons.prems
        by (auto simp: strcmp_slot_short is_vrf_def valid_slots_def set_vrf_slots)
      with Cons False show ?thesis by auto
    qed
  qed simp
  from this [of vrf_slots] new(2) have "vrf_find ((g_shc_vrfs s)(i := vrf)) nm vrf_slots = None"
    by (auto simp: first_free_slot_def set_vrf_slots)
  then show ?thesis using new(3) by (simp add: shc_vrf_lookup_def vrf_def)
qed

lemma shc_vrf_add_long_name_witness:
  "\<exists>s'. shc_vrf_add (replicate 64 CHR ''x'') agent0 = Some (0, s') \<and>
     shc_vrf_lookup (replicate 64 CHR ''x'') s' = None"
proof (rule shc_vrf_add_long_name [OF vrf_inv_agent0 _ agent0_room])
qed (simp add: SHC_VRF_NAME_LEN_def)

section \<open>Identifiers\<close>

lemma shc_vrf_get_by_id_slot:
  assumes "i < nat SHC_NR_VRF"
  shows "shc_vrf_get_by_id (of_nat i + 1) s = Some (if valid (g_shc_vrfs s i) then Some i else None)"
proof -
  have "i < 2 ^ 12" using assms by (simp add: SHC_NR_VRF_def)
  then have "sint (word_of_nat i :: u32) = int i" by (simp add: sint_word_of_nat_small)
  then show ?thesis using assms by (auto simp: shc_vrf_get_by_id_def Let_def)
qed

lemma shc_vrf_get_by_id_inv:
  "vrf_inv s \<Longrightarrow> i < nat SHC_NR_VRF \<Longrightarrow>
     shc_vrf_get_by_id (vrf_id (vrf_dp_of s i)) s = Some (if valid (g_shc_vrfs s i) then Some i else None)"
  by (simp add: vrf_inv_def shc_vrf_get_by_id_slot)

text \<open>
  The identifier that \<open>shc_vrf_id_lookup\<close> gives for a VRF's name leads back to the VRF:
  \<open>shc_vrf_get_by_id\<close> of it is the slot the name is in. Identifier 0, which belongs to no VRF,
  makes \<open>shc_vrf_get_by_id\<close> read the slot before the table.
\<close>

theorem shc_vrf_id_roundtrip:
  assumes "vrf_inv s" and "is_vrf s nm i"
  shows "\<exists>vid. shc_vrf_id_lookup nm s = Some vid \<and> vid = int i + 1 \<and>
           shc_vrf_get_by_id (of_int vid) s = Some (Some i) \<and> shc_vrf_get_by_id 0 s = None"
proof -
  have i: "i < nat SHC_NR_VRF" "valid (g_shc_vrfs s i)"
    using assms(2) by (auto simp: is_vrf_def valid_slots_def)
  have vid: "vrf_id (vrf_dp_of s i) = of_nat i + 1" using assms(1) i(1) by (simp add: vrf_inv_def)
  have "i + 1 < 2 ^ 13" using i(1) by (simp add: SHC_NR_VRF_def)
  then have "sint (word_of_nat (i + 1) :: u32) = int (i + 1)" by (intro sint_word_of_nat_small) simp
  then have s: "sint (vrf_id (vrf_dp_of s i)) = int i + 1" by (simp add: vid add.commute)
  have "shc_vrf_id_lookup nm s = Some (int i + 1)"
    using shc_vrf_lookup_iff [OF assms(1), of nm i] assms(2) s by (simp add: shc_vrf_id_lookup_def)
  moreover have "shc_vrf_get_by_id 0 s = None" by (simp add: shc_vrf_get_by_id_def SHC_NR_VRF_def)
  ultimately show ?thesis
    using shc_vrf_get_by_id_slot [OF i(1), of s] i(2) by simp
qed

lemma shc_vrf_id_roundtrip_witness:
  "\<exists>vid. shc_vrf_id_lookup ''red'' agent0 = Some vid \<and> vid = 1 \<and>
     shc_vrf_get_by_id (of_int vid) agent0 = Some (Some 0) \<and> shc_vrf_get_by_id 0 agent0 = None"
proof -
  have "is_vrf agent0 ''red'' 0" by (simp add: is_vrf_def valid_slots_agent0) (simp add: agent0_def)
  from shc_vrf_id_roundtrip [OF vrf_inv_agent0 this] show ?thesis by simp
qed

lemma vrf_find_dp_upd: "vrf_find (g_shc_vrfs (dp_upd j g s)) nm is = vrf_find (g_shc_vrfs s) nm is"
  by (induction "is") (auto split: Option.bind_splits)

text \<open>
  \<open>shc_vrf_rmac_unset\<close> falls back to the agent's own address only for the VRF whose address it
  is given: after \<open>shc_vrf_rmac_set\<close> of \<open>m\<close>, unsetting another address is refused with
  \<open>SHC_COMM_INVAL_PARAM\<close> and changes nothing, and unsetting \<open>m\<close> makes \<open>shc_vrf_rmac_get\<close> give the
  agent's address.
\<close>

theorem shc_vrf_rmac_set_unset:
  assumes "vrf_inv s" and "is_vrf s nm i" and "length m = 6" and "length m' = 6" and "m' \<noteq> m"
    and "length (fake_mac s) = 6"
  shows "\<exists>s1. shc_vrf_rmac_set nm m s = Some (0, s1) \<and> shc_vrf_rmac_get nm s1 = Some (0, Some m) \<and>
           shc_vrf_rmac_unset nm m' s1 = Some (SHC_COMM_INVAL_PARAM, s1) \<and>
           (\<exists>s2. shc_vrf_rmac_unset nm m s1 = Some (0, s2) \<and>
                 shc_vrf_rmac_get nm s2 = Some (0, Some (fake_mac s)))"
proof -
  let ?s1 = "dp_upd i (\<lambda>d. d\<lparr>route_mac := m\<rparr>) s"
  let ?s2 = "dp_upd i (\<lambda>d. d\<lparr>route_mac := fake_mac s\<rparr>) ?s1"
  have look: "shc_vrf_lookup nm s = Some (Some i)" using shc_vrf_lookup_iff assms(1,2) by blast
  have look': "shc_vrf_lookup nm ?s1 = Some (Some i)" "shc_vrf_lookup nm ?s2 = Some (Some i)"
    using look by (simp_all add: shc_vrf_lookup_def vrf_find_dp_upd)
  show ?thesis
    by (rule exI [of _ ?s1])
       (use look look' assms(3-6) in \<open>simp add: shc_vrf_rmac_set_def shc_vrf_rmac_get_def
          shc_vrf_rmac_unset_def rte_ether_addr_copy_def shc_fake_mac_get_def\<close>)
qed

lemma shc_vrf_rmac_set_unset_witness:
  "\<exists>s1. shc_vrf_rmac_set ''red'' [2, 0, 0, 0, 0, 1] agent0 = Some (0, s1) \<and>
        shc_vrf_rmac_unset ''red'' [2, 0, 0, 0, 0, 2] s1 = Some (SHC_COMM_INVAL_PARAM, s1)"
proof -
  have "is_vrf agent0 ''red'' 0" by (simp add: is_vrf_def valid_slots_agent0) (simp add: agent0_def)
  moreover have "length (fake_mac agent0) = 6" by (simp add: agent0_def)
  ultimately show ?thesis
    using shc_vrf_rmac_set_unset [OF vrf_inv_agent0, of "''red''" 0 "[2, 0, 0, 0, 0, 1]" "[2, 0, 0, 0, 0, 2]"]
    by auto
qed

end
