(* ===== verification/Tunnel_Map.thy ===== *)
theory Tunnel_Map
  imports Vrf_Table
begin

text \<open>
  \<open>agent/tunnel_map.c\<close>: the mapping of tunnels (a type and an identifier) to VRFs. A hash table
  maps a tunnel to an allocated record, which is also on its VRF's list \<open>tunnel_rmap\<close>. The packet
  path looks a tunnel up to find the VRF and offloads the mapping to the hardware.
\<close>

section \<open>Operations\<close>

definition tunnel_key :: "shc_tunnel_type \<Rightarrow> u32 \<Rightarrow> hkey" where
  "tunnel_key type tid = K_tun \<lparr>tm_type = type, tm_id = tid\<rparr>"

text \<open>A table that cannot be created is the outcome \<open>None\<close>, as for the neighbours.\<close>

definition shc_tunnel_map_vrf_init ::
  "('h, 'f, 'b) lib \<Rightarrow> ('h, 'f, 'b) agent \<Rightarrow> (int \<times> ('h, 'f, 'b) agent) option" where
  "shc_tunnel_map_vrf_init E s =
     (case rte_hash_create E ''VRF_MAPPING_HASH'' (SHC_NR_TUNNEL_ALL * 8) of
        None \<Rightarrow> None
      | Some h \<Rightarrow> Some (0, s\<lparr>vrf_hash_tbl := h\<rparr>))"

definition shc_tunnel_map_vrf_deinit :: int where
  "shc_tunnel_map_vrf_deinit = 0"

text \<open>A record fresh from \<open>rte_zmalloc\<close>. The type, the identifier and the attribute stay zero.\<close>

definition shc_tunnel_info_zero :: shc_tunnel_info where
  "shc_tunnel_info_zero =
     \<lparr>ti_type = SHC_TUNNEL_INVALID, ti_id = 0, ti_bd_ids = replicate 4 0, ti_vrf_id = 0,
      ti_attribute = \<lparr>urpf = False, htab16 = False\<rparr>, ti_exit_flag = 0\<rparr>"

definition shc_tunnel_map_vrf ::
  "('h, 'f, 'b) lib \<Rightarrow> string \<Rightarrow> shc_tunnel_type \<Rightarrow> u32 \<Rightarrow> shc_tunnel_attr \<Rightarrow> ('h, 'f, 'b) agent
     \<Rightarrow> (int \<times> ('h, 'f, 'b) agent) option" where
  "shc_tunnel_map_vrf E vrf_name type tid tunnel_attr s = do {
     vrf \<leftarrow> shc_vrf_lookup vrf_name s;
     case vrf of
       None \<Rightarrow> Some (SHC_VRF_NOT_EXIST, s)
     | Some i \<Rightarrow>
         (case rte_hash_lookup_data E (vrf_hash_tbl s) (tunnel_key type tid) of
            Some p \<Rightarrow> do {
              RTE_ASSERT E (p \<noteq> NULL);
              t \<leftarrow> tunnel_mem s p;
              if ti_vrf_id t \<noteq> vrf_id (vrf_dp_of s i) then Some (SHC_TUNNEL_INUSED, s)
              else Some (0, s)
            }
          | None \<Rightarrow>
              let p = rte_zmalloc E (allocated (tunnel_mem s)) in
              if p = NULL then Some (SHC_COMM_NOMEM, s)
              else
                let t = shc_tunnel_info_zero\<lparr>ti_vrf_id := vrf_id (vrf_dp_of s i)\<rparr>;
                    (r, h) = rte_hash_add_key_data E (vrf_hash_tbl s) (tunnel_key type tid) p in
                if r < 0 then Some (SHC_TUNNEL_MAP_NOSPACE, s\<lparr>vrf_hash_tbl := h\<rparr>)
                else Some (0, dp_upd i (\<lambda>d. d\<lparr>tunnel_rmap := p # tunnel_rmap d,
                                              tunnel_cnt := tunnel_cnt d + 1\<rparr>)
                       (s\<lparr>vrf_hash_tbl := h, tunnel_mem := (tunnel_mem s)(p \<mapsto> t)\<rparr>)))
   }"

text \<open>
  \<open>shc_tunnel_unmap_vrf\<close>: the call that would delete the key is commented out, so \<open>ret\<close> is still
  the lookup's. \<open>SLIST_REMOVE\<close> of an element that is not on the list runs off its end.
\<close>

definition shc_tunnel_unmap_vrf ::
  "('h, 'f, 'b) lib \<Rightarrow> shc_tunnel_type \<Rightarrow> u32 \<Rightarrow> ('h, 'f, 'b) agent
     \<Rightarrow> (int \<times> ('h, 'f, 'b) agent) option" where
  "shc_tunnel_unmap_vrf E type tid s =
     (case rte_hash_lookup_data E (vrf_hash_tbl s) (tunnel_key type tid) of
        None \<Rightarrow> Some (0, s)
      | Some p \<Rightarrow>
          let (_, s1) = shc_hal_tunnel_map_vrf_entry_del E type tid s in do {
            t \<leftarrow> tunnel_mem s1 p;
            dp_slot \<leftarrow> shc_vrf_dp_get_by_id (ti_vrf_id t) s1;
            RTE_ASSERT E (p \<noteq> NULL);
            i \<leftarrow> dp_slot;
            if p \<notin> set (tunnel_rmap (vrf_dp_of s1 i)) then None
            else Some (0, dp_upd i (\<lambda>d. d\<lparr>tunnel_rmap := remove1 p (tunnel_rmap d),
                                          tunnel_cnt := tunnel_cnt d - 1\<rparr>)
                            (s1\<lparr>tunnel_mem := (tunnel_mem s1)(p := None)\<rparr>))
          })"

text \<open>
  \<open>shc_tunnel_map_vrf_lookup\<close>: the result is the VRF's data plane, \<open>None\<close> inside for NULL. The
  two assertions after the hardware calls want the call to have failed.
\<close>

definition shc_tunnel_map_vrf_lookup ::
  "('h, 'f, 'b) lib \<Rightarrow> shc_tunnel_type \<Rightarrow> u32 \<Rightarrow> int \<Rightarrow> ('h, 'f, 'b) agent
     \<Rightarrow> (nat option \<times> ('h, 'f, 'b) agent) option" where
  "shc_tunnel_map_vrf_lookup E type tid flag_of_add_del s =
     (case rte_hash_lookup_data E (vrf_hash_tbl s) (tunnel_key type tid) of
        None \<Rightarrow> Some (None, s)
      | Some p \<Rightarrow> do {
          RTE_ASSERT E (p \<noteq> NULL);
          t \<leftarrow> tunnel_mem s p;
          s2 \<leftarrow>
            (if flag_of_add_del = 0 then do {
               s1 \<leftarrow> (if ti_exit_flag t = 0
                       then let (ret, s1) = shc_hal_tunnel_map_vrf_entry_add E type tid (ti_vrf_id t) s in
                            do { RTE_ASSERT E (ret \<noteq> 0); Some s1 }
                       else Some s);
               Some (s1\<lparr>tunnel_mem := (tunnel_mem s1)(p \<mapsto> t\<lparr>ti_exit_flag := ti_exit_flag t + 1\<rparr>)\<rparr>)
             }
             else if flag_of_add_del = 1 \<and> sint (ti_exit_flag t) > 0 then do {
               s1 \<leftarrow> (if ti_exit_flag t = 1
                       then let (ret, s1) = shc_hal_tunnel_map_vrf_entry_del E type tid s in
                            do { RTE_ASSERT E (ret \<noteq> 0); Some s1 }
                       else Some s);
               Some (s1\<lparr>tunnel_mem := (tunnel_mem s1)(p \<mapsto> t\<lparr>ti_exit_flag := ti_exit_flag t - 1\<rparr>)\<rparr>)
             }
             else Some s);
          vrf_dp \<leftarrow> shc_vrf_dp_get_by_id (ti_vrf_id t) s2;
          RTE_ASSERT E (vrf_dp \<noteq> None);
          Some (vrf_dp, s2)
        })"

text \<open>The loop of \<open>shc_tunnel_map_cleanup\<close> over the list of VRF slot \<open>v\<close>.\<close>

fun tunnel_cleanup_loop :: "nat \<Rightarrow> ptr list \<Rightarrow> ('h, 'f, 'b) agent \<Rightarrow> ('h, 'f, 'b) agent option" where
  "tunnel_cleanup_loop v [] s = Some s"
| "tunnel_cleanup_loop v (p # ps) s = do {
     t \<leftarrow> tunnel_mem s p;
     tunnel_cleanup_loop v ps
       (dp_upd v (\<lambda>d. d\<lparr>tunnel_rmap := ps, tunnel_cnt := tunnel_cnt d - 1\<rparr>)
          (s\<lparr>tunnel_mem := (tunnel_mem s)(p := None)\<rparr>))
   }"

definition shc_tunnel_map_cleanup :: "nat \<Rightarrow> ('h, 'f, 'b) agent \<Rightarrow> (int \<times> ('h, 'f, 'b) agent) option" where
  "shc_tunnel_map_cleanup v s = do {
     s' \<leftarrow> tunnel_cleanup_loop v (tunnel_rmap (vrf_dp_of s v)) s;
     Some (0, s')
   }"

section \<open>The mapping\<close>

text \<open>
  The abstract content: the identifier of the VRF each tunnel is mapped to. The invariant: the
  table is a sound table of records of existing VRFs, and the list of each VRF is the records
  that name it, once each, counted by \<open>tunnel_cnt\<close>.
\<close>

definition tunnels :: "('h, 'f, 'b) lib \<Rightarrow> ('h, 'f, 'b) agent \<Rightarrow> hkey \<rightharpoonup> shc_tunnel_info" where
  "tunnels E s = obj_view (rte_hash_lookup_data E (vrf_hash_tbl s)) (tunnel_mem s)"

definition tunnel_vrf :: "('h, 'f, 'b) lib \<Rightarrow> ('h, 'f, 'b) agent \<Rightarrow> hkey \<rightharpoonup> u32" where
  "tunnel_vrf E s k = map_option ti_vrf_id (tunnels E s k)"

definition rmap_of :: "(ptr \<rightharpoonup> shc_tunnel_info) \<Rightarrow> nat \<Rightarrow> ptr set" where
  "rmap_of M i = {p. \<exists>t. M p = Some t \<and> ti_vrf_id t = of_nat i + 1}"

definition tun_inv :: "('h, 'f, 'b) lib \<Rightarrow> ('h, 'f, 'b) agent \<Rightarrow> bool" where
  "tun_inv E s \<longleftrightarrow>
     obj_table (\<lambda>_ t. \<exists>i \<in> valid_slots s. ti_vrf_id t = of_nat i + 1)
       (rte_hash_lookup_data E (vrf_hash_tbl s)) (tunnel_mem s) \<and>
     (\<forall>i < nat SHC_NR_VRF. distinct (tunnel_rmap (vrf_dp_of s i)) \<and>
        set (tunnel_rmap (vrf_dp_of s i)) = rmap_of (tunnel_mem s) i \<and>
        tunnel_cnt (vrf_dp_of s i) = of_nat (length (tunnel_rmap (vrf_dp_of s i))))"

lemma valid_slots_dp_upd [simp]: "valid_slots (dp_upd v g s) = valid_slots s"
  by (simp add: valid_slots_def)

lemma valid_slots_mem [simp]:
  "valid_slots (s\<lparr>vrf_hash_tbl := h\<rparr>) = valid_slots s" "valid_slots (s\<lparr>tunnel_mem := m\<rparr>) = valid_slots s"
  "valid_slots (s\<lparr>hal_log := l\<rparr>) = valid_slots s"
  by (simp_all add: valid_slots_def)

lemma vrf_id_inj:
  assumes "i < nat SHC_NR_VRF" "j < nat SHC_NR_VRF"
  shows "(of_nat i + 1 :: u32) = of_nat j + 1 \<longleftrightarrow> i = j"
proof -
  have "i < 2 ^ 32" "j < 2 ^ 32" using assms by (auto simp: SHC_NR_VRF_def)
  then have "unat (of_nat i :: u32) = i" "unat (of_nat j :: u32) = j" by (simp_all add: unat_of_nat)
  then show ?thesis by (metis add_right_cancel)
qed

section \<open>Mapping a tunnel\<close>

lemma tun_invD:
  assumes "tun_inv E s"
  shows tun_table: "obj_table (\<lambda>_ t. \<exists>i \<in> valid_slots s. ti_vrf_id t = of_nat i + 1)
       (rte_hash_lookup_data E (vrf_hash_tbl s)) (tunnel_mem s)"
    and tun_rmap: "i < nat SHC_NR_VRF \<Longrightarrow> distinct (tunnel_rmap (vrf_dp_of s i)) \<and>
        set (tunnel_rmap (vrf_dp_of s i)) = rmap_of (tunnel_mem s) i \<and>
        tunnel_cnt (vrf_dp_of s i) = of_nat (length (tunnel_rmap (vrf_dp_of s i)))"
  using assms by (auto simp: tun_inv_def)

text \<open>A tunnel that is mapped: its record, and the VRF the record names.\<close>

lemma tunnel_mappedE:
  assumes "tun_inv E s" and "rte_hash_lookup_data E (vrf_hash_tbl s) k = Some p"
  obtains t i where "tunnel_mem s p = Some t" "i \<in> valid_slots s" "i < nat SHC_NR_VRF"
    "ti_vrf_id t = of_nat i + 1" "tunnels E s k = Some t" "tunnel_vrf E s k = Some (of_nat i + 1)"
    "shc_vrf_dp_get_by_id (ti_vrf_id t) s = Some (Some i)"
proof -
  from obj_liveE [OF tun_table [OF assms(1)] assms(2)] obtain t i where
    t: "tunnel_mem s p = Some t" "tunnels E s k = Some t" "i \<in> valid_slots s" "ti_vrf_id t = of_nat i + 1"
    unfolding tunnels_def by blast
  moreover have "i < nat SHC_NR_VRF" "valid (g_shc_vrfs s i)" using t(3) by (auto simp: valid_slots_def)
  ultimately show thesis
    by (intro that [of t i]) (simp_all add: tunnel_vrf_def shc_vrf_dp_get_by_id_def shc_vrf_get_by_id_slot)
qed

lemma tunnel_unmapped:
  "rte_hash_lookup_data E (vrf_hash_tbl s) k = None \<Longrightarrow> tunnel_vrf E s k = None"
  by (simp add: tunnel_vrf_def tunnels_def obj_view_def)

lemma tun_inv_insert:
  assumes inv: "tun_inv E s" and i: "i \<in> valid_slots s" and p: "tunnel_mem s p = None"
    and k: "rte_hash_lookup_data E (vrf_hash_tbl s) k = None"
    and h: "rte_hash_lookup_data E h = (rte_hash_lookup_data E (vrf_hash_tbl s))(k \<mapsto> p)"
    and t: "ti_vrf_id t = of_nat i + 1"
    and s': "s' = dp_upd i (\<lambda>d. d\<lparr>tunnel_rmap := p # tunnel_rmap d, tunnel_cnt := tunnel_cnt d + 1\<rparr>)
       (s\<lparr>vrf_hash_tbl := h, tunnel_mem := (tunnel_mem s)(p \<mapsto> t)\<rparr>)"
  shows "tun_inv E s'" and "tunnel_vrf E s' = (tunnel_vrf E s)(k \<mapsto> of_nat i + 1)"
proof -
  have slots: "valid_slots s' = valid_slots s" by (simp add: s' valid_slots_def)
  have P: "\<exists>i \<in> valid_slots s. ti_vrf_id t = of_nat i + 1" using i t by blast
  note ins = obj_insert [OF tun_table [OF inv] p, of t k, OF P k]
  have mem: "tunnel_mem s' = (tunnel_mem s)(p \<mapsto> t)" "vrf_hash_tbl s' = h" by (simp_all add: s')
  show "tunnel_vrf E s' = (tunnel_vrf E s)(k \<mapsto> of_nat i + 1)"
    using ins(2) by (auto simp: tunnel_vrf_def tunnels_def mem h t fun_eq_iff)
  have i': "i < nat SHC_NR_VRF" using i by (simp add: valid_slots_def)
  have rm: "rmap_of (tunnel_mem s') j = (if j = i then insert p (rmap_of (tunnel_mem s) i) else rmap_of (tunnel_mem s) j)"
    if "j < nat SHC_NR_VRF" for j
    using p t vrf_id_inj [OF that i'] by (auto simp: rmap_of_def mem)
  have fresh: "p \<notin> rmap_of (tunnel_mem s) i" using p by (simp add: rmap_of_def)
  have rows: "distinct (tunnel_rmap (vrf_dp_of s' j)) \<and>
        set (tunnel_rmap (vrf_dp_of s' j)) = rmap_of (tunnel_mem s') j \<and>
        tunnel_cnt (vrf_dp_of s' j) = of_nat (length (tunnel_rmap (vrf_dp_of s' j)))"
    if j: "j < nat SHC_NR_VRF" for j
  proof (cases "j = i")
    case True
    then show ?thesis using tun_rmap [OF inv i'] fresh rm [OF j] by (simp add: s')
  next
    case False
    then show ?thesis using tun_rmap [OF inv j] rm [OF j] by (simp add: s')
  qed
  then show "tun_inv E s'" using ins(1) unfolding tun_inv_def slots mem h by blast
qed

lemma shc_tunnel_map_vrf_contract_plain:
  assumes "hash_laws E" "zmalloc_law E" "\<not> rte_assert_on E" "vrf_inv s" "tun_inv E s"
  shows "\<exists>r s'. shc_tunnel_map_vrf E nm type tid attr s = Some (r, s') \<and> tun_inv E s' \<and>
    (((\<forall>i. \<not> is_vrf s nm i) \<and> r = SHC_VRF_NOT_EXIST \<and> s' = s) \<or>
     (\<exists>i. is_vrf s nm i \<and>
        ((r = 0 \<and> tunnel_vrf E s' = (tunnel_vrf E s)(tunnel_key type tid \<mapsto> of_nat i + 1)) \<or>
         (r = SHC_TUNNEL_INUSED \<and> s' = s \<and>
            (\<exists>j. j \<noteq> i \<and> tunnel_vrf E s (tunnel_key type tid) = Some (of_nat j + 1))) \<or>
         ((r = SHC_COMM_NOMEM \<or> r = SHC_TUNNEL_MAP_NOSPACE) \<and> tunnel_vrf E s' = tunnel_vrf E s))))"
  using assms(4)
proof (cases rule: shc_vrf_lookup_spec [of s nm, case_names no vrf])
  case no
  then show ?thesis using assms(5) by (simp add: shc_tunnel_map_vrf_def)
next
  case (vrf i)
  let ?k = "tunnel_key type tid"
  have i: "i \<in> valid_slots s" "i < nat SHC_NR_VRF" using vrf(1) by (auto simp: is_vrf_def valid_slots_def)
  have vid: "vrf_id (vrf_dp_of s i) = of_nat i + 1" using assms(4) i(2) by (simp add: vrf_inv_def)
  show ?thesis
  proof (cases "rte_hash_lookup_data E (vrf_hash_tbl s) ?k")
    case (Some p)
    from tunnel_mappedE [OF assms(5) Some] obtain t j where t: "tunnel_mem s p = Some t"
      "j < nat SHC_NR_VRF" "ti_vrf_id t = of_nat j + 1" "tunnel_vrf E s ?k = Some (of_nat j + 1)" by metis
    have run: "shc_tunnel_map_vrf E nm type tid attr s = Some (if i = j then 0 else SHC_TUNNEL_INUSED, s)"
      using vrf(3) Some t assms(3) vrf_id_inj [OF t(2) i(2)] by (auto simp: shc_tunnel_map_vrf_def vid)
    show ?thesis
    proof (cases "i = j")
      case True
      then show ?thesis using run assms(5) vrf(1) t(4) by (auto simp: fun_upd_idem)
    next
      case False
      then show ?thesis using run assms(5) vrf(1) t(4) by auto
    qed
  next
    case None
    define p where "p = rte_zmalloc E (allocated (tunnel_mem s))"
    define r where "r = fst (rte_hash_add_key_data E (vrf_hash_tbl s) ?k p)"
    define h where "h = snd (rte_hash_add_key_data E (vrf_hash_tbl s) ?k p)"
    have add: "rte_hash_add_key_data E (vrf_hash_tbl s) ?k p = (r, h)" by (simp add: r_def h_def)
    have tbl: "rte_hash_lookup_data E h = (if r < 0 then rte_hash_lookup_data E (vrf_hash_tbl s)
        else (rte_hash_lookup_data E (vrf_hash_tbl s))(?k \<mapsto> p))"
      by (simp add: hash_add [OF assms(1)] r_def h_def)
    define s' where "s' = dp_upd i (\<lambda>d. d\<lparr>tunnel_rmap := p # tunnel_rmap d, tunnel_cnt := tunnel_cnt d + 1\<rparr>)
       (s\<lparr>vrf_hash_tbl := h, tunnel_mem := (tunnel_mem s)
          (p \<mapsto> shc_tunnel_info_zero\<lparr>ti_vrf_id := vrf_id (vrf_dp_of s i)\<rparr>)\<rparr>)"
    have run: "shc_tunnel_map_vrf E nm type tid attr s =
        (if p = NULL then Some (SHC_COMM_NOMEM, s)
         else if r < 0 then Some (SHC_TUNNEL_MAP_NOSPACE, s\<lparr>vrf_hash_tbl := h\<rparr>) else Some (0, s'))"
      using vrf(3) None add by (simp add: shc_tunnel_map_vrf_def p_def [symmetric] s'_def)
    consider (nomem) "p = NULL" | (full) "p \<noteq> NULL" "r < 0" | (new) "p \<noteq> NULL" "\<not> r < 0" by blast
    then show ?thesis
    proof cases
      case nomem
      then show ?thesis using run assms(5) vrf(1) by auto
    next
      case full
      then have "tun_inv E (s\<lparr>vrf_hash_tbl := h\<rparr>)" "tunnel_vrf E (s\<lparr>vrf_hash_tbl := h\<rparr>) = tunnel_vrf E s"
        using assms(5) tbl by (auto simp: tun_inv_def tunnel_vrf_def tunnels_def)
      then show ?thesis using full run vrf(1) by auto
    next
      case new
      have "tunnel_mem s p = None"
        using zmalloc_fresh [OF assms(2), of "allocated (tunnel_mem s)"] new(1) by (simp add: p_def allocated_def)
      from tun_inv_insert [OF assms(5) i(1) this None _ _ s'_def] new(2) tbl
      have "tun_inv E s'" "tunnel_vrf E s' = (tunnel_vrf E s)(?k \<mapsto> of_nat i + 1)" by (simp_all add: vid)
      then show ?thesis using new run vrf(1) by auto
    qed
  qed
qed

text \<open>
  \<open>shc_tunnel_map_vrf\<close> on sound tables always returns and keeps them sound. It returns
  \<open>SHC_VRF_NOT_EXIST\<close> exactly for a name without a VRF, \<open>SHC_TUNNEL_INUSED\<close> for a tunnel mapped
  to another VRF, the allocation codes when memory or the hash table is full, each time changing
  no mapping; otherwise it returns 0 and the tunnel is mapped to the VRF, the other tunnels as
  before.
\<close>

theorem shc_tunnel_map_vrf_contract:
  assumes "hash_laws E" "zmalloc_law E" "\<not> rte_assert_on E" "vrf_inv s" "tun_inv E s"
  shows "\<exists>r s'. shc_tunnel_map_vrf E nm type tid attr s = Some (r, s') \<and> tun_inv E s' \<and>
    (((\<forall>i. \<not> is_vrf s nm i) \<and> r = SHC_VRF_NOT_EXIST \<and> s' = s) \<or>
     (\<exists>i. is_vrf s nm i \<and>
        ((r = 0 \<and> tunnel_vrf E s' = (tunnel_vrf E s)(tunnel_key type tid \<mapsto> of_nat i + 1)) \<or>
         (r = SHC_TUNNEL_INUSED \<and> s' = s \<and>
            (\<exists>j. j \<noteq> i \<and> tunnel_vrf E s (tunnel_key type tid) = Some (of_nat j + 1))) \<or>
         ((r = SHC_COMM_NOMEM \<or> r = SHC_TUNNEL_MAP_NOSPACE) \<and> tunnel_vrf E s' = tunnel_vrf E s))))"
  by (rule shc_tunnel_map_vrf_contract_plain [OF assms])

lemma tun_inv_agent0: "tun_inv (lib0 cap) agent0"
  by (simp add: tun_inv_def rmap_of_def) (simp add: agent0_def vrf_dp0_def)

definition attr0 :: shc_tunnel_attr where
  "attr0 = \<lparr>urpf = False, htab16 = False\<rparr>"

lemma is_vrf_agent0: "is_vrf agent0 nm i \<longleftrightarrow> nm = ''red'' \<and> i = 0"
  by (auto simp: is_vrf_def valid_slots_agent0) (auto simp: agent0_def)

definition agent_tun :: "(slots, alist_fib, int list) agent" where
  "agent_tun = snd (the (shc_tunnel_map_vrf (lib0 4) ''red'' SHC_TUNNEL_VXLAN 100 attr0 agent0))"

lemma agent_tun_run:
  "shc_tunnel_map_vrf (lib0 4) ''red'' SHC_TUNNEL_VXLAN 100 attr0 agent0 = Some (0, agent_tun)"
proof -
  have "shc_vrf_lookup ''red'' agent0 = Some (Some 0)"
    using shc_vrf_lookup_iff [OF vrf_inv_agent0] by (simp add: is_vrf_agent0)
  then show ?thesis
    by (simp add: agent_tun_def shc_tunnel_map_vrf_def Let_def slot_add_def first_free_def allocated_def)
qed

lemma shc_tunnel_map_vrf_contract_witness:
  "tun_inv (lib0 4) agent_tun \<and> tunnel_vrf (lib0 4) agent_tun (tunnel_key SHC_TUNNEL_VXLAN 100) = Some 1"
proof -
  have "\<not> rte_assert_on (lib0 4)" by simp
  from shc_tunnel_map_vrf_contract [OF hash_laws_lib0 zmalloc_law_lib0 this vrf_inv_agent0 tun_inv_agent0,
      of "''red''" SHC_TUNNEL_VXLAN 100 attr0]
  show ?thesis
    by (auto simp: is_vrf_agent0 agent_tun_run const_defs)
qed

section \<open>Looking a tunnel up\<close>

text \<open>The hardware's entry of a tunnel, and a lookup as a step of the offload protocol.\<close>

definition hal_tunnel_key :: "shc_tunnel_type \<Rightarrow> u32 \<Rightarrow> hal_tunnel_map_vrf_key" where
  "hal_tunnel_key type tid =
     \<lparr>hk_tunnel_type = (if type = SHC_TUNNEL_VXLAN then TYPE_TUNNEL_TYPE_VXLAN else TYPE_TUNNEL_TYPE_GRE),
      hk_tunnel_key = tid\<rparr>"

fun adds_tunnel :: "hal_tunnel_map_vrf_key \<Rightarrow> hal_call \<Rightarrow> bool" where
  "adds_tunnel k (Hal_tunnel_map_vrf_entry_add key data) = (key = k)"
| "adds_tunnel k _ = False"

fun dels_tunnel :: "hal_tunnel_map_vrf_key \<Rightarrow> hal_call \<Rightarrow> bool" where
  "dels_tunnel k (Hal_tunnel_map_vrf_entry_del key) = (key = k)"
| "dels_tunnel k _ = False"

definition tunnel_offloaded :: "shc_tunnel_type \<Rightarrow> u32 \<Rightarrow> ('h, 'f, 'b) agent \<Rightarrow> bool" where
  "tunnel_offloaded type tid s =
     hw_present (adds_tunnel (hal_tunnel_key type tid)) (dels_tunnel (hal_tunnel_key type tid)) (hal_log s)"

definition tunnel_users ::
  "('h, 'f, 'b) lib \<Rightarrow> shc_tunnel_type \<Rightarrow> u32 \<Rightarrow> ('h, 'f, 'b) agent \<Rightarrow> u8" where
  "tunnel_users E type tid s =
     (case tunnels E s (tunnel_key type tid) of None \<Rightarrow> 0 | Some t \<Rightarrow> ti_exit_flag t)"

definition tunnel_ready ::
  "('h, 'f, 'b) lib \<Rightarrow> shc_tunnel_type \<Rightarrow> u32 \<Rightarrow> ('h, 'f, 'b) agent \<Rightarrow> bool" where
  "tunnel_ready E type tid s \<longleftrightarrow> hal_never_fails E \<and> \<not> rte_assert_on E \<and>
     (case tunnels E s (tunnel_key type tid) of
        None \<Rightarrow> False | Some t \<Rightarrow> shc_vrf_dp_get_by_id (ti_vrf_id t) s \<noteq> None)"

definition tunnel_lookup_step ::
  "('h, 'f, 'b) lib \<Rightarrow> shc_tunnel_type \<Rightarrow> u32 \<Rightarrow> int \<Rightarrow> ('h, 'f, 'b) agent \<Rightarrow> ('h, 'f, 'b) agent option" where
  "tunnel_lookup_step E type tid flag s = map_option snd (shc_tunnel_map_vrf_lookup E type tid flag s)"

definition tunnel_counted :: "int \<Rightarrow> shc_tunnel_info \<Rightarrow> shc_tunnel_info" where
  "tunnel_counted f t = t\<lparr>ti_exit_flag := count_user f (ti_exit_flag t)\<rparr>"

definition tunnel_calls ::
  "('h, 'f, 'b) lib \<Rightarrow> shc_tunnel_type \<Rightarrow> u32 \<Rightarrow> int \<Rightarrow> shc_tunnel_info \<Rightarrow> hal_trace \<Rightarrow> hal_trace" where
  "tunnel_calls E type tid f t l =
     (let k = hal_tunnel_key type tid;
          a = Hal_tunnel_map_vrf_entry_add k
                \<lparr>hd_vrf = ucast (if type = SHC_TUNNEL_VXLAN then ti_vrf_id t else tid)\<rparr>;
          d = Hal_tunnel_map_vrf_entry_del k
      in if f = 0 \<and> ti_exit_flag t = 0 then [(a, hal_status E l a)]
         else if f = 1 \<and> ti_exit_flag t = 1 then [(d, hal_status E l d)] else [])"

text \<open>Without assertions, what a lookup of a mapped tunnel does, whatever the hardware answers.\<close>

lemma shc_vrf_dp_get_by_id_cong:
  "g_shc_vrfs s' = g_shc_vrfs s \<Longrightarrow> shc_vrf_dp_get_by_id i s' = shc_vrf_dp_get_by_id i s"
  by (simp add: shc_vrf_dp_get_by_id_def shc_vrf_get_by_id_def Let_def)

lemma shc_vrf_dp_get_by_id_upd [simp]:
  "shc_vrf_dp_get_by_id i (s\<lparr>tunnel_mem := m\<rparr>) = shc_vrf_dp_get_by_id i s"
  "shc_vrf_dp_get_by_id i (s\<lparr>hal_log := l\<rparr>) = shc_vrf_dp_get_by_id i s"
  "shc_vrf_dp_get_by_id i (s\<lparr>vrf_hash_tbl := h\<rparr>) = shc_vrf_dp_get_by_id i s"
  by (rule shc_vrf_dp_get_by_id_cong, simp)+

lemma shc_tunnel_map_vrf_lookup_mapped:
  assumes "rte_hash_lookup_data E (vrf_hash_tbl s) (tunnel_key type tid) = Some p"
    "tunnel_mem s p = Some t" "\<not> rte_assert_on E" "shc_vrf_dp_get_by_id (ti_vrf_id t) s = Some v"
  shows "shc_tunnel_map_vrf_lookup E type tid f s = Some (v,
    s\<lparr>hal_log := tunnel_calls E type tid f t (hal_log s) @ hal_log s,
      tunnel_mem := (tunnel_mem s)(p \<mapsto> tunnel_counted f t)\<rparr>)"
proof -
  note run = shc_tunnel_map_vrf_lookup_def assms(1,2,4) RTE_ASSERT_off [OF assms(3)] Let_def
    shc_hal_tunnel_map_vrf_entry_add_def shc_hal_tunnel_map_vrf_entry_del_def hal_do_eq
    tunnel_calls_def tunnel_counted_def count_user_def hal_tunnel_key_def
  have one: "0 < sint (1 :: u8)" by simp
  consider "f = 0" "ti_exit_flag t = 0" | "f = 0" "ti_exit_flag t \<noteq> 0" | "f = 1" "ti_exit_flag t = 1"
    | "f = 1" "ti_exit_flag t \<noteq> 1" "0 < sint (ti_exit_flag t)"
    | "f = 1" "ti_exit_flag t \<noteq> 1" "\<not> 0 < sint (ti_exit_flag t)"
    | "f \<noteq> 0" "f \<noteq> 1" by blast
  then show ?thesis
  proof cases
    case 1
    then show ?thesis by (simp add: run)
  next
    case 2
    then show ?thesis by (simp add: run)
  next
    case 3
    then show ?thesis by (simp add: run one)
  next
    case 4
    then show ?thesis by (simp add: run)
  next
    case 5
    then show ?thesis by (simp add: run map_upd_triv)
  next
    case 6
    then show ?thesis by (simp add: run map_upd_triv)
  qed
qed

lemma tunnel_readyE:
  assumes "tunnel_ready E type tid s"
  obtains p t v where "hal_never_fails E" "\<not> rte_assert_on E" "tunnels E s (tunnel_key type tid) = Some t"
    "rte_hash_lookup_data E (vrf_hash_tbl s) (tunnel_key type tid) = Some p"
    "shc_vrf_dp_get_by_id (ti_vrf_id t) s = Some v"
    "\<And>f. tunnel_lookup_step E type tid f s = Some
      (s\<lparr>hal_log := tunnel_calls E type tid f t (hal_log s) @ hal_log s,
         tunnel_mem := (tunnel_mem s)(p \<mapsto> tunnel_counted f t)\<rparr>)"
proof -
  from assms obtain p t v where pt: "rte_hash_lookup_data E (vrf_hash_tbl s) (tunnel_key type tid) = Some p"
    "tunnel_mem s p = Some t" "\<not> rte_assert_on E" "shc_vrf_dp_get_by_id (ti_vrf_id t) s = Some v"
    "hal_never_fails E" "tunnels E s (tunnel_key type tid) = Some t"
    by (auto simp: tunnel_ready_def tunnels_def obj_view_def split: option.splits)
  from pt(5,3,6,1,4) show thesis
    by (rule that) (simp add: tunnel_lookup_step_def shc_tunnel_map_vrf_lookup_mapped [OF pt(1-4)])
qed

lemma tunnels_counted:
  assumes "rte_hash_lookup_data E (vrf_hash_tbl s) k = Some p"
  shows "tunnels E (s\<lparr>hal_log := l, tunnel_mem := (tunnel_mem s)(p \<mapsto> t')\<rparr>) k = Some t'"
  using assms by (simp add: tunnels_def obj_view_def)

interpretation tunnel_off: offload_counter "tunnel_lookup_step E type tid"
  "tunnel_ready E type tid" "tunnel_users E type tid" "tunnel_offloaded type tid"
  for E :: "('h, 'f, 'b) lib" and type tid
proof (rule offload_counterI)
  fix s :: "('h, 'f, 'b) agent" and f
  assume "tunnel_ready E type tid s"
  then show "\<exists>s'. tunnel_lookup_step E type tid f s = Some s' \<and> tunnel_ready E type tid s' \<and>
      tunnel_users E type tid s' = count_user f (tunnel_users E type tid s) \<and>
      tunnel_offloaded type tid s' = hw_user f (tunnel_users E type tid s) (tunnel_offloaded type tid s)"
  proof (rule tunnel_readyE)
    fix p t v
    assume h: "hal_never_fails E" "\<not> rte_assert_on E" "tunnels E s (tunnel_key type tid) = Some t"
      "rte_hash_lookup_data E (vrf_hash_tbl s) (tunnel_key type tid) = Some p"
      "shc_vrf_dp_get_by_id (ti_vrf_id t) s = Some v"
      "\<And>f. tunnel_lookup_step E type tid f s = Some
      (s\<lparr>hal_log := tunnel_calls E type tid f t (hal_log s) @ hal_log s,
         tunnel_mem := (tunnel_mem s)(p \<mapsto> tunnel_counted f t)\<rparr>)"
    define s' where "s' = s\<lparr>hal_log := tunnel_calls E type tid f t (hal_log s) @ hal_log s,
         tunnel_mem := (tunnel_mem s)(p \<mapsto> tunnel_counted f t)\<rparr>"
    have "tunnels E s' (tunnel_key type tid) = Some (tunnel_counted f t)"
      unfolding s'_def by (rule tunnels_counted [OF h(4)])
    moreover have "shc_vrf_dp_get_by_id (ti_vrf_id t) s' = Some v"
      using h(5) by (simp add: s'_def)
    moreover have "tunnel_offloaded type tid s' = hw_user f (ti_exit_flag t) (tunnel_offloaded type tid s)"
      by (simp add: tunnel_offloaded_def s'_def tunnel_calls_def hw_user_def hal_never_failsD [OF h(1)] Let_def)
    ultimately show ?thesis
      using h(1-3,6) by (simp add: tunnel_ready_def tunnel_users_def tunnel_counted_def s'_def)
  qed
qed

text \<open>
  On sound tables \<open>shc_tunnel_map_vrf_lookup\<close> finds exactly the mappings: for a mapped tunnel
  it returns the data plane of the VRF that \<open>shc_tunnel_map_vrf\<close> mapped it to, for any other
  NULL, whatever the flag; and it changes no mapping.
\<close>

theorem shc_tunnel_map_vrf_lookup_finds:
  assumes "\<not> rte_assert_on E" "tun_inv E s"
  shows "\<exists>v s'. shc_tunnel_map_vrf_lookup E type tid flag s = Some (v, s') \<and>
      tunnel_vrf E s (tunnel_key type tid) = map_option (\<lambda>i. of_nat i + 1) v \<and>
      (v = None \<or> (\<exists>i \<in> valid_slots s. v = Some i)) \<and> tunnel_vrf E s' = tunnel_vrf E s"
proof (cases "rte_hash_lookup_data E (vrf_hash_tbl s) (tunnel_key type tid)")
  case None
  then show ?thesis by (simp add: shc_tunnel_map_vrf_lookup_def tunnel_unmapped)
next
  case (Some p)
  from tunnel_mappedE [OF assms(2) Some] obtain t i where t: "tunnel_mem s p = Some t" "i \<in> valid_slots s"
    "tunnel_vrf E s (tunnel_key type tid) = Some (of_nat i + 1)"
    "shc_vrf_dp_get_by_id (ti_vrf_id t) s = Some (Some i)" by metis
  define s' where "s' = s\<lparr>hal_log := tunnel_calls E type tid flag t (hal_log s) @ hal_log s,
      tunnel_mem := (tunnel_mem s)(p \<mapsto> tunnel_counted flag t)\<rparr>"
  have run: "shc_tunnel_map_vrf_lookup E type tid flag s = Some (Some i, s')"
    unfolding s'_def by (rule shc_tunnel_map_vrf_lookup_mapped [OF Some t(1) assms(1) t(4)])
  have "\<exists>j \<in> valid_slots s. ti_vrf_id (tunnel_counted flag t) = of_nat j + 1"
    using obj_live [OF tun_table [OF assms(2)] Some] t(1) by (auto simp: tunnel_counted_def)
  from obj_update(2) [OF tun_table [OF assms(2)] Some, of "tunnel_counted flag t", OF this]
  have "tunnels E s' = (tunnels E s)(tunnel_key type tid \<mapsto> tunnel_counted flag t)"
    by (simp add: tunnels_def s'_def)
  moreover have "tunnels E s (tunnel_key type tid) = Some t"
    using Some t(1) by (simp add: tunnels_def obj_view_def)
  ultimately have "tunnel_vrf E s' = tunnel_vrf E s"
    by (auto simp: tunnel_vrf_def fun_eq_iff tunnel_counted_def)
  with run t show ?thesis by auto
qed

lemma tun_inv_agent_tun: "tun_inv (lib0 4) agent_tun"
proof -
  have "\<not> rte_assert_on (lib0 4)" by simp
  from shc_tunnel_map_vrf_contract_plain [OF hash_laws_lib0 zmalloc_law_lib0 this vrf_inv_agent0 tun_inv_agent0,
      of "''red''" SHC_TUNNEL_VXLAN 100 attr0]
  show ?thesis by (auto simp: agent_tun_run)
qed

lemma shc_tunnel_map_vrf_lookup_finds_witness:
  "\<exists>v s'. shc_tunnel_map_vrf_lookup (lib0 4) SHC_TUNNEL_VXLAN 7 0 agent_tun = Some (v, s') \<and>
      tunnel_vrf (lib0 4) agent_tun (tunnel_key SHC_TUNNEL_VXLAN 7) = map_option (\<lambda>i. of_nat i + 1) v"
proof -
  have "\<not> rte_assert_on (lib0 4)" by simp
  from shc_tunnel_map_vrf_lookup_finds [OF this tun_inv_agent_tun, of SHC_TUNNEL_VXLAN 7 0]
  show ?thesis by blast
qed

text \<open>
  While a mapped tunnel has at most 127 users, any sequence of \<open>shc_tunnel_map_vrf_lookup\<close>
  calls keeps the hardware's mapping in step with them: it is present exactly while there are
  users left.
\<close>

theorem shc_tunnel_lookup_offload_sync:
  assumes "tunnel_ready E type tid s"
    and "0 \<le> sint (tunnel_users E type tid s)"
    and "tunnel_offloaded type tid s = (tunnel_users E type tid s \<noteq> 0)"
    and "peak fs (sint (tunnel_users E type tid s)) \<le> 127"
  shows "\<exists>s'. lookups (tunnel_lookup_step E type tid) fs s = Some s' \<and>
      sint (tunnel_users E type tid s') = users fs (sint (tunnel_users E type tid s)) \<and>
      tunnel_offloaded type tid s' = (users fs (sint (tunnel_users E type tid s)) > 0)"
proof -
  have "tunnel_off.synced E type tid s" using assms(1-3) by (simp add: tunnel_off.synced_def)
  from tunnel_off.lookups_synced [OF this assms(4)] show ?thesis
    using sint_zero_iff by (fastforce simp: tunnel_off.synced_def)
qed

lemma agent_tun_entry:
  "tunnels (lib0 4) agent_tun (tunnel_key SHC_TUNNEL_VXLAN 100) = Some (shc_tunnel_info_zero\<lparr>ti_vrf_id := 1\<rparr>)"
  "hal_log agent_tun = []" "valid (g_shc_vrfs agent_tun 0)"
proof -
  have "shc_vrf_lookup ''red'' agent0 = Some (Some 0)"
    using shc_vrf_lookup_iff [OF vrf_inv_agent0] by (simp add: is_vrf_agent0)
  then show "tunnels (lib0 4) agent_tun (tunnel_key SHC_TUNNEL_VXLAN 100) =
      Some (shc_tunnel_info_zero\<lparr>ti_vrf_id := 1\<rparr>)" "hal_log agent_tun = []" "valid (g_shc_vrfs agent_tun 0)"
    by (simp_all add: agent_tun_def shc_tunnel_map_vrf_def Let_def slot_add_def first_free_def allocated_def
        tunnels_def obj_view_def) (simp add: agent0_def)
qed

lemma tunnel_ready_agent_tun: "tunnel_ready (lib0 4) SHC_TUNNEL_VXLAN 100 agent_tun"
  by (simp add: tunnel_ready_def hal_never_fails_lib0 agent_tun_entry shc_vrf_dp_get_by_id_def
      shc_vrf_get_by_id_def SHC_NR_VRF_def)

lemma shc_tunnel_lookup_offload_sync_witness:
  "\<exists>s'. lookups (tunnel_lookup_step (lib0 4) SHC_TUNNEL_VXLAN 100) [0, 0, 1, 1] agent_tun = Some s' \<and>
      sint (tunnel_users (lib0 4) SHC_TUNNEL_VXLAN 100 s') = 0 \<and> \<not> tunnel_offloaded SHC_TUNNEL_VXLAN 100 s'"
  using shc_tunnel_lookup_offload_sync [OF tunnel_ready_agent_tun, of "[0, 0, 1, 1]"]
  by (simp add: tunnel_users_def tunnel_offloaded_def agent_tun_entry shc_tunnel_info_zero_def)

text \<open>
  With assertions compiled in, the first lookup that programs the hardware aborts exactly when
  the hardware accepts the entry: the assertion after the call demands a failure.
\<close>

theorem shc_tunnel_lookup_assert_inverted:
  assumes "rte_assert_on E" "hal_never_fails E"
    and "rte_hash_lookup_data E (vrf_hash_tbl s) (tunnel_key type tid) = Some p"
    and "tunnel_mem s p = Some t" and "ti_exit_flag t = 0"
  shows "shc_tunnel_map_vrf_lookup E type tid 0 s = None"
proof -
  have "fst (shc_hal_tunnel_map_vrf_entry_add E type tid (ti_vrf_id t) s) = 0"
    using hal_never_failsD [OF assms(2)]
    by (simp add: shc_hal_tunnel_map_vrf_entry_add_def hal_do_eq Let_def split: prod.splits)
  then show ?thesis
    using assms by (auto simp: shc_tunnel_map_vrf_lookup_def RTE_ASSERT_def split: prod.splits)
qed

lemma shc_tunnel_lookup_assert_inverted_witness:
  "shc_tunnel_map_vrf_lookup ((lib0 4)\<lparr>rte_assert_on := True\<rparr>) SHC_TUNNEL_VXLAN 100 0 agent_tun = None"
proof -
  have "tunnels (lib0 4) agent_tun (tunnel_key SHC_TUNNEL_VXLAN 100) = Some (shc_tunnel_info_zero\<lparr>ti_vrf_id := 1\<rparr>)"
    by (rule agent_tun_entry)
  then obtain p where p: "slot_lookup (vrf_hash_tbl agent_tun) (tunnel_key SHC_TUNNEL_VXLAN 100) = Some p"
    "tunnel_mem agent_tun p = Some (shc_tunnel_info_zero\<lparr>ti_vrf_id := 1\<rparr>)"
    by (auto simp: tunnels_def obj_view_def split: option.splits)
  show ?thesis
    by (rule shc_tunnel_lookup_assert_inverted [of _ agent_tun _ _ p "shc_tunnel_info_zero\<lparr>ti_vrf_id := 1\<rparr>"])
       (use p in \<open>simp_all add: hal_never_fails_def shc_tunnel_info_zero_def\<close>)
qed

section \<open>Unmapping\<close>

text \<open>
  \<open>shc_tunnel_unmap_vrf\<close> of a mapped tunnel returns 0 and frees the record, but the hash
  table keeps the key: from then on every lookup of the tunnel, and mapping or unmapping it
  again, reads the freed record.
\<close>

theorem shc_tunnel_unmap_dangling:
  assumes "\<not> rte_assert_on E" "tun_inv E s" "tunnel_vrf E s (tunnel_key type tid) \<noteq> None"
  shows "\<exists>s'. shc_tunnel_unmap_vrf E type tid s = Some (0, s') \<and>
      shc_tunnel_map_vrf_lookup E type tid flag s' = None \<and> shc_tunnel_unmap_vrf E type tid s' = None \<and>
      (shc_vrf_lookup nm s' = Some (Some i) \<longrightarrow> shc_tunnel_map_vrf E nm type tid attr s' = None)"
proof -
  let ?k = "tunnel_key type tid"
  obtain p where p: "rte_hash_lookup_data E (vrf_hash_tbl s) ?k = Some p"
    using assms(3) tunnel_unmapped [of E s ?k] by (cases "rte_hash_lookup_data E (vrf_hash_tbl s) ?k") auto
  from tunnel_mappedE [OF assms(2) p] obtain t j where t: "tunnel_mem s p = Some t" "j < nat SHC_NR_VRF"
    "ti_vrf_id t = of_nat j + 1" "shc_vrf_dp_get_by_id (ti_vrf_id t) s = Some (Some j)" by metis
  obtain l where hal: "snd (shc_hal_tunnel_map_vrf_entry_del E type tid s) = s\<lparr>hal_log := l\<rparr>"
    by (auto simp: shc_hal_tunnel_map_vrf_entry_del_def hal_do_eq Let_def)
  have on: "p \<in> set (tunnel_rmap (vrf_dp_of s j))"
    using tun_rmap [OF assms(2) t(2)] t(1,3) by (auto simp: rmap_of_def)
  define s' where "s' = dp_upd j (\<lambda>d. d\<lparr>tunnel_rmap := remove1 p (tunnel_rmap d), tunnel_cnt := tunnel_cnt d - 1\<rparr>)
      (s\<lparr>hal_log := l, tunnel_mem := (tunnel_mem s)(p := None)\<rparr>)"
  have run: "shc_tunnel_unmap_vrf E type tid s = Some (0, s')"
    using p t on hal assms(1)
    by (simp add: shc_tunnel_unmap_vrf_def s'_def case_prod_unfold Let_def)
  have s': "rte_hash_lookup_data E (vrf_hash_tbl s') ?k = Some p" "tunnel_mem s' p = None"
    using p by (simp_all add: s'_def)
  have "tunnel_mem (snd (shc_hal_tunnel_map_vrf_entry_del E type tid s')) p = None"
    using s'(2) by (simp add: shc_hal_tunnel_map_vrf_entry_del_def hal_do_eq Let_def)
  then show ?thesis
    using run s' assms(1)
    by (auto simp: shc_tunnel_map_vrf_lookup_def shc_tunnel_unmap_vrf_def shc_tunnel_map_vrf_def
        case_prod_unfold Let_def)
qed

lemma shc_tunnel_unmap_dangling_witness:
  "\<exists>s'. shc_tunnel_unmap_vrf (lib0 4) SHC_TUNNEL_VXLAN 100 agent_tun = Some (0, s') \<and>
      shc_tunnel_map_vrf_lookup (lib0 4) SHC_TUNNEL_VXLAN 100 0 s' = None"
proof -
  have "\<not> rte_assert_on (lib0 4)" "tunnel_vrf (lib0 4) agent_tun (tunnel_key SHC_TUNNEL_VXLAN 100) \<noteq> None"
    by (simp_all add: tunnel_vrf_def agent_tun_entry)
  from shc_tunnel_unmap_dangling [OF this(1) tun_inv_agent_tun this(2)] show ?thesis by blast
qed

end
