(* ===== verification/Nhop.thy ===== *)
theory Nhop
  imports Tunnel_Map
begin

text \<open>
  \<open>agent/route.c\<close>, the next-hop objects: one object for each gateway and tunnel, found through a
  hash table and counted by the routes that use it. Making the first reference also takes a
  reference to the neighbour of the gateway and an identifier of the hardware's.
\<close>

definition nhop_tbl_key :: "nhop_key \<Rightarrow> hkey" where
  "nhop_tbl_key d = K_nhop d"

text \<open>The key a next hop is stored under.\<close>

definition nhop_key_of :: "fib_nhop \<Rightarrow> nhop_key" where
  "nhop_key_of f = \<lparr>nk_gateway = nh_gateway f, nk_tunnel_info = nh_tunnel_info f\<rparr>"

text \<open>\<open>memcmp\<close> of the packed tunnel structs is equality of the records.\<close>

definition fib_nhop_equal :: "fib_nhop \<Rightarrow> nhop_key \<Rightarrow> bool" where
  "fib_nhop_equal nhop_args match_key =
     (case tun_type (nh_tunnel_info nhop_args) of
        SHC_ENCAP_VXLAN \<Rightarrow>
          nh_gateway nhop_args = nk_gateway match_key \<and> nh_tunnel_info nhop_args = nk_tunnel_info match_key
      | SHC_ENCAP_TGRE \<Rightarrow> nh_tunnel_info nhop_args = nk_tunnel_info match_key
      | _ \<Rightarrow> False)"

definition fib_nhop_zero :: "nhop_key \<Rightarrow> fib_nhop" where
  "fib_nhop_zero d =
     \<lparr>nh_oid = 0, nh_ref_count = 0, nh_neigh_oid = 0, nh_gateway = nk_gateway d,
      nh_tunnel_info = nk_tunnel_info d, nh_exit_flag = 0\<rparr>"

text \<open>The labels \<open>rollback4\<close> and \<open>rollback5\<close>: the key is deleted and the object freed.\<close>

definition nhop_rollback4 ::
  "('h, 'f, 'b) lib \<Rightarrow> nhop_key \<Rightarrow> ptr \<Rightarrow> ('h, 'f, 'b) agent \<Rightarrow> ('h, 'f, 'b) agent" where
  "nhop_rollback4 E d p s =
     s\<lparr>nhop_tbl := snd (rte_hash_del_key E (nhop_tbl s) (nhop_tbl_key d)),
       nhop_mem := (nhop_mem s)(p := None)\<rparr>"

text \<open>
  \<open>nhop_obj_create\<close>; the object's address is written to the caller's variable on success only.
\<close>

definition nhop_obj_create ::
  "('h, 'f, 'b) lib \<Rightarrow> nat \<Rightarrow> nhop_key \<Rightarrow> ('h, 'f, 'b) agent
     \<Rightarrow> (int \<times> ptr option \<times> ('h, 'f, 'b) agent) option" where
  "nhop_obj_create E v d s =
     (case rte_hash_lookup_data E (nhop_tbl s) (nhop_tbl_key d) of
        Some p \<Rightarrow> do {
          RTE_ASSERT E (p \<noteq> NULL);
          f \<leftarrow> nhop_mem s p;
          Some (0, Some p, s\<lparr>nhop_mem := (nhop_mem s)(p \<mapsto> f\<lparr>nh_ref_count := nh_ref_count f + 1\<rparr>)\<rparr>)
        }
      | None \<Rightarrow>
          let p = rte_zmalloc E (allocated (nhop_mem s)) in
          if p = NULL then Some (SHC_COMM_NOMEM, None, s)
          else
            let (r, h) = rte_hash_add_key_data E (nhop_tbl s) (nhop_tbl_key d) p in
            if r < 0 then Some (- EFAULT, None, s\<lparr>nhop_tbl := h\<rparr>)
            else
              let s1 = s\<lparr>nhop_tbl := h, nhop_mem := (nhop_mem s)(p \<mapsto> fib_nhop_zero d)\<rparr> in do {
                (ret, neigh_oid, s2) \<leftarrow>
                  (if \<not> IP4_ADDR_IS_ZERO (nk_gateway d) then do {
                     (ret, oid, s2) \<leftarrow> shc_neigh_add E v (nk_gateway d) s1;
                     Some (ret, (case oid of None \<Rightarrow> 0 | Some oid \<Rightarrow> oid), s2)
                   } else Some (0, 0, s1));
                if ret < 0 then Some (ret, None, nhop_rollback4 E d p s2)
                else
                  let (st, oid, s3) = hal_alloc_oid E Hal_nhop_alloc_oid s2 in
                  if st < 0 then do {
                    s4 \<leftarrow> (if \<not> IP4_ADDR_IS_ZERO (nk_gateway d)
                            then map_option snd (shc_neigh_del E v (nk_gateway d) s3) else Some s3);
                    Some (SHC_ROUTE_NH_ALLOC_OID_FAIL, None, nhop_rollback4 E d p s4)
                  }
                  else Some (st, Some p, s3\<lparr>nhop_mem := (nhop_mem s3)
                         (p \<mapsto> (fib_nhop_zero d)\<lparr>nh_neigh_oid := neigh_oid, nh_oid := oid,
                                                nh_ref_count := 1\<rparr>)\<rparr>)
              })"

definition nhop_obj_delete ::
  "('h, 'f, 'b) lib \<Rightarrow> nat \<Rightarrow> ptr \<Rightarrow> ('h, 'f, 'b) agent \<Rightarrow> (int \<times> ('h, 'f, 'b) agent) option" where
  "nhop_obj_delete E v p s = do {
     f \<leftarrow> nhop_mem s p;
     let f = f\<lparr>nh_ref_count := nh_ref_count f - 1\<rparr>;
     if nh_ref_count f > 0 then Some (0, s\<lparr>nhop_mem := (nhop_mem s)(p \<mapsto> f)\<rparr>)
     else
       let (ret, h) = rte_hash_del_key E (nhop_tbl s) (nhop_tbl_key (nhop_key_of f)) in do {
         RTE_ASSERT E (0 \<le> ret);
         (ret, s1) \<leftarrow>
           (if \<not> IP4_ADDR_IS_ZERO (nh_gateway f) then do {
              (ret, s1) \<leftarrow> shc_neigh_del E v (nh_gateway f) (s\<lparr>nhop_tbl := h\<rparr>);
              RTE_ASSERT E (ret = 0);
              Some (ret, s1)
            } else Some (ret, s\<lparr>nhop_tbl := h\<rparr>));
         RTE_ASSERT E (ret = 0);
         Some (0, s1\<lparr>nhop_mem := (nhop_mem s1)(p := None)\<rparr>)
       }
   }"

definition shc_nhop_init :: "('h, 'f, 'b) lib \<Rightarrow> ('h, 'f, 'b) agent \<Rightarrow> ('h, 'f, 'b) agent option" where
  "shc_nhop_init E s =
     (case rte_hash_create E ''NEXTHOP_HASH_TBL'' SHC_NR_NHOP_ALL of
        None \<Rightarrow> None
      | Some h \<Rightarrow> Some (s\<lparr>nhop_tbl := h\<rparr>))"

section \<open>The next hops as a counted table\<close>

definition nhop_inv :: "('h, 'f, 'b) lib \<Rightarrow> ('h, 'f, 'b) agent \<Rightarrow> bool" where
  "nhop_inv E s \<longleftrightarrow>
     obj_table (\<lambda>k f. k = nhop_tbl_key (nhop_key_of f) \<and> 0 < nh_ref_count f)
       (rte_hash_lookup_data E (nhop_tbl s)) (nhop_mem s)"

definition nhop_refs :: "(ptr \<rightharpoonup> fib_nhop) \<Rightarrow> ptr \<Rightarrow> nat" where
  "nhop_refs M p = (case M p of None \<Rightarrow> 0 | Some f \<Rightarrow> unat (nh_ref_count f))"

text \<open>What the routes read and the next-hop operations leave alone.\<close>

definition keeps_routes :: "('h, 'f, 'b) agent \<Rightarrow> ('h, 'f, 'b) agent \<Rightarrow> bool" where
  "keeps_routes s s' \<longleftrightarrow>
     rib_tbl s' = rib_tbl s \<and> fib_res_mem s' = fib_res_mem s \<and> fib_res_used s' = fib_res_used s \<and>
     f_res_blackhole s' = f_res_blackhole s \<and> vrf_hash_tbl s' = vrf_hash_tbl s \<and>
     tunnel_mem s' = tunnel_mem s \<and> g_shc_vrf_n s' = g_shc_vrf_n s \<and>
     (\<forall>w. fib (vrf_dp_of s' w) = fib (vrf_dp_of s w) \<and> rib_cnt (vrf_dp_of s' w) = rib_cnt (vrf_dp_of s w) \<and>
        vrf_id (vrf_dp_of s' w) = vrf_id (vrf_dp_of s w) \<and>
        tunnel_rmap (vrf_dp_of s' w) = tunnel_rmap (vrf_dp_of s w) \<and>
        tunnel_cnt (vrf_dp_of s' w) = tunnel_cnt (vrf_dp_of s w) \<and>
        valid (g_shc_vrfs s' w) = valid (g_shc_vrfs s w) \<and> name (g_shc_vrfs s' w) = name (g_shc_vrfs s w))"

lemma keeps_routes_refl [simp]: "keeps_routes s s"
  by (simp add: keeps_routes_def)

lemma keeps_routes_trans: "keeps_routes s t \<Longrightarrow> keeps_routes t u \<Longrightarrow> keeps_routes s u"
  by (simp add: keeps_routes_def)

lemma keeps_routes_upd [simp]:
  "keeps_routes s (t\<lparr>nhop_tbl := h\<rparr>) = keeps_routes s t"
  "keeps_routes s (t\<lparr>nhop_mem := m\<rparr>) = keeps_routes s t"
  "keeps_routes s (t\<lparr>hal_log := l\<rparr>) = keeps_routes s t"
  "keeps_routes (s\<lparr>nhop_tbl := h\<rparr>) t = keeps_routes s t"
  "keeps_routes (s\<lparr>nhop_mem := m\<rparr>) t = keeps_routes s t"
  "keeps_routes (s\<lparr>hal_log := l\<rparr>) t = keeps_routes s t"
  by (simp_all add: keeps_routes_def)

lemma neigh_only_keeps: "neigh_only v s s' \<Longrightarrow> keeps_routes s s'"
  by (simp add: keeps_routes_def neigh_only_frame)

section \<open>The contract of the next-hop operations\<close>

text \<open>
  A creation that succeeds gives one reference to the object \<open>po\<close> of the key \<open>d\<close>; one that fails
  leaves the objects and the table's content as they were.
\<close>

definition nhop_create_post ::
  "('h, 'f, 'b) lib \<Rightarrow> nhop_key \<Rightarrow> ('h, 'f, 'b) agent \<Rightarrow> int \<times> ptr option \<times> ('h, 'f, 'b) agent \<Rightarrow> bool" where
  "nhop_create_post E d s res =
     (case res of (r, po, s') \<Rightarrow> nhop_inv E s' \<and> neigh_inv E s' \<and> keeps_routes s s' \<and>
        (if r < 0 then po = None \<and> nhop_mem s' = nhop_mem s \<and>
             rte_hash_lookup_data E (nhop_tbl s') = rte_hash_lookup_data E (nhop_tbl s)
         else \<exists>p f. po = Some p \<and> nhop_key_of f = d \<and> nhop_mem s' = (nhop_mem s)(p \<mapsto> f) \<and>
             unat (nh_ref_count f) = nhop_refs (nhop_mem s) p + 1 \<and>
             (case nhop_mem s p of None \<Rightarrow> True | Some g \<Rightarrow> f = g\<lparr>nh_ref_count := nh_ref_count g + 1\<rparr>) \<and>
             rte_hash_lookup_data E (nhop_tbl s') (nhop_tbl_key d) = Some p \<and>
             rte_hash_lookup_data E (nhop_tbl s') =
               (rte_hash_lookup_data E (nhop_tbl s))(nhop_tbl_key d \<mapsto> p)))"

lemma nhop_inv_cong:
  assumes "rte_hash_lookup_data E (nhop_tbl s') = rte_hash_lookup_data E (nhop_tbl s)"
    "nhop_mem s' = nhop_mem s"
  shows "nhop_inv E s' = nhop_inv E s"
  unfolding nhop_inv_def by (simp only: assms)

lemma nhop_create_present:
  assumes "nhop_inv E s" "neigh_inv E s" "\<not> rte_assert_on E"
    and look: "rte_hash_lookup_data E (nhop_tbl s) (nhop_tbl_key d) = Some p"
    and room: "nhop_refs (nhop_mem s) p < 2 ^ 32 - 1"
  shows "\<exists>r. nhop_obj_create E v d s = Some r \<and> nhop_create_post E d s r \<and> fst r = 0"
proof -
  note inv = assms(1) [unfolded nhop_inv_def]
  from obj_liveE [OF inv look] obtain f where f: "nhop_mem s p = Some f" "nhop_key_of f = d" "0 < nh_ref_count f"
    by (auto simp: nhop_tbl_key_def)
  define f' where "f' = f\<lparr>nh_ref_count := nh_ref_count f + 1\<rparr>"
  define s' where "s' = s\<lparr>nhop_mem := (nhop_mem s)(p \<mapsto> f')\<rparr>"
  have cnt: "unat (nh_ref_count f') = nhop_refs (nhop_mem s) p + 1"
    using room f(1) by (simp add: nhop_refs_def f'_def unat_word_ariths)
  then have pos: "nhop_tbl_key d = nhop_tbl_key (nhop_key_of f') \<and> 0 < nh_ref_count f'"
    using f(2) by (simp add: word_less_nat_alt nhop_key_of_def f'_def)
  have "nhop_inv E s'" using obj_update(1) [OF inv look pos] by (simp add: nhop_inv_def s'_def)
  moreover have "neigh_inv E s'" using assms(2) neigh_cong(1) [of E s' s] by (simp add: s'_def)
  moreover have "nhop_key_of f' = d" using f(2) by (simp add: f'_def nhop_key_of_def)
  ultimately have "nhop_create_post E d s (0, Some p, s')"
    using f(1) look cnt by (auto simp: nhop_create_post_def s'_def f'_def fun_upd_idem)
  moreover have "nhop_obj_create E v d s = Some (0, Some p, s')"
    using look f(1) assms(3) by (simp add: nhop_obj_create_def s'_def f'_def)
  ultimately show ?thesis by simp
qed

lemma neigh_add_step:
  assumes "hash_laws E" "zmalloc_law E" "neigh_inv E s"
    and "neigh_refs E s (neigh_key (vrf_id (vrf_dp_of s v)) gw) < 2 ^ 32 - 1"
  obtains ret oid s' where "shc_neigh_add E v gw s = Some (ret, oid, s')" "neigh_inv E s'" "keeps_routes s s'"
    "nhop_mem s' = nhop_mem s" "nhop_tbl s' = nhop_tbl s" "ret \<le> 0"
proof -
  from shc_neigh_add_spec [OF assms(1-3) refl assms(4)] obtain ret oid s' where
    "shc_neigh_add E v gw s = Some (ret, oid, s')"
    "neigh_add_post E (neigh_key (vrf_id (vrf_dp_of s v)) gw) s (ret, oid, s')" "neigh_only v s s'"
    by auto
  then show thesis
    using that by (auto simp: neigh_add_post_def neigh_only_keeps neigh_only_frame)
qed

lemma neigh_del_step:
  assumes "hash_laws E" "neigh_inv E s"
  obtains ret s' where "shc_neigh_del E v gw s = Some (ret, s')" "neigh_inv E s'" "keeps_routes s s'"
    "nhop_mem s' = nhop_mem s" "nhop_tbl s' = nhop_tbl s"
proof -
  from shc_neigh_del_spec [OF assms refl] obtain ret s' where
    "shc_neigh_del E v gw s = Some (ret, s')"
    "neigh_del_post E (neigh_key (vrf_id (vrf_dp_of s v)) gw) s (ret, s')" "neigh_only v s s'"
    by fastforce
  then show thesis
    using that by (auto simp: neigh_del_post_def neigh_only_keeps neigh_only_frame)
qed

lemma neigh_inv_upd [simp]:
  "neigh_inv E (s\<lparr>nhop_tbl := h\<rparr>) = neigh_inv E s" "neigh_inv E (s\<lparr>nhop_mem := m\<rparr>) = neigh_inv E s"
  "neigh_inv E (s\<lparr>hal_log := l\<rparr>) = neigh_inv E s"
  by (simp_all add: neigh_inv_def)

lemma neigh_refs_upd_nhop [simp]:
  "neigh_refs E (s\<lparr>nhop_tbl := h\<rparr>) = neigh_refs E s" "neigh_refs E (s\<lparr>nhop_mem := m\<rparr>) = neigh_refs E s"
  by (rule neigh_cong; simp)+

lemma nhop_create_absent:
  assumes laws: "hash_laws E" "zmalloc_law E" and inv: "nhop_inv E s" and ninv: "neigh_inv E s"
    and look: "rte_hash_lookup_data E (nhop_tbl s) (nhop_tbl_key d) = None"
    and room: "neigh_refs E s (neigh_key (vrf_id (vrf_dp_of s v)) (nk_gateway d)) < 2 ^ 32 - 1"
  shows "\<exists>r. nhop_obj_create E v d s = Some r \<and> nhop_create_post E d s r"
proof -
  let ?k = "nhop_tbl_key d"
  define p where "p = rte_zmalloc E (allocated (nhop_mem s))"
  define r where "r = fst (rte_hash_add_key_data E (nhop_tbl s) ?k p)"
  define h where "h = snd (rte_hash_add_key_data E (nhop_tbl s) ?k p)"
  define s1 where "s1 = s\<lparr>nhop_tbl := h, nhop_mem := (nhop_mem s)(p \<mapsto> fib_nhop_zero d)\<rparr>"
  have add: "rte_hash_add_key_data E (nhop_tbl s) ?k p = (r, h)" by (simp add: r_def h_def)
  have tbl: "rte_hash_lookup_data E h = (if r < 0 then rte_hash_lookup_data E (nhop_tbl s)
      else (rte_hash_lookup_data E (nhop_tbl s))(?k \<mapsto> p))"
    by (simp add: hash_add [OF laws(1)] r_def h_def)
  note run = nhop_obj_create_def look p_def [symmetric] Let_def add
  show ?thesis
  proof (cases "p = NULL \<or> r < 0")
    case True
    then show ?thesis
      using inv ninv tbl nhop_inv_cong [of E "s\<lparr>nhop_tbl := h\<rparr>" s]
      by (auto simp: run nhop_create_post_def const_defs)
  next
    case False
    have fresh: "nhop_mem s p = None"
      using zmalloc_fresh [OF laws(2), of "allocated (nhop_mem s)"] False by (simp add: p_def allocated_def)
    have s1: "neigh_inv E s1" "keeps_routes s s1" "nhop_mem s1 = (nhop_mem s)(p \<mapsto> fib_nhop_zero d)"
      "nhop_tbl s1 = h" "neigh_refs E s1 = neigh_refs E s" "vrf_id (vrf_dp_of s1 v) = vrf_id (vrf_dp_of s v)"
      using ninv by (simp_all add: s1_def)
    define neigh where "neigh = (if \<not> IP4_ADDR_IS_ZERO (nk_gateway d) then do {
        (ret, oid, s2) \<leftarrow> shc_neigh_add E v (nk_gateway d) s1;
        Some (ret, (case oid of None \<Rightarrow> 0 | Some oid \<Rightarrow> oid), s2) } else Some (0, 0, s1))"
    have create: "nhop_obj_create E v d s = do {
        (ret, noid, s2) \<leftarrow> neigh;
        if ret < 0 then Some (ret, None, nhop_rollback4 E d p s2)
        else
          let (st, oid, s3) = hal_alloc_oid E Hal_nhop_alloc_oid s2 in
          if st < 0 then do {
            s4 \<leftarrow> (if \<not> IP4_ADDR_IS_ZERO (nk_gateway d)
                    then map_option snd (shc_neigh_del E v (nk_gateway d) s3) else Some s3);
            Some (SHC_ROUTE_NH_ALLOC_OID_FAIL, None, nhop_rollback4 E d p s4)
          }
          else Some (st, Some p, s3\<lparr>nhop_mem := (nhop_mem s3)
                 (p \<mapsto> (fib_nhop_zero d)\<lparr>nh_neigh_oid := noid, nh_oid := oid, nh_ref_count := 1\<rparr>)\<rparr>)
      }"
      using False unfolding neigh_def run s1_def by simp
    obtain ret noid s2 where s2: "neigh = Some (ret, noid, s2)" "neigh_inv E s2" "keeps_routes s s2"
      "nhop_mem s2 = (nhop_mem s)(p \<mapsto> fib_nhop_zero d)" "nhop_tbl s2 = h"
    proof (cases "IP4_ADDR_IS_ZERO (nk_gateway d)")
      case True
      then show ?thesis using s1 by (intro that [of 0 0 s1]) (simp_all add: neigh_def)
    next
      case gw: False
      show ?thesis
        by (rule neigh_add_step [OF laws s1(1), of v "nk_gateway d"])
           (use room s1 gw keeps_routes_trans in \<open>auto simp: neigh_def intro!: that\<close>)
    qed
    have undo: "nhop_create_post E d s (e, None, nhop_rollback4 E d p t)"
      if "e < 0" "neigh_inv E t" "keeps_routes s t" "nhop_mem t = (nhop_mem s)(p \<mapsto> fib_nhop_zero d)"
        "nhop_tbl t = h" for e t
    proof -
      have "rte_hash_lookup_data E (snd (rte_hash_del_key E h ?k)) = rte_hash_lookup_data E (nhop_tbl s)"
        using False look by (simp add: hash_del [OF laws(1)] tbl fun_upd_idem)
      moreover have "nhop_mem (nhop_rollback4 E d p t) = nhop_mem s"
        using that(4) fresh by (simp add: nhop_rollback4_def fun_upd_idem)
      ultimately show ?thesis
        using that inv nhop_inv_cong [of E "nhop_rollback4 E d p t" s]
        by (simp add: nhop_create_post_def nhop_rollback4_def)
    qed
    define st where "st = hal_status E (hal_log s2) Hal_nhop_alloc_oid"
    define oid where "oid = (if st = 0 then hal_oid E (hal_log s2) Hal_nhop_alloc_oid else 0)"
    define s3 where "s3 = s2\<lparr>hal_log := (Hal_nhop_alloc_oid, st) # hal_log s2\<rparr>"
    have alloc: "hal_alloc_oid E Hal_nhop_alloc_oid s2 = (st, oid, s3)"
      by (simp add: hal_alloc_oid_eq st_def oid_def s3_def)
    have s3: "neigh_inv E s3" "keeps_routes s s3" "nhop_mem s3 = (nhop_mem s)(p \<mapsto> fib_nhop_zero d)" "nhop_tbl s3 = h"
      using s2 by (simp_all add: s3_def)
    consider (neigh) "ret < 0" | (oid) "\<not> ret < 0" "st < 0" | (new) "\<not> ret < 0" "\<not> st < 0" by blast
    then show ?thesis
    proof cases
      case neigh
      then have "nhop_obj_create E v d s = Some (ret, None, nhop_rollback4 E d p s2)"
        using s2(1) by (simp add: create)
      then show ?thesis using undo [OF neigh s2(2-5)] by simp
    next
      case oid
      obtain s4 where s4: "(if \<not> IP4_ADDR_IS_ZERO (nk_gateway d)
           then map_option snd (shc_neigh_del E v (nk_gateway d) s3) else Some s3) = Some s4"
        "neigh_inv E s4" "keeps_routes s s4" "nhop_mem s4 = (nhop_mem s)(p \<mapsto> fib_nhop_zero d)" "nhop_tbl s4 = h"
      proof (cases "IP4_ADDR_IS_ZERO (nk_gateway d)")
        case True
        then show ?thesis using s3 by (intro that [of s3]) simp_all
      next
        case gw: False
        show ?thesis
          by (rule neigh_del_step [OF laws(1) s3(1), of v "nk_gateway d"])
             (use s3 gw keeps_routes_trans in \<open>auto intro!: that\<close>)
      qed
      have "nhop_obj_create E v d s = Some (SHC_ROUTE_NH_ALLOC_OID_FAIL, None, nhop_rollback4 E d p s4)"
        using oid s2(1) alloc s4(1) by (simp add: create)
      then show ?thesis using undo [OF _ s4(2-5), of SHC_ROUTE_NH_ALLOC_OID_FAIL] by (simp add: const_defs)
    next
      case new
      define f where "f = (fib_nhop_zero d)\<lparr>nh_neigh_oid := noid, nh_oid := oid, nh_ref_count := 1\<rparr>"
      define s' where "s' = s3\<lparr>nhop_mem := (nhop_mem s3)(p \<mapsto> f)\<rparr>"
      have key: "nhop_key_of f = d" by (cases d) (simp add: f_def nhop_key_of_def fib_nhop_zero_def)
      then have "?k = nhop_tbl_key (nhop_key_of f) \<and> 0 < nh_ref_count f" by (simp add: f_def)
      from obj_insert(1) [OF inv [unfolded nhop_inv_def] fresh this look]
      have "nhop_inv E s'" using s3 tbl False by (simp add: nhop_inv_def s'_def)
      then have "nhop_create_post E d s (st, Some p, s')"
        using new False s3 fresh tbl key
        by (auto simp: nhop_create_post_def s'_def nhop_refs_def f_def)
      moreover have "nhop_obj_create E v d s = Some (st, Some p, s')"
        using new s2(1) alloc by (simp add: create s'_def f_def)
      ultimately show ?thesis by simp
    qed
  qed
qed

lemma nhop_obj_create_spec:
  assumes "hash_laws E" "zmalloc_law E" "\<not> rte_assert_on E" "nhop_inv E s" "neigh_inv E s"
    and "neigh_refs E s (neigh_key (vrf_id (vrf_dp_of s v)) (nk_gateway d)) < 2 ^ 32 - 1"
    and "\<And>p. nhop_refs (nhop_mem s) p < 2 ^ 32 - 1"
  shows "\<exists>r. nhop_obj_create E v d s = Some r \<and> nhop_create_post E d s r"
  using nhop_create_present [OF assms(4,5,3) _ assms(7)] nhop_create_absent [OF assms(1,2,4,5) _ assms(6)]
  by (cases "rte_hash_lookup_data E (nhop_tbl s) (nhop_tbl_key d)") blast+

text \<open>Giving a reference back; the object goes with the last.\<close>

lemma nhop_obj_delete_spec:
  assumes laws: "hash_laws E" "\<not> rte_assert_on E" and inv: "nhop_inv E s" "neigh_inv E s"
    and p: "nhop_mem s p = Some f"
  shows "\<exists>s'. nhop_obj_delete E v p s = Some (0, s') \<and> nhop_inv E s' \<and> neigh_inv E s' \<and> keeps_routes s s' \<and>
    nhop_mem s' = (if unat (nh_ref_count f) = 1 then (nhop_mem s)(p := None)
                   else (nhop_mem s)(p \<mapsto> f\<lparr>nh_ref_count := nh_ref_count f - 1\<rparr>)) \<and>
    rte_hash_lookup_data E (nhop_tbl s') = (if unat (nh_ref_count f) = 1
      then (rte_hash_lookup_data E (nhop_tbl s))(nhop_tbl_key (nhop_key_of f) := None)
      else rte_hash_lookup_data E (nhop_tbl s))"
proof -
  note t = inv(1) [unfolded nhop_inv_def]
  obtain k where k: "rte_hash_lookup_data E (nhop_tbl s) k = Some p" using obj_noleak [OF t] p by blast
  have kf: "k = nhop_tbl_key (nhop_key_of f)" "0 < nh_ref_count f" using obj_live [OF t k] p by auto
  define f' where "f' = f\<lparr>nh_ref_count := nh_ref_count f - 1\<rparr>"
  have key: "nhop_key_of f' = nhop_key_of f" "nh_gateway f' = nh_gateway f" by (simp_all add: f'_def nhop_key_of_def)
  have cnt: "unat (nh_ref_count f') = unat (nh_ref_count f) - 1"
    using kf(2) by (simp add: f'_def unat_minus_one_word)
  show ?thesis
  proof (cases "nh_ref_count f' > 0")
    case True
    then have "unat (nh_ref_count f) \<noteq> 1" using cnt by (simp add: word_less_nat_alt)
    moreover have "nhop_inv E (s\<lparr>nhop_mem := (nhop_mem s)(p \<mapsto> f')\<rparr>)"
      using obj_update(1) [OF t k, of f'] True kf key by (simp add: nhop_inv_def)
    ultimately show ?thesis
      using p True inv(2) by (simp add: nhop_obj_delete_def f'_def)
  next
    case False
    then have one: "unat (nh_ref_count f) = 1"
      using cnt kf(2) by (simp add: word_less_nat_alt)
    define h where "h = snd (rte_hash_del_key E (nhop_tbl s) k)"
    define ret where "ret = fst (rte_hash_del_key E (nhop_tbl s) k)"
    have del: "rte_hash_del_key E (nhop_tbl s) k = (ret, h)" by (simp add: h_def ret_def)
    have tbl: "rte_hash_lookup_data E h = (rte_hash_lookup_data E (nhop_tbl s))(k := None)"
      by (simp add: h_def hash_del [OF laws(1)])
    have last: "\<not> 0 < nh_ref_count f - 1" using False by (simp add: f'_def)
    note run = nhop_obj_delete_def p last Let_def nhop_key_of_def kf(1) [unfolded nhop_key_of_def, symmetric]
      del RTE_ASSERT_off [OF laws(2)]
    obtain s1 where s1: "nhop_obj_delete E v p s = Some (0, s1\<lparr>nhop_mem := (nhop_mem s1)(p := None)\<rparr>)"
      "neigh_inv E s1" "keeps_routes s s1" "nhop_mem s1 = nhop_mem s" "nhop_tbl s1 = h"
    proof (cases "IP4_ADDR_IS_ZERO (nh_gateway f)")
      case True
      then show ?thesis
        using inv by (intro that [of "s\<lparr>nhop_tbl := h\<rparr>"]) (simp_all add: run)
    next
      case gw: False
      have "neigh_inv E (s\<lparr>nhop_tbl := h\<rparr>)" using inv(2) by simp
      then show ?thesis
        by (rule neigh_del_step [OF laws(1), of _ v "nh_gateway f"]) (rule that, auto simp: run gw)
    qed
    define s' where "s' = s1\<lparr>nhop_mem := (nhop_mem s1)(p := None)\<rparr>"
    have "nhop_inv E s'"
      using obj_remove(1) [OF t k] s1 by (simp add: nhop_inv_def s'_def tbl)
    moreover have "nhop_obj_delete E v p s = Some (0, s')"
      using s1(1) by (simp add: s'_def)
    ultimately show ?thesis using s1 one tbl kf(1) by (auto simp: s'_def)
  qed
qed

end
