(* ===== verification/Fib_Res.thy ===== *)
theory Fib_Res
  imports Nhop
begin

text \<open>
  \<open>agent/route.c\<close>, the route results: the entries of the shared array \<open>g_fib_res_array\<close>. A result
  holds the next hops of one prefix; its index is what the route tables store.
\<close>

section \<open>Operations\<close>

text \<open>\<open>rte_fbarray_get\<close>: NULL (\<open>None\<close>) for an index that is not in the array.\<close>

definition fib_res_get :: "('h, 'f, 'b) agent \<Rightarrow> int \<Rightarrow> fib_res option" where
  "fib_res_get s f_res_id =
     (if 0 \<le> f_res_id \<and> f_res_id < FIB_RES_LEN then Some (fib_res_mem s f_res_id) else None)"

definition fib_res_put :: "int \<Rightarrow> fib_res \<Rightarrow> ('h, 'f, 'b) agent \<Rightarrow> ('h, 'f, 'b) agent" where
  "fib_res_put f_res_id f_res s = s\<lparr>fib_res_mem := (fib_res_mem s)(f_res_id := f_res)\<rparr>"

text \<open>The pointer in slot \<open>i\<close> of \<open>mpath\<close>; \<open>None\<close> past the array's end.\<close>

definition mpath_get :: "fib_res \<Rightarrow> nat \<Rightarrow> ptr option" where
  "mpath_get f_res i = (if i < length (mpath f_res) then Some (mpath f_res ! i) else None)"

text \<open>The next hop that slot \<open>i\<close> points to; \<open>None\<close> also for a NULL or dangling pointer.\<close>

definition mpath_nhop :: "('h, 'f, 'b) agent \<Rightarrow> fib_res \<Rightarrow> nat \<Rightarrow> fib_nhop option" where
  "mpath_nhop s f_res i = do { p \<leftarrow> mpath_get f_res i; nhop_mem s p }"

definition fib_res_rtype_get :: "fib_res \<Rightarrow> rib_type" where
  "fib_res_rtype_get f_res = (if fr_flags f_res AND FRF_MROUTE \<noteq> 0 then RT_MROUTE else RT_DEFAULT)"

definition rt_prefix_type_get ::
  "('h, 'f, 'b) lib \<Rightarrow> shc_rib_key \<Rightarrow> int \<Rightarrow> ('h, 'f, 'b) agent \<Rightarrow> prefix_type option" where
  "rt_prefix_type_get E pfx f_res_id s = do {
     f_res \<leftarrow> fib_res_get s f_res_id;
     if mpath_cnt f_res = 1 then do {
       f \<leftarrow> mpath_nhop s f_res 0;
       if tun_type (nh_tunnel_info f) = SHC_ENCAP_TGRE \<and> rk_prefixlen pfx = 32 then Some RT_PREFIX_HOST
       else Some RT_PREFIX_LPM
     } else Some RT_PREFIX_LPM
   }"

definition fib_res_mpath_nospace :: "fib_res \<Rightarrow> bool" where
  "fib_res_mpath_nospace f_res \<longleftrightarrow> mpath_cnt f_res \<ge> mpath_max f_res"

definition fib_res_md_set ::
  "('h, 'f, 'b) lib \<Rightarrow> fib_res \<Rightarrow> fib_res option \<Rightarrow> rib_type \<Rightarrow> (int \<times> fib_res) option" where
  "fib_res_md_set E f_res f_res_old rib_type =
     (let f_res = (case f_res_old of None \<Rightarrow> f_res | Some old \<Rightarrow> fib_res_clone_flags f_res old) in
      case rib_type of
        RT_DEFAULT \<Rightarrow> Some (0, fib_res_unset_flags (f_res\<lparr>mpath_max := ROUTE_MAX_ECMP\<rparr>) FRF_MROUTE)
      | RT_MROUTE \<Rightarrow> Some (0, fib_res_set_flags (f_res\<lparr>mpath_max := MROUTE_MAX_ECMP\<rparr>) FRF_MROUTE)
      | RT_MAX \<Rightarrow> do { RTE_ASSERT E False; Some (-1, f_res) })"

text \<open>The identifier and \<open>lpm_em\<close> of the entry's previous use stay.\<close>

definition fib_res_reset :: "fib_res \<Rightarrow> fib_res" where
  "fib_res_reset f_res =
     f_res\<lparr>fr_flags := 0, mpath_cnt := 0, mpath_max := ROUTE_MAX_ECMP,
           mpath := replicate ROUTE_MAX_ECMP NULL\<rparr>"

definition fib_res_id_alloc ::
  "('h, 'f, 'b) lib \<Rightarrow> ('h, 'f, 'b) agent \<Rightarrow> (int \<times> ('h, 'f, 'b) agent) option" where
  "fib_res_id_alloc E s =
     (let f_res_id = rte_fbarray_find_next_free E (fib_res_used s) 0 in
      if f_res_id < 0 then Some (- ENOSPC, s)
      else
        let (ret, used) = rte_fbarray_set_used E (fib_res_used s) f_res_id; s1 = s\<lparr>fib_res_used := used\<rparr> in do {
          RTE_ASSERT E (ret = 0);
          f_res \<leftarrow> fib_res_get s1 f_res_id;
          Some (f_res_id, fib_res_put f_res_id (fib_res_reset f_res) s1)
        })"

text \<open>
  The next hop goes into slot \<open>nhsel\<close> of \<open>mpath\<close>, which has \<open>ROUTE_MAX_ECMP\<close> slots; a write past
  them is a write out of the array.
\<close>

definition rib_res_nhop_ctor :: "fib_res \<Rightarrow> nat \<Rightarrow> ptr \<Rightarrow> fib_res option" where
  "rib_res_nhop_ctor f_res nhsel nhop =
     (if nhsel < length (mpath f_res)
      then Some (f_res\<lparr>mpath := (mpath f_res)[nhsel := nhop], mpath_cnt := mpath_cnt f_res + 1\<rparr>)
      else None)"

fun fib_res_fill :: "fib_res \<Rightarrow> nat \<Rightarrow> ptr list \<Rightarrow> fib_res option" where
  "fib_res_fill f_res i [] = Some f_res"
| "fib_res_fill f_res i (nhop # nhops) = do {
     f_res' \<leftarrow> rib_res_nhop_ctor f_res i nhop;
     fib_res_fill f_res' (Suc i) nhops
   }"

text \<open>\<open>fib_res_obj_create\<close>: \<open>fib_nhops\<close> are the \<open>nhop_num\<close> next hops of the array.\<close>

definition fib_res_obj_create ::
  "('h, 'f, 'b) lib \<Rightarrow> ptr list \<Rightarrow> fib_res option \<Rightarrow> rib_type \<Rightarrow> int \<Rightarrow> ('h, 'f, 'b) agent
     \<Rightarrow> (int \<times> ('h, 'f, 'b) agent) option" where
  "fib_res_obj_create E fib_nhops f_res_old rib_type lpm s = do {
     (f_res_id, s1) \<leftarrow> fib_res_id_alloc E s;
     if f_res_id < 0 then Some (SHC_ROUTE_RESULT_NOSPACE, s1)
     else do {
       f_res \<leftarrow> fib_res_get s1 f_res_id;
       f_res \<leftarrow> fib_res_fill f_res 0 fib_nhops;
       f_res \<leftarrow>
         (if rib_type = RT_DEFAULT then
            if length fib_nhops = 1 then do {
              f \<leftarrow> nhop_mem s1 (hd fib_nhops);
              Some (f_res\<lparr>f_res_oid := nh_oid f, lpm_em := lpm\<rparr>)
            } else Some f_res
          else Some (f_res\<lparr>f_res_oid := of_nat (length fib_nhops)\<rparr>));
       let f_res = (case f_res_old of None \<Rightarrow> f_res | Some old \<Rightarrow> f_res\<lparr>fr_flags := fr_flags old\<rparr>);
       (ret, f_res) \<leftarrow> fib_res_md_set E f_res None rib_type;
       Some (f_res_id, fib_res_put f_res_id f_res s1)
     }
   }"

definition fib_res_id_free ::
  "('h, 'f, 'b) lib \<Rightarrow> int \<Rightarrow> ('h, 'f, 'b) agent \<Rightarrow> int \<times> ('h, 'f, 'b) agent" where
  "fib_res_id_free E f_res_id s =
     (let (r, used) = rte_fbarray_set_free E (fib_res_used s) f_res_id in (r, s\<lparr>fib_res_used := used\<rparr>))"

text \<open>Both ways out of \<open>fib_res_obj_delete\<close> free the entry.\<close>

definition fib_res_obj_delete ::
  "('h, 'f, 'b) lib \<Rightarrow> int \<Rightarrow> ('h, 'f, 'b) agent \<Rightarrow> (int \<times> ('h, 'f, 'b) agent) option" where
  "fib_res_obj_delete E fib_res_id s = do {
     f_res \<leftarrow> fib_res_get s fib_res_id;
     if mpath_cnt f_res = 1 then Some (0, snd (fib_res_id_free E fib_res_id s))
     else Some (0, snd (fib_res_id_free E fib_res_id s))
   }"

definition fib_res_select_mpath :: "fib_res \<Rightarrow> int \<Rightarrow> nat" where
  "fib_res_select_mpath f_res hash =
     (if mpath_cnt f_res > 0 then unat ((of_int hash :: u32) mod of_nat (mpath_cnt f_res)) else 0)"

section \<open>Creating and freeing a result\<close>

text \<open>
  The result of one next hop. The \<open>lpm_em\<close> of a multicast route is whatever the entry held before.
\<close>

definition res_of :: "fib_res \<Rightarrow> fib_nhop \<Rightarrow> ptr \<Rightarrow> rib_type \<Rightarrow> int \<Rightarrow> fib_res" where
  "res_of old f p rib_type lpm =
     (if rib_type = RT_DEFAULT
      then \<lparr>f_res_oid = nh_oid f, fr_flags = 0, mpath_cnt = 1, mpath_max = ROUTE_MAX_ECMP, mpath = [p],
            lpm_em = lpm\<rparr>
      else \<lparr>f_res_oid = 1, fr_flags = FRF_MROUTE, mpath_cnt = 1, mpath_max = MROUTE_MAX_ECMP, mpath = [p],
            lpm_em = lpm_em old\<rparr>)"

lemma fib_res_obj_create_spec:
  assumes laws: "fba_laws E us" "\<not> rte_assert_on E" and p: "nhop_mem s p = Some f"
    and t: "rib_type = RT_DEFAULT \<or> rib_type = RT_MROUTE"
  obtains (full) "fib_res_obj_create E [p] None rib_type lpm s = Some (SHC_ROUTE_RESULT_NOSPACE, s)"
  | (new) i used where "0 \<le> i" "i < FIB_RES_LEN" "i \<notin> us (fib_res_used s)" "us used = insert i (us (fib_res_used s))"
      "fib_res_obj_create E [p] None rib_type lpm s = Some (i,
         s\<lparr>fib_res_used := used,
           fib_res_mem := (fib_res_mem s)(i := res_of (fib_res_mem s i) f p rib_type lpm)\<rparr>)"
proof (cases "rte_fbarray_find_next_free E (fib_res_used s) 0 < 0")
  case True
  then show ?thesis
    by (intro full) (simp add: fib_res_obj_create_def fib_res_id_alloc_def)
next
  case False
  define i where "i = rte_fbarray_find_next_free E (fib_res_used s) 0"
  have i: "0 \<le> i" "i < FIB_RES_LEN" "i \<notin> us (fib_res_used s)"
    using fba_free [OF laws(1), of "fib_res_used s"] False by (simp_all add: i_def)
  show ?thesis
  proof (rule new [OF i])
    show "us (snd (rte_fbarray_set_used E (fib_res_used s) i)) = insert i (us (fib_res_used s))"
      using fba_set_used [OF laws(1) i(1,2)] .
    show "fib_res_obj_create E [p] None rib_type lpm s = Some (i,
         s\<lparr>fib_res_used := snd (rte_fbarray_set_used E (fib_res_used s) i),
           fib_res_mem := (fib_res_mem s)(i := res_of (fib_res_mem s i) f p rib_type lpm)\<rparr>)"
      using i False p laws(2) t unfolding i_def [symmetric]
      by (cases "fib_res_mem s i")
         (auto simp: fib_res_obj_create_def fib_res_id_alloc_def fib_res_get_def fib_res_put_def
          fib_res_reset_def rib_res_nhop_ctor_def fib_res_md_set_def res_of_def fib_res_set_flags_def
          fib_res_unset_flags_def ROUTE_MAX_ECMP_def i_def [symmetric] case_prod_unfold Let_def)
  qed
qed

lemma fib_res_obj_delete_spec:
  assumes "fba_laws E us" "0 \<le> i" "i < FIB_RES_LEN"
  obtains used where "us used = us (fib_res_used s) - {i}"
    "fib_res_obj_delete E i s = Some (0, s\<lparr>fib_res_used := used\<rparr>)"
  using fba_set_free [OF assms] assms(2,3)
  by (intro that [of "snd (rte_fbarray_set_free E (fib_res_used s) i)"])
     (simp_all add: fib_res_obj_delete_def fib_res_id_free_def fib_res_get_def case_prod_unfold Let_def)

lemma fib_res_two_hops:
  assumes "fba_laws E us" "\<not> rte_assert_on E" "0 \<le> rte_fbarray_find_next_free E (fib_res_used s) 0"
  shows "fib_res_obj_create E (p # q # ps) old rib_type lpm s = None"
  using fba_free [OF assms(1), of "fib_res_used s"] assms
  by (simp add: fib_res_obj_create_def fib_res_id_alloc_def fib_res_get_def fib_res_put_def fib_res_reset_def
      rib_res_nhop_ctor_def ROUTE_MAX_ECMP_def case_prod_unfold Let_def)

text \<open>
  A multicast route may have eight next hops but its array has room for one: creating the
  result of any two or more next hops writes past the array, whatever the type of the route.
\<close>

theorem fib_res_obj_create_overflow:
  assumes "fba_laws E us" "\<not> rte_assert_on E" "0 \<le> rte_fbarray_find_next_free E (fib_res_used s) 0"
  shows "fib_res_obj_create E (p # q # ps) old rib_type lpm s = None"
  by (rule fib_res_two_hops [OF assms])

lemma fib_res_obj_create_overflow_witness:
  "fib_res_obj_create (lib0 4) [1, 2] None RT_MROUTE 0 agent0 = None"
proof (rule fib_res_obj_create_overflow [OF fba_laws_lib0])
  show "0 \<le> rte_fbarray_find_next_free (lib0 4) (fib_res_used agent0) 0"
    by (simp add: agent0_def list_next_free_def FIB_RES_LEN_def SHC_NR_FIB_RES_ALL_def)
qed simp

end
