(* ===== verification/Route.thy ===== *)
theory Route
  imports Fib_Res
begin

text \<open>
  \<open>agent/route.c\<close>, the routes: a prefix of a VRF is in the hash table \<open>rib\<close> that all VRFs share and
  in the LPM table \<open>fib\<close> of its VRF, both with the index of its result. Insertion, the two
  deletions and the cleanup keep the two tables, the results, the next hops and their reference
  counts consistent; the lemmas say so, and give the routes' view as a map.
\<close>

section \<open>Operations\<close>

definition rib_tbl_key :: "shc_rib_key \<Rightarrow> hkey" where
  "rib_tbl_key pfx = K_rib pfx"

text \<open>
  \<open>rt_prefix_obj_update\<close>; a negative \<open>f_res_id\<close> is a new prefix. The old and new prefix types feed
  a hardware call that is commented out, but computing them reads the results.
\<close>

definition rt_prefix_obj_update ::
  "('h, 'f, 'b) lib \<Rightarrow> nat \<Rightarrow> shc_rib_key \<Rightarrow> int \<Rightarrow> int \<Rightarrow> ('h, 'f, 'b) agent
     \<Rightarrow> (int \<times> ('h, 'f, 'b) agent) option" where
  "rt_prefix_obj_update E v pfx f_res_id f_res_id_new s = do {
     rt_ptype \<leftarrow> (if f_res_id > 0 then rt_prefix_type_get E pfx f_res_id s else Some RT_PREFIX_INVALID);
     rt_ptype_new \<leftarrow> rt_prefix_type_get E pfx f_res_id_new s;
     let (ret, rib) = rte_hash_add_key_data E (rib_tbl s) (rib_tbl_key pfx) f_res_id_new;
     let s1 = s\<lparr>rib_tbl := rib\<rparr>;
     if ret < 0 then Some (SHC_ROUTE_PREFIX_NOSPACE, s1)
     else
       let (ret, f) = rte_fib_add E (fib (vrf_dp_of s1 v)) (rte_be_to_cpu_32 (rk_prefix4 pfx))
             (rk_prefixlen pfx) f_res_id_new;
           s2 = dp_upd v (\<lambda>d. d\<lparr>fib := f\<rparr>) s1
       in if ret \<noteq> 0 then
            Some (SHC_ROUTE_PREFIX_NOSPACE,
              if f_res_id < 0
              then s2\<lparr>rib_tbl := snd (rte_hash_del_key E (rib_tbl s2) (rib_tbl_key pfx))\<rparr>
              else s2\<lparr>rib_tbl := snd (rte_hash_add_key_data E (rib_tbl s2) (rib_tbl_key pfx) f_res_id)\<rparr>)
          else Some (0, if f_res_id < 0 then dp_upd v (\<lambda>d. d\<lparr>rib_cnt := rib_cnt d + 1\<rparr>) s2 else s2)
   }"

text \<open>
  \<open>lpm_em\<close> is 0 for a host route, looked up exactly, and 1 for a shorter prefix. The first loop of
  \<open>shc_route_nhop_insert\<close> is \<open>mpath_has\<close>, the copy of the old next hops \<open>mpath_list\<close>.
\<close>

definition lpm_em_of :: "shc_rib_key \<Rightarrow> int" where
  "lpm_em_of pfx = (if rk_prefixlen pfx = 32 then 0 else 1)"

fun mpath_has :: "('h, 'f, 'b) agent \<Rightarrow> fib_res \<Rightarrow> nhop_key \<Rightarrow> nat list \<Rightarrow> bool option" where
  "mpath_has s f_res d [] = Some False"
| "mpath_has s f_res d (i # is) = do {
     f \<leftarrow> mpath_nhop s f_res i;
     if fib_nhop_equal f d then Some True else mpath_has s f_res d is
   }"

fun mpath_list :: "fib_res \<Rightarrow> nat list \<Rightarrow> ptr list option" where
  "mpath_list f_res [] = Some []"
| "mpath_list f_res (i # is) = do {
     p \<leftarrow> mpath_get f_res i;
     ps \<leftarrow> mpath_list f_res is;
     Some (p # ps)
   }"

text \<open>
  The search of \<open>shc_route_nhop_delete\<close>, and its copy of the other next hops, of which it expects
  one less than there are.
\<close>

fun mpath_find :: "fib_res \<Rightarrow> ptr \<Rightarrow> nat list \<Rightarrow> bool option" where
  "mpath_find f_res p [] = Some False"
| "mpath_find f_res p (i # is) = do {
     q \<leftarrow> mpath_get f_res i;
     if q = p then Some True else mpath_find f_res p is
   }"

definition mpath_others :: "fib_res \<Rightarrow> ptr \<Rightarrow> ptr list option" where
  "mpath_others f_res p = do {
     ps \<leftarrow> mpath_list f_res [0..<mpath_cnt f_res];
     let qs = removeAll p ps;
     if length qs = mpath_cnt f_res - 1 then Some qs else None
   }"

text \<open>
  The part of \<open>shc_route_nhop_insert\<close> after the checks; \<open>f_res\<close> is the present result, if the
  prefix exists.
\<close>

definition route_nhop_insert_new ::
  "('h, 'f, 'b) lib \<Rightarrow> nat \<Rightarrow> shc_rib_key \<Rightarrow> nhop_key \<Rightarrow> rib_type \<Rightarrow> (int \<times> fib_res) option
     \<Rightarrow> ('h, 'f, 'b) agent \<Rightarrow> (int \<times> ('h, 'f, 'b) agent) option" where
  "route_nhop_insert_new E v pfx d rib_type found s = do {
     (ret, nhop_new, s1) \<leftarrow> nhop_obj_create E v d s;
     if ret < 0 then Some (ret, s1)
     else do {
       p \<leftarrow> nhop_new;
       f_nhops \<leftarrow> (case found of None \<Rightarrow> Some [p]
          | Some (_, f_res) \<Rightarrow> do { ps \<leftarrow> mpath_list f_res [0..<mpath_cnt f_res]; Some (ps @ [p]) });
       (f_res_id_new, s2) \<leftarrow> fib_res_obj_create E f_nhops (map_option snd found) rib_type (lpm_em_of pfx) s1;
       if f_res_id_new < 0 then do {
         (_, s3) \<leftarrow> nhop_obj_delete E v p s2;
         Some (f_res_id_new, s3)
       }
       else do {
         (ret, s3) \<leftarrow> rt_prefix_obj_update E v pfx (case found of None \<Rightarrow> -1 | Some (i, _) \<Rightarrow> i) f_res_id_new s2;
         if ret < 0 then do {
           (_, s4) \<leftarrow> fib_res_obj_delete E f_res_id_new s3;
           (_, s5) \<leftarrow> nhop_obj_delete E v p s4;
           Some (ret, s5)
         }
         else (case found of
             None \<Rightarrow> Some (ret, s3)
           | Some (i, _) \<Rightarrow> do {
               (ret, s4) \<leftarrow> fib_res_obj_delete E i s3;
               RTE_ASSERT E (ret = 0);
               Some (ret, s4)
             })
       }
     }
   }"

definition shc_route_nhop_insert ::
  "('h, 'f, 'b) lib \<Rightarrow> nat \<Rightarrow> shc_rib_key \<Rightarrow> nhop_key \<Rightarrow> rib_type \<Rightarrow> ('h, 'f, 'b) agent
     \<Rightarrow> (int \<times> ('h, 'f, 'b) agent) option" where
  "shc_route_nhop_insert E v pfx nhop_encap_data rib_type s =
     (case rte_hash_lookup_data E (rib_tbl s) (rib_tbl_key pfx) of
        None \<Rightarrow> route_nhop_insert_new E v pfx nhop_encap_data rib_type None s
      | Some f_res_id \<Rightarrow> do {
          f_res \<leftarrow> fib_res_get s f_res_id;
          if fib_res_rtype_get f_res \<noteq> rib_type then Some (SHC_IPV4_ROUTETYPE_NO_SAME, s)
          else if fib_res_mpath_nospace f_res then Some (SHC_ROUTE_NEXTHOP_ECMP_NOSPACE, s)
          else do {
            same \<leftarrow> mpath_has s f_res nhop_encap_data [0..<mpath_cnt f_res];
            if same then Some (0, s)
            else route_nhop_insert_new E v pfx nhop_encap_data rib_type (Some (f_res_id, f_res)) s
          }
        })"

definition rt_prefix_obj_delete ::
  "('h, 'f, 'b) lib \<Rightarrow> nat \<Rightarrow> shc_rib_key \<Rightarrow> int \<Rightarrow> ('h, 'f, 'b) agent \<Rightarrow> (int \<times> ('h, 'f, 'b) agent) option" where
  "rt_prefix_obj_delete E v pfx f_res_id s = do {
     rt_ptype \<leftarrow> rt_prefix_type_get E pfx f_res_id s;
     let (ret, f) = rte_fib_delete E (fib (vrf_dp_of s v)) (rte_be_to_cpu_32 (rk_prefix4 pfx)) (rk_prefixlen pfx);
     RTE_ASSERT E (ret = 0);
     let (ret, rib) = rte_hash_del_key E (rib_tbl s) (rib_tbl_key pfx);
     RTE_ASSERT E (0 \<le> ret);
     let s1 = dp_upd v (\<lambda>d. d\<lparr>fib := f, rib_cnt := rib_cnt d - 1\<rparr>) (s\<lparr>rib_tbl := rib\<rparr>);
     RTE_ASSERT E (0 \<le> sint (rib_cnt (vrf_dp_of s1 v)));
     RTE_ASSERT E (fib_res_get s1 f_res_id \<noteq> None);
     Some (ret, s1)
   }"

text \<open>The loop of \<open>shc_route_delete\<close> over the recorded next hops.\<close>

fun nhops_delete :: "('h, 'f, 'b) lib \<Rightarrow> nat \<Rightarrow> ptr list \<Rightarrow> ('h, 'f, 'b) agent \<Rightarrow> ('h, 'f, 'b) agent option" where
  "nhops_delete E v [] s = Some s"
| "nhops_delete E v (p # ps) s = do {
     (ret, s') \<leftarrow> nhop_obj_delete E v p s;
     RTE_ASSERT E (ret = 0);
     nhops_delete E v ps s'
   }"

definition shc_route_delete ::
  "('h, 'f, 'b) lib \<Rightarrow> nat \<Rightarrow> shc_rib_key \<Rightarrow> ('h, 'f, 'b) agent \<Rightarrow> (int \<times> ('h, 'f, 'b) agent) option" where
  "shc_route_delete E v pfx s =
     (case rte_hash_lookup_data E (rib_tbl s) (rib_tbl_key pfx) of
        None \<Rightarrow> Some (SHC_ROUTE_PREFIX_NOT_FOUND, s)
      | Some f_res_id \<Rightarrow> do {
          f_res \<leftarrow> fib_res_get s f_res_id;
          f_nhops \<leftarrow> mpath_list f_res [0..<mpath_cnt f_res];
          (ret, s1) \<leftarrow> rt_prefix_obj_delete E v pfx f_res_id s;
          RTE_ASSERT E (ret = 0);
          (ret, s2) \<leftarrow> fib_res_obj_delete E f_res_id s1;
          RTE_ASSERT E (ret = 0);
          s3 \<leftarrow> nhops_delete E v f_nhops s2;
          Some (0, s3)
        })"

text \<open>
  \<open>shc_route_nhop_delete\<close>. The results compare next hops by address; the new array skips the
  deleted one.
\<close>

definition shc_route_nhop_delete ::
  "('h, 'f, 'b) lib \<Rightarrow> nat \<Rightarrow> shc_rib_key \<Rightarrow> nhop_key \<Rightarrow> rib_type \<Rightarrow> ('h, 'f, 'b) agent
     \<Rightarrow> (int \<times> ('h, 'f, 'b) agent) option" where
  "shc_route_nhop_delete E v pfx nhop_encap_data rib_type s =
     (case rte_hash_lookup_data E (rib_tbl s) (rib_tbl_key pfx) of
        None \<Rightarrow> Some (0, s)
      | Some f_res_id \<Rightarrow> do {
          f_res \<leftarrow> fib_res_get s f_res_id;
          if fib_res_rtype_get f_res \<noteq> rib_type then Some (SHC_IPV4_ROUTETYPE_NO_SAME, s)
          else case rte_hash_lookup_data E (nhop_tbl s) (nhop_tbl_key nhop_encap_data) of
              None \<Rightarrow> Some (0, s)
            | Some f_nhop \<Rightarrow> do {
                here \<leftarrow> mpath_find f_res f_nhop [0..<mpath_cnt f_res];
                if \<not> here then Some (0, s)
                else if mpath_cnt f_res = 1 then do {
                  (ret, s1) \<leftarrow> rt_prefix_obj_delete E v pfx f_res_id s;
                  RTE_ASSERT E (ret = 0);
                  (ret, s2) \<leftarrow> fib_res_obj_delete E f_res_id s1;
                  RTE_ASSERT E (ret = 0);
                  (ret, s3) \<leftarrow> nhop_obj_delete E v f_nhop s2;
                  RTE_ASSERT E (ret = 0);
                  Some (ret, s3)
                }
                else do {
                  f_nhops \<leftarrow> mpath_others f_res f_nhop;
                  (f_res_id_new, s1) \<leftarrow> fib_res_obj_create E f_nhops (Some f_res) rib_type (lpm_em_of pfx) s;
                  if f_res_id_new < 0 then Some (f_res_id_new, s1)
                  else do {
                    (ret, s2) \<leftarrow> rt_prefix_obj_update E v pfx f_res_id f_res_id_new s1;
                    if ret < 0 then do {
                      (_, s3) \<leftarrow> fib_res_obj_delete E f_res_id_new s2;
                      Some (ret, s3)
                    }
                    else do {
                      (ret, s3) \<leftarrow> fib_res_obj_delete E f_res_id s2;
                      RTE_ASSERT E (ret = 0);
                      (ret, s4) \<leftarrow> nhop_obj_delete E v f_nhop s3;
                      RTE_ASSERT E (ret = 0);
                      Some (ret, s4)
                    }
                  }
                }
              }
        })"

text \<open>
  The loop of \<open>shc_route_cleanup\<close> from iterator position \<open>iter\<close>. It goes on as long as the iterator
  reports entries, so it is a function with fuel; \<open>None\<close> also stands for fuel that is used up.
\<close>

fun route_cleanup_loop ::
  "('h, 'f, 'b) lib \<Rightarrow> nat \<Rightarrow> nat \<Rightarrow> nat \<Rightarrow> ('h, 'f, 'b) agent \<Rightarrow> ('h, 'f, 'b) agent option" where
  "route_cleanup_loop E v 0 iter s = None"
| "route_cleanup_loop E v (Suc fuel) iter s =
     (case rte_hash_iterate E (rib_tbl s) iter of
        None \<Rightarrow> Some s
      | Some (k, f_res_id, iter') \<Rightarrow>
          (case k of
             K_rib rib_key \<Rightarrow>
               if vrf_id (vrf_dp_of s v) = rk_vrf_id rib_key then do {
                 (ret, s') \<leftarrow> shc_route_delete E v rib_key s;
                 route_cleanup_loop E v fuel iter' s'
               }
               else route_cleanup_loop E v fuel iter' s
           | _ \<Rightarrow> None))"

definition shc_route_cleanup ::
  "('h, 'f, 'b) lib \<Rightarrow> nat \<Rightarrow> nat \<Rightarrow> ('h, 'f, 'b) agent \<Rightarrow> (int \<times> ('h, 'f, 'b) agent) option" where
  "shc_route_cleanup E fuel v s = do {
     s' \<leftarrow> route_cleanup_loop E v fuel 0 s;
     Some (0, s')
   }"

text \<open>
  \<open>shc_vrf_route_init\<close>; the static \<open>shc_rib_hash_tbl\<close> is created by the first call, \<open>first\<close>. The
  name of the LPM table is left out.
\<close>

definition shc_vrf_route_init ::
  "('h, 'f, 'b) lib \<Rightarrow> bool \<Rightarrow> nat \<Rightarrow> int \<Rightarrow> ('h, 'f, 'b) agent \<Rightarrow> (int \<times> ('h, 'f, 'b) agent) option" where
  "shc_vrf_route_init E first v f_res_bh s = do {
     s1 \<leftarrow> (if first then do {
               h \<leftarrow> rte_hash_create E ''SHC_RIB_HASH_TBL'' (SHC_NR_ROUTES_ALL * 2);
               Some (s\<lparr>rib_tbl := h\<rparr>)
             } else Some s);
     f \<leftarrow> rte_fib_create E (vrf_id (vrf_dp_of s1 v)) SHC_NR_ROUTES_ALL f_res_bh;
     Some (0, dp_upd v (\<lambda>d. d\<lparr>fib := f\<rparr>) s1)
   }"

end
