(* ===== verification/Route_Inv.thy ===== *)
theory Route_Inv
  imports Route
begin

text \<open>
  The consistency of the route tables, as a predicate on the maps they are: \<open>L\<close>, the shared table
  from keys to result indices; \<open>R\<close>, the results in use; \<open>M\<close>, the next hops; \<open>F w\<close>, the LPM table of
  VRF slot \<open>w\<close>; \<open>C w\<close>, its route count. Inserting and deleting a route are two lemmas about it.
\<close>

section \<open>Prefixes\<close>

text \<open>
  A well-formed prefix of VRF slot \<open>v\<close>: IPv4 (\<open>AF_INET\<close> is 2), at most 32 bits, and no bits set
  beyond its length.
\<close>

definition canon_prefix :: "nat \<Rightarrow> shc_rib_key \<Rightarrow> bool" where
  "canon_prefix v pfx \<longleftrightarrow> v < nat SHC_NR_VRF \<and> rk_vrf_id pfx = of_nat v + 1 \<and> rk_family pfx = 2 \<and>
     rk_prefixlen pfx \<le> 32 \<and>
     ip_net (rte_be_to_cpu_32 (rk_prefix4 pfx)) (rk_prefixlen pfx) = rte_be_to_cpu_32 (rk_prefix4 pfx)"

definition rib_key_of :: "nat \<Rightarrow> u32 \<times> u8 \<Rightarrow> shc_rib_key" where
  "rib_key_of v nd = \<lparr>rk_vrf_id = of_nat v + 1, rk_family = 2, rk_prefixlen = snd nd,
     rk_prefix4 = rte_cpu_to_be_32 (fst nd)\<rparr>"

definition net_of :: "shc_rib_key \<Rightarrow> u32 \<times> u8" where
  "net_of pfx = (rte_be_to_cpu_32 (rk_prefix4 pfx), rk_prefixlen pfx)"

lemma rib_tbl_key_inj [simp]: "rib_tbl_key a = rib_tbl_key b \<longleftrightarrow> a = b"
  by (simp add: rib_tbl_key_def)

lemma canon_prefix_key: "canon_prefix v pfx \<Longrightarrow> rib_key_of v (net_of pfx) = pfx"
  by (cases pfx) (simp add: canon_prefix_def rib_key_of_def net_of_def)

lemma net_of_key [simp]: "net_of (rib_key_of v nd) = nd"
  by (simp add: rib_key_of_def net_of_def)

lemma rib_key_of_inj:
  assumes "v < nat SHC_NR_VRF" "w < nat SHC_NR_VRF"
  shows "rib_key_of v a = rib_key_of w b \<longleftrightarrow> v = w \<and> a = b"
  using vrf_id_inj [OF assms] by (auto simp: rib_key_of_def prod_eq_iff)

lemma canon_prefix_net:
  "canon_prefix v pfx \<Longrightarrow>
     (ip_net (rte_be_to_cpu_32 (rk_prefix4 pfx)) (rk_prefixlen pfx), rk_prefixlen pfx) = net_of pfx"
  by (simp add: canon_prefix_def net_of_def)

section \<open>Consistent tables\<close>

text \<open>A result in use: one live next hop, and the flags and the limit of its type.\<close>

definition res_ok :: "(ptr \<rightharpoonup> fib_nhop) \<Rightarrow> fib_res \<Rightarrow> bool" where
  "res_ok M r \<longleftrightarrow> (\<exists>p. mpath r = [p] \<and> M p \<noteq> None) \<and> mpath_cnt r = 1 \<and>
     ((fr_flags r = 0 \<and> mpath_max r = ROUTE_MAX_ECMP) \<or>
      (fr_flags r = FRF_MROUTE \<and> mpath_max r = MROUTE_MAX_ECMP))"

definition route_key_ok :: "hkey \<Rightarrow> bool" where
  "route_key_ok k \<longleftrightarrow> (\<exists>w pfx. k = rib_tbl_key pfx \<and> canon_prefix w pfx)"

text \<open>The prefixes that use a next hop, and the prefixes of a VRF.\<close>

definition hop_users :: "(hkey \<rightharpoonup> fib_res) \<Rightarrow> ptr \<Rightarrow> hkey set" where
  "hop_users V p = {k. \<exists>r. V k = Some r \<and> mpath r = [p]}"

definition vrf_keys :: "(hkey \<rightharpoonup> int) \<Rightarrow> nat \<Rightarrow> hkey set" where
  "vrf_keys L w = {k. L k \<noteq> None \<and> (\<exists>pfx. k = rib_tbl_key pfx \<and> rk_vrf_id pfx = of_nat w + 1)}"

definition routes_ok ::
  "(hkey \<rightharpoonup> int) \<Rightarrow> (int \<rightharpoonup> fib_res) \<Rightarrow> (ptr \<rightharpoonup> fib_nhop) \<Rightarrow> (nat \<Rightarrow> u32 \<times> u8 \<rightharpoonup> int) \<Rightarrow> (nat \<Rightarrow> u32) \<Rightarrow> bool"
where
  "routes_ok L R M F C \<longleftrightarrow>
     finite (dom L) \<and>
     obj_table (\<lambda>k r. route_key_ok k \<and> res_ok M r) L R \<and>
     (\<forall>p f. M p = Some f \<longrightarrow> unat (nh_ref_count f) = card (hop_users (obj_view L R) p)) \<and>
     (\<forall>w < nat SHC_NR_VRF. F w = (\<lambda>nd. L (rib_tbl_key (rib_key_of w nd)))) \<and>
     (\<forall>w < nat SHC_NR_VRF. C w = of_nat (card (vrf_keys L w)))"

lemma routes_okD:
  assumes "routes_ok L R M F C"
  shows routes_finite: "finite (dom L)"
    and routes_table: "obj_table (\<lambda>k r. route_key_ok k \<and> res_ok M r) L R"
    and routes_refs: "M p = Some f \<Longrightarrow> unat (nh_ref_count f) = card (hop_users (obj_view L R) p)"
    and routes_fib: "w < nat SHC_NR_VRF \<Longrightarrow> F w = (\<lambda>nd. L (rib_tbl_key (rib_key_of w nd)))"
    and routes_cnt: "w < nat SHC_NR_VRF \<Longrightarrow> C w = of_nat (card (vrf_keys L w))"
  using assms by (auto simp: routes_ok_def)

lemma hop_users_sub: "hop_users (obj_view L R) p \<subseteq> dom L"
  by (auto simp: hop_users_def obj_view_def split: option.splits)

lemma finite_hop_users: "routes_ok L R M F C \<Longrightarrow> finite (hop_users (obj_view L R) p)"
  using hop_users_sub routes_finite by (rule finite_subset)

lemma finite_vrf_keys: "finite (dom L) \<Longrightarrow> finite (vrf_keys L w)"
  by (rule finite_subset [of _ "dom L"]) (auto simp: vrf_keys_def)

lemma hop_users_live: "routes_ok L R M F C \<Longrightarrow> k \<in> hop_users (obj_view L R) p \<Longrightarrow> M p \<noteq> None"
  using obj_view_SomeD [OF routes_table] by (fastforce simp: hop_users_def res_ok_def)

lemma routes_refs_eq:
  assumes "routes_ok L R M F C" shows "nhop_refs M p = card (hop_users (obj_view L R) p)"
proof (cases "M p")
  case None
  then have "hop_users (obj_view L R) p = {}" using hop_users_live [OF assms] by blast
  with None show ?thesis by (simp add: nhop_refs_def)
qed (simp add: nhop_refs_def routes_refs [OF assms])

text \<open>A key of the route table determines its VRF slot and its network.\<close>

lemma route_keyE:
  assumes "canon_prefix v pfx" "w < nat SHC_NR_VRF"
  shows "rib_tbl_key (rib_key_of w nd) = rib_tbl_key pfx \<longleftrightarrow> w = v \<and> nd = net_of pfx"
proof -
  have v: "v < nat SHC_NR_VRF" using assms(1) by (simp add: canon_prefix_def)
  have "rib_key_of w nd = pfx \<longleftrightarrow> rib_key_of w nd = rib_key_of v (net_of pfx)"
    by (simp add: canon_prefix_key [OF assms(1)])
  then show ?thesis using rib_key_of_inj [OF assms(2) v] by simp
qed

lemma vrf_keys_mem:
  assumes "canon_prefix v pfx" "w < nat SHC_NR_VRF"
  shows "(\<exists>q. rib_tbl_key pfx = rib_tbl_key q \<and> rk_vrf_id q = of_nat w + 1) \<longleftrightarrow> w = v"
  using assms vrf_id_inj [of v w] by (auto simp: canon_prefix_def)

section \<open>Inserting a route\<close>

lemma routes_ok_insert:
  assumes ok: "routes_ok L R M F C" and k: "k = rib_tbl_key pfx" "canon_prefix v pfx" "L k = None"
    and i: "R i = None" and f: "unat (nh_ref_count f) = nhop_refs M p + 1"
    and r: "res_ok (M(p \<mapsto> f)) r" "mpath r = [p]"
  shows "routes_ok (L(k \<mapsto> i)) (R(i \<mapsto> r)) (M(p \<mapsto> f)) (F(v := (F v)(net_of pfx \<mapsto> i))) (C(v := C v + 1))"
    and "obj_view (L(k \<mapsto> i)) (R(i \<mapsto> r)) = (obj_view L R)(k \<mapsto> r)"
proof -
  let ?V = "obj_view L R"
  have key: "route_key_ok k" using k(1,2) by (auto simp: route_key_ok_def)
  have v: "v < nat SHC_NR_VRF" using k(2) by (simp add: canon_prefix_def)
  have "obj_table (\<lambda>k r. route_key_ok k \<and> res_ok (M(p \<mapsto> f)) r) L R"
    by (rule obj_table_mono [OF routes_table [OF ok]]) (auto simp: res_ok_def)
  note ins = obj_insert [OF this i _ k(3), of r]
  show view: "obj_view (L(k \<mapsto> i)) (R(i \<mapsto> r)) = ?V(k \<mapsto> r)" using ins(2) key r(1) by simp
  have none: "?V k = None" using k(3) by (simp add: obj_view_def)
  then have fresh: "k \<notin> hop_users ?V p" by (simp add: hop_users_def)
  have users: "hop_users (?V(k \<mapsto> r)) q = (if q = p then insert k (hop_users ?V p) else hop_users ?V q)" for q
    using none r(2) by (auto simp: hop_users_def)
  have refs: "unat (nh_ref_count g) = card (hop_users (?V(k \<mapsto> r)) q)"
    if "(M(p \<mapsto> f)) q = Some g" for q g
    using that f fresh finite_hop_users [OF ok] routes_refs [OF ok, of q g] routes_refs_eq [OF ok, of p] users
    by (auto split: if_splits)
  have fib: "(F(v := (F v)(net_of pfx \<mapsto> i))) w = (\<lambda>nd. (L(k \<mapsto> i)) (rib_tbl_key (rib_key_of w nd)))"
    if "w < nat SHC_NR_VRF" for w
    using routes_fib [OF ok that] route_keyE [OF k(2) that] k(1) by (auto simp: fun_eq_iff)
  have keys: "vrf_keys (L(k \<mapsto> i)) w = (if w = v then insert k (vrf_keys L v) else vrf_keys L w)"
    if "w < nat SHC_NR_VRF" for w
    using vrf_keys_mem [OF k(2) that] k(1) by (auto simp: vrf_keys_def)
  have "k \<notin> vrf_keys L v" using k(3) by (simp add: vrf_keys_def)
  then have cnt: "(C(v := C v + 1)) w = of_nat (card (vrf_keys (L(k \<mapsto> i)) w))" if "w < nat SHC_NR_VRF" for w
    using routes_cnt [OF ok that] keys [OF that] finite_vrf_keys [OF routes_finite [OF ok]]
    by (auto simp: add.commute)
  show "routes_ok (L(k \<mapsto> i)) (R(i \<mapsto> r)) (M(p \<mapsto> f)) (F(v := (F v)(net_of pfx \<mapsto> i))) (C(v := C v + 1))"
    unfolding routes_ok_def view
    using routes_finite [OF ok] ins(1) key r(1) refs fib cnt by auto
qed

section \<open>Deleting a route\<close>

definition nhop_drop :: "(ptr \<rightharpoonup> fib_nhop) \<Rightarrow> ptr \<Rightarrow> fib_nhop \<Rightarrow> (ptr \<rightharpoonup> fib_nhop)" where
  "nhop_drop M p f =
     (if unat (nh_ref_count f) = 1 then M(p := None)
      else M(p \<mapsto> f\<lparr>nh_ref_count := nh_ref_count f - 1\<rparr>))"

lemma routes_ok_delete:
  assumes ok: "routes_ok L R M F C" and k: "k = rib_tbl_key pfx" "canon_prefix v pfx" "L k = Some i"
    and i: "R i = Some r" and r: "mpath r = [p]" and f: "M p = Some f"
  shows "routes_ok (L(k := None)) (R(i := None)) (nhop_drop M p f) (F(v := (F v)(net_of pfx := None))) (C(v := C v - 1))"
    and "obj_view (L(k := None)) (R(i := None)) = (obj_view L R)(k := None)"
proof -
  let ?V = "obj_view L R"
  have v: "v < nat SHC_NR_VRF" using k(2) by (simp add: canon_prefix_def)
  note rem = obj_remove [OF routes_table [OF ok] k(3)]
  show view: "obj_view (L(k := None)) (R(i := None)) = ?V(k := None)" by (rule rem(2))
  have some: "?V k = Some r" using k(3) i by (simp add: obj_view_def)
  then have mem: "k \<in> hop_users ?V p" using r by (simp add: hop_users_def)
  have users: "hop_users (?V(k := None)) q = hop_users ?V q - (if q = p then {k} else {})" for q
    using some r by (auto simp: hop_users_def)
  have fin: "finite (hop_users ?V p)" by (rule finite_hop_users [OF ok])
  have pos: "0 < card (hop_users ?V p)" using mem fin card_gt_0_iff by blast
  have reff: "unat (nh_ref_count f) = card (hop_users ?V p)" using routes_refs [OF ok f] .
  have tab: "obj_table (\<lambda>k r. route_key_ok k \<and> res_ok (nhop_drop M p f) r) (L(k := None)) (R(i := None))"
  proof (rule obj_tableI)
    fix k' q assume l: "(L(k := None)) k' = Some q"
    from obj_live [OF rem(1) l] obtain r' where
      r': "(R(i := None)) q = Some r'" "route_key_ok k'" "res_ok M r'" by blast
    from r'(3) obtain p' where p': "mpath r' = [p']" "M p' \<noteq> None" by (auto simp: res_ok_def)
    have "nhop_drop M p f p' \<noteq> None"
    proof (cases "p' = p \<and> unat (nh_ref_count f) = 1")
      case True
      have "k' \<noteq> k" "?V k' = Some r'" using l r'(1) by (auto simp: obj_view_def split: if_splits)
      then have "k' \<in> hop_users ?V p" using True p'(1) by (simp add: hop_users_def)
      then have "{k, k'} \<subseteq> hop_users ?V p" using mem by simp
      from card_mono [OF fin this] \<open>k' \<noteq> k\<close> have "2 \<le> card (hop_users ?V p)" by simp
      with True reff show ?thesis by simp
    qed (use p'(2) in \<open>auto simp: nhop_drop_def\<close>)
    then have "res_ok (nhop_drop M p f) r'" using r'(3) p'(1) by (auto simp: res_ok_def)
    with r' show "\<exists>e. (R(i := None)) q = Some e \<and> route_key_ok k' \<and> res_ok (nhop_drop M p f) e" by blast
  qed (use obj_inj [OF rem(1)] obj_noleak [OF rem(1)] in blast)+
  have refs: "unat (nh_ref_count g) = card (hop_users (?V(k := None)) q)" if g: "nhop_drop M p f q = Some g" for q g
  proof (cases "q = p")
    case True
    with g have "unat (nh_ref_count f) \<noteq> 1" "g = f\<lparr>nh_ref_count := nh_ref_count f - 1\<rparr>"
      by (auto simp: nhop_drop_def split: if_splits)
    moreover have "0 < nh_ref_count f" using reff pos by (simp add: word_less_nat_alt)
    ultimately have "unat (nh_ref_count g) = unat (nh_ref_count f) - 1" by (simp add: unat_minus_one_word)
    then show ?thesis using True reff mem fin users [of p] by simp
  next
    case False
    then have "M q = Some g" using g by (auto simp: nhop_drop_def split: if_splits)
    then show ?thesis using routes_refs [OF ok] users [of q] False by simp
  qed
  have fib: "(F(v := (F v)(net_of pfx := None))) w = (\<lambda>nd. (L(k := None)) (rib_tbl_key (rib_key_of w nd)))"
    if "w < nat SHC_NR_VRF" for w
    using routes_fib [OF ok that] route_keyE [OF k(2) that] k(1) by (auto simp: fun_eq_iff)
  have keys: "vrf_keys (L(k := None)) w = vrf_keys L w - (if w = v then {k} else {})"
    if "w < nat SHC_NR_VRF" for w
    using vrf_keys_mem [OF k(2) that] k(1) by (auto simp: vrf_keys_def)
  have kv: "k \<in> vrf_keys L v" using k by (auto simp: vrf_keys_def canon_prefix_def)
  have cnt: "(C(v := C v - 1)) w = of_nat (card (vrf_keys (L(k := None)) w))" if w: "w < nat SHC_NR_VRF" for w
  proof (cases "w = v")
    case True
    have "card (vrf_keys L v) = Suc (card (vrf_keys L v - {k}))"
      using kv finite_vrf_keys [OF routes_finite [OF ok]] by (metis card.remove)
    then show ?thesis using True routes_cnt [OF ok v] keys [OF v] by simp
  qed (use routes_cnt [OF ok w] keys [OF w] in simp)
  show "routes_ok (L(k := None)) (R(i := None)) (nhop_drop M p f) (F(v := (F v)(net_of pfx := None))) (C(v := C v - 1))"
    unfolding routes_ok_def view using routes_finite [OF ok] tab refs fib cnt by auto
qed

end
