(* ===== verification/Route_Ops.thy ===== *)
theory Route_Ops
  imports Route_Inv
begin

text \<open>
  The route operations keep the tables consistent, and on the abstract view, a map from prefixes
  to the next hop's key and the route's type, they are insertion and deletion. The functions
  \<open>us\<close>, \<open>fm\<close> and \<open>fd\<close> are the library's: the array's slots in use, the routes of an LPM table and
  its default.
\<close>

section \<open>The invariant and the view\<close>

text \<open>The results in use, other than the blackhole's.\<close>

definition rib_live :: "('b \<Rightarrow> int set) \<Rightarrow> ('h, 'f, 'b) agent \<Rightarrow> int \<rightharpoonup> fib_res" where
  "rib_live us s i =
     (if i \<in> us (fib_res_used s) \<and> i \<noteq> f_res_blackhole s then Some (fib_res_mem s i) else None)"

definition rib_map :: "('h, 'f, 'b) lib \<Rightarrow> ('h, 'f, 'b) agent \<Rightarrow> hkey \<rightharpoonup> int" where
  "rib_map E s = rte_hash_lookup_data E (rib_tbl s)"

definition ribs :: "('h, 'f, 'b) lib \<Rightarrow> ('b \<Rightarrow> int set) \<Rightarrow> ('h, 'f, 'b) agent \<Rightarrow> hkey \<rightharpoonup> fib_res" where
  "ribs E us s = obj_view (rib_map E s) (rib_live us s)"

definition route_core ::
  "('h, 'f, 'b) lib \<Rightarrow> ('b \<Rightarrow> int set) \<Rightarrow> ('f \<Rightarrow> u32 \<times> u8 \<rightharpoonup> int) \<Rightarrow> ('h, 'f, 'b) agent \<Rightarrow> bool" where
  "route_core E us fm s \<longleftrightarrow>
     routes_ok (rib_map E s) (rib_live us s) (nhop_mem s) (\<lambda>w. fm (fib (vrf_dp_of s w)))
       (\<lambda>w. rib_cnt (vrf_dp_of s w)) \<and>
     us (fib_res_used s) \<subseteq> {0..<FIB_RES_LEN} \<and> f_res_blackhole s \<in> us (fib_res_used s) \<and>
     (\<forall>w < nat SHC_NR_VRF. vrf_id (vrf_dp_of s w) = of_nat w + 1)"

definition route_inv ::
  "('h, 'f, 'b) lib \<Rightarrow> ('b \<Rightarrow> int set) \<Rightarrow> ('f \<Rightarrow> u32 \<times> u8 \<rightharpoonup> int) \<Rightarrow> ('h, 'f, 'b) agent \<Rightarrow> bool" where
  "route_inv E us fm s \<longleftrightarrow> route_core E us fm s \<and> nhop_inv E s \<and> neigh_inv E s"

text \<open>The abstract view: the gateway and tunnel of each prefix, and the route's type.\<close>

definition routes ::
  "('h, 'f, 'b) lib \<Rightarrow> ('b \<Rightarrow> int set) \<Rightarrow> ('h, 'f, 'b) agent \<Rightarrow> hkey \<rightharpoonup> nhop_key \<times> rib_type" where
  "routes E us s k =
     (case ribs E us s k of None \<Rightarrow> None
      | Some r \<Rightarrow> map_option (\<lambda>f. (nhop_key_of f, fib_res_rtype_get r)) (nhop_mem s (hd (mpath r))))"

text \<open>The laws of the libraries the routes rest on, with assertions compiled out.\<close>

definition route_laws ::
  "('h, 'f, 'b) lib \<Rightarrow> ('b \<Rightarrow> int set) \<Rightarrow> ('f \<Rightarrow> u32 \<times> u8 \<rightharpoonup> int) \<Rightarrow> ('f \<Rightarrow> int) \<Rightarrow> bool" where
  "route_laws E us fm fd \<longleftrightarrow>
     hash_laws E \<and> zmalloc_law E \<and> fba_laws E us \<and> fib_laws E fm fd \<and> \<not> rte_assert_on E"

lemma route_lawsD:
  assumes "route_laws E us fm fd"
  shows "hash_laws E" "zmalloc_law E" "fba_laws E us" "fib_laws E fm fd" "\<not> rte_assert_on E"
  using assms by (auto simp: route_laws_def)

lemma route_core_cong:
  assumes "rib_map E s' = rib_map E s" "rib_live us s' = rib_live us s" "nhop_mem s' = nhop_mem s"
    "\<And>w. fm (fib (vrf_dp_of s' w)) = fm (fib (vrf_dp_of s w))"
    "\<And>w. rib_cnt (vrf_dp_of s' w) = rib_cnt (vrf_dp_of s w)"
    "\<And>w. vrf_id (vrf_dp_of s' w) = vrf_id (vrf_dp_of s w)"
    "us (fib_res_used s') = us (fib_res_used s)" "f_res_blackhole s' = f_res_blackhole s"
  shows "route_core E us fm s' = route_core E us fm s"
  unfolding route_core_def by (simp only: assms)

lemma routes_cong:
  assumes "rib_map E s' = rib_map E s" "rib_live us s' = rib_live us s" "nhop_mem s' = nhop_mem s"
  shows "routes E us s' = routes E us s"
  unfolding routes_def ribs_def fun_eq_iff by (simp only: assms) simp

lemma keeps_routes_live: "keeps_routes s s' \<Longrightarrow> rib_live us s' = rib_live us s"
  by (simp add: rib_live_def fun_eq_iff keeps_routes_def)

lemma keeps_routes_rib: "keeps_routes s s' \<Longrightarrow> rib_map E s' = rib_map E s"
  by (simp add: rib_map_def keeps_routes_def)

lemma route_core_keeps:
  assumes "keeps_routes s s'" "nhop_mem s' = nhop_mem s"
  shows "route_core E us fm s' = route_core E us fm s" "routes E us s' = routes E us s"
  using assms keeps_routes_live [OF assms(1)] keeps_routes_rib [OF assms(1)]
  by (intro route_core_cong routes_cong; simp add: keeps_routes_def)+

lemma route_coreD:
  assumes "route_core E us fm s"
  shows core_ok: "routes_ok (rib_map E s) (rib_live us s) (nhop_mem s) (\<lambda>w. fm (fib (vrf_dp_of s w)))
       (\<lambda>w. rib_cnt (vrf_dp_of s w))"
    and core_used: "us (fib_res_used s) \<subseteq> {0..<FIB_RES_LEN}" "f_res_blackhole s \<in> us (fib_res_used s)"
    and core_ids: "w < nat SHC_NR_VRF \<Longrightarrow> vrf_id (vrf_dp_of s w) = of_nat w + 1"
  using assms by (auto simp: route_core_def)

text \<open>A prefix in the table: its index is in the array, its result in use, its next hop live.\<close>

lemma route_presentE:
  assumes "route_core E us fm s" "rib_map E s k = Some i"
  obtains r p f pfx w where "rib_live us s i = Some r" "fib_res_mem s i = r" "fib_res_get s i = Some r"
    "ribs E us s k = Some r" "mpath r = [p]" "nhop_mem s p = Some f" "mpath_cnt r = 1"
    "mpath_max r = (if fib_res_rtype_get r = RT_MROUTE then MROUTE_MAX_ECMP else ROUTE_MAX_ECMP)"
    "0 \<le> i" "i < FIB_RES_LEN" "i \<noteq> f_res_blackhole s" "k = rib_tbl_key pfx" "canon_prefix w pfx"
    "routes E us s k = Some (nhop_key_of f, fib_res_rtype_get r)"
proof -
  from obj_liveE [OF routes_table [OF core_ok [OF assms(1)]] assms(2)] obtain r where
    r: "rib_live us s i = Some r" "route_key_ok k" "res_ok (nhop_mem s) r"
      "obj_view (rib_map E s) (rib_live us s) k = Some r" by blast
  then obtain p f where p: "mpath r = [p]" "nhop_mem s p = Some f" by (auto simp: res_ok_def)
  obtain pfx w where pfx: "k = rib_tbl_key pfx" "canon_prefix w pfx" using r(2) by (auto simp: route_key_ok_def)
  have i: "i \<in> us (fib_res_used s)" "i \<noteq> f_res_blackhole s" "fib_res_mem s i = r"
    using r(1) by (auto simp: rib_live_def split: if_splits)
  then have bounds: "0 \<le> i" "i < FIB_RES_LEN" using core_used(1) [OF assms(1)] by auto
  have max: "mpath_max r = (if fib_res_rtype_get r = RT_MROUTE then MROUTE_MAX_ECMP else ROUTE_MAX_ECMP)"
    using r(3) by (auto simp: res_ok_def fib_res_rtype_get_def FRF_MROUTE_def)
  show thesis
    using r p pfx i bounds max
    by (intro that [of r p f pfx w]) (auto simp: ribs_def routes_def fib_res_get_def res_ok_def)
qed

lemma routes_None_iff:
  "route_core E us fm s \<Longrightarrow> routes E us s k = None \<longleftrightarrow> rib_map E s k = None"
  by (cases "rib_map E s k") (auto simp: routes_def ribs_def obj_view_def elim: route_presentE)

text \<open>There are at most as many routes as the array has entries, so no reference count overflows.\<close>

lemma rib_card:
  assumes "route_core E us fm s"
  shows "card (dom (rib_map E s)) \<le> nat FIB_RES_LEN"
proof -
  have "inj_on (\<lambda>k. the (rib_map E s k)) (dom (rib_map E s))"
    using obj_inj [OF routes_table [OF core_ok [OF assms]]] by (fastforce simp: inj_on_def)
  moreover have "(\<lambda>k. the (rib_map E s k)) ` dom (rib_map E s) \<subseteq> {0..<FIB_RES_LEN}"
    by (auto elim: route_presentE [OF assms])
  ultimately have "card (dom (rib_map E s)) \<le> card {0..<FIB_RES_LEN}"
    by (rule card_inj_on_le) simp
  then show ?thesis by simp
qed

lemma nhop_refs_small:
  assumes "route_core E us fm s" shows "nhop_refs (nhop_mem s) p < 2 ^ 32 - 1"
proof -
  have "nhop_refs (nhop_mem s) p \<le> card (dom (rib_map E s))"
    using routes_refs_eq [OF core_ok [OF assms], of p]
      card_mono [OF routes_finite [OF core_ok [OF assms]] hop_users_sub] by simp
  also have "\<dots> \<le> nat FIB_RES_LEN" by (rule rib_card [OF assms])
  finally show ?thesis by (simp add: FIB_RES_LEN_def SHC_NR_FIB_RES_ALL_def)
qed

text \<open>Taking a next hop and giving it back at once leaves the next hops as they were.\<close>

lemma nhop_create_delete:
  assumes "hash_laws E" "\<not> rte_assert_on E" "nhop_inv E s"
    and post: "nhop_create_post E d s (r, Some p, s1)" "\<not> r < 0"
    and s2: "nhop_inv E s2" "neigh_inv E s2" "nhop_mem s2 = nhop_mem s1"
  shows "\<exists>s3. nhop_obj_delete E v p s2 = Some (0, s3) \<and> nhop_inv E s3 \<and> neigh_inv E s3 \<and>
    keeps_routes s2 s3 \<and> nhop_mem s3 = nhop_mem s"
proof -
  obtain f where f: "nhop_mem s1 = (nhop_mem s)(p \<mapsto> f)" "unat (nh_ref_count f) = nhop_refs (nhop_mem s) p + 1"
    "case nhop_mem s p of None \<Rightarrow> True | Some g \<Rightarrow> f = g\<lparr>nh_ref_count := nh_ref_count g + 1\<rparr>"
    using post by (auto simp: nhop_create_post_def)
  have "nhop_mem s2 p = Some f" using s2(3) f(1) by simp
  from nhop_obj_delete_spec [OF assms(1,2) s2(1,2) this, of v] obtain s3 where
    s3: "nhop_obj_delete E v p s2 = Some (0, s3)" "nhop_inv E s3" "neigh_inv E s3" "keeps_routes s2 s3"
      "nhop_mem s3 = (if unat (nh_ref_count f) = 1 then (nhop_mem s2)(p := None)
                   else (nhop_mem s2)(p \<mapsto> f\<lparr>nh_ref_count := nh_ref_count f - 1\<rparr>))" by blast
  have "nhop_mem s3 = nhop_mem s"
  proof (cases "nhop_mem s p")
    case None
    then show ?thesis using s3(5) s2(3) f by (simp add: nhop_refs_def fun_upd_idem)
  next
    case (Some g)
    have "0 < nh_ref_count g" using obj_noleak [OF assms(3) [unfolded nhop_inv_def]]
      obj_live [OF assms(3) [unfolded nhop_inv_def]] Some by fastforce
    then have "unat (nh_ref_count f) \<noteq> 1" using f(2) Some by (simp add: nhop_refs_def word_less_nat_alt)
    then show ?thesis using s3(5) s2(3) f Some by (simp add: fun_upd_idem)
  qed
  with s3 show ?thesis by blast
qed

section \<open>Insertion\<close>

lemma res_of_simps [simp]:
  "mpath (res_of old f p t lpm) = [p]" "mpath_cnt (res_of old f p t lpm) = 1"
  by (simp_all add: res_of_def)

lemma res_of_ok:
  "t = RT_DEFAULT \<or> t = RT_MROUTE \<Longrightarrow> M p \<noteq> None \<Longrightarrow> res_ok M (res_of old f p t lpm)"
  by (auto simp: res_ok_def res_of_def)

lemma res_of_rtype: "t = RT_DEFAULT \<or> t = RT_MROUTE \<Longrightarrow> fib_res_rtype_get (res_of old f p t lpm) = t"
  by (auto simp: fib_res_rtype_get_def res_of_def FRF_MROUTE_def)

lemma rt_prefix_type_get_single:
  assumes "fib_res_get s i = Some r" "mpath r = [p]" "nhop_mem s p \<noteq> None"
  shows "\<exists>t. rt_prefix_type_get E pfx i s = Some t"
  using assms by (auto simp: rt_prefix_type_get_def mpath_nhop_def mpath_get_def)

text \<open>A new prefix in both tables, or in neither.\<close>

lemma rt_prefix_obj_update_new:
  assumes laws: "hash_laws E" "fib_laws E fm fd" and k: "k = rib_tbl_key pfx" "canon_prefix v pfx"
    "rib_map E s k = None"
    and i: "fib_res_get s i = Some r" "mpath r = [p]" "nhop_mem s p \<noteq> None"
  obtains (full) f h where
      "rt_prefix_obj_update E v pfx (-1) i s =
         Some (SHC_ROUTE_PREFIX_NOSPACE, dp_upd v (\<lambda>d. d\<lparr>fib := f\<rparr>) (s\<lparr>rib_tbl := h\<rparr>))"
      "rte_hash_lookup_data E h = rib_map E s" "fm f = fm (fib (vrf_dp_of s v))"
  | (new) f h where
      "rt_prefix_obj_update E v pfx (-1) i s =
         Some (0, dp_upd v (\<lambda>d. d\<lparr>fib := f, rib_cnt := rib_cnt d + 1\<rparr>) (s\<lparr>rib_tbl := h\<rparr>))"
      "rte_hash_lookup_data E h = (rib_map E s)(k \<mapsto> i)"
      "fm f = (fm (fib (vrf_dp_of s v)))(net_of pfx \<mapsto> i)"
proof -
  obtain t where t: "rt_prefix_type_get E pfx i s = Some t" using rt_prefix_type_get_single [OF i] by blast
  define a where "a = rte_hash_add_key_data E (rib_tbl s) (rib_tbl_key pfx) i"
  define b where "b = rte_fib_add E (fib (vrf_dp_of s v)) (rte_be_to_cpu_32 (rk_prefix4 pfx)) (rk_prefixlen pfx) i"
  have a: "rte_hash_lookup_data E (snd a) = (if fst a < 0 then rib_map E s else (rib_map E s)(k \<mapsto> i))"
    by (simp add: a_def hash_add [OF laws(1)] rib_map_def k(1))
  have b: "fm (snd b) = (if fst b = 0 then (fm (fib (vrf_dp_of s v)))(net_of pfx \<mapsto> i) else fm (fib (vrf_dp_of s v)))"
    by (simp add: b_def fib_add [OF laws(2)] canon_prefix_net [OF k(2)])
  have run: "rt_prefix_obj_update E v pfx (-1) i s =
      (if fst a < 0 then Some (SHC_ROUTE_PREFIX_NOSPACE, s\<lparr>rib_tbl := snd a\<rparr>)
       else if fst b \<noteq> 0 then Some (SHC_ROUTE_PREFIX_NOSPACE, dp_upd v (\<lambda>d. d\<lparr>fib := snd b\<rparr>)
              (s\<lparr>rib_tbl := snd (rte_hash_del_key E (snd a) k)\<rparr>))
       else Some (0, dp_upd v (\<lambda>d. d\<lparr>fib := snd b, rib_cnt := rib_cnt d + 1\<rparr>) (s\<lparr>rib_tbl := snd a\<rparr>)))"
    by (simp add: rt_prefix_obj_update_def t a_def b_def k(1) case_prod_unfold Let_def dp_upd_def)
  consider "fst a < 0" | "\<not> fst a < 0" "fst b \<noteq> 0" | "\<not> fst a < 0" "fst b = 0" by blast
  then show thesis
  proof cases
    case 1
    show thesis
      by (rule full [of "fib (vrf_dp_of s v)" "snd a"])
         (use 1 a in \<open>simp_all add: run dp_upd_def fun_upd_idem\<close>)
  next
    case 2
    show thesis
      by (rule full [of "snd b" "snd (rte_hash_del_key E (snd a) k)"])
         (use 2 a b k(3) in \<open>simp_all add: run hash_del [OF laws(1)] fun_upd_idem\<close>)
  next
    case 3
    show thesis by (rule new [of "snd b" "snd a"]) (use 3 a b in \<open>simp_all add: run\<close>)
  qed
qed

text \<open>The tables with one more route: what \<open>shc_route_nhop_insert\<close> ends in.\<close>

lemma route_core_insert:
  assumes core: "route_core E us fm s" and k: "k = rib_tbl_key pfx" "canon_prefix v pfx" "rib_map E s k = None"
    and i: "0 \<le> i" "i < FIB_RES_LEN" "i \<notin> us (fib_res_used s)" and t: "t = RT_DEFAULT \<or> t = RT_MROUTE"
    and f: "unat (nh_ref_count f) = nhop_refs (nhop_mem s) p + 1"
      "case nhop_mem s p of None \<Rightarrow> True | Some g \<Rightarrow> f = g\<lparr>nh_ref_count := nh_ref_count g + 1\<rparr>"
    and s': "rib_map E s' = (rib_map E s)(k \<mapsto> i)" "us (fib_res_used s') = insert i (us (fib_res_used s))"
      "fib_res_mem s' = (fib_res_mem s)(i := res_of old f p t lpm)" "f_res_blackhole s' = f_res_blackhole s"
      "nhop_mem s' = (nhop_mem s)(p \<mapsto> f)"
    and dp: "\<And>w. fm (fib (vrf_dp_of s' w)) =
        (if w = v then (fm (fib (vrf_dp_of s v)))(net_of pfx \<mapsto> i) else fm (fib (vrf_dp_of s w)))"
      "\<And>w. rib_cnt (vrf_dp_of s' w) = (if w = v then rib_cnt (vrf_dp_of s v) + 1 else rib_cnt (vrf_dp_of s w))"
      "\<And>w. vrf_id (vrf_dp_of s' w) = vrf_id (vrf_dp_of s w)"
  shows "route_core E us fm s'" and "routes E us s' = (routes E us s)(k \<mapsto> (nhop_key_of f, t))"
proof -
  define res where "res = res_of old f p t lpm"
  have ibh: "i \<noteq> f_res_blackhole s" using core_used(2) [OF core] i(3) by blast
  have live': "rib_live us s' = (rib_live us s)(i \<mapsto> res)"
    using ibh s' by (auto simp: rib_live_def fun_eq_iff res_def)
  have fib': "(\<lambda>w. fm (fib (vrf_dp_of s' w))) =
      (\<lambda>w. fm (fib (vrf_dp_of s w)))(v := (fm (fib (vrf_dp_of s v)))(net_of pfx \<mapsto> i))"
    and cnt': "(\<lambda>w. rib_cnt (vrf_dp_of s' w)) = (\<lambda>w. rib_cnt (vrf_dp_of s w))(v := rib_cnt (vrf_dp_of s v) + 1)"
    using dp(1,2) by (simp_all add: fun_eq_iff)
  have "rib_live us s i = None" using i(3) by (simp add: rib_live_def)
  moreover have "res_ok ((nhop_mem s)(p \<mapsto> f)) res" unfolding res_def by (rule res_of_ok [OF t]) simp
  moreover have "mpath res = [p]" by (simp add: res_def)
  ultimately have ok: "routes_ok (rib_map E s') (rib_live us s') (nhop_mem s') (\<lambda>w. fm (fib (vrf_dp_of s' w)))
      (\<lambda>w. rib_cnt (vrf_dp_of s' w))" and ribs': "ribs E us s' = (ribs E us s)(k \<mapsto> res)"
    unfolding s'(1,5) live' fib' cnt' ribs_def
    using routes_ok_insert [OF core_ok [OF core] k _ f(1)] by blast+
  show "route_core E us fm s'"
    unfolding route_core_def
    using ok core_used [OF core] core_ids [OF core] i(1,2) s'(2,4) dp(3) by auto
  have same: "map_option nhop_key_of (nhop_mem s' q) = map_option nhop_key_of (nhop_mem s q)"
    if "nhop_mem s q \<noteq> None" for q
    using that f(2) s'(5) by (cases "q = p") (auto simp: nhop_key_of_def)
  have live: "nhop_mem s (hd (mpath r')) \<noteq> None" if "ribs E us s k' = Some r'" for k' r'
    using obj_view_SomeD [OF routes_table [OF core_ok [OF core]]] that
    by (fastforce simp: ribs_def res_ok_def)
  show "routes E us s' = (routes E us s)(k \<mapsto> (nhop_key_of f, t))"
  proof
    fix k' show "routes E us s' k' = ((routes E us s)(k \<mapsto> (nhop_key_of f, t))) k'"
    proof (cases "k' = k")
      case True
      then show ?thesis
        using ribs' s'(5) res_of_rtype [OF t] by (simp add: routes_def res_def)
    next
      case False
      then show ?thesis
        using ribs' same live [of k'] by (fastforce simp: routes_def split: option.splits)
    qed
  qed
qed

text \<open>Inserting a prefix that is not in the table.\<close>

lemma route_nhop_insert_new_spec:
  assumes laws: "route_laws E us fm fd" and inv: "route_inv E us fm s"
    and k: "k = rib_tbl_key pfx" "canon_prefix v pfx" "rib_map E s k = None"
    and t: "t = RT_DEFAULT \<or> t = RT_MROUTE"
    and room: "neigh_refs E s (neigh_key (vrf_id (vrf_dp_of s v)) (nk_gateway d)) < 2 ^ 32 - 1"
  shows "\<exists>r s'. route_nhop_insert_new E v pfx d t None s = Some (r, s') \<and> route_inv E us fm s' \<and>
    (r = 0 \<and> routes E us s' = (routes E us s)(k \<mapsto> (d, t)) \<or> r < 0 \<and> routes E us s' = routes E us s)"
proof -
  note L = route_lawsD [OF laws]
  have core: "route_core E us fm s" and ninv: "nhop_inv E s" and neinv: "neigh_inv E s"
    using inv by (auto simp: route_inv_def)
  obtain r po s1 where create: "nhop_obj_create E v d s = Some (r, po, s1)"
    and post: "nhop_create_post E d s (r, po, s1)"
    using nhop_obj_create_spec [OF L(1,2,5) ninv neinv room nhop_refs_small [OF core]] by fastforce
  have inv1: "nhop_inv E s1" "neigh_inv E s1" "keeps_routes s s1" using post by (auto simp: nhop_create_post_def)
  show ?thesis
  proof (cases "r < 0")
    case True
    then have "nhop_mem s1 = nhop_mem s" using post by (simp add: nhop_create_post_def)
    with route_core_keeps [OF inv1(3)] core inv1 True create show ?thesis
      by (simp add: route_nhop_insert_new_def route_inv_def)
  next
    case False
    then obtain p f where po: "po = Some p" and f: "nhop_key_of f = d" "nhop_mem s1 = (nhop_mem s)(p \<mapsto> f)"
      "unat (nh_ref_count f) = nhop_refs (nhop_mem s) p + 1"
      "case nhop_mem s p of None \<Rightarrow> True | Some g \<Rightarrow> f = g\<lparr>nh_ref_count := nh_ref_count g + 1\<rparr>"
      using post by (auto simp: nhop_create_post_def)
    note undo = nhop_create_delete [OF L(1,5) ninv post [unfolded po] False]
    note keep = inv1(3) [unfolded keeps_routes_def]
    show ?thesis
    proof (cases rule: fib_res_obj_create_spec [OF L(3,5), of s1 p f t "lpm_em_of pfx", case_names live type full new])
      case live
      show ?case using f(2) by simp
    next
      case type
      show ?case by (rule t)
    next
      case full
      obtain s3 where s3: "nhop_obj_delete E v p s1 = Some (0, s3)" "nhop_inv E s3" "neigh_inv E s3"
        "keeps_routes s1 s3" "nhop_mem s3 = nhop_mem s" using undo [OF inv1(1,2) refl] by blast
      have "route_core E us fm s3" "routes E us s3 = routes E us s"
        using route_core_keeps [OF keeps_routes_trans [OF inv1(3) s3(4)] s3(5)] core by simp_all
      then show ?thesis
        using create False po full s3 by (simp add: route_nhop_insert_new_def route_inv_def const_defs)
    next
      case (new i used)
      define res where "res = res_of (fib_res_mem s1 i) f p t (lpm_em_of pfx)"
      define s2 where "s2 = s1\<lparr>fib_res_used := used, fib_res_mem := (fib_res_mem s1)(i := res)\<rparr>"
      have i: "i \<notin> us (fib_res_used s)" "us used = insert i (us (fib_res_used s))" using new(3,4) keep by simp_all
      then have ibh: "i \<noteq> f_res_blackhole s" using core_used(2) [OF core] by blast
      have s2: "nhop_inv E s2" "neigh_inv E s2" "nhop_mem s2 = nhop_mem s1" "rib_map E s2 = rib_map E s"
        using inv1 keep by (simp_all add: s2_def nhop_inv_def neigh_inv_def rib_map_def)
      have get: "fib_res_get s2 i = Some res" using new(1,2) by (simp add: fib_res_get_def s2_def)
      have hop: "nhop_mem s2 p \<noteq> None" using s2(3) f(2) by simp
      have dp: "fib (vrf_dp_of s2 w) = fib (vrf_dp_of s w)" "rib_cnt (vrf_dp_of s2 w) = rib_cnt (vrf_dp_of s w)"
        "vrf_id (vrf_dp_of s2 w) = vrf_id (vrf_dp_of s w)" for w
        using keep by (simp_all add: s2_def)
      have mid: "route_nhop_insert_new E v pfx d t None s = do {
          (ret, s3) \<leftarrow> rt_prefix_obj_update E v pfx (-1) i s2;
          if ret < 0 then do {
            (_, s4) \<leftarrow> fib_res_obj_delete E i s3;
            (_, s5) \<leftarrow> nhop_obj_delete E v p s4;
            Some (ret, s5)
          } else Some (ret, s3) }"
        using create False po new(1,5) by (simp add: route_nhop_insert_new_def s2_def res_def cong: if_cong)
      have none: "rib_map E s2 k = None" using s2(4) k(3) by simp
      have res: "mpath res = [p]" by (simp add: res_def)
      show ?thesis
      proof (cases rule: rt_prefix_obj_update_new [OF L(1,4) k(1,2) none get res hop, case_names full new])
        case (full f' h)
        define s3 where "s3 = dp_upd v (\<lambda>d. d\<lparr>fib := f'\<rparr>) (s2\<lparr>rib_tbl := h\<rparr>)"
        obtain used' where used': "us used' = us (fib_res_used s3) - {i}"
          "fib_res_obj_delete E i s3 = Some (0, s3\<lparr>fib_res_used := used'\<rparr>)"
          using fib_res_obj_delete_spec [OF L(3) new(1,2)] by blast
        define s4 where "s4 = s3\<lparr>fib_res_used := used'\<rparr>"
        have s4: "nhop_inv E s4" "neigh_inv E s4" "nhop_mem s4 = nhop_mem s1"
          using s2 by (simp_all add: s4_def s3_def nhop_inv_def neigh_inv_def)
        obtain s5 where s5: "nhop_obj_delete E v p s4 = Some (0, s5)" "nhop_inv E s5" "neigh_inv E s5"
          "keeps_routes s4 s5" "nhop_mem s5 = nhop_mem s" using undo [OF s4] by blast
        note keep5 = s5(4) [unfolded keeps_routes_def]
        have used5: "us (fib_res_used s5) = us (fib_res_used s)"
          using keep5 used'(1) i by (auto simp: s4_def s3_def s2_def)
        have bh5: "f_res_blackhole s5 = f_res_blackhole s" using keep keep5 by (simp add: s4_def s3_def s2_def)
        have mem5: "fib_res_mem s5 j = fib_res_mem s j" if "j \<noteq> i" for j
          using keep keep5 that by (simp add: s4_def s3_def s2_def)
        have live5: "rib_live us s5 = rib_live us s"
        proof
          fix j show "rib_live us s5 j = rib_live us s j"
            using used5 bh5 mem5 [of j] i(1) by (cases "j = i") (auto simp: rib_live_def)
        qed
        have rib5: "rib_map E s5 = rib_map E s"
          using keep5 full(2) s2(4) by (simp add: rib_map_def s4_def s3_def)
        have "route_core E us fm s5 = route_core E us fm s"
          by (rule route_core_cong [OF rib5 live5 s5(5) _ _ _ used5 bh5])
             (use keep5 full(3) dp in \<open>simp_all add: s4_def s3_def\<close>)
        moreover have "routes E us s5 = routes E us s" by (rule routes_cong [OF rib5 live5 s5(5)])
        ultimately show ?thesis
          using mid full(1) used'(2) s5 core
          by (simp add: s3_def [symmetric] s4_def [symmetric] route_inv_def const_defs)
      next
        case prefix: (new f' h)
        define s3 where "s3 = dp_upd v (\<lambda>d. d\<lparr>fib := f', rib_cnt := rib_cnt d + 1\<rparr>) (s2\<lparr>rib_tbl := h\<rparr>)"
        have rib3: "rib_map E s3 = (rib_map E s)(k \<mapsto> i)" using prefix(2) s2(4) by (simp add: s3_def rib_map_def)
        have res3: "fib_res_mem s3 = (fib_res_mem s)(i := res_of (fib_res_mem s1 i) f p t (lpm_em_of pfx))"
          using keep by (simp add: s3_def s2_def res_def)
        have oth3: "us (fib_res_used s3) = insert i (us (fib_res_used s))" "f_res_blackhole s3 = f_res_blackhole s"
          "nhop_mem s3 = (nhop_mem s)(p \<mapsto> f)"
          using i(2) keep s2(3) f(2) by (simp_all add: s3_def s2_def)
        have dp3: "fm (fib (vrf_dp_of s3 w)) =
            (if w = v then (fm (fib (vrf_dp_of s v)))(net_of pfx \<mapsto> i) else fm (fib (vrf_dp_of s w)))"
          "rib_cnt (vrf_dp_of s3 w) = (if w = v then rib_cnt (vrf_dp_of s v) + 1 else rib_cnt (vrf_dp_of s w))"
          "vrf_id (vrf_dp_of s3 w) = vrf_id (vrf_dp_of s w)" for w
          using prefix(3) dp by (simp_all add: s3_def)
        note ins = route_core_insert [OF core k new(1,2) i(1) t f(3,4) rib3 oth3(1) res3 oth3(2,3) dp3]
        have "nhop_inv E s3" "neigh_inv E s3" using s2 by (simp_all add: s3_def nhop_inv_def neigh_inv_def)
        then show ?thesis
          using mid prefix(1) f(1) ins by (simp add: s3_def [symmetric] route_inv_def)
      qed
    qed
  qed
qed

text \<open>
  The present result decides what an insertion does with a prefix that is in the table: a route of
  the other type is refused, an ordinary route has room for one next hop only, and a multicast
  route takes the same next hop again.
\<close>

lemma shc_route_nhop_insert_present:
  assumes inv: "route_core E us fm s" and k: "rib_map E s (rib_tbl_key pfx) = Some i"
    and v: "routes E us s (rib_tbl_key pfx) = Some (d0, t0)"
  shows "t0 \<noteq> t \<Longrightarrow> shc_route_nhop_insert E v pfx d t s = Some (SHC_IPV4_ROUTETYPE_NO_SAME, s)"
    and "t0 = t \<Longrightarrow> t = RT_DEFAULT \<Longrightarrow>
      shc_route_nhop_insert E v pfx d t s = Some (SHC_ROUTE_NEXTHOP_ECMP_NOSPACE, s)"
proof -
  from route_presentE [OF inv k] obtain r where r: "fib_res_get s i = Some r" "mpath_cnt r = 1"
    "mpath_max r = (if fib_res_rtype_get r = RT_MROUTE then MROUTE_MAX_ECMP else ROUTE_MAX_ECMP)"
    "fib_res_rtype_get r = t0" using v by (metis option.inject prod.inject)
  then show "t0 \<noteq> t \<Longrightarrow> shc_route_nhop_insert E v pfx d t s = Some (SHC_IPV4_ROUTETYPE_NO_SAME, s)"
    and "t0 = t \<Longrightarrow> t = RT_DEFAULT \<Longrightarrow>
      shc_route_nhop_insert E v pfx d t s = Some (SHC_ROUTE_NEXTHOP_ECMP_NOSPACE, s)"
    using k by (auto simp: shc_route_nhop_insert_def rib_map_def fib_res_mpath_nospace_def ROUTE_MAX_ECMP_def)
qed

section \<open>Deletion\<close>

text \<open>The three steps of a deletion, in the order both functions take them.\<close>

lemma route_delete_steps:
  assumes laws: "route_laws E us fm fd" and inv: "route_inv E us fm s"
    and k: "k = rib_tbl_key pfx" "canon_prefix v pfx" "rib_map E s k = Some i"
    and r: "rib_live us s i = Some r" "mpath r = [p]" "nhop_mem s p = Some f"
  shows "\<exists>ret s1 s2 s3. rt_prefix_obj_delete E v pfx i s = Some (ret, s1) \<and>
    fib_res_obj_delete E i s1 = Some (0, s2) \<and> nhop_obj_delete E v p s2 = Some (0, s3) \<and>
    route_inv E us fm s3 \<and> routes E us s3 = (routes E us s)(k := None) \<and>
    rib_tbl s3 = snd (rte_hash_del_key E (rib_tbl s) k)"
proof -
  note L = route_lawsD [OF laws]
  have core: "route_core E us fm s" and ninv: "nhop_inv E s" and neinv: "neigh_inv E s"
    using inv by (auto simp: route_inv_def)
  obtain i: "0 \<le> i" "i < FIB_RES_LEN" "i \<noteq> f_res_blackhole s" "fib_res_get s i = Some r"
    using route_presentE [OF core k(3)] r(1) by (metis option.inject)
  define f' where "f' = snd (rte_fib_delete E (fib (vrf_dp_of s v)) (rte_be_to_cpu_32 (rk_prefix4 pfx)) (rk_prefixlen pfx))"
  define h where "h = snd (rte_hash_del_key E (rib_tbl s) k)"
  define s1 where "s1 = dp_upd v (\<lambda>d. d\<lparr>fib := f', rib_cnt := rib_cnt d - 1\<rparr>) (s\<lparr>rib_tbl := h\<rparr>)"
  obtain t where "rt_prefix_type_get E pfx i s = Some t"
    using rt_prefix_type_get_single [OF i(4) r(2)] r(3) by fastforce
  then have step1: "rt_prefix_obj_delete E v pfx i s = Some (fst (rte_hash_del_key E (rib_tbl s) k), s1)"
    using L(5) k(1) by (simp add: rt_prefix_obj_delete_def s1_def h_def f'_def case_prod_unfold Let_def)
  obtain used where used: "us used = us (fib_res_used s1) - {i}"
    "fib_res_obj_delete E i s1 = Some (0, s1\<lparr>fib_res_used := used\<rparr>)"
    using fib_res_obj_delete_spec [OF L(3) i(1,2)] by blast
  define s2 where "s2 = s1\<lparr>fib_res_used := used\<rparr>"
  have s2: "nhop_inv E s2" "neigh_inv E s2" "nhop_mem s2 p = Some f" "nhop_mem s2 = nhop_mem s"
    using ninv neinv r(3) by (simp_all add: s2_def s1_def nhop_inv_def neigh_inv_def)
  from nhop_obj_delete_spec [OF L(1,5) s2(1-3), of v] obtain s3 where
    s3: "nhop_obj_delete E v p s2 = Some (0, s3)" "nhop_inv E s3" "neigh_inv E s3" "keeps_routes s2 s3"
      "nhop_mem s3 = nhop_drop (nhop_mem s) p f" by (auto simp: nhop_drop_def s2(4))
  note keep = s3(4) [unfolded keeps_routes_def]
  have rib3: "rib_map E s3 = (rib_map E s)(k := None)"
    using keep by (simp add: rib_map_def s2_def s1_def h_def hash_del [OF L(1)])
  have used3: "us (fib_res_used s3) = us (fib_res_used s) - {i}" "f_res_blackhole s3 = f_res_blackhole s"
    "fib_res_mem s3 = fib_res_mem s"
    using keep used(1) by (simp_all add: s2_def s1_def)
  have live3: "rib_live us s3 = (rib_live us s)(i := None)"
    by (auto simp: rib_live_def fun_eq_iff used3)
  have "fm f' = (fm (fib (vrf_dp_of s v)))(net_of pfx := None)"
    by (simp add: f'_def fib_delete [OF L(4)] canon_prefix_net [OF k(2)])
  then have fib3: "(\<lambda>w. fm (fib (vrf_dp_of s3 w))) =
      (\<lambda>w. fm (fib (vrf_dp_of s w)))(v := (fm (fib (vrf_dp_of s v)))(net_of pfx := None))"
    and cnt3: "(\<lambda>w. rib_cnt (vrf_dp_of s3 w)) = (\<lambda>w. rib_cnt (vrf_dp_of s w))(v := rib_cnt (vrf_dp_of s v) - 1)"
    using keep by (simp_all add: fun_eq_iff s2_def s1_def)
  note del = routes_ok_delete [OF core_ok [OF core] k r]
  have "route_core E us fm s3"
    unfolding route_core_def rib3 live3 s3(5) fib3 cnt3
    using del(1) core_used [OF core] core_ids [OF core] used3 i(3) keep
    by (auto simp: s2_def s1_def)
  moreover have "routes E us s3 = (routes E us s)(k := None)"
  proof
    fix k' show "routes E us s3 k' = ((routes E us s)(k := None)) k'"
    proof (cases "k' = k \<or> ribs E us s k' = None")
      case True
      then show ?thesis using del(2) by (auto simp: routes_def ribs_def rib3 live3)
    next
      case False
      then obtain r' where r': "ribs E us s k' = Some r'" "k' \<noteq> k" by auto
      then have "ribs E us s3 k' = Some r'" using del(2) by (simp add: ribs_def rib3 live3)
      moreover have "res_ok (nhop_mem s3) r'"
        using obj_view_SomeD [OF routes_table [OF core_ok [OF \<open>route_core E us fm s3\<close>]]] calculation
        by (auto simp: ribs_def)
      ultimately show ?thesis
        using r' s3(5) r(3) by (auto simp: routes_def res_ok_def nhop_drop_def nhop_key_of_def split: if_splits)
    qed
  qed
  moreover have "rib_tbl s3 = snd (rte_hash_del_key E (rib_tbl s) k)"
    using keep by (simp add: s2_def s1_def h_def)
  ultimately show ?thesis using step1 used(2) s3 by (auto simp: s2_def route_inv_def)
qed

lemma shc_route_delete_present:
  assumes laws: "route_laws E us fm fd" and inv: "route_inv E us fm s"
    and k: "k = rib_tbl_key pfx" "canon_prefix v pfx" "rib_map E s k = Some i"
  shows "\<exists>s'. shc_route_delete E v pfx s = Some (0, s') \<and> route_inv E us fm s' \<and>
    routes E us s' = (routes E us s)(k := None) \<and> rib_tbl s' = snd (rte_hash_del_key E (rib_tbl s) k)"
proof -
  have core: "route_core E us fm s" using inv by (auto simp: route_inv_def)
  from route_presentE [OF core k(3)] obtain r p f where r: "rib_live us s i = Some r" "fib_res_get s i = Some r"
    "mpath r = [p]" "nhop_mem s p = Some f" "mpath_cnt r = 1" by metis
  from route_delete_steps [OF laws inv k r(1,3,4)] obtain ret s1 s2 s3 where
    "rt_prefix_obj_delete E v pfx i s = Some (ret, s1)" "fib_res_obj_delete E i s1 = Some (0, s2)"
    "nhop_obj_delete E v p s2 = Some (0, s3)" "route_inv E us fm s3" "routes E us s3 = (routes E us s)(k := None)"
    "rib_tbl s3 = snd (rte_hash_del_key E (rib_tbl s) k)"
    by blast
  then show ?thesis
    using r k(1,3) route_lawsD(5) [OF laws]
    by (simp add: shc_route_delete_def rib_map_def mpath_get_def)
qed

lemma shc_route_nhop_delete_present:
  assumes laws: "route_laws E us fm fd" and inv: "route_inv E us fm s"
    and k: "k = rib_tbl_key pfx" "canon_prefix v pfx" "routes E us s k = Some (d0, t0)"
  shows "\<exists>r s'. shc_route_nhop_delete E v pfx d t s = Some (r, s') \<and> route_inv E us fm s' \<and>
    (if t0 \<noteq> t then r = SHC_IPV4_ROUTETYPE_NO_SAME \<and> s' = s
     else if d0 \<noteq> d then r = 0 \<and> s' = s
     else r = 0 \<and> routes E us s' = (routes E us s)(k := None))"
proof -
  have core: "route_core E us fm s" and ninv: "nhop_inv E s" using inv by (auto simp: route_inv_def)
  obtain i where i: "rib_map E s k = Some i" using k(3) routes_None_iff [OF core, of k] by auto
  from route_presentE [OF core i] obtain r p f where r: "rib_live us s i = Some r" "fib_res_get s i = Some r"
    "mpath r = [p]" "nhop_mem s p = Some f" "mpath_cnt r = 1" "nhop_key_of f = d0" "fib_res_rtype_get r = t0"
    using k(3) by (metis option.inject prod.inject)
  note tab = ninv [unfolded nhop_inv_def]
  obtain kp where kp: "rte_hash_lookup_data E (nhop_tbl s) kp = Some p" using obj_noleak [OF tab] r(4) by blast
  then have key: "rte_hash_lookup_data E (nhop_tbl s) (nhop_tbl_key d0) = Some p"
    using obj_live [OF tab kp] r(4,6) by auto
  have other: "rte_hash_lookup_data E (nhop_tbl s) (nhop_tbl_key d) = Some q \<Longrightarrow> q = p \<longleftrightarrow> d = d0" for q
    using obj_inj [OF tab key, of "nhop_tbl_key d"] key by (auto simp: nhop_tbl_key_def)
  from route_delete_steps [OF laws inv k(1,2) i r(1,3,4)] obtain ret s1 s2 s3 where
    st: "rt_prefix_obj_delete E v pfx i s = Some (ret, s1)" "fib_res_obj_delete E i s1 = Some (0, s2)"
    "nhop_obj_delete E v p s2 = Some (0, s3)" "route_inv E us fm s3" "routes E us s3 = (routes E us s)(k := None)"
    by blast
  note run = shc_route_nhop_delete_def i [unfolded rib_map_def k(1)] r(2,5,7)
  show ?thesis
  proof (cases "t0 = t \<and> d0 = d")
    case True
    then show ?thesis
      using key st r(3) route_lawsD(5) [OF laws] k(1) by (simp add: run mpath_get_def)
  next
    case False
    then show ?thesis
      using inv other r(3) by (auto simp: run mpath_get_def split: option.splits)
  qed
qed

section \<open>The contracts\<close>

lemma route_laws_lib0: "route_laws (lib0 cap) set (\<lambda>f. map_of (fst f)) snd"
  by (simp add: route_laws_def hash_laws_lib0 zmalloc_law_lib0 fba_laws_lib0 fib_laws_lib0)

lemma vrf_id_agent0: "vrf_id (vrf_dp_of agent0 w) = of_nat w + 1"
  by (simp add: agent0_def vrf_dp0_def)

lemma route_inv_agent0: "route_inv (lib0 cap) set (\<lambda>f. map_of (fst f)) agent0"
proof -
  have rib: "rib_map (lib0 cap) agent0 = Map.empty" by (simp add: rib_map_def)
  have live: "rib_live set agent0 = Map.empty" by (auto simp: rib_live_def agent0_def fun_eq_iff)
  have dp: "fib (vrf_dp_of agent0 w) = ([], 0)" "rib_cnt (vrf_dp_of agent0 w) = 0" for w
    by (simp_all add: agent0_def vrf_dp0_def)
  have "routes_ok Map.empty Map.empty Map.empty (\<lambda>w. Map.empty) (\<lambda>w. 0)"
    by (simp add: routes_ok_def vrf_keys_def)
  then have "route_core (lib0 cap) set (\<lambda>f. map_of (fst f)) agent0"
    unfolding route_core_def rib live
    by (simp add: dp vrf_id_agent0) (simp add: agent0_def FIB_RES_LEN_def SHC_NR_FIB_RES_ALL_def)
  then show ?thesis by (simp add: route_inv_def nhop_inv_def neigh_inv_agent0)
qed

text \<open>A VXLAN next hop without a gateway, and the prefix \<open>10.0.0.0/8\<close> of VRF slot 0.\<close>

definition hop0 :: nhop_key where
  "hop0 = \<lparr>nk_gateway = 0, nk_tunnel_info = \<lparr>tun_family = 2, tun_type = SHC_ENCAP_VXLAN,
     tun_w0 = 0x0100000a, tun_w1 = 0x0200000a, tun_w2 = 11\<rparr>\<rparr>"

definition pfx0 :: shc_rib_key where
  "pfx0 = \<lparr>rk_vrf_id = 1, rk_family = 2, rk_prefixlen = 8, rk_prefix4 = 0x0000000a\<rparr>"

lemma canon_pfx0: "canon_prefix 0 pfx0"
  by (simp add: canon_prefix_def pfx0_def SHC_NR_VRF_def ip_net_def bswap32_def Let_def)

lemma neigh_refs_agent0 [simp]: "neigh_refs (lib0 cap) agent0 k = 0"
  by (simp add: neigh_refs_def neighs_def obj_view_def)

lemma routes_agent0: "routes (lib0 cap) set agent0 = Map.empty"
  by (simp add: routes_def ribs_def rib_map_def obj_view_def fun_eq_iff)

lemma shc_route_nhop_insert_run:
  assumes "route_laws E us fm fd" "route_inv E us fm s" "canon_prefix v pfx"
    and "t = RT_DEFAULT \<or> (t = RT_MROUTE \<and> routes E us s (rib_tbl_key pfx) = None)"
    and "neigh_refs E s (neigh_key (vrf_id (vrf_dp_of s v)) (nk_gateway d)) < 2 ^ 32 - 1"
  shows "\<exists>r s'. shc_route_nhop_insert E v pfx d t s = Some (r, s') \<and> route_inv E us fm s' \<and>
    (case routes E us s (rib_tbl_key pfx) of
       None \<Rightarrow> (r = 0 \<and> routes E us s' = (routes E us s)(rib_tbl_key pfx \<mapsto> (d, t))) \<or>
               (r < 0 \<and> routes E us s' = routes E us s)
     | Some (d0, t0) \<Rightarrow> s' = s \<and>
         r = (if t0 \<noteq> t then SHC_IPV4_ROUTETYPE_NO_SAME else SHC_ROUTE_NEXTHOP_ECMP_NOSPACE))"
proof (cases "rib_map E s (rib_tbl_key pfx)")
  case None
  moreover have core: "route_core E us fm s" using assms(2) by (simp add: route_inv_def)
  ultimately have "routes E us s (rib_tbl_key pfx) = None" by (simp add: routes_None_iff)
  moreover have "shc_route_nhop_insert E v pfx d t s = route_nhop_insert_new E v pfx d t None s"
    using None by (simp add: shc_route_nhop_insert_def rib_map_def)
  ultimately show ?thesis
    using route_nhop_insert_new_spec [OF assms(1,2) refl assms(3) None _ assms(5), of t] assms(4) by auto
next
  case (Some i)
  have core: "route_core E us fm s" using assms(2) by (simp add: route_inv_def)
  obtain d0 t0 where v: "routes E us s (rib_tbl_key pfx) = Some (d0, t0)"
    using Some routes_None_iff [OF core, of "rib_tbl_key pfx"] by auto
  then show ?thesis
    using shc_route_nhop_insert_present [OF core Some v, of t v d] assms(2,4) by (cases "t0 = t") auto
qed

text \<open>
  C5. \<open>shc_route_nhop_insert\<close> on consistent tables, for a canonical prefix, the default type (or
  multicast, for a prefix that is not there yet) and a gateway with fewer than $2^{32}-1$ references,
  always returns and keeps the tables consistent. On the view, a map from prefixes to next hops, a prefix
  that is not there is either inserted with its next hop (result 0) or, when memory, an identifier or a
  table runs out at any of the five stages, rolled back to exactly the routes there were (a negative
  result). For a prefix that is there nothing changes: the type is refused with
  \<open>SHC_IPV4_ROUTETYPE_NO_SAME\<close>, or, for the same type, the second next hop with
  \<open>SHC_ROUTE_NEXTHOP_ECMP_NOSPACE\<close>, also when it is the one the route has. A second next hop of a multicast route is
  outside: the code then writes past the result's array of one path.
\<close>

theorem shc_route_nhop_insert_contract:
  assumes "route_laws E us fm fd" "route_inv E us fm s" "canon_prefix v pfx"
    and "t = RT_DEFAULT \<or> (t = RT_MROUTE \<and> routes E us s (rib_tbl_key pfx) = None)"
    and "neigh_refs E s (neigh_key (vrf_id (vrf_dp_of s v)) (nk_gateway d)) < 2 ^ 32 - 1"
  shows "\<exists>r s'. shc_route_nhop_insert E v pfx d t s = Some (r, s') \<and> route_inv E us fm s' \<and>
    (case routes E us s (rib_tbl_key pfx) of
       None \<Rightarrow> (r = 0 \<and> routes E us s' = (routes E us s)(rib_tbl_key pfx \<mapsto> (d, t))) \<or>
               (r < 0 \<and> routes E us s' = routes E us s)
     | Some (d0, t0) \<Rightarrow> s' = s \<and>
         r = (if t0 \<noteq> t then SHC_IPV4_ROUTETYPE_NO_SAME else SHC_ROUTE_NEXTHOP_ECMP_NOSPACE))"
  by (rule shc_route_nhop_insert_run [OF assms])

definition agent_route :: "(slots, alist_fib, int list) agent" where
  "agent_route = snd (the (shc_route_nhop_insert (lib0 4) 0 pfx0 hop0 RT_DEFAULT agent0))"

lemma agent_route_run: "shc_route_nhop_insert (lib0 4) 0 pfx0 hop0 RT_DEFAULT agent0 = Some (0, agent_route)"
proof -
  have "fst (the (shc_route_nhop_insert (lib0 4) 0 pfx0 hop0 RT_DEFAULT agent0)) = 0 \<and>
    shc_route_nhop_insert (lib0 4) 0 pfx0 hop0 RT_DEFAULT agent0 \<noteq> None"
    by code_simp
  then show ?thesis by (auto simp: agent_route_def)
qed

lemma agent_route_ok:
  "route_inv (lib0 4) set (\<lambda>f. map_of (fst f)) agent_route"
  "routes (lib0 4) set agent_route = [rib_tbl_key pfx0 \<mapsto> (hop0, RT_DEFAULT)]"
proof -
  have "rib_map (lib0 4) agent0 (rib_tbl_key pfx0) = None" by (simp add: rib_map_def)
  from route_nhop_insert_new_spec [OF route_laws_lib0 route_inv_agent0 refl canon_pfx0 this, of RT_DEFAULT hop0]
  have "\<exists>r s'. route_nhop_insert_new (lib0 4) 0 pfx0 hop0 RT_DEFAULT None agent0 = Some (r, s') \<and>
     route_inv (lib0 4) set (\<lambda>f. map_of (fst f)) s' \<and>
     (r = 0 \<and> routes (lib0 4) set s' = [rib_tbl_key pfx0 \<mapsto> (hop0, RT_DEFAULT)] \<or> r < 0)"
    by (auto simp: routes_agent0)
  moreover have "route_nhop_insert_new (lib0 4) 0 pfx0 hop0 RT_DEFAULT None agent0 = Some (0, agent_route)"
    using agent_route_run by (simp add: shc_route_nhop_insert_def)
  ultimately show "route_inv (lib0 4) set (\<lambda>f. map_of (fst f)) agent_route"
    "routes (lib0 4) set agent_route = [rib_tbl_key pfx0 \<mapsto> (hop0, RT_DEFAULT)]" by auto
qed

lemma shc_route_nhop_insert_contract_witness:
  "\<exists>r s'. shc_route_nhop_insert (lib0 4) 0 pfx0 hop0 RT_DEFAULT agent0 = Some (r, s') \<and>
     route_inv (lib0 4) set (\<lambda>f. map_of (fst f)) s' \<and> r \<le> 0"
  using shc_route_nhop_insert_contract [OF route_laws_lib0 [of 4] route_inv_agent0 canon_pfx0, where t = RT_DEFAULT and d = hop0]
  by (fastforce simp: routes_agent0)

lemma shc_route_delete_run:
  assumes "route_laws E us fm fd" "route_inv E us fm s" "canon_prefix v pfx"
  shows "\<exists>r s'. shc_route_delete E v pfx s = Some (r, s') \<and> route_inv E us fm s' \<and>
    (if routes E us s (rib_tbl_key pfx) = None then r = SHC_ROUTE_PREFIX_NOT_FOUND \<and> s' = s
     else r = 0 \<and> routes E us s' = (routes E us s)(rib_tbl_key pfx := None))"
proof (cases "rib_map E s (rib_tbl_key pfx)")
  case None
  have core: "route_core E us fm s" using assms(2) by (simp add: route_inv_def)
  with None have "routes E us s (rib_tbl_key pfx) = None" by (simp add: routes_None_iff)
  then show ?thesis using None assms(2) by (simp add: shc_route_delete_def rib_map_def)
next
  case (Some i)
  have core: "route_core E us fm s" using assms(2) by (simp add: route_inv_def)
  with Some have "routes E us s (rib_tbl_key pfx) \<noteq> None" by (simp add: routes_None_iff)
  then show ?thesis using shc_route_delete_present [OF assms(1,2) refl assms(3) Some] by auto
qed

text \<open>
  C6. \<open>shc_route_delete\<close> on consistent tables, for a well-formed prefix, always returns and keeps
  them consistent: it returns \<open>SHC_ROUTE_PREFIX_NOT_FOUND\<close> and changes nothing when the prefix is
  not there, and otherwise returns 0 and has deleted exactly that prefix from both tables, freed
  its result, and given back its next hop (freed with the last prefix that uses it).
\<close>

theorem shc_route_delete_contract:
  assumes "route_laws E us fm fd" "route_inv E us fm s" "canon_prefix v pfx"
  shows "\<exists>r s'. shc_route_delete E v pfx s = Some (r, s') \<and> route_inv E us fm s' \<and>
    (if routes E us s (rib_tbl_key pfx) = None then r = SHC_ROUTE_PREFIX_NOT_FOUND \<and> s' = s
     else r = 0 \<and> routes E us s' = (routes E us s)(rib_tbl_key pfx := None))"
  by (rule shc_route_delete_run [OF assms])

lemma shc_route_delete_contract_witness:
  "\<exists>s'. shc_route_delete (lib0 4) 0 pfx0 agent_route = Some (0, s') \<and>
     route_inv (lib0 4) set (\<lambda>f. map_of (fst f)) s' \<and> routes (lib0 4) set s' = Map.empty"
  using shc_route_delete_contract [OF route_laws_lib0 agent_route_ok(1) canon_pfx0]
  by (auto simp: agent_route_ok(2))

text \<open>
  \<open>shc_route_nhop_delete\<close> on consistent tables, for a well-formed prefix, always returns and
  keeps them consistent. A prefix that is not there, or has another next hop, is left alone with
  result 0; a route of the other type is refused; the prefix with exactly this next hop is
  deleted.
\<close>

lemma shc_route_nhop_delete_contract:
  assumes "route_laws E us fm fd" "route_inv E us fm s" "canon_prefix v pfx"
  shows "\<exists>r s'. shc_route_nhop_delete E v pfx d t s = Some (r, s') \<and> route_inv E us fm s' \<and>
    (case routes E us s (rib_tbl_key pfx) of
       None \<Rightarrow> r = 0 \<and> s' = s
     | Some (d0, t0) \<Rightarrow>
         if t0 \<noteq> t then r = SHC_IPV4_ROUTETYPE_NO_SAME \<and> s' = s
         else if d0 \<noteq> d then r = 0 \<and> s' = s
         else r = 0 \<and> routes E us s' = (routes E us s)(rib_tbl_key pfx := None))"
proof (cases "routes E us s (rib_tbl_key pfx)")
  case None
  moreover have "route_core E us fm s" using assms(2) by (simp add: route_inv_def)
  ultimately have "rib_map E s (rib_tbl_key pfx) = None" by (simp add: routes_None_iff)
  then show ?thesis using None assms(2) by (simp add: shc_route_nhop_delete_def rib_map_def)
next
  case (Some dt)
  obtain d0 t0 where dt: "dt = (d0, t0)" by (cases dt)
  show ?thesis
    using shc_route_nhop_delete_present [OF assms(1,2) refl assms(3) Some [unfolded dt], of d t] Some dt by simp
qed

lemma shc_route_nhop_delete_contract_witness:
  "\<exists>s'. shc_route_nhop_delete (lib0 4) 0 pfx0 hop0 RT_DEFAULT agent_route = Some (0, s') \<and>
     route_inv (lib0 4) set (\<lambda>f. map_of (fst f)) s' \<and> routes (lib0 4) set s' = Map.empty"
  using shc_route_nhop_delete_contract [OF route_laws_lib0 agent_route_ok(1) canon_pfx0, of hop0 RT_DEFAULT]
  by (auto simp: agent_route_ok(2))

text \<open>
  A multicast route never gets a second next hop: inserting one that differs from the route's
  ends in an error or in a write past the end of \<open>mpath\<close>, never in success, although
  \<open>mpath_max\<close> promises eight.
\<close>

theorem shc_route_mroute_second_hop:
  assumes "route_laws E us fm fd" "route_inv E us fm s" "canon_prefix v pfx"
    and "routes E us s (rib_tbl_key pfx) = Some (d0, RT_MROUTE)" and "tun_type (nk_tunnel_info d0) = SHC_ENCAP_VXLAN"
    and "d \<noteq> d0" and "neigh_refs E s (neigh_key (vrf_id (vrf_dp_of s v)) (nk_gateway d)) < 2 ^ 32 - 1"
  shows "shc_route_nhop_insert E v pfx d RT_MROUTE s = None \<or>
    (\<exists>r s'. shc_route_nhop_insert E v pfx d RT_MROUTE s = Some (r, s') \<and> r < 0)"
proof -
  note L = route_lawsD [OF assms(1)]
  have core: "route_core E us fm s" and ninv: "nhop_inv E s" and neinv: "neigh_inv E s"
    using assms(2) by (auto simp: route_inv_def)
  obtain i where i: "rib_map E s (rib_tbl_key pfx) = Some i"
    using assms(4) routes_None_iff [OF core, of "rib_tbl_key pfx"] by auto
  from route_presentE [OF core i] obtain r p f where r: "fib_res_get s i = Some r" "mpath r = [p]"
    "nhop_mem s p = Some f" "mpath_cnt r = 1" "mpath_max r = MROUTE_MAX_ECMP" "fib_res_rtype_get r = RT_MROUTE"
    "nhop_key_of f = d0" using assms(4) by (metis option.inject prod.inject)
  have ne: "\<not> fib_nhop_equal f d"
    using r(7) assms(5,6) by (cases d) (auto simp: fib_nhop_equal_def nhop_key_of_def)
  have ins: "shc_route_nhop_insert E v pfx d RT_MROUTE s =
      route_nhop_insert_new E v pfx d RT_MROUTE (Some (i, r)) s"
    using i r ne by (simp add: shc_route_nhop_insert_def rib_map_def fib_res_mpath_nospace_def
        MROUTE_MAX_ECMP_def mpath_nhop_def mpath_get_def)
  obtain ret po s1 where create: "nhop_obj_create E v d s = Some (ret, po, s1)"
    and post: "nhop_create_post E d s (ret, po, s1)"
    using nhop_obj_create_spec [OF L(1,2,5) ninv neinv assms(7) nhop_refs_small [OF core]] by fastforce
  show ?thesis
  proof (cases "ret < 0")
    case True
    then show ?thesis using create by (simp add: ins route_nhop_insert_new_def)
  next
    case False
    then obtain q where q: "po = Some q" using post by (auto simp: nhop_create_post_def)
    have two: "mpath_list r [0..<mpath_cnt r] = Some [p]" using r(2,4) by (simp add: mpath_get_def)
    show ?thesis
    proof (cases "rte_fbarray_find_next_free E (fib_res_used s1) 0 < 0")
      case True
      then have "fib_res_obj_create E [p, q] (Some r) RT_MROUTE (lpm_em_of pfx) s1 = Some (SHC_ROUTE_RESULT_NOSPACE, s1)"
        by (simp add: fib_res_obj_create_def fib_res_id_alloc_def)
      then show ?thesis
        using create False q two
        by (cases "nhop_obj_delete E v q s1") (auto simp: ins route_nhop_insert_new_def const_defs)
    next
      case free: False
      then have "fib_res_obj_create E [p, q] (Some r) RT_MROUTE (lpm_em_of pfx) s1 = None"
        using fib_res_two_hops [OF L(3,5), of s1] by simp
      then show ?thesis using create False q two by (simp add: ins route_nhop_insert_new_def)
    qed
  qed
qed

text \<open>A multicast route, and another next hop.\<close>

definition agent_mroute :: "(slots, alist_fib, int list) agent" where
  "agent_mroute = snd (the (route_nhop_insert_new (lib0 4) 0 pfx0 hop0 RT_MROUTE None agent0))"

lemma agent_mroute_ok:
  "route_inv (lib0 4) set (\<lambda>f. map_of (fst f)) agent_mroute"
  "routes (lib0 4) set agent_mroute = [rib_tbl_key pfx0 \<mapsto> (hop0, RT_MROUTE)]"
proof -
  have "fst (the (route_nhop_insert_new (lib0 4) 0 pfx0 hop0 RT_MROUTE None agent0)) = 0" by code_simp
  moreover have "rib_map (lib0 4) agent0 (rib_tbl_key pfx0) = None" by (simp add: rib_map_def)
  from route_nhop_insert_new_spec [OF route_laws_lib0 route_inv_agent0 refl canon_pfx0 this, of RT_MROUTE hop0]
  have "\<exists>r s'. route_nhop_insert_new (lib0 4) 0 pfx0 hop0 RT_MROUTE None agent0 = Some (r, s') \<and>
     route_inv (lib0 4) set (\<lambda>f. map_of (fst f)) s' \<and>
     (r = 0 \<and> routes (lib0 4) set s' = [rib_tbl_key pfx0 \<mapsto> (hop0, RT_MROUTE)] \<or> r < 0)"
    by (auto simp: routes_agent0)
  ultimately show "route_inv (lib0 4) set (\<lambda>f. map_of (fst f)) agent_mroute"
    "routes (lib0 4) set agent_mroute = [rib_tbl_key pfx0 \<mapsto> (hop0, RT_MROUTE)]"
    by (auto simp: agent_mroute_def)
qed

lemma shc_route_mroute_second_hop_witness:
  "shc_route_nhop_insert (lib0 4) 0 pfx0 (hop0\<lparr>nk_gateway := 7\<rparr>) RT_MROUTE agent_mroute = None \<or>
   (\<exists>r s'. shc_route_nhop_insert (lib0 4) 0 pfx0 (hop0\<lparr>nk_gateway := 7\<rparr>) RT_MROUTE agent_mroute = Some (r, s') \<and> r < 0)"
proof (rule shc_route_mroute_second_hop [OF route_laws_lib0 agent_mroute_ok(1) canon_pfx0])
  show "routes (lib0 4) set agent_mroute (rib_tbl_key pfx0) = Some (hop0, RT_MROUTE)" by (simp add: agent_mroute_ok(2))
  show "neigh_refs (lib0 4) agent_mroute (neigh_key (vrf_id (vrf_dp_of agent_mroute 0)) (nk_gateway (hop0\<lparr>nk_gateway := 7\<rparr>)))
      < 2 ^ 32 - 1"
  proof -
    have "neigh_tbl agent_mroute = []" by code_simp
    then show ?thesis by (simp add: neigh_refs_def neighs_def obj_view_def)
  qed
qed (simp_all add: hop0_def)

end
