(* ===== verification/Dest_List.thy ===== *)
theory Dest_List
  imports Hal_Shim "HOL-Library.Multiset"
begin

text \<open>
  \<open>agent/route.c\<close>, the list of the offloaded destinations of a VRF (\<open>initLink\<close>, \<open>findVal\<close>,
  \<open>addAtHead\<close>, \<open>deleteAtVal\<close>): each node counts the uses of one address. The specification is a
  multiset of addresses; the locale \<open>bag\<close> states what an implementation of one promises and proves
  what follows for sequences of operations, and the list is an instance of it.
\<close>

section \<open>Operations\<close>

definition initLink :: ListNode_t where
  "initLink = \<lparr>List_head = [], List_len = 0\<rparr>"

text \<open>The loop of \<open>findVal\<close> counts the first node of the value; the result says whether it found one.\<close>

fun find_nodes :: "u32 \<Rightarrow> linkNode list \<Rightarrow> int \<times> linkNode list" where
  "find_nodes v [] = (0, [])"
| "find_nodes v (n # ns) =
     (if rout_info n = v then (1, n\<lparr>lpm_counter := lpm_counter n + 1\<rparr> # ns)
      else let (r, ns') = find_nodes v ns in (r, n # ns'))"

definition findVal :: "ListNode_t \<Rightarrow> u32 \<Rightarrow> int \<times> ListNode_t" where
  "findVal self v = (let (r, ns) = find_nodes v (List_head self) in (r, self\<lparr>List_head := ns\<rparr>))"

text \<open>A node that cannot be allocated is dereferenced all the same.\<close>

definition addAtHead :: "bool \<Rightarrow> ListNode_t \<Rightarrow> u32 \<Rightarrow> ListNode_t option" where
  "addAtHead mem self v =
     (let self = self\<lparr>List_len := List_len self + 1\<rparr> in
      if \<not> mem then None
      else Some (self\<lparr>List_head := \<lparr>lpm_counter = 1, rout_info = v\<rparr> # List_head self\<rparr>))"

text \<open>
  \<open>deleteAtVal\<close> treats the head of the list on its own; the loop then looks at the node after
  \<open>cur_node\<close>, whose tail is the argument here.
\<close>

fun delete_after :: "u32 \<Rightarrow> linkNode list \<Rightarrow> 32 word \<Rightarrow> linkNode list \<times> 32 word" where
  "delete_after v [] len = ([], len)"
| "delete_after v (n # ns) len =
     (if rout_info n = v then
        (if lpm_counter n = 1 then (ns, len - 1) else (n\<lparr>lpm_counter := lpm_counter n - 1\<rparr> # ns, len))
      else let (ns', len') = delete_after v ns len in (n # ns', len'))"

definition deleteAtVal :: "ListNode_t \<Rightarrow> u32 \<Rightarrow> ListNode_t" where
  "deleteAtVal self v =
     (case List_head self of
        [] \<Rightarrow> self
      | n # ns \<Rightarrow>
          if rout_info n = v then
            (if lpm_counter n = 1 then self\<lparr>List_head := ns, List_len := List_len self - 1\<rparr>
             else self\<lparr>List_head := n\<lparr>lpm_counter := lpm_counter n - 1\<rparr> # ns\<rparr>)
          else
            let (ns', len') = delete_after v ns (List_len self)
            in self\<lparr>List_head := n # ns', List_len := len'\<rparr>)"

text \<open>What \<open>shc_route_lookup\<close> does with an address: count its node, or make one.\<close>

definition dest_add :: "bool \<Rightarrow> ListNode_t \<Rightarrow> u32 \<Rightarrow> ListNode_t option" where
  "dest_add mem self v =
     (let (res, self') = findVal self v in if res = 0 then addAtHead mem self' v else Some self')"

section \<open>The contract of a bag\<close>

text \<open>A sequence of operations: \<open>(True, x)\<close> puts \<open>x\<close>, \<open>(False, x)\<close> takes it out.\<close>

fun run_ops :: "('s \<Rightarrow> 'a \<Rightarrow> 's option) \<Rightarrow> ('s \<Rightarrow> 'a \<Rightarrow> 's) \<Rightarrow> (bool \<times> 'a) list \<Rightarrow> 's \<Rightarrow> 's option" where
  "run_ops put del [] s = Some s"
| "run_ops put del ((add, x) # ops) s =
     (if add then Option.bind (put s x) (run_ops put del ops) else run_ops put del ops (del s x))"

fun bag_ops :: "(bool \<times> 'a) list \<Rightarrow> 'a multiset \<Rightarrow> 'a multiset" where
  "bag_ops [] m = m"
| "bag_ops ((add, x) # ops) m = bag_ops ops (if add then add_mset x m else m - {#x#})"

text \<open>
  \<open>bag_of s\<close> is the multiset that \<open>s\<close> stands for; one more \<open>x\<close> can be put in while it is there
  fewer than \<open>cap\<close> times; \<open>kinds s\<close> is the number of different elements that the implementation keeps, at its counter's width.
\<close>

locale bag =
  fixes inv :: "'s \<Rightarrow> bool"
    and bag_of :: "'s \<Rightarrow> 'a multiset"
    and put :: "'s \<Rightarrow> 'a \<Rightarrow> 's option"
    and del :: "'s \<Rightarrow> 'a \<Rightarrow> 's"
    and kinds :: "'s \<Rightarrow> 'n::len word"
    and cap :: nat
  assumes put_bag: "inv s \<Longrightarrow> count (bag_of s) x < cap \<Longrightarrow>
      \<exists>s'. put s x = Some s' \<and> inv s' \<and> bag_of s' = add_mset x (bag_of s)"
    and del_bag: "inv s \<Longrightarrow> inv (del s x) \<and> bag_of (del s x) = bag_of s - {#x#}"
    and kinds_bag: "inv s \<Longrightarrow> kinds s = of_nat (card (set_mset (bag_of s)))"
begin

lemma run_refines:
  assumes "inv s" "\<And>x. count (bag_of s) x + length (filter fst ops) \<le> cap"
  shows "\<exists>s'. run_ops put del ops s = Some s' \<and> inv s' \<and> bag_of s' = bag_ops ops (bag_of s)"
  using assms
proof (induction ops arbitrary: s)
  case (Cons op ops)
  obtain add x where op: "op = (add, x)" by (cases op)
  show ?case
  proof (cases add)
    case True
    have "count (bag_of s) x < cap" using Cons.prems(2) [of x] op True by simp
    then obtain s1 where s1: "put s x = Some s1" "inv s1" "bag_of s1 = add_mset x (bag_of s)"
      using put_bag Cons.prems(1) by blast
    have "count (bag_of s1) y + length (filter fst ops) \<le> cap" for y
      using Cons.prems(2) [of y] s1(3) op True by simp
    from Cons.IH [OF s1(2) this] s1 op True show ?thesis by simp
  next
    case False
    note d = del_bag [OF Cons.prems(1), of x]
    have "count (bag_of (del s x)) y + length (filter fst ops) \<le> cap" for y
      using Cons.prems(2) [of y] d op False by simp
    from Cons.IH [OF conjunct1 [OF d] this] d op False show ?thesis by simp
  qed
qed simp

lemma put_del:
  assumes "inv s" "count (bag_of s) x < cap" "put s x = Some s'"
  shows "bag_of (del s' x) = bag_of s \<and> kinds (del s' x) = kinds s"
proof -
  have s': "inv s'" "bag_of s' = add_mset x (bag_of s)" using put_bag [OF assms(1,2)] assms(3) by auto
  with del_bag [OF s'(1), of x] show ?thesis by (simp add: kinds_bag assms(1))
qed

end

section \<open>The list as a bag\<close>

text \<open>
  In a sound list no value has two nodes, no count is 0, and \<open>List_len\<close> is the number of nodes.
\<close>

definition node_bag :: "linkNode list \<Rightarrow> u32 multiset" where
  "node_bag ns = (\<Sum>n\<leftarrow>ns. replicate_mset (unat (lpm_counter n)) (rout_info n))"

definition dest_bag :: "ListNode_t \<Rightarrow> u32 multiset" where
  "dest_bag self = node_bag (List_head self)"

definition nodes_ok :: "linkNode list \<Rightarrow> bool" where
  "nodes_ok ns \<longleftrightarrow> distinct (map rout_info ns) \<and> (\<forall>n \<in> set ns. lpm_counter n \<noteq> 0)"

definition dest_ok :: "ListNode_t \<Rightarrow> bool" where
  "dest_ok self \<longleftrightarrow> nodes_ok (List_head self) \<and> List_len self = of_nat (length (List_head self))"

lemma node_bag_simps [simp]:
  "node_bag [] = {#}"
  "node_bag (n # ns) = replicate_mset (unat (lpm_counter n)) (rout_info n) + node_bag ns"
  by (simp_all add: node_bag_def)

lemma nodes_ok_Cons:
  "nodes_ok (n # ns) \<longleftrightarrow> lpm_counter n \<noteq> 0 \<and> rout_info n \<notin> rout_info ` set ns \<and> nodes_ok ns"
  by (auto simp: nodes_ok_def)

lemma node_bag_set: "nodes_ok ns \<Longrightarrow> set_mset (node_bag ns) = rout_info ` set ns"
  by (induction ns) (auto simp: nodes_ok_Cons unat_eq_0)

lemma node_bag_card: "nodes_ok ns \<Longrightarrow> card (set_mset (node_bag ns)) = length ns"
  using distinct_card [of "map rout_info ns"] by (simp add: node_bag_set) (simp add: nodes_ok_def)

lemma diff_single_add: "v \<notin># A \<Longrightarrow> A + B - {#v#} = A + (B - {#v#})"
  by (rule multiset_eqI) (auto simp: not_in_iff)

lemma find_nodes_spec:
  assumes "find_nodes v ns = (r, ns')" "nodes_ok ns" "count (node_bag ns) v < 2 ^ 32 - 1"
  shows "if v \<in># node_bag ns
    then r = 1 \<and> nodes_ok ns' \<and> map rout_info ns' = map rout_info ns \<and> node_bag ns' = add_mset v (node_bag ns)
    else r = 0 \<and> ns' = ns"
  using assms
proof (induction ns arbitrary: r ns')
  case (Cons n ns)
  show ?case
  proof (cases "rout_info n = v")
    case True
    have "unat (lpm_counter n) < 2 ^ 32 - 1" using Cons.prems(3) True by simp
    then have u: "unat (lpm_counter n + 1) = Suc (unat (lpm_counter n))"
      by (simp add: unat_word_ariths)
    then have "lpm_counter n + 1 \<noteq> 0" by auto
    with Cons.prems True u show ?thesis by (auto simp: nodes_ok_Cons unat_eq_0)
  next
    case False
    obtain q ms where q: "find_nodes v ns = (q, ms)" by (cases "find_nodes v ns")
    have "if v \<in># node_bag ns
      then q = 1 \<and> nodes_ok ms \<and> map rout_info ms = map rout_info ns \<and> node_bag ms = add_mset v (node_bag ns)
      else q = 0 \<and> ms = ns"
      using Cons.IH [OF q] Cons.prems False by (simp add: nodes_ok_Cons)
    moreover have "rout_info ` set ms = rout_info ` set ns" if "map rout_info ms = map rout_info ns"
      using that by (metis list.set_map)
    ultimately show ?thesis
      using Cons.prems False q by (auto simp: nodes_ok_Cons split: if_splits)
  qed
qed simp

lemma delete_after_spec:
  assumes "delete_after v ns len = (ns', len')" "nodes_ok ns" "len - of_nat (length ns) = k"
  shows "nodes_ok ns' \<and> node_bag ns' = node_bag ns - {#v#} \<and> len' - of_nat (length ns') = k \<and>
    rout_info ` set ns' \<subseteq> rout_info ` set ns"
  using assms
proof (induction v ns len arbitrary: ns' len' k rule: delete_after.induct)
  case (2 v n ns len)
  show ?case
  proof (cases "rout_info n = v")
    case True
    have v: "v \<notin># node_bag ns" using 2(3) True by (auto simp: nodes_ok_Cons node_bag_set)
    have pos: "unat (lpm_counter n) \<noteq> 0" using 2(3) by (auto simp: nodes_ok_Cons unat_eq_0)
    show ?thesis
    proof (cases "lpm_counter n = 1")
      case True
      then show ?thesis using 2 \<open>rout_info n = v\<close> by (auto simp: nodes_ok_Cons diff_diff_eq)
    next
      case False
      have u: "unat (lpm_counter n - 1) = unat (lpm_counter n) - 1"
        using pos by (simp add: unat_minus_one unat_eq_0)
      have "lpm_counter n - 1 \<noteq> 0" using False by auto
      moreover obtain j where "unat (lpm_counter n) = Suc j" using pos by (cases "unat (lpm_counter n)") auto
      ultimately show ?thesis using 2 \<open>rout_info n = v\<close> False u by (auto simp: nodes_ok_Cons)
    qed
  next
    case False
    obtain ms l where ms: "delete_after v ns len = (ms, l)" by (cases "delete_after v ns len")
    have k: "len - of_nat (length ns) = k + 1" using 2(4) by (simp add: algebra_simps)
    have ok: "nodes_ok ns" using 2(3) by (simp add: nodes_ok_Cons)
    have IH: "nodes_ok ms \<and> node_bag ms = node_bag ns - {#v#} \<and> l - of_nat (length ms) = k + 1 \<and>
      rout_info ` set ms \<subseteq> rout_info ` set ns"
      by (rule 2(1) [OF False ms ok k])
    have res: "ns' = n # ms" "len' = l" using 2(2) False ms by auto
    have "rout_info n \<notin> rout_info ` set ms" using IH 2(3) by (auto simp only: nodes_ok_Cons)
    moreover have "v \<notin># replicate_mset (unat (lpm_counter n)) (rout_info n)" using False by auto
    ultimately show ?thesis
      using IH 2(3) by (simp add: res nodes_ok_Cons diff_single_add) (simp add: algebra_simps, blast)
  qed
qed simp

text \<open>The head's case of \<open>deleteAtVal\<close> and the loop's are the same.\<close>

lemma deleteAtVal_loop:
  "deleteAtVal self v = (let (ns, len) = delete_after v (List_head self) (List_len self)
     in self\<lparr>List_head := ns, List_len := len\<rparr>)"
  by (cases "List_head self") (auto simp: deleteAtVal_def split: prod.splits)

lemma deleteAtVal_bag:
  assumes "dest_ok self"
  shows "dest_ok (deleteAtVal self v) \<and> dest_bag (deleteAtVal self v) = dest_bag self - {#v#}"
proof -
  obtain ns len where d: "delete_after v (List_head self) (List_len self) = (ns, len)" by fastforce
  from delete_after_spec [OF d, of 0] assms d show ?thesis
    by (simp add: deleteAtVal_loop dest_ok_def dest_bag_def)
qed

lemma dest_add_bag:
  assumes "dest_ok self" "count (dest_bag self) v < 2 ^ 32 - 1"
  shows "\<exists>self'. dest_add True self v = Some self' \<and> dest_ok self' \<and> dest_bag self' = add_mset v (dest_bag self)"
proof -
  obtain r ns where f: "find_nodes v (List_head self) = (r, ns)" by fastforce
  have ok: "nodes_ok (List_head self)" using assms(1) by (simp add: dest_ok_def)
  note spec = find_nodes_spec [OF f ok] assms(2)
  show ?thesis
  proof (cases "v \<in># node_bag (List_head self)")
    case True
    then have r: "r = 1" "nodes_ok ns" "length ns = length (List_head self)"
      "node_bag ns = add_mset v (node_bag (List_head self))"
      using spec by (auto simp: dest_bag_def dest: map_eq_imp_length_eq)
    with assms(1) f show ?thesis
      by (simp add: dest_add_def findVal_def dest_ok_def dest_bag_def)
  next
    case False
    then have r: "r = 0" "ns = List_head self" using spec by (auto simp: dest_bag_def)
    with assms(1) f False show ?thesis
      by (simp add: dest_add_def findVal_def addAtHead_def dest_ok_def dest_bag_def nodes_ok_Cons node_bag_set)
  qed
qed

interpretation dests: bag dest_ok dest_bag "dest_add True" deleteAtVal List_len "2 ^ 32 - 1"
  by unfold_locales
     (auto simp: dest_add_bag deleteAtVal_bag, simp add: dest_ok_def dest_bag_def node_bag_card)

lemma dest_ok_initLink [simp]: "dest_ok initLink" "dest_bag initLink = {#}"
  by (simp_all add: dest_ok_def dest_bag_def initLink_def nodes_ok_def)

lemma bag_ops_kinds: "card (set_mset (bag_ops ops m)) \<le> card (set_mset m) + length ops"
proof (induction ops m rule: bag_ops.induct)
  case (2 add x ops m)
  have "card (set_mset (m - {#x#})) \<le> card (set_mset m)" by (intro card_mono) (auto dest: in_diffD)
  moreover have "card (set_mset (add_mset x m)) \<le> Suc (card (set_mset m))" by (simp add: card_insert_le_m1 card_insert_if)
  ultimately show ?case using 2 by (cases add) auto
qed simp

text \<open>
  C21. The list of offloaded destinations is a multiset of addresses: starting from \<open>initLink\<close>, any
  sequence of fewer than \<open>2 ^ 31\<close> lookups that count an address and deletions that drop one, with memory
  for every node, leaves a list that counts each address as often as the multiset has it (deleting an
  address that is not there changes nothing), and the \<open>int\<close> \<open>List_len\<close> is the number of different
  addresses. (A node that cannot be allocated is dereferenced, see \<open>addAtHead\<close>.)
\<close>

theorem dest_list_refines_bag:
  assumes "length ops < 2 ^ 31"
  shows "\<exists>l. run_ops (dest_add True) deleteAtVal ops initLink = Some l \<and> dest_ok l \<and>
    dest_bag l = bag_ops ops {#} \<and> sint (List_len l) = int (card (set_mset (bag_ops ops {#})))"
proof -
  have "length (filter fst ops) \<le> 2 ^ 32 - 1" by (rule le_trans [OF length_filter_le]) (use assms in simp)
  then obtain l where l: "run_ops (dest_add True) deleteAtVal ops initLink = Some l" "dest_ok l"
    "dest_bag l = bag_ops ops {#}"
    using dests.run_refines [of initLink ops] by auto
  have "card (set_mset (bag_ops ops {#})) < 2 ^ 31"
    using bag_ops_kinds [of ops "{#}"] assms by simp
  then have "sint (of_nat (card (set_mset (bag_ops ops {#}))) :: 32 word) = int (card (set_mset (bag_ops ops {#})))"
    by (simp add: signed_of_nat signed_take_bit_int_eq_self)
  with l dests.kinds_bag [OF l(2)] show ?thesis by auto
qed

lemma dest_list_refines_bag_witness:
  "\<exists>l. run_ops (dest_add True) deleteAtVal [(True, 7), (True, 9), (True, 7), (False, 9), (False, 5)] initLink = Some l \<and>
    dest_bag l = {#7, 7#} \<and> sint (List_len l) = 1"
  using dest_list_refines_bag [of "[(True, 7), (True, 9), (True, 7), (False, 9), (False, 5)]"] by auto

end
