(* ===== verification/Route_Lookup.thy ===== *)
theory Route_Lookup
  imports Route_Ops Dest_List
begin

text \<open>
  \<open>agent/route.c\<close>, \<open>shc_route_lookup\<close>: the longest-prefix match of a destination, and the offload
  of the route and of its next hop to the hardware. A lookup with flag 0 programs entries, one with
  flag 1 removes them.
\<close>

section \<open>Operations\<close>

text \<open>
  The route table's part. \<open>fr\<close> is the result pointer's target, \<open>None\<close> for NULL, dereferenced where
  the code does; \<open>||\<close> reads \<open>List_Node\<close> only when its left side does not decide. The result is the
  value of \<open>ret\<close>, negative when the function returns it.
\<close>

definition route_offload ::
  "('h, 'f, 'b) lib \<Rightarrow> nat \<Rightarrow> fib_res option \<Rightarrow> u32 \<Rightarrow> u32 \<Rightarrow> int \<Rightarrow> ('h, 'f, 'b) agent
     \<Rightarrow> (int \<times> ('h, 'f, 'b) agent) option" where
  "route_offload E v fr sip dip flag_of_add_del s =
     (let d = vrf_dp_of s v in
      if flag_of_add_del = 0 then do {
        first \<leftarrow> (if exit_flag d = 0 then Some True
                  else do { l \<leftarrow> List_Node d; Some (List_len l = 0) });
        (ret, s1) \<leftarrow> (if first then do {
            f_res \<leftarrow> fr;
            f \<leftarrow> mpath_nhop s f_res 0;
            Some (shc_hal_route_entry_add E (vrf_id d) sip dip (nh_oid f) s)
          } else Some (0, s));
        if ret < 0 then Some (ret, s1)
        else do {
          f_res \<leftarrow> fr;
          if lpm_em f_res > 0 then do {
            l \<leftarrow> List_Node d;
            l' \<leftarrow> dest_add (malloc_ok E) l dip;
            Some (ret, dp_upd v (\<lambda>d. d\<lparr>List_Node := Some l'\<rparr>) s1)
          }
          else if lpm_em f_res = 0 then
            Some (ret, dp_upd v (\<lambda>d. d\<lparr>exit_flag := exit_flag d + 1\<rparr>) s1)
          else Some (ret, s1)
        }
      }
      else if flag_of_add_del = 1 then do {
        used \<leftarrow> (if sint (exit_flag d) > 0 then Some True
                 else do { l \<leftarrow> List_Node d; Some (sint (List_len l) > 0) });
        if \<not> used then Some (0, s)
        else do {
          last \<leftarrow> (if exit_flag d = 1 then Some True
                   else do { l \<leftarrow> List_Node d; Some (List_len l = 1) });
          let (ret, s1) = (if last then shc_hal_route_entry_del E (vrf_id d) sip dip s else (0, s));
          if ret < 0 then Some (ret, s1)
          else do {
            f_res \<leftarrow> fr;
            if lpm_em f_res > 0 then do {
              l \<leftarrow> List_Node d;
              Some (ret, dp_upd v (\<lambda>d. d\<lparr>List_Node := Some (deleteAtVal l dip)\<rparr>) s1)
            }
            else if lpm_em f_res = 0 then
              Some (ret, dp_upd v (\<lambda>d. d\<lparr>exit_flag := exit_flag d - 1\<rparr>) s1)
            else Some (ret, s1)
          }
        }
      }
      else Some (0, s))"

text \<open>The next-hop table's part, for the next hop at address \<open>p\<close>.\<close>

definition nhop_offload ::
  "('h, 'f, 'b) lib \<Rightarrow> ptr \<Rightarrow> int \<Rightarrow> ('h, 'f, 'b) agent \<Rightarrow> (int \<times> ('h, 'f, 'b) agent) option" where
  "nhop_offload E p flag_of_add_del s = do {
     f \<leftarrow> nhop_mem s p;
     let t = nh_tunnel_info f;
     if flag_of_add_del = 0 then
       let (ret, s1) = (if nh_exit_flag f = 0
             then shc_hal_nhop_entry_add E (nh_oid f) (vxlan_vni t) (vxlan_local t) (vxlan_remote t)
                    (nh_neigh_oid f) s
             else (0, s)) in
       if ret < 0 then Some (ret, s1)
       else Some (0, s1\<lparr>nhop_mem := (nhop_mem s1)(p \<mapsto> f\<lparr>nh_exit_flag := nh_exit_flag f + 1\<rparr>)\<rparr>)
     else if flag_of_add_del = 1 \<and> sint (nh_exit_flag f) > 0 then
       let (ret, s1) = (if nh_exit_flag f = 1 then shc_hal_nhop_entry_del E (nh_oid f) s else (0, s)) in
       if ret < 0 then Some (ret, s1)
       else Some (0, s1\<lparr>nhop_mem := (nhop_mem s1)(p \<mapsto> f\<lparr>nh_exit_flag := nh_exit_flag f - 1\<rparr>)\<rparr>)
     else Some (0, s)
   }"

text \<open>
  The second component of the outcome is the index of the result that \<open>*f_res\<close> points to (\<open>None\<close>
  for NULL).
\<close>

definition shc_route_lookup ::
  "('h, 'f, 'b) lib \<Rightarrow> nat \<Rightarrow> u32 \<Rightarrow> u32 \<Rightarrow> int \<Rightarrow> ('h, 'f, 'b) agent
     \<Rightarrow> (int \<times> int option \<times> ('h, 'f, 'b) agent) option" where
  "shc_route_lookup E v sip dip flag_of_add_del s = do {
     let dip = rte_be_to_cpu_32 dip;
     let next_hop = rte_fib_lookup E (fib (vrf_dp_of s v)) dip;
     let fr = fib_res_get s next_hop;
     let f_res = map_option (\<lambda>_. next_hop) fr;
     let sip = rte_be_to_cpu_32 sip;
     (ret, s1) \<leftarrow> route_offload E v fr sip dip flag_of_add_del s;
     if ret < 0 then Some (ret, f_res, s1)
     else do {
       r \<leftarrow> fr;
       p \<leftarrow> mpath_get r 0;
       (ret, s2) \<leftarrow> nhop_offload E p flag_of_add_del s1;
       Some (ret, f_res, s2)
     }
   }"

section \<open>Longest matches\<close>

lemma lpm_from_Some:
  "lpm_from n m ip = Some nh \<longleftrightarrow>
     (\<exists>l \<le> n. m (ip_net ip (of_nat l), of_nat l) = Some nh \<and>
        (\<forall>k. l < k \<and> k \<le> n \<longrightarrow> m (ip_net ip (of_nat k), of_nat k) = None))"
proof (induction n)
  case (Suc n)
  show ?case
  proof (cases "m (ip_net ip (of_nat (Suc n)), of_nat (Suc n))")
    case None
    then show ?thesis using Suc.IH
      by (auto simp del: of_nat_Suc simp: le_Suc_eq)
  next
    case (Some a)
    then show ?thesis
      by (auto simp del: of_nat_Suc simp: le_Suc_eq)
  qed
qed simp

lemma lpm_from_None:
  "lpm_from n m ip = None \<longleftrightarrow> (\<forall>l \<le> n. m (ip_net ip (of_nat l), of_nat l) = None)"
  by (induction n) (auto simp del: of_nat_Suc simp: le_Suc_eq split: option.splits)

text \<open>The key of the prefix of length \<open>l\<close> that covers an address, in VRF slot \<open>v\<close>.\<close>

definition cover_key :: "nat \<Rightarrow> u32 \<Rightarrow> nat \<Rightarrow> hkey" where
  "cover_key v ip l = rib_tbl_key (rib_key_of v (ip_net ip (of_nat l), of_nat l))"

text \<open>The longest prefix with a route that covers \<open>ip\<close> has length \<open>l\<close>; or no prefix covers it.\<close>

definition longest_route ::
  "('h, 'f, 'b) lib \<Rightarrow> ('b \<Rightarrow> int set) \<Rightarrow> ('h, 'f, 'b) agent \<Rightarrow> nat \<Rightarrow> u32 \<Rightarrow> nat \<Rightarrow> bool" where
  "longest_route E us s v ip l \<longleftrightarrow> l \<le> 32 \<and> routes E us s (cover_key v ip l) \<noteq> None \<and>
     (\<forall>k. l < k \<and> k \<le> 32 \<longrightarrow> routes E us s (cover_key v ip k) = None)"

definition uncovered ::
  "('h, 'f, 'b) lib \<Rightarrow> ('b \<Rightarrow> int set) \<Rightarrow> ('h, 'f, 'b) agent \<Rightarrow> nat \<Rightarrow> u32 \<Rightarrow> bool" where
  "uncovered E us s v ip \<longleftrightarrow> (\<forall>k \<le> 32. routes E us s (cover_key v ip k) = None)"

lemma fib_lookup_routes:
  assumes "route_laws E us fm fd" "route_inv E us fm s" "v < nat SHC_NR_VRF"
  shows "longest_route E us s v ip l \<Longrightarrow>
      rib_map E s (cover_key v ip l) = Some (rte_fib_lookup E (fib (vrf_dp_of s v)) ip)"
    and "uncovered E us s v ip \<Longrightarrow> rte_fib_lookup E (fib (vrf_dp_of s v)) ip = fd (fib (vrf_dp_of s v))"
proof -
  have core: "route_core E us fm s" using assms(2) by (simp add: route_inv_def)
  define m where "m = fm (fib (vrf_dp_of s v))"
  have m: "m (ip_net ip (of_nat k), of_nat k) = rib_map E s (cover_key v ip k)" for k
    using routes_fib [OF core_ok [OF core] assms(3)] by (simp add: m_def cover_key_def)
  have none: "routes E us s (cover_key v ip k) = None \<longleftrightarrow> rib_map E s (cover_key v ip k) = None" for k
    by (rule routes_None_iff [OF core])
  have look: "rte_fib_lookup E (fib (vrf_dp_of s v)) ip =
      (case lpm_from 32 m ip of Some nh \<Rightarrow> nh | None \<Rightarrow> fd (fib (vrf_dp_of s v)))"
    by (simp add: m_def fib_lookup [OF route_lawsD(4) [OF assms(1)]])
  show "rib_map E s (cover_key v ip l) = Some (rte_fib_lookup E (fib (vrf_dp_of s v)) ip)"
    if l: "longest_route E us s v ip l"
  proof -
    obtain i where i: "rib_map E s (cover_key v ip l) = Some i"
      using l none by (auto simp: longest_route_def)
    have "lpm_from 32 m ip = Some i"
      unfolding lpm_from_Some using l i by (auto simp: m none longest_route_def intro!: exI [of _ l])
    then show ?thesis using i look by simp
  qed
  show "rte_fib_lookup E (fib (vrf_dp_of s v)) ip = fd (fib (vrf_dp_of s v))" if "uncovered E us s v ip"
  proof -
    have "lpm_from 32 m ip = None"
      unfolding lpm_from_None using that by (auto simp: m none uncovered_def)
    then show ?thesis using look by simp
  qed
qed

section \<open>What a lookup writes\<close>

text \<open>The route table's part only writes the trace, and \<open>exit_flag\<close> and \<open>List_Node\<close> of its VRF.\<close>

definition route_only :: "('h, 'f, 'b) agent \<Rightarrow> ('h, 'f, 'b) agent \<Rightarrow> bool" where
  "route_only s s' \<longleftrightarrow> keeps_routes s s' \<and> nhop_tbl s' = nhop_tbl s \<and> nhop_mem s' = nhop_mem s \<and>
     neigh_tbl s' = neigh_tbl s \<and> neigh_mem s' = neigh_mem s"

lemma route_onlyI [simp]:
  "route_only s s" "route_only s (s\<lparr>hal_log := l\<rparr>)"
  "route_only s (dp_upd v (\<lambda>d. d\<lparr>exit_flag := g d\<rparr>) s)"
  "route_only s (dp_upd v (\<lambda>d. d\<lparr>List_Node := n\<rparr>) s)"
  "route_only s (dp_upd v (\<lambda>d. d\<lparr>exit_flag := g d\<rparr>) (s\<lparr>hal_log := l\<rparr>))"
  "route_only s (dp_upd v (\<lambda>d. d\<lparr>List_Node := n\<rparr>) (s\<lparr>hal_log := l\<rparr>))"
  by (simp_all add: route_only_def keeps_routes_def)

lemma route_offload_only:
  assumes "route_offload E v fr sip dip flag s = Some (r, s')"
  shows "route_only s s' \<and> (r = 0 \<or> r = SHC_LOAD_TO_P4_FAIL)"
  using assms
  by (auto simp: route_offload_def Let_def hal_shim_defs hal_do_eq hal_ret_def const_defs
      split: if_splits Option.bind_splits)

lemma route_only_inv:
  assumes "route_only s s'" "route_inv E us fm s"
  shows "route_inv E us fm s'" "routes E us s' = routes E us s" "rib_map E s' = rib_map E s"
proof -
  have keep: "keeps_routes s s'" "nhop_mem s' = nhop_mem s"
    and tbl: "nhop_tbl s' = nhop_tbl s" "neigh_tbl s' = neigh_tbl s" "neigh_mem s' = neigh_mem s"
    using assms(1) by (auto simp: route_only_def)
  have "nhop_inv E s' = nhop_inv E s" by (rule nhop_inv_cong) (simp_all add: keep tbl)
  moreover have "neigh_inv E s' = neigh_inv E s" by (rule neigh_cong(1)) (simp_all add: tbl)
  ultimately show "route_inv E us fm s'" "routes E us s' = routes E us s" "rib_map E s' = rib_map E s"
    using assms(2) route_core_keeps [OF keep] keeps_routes_rib [OF keep(1)] by (auto simp: route_inv_def)
qed

text \<open>Changing a next hop's use counter changes neither the invariant nor the routes.\<close>

lemma routes_ok_recount:
  assumes ok: "routes_ok L R M F C" and p: "M p = Some f" "nh_ref_count f' = nh_ref_count f"
  shows "routes_ok L R (M(p \<mapsto> f')) F C"
proof -
  have res: "res_ok (M(p \<mapsto> f')) r" if "res_ok M r" for r using that by (auto simp: res_ok_def)
  have "obj_table (\<lambda>k r. route_key_ok k \<and> res_ok (M(p \<mapsto> f')) r) L R"
    by (rule obj_table_mono [OF routes_table [OF ok]]) (use res in blast)
  moreover have "unat (nh_ref_count g) = card (hop_users (obj_view L R) q)" if "(M(p \<mapsto> f')) q = Some g" for q g
    using that p routes_refs [OF ok, of q] by (auto split: if_splits)
  ultimately show ?thesis using ok by (auto simp: routes_ok_def)
qed

lemma nhop_recount:
  assumes inv: "route_inv E us fm s" and p: "nhop_mem s p = Some f"
    and f': "nhop_key_of f' = nhop_key_of f" "nh_ref_count f' = nh_ref_count f"
  shows "route_inv E us fm (s\<lparr>hal_log := l, nhop_mem := (nhop_mem s)(p \<mapsto> f')\<rparr>)"
    "routes E us (s\<lparr>hal_log := l, nhop_mem := (nhop_mem s)(p \<mapsto> f')\<rparr>) = routes E us s"
proof -
  let ?s = "s\<lparr>hal_log := l, nhop_mem := (nhop_mem s)(p \<mapsto> f')\<rparr>"
  have core: "route_core E us fm s" and n: "nhop_inv E s" and g: "neigh_inv E s"
    using inv by (auto simp: route_inv_def)
  have same: "rib_map E ?s = rib_map E s" "rib_live us ?s = rib_live us s"
    by (simp_all add: rib_map_def rib_live_def fun_eq_iff)
  have "route_core E us fm ?s"
    using core routes_ok_recount [OF core_ok [OF core] p f'(2)]
    unfolding route_core_def same by simp
  moreover have "nhop_inv E ?s"
  proof -
    have "nhop_mem s p \<noteq> None" using p by simp
    from obj_noleak [OF n [unfolded nhop_inv_def] this]
    obtain k where k: "rte_hash_lookup_data E (nhop_tbl s) k = Some p" by blast
    from obj_liveE [OF n [unfolded nhop_inv_def] k] p f'
    have "k = nhop_tbl_key (nhop_key_of f') \<and> 0 < nh_ref_count f'" by auto
    from obj_update(1) [OF n [unfolded nhop_inv_def] k, where e = f', OF this]
    show ?thesis by (simp add: nhop_inv_def)
  qed
  moreover have "neigh_inv E ?s" using g neigh_cong(1) [of E ?s s] by simp
  ultimately show "route_inv E us fm ?s" by (simp add: route_inv_def)
  show "routes E us ?s = routes E us s"
  proof -
    have "map_option (\<lambda>f. (nhop_key_of f, c)) (((nhop_mem s)(p \<mapsto> f')) q) =
        map_option (\<lambda>f. (nhop_key_of f, c)) (nhop_mem s q)" for q and c :: rib_type
      using p f'(1) by (cases "q = p") auto
    then show ?thesis unfolding routes_def ribs_def same by (simp cong: option.case_cong)
  qed
qed

text \<open>The entry and the calls after one lookup with flag \<open>fl\<close>.\<close>

definition nhop_counted :: "int \<Rightarrow> fib_nhop \<Rightarrow> fib_nhop" where
  "nhop_counted fl f = f\<lparr>nh_exit_flag := count_user fl (nh_exit_flag f)\<rparr>"

lemma nhop_counted_same [simp]:
  "nhop_key_of (nhop_counted fl f) = nhop_key_of f" "nh_ref_count (nhop_counted fl f) = nh_ref_count f"
  "nh_oid (nhop_counted fl f) = nh_oid f" "nh_exit_flag (nhop_counted fl f) = count_user fl (nh_exit_flag f)"
  by (simp_all add: nhop_counted_def nhop_key_of_def)

definition nhop_call :: "int \<Rightarrow> fib_nhop \<Rightarrow> hal_call option" where
  "nhop_call fl f =
     (if fl = 0 \<and> nh_exit_flag f = 0
      then Some (Hal_nhop_entry_add \<lparr>hk_nhop_id = nh_oid f\<rparr>
        \<lparr>hd_tunnel_key = 11, hd_local = 0xD00001, hd_remote = vxlan_remote (nh_tunnel_info f), hd_neigh_id = nh_neigh_oid f\<rparr>)
      else if fl = 1 \<and> nh_exit_flag f = 1 then Some (Hal_nhop_entry_del \<lparr>hk_nhop_id = nh_oid f\<rparr>)
      else None)"

lemma nhop_offload_eq:
  assumes "nhop_mem s p = Some f"
  shows "nhop_offload E p fl s =
    (case nhop_call fl f of
       None \<Rightarrow> Some (0, s\<lparr>hal_log := hal_log s, nhop_mem := (nhop_mem s)(p \<mapsto> nhop_counted fl f)\<rparr>)
     | Some c \<Rightarrow> let st = hal_status E (hal_log s) c in
         Some (hal_ret st, s\<lparr>hal_log := (c, st) # hal_log s,
           nhop_mem := (nhop_mem s)(p \<mapsto> if st = 0 then nhop_counted fl f else f)\<rparr>))"
proof -
  have one: "0 < sint (1 :: u8)" by simp
  have same: "(nhop_mem s)(p \<mapsto> f) = nhop_mem s" using assms by (simp add: map_upd_triv)
  note run = nhop_offload_def nhop_call_def nhop_counted_def count_user_def Let_def hal_do_eq assms one
    shc_hal_nhop_entry_add_def shc_hal_nhop_entry_del_def same
  consider "fl = 0" "nh_exit_flag f = 0" | "fl = 0" "nh_exit_flag f \<noteq> 0" | "fl = 1" "nh_exit_flag f = 1"
    | "fl = 1" "nh_exit_flag f \<noteq> 1" "0 < sint (nh_exit_flag f)" | "fl = 1" "nh_exit_flag f \<noteq> 1" "\<not> 0 < sint (nh_exit_flag f)"
    | "fl \<noteq> 0" "fl \<noteq> 1" by blast
  then show ?thesis by cases (simp_all add: run)
qed

lemma nhop_offload_spec:
  assumes "nhop_mem s p = Some f"
  obtains r l where "r = 0 \<or> r = SHC_LOAD_TO_P4_FAIL" "nhop_offload E p fl s =
    Some (r, s\<lparr>hal_log := l, nhop_mem := (nhop_mem s)(p \<mapsto> if r = 0 then nhop_counted fl f else f)\<rparr>)"
proof (cases "nhop_call fl f")
  case None
  show thesis by (rule that [of 0 "hal_log s"]) (simp_all add: nhop_offload_eq [OF assms] None)
next
  case (Some c)
  show thesis
    by (rule that [of "hal_ret (hal_status E (hal_log s) c)" "(c, hal_status E (hal_log s) c) # hal_log s"])
       (simp add: hal_ret_def, simp add: nhop_offload_eq [OF assms] Some Let_def)
qed

section \<open>The lookup of a covered address\<close>

text \<open>The route part returns whenever the result and its next hop are there and the list exists.\<close>

lemma dest_add_total: "\<exists>l'. dest_add True l dip = Some l'"
  by (auto simp: dest_add_def addAtHead_def split: prod.splits)

lemma route_offload_total:
  assumes "mpath_nhop s r 0 = Some f" "List_Node (vrf_dp_of s v) = Some l" "malloc_ok E"
  shows "\<exists>ret s'. route_offload E v (Some r) sip dip fl s = Some (ret, s')"
  using assms dest_add_total [of l dip] by (auto simp: route_offload_def Let_def split: prod.splits)

text \<open>The next hop that a lookup reaches.\<close>

lemma longest_routeE:
  assumes "route_laws E us fm fd" "route_inv E us fm s" "v < nat SHC_NR_VRF" "longest_route E us s v ip l"
  obtains i r p f where "rte_fib_lookup E (fib (vrf_dp_of s v)) ip = i" "rib_map E s (cover_key v ip l) = Some i"
    "fib_res_get s i = Some r" "fib_res_mem s i = r" "mpath r = [p]" "mpath_get r 0 = Some p" "nhop_mem s p = Some f"
    "routes E us s (cover_key v ip l) = Some (nhop_key_of f, fib_res_rtype_get r)"
proof -
  have core: "route_core E us fm s" using assms(2) by (simp add: route_inv_def)
  note look = fib_lookup_routes(1) [OF assms]
  show thesis
    by (rule route_presentE [OF core look])
       (rule that [OF refl look], assumption, assumption, assumption, simp add: mpath_get_def)
qed

lemma shc_route_lookup_covered:
  assumes "route_laws E us fm fd" "route_inv E us fm s" "v < nat SHC_NR_VRF"
    and "longest_route E us s v (rte_be_to_cpu_32 dip) l"
    and "List_Node (vrf_dp_of s v) \<noteq> None" "malloc_ok E"
  shows "\<exists>ret i s'. shc_route_lookup E v sip dip fl s = Some (ret, Some i, s') \<and>
    (ret = 0 \<or> ret = SHC_LOAD_TO_P4_FAIL) \<and> route_inv E us fm s' \<and> routes E us s' = routes E us s \<and>
    rib_map E s (cover_key v (rte_be_to_cpu_32 dip) l) = Some i \<and> rib_map E s' = rib_map E s"
proof -
  let ?ip = "rte_be_to_cpu_32 dip" and ?sip = "rte_be_to_cpu_32 sip"
  obtain i r p f where i: "rte_fib_lookup E (fib (vrf_dp_of s v)) ?ip = i"
      "rib_map E s (cover_key v ?ip l) = Some i" "fib_res_get s i = Some r" "mpath_get r 0 = Some p" "nhop_mem s p = Some f"
    using longest_routeE [OF assms(1-4)] by metis
  obtain ln where ln: "List_Node (vrf_dp_of s v) = Some ln" using assms(5) by blast
  have "mpath_nhop s r 0 = Some f" using i by (simp add: mpath_nhop_def)
  from route_offload_total [OF this ln assms(6)] obtain ret s1
    where s1: "route_offload E v (Some r) ?sip ?ip fl s = Some (ret, s1)" by blast
  have only: "route_only s s1" and ret: "ret = 0 \<or> ret = SHC_LOAD_TO_P4_FAIL"
    using route_offload_only [OF s1] by auto
  note inv1 = route_only_inv [OF only assms(2)]
  show ?thesis
  proof (cases "ret < 0")
    case True
    then show ?thesis using inv1 ret i s1 by (simp add: shc_route_lookup_def Let_def)
  next
    case False
    have mem: "nhop_mem s1 p = Some f" using only i by (simp add: route_only_def)
    obtain ret2 lg where s2: "ret2 = 0 \<or> ret2 = SHC_LOAD_TO_P4_FAIL" "nhop_offload E p fl s1 =
        Some (ret2, s1\<lparr>hal_log := lg, nhop_mem := (nhop_mem s1)(p \<mapsto> if ret2 = 0 then nhop_counted fl f else f)\<rparr>)"
      by (rule nhop_offload_spec [where E = E and fl = fl, OF mem])
    let ?f = "if ret2 = 0 then nhop_counted fl f else f"
    have f': "nhop_key_of ?f = nhop_key_of f" "nh_ref_count ?f = nh_ref_count f" by simp_all
    note inv2 = nhop_recount [OF inv1(1) mem f', where l = lg]
    have run: "shc_route_lookup E v sip dip fl s =
        Some (ret2, Some i, s1\<lparr>hal_log := lg, nhop_mem := (nhop_mem s1)(p \<mapsto> ?f)\<rparr>)"
      using False i s1 s2(2) by (simp add: shc_route_lookup_def Let_def)
    show ?thesis
      unfolding run using inv2 inv1(2,3) i(2) s2(1) by (auto simp: rib_map_def)
  qed
qed

text \<open>
  C18. \<open>shc_route_lookup\<close> is the longest-prefix match of the routes that were inserted: on
  consistent tables, for an address some route of the VRF covers, once the VRF's list of destinations
  exists and while no \<open>malloc\<close> fails, it always returns, with the result of the longest prefix that covers
  the address (the one the route's table entry stores, and so the next hop the route was given), whatever
  the flag and whether or not the hardware accepts the entries; its status is 0 or
  \<open>SHC_LOAD_TO_P4_FAIL\<close>. It changes no route and keeps the tables consistent.
\<close>

theorem shc_route_lookup_longest_match:
  assumes "route_laws E us fm fd" "route_inv E us fm s" "v < nat SHC_NR_VRF"
    and "longest_route E us s v (rte_be_to_cpu_32 dip) l"
    and "List_Node (vrf_dp_of s v) \<noteq> None" "malloc_ok E"
  shows "\<exists>ret i s' p f. shc_route_lookup E v sip dip fl s = Some (ret, Some i, s') \<and>
    (ret = 0 \<or> ret = SHC_LOAD_TO_P4_FAIL) \<and> route_inv E us fm s' \<and> routes E us s' = routes E us s \<and>
    mpath (fib_res_mem s' i) = [p] \<and> nhop_mem s' p = Some f \<and>
    routes E us s (cover_key v (rte_be_to_cpu_32 dip) l) =
      Some (nhop_key_of f, fib_res_rtype_get (fib_res_mem s' i))"
proof -
  obtain ret i s' where r: "shc_route_lookup E v sip dip fl s = Some (ret, Some i, s')"
    "ret = 0 \<or> ret = SHC_LOAD_TO_P4_FAIL" "route_inv E us fm s'" "routes E us s' = routes E us s"
    "rib_map E s (cover_key v (rte_be_to_cpu_32 dip) l) = Some i" "rib_map E s' = rib_map E s"
    using shc_route_lookup_covered [OF assms] by blast
  have core: "route_core E us fm s'" using r(3) by (simp add: route_inv_def)
  have "rib_map E s' (cover_key v (rte_be_to_cpu_32 dip) l) = Some i" using r by simp
  from route_presentE [OF core this] obtain p f where
    "mpath (fib_res_mem s' i) = [p]" "nhop_mem s' p = Some f"
    "routes E us s' (cover_key v (rte_be_to_cpu_32 dip) l) =
      Some (nhop_key_of f, fib_res_rtype_get (fib_res_mem s' i))" by metis
  with r show ?thesis by auto
qed

text \<open>An agent with one route and the list made, as \<open>shc_swTohw_rule\<close> makes it.\<close>

definition agent_listed :: "(slots, alist_fib, int list) agent" where
  "agent_listed = dp_upd 0 (\<lambda>d. d\<lparr>List_Node := Some initLink\<rparr>) agent_route"

lemma agent_listed_ok:
  "route_inv (lib0 4) set (\<lambda>f. map_of (fst f)) agent_listed"
  "routes (lib0 4) set agent_listed = [rib_tbl_key pfx0 \<mapsto> (hop0, RT_DEFAULT)]"
  "List_Node (vrf_dp_of agent_listed 0) = Some initLink"
proof -
  have "route_only agent_route agent_listed" by (simp add: agent_listed_def)
  from route_only_inv [OF this agent_route_ok(1)] agent_route_ok(2)
  show "route_inv (lib0 4) set (\<lambda>f. map_of (fst f)) agent_listed"
    "routes (lib0 4) set agent_listed = [rib_tbl_key pfx0 \<mapsto> (hop0, RT_DEFAULT)]" by simp_all
qed (simp add: agent_listed_def)

lemma cover_key_eq:
  "k \<le> 32 \<Longrightarrow> cover_key 0 (rte_be_to_cpu_32 0x0302010a) k = rib_tbl_key pfx0 \<longleftrightarrow> k = 8"
proof
  assume k: "k \<le> 32" and "cover_key 0 (rte_be_to_cpu_32 0x0302010a) k = rib_tbl_key pfx0"
  then have "(of_nat k :: u8) = 8" by (simp add: cover_key_def rib_key_of_def pfx0_def)
  then have "unat (of_nat k :: u8) = unat (8 :: u8)" by simp
  then show "k = 8" using k by (simp add: unat_of_nat)
next
  assume "k = 8"
  then show "cover_key 0 (rte_be_to_cpu_32 0x0302010a) k = rib_tbl_key pfx0"
    by (simp add: cover_key_def rib_key_of_def pfx0_def ip_net_def bswap32_def Let_def)
qed

lemma agent_listed_longest:
  "longest_route (lib0 4) set agent_listed 0 (rte_be_to_cpu_32 0x0302010a) 8"
  by (auto simp: longest_route_def agent_listed_ok(2) cover_key_eq)

lemma shc_route_lookup_longest_match_witness:
  "\<exists>ret i s' p f. shc_route_lookup (lib0 4) 0 0x0100000a 0x0302010a 0 agent_listed = Some (ret, Some i, s') \<and>
    mpath (fib_res_mem s' i) = [p] \<and> nhop_mem s' p = Some f \<and> nhop_key_of f = hop0"
  using shc_route_lookup_longest_match [OF route_laws_lib0 agent_listed_ok(1) _ agent_listed_longest, where sip = "0x0100000a" and fl = 0]
  by (auto simp: agent_listed_ok(2,3) SHC_NR_VRF_def cover_key_eq)

section \<open>The lookup of an address no route covers\<close>

text \<open>
  The blackhole's result, which the LPM table gives for an address that no route of the VRF
  covers, has no next hop, and \<open>shc_route_lookup\<close> dereferences the pointer all the same: a lookup
  to add a rule for such an address never returns, and no lookup of it returns 0. The callers'
  tests for a rejecting result come too late.
\<close>

theorem shc_route_lookup_uncovered_faults:
  assumes "route_laws E us fm fd" "route_inv E us fm s" "v < nat SHC_NR_VRF"
    and "uncovered E us s v (rte_be_to_cpu_32 dip)"
    and "fd (fib (vrf_dp_of s v)) = f_res_blackhole s"
    and "mpath (fib_res_mem s (f_res_blackhole s)) = [NULL]" "nhop_mem s NULL = None"
  shows "shc_route_lookup E v sip dip fl s = None \<or>
    (fl = 1 \<and> (\<exists>ret i s'. shc_route_lookup E v sip dip fl s = Some (ret, i, s') \<and> ret < 0))"
proof -
  let ?ip = "rte_be_to_cpu_32 dip" and ?sip = "rte_be_to_cpu_32 sip"
  define r where "r = fib_res_mem s (f_res_blackhole s)"
  have core: "route_core E us fm s" using assms(2) by (simp add: route_inv_def)
  have "f_res_blackhole s \<in> {0..<FIB_RES_LEN}" using core_used [OF core] by blast
  moreover have "rte_fib_lookup E (fib (vrf_dp_of s v)) ?ip = f_res_blackhole s"
    using fib_lookup_routes(2) [OF assms(1-4)] assms(5) by simp
  ultimately have fr: "fib_res_get s (rte_fib_lookup E (fib (vrf_dp_of s v)) ?ip) = Some r"
    by (simp add: fib_res_get_def r_def)
  have p: "mpath_get r 0 = Some NULL" and nh: "mpath_nhop s r 0 = None"
    using assms(6,7) by (simp_all add: r_def mpath_get_def mpath_nhop_def)
  show ?thesis
  proof (cases "route_offload E v (Some r) ?sip ?ip fl s")
    case None
    then show ?thesis using fr by (simp add: shc_route_lookup_def Let_def)
  next
    case (Some res)
    obtain ret s1 where res: "res = (ret, s1)" by (cases res)
    have "nhop_mem s1 NULL = None"
      using route_offload_only [OF Some [unfolded res]] assms(7) by (simp add: route_only_def)
    then have stop: "nhop_offload E NULL fl s1 = None" by (simp add: nhop_offload_def)
    have add: "fl = 0 \<Longrightarrow> ret = 0"
      using Some [unfolded res] nh
      by (auto simp: route_offload_def Let_def split: if_splits Option.bind_splits)
    have other: "fl \<noteq> 0 \<Longrightarrow> fl \<noteq> 1 \<Longrightarrow> ret = 0"
      using Some [unfolded res] by (simp add: route_offload_def)
    from add other have "ret < 0 \<Longrightarrow> fl = 1" by (cases "fl = 0"; cases "fl = 1") auto
    then show ?thesis using fr Some res p stop by (simp add: shc_route_lookup_def Let_def)
  qed
qed

lemma shc_route_lookup_uncovered_faults_witness:
  "shc_route_lookup (lib0 4) 0 0x0100000a 0x0302010a 0 agent0 = None"
proof -
  have "uncovered (lib0 4) set agent0 0 (rte_be_to_cpu_32 0x0302010a)"
    by (simp add: uncovered_def routes_agent0)
  moreover have "fib (vrf_dp_of agent0 0) = ([], 0)" "f_res_blackhole agent0 = 0"
    "mpath (fib_res_mem agent0 0) = [NULL]" "nhop_mem agent0 NULL = None"
    by (simp_all add: agent0_def vrf_dp0_def)
  ultimately show ?thesis
    using shc_route_lookup_uncovered_faults [OF route_laws_lib0 [of 4] route_inv_agent0, of 0 "0x0302010a" "0x0100000a" 0]
    by (simp add: SHC_NR_VRF_def)
qed

section \<open>The hardware's next-hop table\<close>

text \<open>The next hop a lookup of \<open>dip\<close> reaches, and the lookup as a step of the offload protocol.\<close>

definition reached_hop ::
  "('h, 'f, 'b) lib \<Rightarrow> nat \<Rightarrow> u32 \<Rightarrow> ('h, 'f, 'b) agent \<Rightarrow> (ptr \<times> fib_nhop) option" where
  "reached_hop E v dip s = do {
     r \<leftarrow> fib_res_get s (rte_fib_lookup E (fib (vrf_dp_of s v)) (rte_be_to_cpu_32 dip));
     p \<leftarrow> mpath_get r 0;
     f \<leftarrow> nhop_mem s p;
     Some (p, f)
   }"

fun adds_nhop :: "u32 \<Rightarrow> hal_call \<Rightarrow> bool" where
  "adds_nhop oid (Hal_nhop_entry_add key data) = (hk_nhop_id key = oid)"
| "adds_nhop oid _ = False"

fun dels_nhop :: "u32 \<Rightarrow> hal_call \<Rightarrow> bool" where
  "dels_nhop oid (Hal_nhop_entry_del key) = (hk_nhop_id key = oid)"
| "dels_nhop oid _ = False"

definition nhop_users :: "('h, 'f, 'b) lib \<Rightarrow> nat \<Rightarrow> u32 \<Rightarrow> ('h, 'f, 'b) agent \<Rightarrow> u8" where
  "nhop_users E v dip s = (case reached_hop E v dip s of None \<Rightarrow> 0 | Some (p, f) \<Rightarrow> nh_exit_flag f)"

definition nhop_offloaded :: "('h, 'f, 'b) lib \<Rightarrow> nat \<Rightarrow> u32 \<Rightarrow> ('h, 'f, 'b) agent \<Rightarrow> bool" where
  "nhop_offloaded E v dip s =
     (case reached_hop E v dip s of None \<Rightarrow> False
      | Some (p, f) \<Rightarrow> hw_present (adds_nhop (nh_oid f)) (dels_nhop (nh_oid f)) (hal_log s))"

definition lookup_ready :: "('h, 'f, 'b) lib \<Rightarrow> nat \<Rightarrow> u32 \<Rightarrow> ('h, 'f, 'b) agent \<Rightarrow> bool" where
  "lookup_ready E v dip s \<longleftrightarrow> hal_never_fails E \<and> malloc_ok E \<and>
     List_Node (vrf_dp_of s v) \<noteq> None \<and> reached_hop E v dip s \<noteq> None"

definition route_lookup_step ::
  "('h, 'f, 'b) lib \<Rightarrow> nat \<Rightarrow> u32 \<Rightarrow> u32 \<Rightarrow> int \<Rightarrow> ('h, 'f, 'b) agent \<Rightarrow> ('h, 'f, 'b) agent option" where
  "route_lookup_step E v sip dip fl s = map_option (\<lambda>(r, i, s'). s') (shc_route_lookup E v sip dip fl s)"

text \<open>The calls the two parts add to the trace.\<close>

fun route_call :: "hal_call \<Rightarrow> bool" where
  "route_call (Hal_route_entry_add key data) = True"
| "route_call (Hal_route_entry_del key) = True"
| "route_call _ = False"

lemma hw_present_skip:
  assumes "\<And>c. c \<in> fst ` set cs \<Longrightarrow> \<not> ad c \<and> \<not> del c"
  shows "hw_present ad del (cs @ tr) = hw_present ad del tr"
  using assms by (induction cs) (fastforce+)

lemma route_call_nhop: "route_call c \<Longrightarrow> \<not> adds_nhop oid c \<and> \<not> dels_nhop oid c"
  by (cases c) auto

lemma route_offload_run:
  assumes "mpath_nhop s r 0 = Some f" "List_Node (vrf_dp_of s v) = Some l" "malloc_ok E" "hal_never_fails E"
  obtains s1 cs where "route_offload E v (Some r) sip dip fl s = Some (0, s1)" "route_only s s1"
    "hal_log s1 = cs @ hal_log s" "fst ` set cs \<subseteq> Collect route_call" "List_Node (vrf_dp_of s1 v) \<noteq> None"
proof -
  obtain l' where l': "dest_add True l dip = Some l'" using dest_add_total by blast
  note run = route_offload_def Let_def hal_shim_defs hal_do_eq hal_never_failsD [OF assms(4)] assms l'
  have "\<exists>s1 cs. route_offload E v (Some r) sip dip fl s = Some (0, s1) \<and>
    hal_log s1 = cs @ hal_log s \<and> fst ` set cs \<subseteq> Collect route_call \<and> List_Node (vrf_dp_of s1 v) \<noteq> None"
    by (cases "fl = 0"; cases "fl = 1"; cases "lpm_em r > 0"; cases "lpm_em r = 0") (auto simp: run)
  then obtain s1 cs where s1: "route_offload E v (Some r) sip dip fl s = Some (0, s1)"
    "hal_log s1 = cs @ hal_log s" "fst ` set cs \<subseteq> Collect route_call" "List_Node (vrf_dp_of s1 v) \<noteq> None" by blast
  show thesis by (rule that [OF s1(1) conjunct1 [OF route_offload_only [OF s1(1)]] s1(2-4)])
qed

lemma reached_hop_cong:
  assumes "route_only s s'" shows "reached_hop E v dip s' = reached_hop E v dip s"
  using assms by (simp add: reached_hop_def route_only_def keeps_routes_def fib_res_get_def)

lemma reached_hop_upd:
  assumes "reached_hop E v dip s = Some (p, f)"
  shows "reached_hop E v dip (s\<lparr>hal_log := l, nhop_mem := (nhop_mem s)(p \<mapsto> f')\<rparr>) = Some (p, f')"
  using assms by (auto simp: reached_hop_def fib_res_get_def split: Option.bind_splits if_splits)

lemma lookup_ready_step:
  assumes "lookup_ready E v dip s" "reached_hop E v dip s = Some (p, f)"
  obtains s' cs where "route_lookup_step E v sip dip fl s = Some s'"
    "shc_route_lookup E v sip dip fl s = Some (0, Some (rte_fib_lookup E (fib (vrf_dp_of s v)) (rte_be_to_cpu_32 dip)), s')"
    "lookup_ready E v dip s'"
    "reached_hop E v dip s' = Some (p, nhop_counted fl f)" "fst ` set cs \<subseteq> Collect route_call"
    "hal_log s' = (case nhop_call fl f of None \<Rightarrow> [] | Some c \<Rightarrow> [(c, 0)]) @ cs @ hal_log s"
    "\<exists>r. fib_res_get s (rte_fib_lookup E (fib (vrf_dp_of s v)) (rte_be_to_cpu_32 dip)) = Some r \<and>
       (\<exists>s1. route_offload E v (Some r) (rte_be_to_cpu_32 sip) (rte_be_to_cpu_32 dip) fl s = Some (0, s1) \<and>
          hal_log s1 = cs @ hal_log s \<and> g_shc_vrfs s' = g_shc_vrfs s1)"
proof -
  obtain r where r: "fib_res_get s (rte_fib_lookup E (fib (vrf_dp_of s v)) (rte_be_to_cpu_32 dip)) = Some r"
    "mpath_get r 0 = Some p" "nhop_mem s p = Some f"
    using assms(2) by (auto simp: reached_hop_def split: Option.bind_splits)
  obtain l where l: "List_Node (vrf_dp_of s v) = Some l" using assms(1) by (auto simp: lookup_ready_def)
  have E: "malloc_ok E" "hal_never_fails E" using assms(1) by (auto simp: lookup_ready_def)
  have "mpath_nhop s r 0 = Some f" using r by (simp add: mpath_nhop_def)
  from route_offload_run [OF this l E, where sip = "rte_be_to_cpu_32 sip" and dip = "rte_be_to_cpu_32 dip" and fl = fl]
  obtain s1 cs where s1: "route_offload E v (Some r) (rte_be_to_cpu_32 sip) (rte_be_to_cpu_32 dip) fl s = Some (0, s1)"
    "route_only s s1" "hal_log s1 = cs @ hal_log s" "fst ` set cs \<subseteq> Collect route_call"
    "List_Node (vrf_dp_of s1 v) \<noteq> None" by blast
  have mem: "nhop_mem s1 p = Some f" using s1(2) r by (simp add: route_only_def)
  define lg where "lg = (case nhop_call fl f of None \<Rightarrow> [] | Some c \<Rightarrow> [(c, 0)]) @ hal_log s1"
  define s' where "s' = s1\<lparr>hal_log := lg, nhop_mem := (nhop_mem s1)(p \<mapsto> nhop_counted fl f)\<rparr>"
  have "nhop_offload E p fl s1 = Some (0, s')"
    using nhop_offload_eq [OF mem, of E fl]
    by (simp add: s'_def lg_def hal_never_failsD [OF E(2)] Let_def split: option.splits)
  then have run: "shc_route_lookup E v sip dip fl s =
      Some (0, Some (rte_fib_lookup E (fib (vrf_dp_of s v)) (rte_be_to_cpu_32 dip)), s')"
    using r s1(1) by (simp add: shc_route_lookup_def Let_def)
  have "reached_hop E v dip s1 = Some (p, f)" using reached_hop_cong [OF s1(2)] assms(2) by simp
  from reached_hop_upd [OF this] have hop: "reached_hop E v dip s' = Some (p, nhop_counted fl f)"
    by (simp add: s'_def)
  have ready: "lookup_ready E v dip s'" using E s1(5) hop by (simp add: lookup_ready_def) (simp add: s'_def)
  show thesis
    by (rule that [where s' = s' and cs = cs])
       (use run hop ready s1 r in \<open>auto simp: route_lookup_step_def s'_def lg_def\<close>)
qed

interpretation nhop_off: offload_counter "route_lookup_step E v sip dip" "lookup_ready E v dip"
  "nhop_users E v dip" "nhop_offloaded E v dip" for E :: "('h, 'f, 'b) lib" and v sip dip
proof (rule offload_counterI)
  fix s :: "('h, 'f, 'b) agent" and fl
  assume ready: "lookup_ready E v dip s"
  then obtain p f where hop: "reached_hop E v dip s = Some (p, f)" by (auto simp: lookup_ready_def)
  obtain s' cs where s': "route_lookup_step E v sip dip fl s = Some s'" "lookup_ready E v dip s'"
    "reached_hop E v dip s' = Some (p, nhop_counted fl f)" "fst ` set cs \<subseteq> Collect route_call"
    "hal_log s' = (case nhop_call fl f of None \<Rightarrow> [] | Some c \<Rightarrow> [(c, 0)]) @ cs @ hal_log s"
    by (rule lookup_ready_step [OF ready hop, where sip = sip and fl = fl]) blast
  have skip: "hw_present (adds_nhop (nh_oid f)) (dels_nhop (nh_oid f)) (cs @ hal_log s) =
      hw_present (adds_nhop (nh_oid f)) (dels_nhop (nh_oid f)) (hal_log s)"
    by (rule hw_present_skip) (use s'(4) route_call_nhop in blast)
  have one: "0 < sint (1 :: u8)" by simp
  have "nhop_offloaded E v dip s' =
      hw_user fl (nhop_users E v dip s) (nhop_offloaded E v dip s)"
    using skip by (simp add: nhop_offloaded_def nhop_users_def hop s'(3,5) hw_user_def nhop_call_def)
  then show "\<exists>s'. route_lookup_step E v sip dip fl s = Some s' \<and> lookup_ready E v dip s' \<and>
      nhop_users E v dip s' = count_user fl (nhop_users E v dip s) \<and>
      nhop_offloaded E v dip s' = hw_user fl (nhop_users E v dip s) (nhop_offloaded E v dip s)"
    using s' hop by (intro exI [of _ s']) (simp add: nhop_users_def)
qed

text \<open>
  While a next hop has at most 127 users, any sequence of \<open>shc_route_lookup\<close> calls of a covered
  address keeps the hardware's next-hop table in step with them: the next hop is in the table
  exactly while there are users left.
\<close>

theorem shc_route_lookup_nhop_sync:
  assumes "lookup_ready E v dip s" and "0 \<le> sint (nhop_users E v dip s)"
    and "nhop_offloaded E v dip s = (nhop_users E v dip s \<noteq> 0)"
    and "peak fls (sint (nhop_users E v dip s)) \<le> 127"
  shows "\<exists>s'. lookups (route_lookup_step E v sip dip) fls s = Some s' \<and>
      sint (nhop_users E v dip s') = users fls (sint (nhop_users E v dip s)) \<and>
      nhop_offloaded E v dip s' = (users fls (sint (nhop_users E v dip s)) > 0)"
proof -
  have "nhop_off.synced E v dip s" using assms(1-3) by (simp add: nhop_off.synced_def)
  from nhop_off.lookups_synced [OF this assms(4)] show ?thesis
    using sint_zero_iff by (fastforce simp: nhop_off.synced_def)
qed

lemma agent_listed_run:
  "reached_hop (lib0 4) 0 0x0302010a agent_listed \<noteq> None \<and> nhop_users (lib0 4) 0 0x0302010a agent_listed = 0 \<and>
   \<not> nhop_offloaded (lib0 4) 0 0x0302010a agent_listed"
  by code_simp

lemma agent_listed_ready: "lookup_ready (lib0 4) 0 0x0302010a agent_listed"
  using agent_listed_run by (simp add: lookup_ready_def hal_never_fails_lib0 agent_listed_ok(3))

lemma shc_route_lookup_nhop_sync_witness:
  "\<exists>s'. lookups (route_lookup_step (lib0 4) 0 1 0x0302010a) [0, 0, 1] agent_listed = Some s' \<and>
      sint (nhop_users (lib0 4) 0 0x0302010a s') = 1 \<and> nhop_offloaded (lib0 4) 0 0x0302010a s'"
  using shc_route_lookup_nhop_sync [of "lib0 4" 0 "0x0302010a" agent_listed "[0, 0, 1]" 1]
    agent_listed_ready agent_listed_run by simp

section \<open>The hardware's route table\<close>

fun adds_route :: "hal_route_key \<Rightarrow> hal_call \<Rightarrow> bool" where
  "adds_route k (Hal_route_entry_add key data) = (key = k)"
| "adds_route k _ = False"

fun dels_route :: "hal_route_key \<Rightarrow> hal_call \<Rightarrow> bool" where
  "dels_route k (Hal_route_entry_del key) = (key = k)"
| "dels_route k _ = False"

text \<open>The hardware's key of a flow, and whether the hardware has a route entry for it.\<close>

definition flow_key :: "nat \<Rightarrow> u32 \<Rightarrow> u32 \<Rightarrow> ('h, 'f, 'b) agent \<Rightarrow> hal_route_key" where
  "flow_key v sip dip s = \<lparr>hk_vrf = ucast (vrf_id (vrf_dp_of s v)), hk_ip_src_addr = rte_be_to_cpu_32 sip,
     hk_ip_dst_addr = rte_be_to_cpu_32 dip\<rparr>"

definition flow_offloaded :: "nat \<Rightarrow> u32 \<Rightarrow> u32 \<Rightarrow> ('h, 'f, 'b) agent \<Rightarrow> bool" where
  "flow_offloaded v sip dip s =
     hw_present (adds_route (flow_key v sip dip s)) (dels_route (flow_key v sip dip s)) (hal_log s)"

lemma nhop_call_route: "nhop_call fl f = Some c \<Longrightarrow> \<not> adds_route k c \<and> \<not> dels_route k c"
  by (auto simp: nhop_call_def split: if_splits)

text \<open>The flow's entry after a lookup, by the calls of the route part alone.\<close>

lemma flow_offloaded_step:
  assumes "lookup_ready E v dip s" "fib_res_get s (rte_fib_lookup E (fib (vrf_dp_of s v)) (rte_be_to_cpu_32 dip)) = Some r"
    and "route_offload E v (Some r) (rte_be_to_cpu_32 sip) (rte_be_to_cpu_32 dip) fl s = Some (0, s1)"
  obtains i s' where "shc_route_lookup E v sip dip fl s = Some (0, i, s')" "g_shc_vrfs s' = g_shc_vrfs s1"
    "flow_offloaded v sip dip s' = flow_offloaded v sip dip s1"
proof -
  obtain p f where hop: "reached_hop E v dip s = Some (p, f)" using assms(1) by (auto simp: lookup_ready_def)
  from lookup_ready_step [OF assms(1) hop, where sip = sip and fl = fl] assms(2,3)
  obtain i s' where s': "shc_route_lookup E v sip dip fl s = Some (0, i, s')" "g_shc_vrfs s' = g_shc_vrfs s1"
    "hal_log s' = (case nhop_call fl f of None \<Rightarrow> [] | Some c \<Rightarrow> [(c, 0)]) @ hal_log s1"
    by (metis append.assoc option.inject prod.inject)
  have key: "flow_key v sip dip s' = flow_key v sip dip s1" using s'(2) by (simp add: flow_key_def)
  have "flow_offloaded v sip dip s' = flow_offloaded v sip dip s1"
    unfolding flow_offloaded_def key s'(3)
    by (rule hw_present_skip) (auto simp: nhop_call_route split: option.splits)
  then show thesis by (rule that [OF s'(1,2)])
qed

text \<open>
  Whether a flow's route entry is in the hardware is decided by counters of the whole VRF: once
  some host route of the VRF has been looked up (\<open>exit_flag\<close> is not 0) and some shorter prefix too
  (the list is not empty), adding a flow returns success and never programs it.
\<close>

theorem shc_route_lookup_flow_missing:
  assumes "lookup_ready E v dip s" "exit_flag (vrf_dp_of s v) \<noteq> 0"
    and "List_Node (vrf_dp_of s v) = Some l" "List_len l \<noteq> 0" "\<not> flow_offloaded v sip dip s"
  shows "\<exists>i s'. shc_route_lookup E v sip dip 0 s = Some (0, i, s') \<and> \<not> flow_offloaded v sip dip s'"
proof -
  obtain r where r: "fib_res_get s (rte_fib_lookup E (fib (vrf_dp_of s v)) (rte_be_to_cpu_32 dip)) = Some r"
    using assms(1) by (auto simp: lookup_ready_def reached_hop_def split: Option.bind_splits)
  have E: "malloc_ok E" using assms(1) by (simp add: lookup_ready_def)
  obtain l' where l': "dest_add True l (rte_be_to_cpu_32 dip) = Some l'" using dest_add_total by blast
  have "\<exists>s1. route_offload E v (Some r) (rte_be_to_cpu_32 sip) (rte_be_to_cpu_32 dip) 0 s = Some (0, s1) \<and>
      hal_log s1 = hal_log s \<and> vrf_id (vrf_dp_of s1 v) = vrf_id (vrf_dp_of s v)"
    using assms E l' by (simp add: route_offload_def Let_def)
  then obtain s1 where s1: "route_offload E v (Some r) (rte_be_to_cpu_32 sip) (rte_be_to_cpu_32 dip) 0 s = Some (0, s1)"
    "hal_log s1 = hal_log s" "vrf_id (vrf_dp_of s1 v) = vrf_id (vrf_dp_of s v)" by blast
  have "\<not> flow_offloaded v sip dip s1" using assms(5) s1 by (simp add: flow_offloaded_def flow_key_def)
  then show ?thesis using flow_offloaded_step [OF assms(1) r s1(1)] by metis
qed

text \<open>The state after a flow over a host route and a flow to another address of the prefix.\<close>

definition agent_two_flows :: "(slots, alist_fib, int list) agent" where
  "agent_two_flows = dp_upd 0 (\<lambda>d. d\<lparr>List_Node := Some \<lparr>List_head = [\<lparr>lpm_counter = 1, rout_info = 0x0a020202\<rparr>], List_len = 1\<rparr>\<rparr>)
     (dp_upd 0 (\<lambda>d. d\<lparr>exit_flag := exit_flag d + 1\<rparr>) agent_listed)"

lemma agent_listed_flags:
  "exit_flag (vrf_dp_of agent_listed 0) = 0 \<and> \<not> flow_offloaded 0 0x0100000a 0x0302010a agent_listed"
  by code_simp

lemma lookup_ready_cong:
  "route_only s s' \<Longrightarrow> lookup_ready E v dip s \<Longrightarrow> List_Node (vrf_dp_of s' v) \<noteq> None \<Longrightarrow> lookup_ready E v dip s'"
  using reached_hop_cong [of s s' E v dip] by (simp add: lookup_ready_def)

lemma agent_two_flows_ready: "lookup_ready (lib0 4) 0 0x0302010a agent_two_flows"
proof (rule lookup_ready_cong)
  show "lookup_ready (lib0 4) 0 0x0302010a (dp_upd 0 (\<lambda>d. d\<lparr>exit_flag := exit_flag d + 1\<rparr>) agent_listed)"
    by (rule lookup_ready_cong [OF _ agent_listed_ready]) (simp_all add: agent_listed_ok(3))
qed (simp_all add: agent_two_flows_def)

lemma shc_route_lookup_flow_missing_witness:
  "\<exists>i s'. shc_route_lookup (lib0 4) 0 0x0100000a 0x0302010a 0 agent_two_flows = Some (0, i, s') \<and>
     \<not> flow_offloaded 0 0x0100000a 0x0302010a s'"
proof (rule shc_route_lookup_flow_missing [OF agent_two_flows_ready])
  show "exit_flag (vrf_dp_of agent_two_flows 0) \<noteq> 0"
    using agent_listed_flags by (simp add: agent_two_flows_def)
  show "List_Node (vrf_dp_of agent_two_flows 0) = Some \<lparr>List_head = [\<lparr>lpm_counter = 1, rout_info = 0x0a020202\<rparr>], List_len = 1\<rparr>"
    by (simp add: agent_two_flows_def)
  show "\<not> flow_offloaded 0 0x0100000a 0x0302010a agent_two_flows"
    using agent_listed_flags by (simp add: agent_two_flows_def flow_offloaded_def flow_key_def)
qed simp

text \<open>
  And it is removed too early: when the list has one address, the first deletion of a flow to it
  removes the hardware's entry, however many other flows still count the address.
\<close>

theorem shc_route_lookup_early_delete:
  assumes "lookup_ready E v dip s" "List_Node (vrf_dp_of s v) = Some l" "List_len l = 1" "dest_ok l"
    and "2 \<le> count (dest_bag l) (rte_be_to_cpu_32 dip)"
    and "fib_res_get s (rte_fib_lookup E (fib (vrf_dp_of s v)) (rte_be_to_cpu_32 dip)) = Some r" "0 < lpm_em r"
  shows "\<exists>i s' l'. shc_route_lookup E v sip dip 1 s = Some (0, i, s') \<and> \<not> flow_offloaded v sip dip s' \<and>
    List_Node (vrf_dp_of s' v) = Some l' \<and> rte_be_to_cpu_32 dip \<in># dest_bag l'"
proof -
  have hal: "hal_never_fails E" using assms(1) by (simp add: lookup_ready_def)
  define l' where "l' = deleteAtVal l (rte_be_to_cpu_32 dip)"
  have "dest_bag l' = dest_bag l - {#rte_be_to_cpu_32 dip#}" using deleteAtVal_bag [OF assms(4)] by (simp add: l'_def)
  then have still: "rte_be_to_cpu_32 dip \<in># dest_bag l'" using assms(5) by (subst count_greater_zero_iff [symmetric]) simp
  define s1 where "s1 = dp_upd v (\<lambda>d. d\<lparr>List_Node := Some l'\<rparr>)
    (s\<lparr>hal_log := (Hal_route_entry_del (flow_key v sip dip s), 0) # hal_log s\<rparr>)"
  have "route_offload E v (Some r) (rte_be_to_cpu_32 sip) (rte_be_to_cpu_32 dip) 1 s = Some (0, s1)"
    using assms(2,3,7)
    by (simp add: route_offload_def Let_def shc_hal_route_entry_del_def hal_do_eq hal_never_failsD [OF hal]
        s1_def flow_key_def l'_def [symmetric])
  moreover have "\<not> flow_offloaded v sip dip s1" "List_Node (vrf_dp_of s1 v) = Some l'"
    by (simp_all add: s1_def flow_offloaded_def flow_key_def)
  ultimately obtain s1 where s1: "route_offload E v (Some r) (rte_be_to_cpu_32 sip) (rte_be_to_cpu_32 dip) 1 s = Some (0, s1)"
    "\<not> flow_offloaded v sip dip s1" "List_Node (vrf_dp_of s1 v) = Some l'" by blast
  obtain i s' where "shc_route_lookup E v sip dip 1 s = Some (0, i, s')" "g_shc_vrfs s' = g_shc_vrfs s1"
    "flow_offloaded v sip dip s' = flow_offloaded v sip dip s1"
    by (rule flow_offloaded_step [OF assms(1,6) s1(1)])
  then show ?thesis using s1 still by auto
qed

definition agent_twice :: "(slots, alist_fib, int list) agent" where
  "agent_twice = dp_upd 0 (\<lambda>d. d\<lparr>List_Node := Some \<lparr>List_head = [\<lparr>lpm_counter = 2, rout_info = 0x0a010203\<rparr>], List_len = 1\<rparr>\<rparr>)
     agent_listed"

lemma agent_twice_lpm:
  "case fib_res_get agent_twice (rte_fib_lookup (lib0 4) (fib (vrf_dp_of agent_twice 0)) 0x0a010203) of
     None \<Rightarrow> False | Some r \<Rightarrow> 0 < lpm_em r"
  by code_simp

lemma shc_route_lookup_early_delete_witness:
  "\<exists>i s' l'. shc_route_lookup (lib0 4) 0 0x0100000a 0x0302010a 1 agent_twice = Some (0, i, s') \<and>
     \<not> flow_offloaded 0 0x0100000a 0x0302010a s' \<and> List_Node (vrf_dp_of s' 0) = Some l' \<and> 0x0a010203 \<in># dest_bag l'"
proof -
  have ip: "rte_be_to_cpu_32 0x0302010a = 0x0a010203" by (simp add: bswap32_def)
  have ready: "lookup_ready (lib0 4) 0 0x0302010a agent_twice"
    by (rule lookup_ready_cong [OF _ agent_listed_ready]) (simp_all add: agent_twice_def)
  obtain r where r: "fib_res_get agent_twice (rte_fib_lookup (lib0 4) (fib (vrf_dp_of agent_twice 0)) 0x0a010203) = Some r"
    "0 < lpm_em r"
    using agent_twice_lpm by (auto split: option.splits)
  show ?thesis
    using shc_route_lookup_early_delete [OF ready, where sip = "0x0100000a" and r = r] r
    unfolding ip by (simp add: agent_twice_def dest_ok_def nodes_ok_def dest_bag_def)
qed

end
