(* ===== verification/Entry_Api.thy ===== *)
theory Entry_Api
  imports Route_Lookup Tunnel_Map
begin

text \<open>
  \<open>agent/entry_api.c\<close>: \<open>shc_swTohw_rule\<close>, the entry point through which the flow statistics move a
  flow's rules into the hardware (flag 0) or out of it (flag 1), over the lookups of the tunnel map,
  of the routes and of the neighbours.
\<close>

section \<open>The operation\<close>

text \<open>
  The initialiser of the union \<open>tunnel_id\<close> names three members of the same storage; the last one,
  \<open>.common_id = 0\<close>, is its value. The two assignments of \<open>exit_flag\<close> and of a new list are made
  twice in a row. A list that cannot be allocated is initialised all the same.
\<close>

definition shc_swTohw_rule ::
  "('h, 'f, 'b) lib \<Rightarrow> u32 \<Rightarrow> u32 \<Rightarrow> u32 \<Rightarrow> int \<Rightarrow> ('h, 'f, 'b) agent \<Rightarrow> (int \<times> ('h, 'f, 'b) agent) option" where
  "shc_swTohw_rule E vni ip_src_addr ip_dst_addr flag_of_add_del s = do {
     let nhsel = 0;
     let tunnel_id = 0;
     (vrf_dp, s1) \<leftarrow> shc_tunnel_map_vrf_lookup E SHC_TUNNEL_VXLAN tunnel_id flag_of_add_del s;
     RTE_ASSERT E (vrf_dp \<noteq> None);
     v \<leftarrow> vrf_dp;
     if \<not> malloc_ok E then None
     else do {
       let s2 = dp_upd v (\<lambda>d. d\<lparr>exit_flag := 0, List_Node := Some initLink\<rparr>)
                 (dp_upd v (\<lambda>d. d\<lparr>exit_flag := 0, List_Node := Some initLink\<rparr>) s1);
       (ret, f_res, s3) \<leftarrow> shc_route_lookup E v ip_src_addr ip_dst_addr flag_of_add_del s2;
       if ret < 0 then Some (ret, s3)
       else do {
         i \<leftarrow> f_res;
         r \<leftarrow> fib_res_get s3 i;
         f \<leftarrow> mpath_nhop s3 r nhsel;
         (ret, ethaddr, s4) \<leftarrow> shc_neigh_lookup E (vrf_id (vrf_dp_of s3 v)) (nh_gateway f) flag_of_add_del s3;
         if ret < 0 then Some (ret, s4) else Some (0, s4)
       }
     }
   }"

section \<open>What its parts write\<close>

text \<open>
  The calls of the tunnel, next-hop and neighbour parts leave the hardware's route table alone.
  \<open>side_step s s'\<close>: the step from \<open>s\<close> to \<open>s'\<close> made only such calls and kept the VRFs' identifiers.
\<close>

definition side_step :: "('h, 'f, 'b) agent \<Rightarrow> ('h, 'f, 'b) agent \<Rightarrow> bool" where
  "side_step s s' \<longleftrightarrow> (\<exists>cs. hal_log s' = cs @ hal_log s \<and> (\<forall>c \<in> fst ` set cs. \<not> route_call c)) \<and>
     (\<forall>w. vrf_id (vrf_dp_of s' w) = vrf_id (vrf_dp_of s w))"

lemma side_stepI:
  assumes "hal_log s' = cs @ hal_log s" "\<forall>c \<in> fst ` set cs. \<not> route_call c"
    "\<And>w. vrf_id (vrf_dp_of s' w) = vrf_id (vrf_dp_of s w)"
  shows "side_step s s'"
  using assms unfolding side_step_def by blast

lemma side_step_refl [simp]: "side_step s s"
  by (rule side_stepI [of _ "[]"]) simp_all

lemma side_step_trans: "side_step s t \<Longrightarrow> side_step t u \<Longrightarrow> side_step s u"
  unfolding side_step_def by (metis (no_types, lifting) append.assoc image_Un set_append Un_iff)

lemma side_step_log [simp]:
  "side_step s (s\<lparr>hal_log := (c, st) # hal_log s\<rparr>) = (\<not> route_call c)"
proof
  assume "\<not> route_call c"
  then show "side_step s (s\<lparr>hal_log := (c, st) # hal_log s\<rparr>)"
    by (intro side_stepI [of _ "[(c, st)]"]) simp_all
qed (auto simp: side_step_def)

lemma side_step_upd [simp]:
  "side_step s (t\<lparr>tunnel_mem := m\<rparr>) = side_step s t" "side_step s (t\<lparr>neigh_mem := m'\<rparr>) = side_step s t"
  "side_step s (t\<lparr>nhop_mem := m''\<rparr>) = side_step s t"
  by (simp_all add: side_step_def)

lemma side_step_dp [simp]:
  "(\<And>d. vrf_id (g d) = vrf_id d) \<Longrightarrow> side_step s (dp_upd v g t) = side_step s t"
  unfolding side_step_def by (auto 0 3)

lemma not_route_call:
  "\<not> route_call c \<Longrightarrow> \<not> adds_route k c \<and> \<not> dels_route k c"
  by (cases c) auto

lemma side_step_flow:
  assumes "side_step s s'" shows "flow_offloaded v sip dip s' = flow_offloaded v sip dip s"
proof -
  obtain cs where cs: "hal_log s' = cs @ hal_log s" "\<forall>c \<in> fst ` set cs. \<not> route_call c"
    using assms by (auto simp: side_step_def)
  have key: "flow_key v sip dip s' = flow_key v sip dip s" using assms by (simp add: side_step_def flow_key_def)
  show ?thesis
    unfolding flow_offloaded_def key cs(1) by (rule hw_present_skip) (use cs(2) not_route_call in blast)
qed

lemma tunnel_lookup_side:
  "shc_tunnel_map_vrf_lookup E type tid fl s = Some (vo, s') \<Longrightarrow> side_step s s'"
  by (auto simp: shc_tunnel_map_vrf_lookup_def Let_def hal_shim_defs hal_do_eq
      split: option.splits if_splits Option.bind_splits)

lemma neigh_lookup_side:
  "shc_neigh_lookup E vrfid gw fl s = Some (r, m, s') \<Longrightarrow> side_step s s'"
  by (auto simp: shc_neigh_lookup_def Let_def hal_shim_defs hal_do_eq
      split: option.splits if_splits Option.bind_splits)

lemma nhop_offload_side:
  assumes "nhop_offload E p fl s = Some (r, s')" shows "side_step s s'"
proof -
  obtain f where f: "nhop_mem s p = Some f"
    using assms by (cases "nhop_mem s p") (simp_all add: nhop_offload_def)
  have "\<not> route_call c" if "nhop_call fl f = Some c" for c
    using that by (auto simp: nhop_call_def split: if_splits)
  then show ?thesis
    using assms nhop_offload_eq [OF f, of E fl] by (auto simp: Let_def split: option.splits)
qed

section \<open>The tunnel that is looked up\<close>

text \<open>
  Whatever VNI the flow has, the rule is looked up under tunnel 0: when that tunnel is not
  mapped, \<open>shc_swTohw_rule\<close> dereferences the NULL it gets for every flow, also one whose own VNI is
  mapped to a VRF.
\<close>

theorem shc_swTohw_rule_tunnel_zero:
  assumes "tunnel_vrf E s (tunnel_key SHC_TUNNEL_VXLAN 0) = None" "tun_inv E s"
  shows "shc_swTohw_rule E vni src dst fl s = None"
proof -
  have "tunnels E s (tunnel_key SHC_TUNNEL_VXLAN 0) = None" using assms(1) by (simp add: tunnel_vrf_def)
  moreover from assms(2) obtain P where
    "obj_table P (rte_hash_lookup_data E (vrf_hash_tbl s)) (tunnel_mem s)" unfolding tun_inv_def by blast
  ultimately have "rte_hash_lookup_data E (vrf_hash_tbl s) (tunnel_key SHC_TUNNEL_VXLAN 0) = None"
    unfolding tunnels_def by (blast dest: obj_view_None_iff [THEN iffD1])
  then show ?thesis
    by (simp add: shc_swTohw_rule_def shc_tunnel_map_vrf_lookup_def Let_def RTE_ASSERT_def)
qed

lemma shc_swTohw_rule_tunnel_zero_witness:
  "tunnel_vrf (lib0 4) agent_tun (tunnel_key SHC_TUNNEL_VXLAN 100) = Some 1 \<and>
   shc_swTohw_rule (lib0 4) 100 0x0100000a 0x0302010a 0 agent_tun = None"
proof -
  have notin: "\<not> rte_assert_on (lib0 4)" by simp
  note c = shc_tunnel_map_vrf_contract_plain [OF hash_laws_lib0 zmalloc_law_lib0 notin vrf_inv_agent0 tun_inv_agent0,
      of "''red''" SHC_TUNNEL_VXLAN 100 attr0]
  have "tunnel_vrf (lib0 4) agent0 = Map.empty"
    by (simp add: tunnel_vrf_def tunnels_def obj_view_def fun_eq_iff)
  with c have "tun_inv (lib0 4) agent_tun" "tunnel_vrf (lib0 4) agent_tun = [tunnel_key SHC_TUNNEL_VXLAN 100 \<mapsto> 1]"
    by (simp_all add: is_vrf_agent0 agent_tun_run const_defs)
  then show ?thesis
    using shc_swTohw_rule_tunnel_zero [of "lib0 4" agent_tun] by (simp add: tunnel_key_def)
qed

section \<open>A flow's rules are never removed\<close>

text \<open>The list and the counter that the entry point has just reset stop the deletion.\<close>

lemma route_offload_reset:
  assumes "exit_flag (vrf_dp_of s v) = 0" "List_Node (vrf_dp_of s v) = Some initLink"
  shows "route_offload E v fr sip dip 1 s = Some (0, s)"
  using assms by (simp add: route_offload_def Let_def initLink_def)

lemma shc_swTohw_ruleE:
  assumes "shc_swTohw_rule E vni src dst fl s = Some (r, s')"
  obtains v s1 ret fr s3 where
    "shc_tunnel_map_vrf_lookup E SHC_TUNNEL_VXLAN 0 fl s = Some (Some v, s1)"
    "shc_route_lookup E v src dst fl
          (dp_upd v (\<lambda>d. d\<lparr>exit_flag := 0, List_Node := Some initLink\<rparr>)
            (dp_upd v (\<lambda>d. d\<lparr>exit_flag := 0, List_Node := Some initLink\<rparr>) s1)) = Some (ret, fr, s3)"
    "(ret < 0 \<and> r = ret \<and> s' = s3) \<or> (\<not> ret < 0 \<and> (\<exists>vid gw q m. shc_neigh_lookup E vid gw fl s3 = Some (q, m, s')))"
proof -
  from assms obtain vo s1 where 1: "shc_tunnel_map_vrf_lookup E SHC_TUNNEL_VXLAN 0 fl s = Some (vo, s1)"
    by (auto simp: shc_swTohw_rule_def Let_def split: Option.bind_splits)
  with assms obtain v where v: "vo = Some v"
    by (auto simp: shc_swTohw_rule_def Let_def split: Option.bind_splits)
  with assms 1 obtain ret fr s3 where 2: "shc_route_lookup E v src dst fl
          (dp_upd v (\<lambda>d. d\<lparr>exit_flag := 0, List_Node := Some initLink\<rparr>)
            (dp_upd v (\<lambda>d. d\<lparr>exit_flag := 0, List_Node := Some initLink\<rparr>) s1)) = Some (ret, fr, s3)"
    by (auto simp: shc_swTohw_rule_def Let_def split: Option.bind_splits if_splits)
  from assms 1 v 2 have "(ret < 0 \<and> r = ret \<and> s' = s3) \<or>
      (\<not> ret < 0 \<and> (\<exists>vid gw q m. shc_neigh_lookup E vid gw fl s3 = Some (q, m, s')))"
    by (simp add: shc_swTohw_rule_def Let_def split: Option.bind_splits if_splits prod.splits) blast+
  with 1 2 v show thesis by (intro that) simp_all
qed

lemma shc_swTohw_rule_delete_side:
  assumes "shc_swTohw_rule E vni src dst 1 s = Some (r, s')" shows "side_step s s'"
proof -
  from shc_swTohw_ruleE [OF assms] obtain v s1 ret fr s3 where
    1: "shc_tunnel_map_vrf_lookup E SHC_TUNNEL_VXLAN 0 1 s = Some (Some v, s1)" and
    2: "shc_route_lookup E v src dst 1
          (dp_upd v (\<lambda>d. d\<lparr>exit_flag := 0, List_Node := Some initLink\<rparr>)
            (dp_upd v (\<lambda>d. d\<lparr>exit_flag := 0, List_Node := Some initLink\<rparr>) s1)) = Some (ret, fr, s3)" and
    3: "s' = s3 \<or> (\<exists>vid gw q m. shc_neigh_lookup E vid gw 1 s3 = Some (q, m, s'))"
    by metis
  let ?s2 = "dp_upd v (\<lambda>d. d\<lparr>exit_flag := 0, List_Node := Some initLink\<rparr>)
            (dp_upd v (\<lambda>d. d\<lparr>exit_flag := 0, List_Node := Some initLink\<rparr>) s1)"
  have "route_offload E v x y z 1 ?s2 = Some (0, ?s2)" for x y z
    by (rule route_offload_reset) simp_all
  with 2 have "side_step ?s2 s3"
    by (auto simp: shc_route_lookup_def Let_def split: Option.bind_splits dest!: nhop_offload_side)
  moreover have "side_step s ?s2" using tunnel_lookup_side [OF 1] by simp
  moreover have "side_step s3 s'" using 3 neigh_lookup_side by auto
  ultimately show ?thesis using side_step_trans by blast
qed

text \<open>A sequence of deletions, and what an addition does.\<close>

fun rule_deletes ::
  "('h, 'f, 'b) lib \<Rightarrow> (u32 \<times> u32 \<times> u32) list \<Rightarrow> ('h, 'f, 'b) agent \<Rightarrow> ('h, 'f, 'b) agent option" where
  "rule_deletes E [] s = Some s"
| "rule_deletes E ((vni, src, dst) # fs) s = do {
     (r, s') \<leftarrow> shc_swTohw_rule E vni src dst 1 s;
     rule_deletes E fs s'
   }"

lemma rule_deletes_side: "rule_deletes E fs s = Some s' \<Longrightarrow> side_step s s'"
proof (induction E fs s rule: rule_deletes.induct)
  case (2 E vni src dst fs s)
  then obtain r t where t: "shc_swTohw_rule E vni src dst 1 s = Some (r, t)" "rule_deletes E fs t = Some s'"
    by (auto split: Option.bind_splits)
  from side_step_trans [OF shc_swTohw_rule_delete_side [OF t(1)] 2(1) [OF t(1) refl t(2)]] show ?case .
qed simp

lemma route_offload_add_reset:
  assumes "exit_flag (vrf_dp_of s v) = 0" "route_offload E v fr (rte_be_to_cpu_32 sip) (rte_be_to_cpu_32 dip) 0 s = Some (r, s')"
    "\<not> r < 0"
  shows "flow_offloaded v sip dip s'"
proof -
  have "\<exists>d. hal_log s' = (Hal_route_entry_add (flow_key v sip dip s) d, 0) # hal_log s \<and>
      vrf_id (vrf_dp_of s' v) = vrf_id (vrf_dp_of s v)"
    using assms
    by (auto simp: route_offload_def Let_def shc_hal_route_entry_add_def hal_do_eq flow_key_def
        split: Option.bind_splits if_splits)
  then show ?thesis by (auto simp: flow_offloaded_def flow_key_def)
qed

lemma shc_swTohw_rule_add:
  assumes "shc_swTohw_rule E vni src dst 0 s = Some (0, s')"
    and "shc_tunnel_map_vrf_lookup E SHC_TUNNEL_VXLAN 0 0 s = Some (Some v, st)"
  shows "flow_offloaded v src dst s'"
proof -
  let ?s2 = "dp_upd v (\<lambda>d. d\<lparr>exit_flag := 0, List_Node := Some initLink\<rparr>)
            (dp_upd v (\<lambda>d. d\<lparr>exit_flag := 0, List_Node := Some initLink\<rparr>) st)"
  obtain w s1 ret fr s3 where
    1: "shc_tunnel_map_vrf_lookup E SHC_TUNNEL_VXLAN 0 0 s = Some (Some w, s1)" and
    a2: "shc_route_lookup E w src dst 0 (dp_upd w (\<lambda>d. d\<lparr>exit_flag := 0, List_Node := Some initLink\<rparr>)
            (dp_upd w (\<lambda>d. d\<lparr>exit_flag := 0, List_Node := Some initLink\<rparr>) s1)) = Some (ret, fr, s3)" and
    a3: "(ret < 0 \<and> 0 = ret \<and> s' = s3) \<or>
      (\<not> ret < 0 \<and> (\<exists>vid gw q m. shc_neigh_lookup E vid gw 0 s3 = Some (q, m, s')))"
    by (rule shc_swTohw_ruleE [OF assms(1)])
  have "w = v" "s1 = st" using 1 assms(2) by simp_all
  with a2 a3 have 2: "shc_route_lookup E v src dst 0 ?s2 = Some (ret, fr, s3)" "\<not> ret < 0" and
    3: "\<exists>vid gw q m. shc_neigh_lookup E vid gw 0 s3 = Some (q, m, s')" by auto
  from 2 obtain r x p q where x: "route_offload E v (fib_res_get ?s2 (rte_fib_lookup E (fib (vrf_dp_of ?s2 v)) (rte_be_to_cpu_32 dst)))
        (rte_be_to_cpu_32 src) (rte_be_to_cpu_32 dst) 0 ?s2 = Some (r, x)" "\<not> r < 0" "nhop_offload E p 0 x = Some (q, s3)"
    by (auto simp: shc_route_lookup_def Let_def split: Option.bind_splits if_splits)
  have "flow_offloaded v src dst x" by (rule route_offload_add_reset [OF _ x(1,2)]) simp
  moreover have "side_step x s3" by (rule nhop_offload_side [OF x(3)])
  moreover have "side_step s3 s'" using 3 neigh_lookup_side by blast
  ultimately show ?thesis using side_step_flow side_step_trans by metis
qed

text \<open>
  C20. Once \<open>shc_swTohw_rule\<close> has added a flow's rules and returned 0, the flow's route entry is in the
  hardware and stays there: no sequence of deletions through \<open>shc_swTohw_rule\<close>, its own included,
  removes it, because each call first resets the counter and the list that guard the removal.
\<close>

theorem shc_swTohw_rule_flow_stays:
  assumes "shc_swTohw_rule E vni src dst 0 s = Some (0, s')"
    and "shc_tunnel_map_vrf_lookup E SHC_TUNNEL_VXLAN 0 0 s = Some (Some v, st)"
    and "rule_deletes E fs s' = Some s''"
  shows "flow_offloaded v src dst s''"
  using shc_swTohw_rule_add [OF assms(1,2)] side_step_flow [OF rule_deletes_side [OF assms(3)]] by simp

section \<open>A flow that is ready is always served\<close>

text \<open>
  \<open>rule_ready E v src dst s\<close>: tunnel 0 is mapped to VRF \<open>v\<close>, the destination reaches a next hop there
  and that next hop's gateway is resolved.
\<close>

definition rule_ready :: "('h, 'f, 'b) lib \<Rightarrow> nat \<Rightarrow> u32 \<Rightarrow> ('h, 'f, 'b) agent \<Rightarrow> bool" where
  "rule_ready E v dst s \<longleftrightarrow> malloc_ok E \<and> tunnel_ready E SHC_TUNNEL_VXLAN 0 s \<and>
     (case tunnels E s (tunnel_key SHC_TUNNEL_VXLAN 0) of None \<Rightarrow> False
      | Some t \<Rightarrow> shc_vrf_dp_get_by_id (ti_vrf_id t) s = Some (Some v)) \<and>
     (case reached_hop E v dst s of None \<Rightarrow> False
      | Some (p, f) \<Rightarrow> neigh_ready E (neigh_key (vrf_id (vrf_dp_of s v)) (nh_gateway f)) s)"

text \<open>A lookup of a route leaves the tunnels, the neighbours and the VRFs' identities alone.\<close>

definition same_ends :: "('h, 'f, 'b) agent \<Rightarrow> ('h, 'f, 'b) agent \<Rightarrow> bool" where
  "same_ends s s' \<longleftrightarrow> vrf_hash_tbl s' = vrf_hash_tbl s \<and> tunnel_mem s' = tunnel_mem s \<and>
     neigh_tbl s' = neigh_tbl s \<and> neigh_mem s' = neigh_mem s \<and>
     (\<forall>w. vrf_id (vrf_dp_of s' w) = vrf_id (vrf_dp_of s w) \<and> fib (vrf_dp_of s' w) = fib (vrf_dp_of s w) \<and>
        valid (g_shc_vrfs s' w) = valid (g_shc_vrfs s w))"

lemma same_ends_refl [simp]: "same_ends s s"
  by (simp add: same_ends_def)

lemma nhop_offload_ends:
  assumes "nhop_offload E p fl s = Some (r, s')" shows "same_ends s s'"
proof -
  obtain f where f: "nhop_mem s p = Some f"
    using assms by (cases "nhop_mem s p") (simp_all add: nhop_offload_def)
  show ?thesis
    using assms nhop_offload_eq [OF f, of E fl] by (auto simp: same_ends_def Let_def split: option.splits)
qed

lemma shc_route_lookup_ends:
  assumes "shc_route_lookup E v sip dip fl s = Some (r, fr, s')" shows "same_ends s s'"
proof -
  let ?run = "route_offload E v (fib_res_get s (rte_fib_lookup E (fib (vrf_dp_of s v)) (rte_be_to_cpu_32 dip)))
      (rte_be_to_cpu_32 sip) (rte_be_to_cpu_32 dip) fl s"
  obtain q s1 where 1: "?run = Some (q, s1)" using assms by (cases ?run) (auto simp: shc_route_lookup_def Let_def)
  with assms have 2: "s' = s1 \<or> (\<exists>p. nhop_offload E p fl s1 = Some (r, s'))"
    by (simp add: shc_route_lookup_def Let_def split: Option.bind_splits if_splits prod.splits) blast+
  have "same_ends s s1"
    using route_offload_only [OF 1] by (simp add: same_ends_def route_only_def keeps_routes_def)
  moreover have "same_ends s1 s'" using 2 nhop_offload_ends same_ends_refl by blast
  ultimately show ?thesis by (simp add: same_ends_def)
qed

lemma get_by_id_valid:
  "(\<And>w. valid (g_shc_vrfs s' w) = valid (g_shc_vrfs s w)) \<Longrightarrow> shc_vrf_dp_get_by_id i s' = shc_vrf_dp_get_by_id i s"
  by (simp add: shc_vrf_dp_get_by_id_def shc_vrf_get_by_id_def Let_def)

lemma rule_ready_tunnel:
  assumes "rule_ready E v dst s"
  shows "\<exists>st. shc_tunnel_map_vrf_lookup E SHC_TUNNEL_VXLAN 0 fl s = Some (Some v, st)"
proof -
  have tun: "tunnel_ready E SHC_TUNNEL_VXLAN 0 s" using assms by (simp add: rule_ready_def)
  from tunnel_readyE [OF tun] obtain q t where q: "tunnels E s (tunnel_key SHC_TUNNEL_VXLAN 0) = Some t"
    "rte_hash_lookup_data E (vrf_hash_tbl s) (tunnel_key SHC_TUNNEL_VXLAN 0) = Some q" "\<not> rte_assert_on E" by metis
  with assms have "tunnel_mem s q = Some t" "shc_vrf_dp_get_by_id (ti_vrf_id t) s = Some (Some v)"
    by (simp_all add: rule_ready_def tunnels_def obj_view_def)
  from shc_tunnel_map_vrf_lookup_mapped [OF q(2) this(1) q(3) this(2)] show ?thesis by blast
qed

lemma rule_ready_run:
  assumes "rule_ready E v dst s"
  shows "\<exists>s'. shc_swTohw_rule E vni src dst fl s = Some (0, s') \<and> rule_ready E v dst s'"
proof -
  from assms obtain p f where hop: "reached_hop E v dst s = Some (p, f)"
    and near: "neigh_ready E (neigh_key (vrf_id (vrf_dp_of s v)) (nh_gateway f)) s"
    and tun: "tunnel_ready E SHC_TUNNEL_VXLAN 0 s" and ok: "malloc_ok E"
    by (auto simp: rule_ready_def split: option.splits)
  from tunnel_readyE [OF tun] obtain q t where q: "tunnels E s (tunnel_key SHC_TUNNEL_VXLAN 0) = Some t"
    "rte_hash_lookup_data E (vrf_hash_tbl s) (tunnel_key SHC_TUNNEL_VXLAN 0) = Some q" and
    E: "hal_never_fails E" "\<not> rte_assert_on E" by metis
  have t: "tunnel_mem s q = Some t" "shc_vrf_dp_get_by_id (ti_vrf_id t) s = Some (Some v)"
    using q assms by (simp_all add: rule_ready_def tunnels_def obj_view_def)
  define s1 where "s1 = s\<lparr>hal_log := tunnel_calls E SHC_TUNNEL_VXLAN 0 fl t (hal_log s) @ hal_log s,
      tunnel_mem := (tunnel_mem s)(q \<mapsto> tunnel_counted fl t)\<rparr>"
  have run1: "shc_tunnel_map_vrf_lookup E SHC_TUNNEL_VXLAN 0 fl s = Some (Some v, s1)"
    unfolding s1_def by (rule shc_tunnel_map_vrf_lookup_mapped [OF q(2) t(1) E(2) t(2)])
  define s2 where "s2 = dp_upd v (\<lambda>d. d\<lparr>exit_flag := 0, List_Node := Some initLink\<rparr>)
      (dp_upd v (\<lambda>d. d\<lparr>exit_flag := 0, List_Node := Some initLink\<rparr>) s1)"
  have hop2: "reached_hop E v dst s2 = Some (p, f)"
    using hop by (auto simp: reached_hop_def s2_def s1_def fib_res_get_def split: if_splits Option.bind_splits)
  then have "lookup_ready E v dst s2" using ok E(1) by (simp add: lookup_ready_def s2_def)
  from lookup_ready_step [OF this hop2, where sip = src and fl = fl]
  obtain s3 where run3: "shc_route_lookup E v src dst fl s2 =
      Some (0, Some (rte_fib_lookup E (fib (vrf_dp_of s2 v)) (rte_be_to_cpu_32 dst)), s3)"
    and hop3: "reached_hop E v dst s3 = Some (p, nhop_counted fl f)" by metis
  note ends = shc_route_lookup_ends [OF run3]
  from neigh_readyE [OF near] obtain n e where ne:
    "rte_hash_lookup_data E (neigh_tbl s) (neigh_key (vrf_id (vrf_dp_of s v)) (nh_gateway f)) = Some n"
    "neigh_mem s n = Some e" "F_arp_valid e" by metis
  define s' where "s' = s3\<lparr>hal_log := neigh_calls fl e @ hal_log s3, neigh_mem := (neigh_mem s3)(n \<mapsto> neigh_counted fl e)\<rparr>"
  have id3: "vrf_id (vrf_dp_of s3 v) = vrf_id (vrf_dp_of s v)"
    using ends by (auto simp: same_ends_def s2_def s1_def)
  have gw: "nh_gateway (nhop_counted fl f) = nh_gateway f" by (simp add: nhop_counted_def)
  have same: "neigh_tbl s3 = neigh_tbl s" "neigh_mem s3 = neigh_mem s"
    using ends by (simp_all add: same_ends_def s2_def s1_def)
  have run4: "shc_neigh_lookup E (vrf_id (vrf_dp_of s3 v)) (nh_gateway (nhop_counted fl f)) fl s3
      = Some (0, Some (take 6 (hh e)), s')"
    unfolding s'_def id3 gw by (rule shc_neigh_lookup_ready) (use ne same E in simp_all)
  from hop3 obtain r where r: "fib_res_get s3 (rte_fib_lookup E (fib (vrf_dp_of s3 v)) (rte_be_to_cpu_32 dst)) = Some r"
      "mpath_nhop s3 r 0 = Some (nhop_counted fl f)"
    by (auto simp: reached_hop_def mpath_nhop_def split: Option.bind_splits)
  have "rte_fib_lookup E (fib (vrf_dp_of s3 v)) = rte_fib_lookup E (fib (vrf_dp_of s2 v))"
    using ends by (simp add: same_ends_def)
  then have "shc_swTohw_rule E vni src dst fl s = Some (0, s')"
    using run1 run3 run4 r ok E(2) by (simp add: shc_swTohw_rule_def s2_def)
  moreover have "rule_ready E v dst s'"
  proof -
    have tun': "tunnels E s' (tunnel_key SHC_TUNNEL_VXLAN 0) = Some (tunnel_counted fl t)"
      using q ends by (simp add: tunnels_def obj_view_def s'_def same_ends_def s2_def s1_def)
    have get: "shc_vrf_dp_get_by_id i s' = shc_vrf_dp_get_by_id i s" for i
      by (rule get_by_id_valid) (use ends in \<open>simp add: same_ends_def s'_def s2_def s1_def\<close>)
    have hop': "reached_hop E v dst s' = Some (p, nhop_counted fl f)"
      using hop3 by (auto simp: reached_hop_def s'_def fib_res_get_def split: if_splits Option.bind_splits)
    have "vrf_id (vrf_dp_of s' v) = vrf_id (vrf_dp_of s v)" using id3 by (simp add: s'_def)
    moreover have "neighs E s' (neigh_key (vrf_id (vrf_dp_of s v)) (nh_gateway f)) = Some (neigh_counted fl e)"
      using ne same by (simp add: neighs_def obj_view_def s'_def)
    ultimately show ?thesis
      using tun' get hop' ok E t ne(3) gw
      by (simp add: rule_ready_def tunnel_ready_def neigh_ready_def tunnel_counted_def)
  qed
  ultimately show ?thesis by blast
qed

text \<open>A sequence of additions and deletions of flows to one destination.\<close>

fun rule_calls ::
  "('h, 'f, 'b) lib \<Rightarrow> (u32 \<times> u32 \<times> u32 \<times> int) list \<Rightarrow> ('h, 'f, 'b) agent \<Rightarrow> (int list \<times> ('h, 'f, 'b) agent) option" where
  "rule_calls E [] s = Some ([], s)"
| "rule_calls E ((vni, src, dst, fl) # cs) s = do {
     (r, s1) \<leftarrow> shc_swTohw_rule E vni src dst fl s;
     (rs, s2) \<leftarrow> rule_calls E cs s1;
     Some (r # rs, s2)
   }"

text \<open>
  C19. While no hardware call and no \<open>malloc\<close> fails and with the assertions compiled out, a flow whose
  VRF is mapped to tunnel 0, whose destination is covered and whose gateway is resolved
  (\<open>rule_ready\<close>) is served for ever: any sequence of additions and deletions towards its destination
  returns 0 at every call, and the flow is ready again afterwards.
\<close>

theorem shc_swTohw_rule_always_served:
  assumes "rule_ready E v dst s"
  shows "\<exists>s'. rule_calls E (map (\<lambda>(vni, src, fl). (vni, src, dst, fl)) cs) s = Some (replicate (length cs) 0, s') \<and>
    rule_ready E v dst s'"
  using assms
proof (induction cs arbitrary: s)
  case (Cons c cs)
  obtain vni src fl where c: "c = (vni, src, fl)" by (cases c) auto
  from rule_ready_run [OF Cons.prems, of vni src fl] obtain s1 where
    "shc_swTohw_rule E vni src dst fl s = Some (0, s1)" "rule_ready E v dst s1" by blast
  with Cons.IH [OF this(2)] show ?case by (auto simp: c)
qed simp

text \<open>Tunnel 0 mapped to the VRF in slot 0, and the gateway of its route's next hop resolved.\<close>

definition agent_rule :: "(slots, alist_fib, int list) agent" where
  "agent_rule = agent_listed
    \<lparr>vrf_hash_tbl := [Some (tunnel_key SHC_TUNNEL_VXLAN 0, 1)],
     tunnel_mem := [1 \<mapsto> shc_tunnel_info_zero\<lparr>ti_vrf_id := 1\<rparr>],
     neigh_tbl := [Some (neigh_key 1 0, 1)],
     neigh_mem := [1 \<mapsto> ol_neigh_zero\<lparr>F_arp_valid := True, F_entry_valid := True,
       hh := [2, 0, 0, 0, 0, 1, 0x3c, 0xfd, 0xfe, 0x29, 0xcb, 0xc2, 8, 0], ne_refcnt := 1\<rparr>]\<rparr>"

lemma agent_listed_hop:
  "case reached_hop (lib0 4) 0 0x0302010a agent_listed of None \<Rightarrow> False | Some (p, f) \<Rightarrow> nh_gateway f = 0"
  by code_simp

lemma agent_listed_vrf:
  "valid (g_shc_vrfs agent_listed 0) \<and> vrf_id (vrf_dp_of agent_listed 0) = 1"
  by code_simp

lemma agent_rule_same:
  "vrf_dp_of agent_rule v = vrf_dp_of agent_listed v" "valid (g_shc_vrfs agent_rule v) = valid (g_shc_vrfs agent_listed v)"
  "reached_hop (lib0 4) v dst agent_rule = reached_hop (lib0 4) v dst agent_listed"
  by (simp_all add: agent_rule_def reached_hop_def fib_res_get_def)

lemma agent_rule_ready: "rule_ready (lib0 4) 0 0x0302010a agent_rule"
proof -
  obtain p f where hop: "reached_hop (lib0 4) 0 0x0302010a agent_listed = Some (p, f)" "nh_gateway f = 0"
    using agent_listed_hop by (auto split: option.splits)
  have "neighs (lib0 4) agent_rule (neigh_key 1 0) = Some (ol_neigh_zero\<lparr>F_arp_valid := True, F_entry_valid := True,
       hh := [2, 0, 0, 0, 0, 1, 0x3c, 0xfd, 0xfe, 0x29, 0xcb, 0xc2, 8, 0], ne_refcnt := 1\<rparr>)"
    by (simp add: agent_rule_def neighs_def obj_view_def)
  moreover have "tunnels (lib0 4) agent_rule (tunnel_key SHC_TUNNEL_VXLAN 0) = Some (shc_tunnel_info_zero\<lparr>ti_vrf_id := 1\<rparr>)"
    by (simp add: agent_rule_def tunnels_def obj_view_def)
  moreover have "shc_vrf_dp_get_by_id 1 agent_rule = Some (Some 0)"
    using agent_listed_vrf by (simp add: shc_vrf_dp_get_by_id_def shc_vrf_get_by_id_def agent_rule_same SHC_NR_VRF_def)
  ultimately show ?thesis
    using hop agent_listed_vrf
    by (simp add: rule_ready_def tunnel_ready_def neigh_ready_def agent_rule_same hal_never_fails_lib0)
qed

lemma shc_swTohw_rule_always_served_witness:
  "\<exists>s'. rule_calls (lib0 4) [(100, 0x0100000a, 0x0302010a, 0), (7, 0x0100000b, 0x0302010a, 0),
      (100, 0x0100000a, 0x0302010a, 1)] agent_rule = Some ([0, 0, 0], s')"
  using shc_swTohw_rule_always_served [OF agent_rule_ready,
      of "[(100, 0x0100000a, 0), (7, 0x0100000b, 0), (100, 0x0100000a, 1)]"]
  by (auto simp: numeral_eq_Suc)

lemma shc_swTohw_rule_flow_stays_witness:
  "\<exists>s' s''. shc_swTohw_rule (lib0 4) 100 0x0100000a 0x0302010a 0 agent_rule = Some (0, s') \<and>
     rule_deletes (lib0 4) [(100, 0x0100000a, 0x0302010a)] s' = Some s'' \<and>
     flow_offloaded 0 0x0100000a 0x0302010a s''"
proof -
  obtain s' where 1: "shc_swTohw_rule (lib0 4) 100 0x0100000a 0x0302010a 0 agent_rule = Some (0, s')"
      "rule_ready (lib0 4) 0 0x0302010a s'"
    using rule_ready_run [OF agent_rule_ready] by blast
  obtain s'' where 2: "rule_deletes (lib0 4) [(100, 0x0100000a, 0x0302010a)] s' = Some s''"
    using rule_ready_run [OF 1(2), of 100 "0x0100000a" 1] by auto
  obtain st where 3: "shc_tunnel_map_vrf_lookup (lib0 4) SHC_TUNNEL_VXLAN 0 0 agent_rule = Some (Some 0, st)"
    using rule_ready_tunnel [OF agent_rule_ready] by blast
  from shc_swTohw_rule_flow_stays [OF 1(1) 3 2] 1(1) 2 show ?thesis by blast
qed

end
