(* ===== verification/Mbuf.thy ===== *)
theory Mbuf
  imports Agent_Types
begin

text \<open>
  The packet buffers of the packet path (\<open>agent/pmd.c\<close>, \<open>agent/neigh.c\<close>): \<open>struct rte_mbuf\<close> with the
  private area \<open>struct shc_mbuf_metadata\<close>, loads and stores through the header structs the code casts
  the buffer to, and the two buffer operations of the DPDK that the code calls.
\<close>

section \<open>A packet buffer\<close>

text \<open>
  \<open>struct shc_mbuf_metadata\<close>; its \<open>vrf_dp\<close> is the slot of the VRF, or NULL. \<open>md_zero\<close> is the area
  after \<open>memset\<close>.
\<close>

record shc_mbuf_metadata =
  in_tunnel_info :: ip_tunnel_info
  md_vrf_dp :: "nat option"

definition md_zero :: shc_mbuf_metadata where
  "md_zero = \<lparr>in_tunnel_info = \<lparr>tun_family = 0, tun_type = SHC_ENCAP_INVALID, tun_w0 = 0, tun_w1 = 0, tun_w2 = 0\<rparr>,
     md_vrf_dp = None\<rparr>"

text \<open>
  The bytes of the buffer and the fields of the mbuf the code uses. The packet's data are the
  \<open>data_len\<close> bytes from index \<open>data_off\<close> on; bytes around them keep what the buffer held before.
\<close>

record mbuf =
  buf :: "u8 list"
  data_off :: u16
  data_len :: u16
  pkt_len :: u32
  outer_l3_len :: u16
  hash_rss :: u32
  md :: shc_mbuf_metadata

text \<open>\<open>rte_pktmbuf_mtod\<close>: the index in the buffer of the first data byte.\<close>

abbreviation mtod :: "mbuf \<Rightarrow> nat" where
  "mtod m \<equiv> unat (data_off m)"

definition mbuf_data :: "mbuf \<Rightarrow> u8 list" where
  "mbuf_data m = take (unat (data_len m)) (drop (mtod m) (buf m))"

section \<open>Loads and stores\<close>

text \<open>
  A load or store through a pointer into the buffer, in the little-endian order of the machine; one
  that leaves the buffer is undefined (\<open>None\<close>).
\<close>

definition load8 :: "mbuf \<Rightarrow> nat \<Rightarrow> u8 option" where
  "load8 m i = (if i < length (buf m) then Some (buf m ! i) else None)"

definition le16 :: "u8 \<Rightarrow> u8 \<Rightarrow> u16" where
  "le16 a b = ucast a OR push_bit 8 (ucast b)"

definition le32 :: "u8 \<Rightarrow> u8 \<Rightarrow> u8 \<Rightarrow> u8 \<Rightarrow> u32" where
  "le32 a b c d = ucast a OR push_bit 8 (ucast b) OR push_bit 16 (ucast c) OR push_bit 24 (ucast d)"

definition load16 :: "mbuf \<Rightarrow> nat \<Rightarrow> u16 option" where
  "load16 m i = do { a \<leftarrow> load8 m i; b \<leftarrow> load8 m (i + 1); Some (le16 a b) }"

definition load32 :: "mbuf \<Rightarrow> nat \<Rightarrow> u32 option" where
  "load32 m i = do {
     a \<leftarrow> load8 m i; b \<leftarrow> load8 m (i + 1); c \<leftarrow> load8 m (i + 2); d \<leftarrow> load8 m (i + 3);
     Some (le32 a b c d) }"

definition write_at :: "u8 list \<Rightarrow> nat \<Rightarrow> u8 list \<Rightarrow> u8 list" where
  "write_at xs i bs = take i xs @ bs @ drop (i + length bs) xs"

definition store_bytes :: "nat \<Rightarrow> u8 list \<Rightarrow> mbuf \<Rightarrow> mbuf option" where
  "store_bytes i bs m =
     (if i + length bs \<le> length (buf m) then Some (m\<lparr>buf := write_at (buf m) i bs\<rparr>) else None)"

definition bytes16 :: "u16 \<Rightarrow> u8 list" where
  "bytes16 x = [ucast x, ucast (drop_bit 8 x)]"

definition bytes32 :: "u32 \<Rightarrow> u8 list" where
  "bytes32 x = [ucast x, ucast (drop_bit 8 x), ucast (drop_bit 16 x), ucast (drop_bit 24 x)]"

lemma length_write_at [simp]: "i + length bs \<le> length xs \<Longrightarrow> length (write_at xs i bs) = length xs"
  by (simp add: write_at_def)

lemma nth_write_at:
  "i + length bs \<le> length xs \<Longrightarrow> j < length xs \<Longrightarrow>
     write_at xs i bs ! j = (if i \<le> j \<and> j < i + length bs then bs ! (j - i) else xs ! j)"
  by (auto simp: write_at_def nth_append min_def)

lemma write_at_inside [simp]:
  "i + length bs \<le> length xs \<Longrightarrow> take (length bs) (drop i (write_at xs i bs)) = bs"
  by (simp add: write_at_def min_def)

lemma bit_le16: "bit (le16 a b) n \<longleftrightarrow> (if n < 8 then bit a n else bit b (n - 8) \<and> n < 16)"
  using bit_imp_le_length [of a n] bit_imp_le_length [of b "n - 8"]
  by (auto simp: le16_def bit_or_iff bit_push_bit_iff bit_ucast_iff)

lemma bit_le32:
  "bit (le32 a b c d) n \<longleftrightarrow>
     (if n < 8 then bit a n else if n < 16 then bit b (n - 8) else if n < 24 then bit c (n - 16)
      else bit d (n - 24) \<and> n < 32)"
  using bit_imp_le_length [of a n] bit_imp_le_length [of b "n - 8"] bit_imp_le_length [of c "n - 16"]
    bit_imp_le_length [of d "n - 24"]
  by (auto simp: le32_def bit_or_iff bit_push_bit_iff bit_ucast_iff)

text \<open>A word stored in network order is read back by a swap.\<close>

lemma bit_bswap16: "bit (bswap16 x) n \<longleftrightarrow> n < 16 \<and> bit x (if n < 8 then n + 8 else n - 8)"
  using bit_imp_le_length [of x] unfolding bswap16_def
  by (cases "n < 8") (auto simp: bit_or_iff bit_push_bit_iff bit_take_bit_iff bit_drop_bit_eq add.commute
       dest: bit_imp_le_length)

lemma bswap16_bswap16 [simp]: "bswap16 (bswap16 x) = x"
  by (rule bit_eqI) (auto simp: bit_bswap16)

lemma bswap16_inj [simp]: "bswap16 x = bswap16 y \<longleftrightarrow> x = y"
  by (metis bswap16_bswap16)

lemma bswap16_le16: "bswap16 (le16 a b) = le16 b a"
  by (rule bit_eqI) (auto simp: bit_bswap16 bit_le16 dest: bit_imp_le_length)

lemma le16_bytes16: "bytes16 x = [a, b] \<Longrightarrow> le16 a b = x"
  by (rule bit_eqI) (auto simp: bytes16_def bit_le16 bit_ucast_iff bit_drop_bit_eq add.commute dest: bit_imp_le_length)

section \<open>The buffer operations\<close>

text \<open>
  \<open>rte_pktmbuf_adj\<close> and \<open>rte_pktmbuf_prepend\<close>: the mbuf after the call, \<open>None\<close> for a NULL result. The
  pool's \<open>n\<close>-th allocation gives an mbuf, or NULL.
\<close>

record mbuf_lib =
  rte_pktmbuf_adj :: "nat \<Rightarrow> mbuf \<Rightarrow> mbuf option"
  rte_pktmbuf_prepend :: "nat \<Rightarrow> mbuf \<Rightarrow> mbuf option"
  rte_pktmbuf_alloc :: "nat \<Rightarrow> mbuf option"

text \<open>
  What their documentation says: \<open>adj\<close> removes bytes at the start of the data and fails, leaving the
  mbuf alone, when the data are shorter; \<open>prepend\<close> adds bytes of the headroom and fails when the
  headroom is too small. A fresh mbuf has an empty packet behind the headroom.
\<close>

definition RTE_PKTMBUF_HEADROOM :: nat where "RTE_PKTMBUF_HEADROOM = 128"
definition RTE_MBUF_DEFAULT_BUF_SIZE :: nat where "RTE_MBUF_DEFAULT_BUF_SIZE = 2176"

definition adj_doc :: "nat \<Rightarrow> mbuf \<Rightarrow> mbuf option" where
  "adj_doc n m =
     (if n > unat (data_len m) then None
      else Some (m\<lparr>data_off := data_off m + of_nat n, data_len := data_len m - of_nat n,
                   pkt_len := pkt_len m - of_nat n\<rparr>))"

definition prepend_doc :: "nat \<Rightarrow> mbuf \<Rightarrow> mbuf option" where
  "prepend_doc n m =
     (if n > unat (data_off m) then None
      else Some (m\<lparr>data_off := data_off m - of_nat n, data_len := data_len m + of_nat n,
                   pkt_len := pkt_len m + of_nat n\<rparr>))"

definition fresh_mbuf :: "mbuf \<Rightarrow> bool" where
  "fresh_mbuf m \<longleftrightarrow> length (buf m) = RTE_MBUF_DEFAULT_BUF_SIZE \<and> mtod m = RTE_PKTMBUF_HEADROOM \<and> data_len m = 0"

definition mbuf_laws :: "mbuf_lib \<Rightarrow> bool" where
  "mbuf_laws M \<longleftrightarrow> rte_pktmbuf_adj M = adj_doc \<and> rte_pktmbuf_prepend M = prepend_doc \<and>
     (\<forall>n m. rte_pktmbuf_alloc M n = Some m \<longrightarrow> fresh_mbuf m)"

text \<open>A pool of zeroed buffers with the documented operations, for the witnesses.\<close>

definition mbuf0 :: mbuf where
  "mbuf0 = \<lparr>buf = replicate 2176 0, data_off = 128, data_len = 0, pkt_len = 0, outer_l3_len = 0, hash_rss = 0,
     md = md_zero\<rparr>"

definition mlib0 :: mbuf_lib where
  "mlib0 = \<lparr>rte_pktmbuf_adj = adj_doc, rte_pktmbuf_prepend = prepend_doc, rte_pktmbuf_alloc = (\<lambda>_. Some mbuf0)\<rparr>"

lemma mbuf_laws_mlib0: "mbuf_laws mlib0"
  by (auto simp: mbuf_laws_def mlib0_def fresh_mbuf_def mbuf0_def RTE_MBUF_DEFAULT_BUF_SIZE_def RTE_PKTMBUF_HEADROOM_def)

lemma fresh_mbuf0: "fresh_mbuf mbuf0"
  using mbuf_laws_mlib0 by (auto simp: mbuf_laws_def mlib0_def)

section \<open>Packets in their buffer\<close>

text \<open>
  \<open>holds m off bs\<close>: from index \<open>off\<close> on the buffer holds the bytes \<open>bs\<close>. Loads at an offset into them
  read them, whatever the data window is.
\<close>

definition holds :: "mbuf \<Rightarrow> nat \<Rightarrow> u8 list \<Rightarrow> bool" where
  "holds m off bs \<longleftrightarrow> off + length bs \<le> length (buf m) \<and> (\<forall>i < length bs. buf m ! (off + i) = bs ! i)"

lemma holds_load8: "holds m off bs \<Longrightarrow> i < length bs \<Longrightarrow> load8 m (off + i) = Some (bs ! i)"
  by (simp add: holds_def load8_def)

lemma holds_load16:
  "holds m off bs \<Longrightarrow> i + 1 < length bs \<Longrightarrow> load16 m (off + i) = Some (le16 (bs ! i) (bs ! (i + 1)))"
  using holds_load8 [of m off bs i] holds_load8 [of m off bs "i + 1"] by (simp add: load16_def)

lemma holds_load32:
  assumes "holds m off bs" "i + 3 < length bs"
  shows "load32 m (off + i) = Some (le32 (bs ! i) (bs ! (i + 1)) (bs ! (i + 2)) (bs ! (i + 3)))"
  using assms holds_load8 [of m off bs i] holds_load8 [of m off bs "i + 1"]
    holds_load8 [of m off bs "i + 2"] holds_load8 [of m off bs "i + 3"]
  by (simp add: load32_def add.assoc)

lemma holds_buf: "buf m' = buf m \<Longrightarrow> holds m' off bs = holds m off bs"
  by (simp add: holds_def)

lemma load8_buf: "buf m' = buf m \<Longrightarrow> load8 m' i = load8 m i"
  by (simp add: load8_def)

lemma holds_write: "off + length bs \<le> length (buf m) \<Longrightarrow> holds (m\<lparr>buf := write_at (buf m) off bs\<rparr>) off bs"
  by (simp add: holds_def nth_write_at)

text \<open>Bytes outside a store are kept.\<close>

lemma store_bytes_Some: "store_bytes i bs m = Some m' \<Longrightarrow>
    m' = m\<lparr>buf := write_at (buf m) i bs\<rparr> \<and> i + length bs \<le> length (buf m)"
  by (auto simp: store_bytes_def split: if_splits)

text \<open>The window after \<open>adj\<close>, where nothing wraps.\<close>

lemma adj_doc_window:
  assumes "n \<le> unat (data_len m)" "mtod m + n < 65536"
  obtains m' where "adj_doc n m = Some m'" "mtod m' = mtod m + n" "unat (data_len m') = unat (data_len m) - n"
    "buf m' = buf m" "md m' = md m" "hash_rss m' = hash_rss m" "outer_l3_len m' = outer_l3_len m"
proof -
  let ?m = "m\<lparr>data_off := data_off m + of_nat n, data_len := data_len m - of_nat n, pkt_len := pkt_len m - of_nat n\<rparr>"
  have n: "unat (of_nat n :: u16) = n" using assms by (simp add: unat_of_nat)
  have "mtod ?m = mtod m + n" using assms n by (simp add: unat_word_ariths)
  moreover have "unat (data_len ?m) = unat (data_len m) - n"
    using assms(1) n by (simp add: unat_sub word_le_nat_alt)
  ultimately show thesis using assms(1) by (intro that [of ?m]) (simp_all add: adj_doc_def)
qed

lemma adj_doc_short: "unat (data_len m) < n \<Longrightarrow> adj_doc n m = None"
  by (simp add: adj_doc_def)

end
