(* ===== verification/Arp_Probe.thy ===== *)
theory Arp_Probe
  imports Route_Lookup Mbuf
begin

text \<open>
  The state of a packet thread (\<open>agent/pmd.c\<close>) and \<open>neigh_probe_xmit\<close> of \<open>agent/neigh.c\<close>, which builds
  an ARP request for a gateway whose address is not known.
\<close>

section \<open>The packet thread's state\<close>

text \<open>\<open>struct key_value\<close>, the type of the one global \<open>key_value_info\<close>.\<close>

record key_value =
  kv_vrf_id :: u32
  kv_vni :: u32
  kv_inner_src_ip :: u32
  kv_inner_dst_ip :: u32
  kv_next_hop :: u64
  kv_vni_encp :: u32
  kv_outer_src_mac :: mac
  kv_outer_dst_mac :: mac
  kv_outer_src_ip :: u32
  kv_outer_dst_ip :: u32
  kv_inner_src_mac :: mac
  kv_inner_dst_mac :: mac

datatype lock_op = RdLock | RdUnlock | WrLock | WrUnlock

text \<open>
  The agent's tables, the global \<open>key_value_info\<close>, how often the pool was asked for an mbuf, how many
  mbufs are allocated and not freed, the calls on \<open>shc_dp_locker\<close> (the last first), and whether the
  event loop has been told to stop.
\<close>

record ('h, 'f, 'b) pmd =
  ag :: "('h, 'f, 'b) agent"
  key_value_info :: key_value
  allocs :: nat
  mbufs_out :: int
  lock_log :: "lock_op list"
  loop_broken :: bool

definition evt_inc :: "nat \<Rightarrow> ('h, 'f, 'b) pmd \<Rightarrow> ('h, 'f, 'b) pmd option" where
  "evt_inc type s = do {
     cs \<leftarrow> SWF_EVT_STAT_INC type (cur_thr_stats (ag s)) (pmd_ctxs_tbl (ag s));
     Some (s\<lparr>ag := (ag s)\<lparr>pmd_ctxs_tbl := cs\<rparr>\<rparr>)
   }"

definition pool_alloc :: "mbuf_lib \<Rightarrow> ('h, 'f, 'b) pmd \<Rightarrow> mbuf option \<times> ('h, 'f, 'b) pmd" where
  "pool_alloc M s =
     (case rte_pktmbuf_alloc M (allocs s) of
        None \<Rightarrow> (None, s\<lparr>allocs := allocs s + 1\<rparr>)
      | Some m \<Rightarrow> (Some m, s\<lparr>allocs := allocs s + 1, mbufs_out := mbufs_out s + 1\<rparr>))"

definition pool_free :: "('h, 'f, 'b) pmd \<Rightarrow> ('h, 'f, 'b) pmd" where
  "pool_free s = s\<lparr>mbufs_out := mbufs_out s - 1\<rparr>"

section \<open>The probe\<close>

text \<open>
  The frame that is built: an Ethernet header (addresses at 0 and 6, type at 12) and an ARP request
  behind it, whose sender protocol address (28) is never written.
\<close>

definition arp_build :: "('h, 'f, 'b) agent \<Rightarrow> u32 \<Rightarrow> mbuf \<Rightarrow> mbuf option" where
  "arp_build s nexthop arp_m = do {
     let arp_m = arp_m\<lparr>hash_rss := 0\<rparr>;
     let ethhdr = mtod arp_m;
     arp_m \<leftarrow> store_bytes (ethhdr + 6) (rte_ether_addr_copy (shc_fake_mac_get s)) arp_m;
     arp_m \<leftarrow> store_bytes ethhdr (rte_ether_addr_copy shc_broadcast_mac_get) arp_m;
     arp_m \<leftarrow> store_bytes (ethhdr + 12) (bytes16 (rte_cpu_to_be_16 0x0806)) arp_m;
     let arphdr = ethhdr + 14;
     arp_m \<leftarrow> store_bytes arphdr (bytes16 (rte_cpu_to_be_16 1)) arp_m;
     arp_m \<leftarrow> store_bytes (arphdr + 2) (bytes16 (rte_cpu_to_be_16 0x0800)) arp_m;
     arp_m \<leftarrow> store_bytes (arphdr + 4) [6] arp_m;
     arp_m \<leftarrow> store_bytes (arphdr + 5) [4] arp_m;
     arp_m \<leftarrow> store_bytes (arphdr + 6) (bytes16 (rte_cpu_to_be_16 1)) arp_m;
     arp_m \<leftarrow> store_bytes (arphdr + 8) (rte_ether_addr_copy (shc_fake_mac_get s)) arp_m;
     arp_m \<leftarrow> store_bytes (arphdr + 18) (rte_ether_addr_copy shc_zero_mac_get) arp_m;
     arp_m \<leftarrow> store_bytes (arphdr + 24) (bytes32 nexthop) arp_m;
     Some (arp_m\<lparr>data_len := 14 + 28, pkt_len := 14 + 28\<rparr>)
   }"

definition neigh_probe_xmit ::
  "('h, 'f, 'b) lib \<Rightarrow> mbuf_lib \<Rightarrow> u32 \<Rightarrow> u32 \<Rightarrow> ('h, 'f, 'b) pmd \<Rightarrow> (int \<times> ('h, 'f, 'b) pmd) option" where
  "neigh_probe_xmit E M vrfid nexthop s = do {
     vrf \<leftarrow> shc_vrf_get_by_id vrfid (ag s);
     (case vrf of
        None \<Rightarrow> do { s \<leftarrow> evt_inc OVERLAY_ARP_PROBE_VRF_LOOKUP_FAILED s; Some (0, s) }
      | Some v \<Rightarrow> do {
          (ret, f_res, a) \<leftarrow> shc_route_lookup E v nexthop nexthop 0 (ag s);
          let s = s\<lparr>ag := a\<rparr>;
          if ret < 0 then do { s \<leftarrow> evt_inc OVERLAY_ARP_PROBE_ROUTE_LOOKUP_FAILED s; Some (0, s) }
          else do {
            i \<leftarrow> f_res;
            r \<leftarrow> fib_res_get (ag s) i;
            if fib_res_is_reject r then do { s \<leftarrow> evt_inc OVERLAY_ARP_PROBE_ROUTE_RESULT_REJECT s; Some (0, s) }
            else
              (case pool_alloc M s of
                 (None, s) \<Rightarrow> do { s \<leftarrow> evt_inc OVERLAY_ARP_PROBE_MBUF_ALLOC_FAILED s; Some (0, s) }
               | (Some arp_m, s) \<Rightarrow> do {
                   _ \<leftarrow> arp_build (ag s) nexthop arp_m;
                   let s = pool_free s;
                   s \<leftarrow> evt_inc OVERLAY_ARP_PROBE_SEND s;
                   Some (0, s)
                 })
          }
        })
   }"

section \<open>The frame\<close>

lemma store_bytes_window:
  "i + length bs \<le> length (buf m) \<Longrightarrow> store_bytes i bs m = Some (m\<lparr>buf := write_at (buf m) i bs\<rparr>)"
  by (simp add: store_bytes_def)

lemma length_bytes16 [simp]: "length (bytes16 x) = 2"
  by (simp add: bytes16_def)

lemma length_bytes32 [simp]: "length (bytes32 x) = 4"
  by (simp add: bytes32_def)

text \<open>
  In a fresh mbuf the build succeeds and the frame's 42 bytes are an ARP request: broadcast from the
  agent's own address, the type, an Ethernet/IPv4 request with the agent as sender and \<open>nexthop\<close> as
  target, except for the sender's IP address, which is whatever the buffer held.
\<close>

definition arp_request :: "mac \<Rightarrow> u8 list \<Rightarrow> u32 \<Rightarrow> u8 list" where
  "arp_request src sip nexthop =
     replicate 6 0xff @ src @ [0x08, 0x06] @ [0, 1, 0x08, 0, 6, 4, 0, 1] @ src @ sip @ replicate 6 0 @ bytes32 nexthop"

lemma write_at_skip: "length xs \<le> i \<Longrightarrow> write_at (xs @ ys) i bs = xs @ write_at ys (i - length xs) bs"
  by (simp add: write_at_def)

lemma write_at_here: "length ys = length bs \<Longrightarrow> write_at (ys @ zs) 0 bs = bs @ zs"
  by (simp add: write_at_def)

lemma split_length: "n \<le> length xs \<Longrightarrow> \<exists>ys zs. xs = ys @ zs \<and> length ys = n \<and> length zs = length xs - n"
  by (rule exI [of _ "take n xs"], rule exI [of _ "drop n xs"]) simp

lemma arp_build_frame:
  assumes "fresh_mbuf m" "length (fake_mac s) = 6"
  shows "\<exists>m'. arp_build s nexthop m = Some m' \<and> unat (data_len m') = 42 \<and>
    mbuf_data m' = arp_request (fake_mac s) (take 4 (drop (128 + 28) (buf m))) nexthop"
proof -
  have len: "length (buf m) = 2176" and off: "mtod m = 128"
    using assms(1) by (simp_all add: fresh_mbuf_def RTE_MBUF_DEFAULT_BUF_SIZE_def RTE_PKTMBUF_HEADROOM_def)
  obtain p x0 where 0: "buf m = p @ x0" "length p = 128" "length x0 = 2048"
    using split_length [of 128 "buf m"] len by auto
  obtain d x1 where 1: "x0 = d @ x1" "length d = 6" "length x1 = 2042" using split_length [of 6 x0] 0 by auto
  obtain sa x2 where 2: "x1 = sa @ x2" "length sa = 6" "length x2 = 2036" using split_length [of 6 x1] 1 by auto
  obtain t x3 where 3: "x2 = t @ x3" "length t = 2" "length x3 = 2034" using split_length [of 2 x2] 2 by auto
  obtain h x4 where 4: "x3 = h @ x4" "length h = 2" "length x4 = 2032" using split_length [of 2 x3] 3 by auto
  obtain q x5 where 5: "x4 = q @ x5" "length q = 2" "length x5 = 2030" using split_length [of 2 x4] 4 by auto
  obtain hl x6 where 6: "x5 = hl @ x6" "length hl = 1" "length x6 = 2029" using split_length [of 1 x5] 5 by auto
  obtain pl x7 where 7: "x6 = pl @ x7" "length pl = 1" "length x7 = 2028" using split_length [of 1 x6] 6 by auto
  obtain op x8 where 8: "x7 = op @ x8" "length op = 2" "length x8 = 2026" using split_length [of 2 x7] 7 by auto
  obtain sha x9 where 9: "x8 = sha @ x9" "length sha = 6" "length x9 = 2020" using split_length [of 6 x8] 8 by auto
  obtain sip xa where a: "x9 = sip @ xa" "length sip = 4" "length xa = 2016" using split_length [of 4 x9] 9 by auto
  obtain tha xb where b: "xa = tha @ xb" "length tha = 6" "length xb = 2010" using split_length [of 6 xa] a by auto
  obtain tip xc where c: "xb = tip @ xc" "length tip = 4" "length xc = 2006" using split_length [of 4 xb] b by auto
  note parts = 0 1 2 3 4 5 6 7 8 9 a b c
  have r: "replicate 6 (0xff :: u8) = [0xff, 0xff, 0xff, 0xff, 0xff, 0xff]" "replicate 6 (0 :: u8) = [0, 0, 0, 0, 0, 0]"
    by (simp_all add: numeral_eq_Suc)
  define bc :: mac where "bc = shc_broadcast_mac_get"
  define zm :: mac where "zm = shc_zero_mac_get"
  define six four :: "u8 list" where "six = [6]" and "four = [4]"
  have l: "length bc = 6" "length zm = 6" "length six = 1" "length four = 1"
    by (simp_all add: bc_def zm_def six_def four_def shc_broadcast_mac_get_def shc_zero_mac_get_def)
  have w: "bytes16 (rte_cpu_to_be_16 0x0806) = [0x08, 0x06]" "bytes16 (rte_cpu_to_be_16 1) = [0, 1]"
    "bytes16 (rte_cpu_to_be_16 0x0800) = [0x08, 0]" by (simp_all add: bytes16_def bswap16_def)
  have frame: "arp_request (fake_mac s) sip nexthop = bc @ fake_mac s @ bytes16 (rte_cpu_to_be_16 0x0806) @
      bytes16 (rte_cpu_to_be_16 1) @ bytes16 (rte_cpu_to_be_16 0x0800) @ six @ four @
      bytes16 (rte_cpu_to_be_16 1) @ fake_mac s @ sip @ zm @ bytes32 nexthop"
    by (simp add: arp_request_def w r bc_def zm_def six_def four_def shc_broadcast_mac_get_def shc_zero_mac_get_def)
  have sip: "take 4 (drop (128 + 28) (buf m)) = sip" by (simp add: parts)
  show ?thesis
    unfolding arp_build_def Let_def bc_def [symmetric] zm_def [symmetric] six_def [symmetric] four_def [symmetric]
      shc_fake_mac_get_def rte_ether_addr_copy_def frame sip mbuf_data_def
    by (simp add: store_bytes_def parts off assms(2) l write_at_skip write_at_here)
qed

end
