(* ===== verification/Packet_Path.thy ===== *)
theory Packet_Path
  imports Arp_Probe Entry_Api
begin

text \<open>
  The packet path of \<open>agent/pmd.c\<close>: a datagram read from the raw socket is followed through its outer
  IPv4, UDP and VXLAN headers to the VRF of its VNI, and through its inner Ethernet and IPv4 headers
  to a route and a next hop. No packet is sent; what the path leaves behind are the entries that the
  lookups put into the hardware and the global \<open>key_value_info\<close>.

  Header fields are read at their offsets in the DPDK's packed structs: in \<open>rte_ipv4_hdr\<close>
  \<open>version_ihl\<close> 0, \<open>type_of_service\<close> 1, \<open>next_proto_id\<close> 9, \<open>src_addr\<close> 12, \<open>dst_addr\<close> 16; in
  \<open>rte_udp_hdr\<close> \<open>dst_port\<close> 2; in \<open>rte_vxlan_hdr\<close> \<open>vx_vni\<close> 4; in \<open>rte_ether_hdr\<close> \<open>d_addr\<close> 0,
  \<open>s_addr\<close> 6, \<open>ether_type\<close> 12.
\<close>

section \<open>Encapsulations\<close>

definition outer_fake_smac :: mac where "outer_fake_smac = [0x11, 0x22, 0x33, 0x44, 0x55, 0x66]"
definition outer_fake_dmac :: mac where "outer_fake_dmac = [0x11, 0x22, 0x33, 0x44, 0x55, 0x67]"

fun inner_ether_of :: "shc_encap_type \<Rightarrow> bool" where
  "inner_ether_of SHC_ENCAP_VXLAN = True"
| "inner_ether_of SHC_ENCAP_TGRE = False"
| "inner_ether_of _ = False"

definition ip_tunnel_inner_ether_need :: "ip_tunnel_info \<Rightarrow> bool" where
  "ip_tunnel_inner_ether_need tunnel_i = inner_ether_of (tun_type tunnel_i)"

fun encap_size_of :: "shc_encap_type \<Rightarrow> nat" where
  "encap_size_of SHC_ENCAP_VXLAN = 14 + 8 + 8 + 20"
| "encap_size_of SHC_ENCAP_TGRE = 4 + 20"
| "encap_size_of _ = 0"

definition ip_tunnel_encap_size :: "ip_tunnel_info \<Rightarrow> nat" where
  "ip_tunnel_encap_size tunnel_i = encap_size_of (tun_type tunnel_i)"

section \<open>Forwarding\<close>

text \<open>
  The inner Ethernet header that both forwarding functions put in front of the packet: \<open>Inl\<close> is an
  early return, \<open>Inr\<close> the packet to go on with. An address that the neighbour lookup wrote before it
  failed is in the header already.
\<close>

definition inner_header ::
  "('h, 'f, 'b) lib \<Rightarrow> mbuf_lib \<Rightarrow> nat \<Rightarrow> fib_nhop \<Rightarrow> mbuf \<Rightarrow> ('h, 'f, 'b) pmd
     \<Rightarrow> ((mbuf + mbuf) \<times> ('h, 'f, 'b) pmd) option" where
  "inner_header E M v f pkt s =
     (case rte_pktmbuf_prepend M 14 pkt of
        None \<Rightarrow> do { s \<leftarrow> evt_inc VXLAN_TX_MBUF_PREPARE_NOSPACE s; Some (Inl pkt, s) }
      | Some pkt \<Rightarrow>
          let ethhdr = mtod pkt in
          if nh_gateway f \<noteq> 0 then do {
            (ret, ea, a) \<leftarrow> shc_neigh_lookup E (vrf_id (vrf_dp_of (ag s) v)) (nh_gateway f) 0 (ag s);
            let s = s\<lparr>ag := a\<rparr>;
            pkt \<leftarrow> (case ea of None \<Rightarrow> Some pkt | Some ea \<Rightarrow> store_bytes ethhdr ea pkt);
            if ret < 0 then do {
              s \<leftarrow> evt_inc OVERLAY_IP_FORWARD_NOARP s;
              (_, s) \<leftarrow> neigh_probe_xmit E M (vrf_id (vrf_dp_of (ag s) v)) (nh_gateway f) s;
              Some (Inl pkt, s)
            } else do {
              pkt \<leftarrow> store_bytes (ethhdr + 6) (rte_ether_addr_copy (shc_fake_mac_get (ag s))) pkt;
              Some (Inr pkt, s)
            }
          } else do {
            pkt \<leftarrow> store_bytes ethhdr (rte_ether_addr_copy (shc_def_gw_mac_get (ag s))) pkt;
            pkt \<leftarrow> store_bytes (ethhdr + 6) (rte_ether_addr_copy (shc_fake_mac_get (ag s))) pkt;
            Some (Inr pkt, s)
          })"

definition load_mac :: "mbuf \<Rightarrow> nat \<Rightarrow> mac option" where
  "load_mac m i = (if i + 6 \<le> length (buf m) then Some (take 6 (drop i (buf m))) else None)"

definition ip_forward ::
  "('h, 'f, 'b) lib \<Rightarrow> mbuf_lib \<Rightarrow> nat \<Rightarrow> fib_res \<Rightarrow> mbuf \<Rightarrow> ('h, 'f, 'b) pmd
     \<Rightarrow> (mbuf \<times> ('h, 'f, 'b) pmd) option" where
  "ip_forward E M v f_res pkt s = do {
     let nhsel = fib_res_select_mpath f_res (sint (hash_rss pkt));
     f \<leftarrow> mpath_nhop (ag s) f_res nhsel;
     if ip_tunnel_inner_ether_need (nh_tunnel_info f) then do {
       (p, s) \<leftarrow> inner_header E M v f pkt s;
       (case p of
          Inl pkt \<Rightarrow> Some (pkt, s)
        | Inr pkt \<Rightarrow> do {
            d \<leftarrow> load_mac pkt (mtod pkt);
            sm \<leftarrow> load_mac pkt (mtod pkt + 6);
            Some (pkt, s\<lparr>key_value_info := (key_value_info s)
              \<lparr>kv_inner_dst_mac := rte_ether_addr_copy d, kv_inner_src_mac := rte_ether_addr_copy sm,
               kv_vni_encp := rte_cpu_to_be_32 (push_bit 8 (vxlan_vni (nh_tunnel_info f))),
               kv_outer_src_ip := vxlan_local (nh_tunnel_info f),
               kv_outer_dst_ip := vxlan_remote (nh_tunnel_info f),
               kv_outer_dst_mac := rte_ether_addr_copy outer_fake_dmac,
               kv_outer_src_mac := rte_ether_addr_copy outer_fake_smac\<rparr>\<rparr>)
          })
     } else Some (pkt, s)
   }"

text \<open>The loop of \<open>ip_forward_m\<close> over the indices that are left; the header grows with every next hop.\<close>

fun ip_forward_m_loop ::
  "('h, 'f, 'b) lib \<Rightarrow> mbuf_lib \<Rightarrow> nat \<Rightarrow> fib_res \<Rightarrow> nat list \<Rightarrow> mbuf \<Rightarrow> ('h, 'f, 'b) pmd
     \<Rightarrow> (mbuf \<times> ('h, 'f, 'b) pmd) option" where
  "ip_forward_m_loop E M v f_res [] pkt s = Some (pkt, s)"
| "ip_forward_m_loop E M v f_res (nhsel # ns) pkt s = do {
     f \<leftarrow> mpath_nhop (ag s) f_res nhsel;
     if ip_tunnel_inner_ether_need (nh_tunnel_info f) then do {
       (p, s) \<leftarrow> inner_header E M v f pkt s;
       (case p of
          Inl pkt \<Rightarrow> Some (pkt, s)
        | Inr pkt \<Rightarrow> ip_forward_m_loop E M v f_res ns pkt s)
     } else ip_forward_m_loop E M v f_res ns pkt s
   }"

definition ip_forward_m ::
  "('h, 'f, 'b) lib \<Rightarrow> mbuf_lib \<Rightarrow> nat \<Rightarrow> fib_res \<Rightarrow> mbuf \<Rightarrow> ('h, 'f, 'b) pmd
     \<Rightarrow> (mbuf \<times> ('h, 'f, 'b) pmd) option" where
  "ip_forward_m E M v f_res pkt s = ip_forward_m_loop E M v f_res [0..<mpath_cnt f_res] pkt s"

section \<open>The overlay\<close>

definition ol_ip_rcv ::
  "('h, 'f, 'b) lib \<Rightarrow> mbuf_lib \<Rightarrow> mbuf \<Rightarrow> ('h, 'f, 'b) pmd \<Rightarrow> (mbuf \<times> ('h, 'f, 'b) pmd) option" where
  "ol_ip_rcv E M pkt s = do {
     let vrf_dp = md_vrf_dp (md pkt);
     RTE_ASSERT E (vrf_dp \<noteq> None);
     src_addr \<leftarrow> load32 pkt (mtod pkt + 12);
     dst_addr \<leftarrow> load32 pkt (mtod pkt + 16);
     v \<leftarrow> vrf_dp;
     (ret, f_res, a) \<leftarrow> shc_route_lookup E v src_addr dst_addr 0 (ag s);
     let s = s\<lparr>ag := a\<rparr>;
     if ret \<noteq> 0 then Some (pkt, s)
     else do {
       i \<leftarrow> f_res;
       r \<leftarrow> fib_res_get (ag s) i;
       if fib_res_is_reject r then Some (pkt, s)
       else if fib_res_is_mroute r then ip_forward_m E M v r pkt s
       else ip_forward E M v r pkt s
     }
   }"

text \<open>The result of an \<open>adj\<close> that is not looked at: the mbuf is left alone when it fails.\<close>

definition adj_unchecked :: "mbuf_lib \<Rightarrow> nat \<Rightarrow> mbuf \<Rightarrow> mbuf" where
  "adj_unchecked M n pkt = (case rte_pktmbuf_adj M n pkt of None \<Rightarrow> pkt | Some pkt' \<Rightarrow> pkt')"

definition ol_ether_rcv ::
  "('h, 'f, 'b) lib \<Rightarrow> mbuf_lib \<Rightarrow> mbuf \<Rightarrow> ('h, 'f, 'b) pmd \<Rightarrow> (mbuf \<times> ('h, 'f, 'b) pmd) option" where
  "ol_ether_rcv E M pkt s = ol_ip_rcv E M (adj_unchecked M 14 pkt) s"

definition RTE_ETHER_TYPE_IPV4 :: u16 where "RTE_ETHER_TYPE_IPV4 = 0x0800"
definition RTE_VXLAN_DEFAULT_PORT :: u16 where "RTE_VXLAN_DEFAULT_PORT = 4789"
definition IPPROTO_UDP :: u8 where "IPPROTO_UDP = 17"

definition overlay_pkt_rcv ::
  "('h, 'f, 'b) lib \<Rightarrow> mbuf_lib \<Rightarrow> mbuf \<Rightarrow> ('h, 'f, 'b) pmd \<Rightarrow> (int \<times> mbuf \<times> ('h, 'f, 'b) pmd) option" where
  "overlay_pkt_rcv E M pkt s = do {
     ether_type \<leftarrow> load16 pkt (mtod pkt + 12);
     if bswap16 ether_type = RTE_ETHER_TYPE_IPV4
     then do { (pkt, s) \<leftarrow> ol_ether_rcv E M pkt s; Some (0, pkt, s) }
     else Some (0, pkt, s)
   }"

section \<open>The tunnel\<close>

text \<open>The bit fields \<open>vni:24\<close> and \<open>dscp:8\<close> of the tunnel's third word.\<close>

definition vxlan_word :: "u32 \<Rightarrow> u8 \<Rightarrow> u32" where
  "vxlan_word vni dscp = take_bit 24 vni OR push_bit 24 (ucast dscp)"

text \<open>
  A NULL that \<open>rte_pktmbuf_adj\<close> returns is dereferenced at once (\<open>None\<close>), except after the VXLAN
  header, where the result is not used.
\<close>

definition vxlan_tunnel_rcv ::
  "('h, 'f, 'b) lib \<Rightarrow> mbuf_lib \<Rightarrow> mbuf \<Rightarrow> ('h, 'f, 'b) pmd \<Rightarrow> (mbuf \<times> ('h, 'f, 'b) pmd) option" where
  "vxlan_tunnel_rcv E M pkt s = do {
     let iphdr = mtod pkt;
     version_ihl \<leftarrow> load8 pkt iphdr;
     let pkt = pkt\<lparr>outer_l3_len := push_bit 2 (ucast (version_ihl AND 0xf))\<rparr>;
     pkt \<leftarrow> rte_pktmbuf_adj M (unat (outer_l3_len pkt)) pkt;
     dst_port \<leftarrow> load16 pkt (mtod pkt + 2);
     if dst_port \<noteq> rte_cpu_to_be_16 RTE_VXLAN_DEFAULT_PORT then Some (pkt, s)
     else do {
       pkt \<leftarrow> rte_pktmbuf_adj M 8 pkt;
       vx_vni \<leftarrow> load32 pkt (mtod pkt + 4);
       let vni = drop_bit 8 (rte_be_to_cpu_32 vx_vni);
       (vrf_dp, a) \<leftarrow> shc_tunnel_map_vrf_lookup E SHC_TUNNEL_VXLAN vni 0 (ag s);
       let s = s\<lparr>ag := a\<rparr>;
       if vrf_dp = None then Some (pkt, s)
       else do {
         remote \<leftarrow> load32 pkt (iphdr + 16);
         local \<leftarrow> load32 pkt (iphdr + 12);
         tos \<leftarrow> load8 pkt (iphdr + 1);
         let pkt = pkt\<lparr>md := (md pkt)\<lparr>in_tunnel_info := (in_tunnel_info (md pkt))
             \<lparr>tun_type := SHC_ENCAP_VXLAN, tun_w0 := remote, tun_w1 := local,
              tun_w2 := vxlan_word vni (drop_bit 2 tos)\<rparr>,
            md_vrf_dp := vrf_dp\<rparr>\<rparr>;
         (_, pkt, s) \<leftarrow> overlay_pkt_rcv E M (adj_unchecked M 8 pkt) s;
         Some (pkt, s)
       }
     }
   }"

definition tunnel_rcv ::
  "('h, 'f, 'b) lib \<Rightarrow> mbuf_lib \<Rightarrow> mbuf \<Rightarrow> ('h, 'f, 'b) pmd \<Rightarrow> (mbuf \<times> ('h, 'f, 'b) pmd) option" where
  "tunnel_rcv E M pkt s = do {
     version_ihl \<leftarrow> load8 pkt (mtod pkt);
     let pkt = pkt\<lparr>outer_l3_len := push_bit 2 (ucast (version_ihl AND 0xf))\<rparr>;
     next_proto_id \<leftarrow> load8 pkt (mtod pkt + 9);
     if next_proto_id = IPPROTO_UDP then vxlan_tunnel_rcv E M pkt s else Some (pkt, s)
   }"

section \<open>The socket\<close>

text \<open>
  \<open>recv\<close> is the function \<open>rx\<close>: what it stores for a buffer of the given size, or \<open>None\<close> when it
  returns -1. After a failure the handler asks the event loop to stop and goes on: -1 becomes the
  length 65535, and the bytes that the buffer held before are taken for a packet.
\<close>

definition netio_rx ::
  "('h, 'f, 'b) lib \<Rightarrow> mbuf_lib \<Rightarrow> (nat \<Rightarrow> u8 list option) \<Rightarrow> ('h, 'f, 'b) pmd \<Rightarrow> ('h, 'f, 'b) pmd option" where
  "netio_rx E M rx s =
     (case pool_alloc M s of
        (None, s) \<Rightarrow> Some s
      | (Some m, s) \<Rightarrow> do {
          let m = m\<lparr>md := md_zero\<rparr>;
          let r = rx (length (buf m) - RTE_PKTMBUF_HEADROOM);
          m \<leftarrow> (case r of None \<Rightarrow> Some m | Some bs \<Rightarrow> store_bytes (mtod m) bs m);
          let nbytes = (case r of None \<Rightarrow> -1 | Some bs \<Rightarrow> int (length bs));
          let s = (if nbytes < 0 then s\<lparr>loop_broken := True\<rparr> else s);
          let m = m\<lparr>data_len := of_int nbytes, pkt_len := ucast (of_int nbytes :: u16)\<rparr>;
          let s = s\<lparr>lock_log := RdLock # lock_log s\<rparr>;
          (m, s) \<leftarrow> tunnel_rcv E M m s;
          let s = s\<lparr>lock_log := RdUnlock # lock_log s\<rparr>;
          Some (pool_free s)
        })"

section \<open>Buffers and locks\<close>

text \<open>What a step of the path leaves alone in the thread's own state.\<close>

definition same_thread :: "('h, 'f, 'b) pmd \<Rightarrow> ('h, 'f, 'b) pmd \<Rightarrow> bool" where
  "same_thread s s' \<longleftrightarrow> mbufs_out s' = mbufs_out s \<and> lock_log s' = lock_log s \<and> loop_broken s' = loop_broken s"

lemma same_thread_simps [simp]:
  "same_thread s s" "same_thread s (t\<lparr>ag := a\<rparr>) = same_thread s t"
  "same_thread s (t\<lparr>key_value_info := k\<rparr>) = same_thread s t" "same_thread (t\<lparr>ag := a\<rparr>) s = same_thread t s"
  by (simp_all add: same_thread_def)

lemma same_thread_trans: "same_thread s t \<Longrightarrow> same_thread t u \<Longrightarrow> same_thread s u"
  by (simp add: same_thread_def)

lemma evt_inc_ag: "evt_inc type s = Some s' \<Longrightarrow> \<exists>a. s' = s\<lparr>ag := a\<rparr>"
  by (auto simp: evt_inc_def split: Option.bind_splits)

lemma neigh_probe_thread:
  assumes "neigh_probe_xmit E M vrfid nh s = Some (r, s')" shows "same_thread s s'"
  using assms
  by (auto simp: neigh_probe_xmit_def Let_def pool_alloc_def pool_free_def same_thread_def
      split: Option.bind_splits option.splits if_splits prod.splits dest!: evt_inc_ag)

lemma inner_header_thread:
  assumes "inner_header E M v f pkt s = Some (p, s')" shows "same_thread s s'"
  using assms
  by (auto simp: inner_header_def Let_def same_thread_def split: Option.bind_splits option.splits if_splits prod.splits
      dest!: evt_inc_ag neigh_probe_thread)

lemma ip_forward_thread:
  assumes "ip_forward E M v r pkt s = Some (p, s')" shows "same_thread s s'"
  using assms
  by (auto simp: ip_forward_def Let_def split: Option.bind_splits sum.splits if_splits prod.splits
      dest!: inner_header_thread)

lemma ip_forward_m_loop_thread:
  "ip_forward_m_loop E M v r ns pkt s = Some (p, s') \<Longrightarrow> same_thread s s'"
proof (induction ns arbitrary: pkt s)
  case (Cons n ns)
  then show ?case
    by (auto split: Option.bind_splits sum.splits if_splits prod.splits dest!: inner_header_thread
        intro: same_thread_trans)
qed simp

lemma ol_ip_rcv_thread:
  assumes "ol_ip_rcv E M pkt s = Some (p, s')" shows "same_thread s s'"
  using assms
  by (auto simp: ol_ip_rcv_def ip_forward_m_def Let_def split: Option.bind_splits if_splits prod.splits
      dest!: ip_forward_thread ip_forward_m_loop_thread)

lemma tunnel_rcv_thread:
  assumes "tunnel_rcv E M pkt s = Some (p, s')" shows "same_thread s s'"
  using assms
  by (auto simp: tunnel_rcv_def vxlan_tunnel_rcv_def overlay_pkt_rcv_def ol_ether_rcv_def Let_def
      split: Option.bind_splits if_splits prod.splits dest!: ol_ip_rcv_thread)

text \<open>
  Whenever the receive handler returns, whatever the datagram was, the mbuf it took from the pool
  is back and the data path's lock was taken for reading once and released, or, with an empty pool,
  neither was touched.
\<close>

theorem netio_rx_balanced:
  assumes "netio_rx E M rx s = Some s'"
  shows "mbufs_out s' = mbufs_out s \<and>
    (if rte_pktmbuf_alloc M (allocs s) = None then lock_log s' = lock_log s
     else lock_log s' = RdUnlock # RdLock # lock_log s)"
proof (cases "rte_pktmbuf_alloc M (allocs s)")
  case None
  with assms show ?thesis by (auto simp: netio_rx_def pool_alloc_def)
next
  case (Some m)
  with assms show ?thesis
    by (auto simp: netio_rx_def pool_alloc_def pool_free_def Let_def same_thread_def
        split: Option.bind_splits prod.splits if_splits dest!: tunnel_rcv_thread)
qed

section \<open>The frame and its fields\<close>

text \<open>
  A datagram as the list of its bytes. \<open>frame_hl\<close> is the length of the outer IP header; the other
  fields are read where the nested headers have them, in network order.
\<close>

definition frame_hl :: "u8 list \<Rightarrow> nat" where
  "frame_hl bs = 4 * unat (bs ! 0 AND 0xf)"

definition frame_dport :: "u8 list \<Rightarrow> u16" where
  "frame_dport bs = le16 (bs ! (frame_hl bs + 3)) (bs ! (frame_hl bs + 2))"

definition frame_vni :: "u8 list \<Rightarrow> u32" where
  "frame_vni bs = le32 (bs ! (frame_hl bs + 14)) (bs ! (frame_hl bs + 13)) (bs ! (frame_hl bs + 12)) 0"

definition frame_type :: "u8 list \<Rightarrow> u16" where
  "frame_type bs = le16 (bs ! (frame_hl bs + 29)) (bs ! (frame_hl bs + 28))"

text \<open>The inner addresses as the code handles them, in the order of the packet's bytes.\<close>

definition frame_src :: "u8 list \<Rightarrow> u32" where
  "frame_src bs = le32 (bs ! (frame_hl bs + 42)) (bs ! (frame_hl bs + 43)) (bs ! (frame_hl bs + 44)) (bs ! (frame_hl bs + 45))"

definition frame_dst :: "u8 list \<Rightarrow> u32" where
  "frame_dst bs = le32 (bs ! (frame_hl bs + 46)) (bs ! (frame_hl bs + 47)) (bs ! (frame_hl bs + 48)) (bs ! (frame_hl bs + 49))"

text \<open>A VXLAN datagram with complete headers.\<close>

definition vxlan_frame :: "u8 list \<Rightarrow> bool" where
  "vxlan_frame bs \<longleftrightarrow> frame_hl bs + 50 \<le> length bs \<and> bs ! 9 = IPPROTO_UDP \<and> frame_dport bs = RTE_VXLAN_DEFAULT_PORT"

text \<open>
  What such a datagram is meant to do: the VRF of its VNI is looked up, then the route of the inner
  destination, and the packet is forwarded by the route's result. \<open>pkt\<close> is the mbuf, its data
  starting at the inner IP header.
\<close>

definition frame_deliver ::
  "('h, 'f, 'b) lib \<Rightarrow> mbuf_lib \<Rightarrow> u8 list \<Rightarrow> mbuf \<Rightarrow> ('h, 'f, 'b) pmd \<Rightarrow> ('h, 'f, 'b) pmd option" where
  "frame_deliver E M bs pkt s = do {
     (vrf, a) \<leftarrow> shc_tunnel_map_vrf_lookup E SHC_TUNNEL_VXLAN (frame_vni bs) 0 (ag s);
     (case vrf of
        None \<Rightarrow> Some (s\<lparr>ag := a\<rparr>)
      | Some v \<Rightarrow>
          if frame_type bs \<noteq> RTE_ETHER_TYPE_IPV4 then Some (s\<lparr>ag := a\<rparr>)
          else do {
            (ret, f_res, a) \<leftarrow> shc_route_lookup E v (frame_src bs) (frame_dst bs) 0 a;
            let s = s\<lparr>ag := a\<rparr>;
            if ret \<noteq> 0 then Some s
            else do {
              i \<leftarrow> f_res;
              r \<leftarrow> fib_res_get a i;
              if fib_res_is_reject r then Some s
              else map_option snd (if fib_res_is_mroute r then ip_forward_m E M v r pkt s else ip_forward E M v r pkt s)
            }
          })
   }"

definition at_inner_ip :: "mbuf \<Rightarrow> u8 list \<Rightarrow> mbuf \<Rightarrow> bool" where
  "at_inner_ip m bs pkt \<longleftrightarrow> mtod pkt = mtod m + frame_hl bs + 30 \<and> buf pkt = buf m \<and> hash_rss pkt = hash_rss m \<and>
     unat (data_len pkt) = unat (data_len m) - (frame_hl bs + 30)"

lemma nibble_le: "unat (x AND 0xf :: u8) \<le> 15"
proof -
  have "x AND 0xf \<le> 0xf" by (rule word_and_le1)
  then show ?thesis unfolding word_le_nat_alt by simp
qed

lemma ihl_word: "unat (push_bit 2 (ucast (x AND 0xf :: u8)) :: u16) = 4 * unat (x AND 0xf)"
proof -
  have "unat (ucast (x AND 0xf) :: u16) = unat (x AND 0xf)"
    using nibble_le [of x] by (simp add: unsigned_ucast_eq take_bit_nat_eq_self)
  then show ?thesis using nibble_le [of x] by (simp add: push_bit_eq_mult unat_word_ariths)
qed

lemma frame_hl_le: "frame_hl bs \<le> 60"
  using nibble_le [of "bs ! 0"] by (simp add: frame_hl_def)

lemma vni_of_word: "drop_bit 8 (bswap32 (le32 a b c d)) = le32 c b a 0"
  by (rule bit_eqI) (auto simp: bit_drop_bit_eq bit_bswap32 bit_le32 dest: bit_imp_le_length)

lemma bind_snd: "Option.bind m (\<lambda>(_, y). Some y) = map_option snd m"
  by (cases m) auto

text \<open>Down to the UDP header: \<open>m1\<close> is the mbuf with \<open>outer_l3_len\<close> set, \<open>m2\<close> has its data at the UDP header.\<close>

lemma outer_descent:
  assumes M: "mbuf_laws M" and udp: "bs ! 9 = IPPROTO_UDP" and port: "frame_dport bs = RTE_VXLAN_DEFAULT_PORT"
    and held: "holds m (mtod m) bs" and bl: "10 \<le> length bs" "frame_hl bs + 4 \<le> length bs"
    and len: "frame_hl bs \<le> unat (data_len m)" "mtod m \<le> 1000"
  obtains m1 m2 where "tunnel_rcv E M m s = vxlan_tunnel_rcv E M m1 s"
    "load8 m1 (mtod m) = Some (bs ! 0)" "mtod m1 = mtod m"
    "m1\<lparr>outer_l3_len := push_bit 2 (ucast (bs ! 0 AND 0xf))\<rparr> = m1" "adj_doc (frame_hl bs) m1 = Some m2"
    "mtod m2 = mtod m + frame_hl bs" "unat (data_len m2) = unat (data_len m) - frame_hl bs"
    "buf m2 = buf m" "hash_rss m2 = hash_rss m" "load16 m2 (mtod m2 + 2) = Some (bswap16 RTE_VXLAN_DEFAULT_PORT)"
proof -
  have hl: "frame_hl bs \<le> 60" by (rule frame_hl_le)
  have off: "mtod m \<le> 1000" by (rule len)
  have l0: "load8 m (mtod m) = Some (bs ! 0)" and l9: "load8 m (mtod m + 9) = Some (bs ! 9)"
    using holds_load8 [OF held, of 0] holds_load8 [OF held, of 9] bl by force+
  define m1 where "m1 = m\<lparr>outer_l3_len := push_bit 2 (ucast (bs ! 0 AND 0xf))\<rparr>"
  have m1: "buf m1 = buf m" "data_off m1 = data_off m" "data_len m1 = data_len m" "hash_rss m1 = hash_rss m"
    by (simp_all add: m1_def)
  have l1: "load8 m1 (mtod m) = Some (bs ! 0)" "load8 m1 (mtod m + 9) = Some IPPROTO_UDP"
    using l0 l9 udp by (simp_all add: load8_buf [OF m1(1)])
  obtain m2 where m2: "adj_doc (frame_hl bs) m1 = Some m2" "mtod m2 = mtod m + frame_hl bs"
    "unat (data_len m2) = unat (data_len m) - frame_hl bs" "buf m2 = buf m" "hash_rss m2 = hash_rss m"
    by (rule adj_doc_window [where n = "frame_hl bs" and m = m1]) (use len hl off m1 in simp_all)
  have h2: "holds m2 (mtod m) bs" using held m2(4) by (simp add: holds_def)
  have "le16 (bs ! (frame_hl bs + 2)) (bs ! (frame_hl bs + 3)) = bswap16 RTE_VXLAN_DEFAULT_PORT"
    using port bswap16_le16 [of "bs ! (frame_hl bs + 3)" "bs ! (frame_hl bs + 2)"] by (simp add: frame_dport_def)
  then have p2: "load16 m2 (mtod m2 + 2) = Some (bswap16 RTE_VXLAN_DEFAULT_PORT)"
    using holds_load16 [OF h2, of "frame_hl bs + 2"] bl by (simp add: m2(2) numeral_3_eq_3)
  have "m1\<lparr>outer_l3_len := push_bit 2 (ucast (bs ! 0 AND 0xf))\<rparr> = m1" by (simp add: m1_def)
  moreover have "tunnel_rcv E M m s = vxlan_tunnel_rcv E M m1 s"
    using l0 l1 by (simp add: tunnel_rcv_def Let_def flip: m1_def)
  ultimately show thesis using that l1(1) m1(2) m2 p2 by simp
qed

lemma frame_hl_word: "unat (push_bit 2 (ucast (bs ! 0 AND 0xf)) :: u16) = frame_hl bs"
  by (simp add: ihl_word frame_hl_def)

text \<open>The whole descent, for a packet that the buffer holds from \<open>mtod m\<close> on.\<close>

lemma tunnel_rcv_frame:
  assumes M: "mbuf_laws M" and frame: "vxlan_frame bs" and held: "holds m (mtod m) bs"
    and len: "frame_hl bs + 50 \<le> unat (data_len m)" "mtod m \<le> 1000"
  shows "\<exists>pkt. at_inner_ip m bs pkt \<and> map_option snd (tunnel_rcv E M m s) = frame_deliver E M bs pkt s"
proof -
  have adj: "rte_pktmbuf_adj M = adj_doc" using M by (simp add: mbuf_laws_def)
  have bl: "frame_hl bs + 50 \<le> length bs" and udp: "bs ! 9 = IPPROTO_UDP" and port: "frame_dport bs = RTE_VXLAN_DEFAULT_PORT"
    using frame by (simp_all add: vxlan_frame_def)
  have hl: "frame_hl bs \<le> 60" by (rule frame_hl_le)
  have off: "mtod m \<le> 1000" by (rule len)
  obtain m1 m2 where enter: "tunnel_rcv E M m s = vxlan_tunnel_rcv E M m1 s" and
    l1: "load8 m1 (mtod m) = Some (bs ! 0)" and m1: "mtod m1 = mtod m" and
    again: "m1\<lparr>outer_l3_len := push_bit 2 (ucast (bs ! 0 AND 0xf))\<rparr> = m1" and
    m2: "adj_doc (frame_hl bs) m1 = Some m2" "mtod m2 = mtod m + frame_hl bs"
      "unat (data_len m2) = unat (data_len m) - frame_hl bs" "buf m2 = buf m" "hash_rss m2 = hash_rss m" and
    p2: "load16 m2 (mtod m2 + 2) = Some (bswap16 RTE_VXLAN_DEFAULT_PORT)"
    by (rule outer_descent [where E = E and s = s, OF M udp port held]) (use bl len in simp_all)
  obtain m3 where m3: "adj_doc 8 m2 = Some m3" "mtod m3 = mtod m + frame_hl bs + 8"
    "unat (data_len m3) = unat (data_len m) - (frame_hl bs + 8)" "buf m3 = buf m" "hash_rss m3 = hash_rss m"
    by (rule adj_doc_window [where n = 8 and m = m2]) (use len hl off m2 in simp_all)
  have h3: "holds m3 (mtod m) bs" using held m3(4) by (simp add: holds_def)
  have v3: "load32 m3 (mtod m3 + 4) = Some (le32 (bs ! (frame_hl bs + 12)) (bs ! (frame_hl bs + 13))
      (bs ! (frame_hl bs + 14)) (bs ! (frame_hl bs + 15)))"
    using holds_load32 [OF h3, of "frame_hl bs + 12"] bl
    by (simp add: m3(2) add.assoc add.commute [of 13] add.commute [of 14])
  have "load32 m3 (mtod m + 12) \<noteq> None" "load32 m3 (mtod m + 16) \<noteq> None" "load8 m3 (mtod m + 1) \<noteq> None"
    using holds_load32 [OF h3, of 12] holds_load32 [OF h3, of 16] holds_load8 [OF h3, of 1] bl by simp_all
  then obtain sa da tos where outer: "load32 m3 (mtod m + 12) = Some sa" "load32 m3 (mtod m + 16) = Some da"
    "load8 m3 (mtod m + 1) = Some tos" by blast
  have inner: "\<exists>m5 m6. adj_doc 8 (m3\<lparr>md := x\<rparr>) = Some m5 \<and> adj_doc 14 m5 = Some m6 \<and> at_inner_ip m bs m6 \<and> md m6 = x \<and>
      mtod m5 = mtod m + frame_hl bs + 16 \<and> buf m5 = buf m" for x
  proof -
    obtain m5 where m5: "adj_doc 8 (m3\<lparr>md := x\<rparr>) = Some m5" "mtod m5 = mtod m + frame_hl bs + 16"
      "unat (data_len m5) = unat (data_len m) - (frame_hl bs + 16)" "buf m5 = buf m" "hash_rss m5 = hash_rss m" "md m5 = x"
      by (rule adj_doc_window [where n = 8 and m = "m3\<lparr>md := x\<rparr>"]) (use len hl off m3 in simp_all)
    obtain m6 where m6: "adj_doc 14 m5 = Some m6" "mtod m6 = mtod m + frame_hl bs + 30"
      "unat (data_len m6) = unat (data_len m) - (frame_hl bs + 30)" "buf m6 = buf m" "hash_rss m6 = hash_rss m" "md m6 = x"
      by (rule adj_doc_window [where n = 14 and m = m5]) (use len hl off m5 in simp_all)
    from m5 m6 show ?thesis by (auto simp: at_inner_ip_def)
  qed
  have down: "tunnel_rcv E M m s = (case shc_tunnel_map_vrf_lookup E SHC_TUNNEL_VXLAN (frame_vni bs) 0 (ag s) of
      None \<Rightarrow> None | Some (None, a) \<Rightarrow> Some (m3, s\<lparr>ag := a\<rparr>)
    | Some (Some v, a) \<Rightarrow> map_option snd (overlay_pkt_rcv E M (adj_unchecked M 8 (m3\<lparr>md := (md m3)\<lparr>in_tunnel_info :=
         (in_tunnel_info (md m3))\<lparr>tun_type := SHC_ENCAP_VXLAN, tun_w0 := da, tun_w1 := sa,
            tun_w2 := vxlan_word (frame_vni bs) (drop_bit 2 tos)\<rparr>, md_vrf_dp := Some v\<rparr>\<rparr>)) (s\<lparr>ag := a\<rparr>)))"
    using l1 m2(1) m3(1) frame_hl_word [of bs] p2 v3 outer
    by (auto simp: enter vxlan_tunnel_rcv_def adj Let_def again m1 vni_of_word bind_snd
        simp flip: frame_vni_def split: option.splits prod.splits)
  show ?thesis
  proof (cases "shc_tunnel_map_vrf_lookup E SHC_TUNNEL_VXLAN (frame_vni bs) 0 (ag s)")
    case None
    then show ?thesis using inner [of md_zero] by (auto simp: down frame_deliver_def)
  next
    case (Some p)
    then obtain vo a where look: "shc_tunnel_map_vrf_lookup E SHC_TUNNEL_VXLAN (frame_vni bs) 0 (ag s) = Some (vo, a)"
      by (cases p) auto
    show ?thesis
    proof (cases vo)
      case None
      then show ?thesis using inner [of md_zero] look by (auto simp: down frame_deliver_def)
    next
      case (Some v)
      define x where "x = (md m3)\<lparr>in_tunnel_info :=
         (in_tunnel_info (md m3))\<lparr>tun_type := SHC_ENCAP_VXLAN, tun_w0 := da, tun_w1 := sa,
            tun_w2 := vxlan_word (frame_vni bs) (drop_bit 2 tos)\<rparr>, md_vrf_dp := Some v\<rparr>"
      have xv: "md_vrf_dp x = Some v" by (simp add: x_def)
      from inner [of x] obtain m5 m6 where m56: "adj_doc 8 (m3\<lparr>md := x\<rparr>) = Some m5" "adj_doc 14 m5 = Some m6"
        "at_inner_ip m bs m6" "md m6 = x" "mtod m5 = mtod m + frame_hl bs + 16" "buf m5 = buf m" by blast
      have b6: "buf m6 = buf m" "mtod m6 = mtod m + frame_hl bs + 30" using m56(3) by (simp_all add: at_inner_ip_def)
      have h5: "holds m5 (mtod m) bs" and h6: "holds m6 (mtod m) bs" using held m56(6) b6 by (simp_all add: holds_def)
      have type: "load16 m5 (mtod m5 + 12) = Some (le16 (bs ! (frame_hl bs + 28)) (bs ! (frame_hl bs + 29)))"
        using holds_load16 [OF h5, of "frame_hl bs + 28"] bl by (simp add: m56(5) add.assoc add.commute [of 29])
      have src: "load32 m6 (mtod m6 + 12) = Some (frame_src bs)"
        using holds_load32 [OF h6, of "frame_hl bs + 42"] bl
        by (simp add: b6(2) add.assoc add.commute [of 43] add.commute [of 44] frame_src_def)
      have dst: "load32 m6 (mtod m6 + 16) = Some (frame_dst bs)"
        using holds_load32 [OF h6, of "frame_hl bs + 46"] bl
        by (simp add: b6(2) add.assoc add.commute [of 47] add.commute [of 48] frame_dst_def)
      have "map_option snd (tunnel_rcv E M m s) = frame_deliver E M bs m6 s"
        using m56(1,2,4) type src dst xv
        by (simp add: down look Some adj adj_unchecked_def frame_deliver_def overlay_pkt_rcv_def ol_ether_rcv_def
            ol_ip_rcv_def Let_def bswap16_le16 x_def [symmetric] flip: frame_type_def)
           (auto split: Option.bind_splits option.splits prod.splits)
      with m56(3) show ?thesis by blast
    qed
  qed
qed

section \<open>The receive handler\<close>

text \<open>The mbuf with \<open>bs\<close> received, and the thread around the descent.\<close>

definition received :: "mbuf \<Rightarrow> u8 list \<Rightarrow> mbuf" where
  "received m bs = m\<lparr>md := md_zero, buf := write_at (buf m) (mtod m) bs, data_len := of_nat (length bs),
     pkt_len := ucast (of_nat (length bs) :: u16)\<rparr>"

definition rx_begin :: "('h, 'f, 'b) pmd \<Rightarrow> ('h, 'f, 'b) pmd" where
  "rx_begin s = s\<lparr>allocs := allocs s + 1, mbufs_out := mbufs_out s + 1, lock_log := RdLock # lock_log s\<rparr>"

definition rx_end :: "('h, 'f, 'b) pmd \<Rightarrow> ('h, 'f, 'b) pmd" where
  "rx_end s = pool_free (s\<lparr>lock_log := RdUnlock # lock_log s\<rparr>)"

lemma bind_end: "Option.bind m (\<lambda>(a, b). Some (g b)) = map_option g (map_option snd m)"
  by (cases m) auto

lemma netio_rx_received:
  assumes "rte_pktmbuf_alloc M (allocs s) = Some m" "fresh_mbuf m" "rx 2048 = Some bs" "length bs \<le> 2048"
  shows "netio_rx E M rx s = map_option rx_end (map_option snd (tunnel_rcv E M (received m bs) (rx_begin s)))"
proof -
  have m: "length (buf m) = 2176" "mtod m = 128"
    using assms(2) by (simp_all add: fresh_mbuf_def RTE_MBUF_DEFAULT_BUF_SIZE_def RTE_PKTMBUF_HEADROOM_def)
  show ?thesis
    using assms(1,3,4) m
    by (simp add: netio_rx_def pool_alloc_def Let_def RTE_PKTMBUF_HEADROOM_def store_bytes_def received_def rx_begin_def
        rx_end_def [abs_def] bind_end)
qed

lemma received_window:
  assumes "fresh_mbuf m" "length bs \<le> 2048"
  shows "mtod (received m bs) = 128" "unat (data_len (received m bs)) = length bs" "holds (received m bs) 128 bs"
proof -
  have m: "length (buf m) = 2176" "mtod m = 128"
    using assms(1) by (simp_all add: fresh_mbuf_def RTE_MBUF_DEFAULT_BUF_SIZE_def RTE_PKTMBUF_HEADROOM_def)
  then show "mtod (received m bs) = 128" "holds (received m bs) 128 bs"
    using assms(2) by (simp_all add: received_def holds_def nth_write_at)
  show "unat (data_len (received m bs)) = length bs"
    using assms(2) by (simp add: received_def unat_of_nat)
qed

lemma netio_rx_enters:
  assumes "mbuf_laws M" "rte_pktmbuf_alloc M (allocs s) = Some m" "rx 2048 = Some bs" "length bs \<le> 2048"
    and "vxlan_frame bs"
  shows "\<exists>pkt. at_inner_ip (received m bs) bs pkt \<and>
    netio_rx E M rx s = map_option rx_end (frame_deliver E M bs pkt (rx_begin s))"
proof -
  have fresh: "fresh_mbuf m" using assms(1,2) by (auto simp: mbuf_laws_def)
  note win = received_window [OF fresh assms(4)]
  have "frame_hl bs + 50 \<le> length bs" using assms(5) by (simp add: vxlan_frame_def)
  with tunnel_rcv_frame [OF assms(1,5), of "received m bs" E "rx_begin s"] win
  obtain pkt where "at_inner_ip (received m bs) bs pkt"
    "map_option snd (tunnel_rcv E M (received m bs) (rx_begin s)) = frame_deliver E M bs pkt (rx_begin s)" by auto
  with netio_rx_received [where E = E and rx = rx, OF assms(2) fresh assms(3,4)] show ?thesis by auto
qed

text \<open>
  C22. A received datagram that is a well-formed VXLAN frame (UDP to the VXLAN port, with all of the
  outer, UDP, VXLAN, inner Ethernet and inner IP headers within its bytes) is handled as its bytes say:
  \<open>frame_deliver\<close>, which reads the frame's fields at their offsets, looks up the VRF of the VNI in the
  header and the route from the inner source to the inner destination, and forwards by that route. The
  pointer arithmetic of the four layers' descent adds nothing to that and takes nothing away, whatever
  the length of the outer IP header's options. Other datagrams are not the theorem's.
\<close>

theorem netio_rx_frame:
  assumes "mbuf_laws M" "rte_pktmbuf_alloc M (allocs s) = Some m" "rx 2048 = Some bs" "length bs \<le> 2048"
    and "vxlan_frame bs"
  shows "\<exists>pkt. at_inner_ip (received m bs) bs pkt \<and>
    netio_rx E M rx s = map_option rx_end (frame_deliver E M bs pkt (rx_begin s))"
  using netio_rx_enters [where E = E and rx = rx, OF assms] .

text \<open>
  When \<open>recv\<close> fails, the handler does not stop: if the buffer that the pool gives out still holds a
  VXLAN datagram (the last one received in it), that datagram is handled once more, with all its
  effects on the hardware's tables.
\<close>

theorem netio_rx_recv_failed:
  assumes "mbuf_laws M" "rte_pktmbuf_alloc M (allocs s) = Some m" "rx 2048 = None"
    and "holds m 128 bs" "vxlan_frame bs"
  shows "\<exists>pkt. netio_rx E M rx s = map_option rx_end (frame_deliver E M bs pkt (rx_begin (s\<lparr>loop_broken := True\<rparr>)))"
proof -
  have fresh: "fresh_mbuf m" using assms(1,2) by (auto simp: mbuf_laws_def)
  then have m: "length (buf m) = 2176" "mtod m = 128"
    by (simp_all add: fresh_mbuf_def RTE_MBUF_DEFAULT_BUF_SIZE_def RTE_PKTMBUF_HEADROOM_def)
  have neg: "(- 1 :: u16) = 65535" by simp
  have comm: "s\<lparr>loop_broken := True, allocs := a, mbufs_out := b, lock_log := l\<rparr> =
      s\<lparr>allocs := a, mbufs_out := b, loop_broken := True, lock_log := l\<rparr>" for a b l by (cases s) simp
  define m' where "m' = m\<lparr>md := md_zero, data_len := 65535, pkt_len := 65535\<rparr>"
  have run: "netio_rx E M rx s =
      map_option rx_end (map_option snd (tunnel_rcv E M m' (rx_begin (s\<lparr>loop_broken := True\<rparr>))))"
    using assms(2,3) m
    by (simp add: netio_rx_def pool_alloc_def Let_def RTE_PKTMBUF_HEADROOM_def rx_begin_def rx_end_def [abs_def] bind_end m'_def neg comm)
  have "holds m' (mtod m') bs" "mtod m' \<le> 1000" "unat (data_len m') = 65535"
    using assms(4) m by (simp_all add: m'_def holds_def)
  moreover have "frame_hl bs + 50 \<le> 65535" using frame_hl_le [of bs] by simp
  ultimately obtain pkt where "map_option snd (tunnel_rcv E M m' (rx_begin (s\<lparr>loop_broken := True\<rparr>))) =
      frame_deliver E M bs pkt (rx_begin (s\<lparr>loop_broken := True\<rparr>))"
    using tunnel_rcv_frame [OF assms(1,5), of m' E "rx_begin (s\<lparr>loop_broken := True\<rparr>)"] by auto
  with run show ?thesis by auto
qed

lemma netio_rx_cut_short:
  assumes "mbuf_laws M" "rte_pktmbuf_alloc M (allocs s) = Some m" "rx 2048 = Some bs" "length bs \<le> 2048"
    and "bs ! 9 = IPPROTO_UDP" "frame_dport bs = RTE_VXLAN_DEFAULT_PORT"
    and "10 \<le> length bs" "frame_hl bs + 4 \<le> length bs" "length bs < frame_hl bs + 8"
  shows "netio_rx E M rx s = None"
proof -
  have fresh: "fresh_mbuf m" and adj: "rte_pktmbuf_adj M = adj_doc" using assms(1,2) by (auto simp: mbuf_laws_def)
  note win = received_window [OF fresh assms(4)]
  obtain m1 m2 where 1: "tunnel_rcv E M (received m bs) (rx_begin s) = vxlan_tunnel_rcv E M m1 (rx_begin s)"
    "load8 m1 128 = Some (bs ! 0)" "mtod m1 = 128"
    "m1\<lparr>outer_l3_len := push_bit 2 (ucast (bs ! 0 AND 0xf))\<rparr> = m1" "adj_doc (frame_hl bs) m1 = Some m2"
    "unat (data_len m2) = length bs - frame_hl bs" "load16 m2 (mtod m2 + 2) = Some (bswap16 RTE_VXLAN_DEFAULT_PORT)"
    by (rule outer_descent [where E = E and s = "rx_begin s" and m = "received m bs", OF assms(1,5,6)])
       (use win assms in simp_all)
  have "adj_doc 8 m2 = None" by (rule adj_doc_short) (use 1(6) assms(9) in simp)
  then have "vxlan_tunnel_rcv E M m1 (rx_begin s) = None"
    using 1 by (simp add: vxlan_tunnel_rcv_def Let_def adj frame_hl_word)
  with netio_rx_received [where E = E and rx = rx, OF assms(2) fresh assms(3,4)] 1(1) show ?thesis by simp
qed

section \<open>The encapsulation that is recorded\<close>

definition encap_of :: "mac \<Rightarrow> mac \<Rightarrow> ip_tunnel_info \<Rightarrow> key_value \<Rightarrow> key_value" where
  "encap_of d sm t kv = kv\<lparr>kv_inner_dst_mac := d, kv_inner_src_mac := sm,
     kv_vni_encp := rte_cpu_to_be_32 (push_bit 8 (vxlan_vni t)), kv_outer_src_ip := vxlan_local t,
     kv_outer_dst_ip := vxlan_remote t, kv_outer_dst_mac := outer_fake_dmac, kv_outer_src_mac := outer_fake_smac\<rparr>"

lemma outer_fake_macs [simp]: "take 6 outer_fake_dmac = outer_fake_dmac" "take 6 outer_fake_smac = outer_fake_smac"
  by (simp_all add: outer_fake_dmac_def outer_fake_smac_def)

text \<open>A packet with room for an Ethernet header in front of it.\<close>

definition roomy :: "mbuf \<Rightarrow> bool" where
  "roomy pkt \<longleftrightarrow> 14 \<le> mtod pkt \<and> mtod pkt \<le> length (buf pkt)"

lemma prepend_window:
  assumes "roomy pkt"
  obtains p where "prepend_doc 14 pkt = Some p" "mtod p = mtod pkt - 14" "buf p = buf pkt"
    "mtod p + 14 \<le> length (buf p)"
proof -
  have "14 \<le> data_off pkt" using assms by (simp add: roomy_def word_le_nat_alt)
  then have "unat (data_off pkt - 14) = mtod pkt - 14" by (simp add: unat_sub)
  moreover have "\<not> 14 > mtod pkt" "mtod pkt \<le> length (buf pkt)" using assms by (simp_all add: roomy_def)
  ultimately show thesis
    by (intro that [of "pkt\<lparr>data_off := data_off pkt - of_nat 14, data_len := data_len pkt + of_nat 14,
        pkt_len := pkt_len pkt + of_nat 14\<rparr>"]) (simp_all add: prepend_doc_def)
qed

text \<open>Both addresses written and read back.\<close>

lemma macs_written:
  assumes "mtod p + 14 \<le> length (buf p)" "length d = 6" "length sm = 6"
  obtains q1 q where "store_bytes (mtod p) d p = Some q1" "mtod q1 = mtod p"
    "store_bytes (mtod p + 6) sm q1 = Some q" "mtod q = mtod p"
    "load_mac q (mtod p) = Some d" "load_mac q (mtod p + 6) = Some sm"
proof -
  define q1 where "q1 = p\<lparr>buf := write_at (buf p) (mtod p) d\<rparr>"
  define q where "q = q1\<lparr>buf := write_at (buf q1) (mtod p + 6) sm\<rparr>"
  have len: "length (buf q1) = length (buf p)" "length (buf q) = length (buf p)"
    using assms by (simp_all add: q_def q1_def)
  have d: "take 6 (drop (mtod p) (buf q)) = d"
    by (rule nth_equalityI) (use assms len in \<open>auto simp: q_def q1_def nth_write_at\<close>)
  have s: "take 6 (drop (mtod p + 6) (buf q)) = sm"
    by (rule nth_equalityI) (use assms len in \<open>auto simp: q_def q1_def nth_write_at\<close>)
  show thesis
  proof (rule that)
    show "store_bytes (mtod p) d p = Some q1" using assms by (simp add: store_bytes_def q1_def)
    show "store_bytes (mtod p + 6) sm q1 = Some q" using assms len by (simp add: store_bytes_def q_def)
    show "load_mac q (mtod p) = Some d" "load_mac q (mtod p + 6) = Some sm"
      using assms len d s by (simp_all add: load_mac_def)
  qed (simp_all add: q_def q1_def)
qed

text \<open>Forwarding to a VXLAN next hop, either without a gateway or with a resolved one.\<close>

lemma ip_forward_direct:
  assumes M: "mbuf_laws M" and f: "mpath_nhop (ag s) r (fib_res_select_mpath r (sint (hash_rss pkt))) = Some f"
    and t: "tun_type (nh_tunnel_info f) = SHC_ENCAP_VXLAN" and gw: "nh_gateway f = 0" and room: "roomy pkt"
    and macs: "length (fake_mac (ag s)) = 6" "length (def_gw_mac (ag s)) = 6"
  shows "\<exists>pkt'. ip_forward E M v r pkt s = Some (pkt', s\<lparr>key_value_info :=
    encap_of (def_gw_mac (ag s)) (fake_mac (ag s)) (nh_tunnel_info f) (key_value_info s)\<rparr>)"
proof -
  have pre: "rte_pktmbuf_prepend M = prepend_doc" using M by (simp add: mbuf_laws_def)
  obtain p where p: "prepend_doc 14 pkt = Some p" "mtod p + 14 \<le> length (buf p)" using prepend_window [OF room] by metis
  obtain q1 q where q: "store_bytes (mtod p) (def_gw_mac (ag s)) p = Some q1" "mtod q1 = mtod p"
    "store_bytes (mtod p + 6) (fake_mac (ag s)) q1 = Some q" "mtod q = mtod p"
    "load_mac q (mtod p) = Some (def_gw_mac (ag s))" "load_mac q (mtod p + 6) = Some (fake_mac (ag s))"
    by (rule macs_written [OF p(2) macs(2,1)])
  have "inner_header E M v f pkt s = Some (Inr q, s)"
    using gw p q macs by (simp add: inner_header_def pre Let_def shc_def_gw_mac_get_def shc_fake_mac_get_def rte_ether_addr_copy_def)
  then show ?thesis
    using f t q macs
    by (simp add: ip_forward_def Let_def ip_tunnel_inner_ether_need_def rte_ether_addr_copy_def encap_of_def)
qed

lemma ip_forward_resolved:
  assumes M: "mbuf_laws M" and f: "mpath_nhop (ag s) r (fib_res_select_mpath r (sint (hash_rss pkt))) = Some f"
    and t: "tun_type (nh_tunnel_info f) = SHC_ENCAP_VXLAN" and gw: "nh_gateway f \<noteq> 0" and room: "roomy pkt"
    and look: "shc_neigh_lookup E (vrf_id (vrf_dp_of (ag s) v)) (nh_gateway f) 0 (ag s) = Some (0, Some d, a)"
    and macs: "length (fake_mac a) = 6" "length d = 6"
  shows "\<exists>pkt'. ip_forward E M v r pkt s = Some (pkt', s\<lparr>ag := a, key_value_info :=
    encap_of d (fake_mac a) (nh_tunnel_info f) (key_value_info s)\<rparr>)"
proof -
  have pre: "rte_pktmbuf_prepend M = prepend_doc" using M by (simp add: mbuf_laws_def)
  obtain p where p: "prepend_doc 14 pkt = Some p" "mtod p + 14 \<le> length (buf p)" using prepend_window [OF room] by metis
  obtain q1 q where q: "store_bytes (mtod p) d p = Some q1" "mtod q1 = mtod p"
    "store_bytes (mtod p + 6) (fake_mac a) q1 = Some q" "mtod q = mtod p"
    "load_mac q (mtod p) = Some d" "load_mac q (mtod p + 6) = Some (fake_mac a)"
    by (rule macs_written [OF p(2) macs(2,1)])
  have "inner_header E M v f pkt s = Some (Inr q, s\<lparr>ag := a\<rparr>)"
    using gw p q macs look by (simp add: inner_header_def pre Let_def shc_fake_mac_get_def rte_ether_addr_copy_def)
  then show ?thesis
    using f t q macs
    by (simp add: ip_forward_def Let_def ip_tunnel_inner_ether_need_def rte_ether_addr_copy_def encap_of_def)
qed

text \<open>
  The address that the inner frame is sent to: the next hop's gateway as the neighbour table resolves
  it, or the default gateway's where the next hop has none; with the tables after that lookup.
\<close>

definition next_hop_mac ::
  "('h, 'f, 'b) lib \<Rightarrow> nat \<Rightarrow> fib_nhop \<Rightarrow> ('h, 'f, 'b) agent \<Rightarrow> (mac \<times> ('h, 'f, 'b) agent) option" where
  "next_hop_mac E v f a =
     (if nh_gateway f = 0 then Some (def_gw_mac a, a)
      else case shc_neigh_lookup E (vrf_id (vrf_dp_of a v)) (nh_gateway f) 0 a of
        Some (ret, Some d, a') \<Rightarrow> if ret = 0 then Some (d, a') else None
      | _ \<Rightarrow> None)"

lemma ip_forward_encap:
  assumes "mbuf_laws M" "mpath_nhop (ag s) r (fib_res_select_mpath r (sint (hash_rss pkt))) = Some f"
    and "tun_type (nh_tunnel_info f) = SHC_ENCAP_VXLAN" "roomy pkt"
    and "next_hop_mac E v f (ag s) = Some (d, a)" "length (fake_mac a) = 6" "length d = 6"
  shows "\<exists>pkt'. ip_forward E M v r pkt s = Some (pkt', s\<lparr>ag := a, key_value_info :=
    encap_of d (fake_mac a) (nh_tunnel_info f) (key_value_info s)\<rparr>)"
proof (cases "nh_gateway f = 0")
  case True
  then have "d = def_gw_mac (ag s)" "a = ag s" using assms(5) by (auto simp: next_hop_mac_def)
  with ip_forward_direct [where E = E and v = v, OF assms(1-3) True assms(4)] assms(6,7) show ?thesis by simp
next
  case False
  then have "shc_neigh_lookup E (vrf_id (vrf_dp_of (ag s) v)) (nh_gateway f) 0 (ag s) = Some (0, Some d, a)"
    using assms(5) by (auto simp: next_hop_mac_def split: option.splits if_splits)
  from ip_forward_resolved [OF assms(1-3) False assms(4) this assms(6,7)] show ?thesis .
qed

text \<open>
  C23. Suppose the tunnel of the datagram's VNI leads to a VRF, the route lookup answers 0 with a result
  that is neither a blackhole nor multicast, and the address of its selected VXLAN next hop is known: the
  gateway's, which the neighbour lookup resolves, or, without a gateway, the default gateway's. Then the
  handler returns with these lookups' tables, and \<open>key_value_info\<close> holds exactly that next hop's
  encapsulation: its VNI in header form, its tunnel's ends, and for the inner frame that address and the
  agent's own. (A gateway that is not resolved ends the agent: \<open>ip_forward_unresolved_faults\<close>.)
\<close>

theorem netio_rx_encap:
  assumes "mbuf_laws M" "rte_pktmbuf_alloc M (allocs s) = Some m" "rx 2048 = Some bs" "length bs \<le> 2048"
    and "vxlan_frame bs" "frame_type bs = RTE_ETHER_TYPE_IPV4"
    and "shc_tunnel_map_vrf_lookup E SHC_TUNNEL_VXLAN (frame_vni bs) 0 (ag s) = Some (Some v, a1)"
    and "shc_route_lookup E v (frame_src bs) (frame_dst bs) 0 a1 = Some (0, Some i, a2)"
    and "fib_res_get a2 i = Some r" "\<not> fib_res_is_reject r" "\<not> fib_res_is_mroute r"
    and "mpath_nhop a2 r (fib_res_select_mpath r (sint (hash_rss m))) = Some f"
    and "tun_type (nh_tunnel_info f) = SHC_ENCAP_VXLAN" "next_hop_mac E v f a2 = Some (d, a3)"
    and "length (fake_mac a3) = 6" "length d = 6"
  shows "\<exists>s'. netio_rx E M rx s = Some s' \<and> ag s' = a3 \<and>
    key_value_info s' = encap_of d (fake_mac a3) (nh_tunnel_info f) (key_value_info s)"
proof -
  have fresh: "fresh_mbuf m" using assms(1,2) by (auto simp: mbuf_laws_def)
  obtain pkt where pkt: "at_inner_ip (received m bs) bs pkt"
    and run: "netio_rx E M rx s = map_option rx_end (frame_deliver E M bs pkt (rx_begin s))"
    using netio_rx_enters [where E = E and rx = rx, OF assms(1-5)] by blast
  have "frame_hl bs + 50 \<le> length bs" using assms(5) by (simp add: vxlan_frame_def)
  with pkt received_window [OF fresh assms(4)] have room: "roomy pkt"
    by (auto simp: at_inner_ip_def roomy_def holds_def)
  have "hash_rss pkt = hash_rss m" using pkt by (simp add: at_inner_ip_def received_def)
  moreover define s2 where "s2 = (rx_begin s)\<lparr>ag := a2\<rparr>"
  ultimately have sel: "mpath_nhop (ag s2) r (fib_res_select_mpath r (sint (hash_rss pkt))) = Some f" and a2: "ag s2 = a2"
    using assms(12) by simp_all
  have "next_hop_mac E v f (ag s2) = Some (d, a3)" using assms(14) a2 by simp
  from ip_forward_encap [OF assms(1) sel assms(13) room this assms(15,16)]
  obtain pkt' where "ip_forward E M v r pkt s2 = Some (pkt', s2\<lparr>ag := a3, key_value_info :=
      encap_of d (fake_mac a3) (nh_tunnel_info f) (key_value_info s2)\<rparr>)" by blast
  then show ?thesis
    using assms(6-11) by (simp add: run frame_deliver_def rx_begin_def rx_end_def pool_free_def s2_def)
qed

section \<open>Two faults of the path\<close>

text \<open>
  The first packet to a gateway whose address is not known ends the agent: the failed neighbour
  lookup is counted through \<open>cur_thr_stats\<close>, which nothing in the agent sets.
\<close>

theorem ip_forward_unresolved_faults:
  assumes "mpath_nhop (ag s) r (fib_res_select_mpath r (sint (hash_rss pkt))) = Some f"
    and "tun_type (nh_tunnel_info f) = SHC_ENCAP_VXLAN" "nh_gateway f \<noteq> 0"
    and "cur_thr_stats (ag s) = None" "cur_thr_stats a = None"
    and "shc_neigh_lookup E (vrf_id (vrf_dp_of (ag s) v)) (nh_gateway f) 0 (ag s) = Some (ret, ea, a)" "ret < 0"
  shows "ip_forward E M v r pkt s = None"
proof -
  have "evt_inc type (s\<lparr>ag := a\<rparr>) = None" "evt_inc type s = None" for type
    using assms(4,5) by (simp_all add: evt_inc_def SWF_EVT_STAT_INC_def)
  then have "inner_header E M v f pkt s = None"
    using assms(3,6,7) by (auto simp: inner_header_def Let_def split: option.splits)
  then show ?thesis
    using assms(1,2) by (simp add: ip_forward_def Let_def ip_tunnel_inner_ether_need_def)
qed

text \<open>
  The packet path looks routes up in VRFs whose list of destinations may never have been made (only
  \<open>shc_swTohw_rule\<close> makes it): a prefix route is then counted through a NULL list.
\<close>

lemma shc_route_lookup_no_list:
  assumes "List_Node (vrf_dp_of s v) = None" "exit_flag (vrf_dp_of s v) = 0"
    and "fib_res_get s (rte_fib_lookup E (fib (vrf_dp_of s v)) (rte_be_to_cpu_32 dip)) = Some r" "0 < lpm_em r"
    and "hal_never_fails E"
  shows "shc_route_lookup E v sip dip 0 s = None"
  using assms(1-4)
  by (cases "mpath_nhop s r 0")
     (simp_all add: shc_route_lookup_def route_offload_def Let_def shc_hal_route_entry_add_def hal_do_eq
        hal_never_failsD [OF assms(5)])

section \<open>A datagram\<close>

text \<open>
  From 10.0.0.1 to 10.0.0.2 with the VXLAN port and VNI 0, inside it an IPv4 packet from 10.0.0.1 to
  10.1.2.3; the agent of the witnesses has tunnel 0 mapped to its VRF and a route for 10.0.0.0/8.
\<close>

definition frame0 :: "u8 list" where
  "frame0 =
     [0x45, 0, 0, 70, 0, 0, 0, 0, 64, 17, 0, 0, 10, 0, 0, 1, 10, 0, 0, 2,
      0xd9, 0x03, 0x12, 0xb5, 0, 50, 0, 0,
      8, 0, 0, 0, 0, 0, 0, 0,
      2, 0, 0, 0, 0, 2, 2, 0, 0, 0, 0, 1, 8, 0,
      0x45, 0, 0, 20, 0, 0, 0, 0, 64, 17, 0, 0, 10, 0, 0, 1, 10, 1, 2, 3]"

lemma frame0_fields:
  "length frame0 = 70 \<and> vxlan_frame frame0 \<and> frame_type frame0 = RTE_ETHER_TYPE_IPV4 \<and> frame_vni frame0 = 0 \<and>
   frame_src frame0 = 0x0100000a \<and> frame_dst frame0 = 0x0302010a"
  by code_simp

definition kv_zero :: key_value where
  "kv_zero = \<lparr>kv_vrf_id = 0, kv_vni = 0, kv_inner_src_ip = 0, kv_inner_dst_ip = 0, kv_next_hop = 0, kv_vni_encp = 0,
     kv_outer_src_mac = [], kv_outer_dst_mac = [], kv_outer_src_ip = 0, kv_outer_dst_ip = 0,
     kv_inner_src_mac = [], kv_inner_dst_mac = []\<rparr>"

definition pmd_of :: "('h, 'f, 'b) agent \<Rightarrow> ('h, 'f, 'b) pmd" where
  "pmd_of a = \<lparr>ag = a, key_value_info = kv_zero, allocs = 0, mbufs_out = 0, lock_log = [], loop_broken = False\<rparr>"

lemma mlib0_alloc [simp]: "rte_pktmbuf_alloc mlib0 n = Some mbuf0"
  by (simp add: mlib0_def)

lemma netio_rx_frame_witness:
  "\<exists>pkt. netio_rx (lib0 4) mlib0 (\<lambda>_. Some frame0) (pmd_of agent_rule) =
     map_option rx_end (frame_deliver (lib0 4) mlib0 frame0 pkt (rx_begin (pmd_of agent_rule)))"
  using netio_rx_frame [OF mbuf_laws_mlib0, of "pmd_of agent_rule" mbuf0 "\<lambda>_. Some frame0" frame0 "lib0 4"]
    frame0_fields by auto

text \<open>A pool whose buffers still hold that datagram.\<close>

definition mlib_stale :: mbuf_lib where
  "mlib_stale = mlib0\<lparr>rte_pktmbuf_alloc := (\<lambda>_. Some (mbuf0\<lparr>buf := write_at (buf mbuf0) 128 frame0\<rparr>))\<rparr>"

lemma mlib_stale_ok: "mbuf_laws mlib_stale" "rte_pktmbuf_alloc mlib_stale n = Some (mbuf0\<lparr>buf := write_at (buf mbuf0) 128 frame0\<rparr>)"
  "holds (mbuf0\<lparr>buf := write_at (buf mbuf0) 128 frame0\<rparr>) 128 frame0"
proof -
  have len: "length frame0 = 70" using frame0_fields by simp
  have buf0: "length (buf mbuf0) = 2176" "mtod mbuf0 = 128" "data_len mbuf0 = 0" by (simp_all add: mbuf0_def)
  show "mbuf_laws mlib_stale"
    using mbuf_laws_mlib0 buf0 len
    by (simp add: mbuf_laws_def mlib_stale_def fresh_mbuf_def RTE_MBUF_DEFAULT_BUF_SIZE_def RTE_PKTMBUF_HEADROOM_def)
  show "holds (mbuf0\<lparr>buf := write_at (buf mbuf0) 128 frame0\<rparr>) 128 frame0"
    by (rule holds_write) (simp add: buf0 len)
qed (simp add: mlib_stale_def)

lemma netio_rx_recv_failed_witness:
  "\<exists>pkt. netio_rx (lib0 4) mlib_stale (\<lambda>_. None) (pmd_of agent_rule) = map_option rx_end
     (frame_deliver (lib0 4) mlib_stale frame0 pkt (rx_begin ((pmd_of agent_rule)\<lparr>loop_broken := True\<rparr>)))"
  by (rule netio_rx_recv_failed [OF mlib_stale_ok(1,2) refl mlib_stale_ok(3)]) (use frame0_fields in simp)

text \<open>The lookups of a packet of a ready flow, one by one.\<close>

definition same_macs :: "('h, 'f, 'b) agent \<Rightarrow> ('h, 'f, 'b) agent \<Rightarrow> bool" where
  "same_macs s s' \<longleftrightarrow> fake_mac s' = fake_mac s \<and> def_gw_mac s' = def_gw_mac s \<and> fib_res_mem s' = fib_res_mem s"

lemma same_macs_trans: "same_macs s t \<Longrightarrow> same_macs t u \<Longrightarrow> same_macs s u"
  by (simp add: same_macs_def)

lemma route_offload_macs:
  assumes "route_offload E v fr sip dip flag s = Some (r, s')" shows "same_macs s s'"
  using assms
  by (auto simp: route_offload_def Let_def hal_shim_defs hal_do_eq same_macs_def split: if_splits Option.bind_splits)

lemma nhop_offload_macs:
  assumes "nhop_offload E p fl s = Some (r, s')" shows "same_macs s s'"
proof -
  obtain f where f: "nhop_mem s p = Some f"
    using assms by (cases "nhop_mem s p") (simp_all add: nhop_offload_def)
  then show ?thesis
    using assms nhop_offload_eq [OF f, of E fl] by (auto simp: Let_def same_macs_def split: option.splits)
qed

lemma shc_route_lookup_macs:
  assumes "shc_route_lookup E v sip dip fl s = Some (r, fr, s')" shows "same_macs s s'"
  using assms
  by (auto simp: shc_route_lookup_def Let_def split: Option.bind_splits if_splits
      dest!: route_offload_macs nhop_offload_macs intro: same_macs_trans)

lemma rule_ready_packet:
  assumes "rule_ready E v dst s" "List_Node (vrf_dp_of s v) \<noteq> None"
  obtains a1 a2 i r p f where
    "shc_tunnel_map_vrf_lookup E SHC_TUNNEL_VXLAN 0 0 s = Some (Some v, a1)"
    "shc_route_lookup E v src dst 0 a1 = Some (0, Some i, a2)" "i = rte_fib_lookup E (fib (vrf_dp_of s v)) (rte_be_to_cpu_32 dst)"
    "fib_res_get a2 i = Some r" "fib_res_get s i = Some r" "reached_hop E v dst s = Some (p, f)"
    "mpath_nhop a2 r 0 = Some (nhop_counted 0 f)" "fake_mac a2 = fake_mac s" "def_gw_mac a2 = def_gw_mac s"
proof -
  from assms(1) obtain p f where hop: "reached_hop E v dst s = Some (p, f)"
    and tun: "tunnel_ready E SHC_TUNNEL_VXLAN 0 s" and ok: "malloc_ok E"
    by (auto simp: rule_ready_def split: option.splits)
  from tunnel_readyE [OF tun] obtain q t where q: "tunnels E s (tunnel_key SHC_TUNNEL_VXLAN 0) = Some t"
    "rte_hash_lookup_data E (vrf_hash_tbl s) (tunnel_key SHC_TUNNEL_VXLAN 0) = Some q" and
    E: "hal_never_fails E" "\<not> rte_assert_on E" by metis
  have t: "tunnel_mem s q = Some t" "shc_vrf_dp_get_by_id (ti_vrf_id t) s = Some (Some v)"
    using q assms by (simp_all add: rule_ready_def tunnels_def obj_view_def)
  define a1 where "a1 = s\<lparr>hal_log := tunnel_calls E SHC_TUNNEL_VXLAN 0 0 t (hal_log s) @ hal_log s,
      tunnel_mem := (tunnel_mem s)(q \<mapsto> tunnel_counted 0 t)\<rparr>"
  have run1: "shc_tunnel_map_vrf_lookup E SHC_TUNNEL_VXLAN 0 0 s = Some (Some v, a1)"
    unfolding a1_def by (rule shc_tunnel_map_vrf_lookup_mapped [OF q(2) t(1) E(2) t(2)])
  have hop1: "reached_hop E v dst a1 = Some (p, f)"
    using hop by (auto simp: reached_hop_def a1_def fib_res_get_def split: if_splits Option.bind_splits)
  then have "lookup_ready E v dst a1" using ok E(1) assms(2) by (simp add: lookup_ready_def a1_def)
  from lookup_ready_step [OF this hop1, where sip = src and fl = 0]
  obtain a2 where run2: "shc_route_lookup E v src dst 0 a1 =
      Some (0, Some (rte_fib_lookup E (fib (vrf_dp_of a1 v)) (rte_be_to_cpu_32 dst)), a2)"
    and hop2: "reached_hop E v dst a2 = Some (p, nhop_counted 0 f)" by metis
  have fib: "fib (vrf_dp_of a2 v) = fib (vrf_dp_of s v)"
    using shc_route_lookup_ends [OF run2] by (simp add: same_ends_def a1_def)
  from hop2 obtain r where r: "fib_res_get a2 (rte_fib_lookup E (fib (vrf_dp_of s v)) (rte_be_to_cpu_32 dst)) = Some r"
    "mpath_get r 0 = Some p" "mpath_nhop a2 r 0 = Some (nhop_counted 0 f)"
    by (auto simp: reached_hop_def mpath_nhop_def fib split: Option.bind_splits)
  have "fib_res_mem a2 = fib_res_mem a1" using shc_route_lookup_macs [OF run2] by (simp add: same_macs_def)
  then have "fib_res_get s (rte_fib_lookup E (fib (vrf_dp_of s v)) (rte_be_to_cpu_32 dst)) = Some r"
    using r(1) by (simp add: fib_res_get_def a1_def split: if_splits)
  with that [OF run1 run2 _ _ _ hop] r shc_route_lookup_macs [OF run2] show thesis by (simp add: a1_def same_macs_def)
qed

lemma agent_rule_hop:
  "length (fake_mac agent_listed) = 6 \<and> length (def_gw_mac agent_listed) = 6 \<and>
   (case fib_res_get agent_listed (rte_fib_lookup (lib0 4) (fib (vrf_dp_of agent_listed 0)) (rte_be_to_cpu_32 0x0302010a)) of
      None \<Rightarrow> False | Some r \<Rightarrow> \<not> fib_res_is_reject r \<and> \<not> fib_res_is_mroute r \<and> mpath_cnt r = 1) \<and>
   (case reached_hop (lib0 4) 0 0x0302010a agent_listed of None \<Rightarrow> False
    | Some (p, f) \<Rightarrow> tun_type (nh_tunnel_info f) = SHC_ENCAP_VXLAN \<and> nh_gateway f = 0 \<and>
        vxlan_vni (nh_tunnel_info f) = 11 \<and> vxlan_remote (nh_tunnel_info f) = 0x0100000a)"
  by code_simp

lemma netio_rx_encap_witness:
  "\<exists>s'. netio_rx (lib0 4) mlib0 (\<lambda>_. Some frame0) (pmd_of agent_rule) = Some s' \<and>
     kv_vni_encp (key_value_info s') = rte_cpu_to_be_32 (11 * 256) \<and> kv_outer_dst_ip (key_value_info s') = 0x0100000a"
proof -
  have list: "List_Node (vrf_dp_of agent_rule 0) \<noteq> None" by (simp add: agent_rule_same agent_listed_ok(3))
  obtain a1 a2 i r p f where
    1: "shc_tunnel_map_vrf_lookup (lib0 4) SHC_TUNNEL_VXLAN 0 0 agent_rule = Some (Some 0, a1)" and
    2: "shc_route_lookup (lib0 4) 0 0x0100000a 0x0302010a 0 a1 = Some (0, Some i, a2)" and
    3: "i = rte_fib_lookup (lib0 4) (fib (vrf_dp_of agent_rule 0)) (rte_be_to_cpu_32 0x0302010a)"
      "fib_res_get a2 i = Some r" "fib_res_get agent_rule i = Some r" and
    4: "reached_hop (lib0 4) 0 0x0302010a agent_rule = Some (p, f)" "mpath_nhop a2 r 0 = Some (nhop_counted 0 f)" and
    5: "fake_mac a2 = fake_mac agent_rule" "def_gw_mac a2 = def_gw_mac agent_rule"
    by (rule rule_ready_packet [OF agent_rule_ready list, where src = "0x0100000a"])
  have same: "fib_res_get agent_rule j = fib_res_get agent_listed j" "fake_mac agent_rule = fake_mac agent_listed"
    "def_gw_mac agent_rule = def_gw_mac agent_listed" for j by (simp_all add: agent_rule_def fib_res_get_def)
  have r: "\<not> fib_res_is_reject r" "\<not> fib_res_is_mroute r" "mpath_cnt r = 1"
    using agent_rule_hop 3 by (simp_all add: agent_rule_same same)
  have f: "tun_type (nh_tunnel_info f) = SHC_ENCAP_VXLAN" "nh_gateway f = 0" "vxlan_vni (nh_tunnel_info f) = 11"
      "vxlan_remote (nh_tunnel_info f) = 0x0100000a"
    using agent_rule_hop 4 by (simp_all add: agent_rule_same)
  have m: "length (fake_mac a2) = 6" "length (def_gw_mac a2) = 6" using agent_rule_hop 5 by (simp_all add: same)
  have sel: "fib_res_select_mpath r x = 0" for x by (simp add: fib_res_select_mpath_def r)
  from netio_rx_encap [OF mbuf_laws_mlib0, of "pmd_of agent_rule" mbuf0 "\<lambda>_. Some frame0" frame0 "lib0 4" 0 a1 i a2 r
      "nhop_counted 0 f" "def_gw_mac a2" a2] 1 2 3(2) 4(2) r f m frame0_fields
  show ?thesis by (auto simp: sel pmd_of_def nhop_counted_def encap_of_def next_hop_mac_def push_bit_eq_mult)
qed

lemma netio_rx_balanced_witness:
  "\<exists>s'. netio_rx (lib0 4) mlib0 (\<lambda>_. Some []) (pmd_of agent_rule) = Some s' \<and> mbufs_out s' = 0 \<and>
     lock_log s' = [RdUnlock, RdLock]"
proof -
  have "\<exists>s'. netio_rx (lib0 4) mlib0 (\<lambda>_. Some []) (pmd_of agent_rule) = Some s'"
    by (simp add: netio_rx_def pool_alloc_def pmd_of_def mbuf0_def store_bytes_def tunnel_rcv_def load8_def Let_def
        IPPROTO_UDP_def write_at_def nth_append)
  then obtain s' where run: "netio_rx (lib0 4) mlib0 (\<lambda>_. Some []) (pmd_of agent_rule) = Some s'" ..
  from netio_rx_balanced [OF run] run show ?thesis by (auto simp: pmd_of_def)
qed

text \<open>A next hop with a gateway of which the neighbour table knows nothing.\<close>

definition hop_unresolved :: fib_nhop where
  "hop_unresolved = \<lparr>nh_oid = 1, nh_ref_count = 1, nh_neigh_oid = 1, nh_gateway = 5,
     nh_tunnel_info = nk_tunnel_info hop0, nh_exit_flag = 0\<rparr>"

lemma ip_forward_unresolved_faults_witness:
  "ip_forward (lib0 4) mlib0 0 (res_of (fib_res_mem agent0 0) hop_unresolved 7 RT_DEFAULT 0) mbuf0
     (pmd_of (agent0\<lparr>nhop_mem := [7 \<mapsto> hop_unresolved]\<rparr>)) = None"
proof (rule ip_forward_unresolved_faults)
  show "mpath_nhop (ag (pmd_of (agent0\<lparr>nhop_mem := [7 \<mapsto> hop_unresolved]\<rparr>)))
      (res_of (fib_res_mem agent0 0) hop_unresolved 7 RT_DEFAULT 0)
      (fib_res_select_mpath (res_of (fib_res_mem agent0 0) hop_unresolved 7 RT_DEFAULT 0) (sint (hash_rss mbuf0))) =
      Some hop_unresolved"
    by (simp add: mpath_nhop_def mpath_get_def fib_res_select_mpath_def res_of_def pmd_of_def mbuf0_def)
  show "shc_neigh_lookup (lib0 4) (vrf_id (vrf_dp_of (ag (pmd_of (agent0\<lparr>nhop_mem := [7 \<mapsto> hop_unresolved]\<rparr>))) 0))
      (nh_gateway hop_unresolved) 0 (ag (pmd_of (agent0\<lparr>nhop_mem := [7 \<mapsto> hop_unresolved]\<rparr>))) =
      Some (- 2, None, agent0\<lparr>nhop_mem := [7 \<mapsto> hop_unresolved]\<rparr>)"
    by (simp add: shc_neigh_lookup_def pmd_of_def)
qed (simp_all add: hop_unresolved_def hop0_def pmd_of_def agent0_def)

end
