(* ===== verification/Netio_Filter.thy ===== *)
theory Netio_Filter
  imports Packet_Path
begin

text \<open>
  The socket filter that \<open>udp_netio_init\<close> (\<open>agent/netio.c\<close>) attaches to the raw socket, which decides
  what datagrams reach the packet path.
\<close>

section \<open>The program\<close>

record sock_filter =
  bpf_code :: u16
  bpf_jt :: nat
  bpf_jf :: nat
  bpf_k :: u32

text \<open>The parts of an instruction's code (\<open>linux/filter.h\<close>), which \<open>|\<close> puts together.\<close>

definition BPF_LD :: u16 where [const_defs]: "BPF_LD = 0x00"
definition BPF_LDX :: u16 where [const_defs]: "BPF_LDX = 0x01"
definition BPF_JMP :: u16 where [const_defs]: "BPF_JMP = 0x05"
definition BPF_RET :: u16 where [const_defs]: "BPF_RET = 0x06"
definition BPF_H :: u16 where [const_defs]: "BPF_H = 0x08"
definition BPF_B :: u16 where [const_defs]: "BPF_B = 0x10"
definition BPF_ABS :: u16 where [const_defs]: "BPF_ABS = 0x20"
definition BPF_IND :: u16 where [const_defs]: "BPF_IND = 0x40"
definition BPF_MSH :: u16 where [const_defs]: "BPF_MSH = 0xa0"
definition BPF_JEQ :: u16 where [const_defs]: "BPF_JEQ = 0x10"
definition BPF_JSET :: u16 where [const_defs]: "BPF_JSET = 0x40"
definition BPF_K :: u16 where [const_defs]: "BPF_K = 0x00"

definition BPF_STMT :: "u16 \<Rightarrow> u32 \<Rightarrow> sock_filter" where
  "BPF_STMT code k = \<lparr>bpf_code = code, bpf_jt = 0, bpf_jf = 0, bpf_k = k\<rparr>"

definition BPF_JUMP :: "u16 \<Rightarrow> u32 \<Rightarrow> nat \<Rightarrow> nat \<Rightarrow> sock_filter" where
  "BPF_JUMP code k jt jf = \<lparr>bpf_code = code, bpf_jt = jt, bpf_jf = jf, bpf_k = k\<rparr>"

definition insns :: "sock_filter list" where
  "insns =
     [BPF_STMT (BPF_LD OR BPF_B OR BPF_ABS) 9,
      BPF_JUMP (BPF_JMP OR BPF_JEQ OR BPF_K) 17 0 6,
      BPF_STMT (BPF_LD OR BPF_H OR BPF_ABS) 6,
      BPF_JUMP (BPF_JMP OR BPF_JSET OR BPF_K) 0x1fff 4 0,
      BPF_STMT (BPF_LDX OR BPF_B OR BPF_MSH) 0,
      BPF_STMT (BPF_LD OR BPF_H OR BPF_IND) 2,
      BPF_JUMP (BPF_JMP OR BPF_JEQ OR BPF_K) 4789 0 1,
      BPF_STMT (BPF_RET OR BPF_K) 0x7fffffff,
      BPF_STMT (BPF_RET OR BPF_K) 0]"

section \<open>The machine\<close>

text \<open>
  The filter machine of the kernel, as its documentation describes it, for the instructions that the
  program uses: an accumulator \<open>A\<close>, an index register \<open>X\<close>, loads from the packet in network order (a
  load beyond its end drops the packet), forward jumps, and a return of the number of bytes to keep.
  Jumps only go forward, so a program of \<open>n\<close> instructions ends within \<open>n\<close> steps.
\<close>

definition pkt_byte :: "u8 list \<Rightarrow> nat \<Rightarrow> u32 option" where
  "pkt_byte p i = (if i < length p then Some (ucast (p ! i)) else None)"

definition pkt_half :: "u8 list \<Rightarrow> nat \<Rightarrow> u32 option" where
  "pkt_half p i = (if i + 1 < length p then Some (ucast (le16 (p ! (i + 1)) (p ! i))) else None)"

datatype bpf_next = Goto nat u32 u32 | Return u32

definition bpf_step :: "sock_filter \<Rightarrow> u8 list \<Rightarrow> nat \<Rightarrow> u32 \<Rightarrow> u32 \<Rightarrow> bpf_next" where
  "bpf_step i p pc A X =
     (let load = (\<lambda>v. case v of None \<Rightarrow> Return 0 | Some a \<Rightarrow> Goto (pc + 1) a X);
          jump = (\<lambda>c. Goto (pc + 1 + (if c then bpf_jt i else bpf_jf i)) A X)
      in if bpf_code i = BPF_LD OR BPF_B OR BPF_ABS then load (pkt_byte p (unat (bpf_k i)))
      else if bpf_code i = BPF_LD OR BPF_H OR BPF_ABS then load (pkt_half p (unat (bpf_k i)))
      else if bpf_code i = BPF_LD OR BPF_H OR BPF_IND then load (pkt_half p (unat X + unat (bpf_k i)))
      else if bpf_code i = BPF_LDX OR BPF_B OR BPF_MSH then
        (case pkt_byte p (unat (bpf_k i)) of None \<Rightarrow> Return 0 | Some b \<Rightarrow> Goto (pc + 1) A (4 * (b AND 0xf)))
      else if bpf_code i = BPF_JMP OR BPF_JEQ OR BPF_K then jump (A = bpf_k i)
      else if bpf_code i = BPF_JMP OR BPF_JSET OR BPF_K then jump (A AND bpf_k i \<noteq> 0)
      else if bpf_code i = BPF_RET OR BPF_K then Return (bpf_k i)
      else Return 0)"

lemma bpf_step_forward: "bpf_step i p pc A X = Goto pc' A' X' \<Longrightarrow> pc < pc'"
  by (auto simp: bpf_step_def Let_def split: if_splits option.splits)

function bpf_run :: "sock_filter list \<Rightarrow> u8 list \<Rightarrow> nat \<Rightarrow> u32 \<Rightarrow> u32 \<Rightarrow> u32" where
  "bpf_run prog p pc A X =
     (if length prog \<le> pc then 0
      else case bpf_step (prog ! pc) p pc A X of
             Return k \<Rightarrow> k
           | Goto pc' A' X' \<Rightarrow> bpf_run prog p pc' A' X')"
  by pat_completeness auto
termination
  by (relation "measure (\<lambda>(prog, p, pc, A, X). length prog - pc)") (auto dest!: bpf_step_forward)

declare bpf_run.simps [simp del]

text \<open>What the agent relies on: the kernel runs an attached filter that way.\<close>

definition filter_law :: "(sock_filter list \<Rightarrow> u8 list \<Rightarrow> u32) \<Rightarrow> bool" where
  "filter_law K \<longleftrightarrow> (\<forall>prog p. K prog p = bpf_run prog p 0 0 0)"

section \<open>What the filter accepts\<close>

text \<open>
  A datagram that is meant for the agent, as bytes: UDP, fragment offset 0 (a datagram that is not
  fragmented or its first fragment, which is the one that has the UDP header), and the VXLAN port at its
  place behind the header.
\<close>

definition vxlan_wanted :: "u8 list \<Rightarrow> bool" where
  "vxlan_wanted p \<longleftrightarrow> 10 \<le> length p \<and> p ! 9 = IPPROTO_UDP \<and>
     le16 (p ! 7) (p ! 6) AND 0x1fff = 0 \<and> frame_hl p + 4 \<le> length p \<and> frame_dport p = RTE_VXLAN_DEFAULT_PORT"

lemma insns_nth:
  "insns ! 0 = BPF_STMT 0x30 9" "insns ! 1 = BPF_JUMP 0x15 17 0 6" "insns ! 2 = BPF_STMT 0x28 6"
  "insns ! 3 = BPF_JUMP 0x45 0x1fff 4 0" "insns ! 4 = BPF_STMT 0xb1 0" "insns ! 5 = BPF_STMT 0x48 2"
  "insns ! 6 = BPF_JUMP 0x15 4789 0 1" "insns ! 7 = BPF_STMT 0x06 0x7fffffff" "insns ! 8 = BPF_STMT 0x06 0"
  "length insns = 9"
  by (simp_all add: insns_def const_defs)

lemma steps:
  "bpf_step (BPF_STMT 0x30 k) p pc A X =
     (case pkt_byte p (unat k) of None \<Rightarrow> Return 0 | Some a \<Rightarrow> Goto (pc + 1) a X)"
  "bpf_step (BPF_STMT 0x28 k) p pc A X =
     (case pkt_half p (unat k) of None \<Rightarrow> Return 0 | Some a \<Rightarrow> Goto (pc + 1) a X)"
  "bpf_step (BPF_STMT 0x48 k) p pc A X =
     (case pkt_half p (unat X + unat k) of None \<Rightarrow> Return 0 | Some a \<Rightarrow> Goto (pc + 1) a X)"
  "bpf_step (BPF_STMT 0xb1 k) p pc A X =
     (case pkt_byte p (unat k) of None \<Rightarrow> Return 0 | Some b \<Rightarrow> Goto (pc + 1) A (4 * (b AND 0xf)))"
  "bpf_step (BPF_JUMP 0x15 k t f) p pc A X = Goto (pc + 1 + (if A = k then t else f)) A X"
  "bpf_step (BPF_JUMP 0x45 k t f) p pc A X = Goto (pc + 1 + (if A AND k \<noteq> 0 then t else f)) A X"
  "bpf_step (BPF_STMT 0x06 k) p pc A X = Return k"
  by (simp_all add: bpf_step_def BPF_STMT_def BPF_JUMP_def const_defs Let_def)

lemma run_at:
  "pc < 9 \<Longrightarrow> bpf_run insns p pc A X = (case bpf_step (insns ! pc) p pc A X of
     Return k \<Rightarrow> k | Goto pc' A' X' \<Rightarrow> bpf_run insns p pc' A' X')"
  by (subst bpf_run.simps) (simp add: insns_nth(10))

lemma run_accept: "bpf_run insns p 7 A X = 0x7fffffff"
  using run_at [of 7] by (simp add: insns_nth steps)

lemma run_drop: "bpf_run insns p 8 A X = 0"
  using run_at [of 8] by (simp add: insns_nth steps)

lemma run_port: "bpf_run insns p 6 A X = (if A = 4789 then 0x7fffffff else 0)"
  using run_at [of 6] by (simp add: insns_nth steps run_accept run_drop)

lemma run_dport:
  "bpf_run insns p 5 A X = (case pkt_half p (unat X + 2) of None \<Rightarrow> 0 | Some a \<Rightarrow> if a = 4789 then 0x7fffffff else 0)"
  using run_at [of 5] by (simp add: insns_nth steps run_port split: option.splits)

lemma run_header:
  "bpf_run insns p 4 A X = (case pkt_byte p 0 of None \<Rightarrow> 0 | Some b \<Rightarrow> bpf_run insns p 5 A (4 * (b AND 0xf)))"
  using run_at [of 4] by (simp add: insns_nth steps split: option.splits)

lemma run_frag: "bpf_run insns p 3 A X = (if A AND 0x1fff \<noteq> 0 then 0 else bpf_run insns p 4 A X)"
  using run_at [of 3] by (simp add: insns_nth steps run_drop)

lemma run_flags:
  "bpf_run insns p 2 A X = (case pkt_half p 6 of None \<Rightarrow> 0 | Some a \<Rightarrow> bpf_run insns p 3 a X)"
  using run_at [of 2] by (simp add: insns_nth steps split: option.splits)

lemma run_proto: "bpf_run insns p 1 A X = (if A = 17 then bpf_run insns p 2 A X else 0)"
  using run_at [of 1, unfolded insns_nth steps] by (simp add: insns_nth run_drop numeral_2_eq_2 [symmetric])

lemma run_all: "bpf_run insns p 0 A X = (case pkt_byte p 9 of None \<Rightarrow> 0 | Some a \<Rightarrow> bpf_run insns p 1 a X)"
  using run_at [of 0] by (simp add: insns_nth steps split: option.splits)

text \<open>The machine's registers as the bytes of the packet.\<close>

lemma unat_wide8 [simp]: "unat (ucast (a :: u8) :: u32) = unat a"
  by (simp add: unsigned_ucast_eq take_bit_nat_eq_self_iff order.strict_trans2 [OF unsigned_less])

lemma unat_wide16 [simp]: "unat (ucast (a :: u16) :: u32) = unat a"
  by (simp add: unsigned_ucast_eq take_bit_nat_eq_self_iff order.strict_trans2 [OF unsigned_less])

lemma wide8_17: "(ucast (a :: u8) :: u32) = 17 \<longleftrightarrow> a = 17"
  by (simp add: word_unat_eq_iff)

lemma wide16_port: "(ucast (a :: u16) :: u32) = 4789 \<longleftrightarrow> a = 4789"
  by (simp add: word_unat_eq_iff)

lemma wide16_frag: "(ucast (a :: u16) :: u32) AND 0x1fff = 0 \<longleftrightarrow> a AND 0x1fff = 0"
proof -
  have "(ucast a :: u32) AND 0x1fff = ucast (a AND 0x1fff)"
    by (rule bit_eqI) (auto simp: bit_and_iff bit_ucast_iff dest: bit_imp_le_length)
  then show ?thesis by (simp add: word_unat_eq_iff)
qed

lemma wide_hl: "unat (4 * ((ucast (p ! 0 :: u8) :: u32) AND 0xf)) = frame_hl p"
proof -
  have "(ucast (p ! 0) :: u32) AND 0xf = ucast (p ! 0 AND 0xf)"
    by (rule bit_eqI) (auto simp: bit_and_iff bit_ucast_iff dest: bit_imp_le_length)
  then show ?thesis using nibble_le [of "p ! 0"] by (simp add: frame_hl_def unat_word_ariths)
qed

lemma filter_exact:
  assumes "filter_law K"
  shows "K insns p = (if vxlan_wanted p then 0x7fffffff else 0)"
proof -
  have K: "K insns p = bpf_run insns p 0 0 0" using assms by (simp add: filter_law_def)
  show ?thesis
  proof (cases "10 \<le> length p")
    case False
    then show ?thesis by (simp add: K run_all pkt_byte_def vxlan_wanted_def)
  next
    case True
    then have b: "pkt_byte p 9 = Some (ucast (p ! 9))" "pkt_half p 6 = Some (ucast (le16 (p ! 7) (p ! 6)))"
      "pkt_byte p 0 = Some (ucast (p ! 0))"
      by (auto simp: pkt_byte_def pkt_half_def)
    have h: "pkt_half p (frame_hl p + 2) = (if frame_hl p + 4 \<le> length p then Some (ucast (frame_dport p)) else None)"
      by (simp add: pkt_half_def frame_dport_def numeral_3_eq_3)
    show ?thesis
      using True
      by (simp add: K run_all run_proto [unfolded One_nat_def] run_flags run_frag run_header run_dport b h [unfolded add_2_eq_Suc'] wide8_17 wide16_frag wide16_port
          wide_hl vxlan_wanted_def IPPROTO_UDP_def RTE_VXLAN_DEFAULT_PORT_def)
  qed
qed

text \<open>
  C30. The filter's nine instructions, jump offsets included, are equivalent to the test on the
  datagram's bytes: the kernel keeps a datagram, whole, exactly when it is UDP, its fragment offset is 0
  (so an unfragmented datagram or the first fragment of one: the flag for more fragments is not looked
  at), and it carries the VXLAN port behind an IP header of any length; every other datagram, the
  truncated ones included, is dropped.
\<close>

theorem udp_filter_exact:
  assumes "filter_law K"
  shows "K insns p = (if vxlan_wanted p then 0x7fffffff else 0)"
  using filter_exact [OF assms] .

lemma udp_filter_exact_witness:
  "bpf_run insns frame0 0 0 0 = 0x7fffffff \<and> bpf_run insns (take 23 frame0) 0 0 0 = 0"
proof -
  have law: "filter_law (\<lambda>prog p. bpf_run prog p 0 0 0)" by (simp add: filter_law_def)
  have "vxlan_wanted frame0 \<and> \<not> vxlan_wanted (take 23 frame0)" by code_simp
  then show ?thesis
    using udp_filter_exact [OF law, of frame0] udp_filter_exact [OF law, of "take 23 frame0"] by simp
qed

text \<open>
  C31. From the socket to the tables: a datagram that the attached filter lets through and that has
  complete headers is handled by its bytes; one that is cut within its UDP header is let through as
  well, and ends the agent.
\<close>

theorem filtered_datagram:
  assumes "filter_law K" "K insns bs \<noteq> 0"
    and "mbuf_laws M" "rte_pktmbuf_alloc M (allocs s) = Some m" "rx 2048 = Some bs" "length bs \<le> 2048"
  shows "(frame_hl bs + 50 \<le> length bs \<longrightarrow>
      (\<exists>pkt. netio_rx E M rx s = map_option rx_end (frame_deliver E M bs pkt (rx_begin s)))) \<and>
    (length bs < frame_hl bs + 8 \<longrightarrow> netio_rx E M rx s = None)"
proof -
  have w: "vxlan_wanted bs" using assms(2) filter_exact [OF assms(1), of bs] by (simp split: if_splits)
  then have port: "bs ! 9 = IPPROTO_UDP" "frame_dport bs = RTE_VXLAN_DEFAULT_PORT" "10 \<le> length bs"
    "frame_hl bs + 4 \<le> length bs" by (simp_all add: vxlan_wanted_def)
  have "\<exists>pkt. netio_rx E M rx s = map_option rx_end (frame_deliver E M bs pkt (rx_begin s))"
    if "frame_hl bs + 50 \<le> length bs"
    using netio_rx_enters [where E = E and rx = rx, OF assms(3-6)] that port by (auto simp: vxlan_frame_def)
  moreover have "netio_rx E M rx s = None" if "length bs < frame_hl bs + 8"
    by (rule netio_rx_cut_short [where rx = rx, OF assms(3-6) port that])
  ultimately show ?thesis by blast
qed

lemma filtered_datagram_witness:
  "bpf_run insns (take 26 frame0) 0 0 0 \<noteq> 0 \<and>
   netio_rx (lib0 4) mlib0 (\<lambda>_. Some (take 26 frame0)) (pmd_of agent_rule) = None"
proof -
  have law: "filter_law (\<lambda>prog p. bpf_run prog p 0 0 0)" by (simp add: filter_law_def)
  have w: "vxlan_wanted (take 26 frame0) \<and> frame_hl (take 26 frame0) = 20 \<and> length (take 26 frame0) = 26" by code_simp
  then have on: "bpf_run insns (take 26 frame0) 0 0 0 \<noteq> 0" using filter_exact [OF law, of "take 26 frame0"] by simp
  with filtered_datagram [OF law on mbuf_laws_mlib0, of "pmd_of agent_rule" mbuf0 "\<lambda>_. Some (take 26 frame0)" "lib0 4"] w
  show ?thesis by simp
qed

end
