(* ===== verification/Decimal.thy ===== *)
theory Decimal
  imports Prelude
begin

text \<open>
  The decimal text of numbers, as the C and C++ libraries write and read it: \<open>%d\<close> of \<open>snprintf\<close> and
  \<open>std::to_string\<close>, and \<open>std::stoi\<close>.
\<close>

text \<open>The digits of a number, at most \<open>fuel\<close> of them; ten are enough for 32 bits.\<close>

fun digits :: "nat \<Rightarrow> nat \<Rightarrow> string" where
  "digits 0 n = []"
| "digits (Suc fuel) n = (if n < 10 then [] else digits fuel (n div 10)) @ [char_of (48 + n mod 10)]"

definition fmt_d :: "int \<Rightarrow> string" where
  "fmt_d i = (if i < 0 then ''-'' @ digits 10 (nat (- i)) else digits 10 (nat i))"

definition is_digit :: "char \<Rightarrow> bool" where
  "is_digit c \<longleftrightarrow> 48 \<le> (of_char c :: nat) \<and> (of_char c :: nat) \<le> 57"

definition is_space :: "char \<Rightarrow> bool" where
  "is_space c \<longleftrightarrow> (of_char c :: nat) \<in> {9, 10, 11, 12, 13, 32}"

text \<open>
  \<open>std::stoi\<close>: blanks, a sign, and as many digits as there are; what follows is ignored. \<open>None\<close> is the
  exception for a text without digits or a number that is no \<open>int\<close>, both of which are logic errors.
\<close>

definition stoi :: "string \<Rightarrow> int option" where
  "stoi s =
     (let s = dropWhile is_space s;
          neg = (s \<noteq> [] \<and> hd s = CHR ''-'');
          s = (if s \<noteq> [] \<and> (hd s = CHR ''-'' \<or> hd s = CHR ''+'') then tl s else s);
          ds = takeWhile is_digit s;
          v = foldl (\<lambda>v c. 10 * v + int (of_char c) - 48) 0 ds;
          v = (if neg then - v else v)
      in if ds = [] \<or> v < - (2 ^ 31) \<or> v \<ge> 2 ^ 31 then None else Some v)"

definition digits_value :: "string \<Rightarrow> int" where
  "digits_value ds = foldl (\<lambda>v c. 10 * v + int (of_char c) - 48) 0 ds"

text \<open>Every \<open>int\<close> is read back as it is written.\<close>

lemma digit_char [simp]:
  assumes "n < 10" shows "is_digit (char_of (48 + n))" "of_char (char_of (48 + n :: nat)) = 48 + n"
proof -
  have "(48 + n) mod 256 = 48 + n" using assms by (intro mod_less) linarith
  then show "of_char (char_of (48 + n :: nat)) = 48 + n" by (simp only: of_char_of)
  then show "is_digit (char_of (48 + n))" using assms by (simp add: is_digit_def)
qed

lemma digits_digits: "c \<in> set (digits fuel n) \<Longrightarrow> is_digit c"
  by (induction fuel n rule: digits.induct) (auto split: if_splits)

lemma digits_nonempty: "digits (Suc fuel) n \<noteq> []"
  by simp

lemma digits_value_digits: "n < 10 ^ fuel \<Longrightarrow> 0 < fuel \<Longrightarrow> digits_value (digits fuel n) = int n"
proof (induction fuel n rule: digits.induct)
  case (2 fuel n)
  show ?case
  proof (cases "n < 10")
    case False
    then have "0 < fuel" using 2(2) by (cases fuel) auto
    moreover have "n div 10 < 10 ^ fuel" using 2(2) by (simp add: less_mult_imp_div_less mult.commute)
    ultimately have "digits_value (digits fuel (n div 10)) = int (n div 10)" using 2(1) False by blast
    moreover have "10 * int (n div 10) + int (n mod 10) = int n"
      by (metis mult_div_mod_eq of_nat_add of_nat_mult of_nat_numeral)
    ultimately show ?thesis using False by (simp add: digits_value_def)
  qed (simp add: digits_value_def)
qed simp

lemma stoi_fmt_d:
  assumes "- (2 ^ 31) \<le> i" "i < 2 ^ 31" shows "stoi (fmt_d i) = Some i"
proof -
  define n where "n = nat \<bar>i\<bar>"
  define ds where "ds = digits 10 n"
  have "n < 10 ^ 10" using assms by (simp add: n_def)
  then have val: "digits_value ds = \<bar>i\<bar>" using digits_value_digits [of n 10] by (simp add: ds_def n_def)
  have dig: "\<And>c. c \<in> set ds \<Longrightarrow> is_digit c" unfolding ds_def by (rule digits_digits)
  have "(10 :: nat) = Suc 9" by simp
  then have ne: "ds \<noteq> []" using digits_nonempty [of 9 n] unfolding ds_def by metis
  then obtain c cs where ds: "ds = c # cs" by (cases ds) auto
  have c: "is_digit c" using dig ds by simp
  have take: "takeWhile is_digit ds = ds" using dig by (simp add: takeWhile_eq_all_conv)
  have plain: "\<not> is_space c" "c \<noteq> CHR ''-''" "c \<noteq> CHR ''+''" using c by (auto simp: is_digit_def is_space_def)
  have shape: "fmt_d i = (if i < 0 then ''-'' @ ds else ds)" by (simp add: fmt_d_def ds_def n_def)
  have "\<not> is_space (CHR ''-'')" by (simp add: is_space_def)
  then show ?thesis
    using assms val take plain unfolding shape
    by (auto simp: stoi_def Let_def ds digits_value_def [symmetric])
qed

text \<open>No sign or separator of the address formats is a digit.\<close>

lemma fmt_d_chars: "c \<in> set (fmt_d i) \<Longrightarrow> is_digit c \<or> c = CHR ''-''"
  by (auto simp: fmt_d_def dest: digits_digits split: if_splits)

end
