(* ===== verification/Flow_Key.thy ===== *)
theory Flow_Key
  imports Prelude
begin

text \<open>
  The data types of the top-k detection, from \<open>platform/drivers/hal_topk_type.hpp\<close>: the flow key with its
  order, its equality and its text, and the tables of flows. The key is an instance of \<open>linorder\<close> with the
  code's comparison, so that sorting it and the library's lemmas about sorted lists mean what
  \<open>std::sort\<close> with the code's \<open>operator<\<close> means.
\<close>

section \<open>Flow keys\<close>

datatype tuple_3_t = Tuple_3 (src_ip: u64) (dst_ip: u64) (port: u64)

definition tuple_lt :: "tuple_3_t \<Rightarrow> tuple_3_t \<Rightarrow> bool" where
  "tuple_lt l r =
     (if src_ip l = src_ip r
      then if dst_ip l = dst_ip r then port l < port r else dst_ip l < dst_ip r
      else src_ip l < src_ip r)"

definition tuple_eq :: "tuple_3_t \<Rightarrow> tuple_3_t \<Rightarrow> bool" where
  "tuple_eq l r = (if src_ip l = src_ip r \<and> dst_ip l = dst_ip r \<and> port l = port r then True else False)"

lemma tuple_eq_iff [simp]: "tuple_eq l r \<longleftrightarrow> l = r"
  by (cases l; cases r) (simp add: tuple_eq_def)

instantiation tuple_3_t :: linorder
begin

definition less_tuple_3_t :: "tuple_3_t \<Rightarrow> tuple_3_t \<Rightarrow> bool" where
  "l < r \<longleftrightarrow> tuple_lt l r"

definition less_eq_tuple_3_t :: "tuple_3_t \<Rightarrow> tuple_3_t \<Rightarrow> bool" where
  "l \<le> r \<longleftrightarrow> tuple_lt l r \<or> l = r"

instance
proof
  fix x y z :: tuple_3_t
  show "x < y \<longleftrightarrow> x \<le> y \<and> \<not> y \<le> x"
    by (cases x; cases y) (auto simp: less_tuple_3_t_def less_eq_tuple_3_t_def tuple_lt_def split: if_splits)
  show "x \<le> x" by (simp add: less_eq_tuple_3_t_def)
  show "x \<le> z" if "x \<le> y" "y \<le> z"
    using that by (cases x; cases y; cases z) (auto simp: less_eq_tuple_3_t_def tuple_lt_def split: if_splits)
  show "x = y" if "x \<le> y" "y \<le> x"
    using that by (cases x; cases y) (auto simp: less_eq_tuple_3_t_def tuple_lt_def split: if_splits)
  show "x \<le> y \<or> y \<le> x"
    by (cases x; cases y) (auto simp: less_eq_tuple_3_t_def tuple_lt_def split: if_splits)
qed

end

text \<open>
  C33. The comparison of flow keys is a strict total order whose equivalence is the code's equality: of two
  keys exactly one of \<open>l == r\<close>, \<open>l < r\<close> and \<open>r < l\<close> holds, and \<open><\<close> is transitive. It is what \<open>std::sort\<close>
  and the merge of two tables rely on.
\<close>

theorem tuple_lt_strict_total:
  "(if tuple_eq l r then \<not> tuple_lt l r \<and> \<not> tuple_lt r l else tuple_lt l r = (\<not> tuple_lt r l)) \<and>
   (tuple_lt l m \<and> tuple_lt m r \<longrightarrow> tuple_lt l r)"
proof -
  have lt: "tuple_lt a b \<longleftrightarrow> a < b" for a b by (simp add: less_tuple_3_t_def)
  show ?thesis unfolding lt by auto
qed

lemma tuple_lt_strict_total_witness:
  "tuple_lt (Tuple_3 1 5 0) (Tuple_3 1 6 7) \<and> tuple_lt (Tuple_3 1 6 7) (Tuple_3 2 0 0) \<and>
   tuple_lt (Tuple_3 1 5 0) (Tuple_3 2 0 0)"
proof -
  have "tuple_lt (Tuple_3 1 5 0) (Tuple_3 1 6 7)" "tuple_lt (Tuple_3 1 6 7) (Tuple_3 2 0 0)"
    by (simp_all add: tuple_lt_def)
  then show ?thesis
    using tuple_lt_strict_total [of "Tuple_3 1 5 0" "Tuple_3 2 0 0" "Tuple_3 1 6 7"] by blast
qed

section \<open>The text of a key\<close>

text \<open>
  \<open>to_str\<close> writes each field's decimal digits, the lowest first, with nothing between the fields; a zero
  field has no digits at all. The text is only hashed.
\<close>

function digits_of :: "u64 \<Rightarrow> u8 list" where
  "digits_of tmp_num = (if tmp_num > 0 then (48 + ucast (tmp_num mod 10)) # digits_of (tmp_num div 10) else [])"
  by pat_completeness auto
termination
proof (relation "measure unat")
  fix n :: u64
  assume "n > 0"
  then have "unat n > 0" by (simp add: unat_gt_0)
  then have "unat n div 10 < unat n" by simp
  then show "(n div 10, n) \<in> measure unat" by (simp add: unat_div)
qed simp

declare digits_of.simps [simp del]

definition to_str :: "tuple_3_t \<Rightarrow> u8 list" where
  "to_str t = digits_of (src_ip t) @ digits_of (dst_ip t) @ digits_of (port t)"

lemma digits_of_0 [simp]: "digits_of 0 = []"
  by (simp add: digits_of.simps)

text \<open>Two different flows can have the same text, so the hash cannot tell all flows apart.\<close>

lemma to_str_clash: "to_str (Tuple_3 1 0 2) = to_str (Tuple_3 0 1 2)"
  by (simp add: to_str_def)

section \<open>Tables of flows\<close>

definition flow_table_size :: nat where "flow_table_size = 100000"

text \<open>The element of the array \<open>q\<close> of the detection, and the element of a table.\<close>

record q_node =
  q_x :: tuple_3_t
  q_y :: int

record flow_table_element_t =
  flow_id :: tuple_3_t
  flow_count :: u32

text \<open>
  A table: the contents of the array \<open>data\<close> of \<open>flow_table_size\<close> elements (\<open>None\<close> for the deleted array)
  and the number of elements in use.
\<close>

record flow_table_t =
  ft_data :: "flow_table_element_t list option"
  used_bucket :: int

text \<open>The array that \<open>new\<close> returns has arbitrary contents, the argument \<open>fill\<close>.\<close>

definition flow_table_init :: "flow_table_element_t list \<Rightarrow> flow_table_t" where
  "flow_table_init fill = \<lparr>ft_data = Some fill, used_bucket = 0\<rparr>"

definition flow_table_clear :: "flow_table_t \<Rightarrow> flow_table_t" where
  "flow_table_clear t = t\<lparr>used_bucket := 0\<rparr>"

definition flow_table_free :: "flow_table_t \<Rightarrow> flow_table_t" where
  "flow_table_free t = t\<lparr>used_bucket := 0, ft_data := None\<rparr>"

text \<open>The elements in use.\<close>

definition used_flows :: "flow_table_t \<Rightarrow> flow_table_element_t list option" where
  "used_flows t = map_option (take (nat (used_bucket t))) (ft_data t)"

end
