(* ===== verification/Linked_Arrays.thy ===== *)
theory Linked_Arrays
  imports Prelude
begin

text \<open>
  Lists threaded through arrays of indices, as the top-k detection keeps them: chains that end at index 0,
  chains with back links, and a segment between two sentinels with links both ways. An array is a
  function on indices; an operation that touches it checks the index against the array's length first.
\<close>

section \<open>Checked indices\<close>

definition chk :: "int \<Rightarrow> int \<Rightarrow> unit option" where
  "chk len i = (if 0 \<le> i \<and> i < len then Some () else None)"

lemma chk_ok [simp]: "0 \<le> i \<Longrightarrow> i < len \<Longrightarrow> chk len i = Some ()"
  by (simp add: chk_def)

declare fun_upd_apply [simp del] fun_upd_same [simp] fun_upd_other [simp]

section \<open>Chains\<close>

text \<open>\<open>chain nx p xs\<close>: from \<open>p\<close> the links \<open>nx\<close> lead through \<open>xs\<close> to 0.\<close>

fun chain :: "(int \<Rightarrow> int) \<Rightarrow> int \<Rightarrow> int list \<Rightarrow> bool" where
  "chain nx p [] \<longleftrightarrow> p = 0"
| "chain nx p (x # xs) \<longleftrightarrow> p = x \<and> x \<noteq> 0 \<and> chain nx (nx x) xs"

lemma chain_nz: "chain nx p xs \<Longrightarrow> 0 \<notin> set xs"
  by (induction nx p xs rule: chain.induct) auto

lemma chain_0 [simp]: "chain nx 0 xs \<longleftrightarrow> xs = []"
  by (cases xs) auto

lemma chain_upd [simp]: "a \<notin> set xs \<Longrightarrow> chain (nx(a := v)) p xs = chain nx p xs"
  by (induction nx p xs rule: chain.induct) auto

lemma chain_unique: "chain nx p xs \<Longrightarrow> chain nx p ys \<Longrightarrow> xs = ys"
proof (induction nx p xs arbitrary: ys rule: chain.induct)
  case (2 nx p x xs)
  then show ?case by (cases ys) auto
qed (auto dest: chain_nz)

lemma chain_append: "chain nx p (xs @ y # ys) \<Longrightarrow> chain nx y (y # ys)"
  by (induction nx p xs rule: chain.induct) auto

lemma chain_distinct: "chain nx p xs \<Longrightarrow> distinct xs"
proof (induction nx p xs rule: chain.induct)
  case (2 nx p x xs)
  have "x \<notin> set xs"
  proof
    assume "x \<in> set xs"
    then obtain as bs where xs: "xs = as @ x # bs" by (auto simp: in_set_conv_decomp)
    with "2.prems" have "chain nx x (x # bs)" using chain_append [of nx "nx x" as x bs] by simp
    then have "x # bs = x # xs" using "2.prems" chain_unique [of nx x "x # bs" "x # xs"] by auto
    then show False using xs by simp
  qed
  with 2 show ?case by simp
qed simp

text \<open>Cutting an element out by redirecting its predecessor's link.\<close>

lemma chain_unlink:
  "chain nx p (as @ j # i # bs) \<Longrightarrow> chain (nx(j := nx i)) p (as @ j # bs)"
proof (induction nx p as rule: chain.induct)
  case (1 nx p)
  then have "distinct (j # i # bs)" using chain_distinct by fastforce
  then have "chain (nx(j := nx i)) (nx i) bs = chain nx (nx i) bs" by (intro chain_upd) simp
  with 1 show ?case by simp
next
  case (2 nx p x xs)
  then have "distinct (x # xs @ j # i # bs)" using chain_distinct [of nx p "x # xs @ j # i # bs"] by simp
  with 2 show ?case by auto
qed

section \<open>Chains with back links\<close>

text \<open>As a chain, and \<open>pv\<close> leads from each element to the one before it, from the first to \<open>prev\<close>.\<close>

fun dchain :: "(int \<Rightarrow> int) \<Rightarrow> (int \<Rightarrow> int) \<Rightarrow> int \<Rightarrow> int \<Rightarrow> int list \<Rightarrow> bool" where
  "dchain nx pv prev p [] \<longleftrightarrow> p = 0"
| "dchain nx pv prev p (x # xs) \<longleftrightarrow> p = x \<and> x \<noteq> 0 \<and> pv x = prev \<and> dchain nx pv x (nx x) xs"

lemma dchain_chain: "dchain nx pv prev p xs \<Longrightarrow> chain nx p xs"
  by (induction nx pv prev p xs rule: dchain.induct) auto

lemma dchain_0 [simp]: "dchain nx pv prev 0 xs \<longleftrightarrow> xs = []"
  by (cases xs) auto

lemma dchain_nx [simp]: "a \<notin> set xs \<Longrightarrow> dchain (nx(a := v)) pv prev p xs = dchain nx pv prev p xs"
  by (induction nx pv prev p xs rule: dchain.induct) auto

lemma dchain_pv [simp]: "a \<notin> set xs \<Longrightarrow> dchain nx (pv(a := v)) prev p xs = dchain nx pv prev p xs"
  by (induction nx pv prev p xs rule: dchain.induct) auto

text \<open>A new element in front: the old first one, if there is one, points back to it.\<close>

lemma dchain_push:
  assumes "dchain nx pv 0 p xs" "i \<notin> set xs" "i \<noteq> 0"
  shows "dchain (nx(i := p)) ((if p \<noteq> 0 then pv(p := i) else pv)(i := 0)) 0 i (i # xs)"
proof (cases xs)
  case (Cons x ys)
  then have "x \<notin> set ys" using assms chain_distinct [OF dchain_chain] by fastforce
  with Cons assms show ?thesis by auto
qed (use assms in auto)

text \<open>Cutting an element out, wherever it is: its neighbours are linked to each other.\<close>

definition cut_nx :: "(int \<Rightarrow> int) \<Rightarrow> (int \<Rightarrow> int) \<Rightarrow> int \<Rightarrow> int \<Rightarrow> int" where
  "cut_nx nx pv i = (if pv i \<noteq> 0 then nx(pv i := nx i) else nx)"

definition cut_pv :: "(int \<Rightarrow> int) \<Rightarrow> (int \<Rightarrow> int) \<Rightarrow> int \<Rightarrow> int \<Rightarrow> int" where
  "cut_pv nx pv i = (if nx i \<noteq> 0 then pv(nx i := pv i) else pv)"

lemma dchain_cut_mid:
  "dchain nx pv prev p (as @ i # bs) \<Longrightarrow> pv i \<noteq> 0 \<Longrightarrow> as \<noteq> [] \<Longrightarrow> distinct (as @ i # bs) \<Longrightarrow>
     dchain (nx(pv i := nx i)) (cut_pv nx pv i) prev p (as @ bs)"
proof (induction nx pv prev p as rule: dchain.induct)
  case (2 nx pv prev p x xs)
  show ?case
  proof (cases xs)
    case Nil
    with 2 show ?thesis by (cases bs) (auto simp: cut_pv_def)
  next
    case (Cons y ys)
    have d: "dchain nx pv x (nx x) (xs @ i # bs)" using 2 by simp
    have p: "pv i \<in> set xs"
    proof -
      have "dchain nx pv pr q (as @ i # bs) \<Longrightarrow> as \<noteq> [] \<Longrightarrow> pv i \<in> set as" for pr q as
      proof (induction as arbitrary: pr q)
        case (Cons a as)
        then show ?case by (cases as) auto
      qed simp
      from this [OF d] Cons show ?thesis by simp
    qed
    have "nx i \<noteq> 0 \<Longrightarrow> nx i \<in> set bs"
    proof -
      have "dchain nx pv pr q (as @ i # bs) \<Longrightarrow> nx i \<noteq> 0 \<Longrightarrow> nx i \<in> set bs" for pr q as
        by (induction as arbitrary: pr q) (cases bs, auto)+
      from this [OF d] show "nx i \<noteq> 0 \<Longrightarrow> nx i \<in> set bs" .
    qed
    then have "nx i \<noteq> 0 \<Longrightarrow> nx i \<noteq> x" using 2 by auto
    then have "cut_pv nx pv i x = pv x" using 2 by (auto simp: cut_pv_def)
    moreover have "dchain (nx(pv i := nx i)) (cut_pv nx pv i) x (nx x) (xs @ bs)"
      using "2.IH" d 2 Cons by simp
    moreover have "pv i \<noteq> x" using p 2 by auto
    ultimately show ?thesis using 2 by simp
  qed
qed simp

lemma dchain_cut_first:
  "dchain nx pv 0 i (i # bs) \<Longrightarrow> dchain nx (cut_pv nx pv i) 0 (nx i) bs"
proof -
  assume d: "dchain nx pv 0 i (i # bs)"
  then have "distinct (i # bs)" using chain_distinct [OF dchain_chain] by blast
  with d show ?thesis by (cases bs) (auto simp: cut_pv_def)
qed

lemma dchain_pv_first: "dchain nx pv prev p (as @ i # bs) \<Longrightarrow> pv i = (if as = [] then prev else last as)"
proof (induction nx pv prev p as rule: dchain.induct)
  case (2 nx pv prev p x xs)
  then show ?case by (cases xs) auto
qed simp

lemma dchain_nx_next: "dchain nx pv prev p (as @ i # bs) \<Longrightarrow> nx i = (case bs of [] \<Rightarrow> 0 | b # _ \<Rightarrow> b)"
  by (induction nx pv prev p as rule: dchain.induct) (auto split: list.splits)

lemma dchain_cut:
  assumes d: "dchain nx pv 0 p (as @ i # bs)"
  shows "dchain (cut_nx nx pv i) (cut_pv nx pv i) 0 (if p = i then nx i else p) (as @ bs)"
proof -
  have dist: "distinct (as @ i # bs)" and nz: "0 \<notin> set (as @ i # bs)"
    using chain_distinct [OF dchain_chain [OF d]] chain_nz [OF dchain_chain [OF d]] .
  show ?thesis
  proof (cases as)
    case Nil
    then show ?thesis using d dchain_cut_first [of nx pv i bs] by (auto simp: cut_nx_def)
  next
    case (Cons a as')
    then have "pv i \<noteq> 0" using dchain_pv_first [OF d] nz last_in_set [of as] by auto
    moreover have "p \<noteq> i" using d dist Cons by auto
    ultimately show ?thesis using dchain_cut_mid [OF d] dist Cons by (simp add: cut_nx_def)
  qed
qed

text \<open>Elements of other chains do not notice: the links that change are those of neighbours.\<close>

lemma dchain_cut_other:
  assumes d: "dchain nx pv 0 p (as @ i # bs)" and e: "dchain nx pv 0 q ys" and disj: "set ys \<inter> set (as @ i # bs) = {}"
  shows "dchain (cut_nx nx pv i) (cut_pv nx pv i) 0 q ys"
proof -
  have "pv i \<noteq> 0 \<Longrightarrow> pv i \<in> set as" using dchain_pv_first [OF d] by (auto split: if_splits)
  then have p: "pv i \<noteq> 0 \<Longrightarrow> pv i \<notin> set ys" using disj by auto
  have "nx i \<noteq> 0 \<Longrightarrow> nx i \<in> set bs" using dchain_nx_next [OF d] by (auto split: list.splits)
  then have n: "nx i \<noteq> 0 \<Longrightarrow> nx i \<notin> set ys" using disj by auto
  show ?thesis using e dchain_nx [OF p] dchain_pv [OF n] by (simp add: cut_nx_def cut_pv_def)
qed

section \<open>Segments between sentinels\<close>

fun dseg :: "(int \<Rightarrow> int) \<Rightarrow> (int \<Rightarrow> int) \<Rightarrow> int \<Rightarrow> int list \<Rightarrow> int \<Rightarrow> bool" where
  "dseg nx pv a [] b \<longleftrightarrow> nx a = b \<and> pv b = a"
| "dseg nx pv a (x # xs) b \<longleftrightarrow> nx a = x \<and> pv x = a \<and> dseg nx pv x xs b"

lemma dseg_append:
  "dseg nx pv a (xs @ x # ys) b \<longleftrightarrow> dseg nx pv a xs x \<and> dseg nx pv x ys b"
  by (induction nx pv a xs x rule: dseg.induct) auto

lemma dseg_nx [simp]: "v \<noteq> a \<Longrightarrow> v \<notin> set xs \<Longrightarrow> dseg (nx(v := w)) pv a xs b = dseg nx pv a xs b"
  by (induction nx pv a xs b rule: dseg.induct) auto

lemma dseg_pv [simp]: "v \<noteq> b \<Longrightarrow> v \<notin> set xs \<Longrightarrow> dseg nx (pv(v := w)) a xs b = dseg nx pv a xs b"
  by (induction nx pv a xs b rule: dseg.induct) auto

text \<open>A node \<open>i\<close> put after \<open>j\<close>, the last of \<open>a # xs\<close>.\<close>

lemma dseg_link:
  assumes "dseg nx pv a (xs @ ys) b" "distinct (a # xs @ ys @ [b, i])"
    and "j = last (a # xs)" "r = nx j"
  shows "r = hd (ys @ [b])" "dseg (nx(i := r, j := i)) (pv(i := j, r := i)) a (xs @ i # ys) b"
proof -
  obtain us where us: "a # xs = us @ [j]" using assms(3) by (metis append_butlast_last_id list.distinct(1))
  have seg: "dseg nx pv j ys b \<and> (us = [] \<longrightarrow> j = a) \<and> (us \<noteq> [] \<longrightarrow> dseg nx pv a (tl us) j)"
  proof (cases us)
    case Nil
    then show ?thesis using us assms(1) by simp
  next
    case (Cons u us')
    then have "u = a" "xs = us' @ [j]" using us by auto
    then show ?thesis using assms(1) Cons by (simp add: dseg_append)
  qed
  show r: "r = hd (ys @ [b])" using seg assms(4) by (cases ys) auto
  have "j \<in> set (a # xs)" using us by (metis in_set_conv_decomp)
  then have ji: "j \<noteq> i" "j \<notin> set ys" "i \<notin> set ys" "i \<noteq> b" using assms(2) by auto
  have tail: "dseg (nx(i := r, j := i)) (pv(i := j, r := i)) i ys b"
  proof (cases ys)
    case Nil
    then show ?thesis using r ji by simp
  next
    case (Cons y ys')
    have "dseg nx pv y ys' b" "r = y" using seg Cons r by simp_all
    then show ?thesis using ji Cons assms(2) by simp
  qed
  show "dseg (nx(i := r, j := i)) (pv(i := j, r := i)) a (xs @ i # ys) b"
  proof (cases us)
    case Nil
    then have "xs = []" "a = j" using us by auto
    then show ?thesis using tail r assms(2) by (cases ys) auto
  next
    case (Cons u us')
    then have ux: "u = a" "xs = us' @ [j]" using us by auto
    have front: "dseg nx pv a us' j" using seg Cons by simp
    have "r \<noteq> j" "r \<notin> set us'" using r assms(2) ux by (cases ys; auto)+
    then have "dseg (nx(i := r, j := i)) (pv(i := j, r := i)) a us' j" using front assms(2) ux by auto
    moreover have "r \<noteq> i" using r assms(2) by (cases ys) auto
    ultimately show ?thesis using tail ux assms(2) by (simp add: dseg_append)
  qed
qed

text \<open>A node taken out.\<close>

lemma dseg_cut:
  assumes "dseg nx pv a (xs @ i # ys) b" "distinct (a # xs @ i # ys @ [b])"
  shows "pv i = last (a # xs)" "nx i = hd (ys @ [b])" "dseg (nx(pv i := nx i)) (pv(nx i := pv i)) a (xs @ ys) b"
proof -
  have s: "dseg nx pv a xs i" "dseg nx pv i ys b" using assms(1) by (simp_all add: dseg_append)
  show pvi: "pv i = last (a # xs)" using s(1) by (induction nx pv a xs i rule: dseg.induct) auto
  show nxi: "nx i = hd (ys @ [b])" using s(2) by (cases ys) auto
  have n: "nx i \<notin> set (a # xs)" "pv i \<notin> set ys" "nx i \<noteq> i" "pv i \<noteq> i"
  proof -
    have "nx i \<in> set (ys @ [b])" unfolding nxi by (rule hd_in_set) simp
    then show "nx i \<notin> set (a # xs)" "nx i \<noteq> i" using assms(2) by auto
    have "pv i \<in> set (a # xs)" unfolding pvi by (rule last_in_set) simp
    then show "pv i \<notin> set ys" "pv i \<noteq> i" using assms(2) by auto
  qed
  have right: "dseg (nx(pv i := nx i)) (pv(nx i := pv i)) (pv i) ys b"
    using s(2) n nxi assms(2) by (cases ys) auto
  have left: "dseg nx pv a xs i \<Longrightarrow> nx i \<notin> set (a # xs) \<Longrightarrow> distinct (a # xs @ [i]) \<Longrightarrow> pv i = last (a # xs) \<Longrightarrow>
      dseg (nx(pv i := nx i)) (pv(nx i := pv i)) (pv i) ys b \<Longrightarrow>
      dseg (nx(pv i := nx i)) (pv(nx i := pv i)) a (xs @ ys) b" for a
  proof (induction xs arbitrary: a)
    case (Cons x xs)
    have "pv i \<in> set (x # xs)" using Cons.prems(4) last_in_set [of "x # xs"] by auto
    then have "pv i \<noteq> a" using Cons.prems(3) by auto
    then show ?case using Cons by auto
  qed auto
  show "dseg (nx(pv i := nx i)) (pv(nx i := pv i)) a (xs @ ys) b"
    by (rule left [OF s(1) n(1) _ pvi right]) (use assms(2) in auto)
qed

declare fun_upd_apply [simp]

end
