(* ===== verification/Ssummary.thy ===== *)
theory Ssummary
  imports Bob_Hash Linked_Arrays
begin

text \<open>
  The stream summary of \<open>platform/drivers/top_k/space_saving.cpp\<close> (class \<open>ssummary\<close>), operation by
  operation. Elements and count buckets are indices into arrays. The buckets in use are linked in
  increasing order between the sentinels 0 and \<open>N\<close> (\<open>Left\<close>, \<open>Right\<close>); the elements of a bucket hang on
  \<open>head\<close> (\<open>Next\<close>, \<open>last\<close>); the elements of a hash value hang on \<open>head2\<close> (\<open>Next2\<close>); \<open>ID\<close> is the stack of
  free elements, \<open>num\<close> its height.

  An array is a function on indices, and a function of the code that uses an index out of its array has
  the result \<open>None\<close>; so has a loop that never ends.
\<close>

section \<open>Sizes\<close>

definition N_max :: int where "N_max = 1000000"
definition M_max :: int where "M_max = 1000000"
definition len2 :: int where "len2 = 199999"

text \<open>The lengths of the arrays of elements, of buckets and of hash values.\<close>

definition elem_len :: int where "elem_len = M_max + 10"
definition bucket_len :: int where "bucket_len = N_max + 10"
definition hash_len :: int where "hash_len = len2 + 10"

lemmas size_defs = N_max_def M_max_def len2_def elem_len_def bucket_len_def hash_len_def

section \<open>The state\<close>

record ssummary =
  ss_tot :: int
  ss_sum :: "int \<Rightarrow> int"
  ss_K :: int
  ss_last :: "int \<Rightarrow> int"
  ss_Next :: "int \<Rightarrow> int"
  ss_ID :: "int \<Rightarrow> int"
  ss_head :: "int \<Rightarrow> int"
  ss_Left :: "int \<Rightarrow> int"
  ss_Right :: "int \<Rightarrow> int"
  ss_num :: int
  ss_data :: "int \<Rightarrow> tuple_3_t"
  ss_head2 :: "int \<Rightarrow> int"
  ss_Next2 :: "int \<Rightarrow> int"

text \<open>
  \<open>clear\<close>, each filling loop as the array it leaves. The loop over \<open>head2\<close> writes \<open>head2[0]\<close> in each of
  its rounds and no other entry.
\<close>

definition fill :: "int \<Rightarrow> int \<Rightarrow> (int \<Rightarrow> int) \<Rightarrow> (int \<Rightarrow> int) \<Rightarrow> int \<Rightarrow> int" where
  "fill lo hi v a = (\<lambda>i. if lo \<le> i \<and> i \<le> hi then v i else a i)"

definition ss_clear :: "ssummary \<Rightarrow> ssummary" where
  "ss_clear s =
     s\<lparr>ss_sum := fill 0 (elem_len - 1) (\<lambda>_. 0) (ss_sum s),
       ss_last := fill 0 (elem_len - 1) (\<lambda>_. 0) (ss_last s),
       ss_Next2 := fill 0 (elem_len - 1) (\<lambda>_. 0) (ss_Next2 s),
       ss_head := fill 0 N_max (\<lambda>_. 0) (ss_head s),
       ss_Left := (fill 0 N_max (\<lambda>_. 0) (ss_Left s))(N_max := 0),
       ss_Right := (fill 0 N_max (\<lambda>_. 0) (ss_Right s))(0 := N_max),
       ss_head2 := (ss_head2 s)(0 := 0),
       ss_tot := 0,
       ss_ID := fill 1 (M_max + 2) (\<lambda>i. i) (ss_ID s),
       ss_num := M_max + 2\<rparr>"

section \<open>Elements and the hash\<close>

definition getid :: "ssummary \<Rightarrow> (int \<times> ssummary) option" where
  "getid s = do {
     chk elem_len (ss_num s);
     let i = ss_ID s (ss_num s);
     let s = s\<lparr>ss_num := ss_num s - 1\<rparr>;
     chk elem_len i;
     Some (i, s\<lparr>ss_last := (ss_last s)(i := 0), ss_Next := (ss_Next s)(i := 0),
                ss_sum := (ss_sum s)(i := 0), ss_Next2 := (ss_Next2 s)(i := 0)\<rparr>)
   }"

definition location :: "tuple_3_t \<Rightarrow> int option" where
  "location ST = map_option (\<lambda>h. uint (h mod word_of_int len2)) (BOBHash32_run 1000 (to_str ST))"

definition add2 :: "int \<Rightarrow> int \<Rightarrow> ssummary \<Rightarrow> ssummary option" where
  "add2 x y s = do {
     chk elem_len y;
     chk hash_len x;
     let s = s\<lparr>ss_Next2 := (ss_Next2 s)(y := ss_head2 s x)\<rparr>;
     Some (s\<lparr>ss_head2 := (ss_head2 s)(x := y)\<rparr>)
   }"

partial_function (option) find_from :: "ssummary \<Rightarrow> tuple_3_t \<Rightarrow> int \<Rightarrow> int option" where
  "find_from s t i =
     (if i = 0 then Some 0
      else do {
        chk elem_len i;
        if ss_data s i = t then Some i else find_from s t (ss_Next2 s i)
      })"

definition ss_find :: "ssummary \<Rightarrow> tuple_3_t \<Rightarrow> int option" where
  "ss_find s t = do {
     w \<leftarrow> location t;
     chk hash_len w;
     find_from s t (ss_head2 s w)
   }"

section \<open>Count buckets\<close>

definition linkhead :: "int \<Rightarrow> int \<Rightarrow> ssummary \<Rightarrow> ssummary option" where
  "linkhead i j s = do {
     chk bucket_len i;
     let s = s\<lparr>ss_Left := (ss_Left s)(i := j)\<rparr>;
     chk bucket_len j;
     let s = s\<lparr>ss_Right := (ss_Right s)(i := ss_Right s j)\<rparr>;
     let s = s\<lparr>ss_Right := (ss_Right s)(j := i)\<rparr>;
     chk bucket_len (ss_Right s i);
     Some (s\<lparr>ss_Left := (ss_Left s)(ss_Right s i := i)\<rparr>)
   }"

definition cuthead :: "int \<Rightarrow> ssummary \<Rightarrow> ssummary option" where
  "cuthead i s = do {
     chk bucket_len i;
     let t1 = ss_Left s i;
     let t2 = ss_Right s i;
     chk bucket_len t1;
     let s = s\<lparr>ss_Right := (ss_Right s)(t1 := t2)\<rparr>;
     chk bucket_len t2;
     Some (s\<lparr>ss_Left := (ss_Left s)(t2 := t1)\<rparr>)
   }"

definition getmin :: "ssummary \<Rightarrow> int" where
  "getmin s = (if ss_tot s < ss_K s then 0 else if ss_Right s 0 = N_max then 1 else ss_Right s 0)"

text \<open>The loop that looks for a bucket in use below \<open>sum[i]\<close>, from \<open>j\<close> down to above \<open>lim\<close>.\<close>

function near_bucket :: "(int \<Rightarrow> int) \<Rightarrow> int \<Rightarrow> int \<Rightarrow> int option" where
  "near_bucket heads lim j =
     (if 0 < j \<and> lim < j then if heads j \<noteq> 0 then Some j else near_bucket heads lim (j - 1) else None)"
  by pat_completeness auto
termination
  by (relation "measure (\<lambda>(heads, lim, j). nat j)") auto

declare near_bucket.simps [simp del]

definition link :: "int \<Rightarrow> int \<Rightarrow> ssummary \<Rightarrow> ssummary option" where
  "link i ww s = do {
     let s = s\<lparr>ss_tot := ss_tot s + 1\<rparr>;
     chk elem_len i;
     let b = ss_sum s i;
     chk bucket_len b;
     let flag = (ss_head s b = 0);
     let s = s\<lparr>ss_Next := (ss_Next s)(i := ss_head s b)\<rparr>;
     let n = ss_Next s i;
     s \<leftarrow> (if n \<noteq> 0 then do { chk elem_len n; Some (s\<lparr>ss_last := (ss_last s)(n := i)\<rparr>) } else Some s);
     let s = s\<lparr>ss_last := (ss_last s)(i := 0)\<rparr>;
     let s = s\<lparr>ss_head := (ss_head s)(b := i)\<rparr>;
     if flag then
       (case near_bucket (ss_head s) (b - 10) (b - 1) of
          Some j \<Rightarrow> linkhead b j s
        | None \<Rightarrow> linkhead b ww s)
     else Some s
   }"

definition cut :: "int \<Rightarrow> ssummary \<Rightarrow> ssummary option" where
  "cut i s = do {
     let s = s\<lparr>ss_tot := ss_tot s - 1\<rparr>;
     chk elem_len i;
     let b = ss_sum s i;
     chk bucket_len b;
     let s = (if ss_head s b = i then s\<lparr>ss_head := (ss_head s)(b := ss_Next s i)\<rparr> else s);
     s \<leftarrow> (if ss_head s b = 0 then cuthead b s else Some s);
     let t1 = ss_last s i;
     let t2 = ss_Next s i;
     s \<leftarrow> (if t1 \<noteq> 0 then do { chk elem_len t1; Some (s\<lparr>ss_Next := (ss_Next s)(t1 := t2)\<rparr>) } else Some s);
     if t2 \<noteq> 0 then do { chk elem_len t2; Some (s\<lparr>ss_last := (ss_last s)(t2 := t1)\<rparr>) } else Some s
   }"

section \<open>Giving an element back\<close>

partial_function (option) unlink_from :: "(int \<Rightarrow> int) \<Rightarrow> int \<Rightarrow> int \<Rightarrow> (int \<Rightarrow> int) option" where
  "unlink_from nx2 i j =
     (if j = 0 then Some nx2
      else do {
        chk elem_len j;
        if nx2 j = i then do { chk elem_len i; Some (nx2(j := nx2 i)) }
        else unlink_from nx2 i (nx2 j)
      })"

definition recycling :: "int \<Rightarrow> ssummary \<Rightarrow> ssummary option" where
  "recycling i s = do {
     chk elem_len i;
     w \<leftarrow> location (ss_data s i);
     chk hash_len w;
     s \<leftarrow> (if ss_head2 s w = i then Some (s\<lparr>ss_head2 := (ss_head2 s)(w := ss_Next2 s i)\<rparr>)
           else do { nx2 \<leftarrow> unlink_from (ss_Next2 s) i (ss_head2 s w); Some (s\<lparr>ss_Next2 := nx2\<rparr>) });
     let s = s\<lparr>ss_num := ss_num s + 1\<rparr>;
     chk elem_len (ss_num s);
     Some (s\<lparr>ss_ID := (ss_ID s)(ss_num s := i)\<rparr>)
   }"

end
