(* ===== verification/Ssummary_Inv.thy ===== *)
theory Ssummary_Inv
  imports Ssummary
begin

text \<open>
  The invariant of the stream summary and what every operation does to it. The linked structures are
  described by the lists they hold: \<open>bs\<close> the counts in use, in increasing order; \<open>els b\<close> the elements of
  count \<open>b\<close>; \<open>hc w\<close> the elements of hash value \<open>w\<close>.
\<close>

section \<open>The invariant\<close>

definition ring :: "ssummary \<Rightarrow> int list \<Rightarrow> bool" where
  "ring s bs \<longleftrightarrow> dseg (ss_Right s) (ss_Left s) 0 bs N_max \<and> sorted_wrt (<) (0 # bs @ [N_max])"

definition chains :: "ssummary \<Rightarrow> int list \<Rightarrow> (int \<Rightarrow> int list) \<Rightarrow> bool" where
  "chains s bs els \<longleftrightarrow>
     (\<forall>b. 0 \<le> b \<and> b \<le> N_max \<longrightarrow> dchain (ss_Next s) (ss_last s) 0 (ss_head s b) (els b)) \<and>
     (\<forall>b. els b \<noteq> [] \<longleftrightarrow> b \<in> set bs) \<and>
     (\<forall>b. \<forall>i \<in> set (els b). 1 \<le> i \<and> i \<le> M_max + 2 \<and> ss_sum s i = b)"

definition hashed :: "ssummary \<Rightarrow> (int \<Rightarrow> int list) \<Rightarrow> bool" where
  "hashed s hc \<longleftrightarrow>
     (\<forall>w. 0 \<le> w \<and> w < len2 \<longrightarrow> chain (ss_Next2 s) (ss_head2 s w) (hc w)) \<and>
     (\<forall>w. \<forall>i \<in> set (hc w). 1 \<le> i \<and> i \<le> M_max + 2 \<and> location (ss_data s i) = Some w)"

definition ids :: "ssummary \<Rightarrow> int set \<Rightarrow> bool" where
  "ids s U \<longleftrightarrow> U \<subseteq> {1..M_max + 2} \<and> 0 \<le> ss_num s \<and> inj_on (ss_ID s) {1..ss_num s} \<and>
     ss_ID s ` {1..ss_num s} = {1..M_max + 2} - U"

definition elems :: "(int \<Rightarrow> int list) \<Rightarrow> int set" where
  "elems f = (\<Union>b. set (f b))"

lemma elems_upd: "elems (f(b := xs)) = set xs \<union> (\<Union>c \<in> - {b}. set (f c))"
  by (auto simp: elems_def split: if_splits)

lemma mem_elems: "i \<in> set (f b) \<Longrightarrow> i \<in> elems f"
  by (auto simp: elems_def)

section \<open>Locations\<close>

lemma location_ok: "\<exists>w. location t = Some w \<and> 0 \<le> w \<and> w < len2"
proof -
  obtain h where h: "BOBHash32_run 1000 (to_str t) = Some h"
    by (cases "bob_blocks (to_str t) (0x9e3779b9, 0x9e3779b9, prime32 ! 1000)")
       (auto simp: BOBHash32_run_def MAX_PRIME32_def)
  have "uint (h mod word_of_int len2) = uint h mod 199999" by (simp add: uint_mod len2_def)
  then show ?thesis by (simp add: location_def h len2_def)
qed

lemma location_range: "location t = Some w \<Longrightarrow> 0 \<le> w \<and> w < len2"
  using location_ok [of t] by auto

lemma hash_chk [simp]: "location t = Some w \<Longrightarrow> chk hash_len w = Some ()"
  using location_range [of t w] by (simp add: hash_len_def)

lemma elem_chk [simp]: "1 \<le> i \<Longrightarrow> i \<le> M_max + 2 \<Longrightarrow> chk elem_len i = Some ()"
  by (simp add: elem_len_def)

lemma bucket_chk [simp]: "0 \<le> i \<Longrightarrow> i \<le> N_max \<Longrightarrow> chk bucket_len i = Some ()"
  by (simp add: bucket_len_def)

section \<open>Finding\<close>

lemma find_from_chain:
  "chain (ss_Next2 s) p xs \<Longrightarrow> \<forall>i \<in> set xs. 1 \<le> i \<and> i \<le> M_max + 2 \<Longrightarrow>
     find_from s t p = Some (case List.find (\<lambda>i. ss_data s i = t) xs of None \<Rightarrow> 0 | Some i \<Rightarrow> i)"
proof (induction xs arbitrary: p)
  case Nil
  then show ?case by (simp add: find_from.simps)
next
  case (Cons x xs)
  then show ?case by (subst find_from.simps) auto
qed

lemma hashedD:
  assumes "hashed s hc"
  shows "0 \<le> w \<Longrightarrow> w < len2 \<Longrightarrow> chain (ss_Next2 s) (ss_head2 s w) (hc w)"
    "i \<in> set (hc w) \<Longrightarrow> 1 \<le> i \<and> i \<le> M_max + 2 \<and> location (ss_data s i) = Some w"
    "i \<in> set (hc w) \<Longrightarrow> 0 \<le> w \<and> w < len2"
  using assms location_range unfolding hashed_def by blast+

lemma hashedI:
  assumes "\<And>w. 0 \<le> w \<Longrightarrow> w < len2 \<Longrightarrow> chain (ss_Next2 s) (ss_head2 s w) (hc w)"
    "\<And>i w. i \<in> set (hc w) \<Longrightarrow> 1 \<le> i \<and> i \<le> M_max + 2 \<and> location (ss_data s i) = Some w"
  shows "hashed s hc"
  using assms unfolding hashed_def by blast

lemma ss_find_cases:
  assumes "hashed s hc"
  obtains i where "i \<in> elems hc" "ss_data s i = t" "ss_find s t = Some i" "i \<noteq> 0"
    | "t \<notin> ss_data s ` elems hc" "ss_find s t = Some 0"
proof -
  obtain w where w: "location t = Some w" "0 \<le> w" "w < len2" using location_ok by blast
  have run: "ss_find s t = Some (case List.find (\<lambda>i. ss_data s i = t) (hc w) of None \<Rightarrow> 0 | Some i \<Rightarrow> i)"
    using w hashedD(1) [OF assms w(2,3)] hashedD(2) [OF assms, of _ w]
    by (simp add: ss_find_def find_from_chain)
  show thesis
  proof (cases "List.find (\<lambda>i. ss_data s i = t) (hc w)")
    case None
    then have "t \<noteq> ss_data s i" if "i \<in> set (hc w)" for i using that by (auto simp: find_None_iff)
    moreover have "t \<noteq> ss_data s i" if "i \<in> set (hc v)" "v \<noteq> w" for i v
      using that hashedD(2) [OF assms that(1)] w(1) by auto
    ultimately have "t \<notin> ss_data s ` elems hc" unfolding elems_def by blast
    then show ?thesis using that(2) run None by simp
  next
    case (Some i)
    then have i: "i \<in> set (hc w)" "ss_data s i = t" by (auto simp: find_Some_iff)
    then have "i \<noteq> 0" using hashedD(2) [OF assms i(1)] by auto
    then show ?thesis using that(1) run Some i mem_elems [of i hc w] by simp
  qed
qed

text \<open>The counter of a flow, as \<open>find\<close> shows it.\<close>

definition ss_counts :: "ssummary \<Rightarrow> tuple_3_t \<Rightarrow> nat option" where
  "ss_counts s t = (case ss_find s t of Some i \<Rightarrow> if i = 0 then None else Some (nat (ss_sum s i)) | None \<Rightarrow> None)"

lemma ss_counts_iff:
  assumes "hashed s hc" "inj_on (ss_data s) (elems hc)"
  shows "ss_counts s t = Some n \<longleftrightarrow> (\<exists>i \<in> elems hc. ss_data s i = t \<and> n = nat (ss_sum s i))"
proof (cases rule: ss_find_cases [OF assms(1), of t])
  case (1 i)
  then show ?thesis using inj_onD [OF assms(2)] by (auto simp: ss_counts_def)
next
  case 2
  then show ?thesis by (auto simp: ss_counts_def)
qed

section \<open>Hash chains\<close>

lemma add2_ok:
  assumes "hashed s hc" "i \<notin> elems hc" "1 \<le> i" "i \<le> M_max + 2" "location t = Some w"
  shows "\<exists>s'. add2 w i s = Some s' \<and> hashed (s'\<lparr>ss_data := (ss_data s')(i := t)\<rparr>) (hc(w := i # hc w)) \<and>
    s' = s\<lparr>ss_Next2 := ss_Next2 s', ss_head2 := ss_head2 s'\<rparr>"
proof -
  have w: "0 \<le> w" "w < len2" using location_range assms(5) by auto
  have ni: "i \<notin> set (hc v)" for v using assms(2) mem_elems [of i hc v] by auto
  let ?s = "s\<lparr>ss_Next2 := (ss_Next2 s)(i := ss_head2 s w), ss_head2 := (ss_head2 s)(w := i)\<rparr>"
  have run: "add2 w i s = Some ?s" using assms(3-5) by (simp add: add2_def)
  have "chain ((ss_Next2 s)(i := ss_head2 s w)) (((ss_head2 s)(w := i)) v) ((hc(w := i # hc w)) v)"
    if "0 \<le> v" "v < len2" for v
    using hashedD(1) [OF assms(1) that] hashedD(1) [OF assms(1) w] ni assms(3) by auto
  moreover have "1 \<le> j \<and> j \<le> M_max + 2 \<and> location (((ss_data s)(i := t)) j) = Some v"
    if "j \<in> set ((hc(w := i # hc w)) v)" for j v
    using that hashedD(2) [OF assms(1), of j v] hashedD(2) [OF assms(1), of j w] ni assms(3-5)
    by (auto split: if_splits)
  ultimately have "hashed (?s\<lparr>ss_data := (ss_data s)(i := t)\<rparr>) (hc(w := i # hc w))"
    by (intro hashedI) (simp_all del: fun_upd_apply)
  then show ?thesis by (simp add: run del: fun_upd_apply)
qed

lemma unlink_from_chain:
  "chain nx p (as @ i # bs) \<Longrightarrow> as \<noteq> [] \<Longrightarrow> \<forall>j \<in> set (as @ i # bs). 1 \<le> j \<and> j \<le> M_max + 2 \<Longrightarrow>
     unlink_from nx i p = Some (nx(last as := nx i))"
proof (induction as arbitrary: p)
  case (Cons a as)
  have d: "distinct (a # as @ i # bs)" using chain_distinct [OF Cons.prems(1)] by simp
  show ?case
  proof (cases as)
    case Nil
    then show ?thesis using Cons.prems by (subst unlink_from.simps) auto
  next
    case (Cons b cs)
    then have "nx a = b" "b \<noteq> i" using Cons.prems d by auto
    then show ?thesis using Cons.IH Cons.prems Cons by (subst unlink_from.simps) auto
  qed
qed simp

lemma recycling_ok:
  assumes "hashed s hc" "i \<in> set (hc w)" "0 \<le> ss_num s" "ss_num s < M_max + 2"
  shows "\<exists>s'. recycling i s = Some s' \<and> hashed s' (hc(w := remove1 i (hc w))) \<and>
    s' = s\<lparr>ss_Next2 := ss_Next2 s', ss_head2 := ss_head2 s', ss_num := ss_num s + 1,
           ss_ID := (ss_ID s)(ss_num s + 1 := i)\<rparr>"
proof -
  have i: "1 \<le> i" "i \<le> M_max + 2" "location (ss_data s i) = Some w" "0 \<le> w" "w < len2"
    using hashedD(2,3) [OF assms(1,2)] by auto
  have ch: "chain (ss_Next2 s) (ss_head2 s w) (hc w)" using hashedD(1) [OF assms(1) i(4,5)] .
  obtain as bs where hc: "hc w = as @ i # bs" "i \<notin> set as" using assms(2) by (meson split_list_first)
  then have rem: "remove1 i (hc w) = as @ bs" by (simp add: remove1_append)
  have d: "distinct (as @ i # bs)" using chain_distinct [OF ch] hc by simp
  have num: "chk elem_len (ss_num s + 1) = Some ()" using assms(3,4) by simp
  have range: "\<forall>j \<in> set (as @ i # bs). 1 \<le> j \<and> j \<le> M_max + 2" using hashedD(2) [OF assms(1), of _ w] hc by simp
  have other: "a \<notin> set (hc v)" if "a \<in> set (hc w)" "v \<noteq> w" for a v
    using that hashedD(2) [OF assms(1), of a v] hashedD(2) [OF assms(1), of a w] by auto
  let ?fin = "\<lambda>h n. s\<lparr>ss_head2 := h, ss_Next2 := n, ss_num := ss_num s + 1, ss_ID := (ss_ID s)(ss_num s + 1 := i)\<rparr>"
  have mem: "1 \<le> j \<and> j \<le> M_max + 2 \<and> location (ss_data s j) = Some v"
    if "j \<in> set ((hc(w := as @ bs)) v)" for j v
    using that hashedD(2) [OF assms(1), of j v] hashedD(2) [OF assms(1), of j w] hc by (auto split: if_splits)
  show ?thesis
  proof (cases as)
    case Nil
    then have hd: "ss_head2 s w = i" using ch hc by simp
    then have run: "recycling i s = Some (?fin ((ss_head2 s)(w := ss_Next2 s i)) (ss_Next2 s))"
      using i num by (simp add: recycling_def)
    have "chain (ss_Next2 s) (((ss_head2 s)(w := ss_Next2 s i)) v) ((hc(w := as @ bs)) v)" if "0 \<le> v" "v < len2" for v
      using hashedD(1) [OF assms(1) that] ch hc Nil by auto
    then show ?thesis using mem by (auto simp: run rem simp del: fun_upd_apply intro!: hashedI)
  next
    case (Cons a as')
    then have hd: "ss_head2 s w \<noteq> i" using ch hc d by auto
    have un: "unlink_from (ss_Next2 s) i (ss_head2 s w) = Some ((ss_Next2 s)(last as := ss_Next2 s i))"
      by (rule unlink_from_chain) (use ch hc Cons range in auto)
    then have run: "recycling i s = Some (?fin (ss_head2 s) ((ss_Next2 s)(last as := ss_Next2 s i)))"
      using i num hd by (simp add: recycling_def)
    have "chain ((ss_Next2 s)(last as := ss_Next2 s i)) (ss_head2 s v) ((hc(w := as @ bs)) v)" if v: "0 \<le> v" "v < len2" for v
    proof (cases "v = w")
      case True
      obtain bl where "as = bl @ [last as]" using Cons by (metis append_butlast_last_id list.distinct(1))
      then have "chain (ss_Next2 s) (ss_head2 s w) (bl @ last as # i # bs)" using ch hc by (metis append.assoc append_Cons append_Nil)
      from chain_unlink [OF this] show ?thesis using True \<open>as = bl @ [last as]\<close> by (metis append.assoc append_Cons append_Nil fun_upd_same)
    next
      case False
      have "last as \<in> set (hc w)" using hc Cons last_in_set [of as] by auto
      from other [OF this False] show ?thesis using hashedD(1) [OF assms(1) v] False by simp
    qed
    then show ?thesis using mem by (auto simp: run rem simp del: fun_upd_apply intro!: hashedI)
  qed
qed

section \<open>Free elements\<close>

lemma ids_num:
  assumes "ids s U"
  shows "ss_num s = M_max + 2 - int (card U)" "finite U"
proof -
  have U: "U \<subseteq> {1..M_max + 2}" using assms by (simp add: ids_def)
  then show fin: "finite U" using finite_subset by blast
  have "int (card {1..ss_num s}) = int (card ({1..M_max + 2} - U))"
    using assms card_image [of "ss_ID s" "{1..ss_num s}"] by (simp add: ids_def)
  also have "\<dots> = int (card {1..M_max + 2}) - int (card U)"
    using U fin card_mono [OF _ U] by (simp add: card_Diff_subset)
  finally show "ss_num s = M_max + 2 - int (card U)" using assms by (simp add: ids_def M_max_def)
qed

lemma getid_ok:
  assumes "ids s U" "int (card U) < M_max + 2"
  shows "\<exists>i s'. getid s = Some (i, s') \<and> 1 \<le> i \<and> i \<le> M_max + 2 \<and> i \<notin> U \<and> ids s' (insert i U) \<and>
    s' = s\<lparr>ss_num := ss_num s - 1, ss_last := (ss_last s)(i := 0), ss_Next := (ss_Next s)(i := 0),
           ss_sum := (ss_sum s)(i := 0), ss_Next2 := (ss_Next2 s)(i := 0)\<rparr>"
proof -
  have num: "0 < ss_num s" "ss_num s \<le> M_max + 2" using ids_num [OF assms(1)] assms(2) by simp_all
  let ?i = "ss_ID s (ss_num s)"
  let ?s = "s\<lparr>ss_num := ss_num s - 1, ss_last := (ss_last s)(?i := 0), ss_Next := (ss_Next s)(?i := 0),
           ss_sum := (ss_sum s)(?i := 0), ss_Next2 := (ss_Next2 s)(?i := 0)\<rparr>"
  have "?i \<in> ss_ID s ` {1..ss_num s}" using num by simp
  then have i: "?i \<in> {1..M_max + 2} - U" using assms(1) by (simp add: ids_def)
  have inj: "inj_on (ss_ID s) {1..ss_num s}" using assms(1) by (simp add: ids_def)
  have top: "{1..ss_num s - 1} = {1..ss_num s} - {ss_num s}" using num by auto
  have "ss_ID s ` ({1..ss_num s} - {ss_num s}) = ss_ID s ` {1..ss_num s} - ss_ID s ` {ss_num s}"
    by (rule inj_on_image_set_diff [OF inj]) (use num in auto)
  then have "ss_ID s ` {1..ss_num s - 1} = ss_ID s ` {1..ss_num s} - {?i}" by (simp only: top image_insert image_empty)
  moreover have "inj_on (ss_ID s) {1..ss_num s - 1}"
    using assms(1) inj_on_subset [of "ss_ID s" "{1..ss_num s}"] by (simp add: ids_def)
  moreover have "{1..M_max + 2} - U - {?i} = {1..M_max + 2} - insert ?i U" by blast
  ultimately have "ids ?s (insert ?i U)" using assms(1) i num by (simp add: ids_def)
  moreover have "getid s = Some (?i, ?s)" using i num by (simp add: getid_def Let_def)
  ultimately show ?thesis using i by auto
qed

lemma ids_recycle:
  assumes "ids s U" "i \<in> U"
  shows "ids (s\<lparr>ss_num := ss_num s + 1, ss_ID := (ss_ID s)(ss_num s + 1 := i)\<rparr>) (U - {i})"
    "ss_num s < M_max + 2"
proof -
  note num = ids_num [OF assms(1)]
  have "0 < card U" using num(2) assms(2) card_gt_0_iff by blast
  then show "ss_num s < M_max + 2" using num by simp
  have nn: "0 \<le> ss_num s" using assms(1) by (simp add: ids_def)
  have top: "{1..ss_num s + 1} = insert (ss_num s + 1) {1..ss_num s}" using nn by auto
  have old: "((ss_ID s)(ss_num s + 1 := i)) ` {1..ss_num s} = {1..M_max + 2} - U"
    using assms(1) by (auto simp: ids_def image_iff)
  have "i \<in> {1..M_max + 2}" using assms by (auto simp: ids_def)
  then have img: "((ss_ID s)(ss_num s + 1 := i)) ` {1..ss_num s + 1} = {1..M_max + 2} - (U - {i})"
    unfolding top image_insert old using assms(2) by auto
  have "inj_on ((ss_ID s)(ss_num s + 1 := i)) {1..ss_num s + 1}"
    unfolding top inj_on_insert
  proof (intro conjI)
    show "inj_on ((ss_ID s)(ss_num s + 1 := i)) {1..ss_num s}"
      using assms(1) by (auto simp: ids_def inj_on_def)
    have "{1..ss_num s} - {ss_num s + 1} = {1..ss_num s}" by auto
    then show "((ss_ID s)(ss_num s + 1 := i)) (ss_num s + 1) \<notin> ((ss_ID s)(ss_num s + 1 := i)) ` ({1..ss_num s} - {ss_num s + 1})"
      using old assms(2) by auto
  qed
  then show "ids (s\<lparr>ss_num := ss_num s + 1, ss_ID := (ss_ID s)(ss_num s + 1 := i)\<rparr>) (U - {i})"
    using assms(1) img nn by (auto simp: ids_def)
qed

section \<open>Buckets\<close>

lemma ring_sorted:
  assumes "ring s bs"
  shows "sorted_wrt (<) bs" "distinct (0 # bs @ [N_max])" "b \<in> set bs \<Longrightarrow> 0 < b \<and> b < N_max" "0 < N_max"
  using assms strict_sorted_iff [of "0 # bs @ [N_max]"] by (auto simp: ring_def sorted_wrt_append N_max_def)

lemma chainsD:
  assumes "chains s bs els"
  shows "0 \<le> b \<Longrightarrow> b \<le> N_max \<Longrightarrow> dchain (ss_Next s) (ss_last s) 0 (ss_head s b) (els b)"
    "els b \<noteq> [] \<longleftrightarrow> b \<in> set bs" "i \<in> set (els b) \<Longrightarrow> 1 \<le> i \<and> i \<le> M_max + 2 \<and> ss_sum s i = b"
  using assms unfolding chains_def by blast+

lemma chainsI:
  assumes "\<And>b. 0 \<le> b \<Longrightarrow> b \<le> N_max \<Longrightarrow> dchain (ss_Next s) (ss_last s) 0 (ss_head s b) (els b)"
    "\<And>b. els b \<noteq> [] \<longleftrightarrow> b \<in> set bs" "\<And>i b. i \<in> set (els b) \<Longrightarrow> 1 \<le> i \<and> i \<le> M_max + 2 \<and> ss_sum s i = b"
  shows "chains s bs els"
  using assms unfolding chains_def by blast

lemma head_zero:
  assumes "chains s bs els" "0 \<le> b" "b \<le> N_max"
  shows "ss_head s b = 0 \<longleftrightarrow> b \<notin> set bs"
  using chainsD(1,2) [OF assms(1)] assms(2,3) by (cases "els b") fastforce+

text \<open>The buckets with \<open>b\<close>, and the one in front of it.\<close>

definition put_bucket :: "int \<Rightarrow> int list \<Rightarrow> int list" where
  "put_bucket b bs = (if b \<in> set bs then bs else filter (\<lambda>x. x < b) bs @ b # filter (\<lambda>x. b < x) bs)"

definition pred_bucket :: "int \<Rightarrow> int list \<Rightarrow> int" where
  "pred_bucket b bs = last (0 # filter (\<lambda>x. x < b) bs)"

lemma sorted_split:
  "sorted_wrt (<) bs \<Longrightarrow> (b :: int) \<notin> set bs \<Longrightarrow> filter (\<lambda>x. x < b) bs @ filter (\<lambda>x. b < x) bs = bs"
proof (induction bs)
  case (Cons a bs)
  show ?case
  proof (cases "a < b")
    case False
    then have "b < a" using Cons.prems by auto
    then have "\<forall>x \<in> set bs. b < x" using Cons.prems by auto
    then have "filter (\<lambda>x. x < b) bs = []" "filter (\<lambda>x. b < x) bs = bs" by (auto simp: filter_empty_conv filter_id_conv)
    then show ?thesis using \<open>b < a\<close> by simp
  qed (use Cons in auto)
qed simp

lemma set_put_bucket [simp]: "set (put_bucket b bs) = insert b (set bs)"
  by (auto simp: put_bucket_def)

lemma sorted_last_max: "sorted_wrt (<) (a # xs) \<Longrightarrow> (x :: int) \<in> set (a # xs) \<Longrightarrow> x \<le> last (a # xs)"
  by (induction xs arbitrary: a x) fastforce+

lemma pred_bucket_spec:
  assumes "ring s bs" "0 < b"
  shows "pred_bucket b bs < b" "pred_bucket b bs = 0 \<or> pred_bucket b bs \<in> set bs"
    "x \<in> set bs \<Longrightarrow> x < b \<Longrightarrow> x \<le> pred_bucket b bs" "0 \<le> pred_bucket b bs"
proof -
  let ?f = "0 # filter (\<lambda>x. x < b) bs"
  have mem: "pred_bucket b bs \<in> set ?f" unfolding pred_bucket_def by (rule last_in_set) simp
  then show "pred_bucket b bs < b" "pred_bucket b bs = 0 \<or> pred_bucket b bs \<in> set bs" using assms(2) by auto
  have "sorted_wrt (<) ?f" using ring_sorted [OF assms(1)] by (auto intro: sorted_wrt_filter)
  from sorted_last_max [OF this] show "x \<in> set bs \<Longrightarrow> x < b \<Longrightarrow> x \<le> pred_bucket b bs" "0 \<le> pred_bucket b bs"
    unfolding pred_bucket_def by auto
qed

lemma pred_bucketI:
  assumes "ring s bs" "k \<in> set bs" "k < b" "\<And>x. x \<in> set bs \<Longrightarrow> k < x \<Longrightarrow> b \<le> x"
  shows "pred_bucket b bs = k"
proof -
  have "0 < b" using ring_sorted(3) [OF assms(1,2)] assms(3) by simp
  note p = pred_bucket_spec [OF assms(1) this]
  have "k \<le> pred_bucket b bs" using p(3) assms(2,3) .
  moreover have "\<not> k < pred_bucket b bs" using p(1,2) assms(4) [of "pred_bucket b bs"] ring_sorted(3) [OF assms(1,2)] by auto
  ultimately show ?thesis by simp
qed

lemma linkhead_ok:
  assumes "ring s bs" "0 < b" "b < N_max" "b \<notin> set bs"
  shows "\<exists>s'. linkhead b (pred_bucket b bs) s = Some s' \<and> ring s' (put_bucket b bs) \<and>
    s' = s\<lparr>ss_Left := ss_Left s', ss_Right := ss_Right s'\<rparr>"
proof -
  let ?xs = "filter (\<lambda>x. x < b) bs" and ?ys = "filter (\<lambda>x. b < x) bs" and ?j = "pred_bucket b bs"
  have split: "?xs @ ?ys = bs" using sorted_split ring_sorted(1) [OF assms(1)] assms(4) by blast
  have put: "put_bucket b bs = ?xs @ b # ?ys" using assms(4) by (simp add: put_bucket_def)
  let ?r = "ss_Right s ?j"
  have seg: "dseg (ss_Right s) (ss_Left s) 0 (?xs @ ?ys) N_max" using assms(1) split by (simp add: ring_def)
  have dist: "distinct (0 # ?xs @ ?ys @ [N_max, b])"
    using ring_sorted(2) [OF assms(1)] assms(2-4) by (subst (asm) split [symmetric]) auto
  note dl = dseg_link [OF seg dist pred_bucket_def refl]
  have "?r \<in> set (?ys @ [N_max])" unfolding dl(1) by (rule hd_in_set) simp
  then have r: "0 \<le> ?r" "?r \<le> N_max" "?r \<noteq> b" using ring_sorted(3,4) [OF assms(1)] assms(2,3) by fastforce+
  have j: "0 \<le> ?j" "?j \<le> N_max" "?j \<noteq> b" using pred_bucket_spec [OF assms(1,2)] assms(3) by fastforce+
  let ?s = "s\<lparr>ss_Left := (ss_Left s)(b := ?j, ?r := b), ss_Right := (ss_Right s)(b := ?r, ?j := b)\<rparr>"
  have run: "linkhead b ?j s = Some ?s" using assms(2,3) j r by (simp add: linkhead_def Let_def)
  have "sorted_wrt (<) (0 # put_bucket b bs @ [N_max])"
    using assms(2,3) ring_sorted(1,3,4) [OF assms(1)] unfolding put
    by (fastforce simp: sorted_wrt_append sorted_wrt_filter)
  then have "ring ?s (put_bucket b bs)" using dl(2) by (simp add: ring_def put del: fun_upd_apply)
  then show ?thesis using run by auto
qed

lemma near_bucket_Some:
  "near_bucket heads lim j = Some k \<Longrightarrow>
     0 < k \<and> lim < k \<and> k \<le> j \<and> heads k \<noteq> 0 \<and> (\<forall>m. k < m \<and> m \<le> j \<longrightarrow> heads m = 0)"
proof (induction heads lim j rule: near_bucket.induct)
  case (1 heads lim j)
  show ?case
  proof (cases "0 < j \<and> lim < j \<and> heads j = 0")
    case True
    then have "near_bucket heads lim (j - 1) = Some k" using 1(2) by (simp add: near_bucket.simps [of heads lim j])
    with 1(1) True have IH: "0 < k \<and> lim < k \<and> k \<le> j - 1 \<and> heads k \<noteq> 0 \<and> (\<forall>m. k < m \<and> m \<le> j - 1 \<longrightarrow> heads m = 0)" by blast
    moreover have "heads m = 0" if "k < m" "m \<le> j" for m
      using IH that True by (cases "m = j") auto
    ultimately show ?thesis by auto
  next
    case False
    then show ?thesis using 1(2) by (auto simp: near_bucket.simps [of heads lim j] split: if_splits)
  qed
qed

lemma near_bucket_None:
  "near_bucket heads lim j = None \<Longrightarrow> 0 < m \<Longrightarrow> lim < m \<Longrightarrow> m \<le> j \<Longrightarrow> heads m = 0"
proof (induction heads lim j rule: near_bucket.induct)
  case (1 heads lim j)
  then have j: "0 < j" "lim < j" by auto
  then have z: "heads j = 0" "near_bucket heads lim (j - 1) = None"
    using 1(2) by (auto simp: near_bucket.simps [of heads lim j] split: if_splits)
  show ?case
  proof (cases "m = j")
    case False
    then show ?thesis using 1(1) j z 1(3-5) by simp
  qed (simp add: z)
qed

lemma link_ok:
  assumes r: "ring s bs" and c: "chains s bs els" and i: "i \<notin> elems els" "1 \<le> i" "i \<le> M_max + 2"
    and b: "ss_sum s i = b" "0 < b" "b < N_max"
    and ww: "b \<notin> set bs \<Longrightarrow> ww = pred_bucket b bs \<or> b - 10 < pred_bucket b bs \<and> 0 < pred_bucket b bs"
  shows "\<exists>s'. link i ww s = Some s' \<and> ring s' (put_bucket b bs) \<and> chains s' (put_bucket b bs) (els(b := i # els b)) \<and>
    s' = s\<lparr>ss_tot := ss_tot s + 1, ss_Next := ss_Next s', ss_last := ss_last s', ss_head := ss_head s',
           ss_Left := ss_Left s', ss_Right := ss_Right s'\<rparr>"
proof -
  let ?n = "ss_head s b"
  let ?last = "(if ?n \<noteq> 0 then (ss_last s)(?n := i) else ss_last s)(i := 0)"
  let ?s = "s\<lparr>ss_tot := ss_tot s + 1, ss_Next := (ss_Next s)(i := ?n), ss_last := ?last, ss_head := (ss_head s)(b := i)\<rparr>"
  have dc: "dchain (ss_Next s) (ss_last s) 0 ?n (els b)" using chainsD(1) [OF c] b by simp
  have ni: "i \<notin> set (els v)" for v using i(1) mem_elems [of i els v] by auto
  have nmem: "?n \<noteq> 0 \<Longrightarrow> ?n \<in> set (els b)" using dc by (cases "els b") auto
  then have n: "?n \<noteq> 0 \<Longrightarrow> 1 \<le> ?n \<and> ?n \<le> M_max + 2" using chainsD(3) [OF c] by blast
  have chs: "dchain (ss_Next ?s) (ss_last ?s) 0 (ss_head ?s v) ((els(b := i # els b)) v)" if v: "0 \<le> v" "v \<le> N_max" for v
  proof (cases "v = b")
    case True
    then show ?thesis using dchain_push [OF dc ni [of b]] i(2) by (simp del: fun_upd_apply)
  next
    case False
    have "?n \<noteq> 0 \<Longrightarrow> ?n \<notin> set (els v)" using chainsD(3) [OF c] nmem False by blast
    then show ?thesis using chainsD(1) [OF c v] False ni [of v] by (auto simp del: fun_upd_apply)
  qed
  have c': "chains (?s\<lparr>ss_Left := lf, ss_Right := rt\<rparr>) (put_bucket b bs) (els(b := i # els b))" for lf rt
  proof (rule chainsI)
    show "((els(b := i # els b)) v \<noteq> []) = (v \<in> set (put_bucket b bs))" for v using chainsD(2) [OF c] by simp
    show "1 \<le> k \<and> k \<le> M_max + 2 \<and> ss_sum (?s\<lparr>ss_Left := lf, ss_Right := rt\<rparr>) k = v" if "k \<in> set ((els(b := i # els b)) v)" for k v
      using that chainsD(3) [OF c] i b by (auto split: if_splits)
  qed (use chs in simp)
  have r': "ring ?s bs" using r by (simp add: ring_def)
  have pre: "link i ww s = (if ?n = 0 then case near_bucket (ss_head ?s) (b - 10) (b - 1) of
      Some j \<Rightarrow> linkhead b j ?s | None \<Rightarrow> linkhead b ww ?s else Some ?s)"
    using i(2,3) b n
    by (cases "?n = 0"; cases "near_bucket ((ss_head s)(b := i)) (b - 10) (b - 1)")
       (simp_all add: link_def Let_def del: fun_upd_apply)
  show ?thesis
  proof (cases "?n = 0")
    case False
    then have "b \<in> set bs" using head_zero [OF c] b by simp
    then have put: "put_bucket b bs = bs" by (simp add: put_bucket_def)
    have "?s\<lparr>ss_Left := ss_Left ?s, ss_Right := ss_Right ?s\<rparr> = ?s" by simp
    then have "chains ?s bs (els(b := i # els b))"
      using c' [where lf = "ss_Left ?s" and rt = "ss_Right ?s"] by (simp only: put)
    then show ?thesis using pre False r' put by (auto simp del: fun_upd_apply)
  next
    case True
    then have nb: "b \<notin> set bs" using head_zero [OF c] b by simp
    have hz: "ss_head ?s k = 0 \<longleftrightarrow> k \<notin> set bs" if "0 < k" "k < b" for k
      using head_zero [OF c, of k] that b by simp
    note p = pred_bucket_spec [OF r b(2)]
    have "link i ww s = linkhead b (pred_bucket b bs) ?s"
    proof (cases "near_bucket (ss_head ?s) (b - 10) (b - 1)")
      case None
      have "\<not> (b - 10 < pred_bucket b bs \<and> 0 < pred_bucket b bs)"
        using near_bucket_None [OF None, of "pred_bucket b bs"] p(1,2) hz [of "pred_bucket b bs"] by (auto simp del: fun_upd_apply)
      then have "ww = pred_bucket b bs" using ww [OF nb] by blast
      then show ?thesis using pre True None by (simp del: fun_upd_apply)
    next
      case (Some k)
      note k = near_bucket_Some [OF Some]
      have "pred_bucket b bs = k"
      proof (rule pred_bucketI [OF r])
        show "k \<in> set bs" "k < b" using k hz [of k] by auto
        show "b \<le> x" if "x \<in> set bs" "k < x" for x using k hz [of x] that by (cases "x < b") auto
      qed
      then show ?thesis using pre True Some by (simp del: fun_upd_apply)
    qed
    moreover from linkhead_ok [OF r' b(2,3) nb] obtain s' where s': "linkhead b (pred_bucket b bs) ?s = Some s'"
      "ring s' (put_bucket b bs)" "s' = ?s\<lparr>ss_Left := ss_Left s', ss_Right := ss_Right s'\<rparr>" by blast
    moreover have "chains s' (put_bucket b bs) (els(b := i # els b))"
      using c' [where lf = "ss_Left s'" and rt = "ss_Right s'"] s'(3) by argo
    moreover have "s' = s\<lparr>ss_tot := ss_tot s + 1, ss_Next := ss_Next s', ss_last := ss_last s', ss_head := ss_head s',
           ss_Left := ss_Left s', ss_Right := ss_Right s'\<rparr>" by (subst s'(3), subst (1 2 3) s'(3)) simp
    ultimately show ?thesis by auto
  qed
qed

lemma cuthead_ok:
  assumes "ring s bs" "b \<in> set bs"
  shows "\<exists>s'. cuthead b s = Some s' \<and> ring s' (remove1 b bs) \<and> s' = s\<lparr>ss_Left := ss_Left s', ss_Right := ss_Right s'\<rparr>"
proof -
  note R = ring_sorted [OF assms(1)]
  obtain xs ys where bs: "bs = xs @ b # ys" "b \<notin> set xs" using assms(2) by (meson split_list_first)
  then have rem: "remove1 b bs = xs @ ys" by (simp add: remove1_append)
  have seg: "dseg (ss_Right s) (ss_Left s) 0 (xs @ b # ys) N_max" using assms(1) bs by (simp add: ring_def)
  have dist: "distinct (0 # xs @ b # ys @ [N_max])" using R(2) bs by simp
  note dc = dseg_cut [OF seg dist]
  have "ss_Left s b \<in> set (0 # xs)" unfolding dc(1) by (rule last_in_set) simp
  then have l: "0 \<le> ss_Left s b" "ss_Left s b \<le> N_max" using R(3,4) bs by fastforce+
  have "ss_Right s b \<in> set (ys @ [N_max])" unfolding dc(2) by (rule hd_in_set) simp
  then have r: "0 \<le> ss_Right s b" "ss_Right s b \<le> N_max" using R(3,4) bs by fastforce+
  let ?s = "s\<lparr>ss_Right := (ss_Right s)(ss_Left s b := ss_Right s b), ss_Left := (ss_Left s)(ss_Right s b := ss_Left s b)\<rparr>"
  have run: "cuthead b s = Some ?s" using R(3) [OF assms(2)] l r by (simp add: cuthead_def Let_def)
  have "sorted_wrt (<) (0 # (xs @ ys) @ [N_max])" using assms(1) bs by (auto simp: ring_def sorted_wrt_append)
  then have "ring ?s (remove1 b bs)" using dc(3) by (simp add: ring_def rem del: fun_upd_apply)
  then show ?thesis using run by auto
qed

lemma cut_ok:
  assumes r: "ring s bs" and c: "chains s bs els" and i: "i \<in> set (els b)"
  shows "\<exists>s'. cut i s = Some s' \<and> ring s' (if els b = [i] then remove1 b bs else bs) \<and>
    chains s' (if els b = [i] then remove1 b bs else bs) (els(b := remove1 i (els b))) \<and>
    s' = s\<lparr>ss_tot := ss_tot s - 1, ss_Next := ss_Next s', ss_last := ss_last s', ss_head := ss_head s',
           ss_Left := ss_Left s', ss_Right := ss_Right s'\<rparr>"
proof -
  note ci = chainsD(3) [OF c i]
  have bm: "b \<in> set bs" using chainsD(2) [OF c, of b] i by auto
  then have b: "0 < b" "b < N_max" using ring_sorted(3) [OF r] by auto
  then have d: "dchain (ss_Next s) (ss_last s) 0 (ss_head s b) (els b)" using chainsD(1) [OF c] by simp
  obtain as cs where el: "els b = as @ i # cs" "i \<notin> set as" using i by (meson split_list_first)
  then have rem: "remove1 i (els b) = as @ cs" by (simp add: remove1_append)
  have nz: "0 \<notin> set (els b)" using chain_nz [OF dchain_chain [OF d]] .
  let ?nx = "cut_nx (ss_Next s) (ss_last s) i" and ?pv = "cut_pv (ss_Next s) (ss_last s) i"
  let ?h = "(ss_head s)(b := (if ss_head s b = i then ss_Next s i else ss_head s b))"
  have dc: "dchain ?nx ?pv 0 (?h b) (as @ cs)" using dchain_cut [of "ss_Next s" "ss_last s" "ss_head s b" as i cs] d el by simp
  have l: "ss_last s i \<noteq> 0 \<Longrightarrow> ss_last s i \<in> set (els b)" using dchain_pv_first [of "ss_Next s" "ss_last s" 0 "ss_head s b" as i cs] d el
    by (auto split: if_splits)
  have n: "ss_Next s i \<noteq> 0 \<Longrightarrow> ss_Next s i \<in> set (els b)" using dchain_nx_next [of "ss_Next s" "ss_last s" 0 "ss_head s b" as i cs] d el
    by (auto split: list.splits)
  have lk: "ss_last s i \<noteq> 0 \<Longrightarrow> chk elem_len (ss_last s i) = Some ()" using chainsD(3) [OF c l] by simp
  have nk: "ss_Next s i \<noteq> 0 \<Longrightarrow> chk elem_len (ss_Next s i) = Some ()" using chainsD(3) [OF c n] by simp
  have hz: "?h b = 0 \<longleftrightarrow> els b = [i]" 
  proof -
    have "?h b = 0 \<longleftrightarrow> as @ cs = []" using dc by (cases "as @ cs") auto
    then show ?thesis using el by (cases as) auto
  qed
  let ?bs = "if els b = [i] then remove1 b bs else bs"
  let ?mid = "s\<lparr>ss_tot := ss_tot s - 1, ss_head := ?h\<rparr>"
  let ?s0 = "s\<lparr>ss_tot := ss_tot s - 1\<rparr>"
  have "ring ?mid bs" using r by (simp add: ring_def)
  then obtain t where t: "(if ss_head ?mid b = 0 then cuthead b ?mid else Some ?mid) = Some t" "ring t ?bs"
    "t = ?mid\<lparr>ss_Left := ss_Left t, ss_Right := ss_Right t\<rparr>"
    using cuthead_ok [of ?mid bs b] bm hz by (cases "els b = [i]") (auto simp del: fun_upd_apply)
  let ?t = "t\<lparr>ss_Next := ?nx, ss_last := ?pv\<rparr>"
  have tf: "ss_last t = ss_last s" "ss_Next t = ss_Next s" "ss_sum t = ss_sum s" "ss_head t = ?h"
    by (subst t(3), simp)+
  have "cut i s = do {
      s \<leftarrow> (if ss_head ?mid b = 0 then cuthead b ?mid else Some ?mid);
      let t1 = ss_last s i;
      let t2 = ss_Next s i;
      s \<leftarrow> (if t1 \<noteq> 0 then do { chk elem_len t1; Some (s\<lparr>ss_Next := (ss_Next s)(t1 := t2)\<rparr>) } else Some s);
      if t2 \<noteq> 0 then do { chk elem_len t2; Some (s\<lparr>ss_last := (ss_last s)(t2 := t1)\<rparr>) } else Some s
    }"
  proof (cases "ss_head s b = i")
    case True
    then show ?thesis using ci b by (simp add: cut_def Let_def)
  next
    case False
    then have eq: "?mid = ?s0" by simp
    show ?thesis unfolding eq using ci b False by (simp add: cut_def Let_def del: fun_upd_apply)
  qed
  then have run: "cut i s = Some ?t"
    unfolding t(1) using lk nk
    by (cases "ss_last s i = 0"; cases "ss_Next s i = 0") (simp_all add: tf Let_def cut_nx_def cut_pv_def del: fun_upd_apply)
  have "chains ?t ?bs (els(b := as @ cs))"
  proof (rule chainsI)
    fix v
    show "dchain (ss_Next ?t) (ss_last ?t) 0 (ss_head ?t v) ((els(b := as @ cs)) v)" if v: "0 \<le> v" "v \<le> N_max"
    proof (cases "v = b")
      case False
      have "x \<notin> set (els b)" if "x \<in> set (els v)" for x
        using chainsD(3) [OF c that] chainsD(3) [OF c, of x b] False by auto
      then have "set (els v) \<inter> set (as @ i # cs) = {}" unfolding el(1) by blast
      then show ?thesis
        using dchain_cut_other [of "ss_Next s" "ss_last s" "ss_head s b" as i cs "ss_head s v" "els v"] d el(1)
          chainsD(1) [OF c v] False by (simp add: tf)
    qed (use dc in \<open>simp add: tf del: fun_upd_apply\<close>)
    have "v \<in> set ?bs \<longleftrightarrow> v \<in> set bs \<and> (els b = [i] \<longrightarrow> v \<noteq> b)"
      using ring_sorted(2) [OF r] by auto
    moreover have "els b = [i] \<longleftrightarrow> as = [] \<and> cs = []" unfolding el(1) by (cases as) auto
    ultimately show "((els(b := as @ cs)) v \<noteq> []) = (v \<in> set ?bs)"
      using chainsD(2) [OF c, of v] el(1) bm by (cases "v = b") auto
    show "1 \<le> k \<and> k \<le> M_max + 2 \<and> ss_sum ?t k = v" if "k \<in> set ((els(b := as @ cs)) v)" for k
      using that chainsD(3) [OF c, of k v] el by (auto simp: tf split: if_splits)
  qed
  moreover have "ring ?t ?bs" using t(2) by (simp add: ring_def)
  moreover have "?t = s\<lparr>ss_tot := ss_tot s - 1, ss_Next := ss_Next ?t, ss_last := ss_last ?t, ss_head := ss_head ?t,
           ss_Left := ss_Left ?t, ss_Right := ss_Right ?t\<rparr>" by (subst (1 4) t(3)) (simp add: tf del: fun_upd_apply)
  ultimately show ?thesis using run by (auto simp: rem simp del: fun_upd_apply)
qed

end
