(* ===== verification/Counter_Spec.thy ===== *)
theory Counter_Spec
  imports Flow_Key
begin

text \<open>
  What the top-k detection promises, without its data structures: at most \<open>K\<close> counters; a flow that has one
  is counted; a new flow takes a free counter, or else replaces one of the least counters and starts
  one above it. The lemmas give the bounds that follow for every stream of flows.
\<close>

section \<open>The abstract algorithm\<close>

type_synonym counts = "tuple_3_t \<rightharpoonup> nat"

definition least_counter :: "counts \<Rightarrow> tuple_3_t \<Rightarrow> nat \<Rightarrow> bool" where
  "least_counter c t n \<longleftrightarrow> c t = Some n \<and> (\<forall>m \<in> ran c. n \<le> m)"

inductive count_step :: "nat \<Rightarrow> counts \<Rightarrow> tuple_3_t \<Rightarrow> counts \<Rightarrow> bool" for K where
  count_again: "c t = Some n \<Longrightarrow> count_step K c t (c(t \<mapsto> n + 1))"
| count_new: "c t = None \<Longrightarrow> card (dom c) < K \<Longrightarrow> count_step K c t (c(t \<mapsto> 1))"
| count_replace: "c t = None \<Longrightarrow> K \<le> card (dom c) \<Longrightarrow> least_counter c e n \<Longrightarrow>
    count_step K c t ((c(t \<mapsto> n + 1))(e := None))"

inductive_cases count_stepE: "count_step K c t c'"

inductive count_run :: "nat \<Rightarrow> tuple_3_t list \<Rightarrow> counts \<Rightarrow> bool" for K where
  run_nil: "count_run K [] Map.empty"
| run_snoc: "count_run K ts c \<Longrightarrow> count_step K c t c' \<Longrightarrow> count_run K (ts @ [t]) c'"

section \<open>The bounds\<close>

text \<open>
  The invariant of a run over the stream \<open>ts\<close>: the counters sum up to the length of the stream; a counter
  is at least the flow's frequency and at most the least counter above it; as long as there is a free
  counter, they are exact; a flow without a counter is no more frequent than any counter.
\<close>

definition counts_ok :: "nat \<Rightarrow> tuple_3_t list \<Rightarrow> counts \<Rightarrow> bool" where
  "counts_ok K ts c \<longleftrightarrow>
     finite (dom c) \<and> card (dom c) \<le> K \<and> (\<Sum>t \<in> dom c. the (c t)) = length ts \<and>
     (\<forall>t n. c t = Some n \<longrightarrow> 0 < n \<and> count_list ts t \<le> n \<and> (\<forall>m \<in> ran c. n \<le> count_list ts t + m)) \<and>
     (\<forall>t. c t = None \<longrightarrow> (if card (dom c) < K then count_list ts t = 0 else \<forall>m \<in> ran c. count_list ts t \<le> m)) \<and>
     (card (dom c) < K \<longrightarrow> (\<forall>t n. c t = Some n \<longrightarrow> n = count_list ts t))"

lemma counts_okD:
  assumes "counts_ok K ts c"
  shows "finite (dom c)" "card (dom c) \<le> K" "(\<Sum>t \<in> dom c. the (c t)) = length ts"
    "c t = Some n \<Longrightarrow> 0 < n" "c t = Some n \<Longrightarrow> count_list ts t \<le> n"
    "c t = Some n \<Longrightarrow> m \<in> ran c \<Longrightarrow> n \<le> count_list ts t + m"
    "c t = None \<Longrightarrow> card (dom c) < K \<Longrightarrow> count_list ts t = 0"
    "c t = None \<Longrightarrow> \<not> card (dom c) < K \<Longrightarrow> m \<in> ran c \<Longrightarrow> count_list ts t \<le> m"
    "card (dom c) < K \<Longrightarrow> c t = Some n \<Longrightarrow> n = count_list ts t"
  using assms unfolding counts_ok_def by (auto split: if_splits)

lemma counts_okI:
  assumes "finite (dom c)" "card (dom c) \<le> K" "(\<Sum>t \<in> dom c. the (c t)) = length ts"
    "\<And>t n. c t = Some n \<Longrightarrow> 0 < n \<and> count_list ts t \<le> n \<and> (\<forall>m \<in> ran c. n \<le> count_list ts t + m)"
    "\<And>t. c t = None \<Longrightarrow> if card (dom c) < K then count_list ts t = 0 else \<forall>m \<in> ran c. count_list ts t \<le> m"
    "\<And>t n. card (dom c) < K \<Longrightarrow> c t = Some n \<Longrightarrow> n = count_list ts t"
  shows "counts_ok K ts c"
  using assms unfolding counts_ok_def by blast

lemma sum_dom_upd:
  fixes c :: "'k \<rightharpoonup> nat"
  assumes "finite (dom c)"
  shows "(\<Sum>t \<in> dom (c(k \<mapsto> n)). the ((c(k \<mapsto> n)) t)) + (case c k of None \<Rightarrow> 0 | Some m \<Rightarrow> m) = (\<Sum>t \<in> dom c. the (c t)) + n"
proof -
  have rest: "(\<Sum>t \<in> dom c - {k}. the ((c(k \<mapsto> n)) t)) = (\<Sum>t \<in> dom c - {k}. the (c t))"
    by (rule sum.cong) auto
  have "(\<Sum>t \<in> dom (c(k \<mapsto> n)). the ((c(k \<mapsto> n)) t)) = n + (\<Sum>t \<in> dom c - {k}. the (c t))"
    using assms rest by (simp add: sum.insert_remove)
  moreover have "(\<Sum>t \<in> dom c. the (c t)) = (case c k of None \<Rightarrow> 0 | Some m \<Rightarrow> m) + (\<Sum>t \<in> dom c - {k}. the (c t))"
  proof (cases "c k")
    case None
    then have "k \<notin> dom c" by auto
    then show ?thesis using None by simp
  next
    case (Some m)
    then have "k \<in> dom c" by auto
    then show ?thesis using Some assms by (simp add: sum.remove)
  qed
  ultimately show ?thesis by simp
qed

lemma sum_dom_drop:
  fixes c :: "'k \<rightharpoonup> nat"
  assumes "finite (dom c)" "c k = Some m"
  shows "(\<Sum>t \<in> dom (c(k := None)). the ((c(k := None)) t)) + m = (\<Sum>t \<in> dom c. the (c t))"
proof -
  have "(\<Sum>t \<in> dom (c(k := None)). the ((c(k := None)) t)) = (\<Sum>t \<in> dom c - {k}. the (c t))"
    by (rule sum.cong) auto
  moreover have "k \<in> dom c" using assms(2) by auto
  ultimately show ?thesis using assms by (simp add: sum.remove)
qed

lemma ran_upd_Some: "m \<in> ran (c(t \<mapsto> n)) \<Longrightarrow> m = n \<or> m \<in> ran c"
  by (auto simp: ran_def split: if_splits)

lemma ran_drop: "m \<in> ran (c(t := None)) \<Longrightarrow> m \<in> ran c"
  by (auto simp: ran_def split: if_splits)

lemma ranI_Some: "c t = Some n \<Longrightarrow> n \<in> ran c"
  by (auto simp: ran_def)

declare count_list_append [simp del]

lemma count_list_snoc [simp]: "count_list (ts @ [t]) u = count_list ts u + (if u = t then 1 else 0)"
  by (simp add: count_list_append)

lemma counts_ok_again:
  assumes "counts_ok K ts c" "c t = Some n"
  shows "counts_ok K (ts @ [t]) (c(t \<mapsto> n + 1))"
proof -
  note I = counts_okD [OF assms(1)]
  have dom: "dom (c(t \<mapsto> n + 1)) = dom c" using assms(2) by auto
  have ran: "\<exists>m' \<in> ran c. m' \<le> m" if "m \<in> ran (c(t \<mapsto> n + 1))" for m
    using ran_upd_Some [OF that] ranI_Some [of c t n, OF assms(2)] by (force intro: bexI [of _ n])
  have 1: "(\<Sum>u \<in> dom (c(t \<mapsto> n + 1)). the ((c(t \<mapsto> n + 1)) u)) = length (ts @ [t])"
    using sum_dom_upd [OF I(1), of t "n + 1"] I(3) assms(2) by simp
  have 2: "0 < k \<and> count_list (ts @ [t]) u \<le> k \<and> (\<forall>m \<in> ran (c(t \<mapsto> n + 1)). k \<le> count_list (ts @ [t]) u + m)"
    if k: "(c(t \<mapsto> n + 1)) u = Some k" for u k
  proof (cases "u = t")
    case True
    then show ?thesis using k I(4,5,6) [OF assms(2)] ran by fastforce
  next
    case False
    then show ?thesis using k I(4,5,6) [of u k] ran by fastforce
  qed
  have 3: "if card (dom c) < K then count_list (ts @ [t]) u = 0 else \<forall>m \<in> ran (c(t \<mapsto> n + 1)). count_list (ts @ [t]) u \<le> m"
    if "(c(t \<mapsto> n + 1)) u = None" for u
  proof -
    have "u \<noteq> t" "c u = None" using that by (auto split: if_splits)
    then show ?thesis using I(7,8) [of u] ran by fastforce
  qed
  have 4: "k = count_list (ts @ [t]) u" if "card (dom c) < K" "(c(t \<mapsto> n + 1)) u = Some k" for u k
    using I(9) [OF that(1)] assms(2) that(2) by (cases "u = t") auto
  show ?thesis
    by (rule counts_okI, unfold dom) (rule I(1), rule I(2), rule 1 [unfolded dom], erule 2, erule 3, rule 4)
qed

lemma counts_ok_new:
  assumes "counts_ok K ts c" "c t = None" "card (dom c) < K"
  shows "counts_ok K (ts @ [t]) (c(t \<mapsto> 1))"
proof -
  note I = counts_okD [OF assms(1)]
  have exact: "c u = Some n \<Longrightarrow> n = count_list ts u" "c u = None \<Longrightarrow> count_list ts u = 0" for u n
    using I(7,9) assms(3) by auto
  have 1: "(\<Sum>u \<in> dom (c(t \<mapsto> 1)). the ((c(t \<mapsto> 1)) u)) = length (ts @ [t])"
    using sum_dom_upd [OF I(1), of t 1] I(3) assms(2) by simp
  have 2: "k = count_list (ts @ [t]) u \<and> 0 < k" if "(c(t \<mapsto> 1)) u = Some k" for u k
    using that exact [of u] I(4) [of u k] assms(2) by (auto split: if_splits)
  have 3: "count_list (ts @ [t]) u = 0" if "(c(t \<mapsto> 1)) u = None" for u
    using that exact [of u] by (auto split: if_splits)
  have card: "card (dom (c(t \<mapsto> 1))) = Suc (card (dom c))" using assms(2) I(1) by (simp add: domIff)
  show ?thesis
  proof (rule counts_okI)
    show "finite (dom (c(t \<mapsto> 1)))" "card (dom (c(t \<mapsto> 1))) \<le> K" using I(1) card assms(3) by simp_all
    show "0 < k \<and> count_list (ts @ [t]) u \<le> k \<and> (\<forall>m \<in> ran (c(t \<mapsto> 1)). k \<le> count_list (ts @ [t]) u + m)"
      if "(c(t \<mapsto> 1)) u = Some k" for u k
    proof -
      from 2 [OF that] have "k = count_list (ts @ [t]) u" "0 < k" by (rule conjunct1, rule conjunct2)
      then show ?thesis by auto
    qed
    show "if card (dom (c(t \<mapsto> 1))) < K then count_list (ts @ [t]) u = 0 else \<forall>m \<in> ran (c(t \<mapsto> 1)). count_list (ts @ [t]) u \<le> m"
      if "(c(t \<mapsto> 1)) u = None" for u using 3 [OF that] by simp
    show "k = count_list (ts @ [t]) u" if "(c(t \<mapsto> 1)) u = Some k" for u k using 2 [OF that] by simp
  qed (rule 1)
qed

lemma counts_ok_replace:
  assumes "counts_ok K ts c" "c t = None" "K \<le> card (dom c)" "least_counter c e n"
  shows "counts_ok K (ts @ [t]) ((c(t \<mapsto> n + 1))(e := None))" (is "counts_ok K _ ?c'")
proof -
  note I = counts_okD [OF assms(1)]
  have e: "c e = Some n" "\<And>m. m \<in> ran c \<Longrightarrow> n \<le> m" using assms(4) by (auto simp: least_counter_def)
  then have ne: "e \<noteq> t" using assms(2) by auto
  have full: "card (dom c) = K" using I(2) assms(3) by simp
  have "card (dom ?c') = card (insert t (dom c - {e}))" using ne by (intro arg_cong [of _ _ card]) auto
  also have "\<dots> = Suc (card (dom c - {e}))" using I(1) assms(2) by (subst card_insert_disjoint) auto
  also have "\<dots> = card (dom c)" using I(1) e(1) by (intro card_Suc_Diff1) auto
  finally have card: "card (dom ?c') = K" using full by simp
  have ran: "m \<in> ran ?c' \<Longrightarrow> m = n + 1 \<or> m \<in> ran c" for m using ran_upd_Some ran_drop by metis
  then have least: "m \<in> ran ?c' \<Longrightarrow> n \<le> m" for m using e(2) by fastforce
  have 1: "(\<Sum>u \<in> dom ?c'. the (?c' u)) = length (ts @ [t])"
  proof -
    have "(\<Sum>u \<in> dom ?c'. the (?c' u)) + n = (\<Sum>u \<in> dom (c(t \<mapsto> n + 1)). the ((c(t \<mapsto> n + 1)) u))"
      by (rule sum_dom_drop) (use I(1) e(1) ne in auto)
    then show ?thesis using sum_dom_upd [OF I(1), of t "n + 1"] I(3) assms(2) by simp
  qed
  have bound: "n \<in> ran c" using ranI_Some [of c e n] e(1) by simp
  have 2: "0 < k \<and> count_list (ts @ [t]) u \<le> k \<and> (\<forall>m \<in> ran ?c'. k \<le> count_list (ts @ [t]) u + m)"
    if k: "?c' u = Some k" for u k
  proof (cases "u = t")
    case True
    have "count_list ts t \<le> n" using I(8) [OF assms(2) _ bound] full by simp
    moreover have "k = n + 1" using True k ne by simp
    moreover have "n \<le> count_list ts t + m" if "m \<in> ran ?c'" for m using least [OF that] by simp
    ultimately show ?thesis using True by auto
  next
    case False
    then have c: "c u = Some k" using k by (auto split: if_splits)
    have "k \<le> count_list ts u + m" if "m \<in> ran ?c'" for m
      using I(6) [OF c bound] least [OF that] by simp
    then show ?thesis using False I(4,5) [OF c] by auto
  qed
  have 3: "count_list (ts @ [t]) u \<le> m" if "?c' u = None" "m \<in> ran ?c'" for u m
  proof -
    have "u \<noteq> t" using that(1) ne by auto
    have "count_list ts u \<le> n"
    proof (cases "u = e")
      case True
      then show ?thesis using I(5) [OF e(1)] by simp
    next
      case False
      then have "c u = None" using that(1) \<open>u \<noteq> t\<close> by (auto split: if_splits)
      then show ?thesis using I(8) [OF _ _ bound] full by simp
    qed
    then show ?thesis using least [OF that(2)] \<open>u \<noteq> t\<close> by simp
  qed
  show ?thesis
  proof (rule counts_okI)
    show "finite (dom ?c')" "card (dom ?c') \<le> K" using I(1) card by simp_all
    show "if card (dom ?c') < K then count_list (ts @ [t]) u = 0 else \<forall>m \<in> ran ?c'. count_list (ts @ [t]) u \<le> m"
      if "?c' u = None" for u using 3 [OF that] unfolding card by simp
    show "k = count_list (ts @ [t]) u" if "card (dom ?c') < K" for u k using that unfolding card by simp
  qed (rule 1, rule 2)
qed

lemma counts_ok_run: "count_run K ts c \<Longrightarrow> counts_ok K ts c"
proof (induction rule: count_run.induct)
  case run_nil
  then show ?case by (simp add: counts_ok_def)
next
  case (run_snoc ts c t c')
  from run_snoc.hyps(2) show ?case
  proof (cases rule: count_step.cases)
    case (count_again n)
    then show ?thesis using counts_ok_again [OF run_snoc.IH] by blast
  next
    case count_new
    then show ?thesis using counts_ok_new [OF run_snoc.IH] by blast
  next
    case (count_replace e n)
    then show ?thesis using counts_ok_replace [OF run_snoc.IH] by blast
  qed
qed

text \<open>With all counters taken, the least one is at most the length of the stream divided by \<open>K\<close>.\<close>

lemma least_bound:
  assumes "counts_ok K ts c" "card (dom c) = K" "\<And>m. m \<in> ran c \<Longrightarrow> n \<le> m"
  shows "n * K \<le> length ts"
proof -
  note I = counts_okD [OF assms(1)]
  have "(\<Sum>t \<in> dom c. n) \<le> (\<Sum>t \<in> dom c. the (c t))"
  proof (rule sum_mono)
    fix t assume "t \<in> dom c"
    then obtain m where "c t = Some m" by blast
    then show "n \<le> the (c t)" using assms(3) [of m] ranI_Some [of c t m] by simp
  qed
  then show ?thesis using I(3) assms(2) by (simp add: mult.commute)
qed

text \<open>
  The guarantee: every flow more frequent than \<open>length ts div K\<close> has a counter, and a counter overestimates
  its flow's frequency by no more than that.
\<close>

lemma count_run_guarantee:
  assumes "count_run K ts c" "0 < K"
  shows "length ts div K < count_list ts t \<Longrightarrow> c t \<noteq> None"
    and "c t = Some n \<Longrightarrow> count_list ts t \<le> n \<and> n \<le> count_list ts t + length ts div K"
proof -
  have ok: "counts_ok K ts c" using counts_ok_run assms(1) .
  note I = counts_okD [OF ok]
  have min: "\<exists>m \<in> ran c. m \<le> length ts div K" if "\<not> card (dom c) < K"
  proof -
    have full: "card (dom c) = K" using that I(2) by simp
    then have "dom c \<noteq> {}" using assms(2) by auto
    then obtain t m where "c t = Some m" by blast
    then have ne: "ran c \<noteq> {}" using ranI_Some [of c t m] by blast
    have fin: "finite (ran c)" using I(1) by (rule finite_ran)
    have "Min (ran c) * K \<le> length ts" using least_bound [OF ok full] fin by simp
    then have "Min (ran c) \<le> length ts div K" using assms(2) by (simp add: less_eq_div_iff_mult_less_eq)
    then show ?thesis using Min_in [OF fin ne] by blast
  qed
  show "c t \<noteq> None" if "length ts div K < count_list ts t"
  proof
    assume none: "c t = None"
    show False
    proof (cases "card (dom c) < K")
      case True
      then show False using I(7) [OF none] that by simp
    next
      case False
      then obtain m where "m \<in> ran c" "m \<le> length ts div K" using min by blast
      then show False using I(8) [OF none False] that by fastforce
    qed
  qed
  show "count_list ts t \<le> n \<and> n \<le> count_list ts t + length ts div K" if "c t = Some n"
  proof (cases "card (dom c) < K")
    case True
    then show ?thesis using I(9) [OF True that] by simp
  next
    case False
    then obtain m where m: "m \<in> ran c" "m \<le> length ts div K" using min by blast
    then show ?thesis using I(5) [OF that] I(6) [OF that m(1)] by simp
  qed
qed

declare count_list_append [simp]

end
