(* ===== verification/Space_Saving.thy ===== *)
theory Space_Saving
  imports Ssummary_Inv Counter_Spec
begin

text \<open>
  The class \<open>spacesaving\<close> of \<open>platform/drivers/top_k/space_saving.cpp\<close>: counting a flow, and the proof
  that the arrays of the stream summary implement the abstract counters.
\<close>

section \<open>The class\<close>

record spacesaving =
  sv_ss :: ssummary
  M2 :: int
  sv_K :: int
  total_pkt :: int
  be_able_to_insert :: bool
  sv_q :: "q_node list"

text \<open>\<open>sv_q\<close> is the part of the array \<open>q\<close> that is in use, so that \<open>CNT\<close> is its length.\<close>

partial_function (option) evict_loop :: "int \<Rightarrow> ssummary \<Rightarrow> ssummary option" where
  "evict_loop m2 s =
     (if ss_tot s > m2 then do {
        let t = ss_Right s 0;
        chk bucket_len t;
        let tmp = ss_head s t;
        s \<leftarrow> cut (ss_head s t) s;
        s \<leftarrow> recycling tmp s;
        evict_loop m2 s
      }
      else Some s)"

definition insert_new :: "int \<Rightarrow> tuple_3_t \<Rightarrow> ssummary \<Rightarrow> ssummary option" where
  "insert_new m2 x s = do {
     let q = (if ss_tot s < m2 then 1 else getmin s + 1);
     (i, s) \<leftarrow> getid s;
     w \<leftarrow> location x;
     s \<leftarrow> add2 w i s;
     let s = s\<lparr>ss_data := (ss_data s)(i := x)\<rparr>;
     let s = s\<lparr>ss_sum := (ss_sum s)(i := q)\<rparr>;
     s \<leftarrow> link i 0 s;
     evict_loop m2 s
   }"

definition insert_again :: "int \<Rightarrow> ssummary \<Rightarrow> ssummary option" where
  "insert_again p s = do {
     chk elem_len p;
     chk bucket_len (ss_sum s p);
     let tmp = ss_Left s (ss_sum s p);
     s \<leftarrow> cut p s;
     let tmp = (if ss_head s (ss_sum s p) \<noteq> 0 then ss_sum s p else tmp);
     let s = s\<lparr>ss_sum := (ss_sum s)(p := ss_sum s p + 1)\<rparr>;
     link p tmp s
   }"

definition Insert :: "tuple_3_t \<Rightarrow> spacesaving \<Rightarrow> spacesaving option" where
  "Insert x S =
     (if \<not> be_able_to_insert S then Some S
      else do {
        let S = S\<lparr>total_pkt := total_pkt S + 1\<rparr>;
        p \<leftarrow> ss_find (sv_ss S) x;
        s \<leftarrow> (if p = 0 then insert_new (M2 S) x (sv_ss S) else insert_again p (sv_ss S));
        Some (S\<lparr>sv_ss := s\<rparr>)
      })"

fun Insert_all :: "tuple_3_t list \<Rightarrow> spacesaving \<Rightarrow> spacesaving option" where
  "Insert_all [] S = Some S"
| "Insert_all (x # xs) S = do { S \<leftarrow> Insert x S; Insert_all xs S }"

section \<open>The invariant of the summary\<close>

definition ss_inv :: "ssummary \<Rightarrow> int list \<Rightarrow> (int \<Rightarrow> int list) \<Rightarrow> (int \<Rightarrow> int list) \<Rightarrow> bool" where
  "ss_inv s bs els hc \<longleftrightarrow>
     ring s bs \<and> chains s bs els \<and> hashed s hc \<and> ids s (elems hc) \<and> elems els = elems hc \<and>
     inj_on (ss_data s) (elems hc) \<and> ss_tot s = int (card (elems hc))"

lemma ss_invD:
  assumes "ss_inv s bs els hc"
  shows "ring s bs" "chains s bs els" "hashed s hc" "ids s (elems hc)" "elems els = elems hc"
    "inj_on (ss_data s) (elems hc)" "ss_tot s = int (card (elems hc))" "finite (elems hc)"
  using assms ids_num(2) unfolding ss_inv_def by blast+

lemma elems_push: "elems (f(b := i # f b)) = insert i (elems f)"
  by (auto simp: elems_def split: if_splits)

lemma elems_remove:
  assumes "\<And>v j. j \<in> set (f v) \<Longrightarrow> key j = v" "distinct (f b)" "i \<in> set (f b)"
  shows "elems (f(b := remove1 i (f b))) = elems f - {i}"
proof -
  have "i \<notin> set (f v)" if "v \<noteq> b" for v using assms(1) [of i v] assms(1) [OF assms(3)] that by auto
  then show ?thesis using assms(2) unfolding elems_upd by (auto simp: elems_def)
qed

lemma elemsE:
  assumes "i \<in> elems f"
  obtains b where "i \<in> set (f b)"
  using assms by (auto simp: elems_def)

lemma els_distinct:
  assumes "ring s bs" "chains s bs els"
  shows "distinct (els b)"
proof (cases "els b = []")
  case False
  then have "0 < b" "b < N_max" using chainsD(2) [OF assms(2)] ring_sorted(3) [OF assms(1)] by auto
  then have "dchain (ss_Next s) (ss_last s) 0 (ss_head s b) (els b)" using chainsD(1) [OF assms(2)] by simp
  then show ?thesis using chain_distinct [OF dchain_chain] by blast
qed simp

lemma bucket_key: "chains s bs els \<Longrightarrow> j \<in> set (els v) \<Longrightarrow> ss_sum s j = v"
  by (simp add: chainsD(3))

lemma hash_key: "hashed s hc \<Longrightarrow> j \<in> set (hc v) \<Longrightarrow> the (location (ss_data s j)) = v"
  by (simp add: hashedD(2))

lemma hc_distinct:
  assumes "hashed s hc"
  shows "distinct (hc w)"
proof (cases "hc w = []")
  case False
  then obtain i where "i \<in> set (hc w)" using last_in_set by blast
  then have "0 \<le> w" "w < len2" using hashedD(3) [OF assms] by auto
  then show ?thesis using chain_distinct [OF hashedD(1) [OF assms]] by blast
qed simp

section \<open>The counters\<close>

lemma counts_in:
  assumes "ss_inv s bs els hc" "i \<in> elems hc"
  shows "ss_counts s (ss_data s i) = Some (nat (ss_sum s i))"
  using ss_counts_iff [OF ss_invD(3,6) [OF assms(1)]] assms(2) by auto

lemma counts_out:
  assumes "ss_inv s bs els hc" "t \<notin> ss_data s ` elems hc"
  shows "ss_counts s t = None"
proof (cases "ss_counts s t")
  case (Some n)
  then show ?thesis using ss_counts_iff [OF ss_invD(3,6) [OF assms(1)], of t n] assms(2) by auto
qed simp

lemma counts_dom:
  assumes "ss_inv s bs els hc"
  shows "dom (ss_counts s) = ss_data s ` elems hc" "int (card (dom (ss_counts s))) = ss_tot s"
proof -
  show dom: "dom (ss_counts s) = ss_data s ` elems hc"
    using counts_in [OF assms] counts_out [OF assms] by (auto simp: dom_def) (metis imageI option.distinct(1))
  show "int (card (dom (ss_counts s))) = ss_tot s"
    unfolding dom using card_image [OF ss_invD(6) [OF assms]] ss_invD(7) [OF assms] by simp
qed

lemma counts_eqI:
  assumes "ss_inv s bs els hc" "\<And>i. i \<in> elems hc \<Longrightarrow> c (ss_data s i) = Some (nat (ss_sum s i))"
    "\<And>t. t \<notin> ss_data s ` elems hc \<Longrightarrow> c t = None"
  shows "ss_counts s = c"
proof
  fix t
  show "ss_counts s t = c t"
    using counts_in [OF assms(1)] counts_out [OF assms(1)] assms(2,3) by (cases "t \<in> ss_data s ` elems hc") auto
qed

text \<open>Counters are the buckets of their elements.\<close>

lemma inv_sum:
  assumes "ss_inv s bs els hc" "i \<in> elems hc"
  shows "i \<in> set (els (ss_sum s i))" "ss_sum s i \<in> set bs" "0 < ss_sum s i" "ss_sum s i < N_max" "1 \<le> i" "i \<le> M_max + 2"
proof -
  note I = ss_invD [OF assms(1)]
  from assms(2) I(5) obtain b where b: "i \<in> set (els b)" by (metis elemsE)
  note c = chainsD(3) [OF I(2) b]
  then show m: "i \<in> set (els (ss_sum s i))" and "1 \<le> i" "i \<le> M_max + 2" using b by auto
  then show "ss_sum s i \<in> set bs" using chainsD(2) [OF I(2), of "ss_sum s i"] by auto
  then show "0 < ss_sum s i" "ss_sum s i < N_max" using ring_sorted(3) [OF I(1)] by auto
qed

section \<open>A flow that has a counter\<close>

lemma insert_again_ok:
  assumes inv: "ss_inv s bs els hc" and p: "p \<in> elems hc" and room: "ss_sum s p + 1 < N_max"
  shows "\<exists>s' bs' els'. insert_again p s = Some s' \<and> ss_inv s' bs' els' hc \<and> ss_K s' = ss_K s \<and>
    ss_sum s' = (ss_sum s)(p := ss_sum s p + 1) \<and> ss_data s' = ss_data s"
proof -
  note I = ss_invD [OF inv]
  let ?b = "ss_sum s p"
  note P = inv_sum [OF inv p]
  obtain t where t: "cut p s = Some t" "ring t (if els ?b = [p] then remove1 ?b bs else bs)"
    "chains t (if els ?b = [p] then remove1 ?b bs else bs) (els(?b := remove1 p (els ?b)))"
    "t = s\<lparr>ss_tot := ss_tot s - 1, ss_Next := ss_Next t, ss_last := ss_last t, ss_head := ss_head t,
           ss_Left := ss_Left t, ss_Right := ss_Right t\<rparr>" using cut_ok [OF I(1,2) P(1)] by blast
  let ?bs = "if els ?b = [p] then remove1 ?b bs else bs" and ?els = "els(?b := remove1 p (els ?b))"
  have tf: "ss_sum t = ss_sum s" "ss_data t = ss_data s" "ss_K t = ss_K s" "ss_tot t = ss_tot s - 1"
    "ss_Next2 t = ss_Next2 s" "ss_head2 t = ss_head2 s" "ss_ID t = ss_ID s" "ss_num t = ss_num s"
    by (subst t(4), simp)+
  have el: "elems ?els = elems hc - {p}"
    using elems_remove [where f = els and key = "ss_sum s" and b = "?b" and i = p, OF bucket_key [OF I(2)] els_distinct [OF I(1,2)] P(1)] I(5)
    by simp
  let ?tmp = "if ss_head t ?b \<noteq> 0 then ?b else ss_Left s ?b"
  let ?u = "t\<lparr>ss_sum := (ss_sum s)(p := ?b + 1)\<rparr>"
  have r: "ring ?u ?bs" using t(2) by (simp add: ring_def)
  have c: "chains ?u ?bs ?els"
  proof (rule chainsI)
    show "1 \<le> k \<and> k \<le> M_max + 2 \<and> ss_sum ?u k = v" if "k \<in> set (?els v)" for k v
    proof -
      have "k \<in> elems hc - {p}" using mem_elems [of k ?els v, OF that] el by simp
      then show ?thesis using chainsD(3) [OF t(3) that] tf by simp
    qed
  qed (use chainsD(1,2) [OF t(3)] in simp_all)
  have ww: "?tmp = pred_bucket (?b + 1) ?bs" if nb: "?b + 1 \<notin> set ?bs"
  proof (cases "els ?b = [p]")
    case False
    then have "?b \<in> set ?bs" using P(2) by simp
    moreover have "ss_head t ?b \<noteq> 0" using head_zero [OF t(3)] P(3,4) \<open>?b \<in> set ?bs\<close> by simp
    ultimately show ?thesis using pred_bucketI [OF r, of ?b "?b + 1"] by simp
  next
    case True
    obtain xs ys where bs: "bs = xs @ ?b # ys" "?b \<notin> set xs" using P(2) by (meson split_list_first)
    then have rem: "remove1 ?b bs = xs @ ys" by (simp add: remove1_append)
    have seg: "dseg (ss_Right s) (ss_Left s) 0 (xs @ ?b # ys) N_max" using I(1) bs by (simp add: ring_def)
    have dist: "distinct (0 # xs @ ?b # ys @ [N_max])" using ring_sorted(2) [OF I(1)] bs by simp
    have so: "\<forall>x \<in> set xs. x < ?b" "\<forall>y \<in> set ys. ?b < y" using ring_sorted(1) [OF I(1)] by (auto simp: bs(1) sorted_wrt_append)
    have "filter (\<lambda>x. x < ?b + 1) xs = xs" "filter (\<lambda>x. x < ?b + 1) ys = []"
      using so by (auto simp: filter_id_conv filter_empty_conv)
    then have "filter (\<lambda>x. x < ?b + 1) (xs @ ys) = xs" unfolding filter_append by simp
    then have "pred_bucket (?b + 1) ?bs = ss_Left s ?b"
      using True dseg_cut(1) [OF seg dist] by (simp add: pred_bucket_def rem)
    moreover have "?b \<notin> set ?bs" using True bs(2) so(2) by (auto simp: rem)
    then have "ss_head t ?b = 0" using head_zero [OF t(3)] P(3,4) by simp
    ultimately show ?thesis by simp
  qed
  have "p \<notin> elems ?els" using el by simp
  from link_ok [OF r c this P(5,6), of "?b + 1" ?tmp] ww room P(3) obtain s' where
    s': "link p ?tmp ?u = Some s'" "ring s' (put_bucket (?b + 1) ?bs)"
      "chains s' (put_bucket (?b + 1) ?bs) (?els(?b + 1 := p # ?els (?b + 1)))"
      "s' = ?u\<lparr>ss_tot := ss_tot ?u + 1, ss_Next := ss_Next s', ss_last := ss_last s', ss_head := ss_head s',
           ss_Left := ss_Left s', ss_Right := ss_Right s'\<rparr>" by auto
  have sf: "ss_sum s' = (ss_sum s)(p := ?b + 1)" "ss_data s' = ss_data s" "ss_K s' = ss_K s" "ss_tot s' = ss_tot s"
    "ss_Next2 s' = ss_Next2 s" "ss_head2 s' = ss_head2 s" "ss_ID s' = ss_ID s" "ss_num s' = ss_num s"
    by (subst s'(4), simp add: tf)+
  have run: "insert_again p s = Some s'"
    using P(3-6) s'(1) 
    by (cases "ss_head t ?b = 0") (simp_all add: insert_again_def t(1) tf Let_def)
  have "elems (?els(?b + 1 := p # ?els (?b + 1))) = elems hc" unfolding elems_push el using p by auto
  then have "ss_inv s' (put_bucket (?b + 1) ?bs) (?els(?b + 1 := p # ?els (?b + 1))) hc"
    using I s'(2,3) by (simp add: ss_inv_def sf hashed_def ids_def)
  with run sf show ?thesis by blast
qed

section \<open>A new flow\<close>

text \<open>An element is taken, filled and linked.\<close>

lemma insert_link_ok:
  assumes inv: "ss_inv s bs els hc" and room: "int (card (elems hc)) < M_max + 2"
    and x: "x \<notin> ss_data s ` elems hc" and q: "0 < q" "q < N_max"
    and ww: "q \<notin> set bs \<Longrightarrow> 0 = pred_bucket q bs \<or> q - 10 < pred_bucket q bs \<and> 0 < pred_bucket q bs"
  shows "\<exists>i s1 w s2 s3. getid s = Some (i, s1) \<and> location x = Some w \<and> add2 w i s1 = Some s2 \<and>
    link i 0 (s2\<lparr>ss_data := (ss_data s2)(i := x), ss_sum := (ss_sum s2)(i := q)\<rparr>) = Some s3 \<and>
    i \<notin> elems hc \<and> ss_inv s3 (put_bucket q bs) (els(q := i # els q)) (hc(w := i # hc w)) \<and> ss_K s3 = ss_K s \<and>
    ss_sum s3 = (ss_sum s)(i := q) \<and> ss_data s3 = (ss_data s)(i := x)"
proof -
  note I = ss_invD [OF inv]
  obtain i s1 where i: "getid s = Some (i, s1)" "1 \<le> i" "i \<le> M_max + 2" "i \<notin> elems hc" "ids s1 (insert i (elems hc))"
    and s1: "s1 = s\<lparr>ss_num := ss_num s - 1, ss_last := (ss_last s)(i := 0), ss_Next := (ss_Next s)(i := 0),
           ss_sum := (ss_sum s)(i := 0), ss_Next2 := (ss_Next2 s)(i := 0)\<rparr>"
    using getid_ok [OF I(4) room] by blast
  have nhc: "i \<notin> set (hc v)" for v using i(4) mem_elems [of i hc v] by auto
  have nel: "i \<notin> set (els v)" for v using i(4) I(5) mem_elems [of i els v] by auto
  have h1: "hashed s1 hc"
  proof (rule hashedI)
    show "chain (ss_Next2 s1) (ss_head2 s1 w) (hc w)" if "0 \<le> w" "w < len2" for w
      using hashedD(1) [OF I(3) that] nhc [of w] by (simp add: s1)
    show "1 \<le> k \<and> k \<le> M_max + 2 \<and> location (ss_data s1 k) = Some w" if "k \<in> set (hc w)" for k w
      using hashedD(2) [OF I(3) that] by (simp add: s1)
  qed
  obtain w where w: "location x = Some w" using location_ok by blast
  obtain s2 where s2: "add2 w i s1 = Some s2" "hashed (s2\<lparr>ss_data := (ss_data s2)(i := x)\<rparr>) (hc(w := i # hc w))"
    and s2eq: "s2 = s1\<lparr>ss_Next2 := ss_Next2 s2, ss_head2 := ss_head2 s2\<rparr>"
    using add2_ok [OF h1 i(4,2,3) w] by blast
  let ?u = "s2\<lparr>ss_data := (ss_data s2)(i := x), ss_sum := (ss_sum s2)(i := q)\<rparr>"
  have f2: "ss_sum s2 = (ss_sum s)(i := 0)" "ss_data s2 = ss_data s" "ss_K s2 = ss_K s" "ss_tot s2 = ss_tot s"
    "ss_Left s2 = ss_Left s" "ss_Right s2 = ss_Right s" "ss_head s2 = ss_head s" "ss_Next s2 = (ss_Next s)(i := 0)"
    "ss_last s2 = (ss_last s)(i := 0)" "ss_ID s2 = ss_ID s1" "ss_num s2 = ss_num s1"
    by (subst s2eq, simp add: s1)+
  have r: "ring ?u bs" using I(1) by (simp add: ring_def f2)
  have c: "chains ?u bs els"
  proof (rule chainsI)
    show "dchain (ss_Next ?u) (ss_last ?u) 0 (ss_head ?u b) (els b)" if "0 \<le> b" "b \<le> N_max" for b
      using chainsD(1) [OF I(2) that] nel [of b] by (simp add: f2)
    show "(els b \<noteq> []) = (b \<in> set bs)" for b using chainsD(2) [OF I(2)] .
    show "1 \<le> k \<and> k \<le> M_max + 2 \<and> ss_sum ?u k = b" if "k \<in> set (els b)" for k b
      using chainsD(3) [OF I(2) that] that nel [of b] by (auto simp: f2)
  qed
  have "i \<notin> elems els" using i(4) I(5) by simp
  from link_ok [OF r c this i(2,3), of q 0] q ww obtain s3 where
    s3: "link i 0 ?u = Some s3" "ring s3 (put_bucket q bs)" "chains s3 (put_bucket q bs) (els(q := i # els q))"
      "s3 = ?u\<lparr>ss_tot := ss_tot ?u + 1, ss_Next := ss_Next s3, ss_last := ss_last s3, ss_head := ss_head s3,
           ss_Left := ss_Left s3, ss_Right := ss_Right s3\<rparr>" by auto
  have f3: "ss_sum s3 = (ss_sum s)(i := q)" "ss_data s3 = (ss_data s)(i := x)" "ss_K s3 = ss_K s" "ss_tot s3 = ss_tot s + 1"
    "ss_Next2 s3 = ss_Next2 s2" "ss_head2 s3 = ss_head2 s2" "ss_ID s3 = ss_ID s1" "ss_num s3 = ss_num s1"
    by (subst s3(4), simp add: f2)+
  have "hashed s3 (hc(w := i # hc w))" using s2(2) by (simp add: hashed_def f3 f2 del: fun_upd_apply)
  moreover have "inj_on (ss_data s3) (elems (hc(w := i # hc w)))"
    using I(6) x i(4) unfolding elems_push f3 by (auto simp: inj_on_def)
  moreover have "ss_tot s3 = int (card (elems (hc(w := i # hc w))))"
    using I(7,8) i(4) unfolding elems_push by (simp add: f3)
  moreover have "ids s3 (elems (hc(w := i # hc w)))" using i(5) unfolding elems_push by (simp add: ids_def f3)
  moreover have "elems (els(q := i # els q)) = elems (hc(w := i # hc w))" unfolding elems_push using I(5) by simp
  ultimately have "ss_inv s3 (put_bucket q bs) (els(q := i # els q)) (hc(w := i # hc w))"
    using s3(2,3) unfolding ss_inv_def by blast
  with i(1,4) w s2(1) s3(1) f3(1-3) show ?thesis by blast
qed

text \<open>The eviction of the first element of the least bucket.\<close>

lemma evict_ok:
  assumes inv: "ss_inv s bs els hc" and full: "ss_tot s = m2 + 1" "0 \<le> m2"
  obtains e s' bs' els' hc' where "evict_loop m2 s = Some s'" "e \<in> elems hc" "\<forall>b \<in> set bs. ss_sum s e \<le> b"
    "ss_inv s' bs' els' hc'" "elems hc' = elems hc - {e}" "ss_K s' = ss_K s" "ss_sum s' = ss_sum s" "ss_data s' = ss_data s"
proof -
  note I = ss_invD [OF inv]
  have "elems els \<noteq> {}" using I(5,7) full by auto
  then obtain b0 where "els b0 \<noteq> []" by (auto simp: elems_def)
  then have "bs \<noteq> []" using chainsD(2) [OF I(2), of b0] by auto
  then obtain m bs0 where bs: "bs = m # bs0" by (cases bs) auto
  have right: "ss_Right s 0 = m" using I(1) by (simp add: ring_def bs)
  have m: "0 < m" "m < N_max" using ring_sorted(3) [OF I(1), of m] by (simp_all add: bs)
  have least: "m \<le> b" if "b \<in> set bs" for b using ring_sorted(1) [OF I(1)] that by (auto simp: bs)
  have "els m \<noteq> []" using chainsD(2) [OF I(2), of m] by (simp add: bs)
  then obtain e es where em: "els m = e # es" by (cases "els m") auto
  have head: "ss_head s m = e" using chainsD(1) [OF I(2), of m] m em by simp
  have ein: "e \<in> set (els m)" by (simp add: em)
  note ce = chainsD(3) [OF I(2) ein]
  obtain t where t: "cut e s = Some t" "ring t (if els m = [e] then remove1 m bs else bs)"
    "chains t (if els m = [e] then remove1 m bs else bs) (els(m := remove1 e (els m)))"
    "t = s\<lparr>ss_tot := ss_tot s - 1, ss_Next := ss_Next t, ss_last := ss_last t, ss_head := ss_head t,
           ss_Left := ss_Left t, ss_Right := ss_Right t\<rparr>" using cut_ok [OF I(1,2) ein] by blast
  let ?bs = "if els m = [e] then remove1 m bs else bs" and ?els = "els(m := remove1 e (els m))"
  have tf: "ss_sum t = ss_sum s" "ss_data t = ss_data s" "ss_K t = ss_K s" "ss_tot t = ss_tot s - 1"
    "ss_Next2 t = ss_Next2 s" "ss_head2 t = ss_head2 s" "ss_ID t = ss_ID s" "ss_num t = ss_num s"
    by (subst t(4), simp)+
  have ehc: "e \<in> elems hc" using mem_elems [of e els m] ein I(5) by simp
  then obtain w where w: "e \<in> set (hc w)" by (rule elemsE)
  have ht: "hashed t hc" using I(3) by (simp add: hashed_def tf)
  have num: "0 \<le> ss_num t" using I(4) by (simp add: ids_def tf)
  note idr = ids_recycle [OF I(4) ehc]
  have "ss_num t < M_max + 2" using idr(2) by (simp add: tf)
  from recycling_ok [OF ht w num this] obtain u where u: "recycling e t = Some u" "hashed u (hc(w := remove1 e (hc w)))"
    "u = t\<lparr>ss_Next2 := ss_Next2 u, ss_head2 := ss_head2 u, ss_num := ss_num t + 1, ss_ID := (ss_ID t)(ss_num t + 1 := e)\<rparr>"
    by blast
  let ?hc = "hc(w := remove1 e (hc w))"
  have uf: "ss_sum u = ss_sum s" "ss_data u = ss_data s" "ss_K u = ss_K s" "ss_tot u = ss_tot s - 1"
    "ss_head u = ss_head t" "ss_Next u = ss_Next t" "ss_last u = ss_last t" "ss_Left u = ss_Left t" "ss_Right u = ss_Right t"
    "ss_num u = ss_num s + 1" "ss_ID u = (ss_ID s)(ss_num s + 1 := e)"
    by (subst u(3), simp add: tf)+
  have hce: "elems ?hc = elems hc - {e}"
    by (rule elems_remove [where key = "\<lambda>j. the (location (ss_data s j))"])
       (use hash_key [OF I(3)] hc_distinct [OF I(3)] w in auto)
  have ele: "elems ?els = elems hc - {e}"
    using elems_remove [where f = els and key = "ss_sum s" and b = m and i = e, OF bucket_key [OF I(2)] els_distinct [OF I(1,2)] ein] I(5)
    by simp
  have "ss_inv u ?bs ?els ?hc"
    unfolding ss_inv_def
  proof (intro conjI)
    show "ring u ?bs" using t(2) by (simp add: ring_def uf)
    show "chains u ?bs ?els" using t(3) by (simp add: chains_def uf tf del: fun_upd_apply)
    show "hashed u ?hc" by (rule u(2))
    show "ids u (elems ?hc)" using idr(1) unfolding hce by (simp add: ids_def uf)
    show "elems ?els = elems ?hc" unfolding hce ele ..
    show "inj_on (ss_data u) (elems ?hc)" using I(6) unfolding hce uf by (rule inj_on_subset) blast
    show "ss_tot u = int (card (elems ?hc))" unfolding hce uf using I(7,8) ehc card_gt_0_iff [of "elems hc"] by (auto simp: of_nat_diff)
  qed
  moreover have "evict_loop m2 s = Some u"
  proof -
    have stop: "evict_loop m2 u = Some u" using full by (simp add: evict_loop.simps [of m2 u] uf)
    show ?thesis using full m by (subst evict_loop.simps) (simp add: right head t(1) u(1) stop)
  qed
  moreover have "\<forall>b \<in> set bs. ss_sum s e \<le> b" using ce least by simp
  ultimately show thesis using that ehc hce uf(1-3) by metis
qed

section \<open>One flow\<close>

lemma insert_again_step:
  assumes inv: "ss_inv s bs els hc" and p: "p \<in> elems hc" and room: "ss_sum s p + 1 < N_max"
  shows "\<exists>s' bs' els'. insert_again p s = Some s' \<and> ss_inv s' bs' els' hc \<and> ss_K s' = ss_K s \<and> ss_tot s' = ss_tot s \<and>
    count_step K (ss_counts s) (ss_data s p) (ss_counts s')"
proof -
  from insert_again_ok [OF assms] obtain s' bs' els' where s': "insert_again p s = Some s'" "ss_inv s' bs' els' hc"
    "ss_K s' = ss_K s" "ss_sum s' = (ss_sum s)(p := ss_sum s p + 1)" "ss_data s' = ss_data s" by blast
  have "ss_counts s' = (ss_counts s)(ss_data s p \<mapsto> nat (ss_sum s p) + 1)"
  proof (rule counts_eqI [OF s'(2)])
    show "((ss_counts s)(ss_data s p \<mapsto> nat (ss_sum s p) + 1)) (ss_data s' i) = Some (nat (ss_sum s' i))"
      if "i \<in> elems hc" for i
      using counts_in [OF inv that] inj_onD [OF ss_invD(6) [OF inv] _ that p] inv_sum(3) [OF inv p]
      by (auto simp: s'(4,5) nat_add_distrib)
    show "((ss_counts s)(ss_data s p \<mapsto> nat (ss_sum s p) + 1)) t = None" if "t \<notin> ss_data s' ` elems hc" for t
      using counts_out [OF inv, of t] that p by (auto simp: s'(5))
  qed
  moreover have "ss_tot s' = ss_tot s" using ss_invD(7) [OF inv] ss_invD(7) [OF s'(2)] by simp
  ultimately show ?thesis using s'(1-3) 
      count_again [of "ss_counts s" "ss_data s p" "nat (ss_sum s p)" K] counts_in [OF inv p] by auto
qed

lemma getmin_full:
  assumes inv: "ss_inv s bs els hc" and full: "ss_K s \<le> ss_tot s" "0 < ss_tot s"
  shows "getmin s \<in> set bs" "b \<in> set bs \<Longrightarrow> getmin s \<le> b"
proof -
  note I = ss_invD [OF inv]
  have "elems els \<noteq> {}" using I(5,7) full(2) by auto
  then obtain b0 where "els b0 \<noteq> []" by (auto simp: elems_def)
  then have "bs \<noteq> []" using chainsD(2) [OF I(2), of b0] by auto
  then obtain m bs0 where bs: "bs = m # bs0" by (cases bs) auto
  have "ss_Right s 0 = m" using I(1) by (simp add: ring_def bs)
  then have g: "getmin s = m" using full ring_sorted(3) [OF I(1), of m] by (simp add: getmin_def bs)
  then show "getmin s \<in> set bs" "b \<in> set bs \<Longrightarrow> getmin s \<le> b"
    using ring_sorted(1) [OF I(1)] by (auto simp: bs)
qed

lemma insert_new_step:
  assumes inv: "ss_inv s bs els hc" and x: "x \<notin> ss_data s ` elems hc"
    and m2: "ss_K s = m2" "0 < m2" "m2 \<le> M_max" "ss_tot s \<le> m2" and room: "\<And>b. b \<in> set bs \<Longrightarrow> b + 1 < N_max"
  shows "\<exists>s' bs' els' hc'. insert_new m2 x s = Some s' \<and> ss_inv s' bs' els' hc' \<and> ss_K s' = m2 \<and> ss_tot s' \<le> m2 \<and>
    count_step (nat m2) (ss_counts s) x (ss_counts s')"
proof -
  note I = ss_invD [OF inv]
  have none: "ss_counts s x = None" using counts_out [OF inv x] .
  have card: "int (card (dom (ss_counts s))) = ss_tot s" using counts_dom(2) [OF inv] .
  have space: "int (card (elems hc)) < M_max + 2" using m2 I(7) by simp
  show ?thesis
  proof (cases "ss_tot s < m2")
    case True
    have p: "pred_bucket 1 bs = 0" using pred_bucket_spec [OF I(1), of 1] by simp
    have q: "(0 :: int) < 1" "1 < N_max" by (simp_all add: N_max_def)
    from insert_link_ok [OF inv space x q disjI1 [OF p [symmetric]]] obtain i s1 w s2 s3 where
      st: "getid s = Some (i, s1)" "location x = Some w" "add2 w i s1 = Some s2"
      "link i 0 (s2\<lparr>ss_data := (ss_data s2)(i := x), ss_sum := (ss_sum s2)(i := 1)\<rparr>) = Some s3"
      and i: "i \<notin> elems hc" and inv3: "ss_inv s3 (put_bucket 1 bs) (els(1 := i # els 1)) (hc(w := i # hc w))"
      and f3: "ss_K s3 = ss_K s" "ss_sum s3 = (ss_sum s)(i := 1)" "ss_data s3 = (ss_data s)(i := x)" by blast
    have tot: "ss_tot s3 = ss_tot s + 1" using ss_invD(7) [OF inv3] I(7,8) i unfolding elems_push by simp
    then have stop: "evict_loop m2 s3 = Some s3" using True by (simp add: evict_loop.simps [of m2 s3])
    have run: "insert_new m2 x s = Some s3" using st True stop by (simp add: insert_new_def)
    have "ss_counts s3 = (ss_counts s)(x \<mapsto> 1)"
    proof (rule counts_eqI [OF inv3]; unfold elems_push f3)
      show "((ss_counts s)(x \<mapsto> 1)) (((ss_data s)(i := x)) j) = Some (nat (((ss_sum s)(i := 1)) j))"
        if "j \<in> insert i (elems hc)" for j
        using that counts_in [OF inv, of j] x i by (cases "j = i") auto
      show "((ss_counts s)(x \<mapsto> 1)) t = None" if "t \<notin> ((ss_data s)(i := x)) ` insert i (elems hc)" for t
      proof -
        have "t \<noteq> x" "t \<notin> ss_data s ` elems hc" using that i by (auto simp: image_iff)
        then show ?thesis using counts_out [OF inv] by simp
      qed
    qed
    moreover have "count_step (nat m2) (ss_counts s) x ((ss_counts s)(x \<mapsto> 1))"
    proof (rule count_new)
      have "int (card (dom (ss_counts s))) < m2" using card True by simp
      then show "card (dom (ss_counts s)) < nat m2" by linarith
    qed (rule none)
    ultimately show ?thesis using run inv3 f3(1) m2(1) tot True by auto
  next
    case False
    then have full: "ss_tot s = m2" using m2(4) by simp
    let ?m = "getmin s"
    have fu: "ss_K s \<le> ss_tot s" "0 < ss_tot s" using full m2(1,2) by auto
    note gm = getmin_full [OF inv fu]
    have q: "0 < ?m + 1" "?m + 1 < N_max" using ring_sorted(3) [OF I(1) gm(1)] room [OF gm(1)] by auto
    have ww: "0 = pred_bucket (?m + 1) bs \<or> ?m + 1 - 10 < pred_bucket (?m + 1) bs \<and> 0 < pred_bucket (?m + 1) bs"
      if "?m + 1 \<notin> set bs"
    proof -
      have "pred_bucket (?m + 1) bs = ?m" using pred_bucketI [OF I(1) gm(1), of "?m + 1"] by auto
      then show ?thesis using ring_sorted(3) [OF I(1) gm(1)] by simp
    qed
    from insert_link_ok [OF inv space x q ww] obtain i s1 w s2 s3 where
      st: "getid s = Some (i, s1)" "location x = Some w" "add2 w i s1 = Some s2"
      "link i 0 (s2\<lparr>ss_data := (ss_data s2)(i := x), ss_sum := (ss_sum s2)(i := ?m + 1)\<rparr>) = Some s3"
      and i: "i \<notin> elems hc" and inv3: "ss_inv s3 (put_bucket (?m + 1) bs) (els(?m + 1 := i # els (?m + 1))) (hc(w := i # hc w))"
      and f3: "ss_K s3 = ss_K s" "ss_sum s3 = (ss_sum s)(i := ?m + 1)" "ss_data s3 = (ss_data s)(i := x)" by blast
    have tot: "ss_tot s3 = m2 + 1" using ss_invD(7) [OF inv3] I(7,8) i full unfolding elems_push by simp
    have "0 \<le> m2" using m2(2) by simp
    then obtain e s4 bs4 els4 hc4 where
      ev: "evict_loop m2 s3 = Some s4" "e \<in> elems (hc(w := i # hc w))" "\<forall>b \<in> set (put_bucket (?m + 1) bs). ss_sum s3 e \<le> b"
      and inv4: "ss_inv s4 bs4 els4 hc4" and hc4: "elems hc4 = elems (hc(w := i # hc w)) - {e}"
      and f4: "ss_K s4 = ss_K s3" "ss_sum s4 = ss_sum s3" "ss_data s4 = ss_data s3"
      by (rule evict_ok [OF inv3 tot])
    have run: "insert_new m2 x s = Some s4" using st False ev(1) by (simp add: insert_new_def)
    have "ss_sum s3 e \<le> ?m" using ev(3) gm(1) by simp
    then have ei: "e \<noteq> i" by (auto simp: f3(2))
    then have e: "e \<in> elems hc" using ev(2) unfolding elems_push by simp
    have se: "ss_sum s e = ?m" using \<open>ss_sum s3 e \<le> ?m\<close> gm(2) [OF inv_sum(2) [OF inv e]] ei by (simp add: f3(2))
    have de: "ss_data s e \<noteq> x" using x e by auto
    have hc4': "elems hc4 = insert i (elems hc - {e})" unfolding hc4 elems_push using ei by auto
    let ?c = "(ss_counts s)(x \<mapsto> nat ?m + 1, ss_data s e := None)"
    have "ss_counts s4 = ?c"
    proof (rule counts_eqI [OF inv4]; unfold hc4' f4 f3)
      show "?c (((ss_data s)(i := x)) j) = Some (nat (((ss_sum s)(i := ?m + 1)) j))" if j: "j \<in> insert i (elems hc - {e})" for j
      proof (cases "j = i")
        case True
        then show ?thesis using de ring_sorted(3) [OF I(1) gm(1)] by (simp add: nat_add_distrib)
      next
        case False
        then have "j \<in> elems hc" "j \<noteq> e" using j by auto
        then have "ss_data s j \<noteq> ss_data s e" "ss_data s j \<noteq> x" using inj_onD [OF I(6)] e x by auto
        then show ?thesis using False counts_in [OF inv \<open>j \<in> elems hc\<close>] by simp
      qed
      show "?c t = None" if t: "t \<notin> ((ss_data s)(i := x)) ` insert i (elems hc - {e})" for t
      proof -
        have tx: "t \<noteq> x" using t by auto
        have "t = ss_data s e \<or> t \<notin> ss_data s ` elems hc" using t i by (auto simp: image_iff)
        then show ?thesis using tx counts_out [OF inv, of t] by auto
      qed
    qed
    moreover have "least_counter (ss_counts s) (ss_data s e) (nat ?m)"
      unfolding least_counter_def
    proof (intro conjI ballI)
      show "ss_counts s (ss_data s e) = Some (nat ?m)" using counts_in [OF inv e] se by simp
      fix n assume "n \<in> ran (ss_counts s)"
      then obtain t where "ss_counts s t = Some n" by (auto simp: ran_def)
      then obtain j where "j \<in> elems hc" "n = nat (ss_sum s j)" using ss_counts_iff [OF I(3,6)] by blast
      then show "nat ?m \<le> n" using gm(2) [OF inv_sum(2) [OF inv]] by (auto intro: nat_mono)
    qed
    moreover have "nat m2 \<le> card (dom (ss_counts s))" using card full by simp
    ultimately have "count_step (nat m2) (ss_counts s) x (ss_counts s4)" 
      using count_replace [of "ss_counts s" x, OF none] by simp
    moreover have "ss_tot s4 \<le> m2"
    proof -
      have "card (elems hc4) = card (elems hc)" unfolding hc4'
        using I(8) i card_Suc_Diff1 [OF I(8) e] by (simp del: card_Diff_insert)
      then show ?thesis using ss_invD(7) [OF inv4] I(7) full by simp
    qed
    ultimately show ?thesis using run inv4 f4(1) f3(1) m2(1) by metis
  qed
qed

section \<open>Streams of flows\<close>

text \<open>The detection has counted the stream \<open>ts\<close>.\<close>

definition sv_ok :: "int \<Rightarrow> spacesaving \<Rightarrow> tuple_3_t list \<Rightarrow> bool" where
  "sv_ok m2 S ts \<longleftrightarrow>
     be_able_to_insert S \<and> M2 S = m2 \<and> ss_K (sv_ss S) = m2 \<and> ss_tot (sv_ss S) \<le> m2 \<and>
     (\<exists>bs els hc. ss_inv (sv_ss S) bs els hc) \<and> count_run (nat m2) ts (ss_counts (sv_ss S))"

lemma Insert_ok:
  assumes ok: "sv_ok m2 S ts" and m2: "0 < m2" "m2 \<le> M_max" and room: "int (length ts) + 1 < N_max"
  shows "\<exists>S'. Insert x S = Some S' \<and> sv_ok m2 S' (ts @ [x]) \<and> count_step (nat m2) (ss_counts (sv_ss S)) x (ss_counts (sv_ss S')) \<and>
    total_pkt S' = total_pkt S + 1 \<and> sv_K S' = sv_K S"
proof -
  let ?s = "sv_ss S"
  from ok obtain bs els hc where inv: "ss_inv ?s bs els hc" and S: "be_able_to_insert S" "M2 S = m2" "ss_K ?s = m2"
    "ss_tot ?s \<le> m2" and run: "count_run (nat m2) ts (ss_counts ?s)" by (auto simp: sv_ok_def)
  note I = ss_invD [OF inv]
  have small: "ss_sum ?s i + 1 < N_max" if "i \<in> elems hc" for i
  proof -
    note cok = counts_okD [OF counts_ok_run [OF run]]
    have c: "ss_counts ?s (ss_data ?s i) = Some (nat (ss_sum ?s i))" using counts_in [OF inv that] .
    then have "nat (ss_sum ?s i) \<le> (\<Sum>t \<in> dom (ss_counts ?s). the (ss_counts ?s t))"
      using member_le_sum [of "ss_data ?s i" "dom (ss_counts ?s)" "\<lambda>t. the (ss_counts ?s t)"] cok(1) by (auto simp: dom_def)
    then show ?thesis using cok(3) room inv_sum(3) [OF inv that] by simp
  qed
  have bsm: "b + 1 < N_max" if "b \<in> set bs" for b
  proof -
    have "els b \<noteq> []" using chainsD(2) [OF I(2)] that by simp
    then have "hd (els b) \<in> set (els b)" by simp
    moreover from this have "hd (els b) \<in> elems hc" using mem_elems [of "hd (els b)" els b] I(5) by simp
    ultimately show ?thesis using small [of "hd (els b)"] chainsD(3) [OF I(2), of "hd (els b)" b] by simp
  qed
  have "\<exists>s' bs' els' hc'. (if p = 0 then insert_new m2 x ?s else insert_again p ?s) = Some s' \<and> ss_inv s' bs' els' hc' \<and>
      ss_K s' = m2 \<and> ss_tot s' \<le> m2 \<and> count_step (nat m2) (ss_counts ?s) x (ss_counts s')"
    if p: "ss_find ?s x = Some p" for p
  proof (cases rule: ss_find_cases [OF I(3), of x])
    case (1 i)
    then have "p = i" "p \<noteq> 0" using p by auto
    from insert_again_step [OF inv 1(1) small [OF 1(1)], of "nat m2"] obtain s' bs' els' where
      "insert_again i ?s = Some s'" "ss_inv s' bs' els' hc" "ss_K s' = ss_K ?s" "ss_tot s' = ss_tot ?s"
      "count_step (nat m2) (ss_counts ?s) x (ss_counts s')" using 1(2) by auto
    then show ?thesis using \<open>p = i\<close> \<open>p \<noteq> 0\<close> S(3,4) by auto
  next
    case 2
    then have "p = 0" using p by simp
    with insert_new_step [OF inv 2(1) S(3) m2 S(4) bsm] show ?thesis by simp
  qed
  moreover obtain p where p: "ss_find ?s x = Some p" using ss_find_cases [OF I(3), of x] by metis
  ultimately obtain s' bs' els' hc' where s': "(if p = 0 then insert_new m2 x ?s else insert_again p ?s) = Some s'"
    "ss_inv s' bs' els' hc'" "ss_K s' = m2" "ss_tot s' \<le> m2" "count_step (nat m2) (ss_counts ?s) x (ss_counts s')" by blast
  let ?S = "S\<lparr>total_pkt := total_pkt S + 1, sv_ss := s'\<rparr>"
  have "Insert x S = Some ?S" using s'(1) p S(1,2) by (auto simp: Insert_def split: if_splits)
  moreover have "sv_ok m2 ?S (ts @ [x])" using s' S run_snoc [OF run s'(5)] by (auto simp: sv_ok_def)
  ultimately show ?thesis using s'(5) by auto
qed

end
