(* ===== verification/Top_K.thy ===== *)
theory Top_K
  imports Space_Saving "HOL-Library.Multiset"
begin

text \<open>
  The top-k dump of \<open>platform/drivers/top_k/space_saving.cpp\<close> and its life over several intervals: the
  start of the detection, counting a stream, the dump that fills the table of flows, and what the next
  intervals make of a summary whose hash chains \<open>clear\<close> has not emptied.
\<close>

section \<open>The start\<close>

definition MAX_MEM :: nat where "MAX_MEM = 200000"
definition top_K :: int where "top_K = 100000"
definition ss_M :: int where "ss_M = 199999"

text \<open>
  The detection with its two global tables. What \<open>new\<close> returns has arbitrary contents, the arguments
  \<open>g\<close>, \<open>f1\<close> and \<open>f2\<close>.
\<close>

record topk =
  sv :: spacesaving
  old_table :: flow_table_t
  new_table :: flow_table_t

definition ssummary_new :: "int \<Rightarrow> ssummary \<Rightarrow> ssummary" where
  "ssummary_new K g = g\<lparr>ss_K := K\<rparr>"

definition spacesaving_new ::
  "int \<Rightarrow> int \<Rightarrow> ssummary \<Rightarrow> flow_table_element_t list \<Rightarrow> flow_table_element_t list \<Rightarrow> topk" where
  "spacesaving_new m2 k g f1 f2 =
     \<lparr>sv = \<lparr>sv_ss = ss_clear (ssummary_new m2 g), M2 = m2, sv_K = k, total_pkt = 0, be_able_to_insert = True, sv_q = []\<rparr>,
      old_table = flow_table_init f1, new_table = flow_table_init f2\<rparr>"

definition space_saving_init ::
  "ssummary \<Rightarrow> flow_table_element_t list \<Rightarrow> flow_table_element_t list \<Rightarrow> topk" where
  "space_saving_init g f1 f2 = spacesaving_new ss_M top_K g f1 f2"

definition get_tot :: "spacesaving \<Rightarrow> int" where
  "get_tot S = ss_tot (sv_ss S)"

section \<open>The dump\<close>

text \<open>
  \<open>std::sort\<close> for the two element types: some permutation that is in order for the code's comparison
  (the elements that compare equal can come in any order).
\<close>

record std_lib =
  sort_nodes :: "q_node list \<Rightarrow> q_node list"
  sort_flows :: "flow_table_element_t list \<Rightarrow> flow_table_element_t list"

definition node_cmp :: "q_node \<Rightarrow> q_node \<Rightarrow> bool" where
  "node_cmp i j = (q_y i > q_y j)"

definition flow_lt :: "flow_table_element_t \<Rightarrow> flow_table_element_t \<Rightarrow> bool" where
  "flow_lt l r = tuple_lt (flow_id l) (flow_id r)"

definition std_laws :: "std_lib \<Rightarrow> bool" where
  "std_laws L \<longleftrightarrow>
     (\<forall>xs. mset (sort_nodes L xs) = mset xs \<and> sorted_wrt (\<lambda>a b. \<not> node_cmp b a) (sort_nodes L xs)) \<and>
     (\<forall>xs. mset (sort_flows L xs) = mset xs \<and> sorted_wrt (\<lambda>a b. \<not> flow_lt b a) (sort_flows L xs))"

text \<open>
  The loops of \<open>work\<close> over the buckets and their elements. The array \<open>q\<close> has \<open>MAX_MEM + 10\<close> elements; one
  more is written out of its bounds.
\<close>

partial_function (option) collect_elems :: "ssummary \<Rightarrow> int \<Rightarrow> q_node list \<Rightarrow> q_node list option" where
  "collect_elems s j q =
     (if j = 0 then Some q
      else do {
        chk elem_len j;
        if length q < MAX_MEM + 10
        then collect_elems s (ss_Next s j) (q @ [\<lparr>q_x = ss_data s j, q_y = ss_sum s j\<rparr>])
        else None
      })"

partial_function (option) collect_buckets :: "ssummary \<Rightarrow> int \<Rightarrow> q_node list \<Rightarrow> q_node list option" where
  "collect_buckets s i q =
     (if i = 0 then Some q
      else do {
        chk bucket_len i;
        q \<leftarrow> collect_elems s (ss_head s i) q;
        collect_buckets s (ss_Left s i) q
      })"

definition work :: "std_lib \<Rightarrow> spacesaving \<Rightarrow> spacesaving option" where
  "work L S = do {
     q \<leftarrow> collect_buckets (sv_ss S) N_max [];
     Some (S\<lparr>sv_q := sort_nodes L q\<rparr>)
   }"

definition Query :: "nat \<Rightarrow> spacesaving \<Rightarrow> (tuple_3_t \<times> int) option" where
  "Query k S = (if k < length (sv_q S) then Some (q_x (sv_q S ! k), q_y (sv_q S ! k)) else None)"

definition to_flow :: "q_node \<Rightarrow> flow_table_element_t" where
  "to_flow n = \<lparr>flow_id = q_x n, flow_count = word_of_int (q_y n)\<rparr>"

text \<open>The copying loop and the sort of the part of the table that is in use.\<close>

definition fill_table :: "std_lib \<Rightarrow> q_node list \<Rightarrow> int \<Rightarrow> flow_table_t \<Rightarrow> flow_table_t option" where
  "fill_table L q k t = do {
     let CNT = int (length q);
     let used = (if CNT > k then k else CNT);
     d \<leftarrow> ft_data t;
     if nat used \<le> length d
     then Some (t\<lparr>used_bucket := used,
                  ft_data := Some (sort_flows L (map to_flow (take (nat used) q)) @ drop (nat used) d)\<rparr>)
     else None
   }"

definition top_k_dump :: "std_lib \<Rightarrow> topk \<Rightarrow> (int \<times> topk) option" where
  "top_k_dump L T = do {
     let S = (sv T)\<lparr>total_pkt := 0\<rparr>;
     let old = flow_table_clear (old_table T);
     let T = T\<lparr>old_table := new_table T, new_table := old\<rparr>;
     S \<leftarrow> work L S;
     t \<leftarrow> fill_table L (sv_q S) (sv_K S) (new_table T);
     Some (0, T\<lparr>sv := S\<lparr>sv_ss := ss_clear (sv_ss S)\<rparr>, new_table := t\<rparr>)
   }"

text \<open>Counting into the detection with its tables.\<close>

definition count_flows :: "tuple_3_t list \<Rightarrow> topk \<Rightarrow> topk option" where
  "count_flows ts T = map_option (\<lambda>S. T\<lparr>sv := S\<rparr>) (Insert_all ts (sv T))"

section \<open>The cleared summary\<close>

lemma fill_simps [simp]:
  "lo \<le> i \<Longrightarrow> i \<le> hi \<Longrightarrow> fill lo hi v a i = v i"
  "i < lo \<Longrightarrow> fill lo hi v a i = a i"
  by (simp_all add: fill_def)

text \<open>The summary is empty after \<open>clear\<close> when all of \<open>head2\<close> is zero already.\<close>

definition head2_zero :: "ssummary \<Rightarrow> bool" where
  "head2_zero s \<longleftrightarrow> (\<forall>w. 0 \<le> w \<and> w < len2 \<longrightarrow> ss_head2 s w = 0)"

lemma ss_clear_inv:
  assumes "head2_zero s"
  shows "ss_inv (ss_clear s) [] (\<lambda>_. []) (\<lambda>_. [])"
proof -
  have "inj_on (fill 1 (M_max + 2) (\<lambda>i. i) (ss_ID s)) {1..M_max + 2}" by (auto simp: inj_on_def)
  moreover have "fill 1 (M_max + 2) (\<lambda>i. i) (ss_ID s) ` {1..M_max + 2} = {1..M_max + 2}" by (auto simp: image_iff)
  ultimately have "ids (ss_clear s) {}" by (simp add: ids_def ss_clear_def M_max_def)
  then show ?thesis
    using assms by (auto simp: ss_inv_def ring_def chains_def hashed_def elems_def head2_zero_def ss_clear_def N_max_def)
qed

lemma ss_clear_counts:
  assumes "head2_zero s"
  shows "ss_counts (ss_clear s) = Map.empty"
  by (rule counts_eqI [OF ss_clear_inv [OF assms]]) (simp_all add: elems_def)

lemma spacesaving_new_ok:
  assumes "head2_zero g" "0 < m2"
  shows "sv_ok m2 (sv (spacesaving_new m2 k g f1 f2)) []"
proof -
  have z: "head2_zero (ssummary_new m2 g)" using assms(1) by (simp add: head2_zero_def ssummary_new_def)
  show ?thesis
    using ss_clear_inv [OF z] ss_clear_counts [OF z] run_nil [of "nat m2"] assms(2)
    by (auto simp: sv_ok_def spacesaving_new_def ss_clear_def ssummary_new_def)
qed

section \<open>A stream from the start\<close>

lemma Insert_all_ok:
  "sv_ok m2 S ts \<Longrightarrow> 0 < m2 \<Longrightarrow> m2 \<le> M_max \<Longrightarrow> int (length ts + length us) < N_max \<Longrightarrow>
     \<exists>S'. Insert_all us S = Some S' \<and> sv_ok m2 S' (ts @ us) \<and> sv_K S' = sv_K S"
proof (induction us arbitrary: S ts)
  case (Cons u us)
  then obtain S1 where S1: "Insert u S = Some S1" "sv_ok m2 S1 (ts @ [u])" "sv_K S1 = sv_K S"
    using Insert_ok [OF Cons.prems(1-3), of u] by auto
  from Cons.IH [OF S1(2) Cons.prems(2,3)] Cons.prems(4) obtain S2 where
    "Insert_all us S1 = Some S2" "sv_ok m2 S2 ((ts @ [u]) @ us)" "sv_K S2 = sv_K S1" by auto
  then show ?case using S1 by auto
qed auto

text \<open>
  C8. The stream summary implements Space-Saving: for every stream of fewer than a million flows counted
  from a start with zeroed memory, no index leaves its array and every loop ends, and the counters that
  \<open>find\<close> shows afterwards are those of a run of the abstract algorithm: a counted flow is counted once
  more, a new one takes a free counter or replaces one of the least.
\<close>

theorem Insert_all_refines:
  assumes "head2_zero g" "0 < m2" "m2 \<le> M_max" "int (length ts) < N_max"
  shows "\<exists>S'. Insert_all ts (sv (spacesaving_new m2 k g f1 f2)) = Some S' \<and> count_run (nat m2) ts (ss_counts (sv_ss S'))"
  using Insert_all_ok [OF spacesaving_new_ok [OF assms(1,2)] assms(2,3), of ts k f1 f2] assms(4) by (auto simp: sv_ok_def)

text \<open>
  C9. The guarantee of the top-k detection as it is configured, in its first interval and when the memory
  that \<open>new\<close> returns for the hash table's heads is zero (the code does not clear it): over a stream of
  fewer than a million flows, every flow that makes up more than one in 199999 of it has a counter, and
  no counter is below its flow's frequency or more than one in 199999 of the stream above it.
\<close>

theorem space_saving_guarantee:
  assumes "head2_zero g" "int (length ts) < N_max"
  shows "\<exists>T. count_flows ts (space_saving_init g f1 f2) = Some T \<and>
    (\<forall>t. length ts div 199999 < count_list ts t \<longrightarrow> ss_counts (sv_ss (sv T)) t \<noteq> None) \<and>
    (\<forall>t n. ss_counts (sv_ss (sv T)) t = Some n \<longrightarrow>
       count_list ts t \<le> n \<and> n \<le> count_list ts t + length ts div 199999)"
proof -
  have m: "0 < ss_M" "ss_M \<le> M_max" by (simp_all add: ss_M_def M_max_def)
  from Insert_all_ok [OF spacesaving_new_ok [OF assms(1) m(1)] m, of ts top_K f1 f2] assms(2) obtain S where
    S: "Insert_all ts (sv (space_saving_init g f1 f2)) = Some S" "sv_ok ss_M S ts" by (auto simp: space_saving_init_def)
  then have run: "count_run 199999 ts (ss_counts (sv_ss S))" by (simp add: sv_ok_def ss_M_def)
  have pos: "0 < (199999 :: nat)" by simp
  show ?thesis
    using S(1) count_run_guarantee [OF run pos] by (auto simp: count_flows_def)
qed

section \<open>What the dump delivers\<close>

definition node_of :: "ssummary \<Rightarrow> int \<Rightarrow> q_node" where
  "node_of s i = \<lparr>q_x = ss_data s i, q_y = ss_sum s i\<rparr>"

lemma collect_elems_chain:
  "chain (ss_Next s) p xs \<Longrightarrow> \<forall>i \<in> set xs. 1 \<le> i \<and> i \<le> M_max + 2 \<Longrightarrow> length q + length xs \<le> MAX_MEM + 10 \<Longrightarrow>
     collect_elems s p q = Some (q @ map (node_of s) xs)"
proof (induction xs arbitrary: p q)
  case Nil
  then show ?case by (simp add: collect_elems.simps)
next
  case (Cons x xs)
  then show ?case by (subst collect_elems.simps) (auto simp: node_of_def)
qed

definition nodes_of :: "ssummary \<Rightarrow> (int \<Rightarrow> int list) \<Rightarrow> int list \<Rightarrow> q_node list" where
  "nodes_of s els bs = concat (map (\<lambda>b. map (node_of s) (els b)) (rev bs))"

lemma collect_buckets_ring:
  assumes c: "chains s bs0 els" and pos: "\<And>b. b \<in> set bs0 \<Longrightarrow> 0 < b \<and> b < N_max"
  shows "dseg (ss_Right s) (ss_Left s) 0 bs c \<Longrightarrow> set bs \<subseteq> set bs0 \<Longrightarrow>
    length q + length (nodes_of s els bs) \<le> MAX_MEM + 10 \<Longrightarrow>
    collect_buckets s (ss_Left s c) q = Some (q @ nodes_of s els bs)"
proof (induction bs arbitrary: c q rule: rev_induct)
  case Nil
  then show ?case by (simp add: collect_buckets.simps nodes_of_def)
next
  case (snoc b bs)
  have seg: "dseg (ss_Right s) (ss_Left s) 0 bs b" "ss_Left s c = b"
    using snoc.prems(1) by (simp_all add: dseg_append)
  have b: "0 < b" "b < N_max" using pos [of b] snoc.prems(2) by auto
  have nodes: "nodes_of s els (bs @ [b]) = map (node_of s) (els b) @ nodes_of s els bs" by (simp add: nodes_of_def)
  have "chain (ss_Next s) (ss_head s b) (els b)" using chainsD(1) [OF c, of b] b dchain_chain by simp
  then have el: "collect_elems s (ss_head s b) q = Some (q @ map (node_of s) (els b))"
    using collect_elems_chain chainsD(3) [OF c] snoc.prems(3) unfolding nodes by simp
  have "collect_buckets s (ss_Left s b) (q @ map (node_of s) (els b)) = Some ((q @ map (node_of s) (els b)) @ nodes_of s els bs)"
    by (rule snoc.IH [OF seg(1)]) (use snoc.prems(2,3) in \<open>simp_all add: nodes\<close>)
  then show ?case using b by (subst collect_buckets.simps) (simp add: seg(2) el nodes)
qed

lemma nodes_of_set:
  assumes "ss_inv s bs els hc"
  shows "set (nodes_of s els bs) = node_of s ` elems hc" "length (nodes_of s els bs) = card (elems hc)"
    "distinct (map q_x (nodes_of s els bs))"
proof -
  note I = ss_invD [OF assms]
  have "b \<in> set bs" if "i \<in> set (els b)" for i b using chainsD(2) [OF I(2), of b] that by auto
  then have "(\<Union>b \<in> set bs. set (els b)) = elems els" unfolding elems_def by blast
  then have el: "set (concat (map els (rev bs))) = elems hc" using I(5) by simp
  have map: "nodes_of s els bs = map (node_of s) (concat (map els (rev bs)))" by (simp add: nodes_of_def map_concat comp_def)
  show set: "set (nodes_of s els bs) = node_of s ` elems hc" unfolding map set_map el ..
  have "distinct bs" using ring_sorted(2) [OF I(1)] by simp
  then have "distinct (concat (map els (rev bs)))"
  proof (induction bs)
    case (Cons b bs)
    have "set (els b) \<inter> set (concat (map els (rev bs))) = {}"
    proof -
      have "i \<notin> set (els v)" if "v \<in> set bs" "i \<in> set (els b)" for i v
        using bucket_key [OF I(2), of i b] bucket_key [OF I(2), of i v] that Cons.prems by auto
      then show ?thesis by auto
    qed
    then show ?case using Cons els_distinct [OF I(1,2)] by auto
  qed simp
  then have d: "distinct (concat (map els (rev bs)))" .
  show "length (nodes_of s els bs) = card (elems hc)" unfolding map length_map using distinct_card [OF d] el by simp
  have "map q_x (nodes_of s els bs) = map (ss_data s) (concat (map els (rev bs)))"
    unfolding map by (simp add: node_of_def comp_def)
  then show "distinct (map q_x (nodes_of s els bs))" using d I(6) el by (simp add: distinct_map)
qed

lemma work_run:
  assumes inv: "ss_inv (sv_ss S) bs els hc" and m: "ss_tot (sv_ss S) \<le> int MAX_MEM + 10"
  shows "work L S = Some (S\<lparr>sv_q := sort_nodes L (nodes_of (sv_ss S) els bs)\<rparr>)"
proof -
  let ?s = "sv_ss S"
  note I = ss_invD [OF inv]
  have "N_max \<notin> set bs" using ring_sorted(2) [OF I(1)] by simp
  then have "ss_head ?s N_max = 0" using head_zero [OF I(2), of N_max] by (simp add: N_max_def)
  moreover have "collect_buckets ?s (ss_Left ?s N_max) [] = Some ([] @ nodes_of ?s els bs)"
  proof (rule collect_buckets_ring [OF I(2)])
    show "0 < b \<and> b < N_max" if "b \<in> set bs" for b using ring_sorted(3) [OF I(1) that] .
    show "dseg (ss_Right ?s) (ss_Left ?s) 0 bs N_max" using I(1) by (simp add: ring_def)
    show "length [] + length (nodes_of ?s els bs) \<le> MAX_MEM + 10" using nodes_of_set(2) [OF inv] I(7) m by simp
  qed simp
  ultimately have "collect_buckets ?s N_max [] = Some (nodes_of ?s els bs)"
    by (subst collect_buckets.simps) (simp add: collect_elems.simps N_max_def bucket_len_def)
  then show ?thesis by (simp add: work_def)
qed

text \<open>The run of the dump, with the flows it writes.\<close>

definition dumped_flows :: "std_lib \<Rightarrow> int \<Rightarrow> q_node list \<Rightarrow> flow_table_element_t list" where
  "dumped_flows L k ns = sort_flows L (map to_flow (take (nat k) (sort_nodes L ns)))"

lemma length_dumped_flows:
  assumes "std_laws L"
  shows "length (dumped_flows L k ns) = min (length ns) (nat k)"
proof -
  have "length (sort_flows L xs) = length xs" "length (sort_nodes L ys) = length ys" for xs ys
    using assms mset_eq_length by (auto simp: std_laws_def)
  then show ?thesis by (simp add: dumped_flows_def)
qed

lemma top_k_dump_run:
  assumes L: "std_laws L" and inv: "ss_inv (sv_ss (sv T)) bs els hc" "ss_tot (sv_ss (sv T)) \<le> int MAX_MEM + 10"
    and d: "ft_data (old_table T) = Some d" "sv_K (sv T) \<le> int (length d)" "0 \<le> sv_K (sv T)"
  shows "\<exists>T'. top_k_dump L T = Some (0, T') \<and> old_table T' = new_table T \<and>
    used_flows (new_table T') = Some (dumped_flows L (sv_K (sv T)) (nodes_of (sv_ss (sv T)) els bs)) \<and>
    sv_ss (sv T') = ss_clear (sv_ss (sv T)) \<and> M2 (sv T') = M2 (sv T) \<and> sv_K (sv T') = sv_K (sv T) \<and>
    be_able_to_insert (sv T') = be_able_to_insert (sv T)"
proof -
  let ?S = "sv T" and ?s = "sv_ss (sv T)" and ?old = "flow_table_clear (old_table T)"
  let ?k = "nat (sv_K ?S)" and ?ns = "nodes_of ?s els bs"
  let ?fs = "dumped_flows L (sv_K ?S) ?ns"
  define q where "q = sort_nodes L ?ns"
  have qlen: "length q = length ?ns" using L mset_eq_length by (auto simp: std_laws_def q_def)
  let ?used = "if int (length q) > sv_K ?S then sv_K ?S else int (length q)"
  have used: "nat ?used = min (length q) ?k" using d(3) by (auto simp: min_def)
  have take: "take (nat ?used) q = take ?k q" unfolding used by (metis min.commute take_all_iff take_take take_all order_refl)
  have flen: "length ?fs = nat ?used" using length_dumped_flows [OF L] used qlen by simp
  have inv0: "ss_inv (sv_ss (?S\<lparr>total_pkt := 0\<rparr>)) bs els hc" using inv(1) by simp
  have w: "work L (?S\<lparr>total_pkt := 0\<rparr>) = Some (?S\<lparr>total_pkt := 0, sv_q := q\<rparr>)"
    using work_run [OF inv0] inv(2) by (simp add: q_def)
  have "nat ?used \<le> length d" using used d(2) by simp
  then have fill: "fill_table L q (sv_K ?S) ?old = Some (?old\<lparr>used_bucket := ?used, ft_data := Some (?fs @ drop (nat ?used) d)\<rparr>)"
    unfolding fill_table_def Let_def take using d(1) by (simp add: flow_table_clear_def dumped_flows_def q_def)
  have "top_k_dump L T = Some (0, T\<lparr>old_table := new_table T,
      sv := ?S\<lparr>total_pkt := 0, sv_q := q, sv_ss := ss_clear ?s\<rparr>,
      new_table := ?old\<lparr>used_bucket := ?used, ft_data := Some (?fs @ drop (nat ?used) d)\<rparr>\<rparr>)"
    using w fill by (simp add: top_k_dump_def Let_def)
  then show ?thesis using flen by (simp add: used_flows_def)
qed

lemma sorted_wrt_take_drop: "sorted_wrt P xs \<Longrightarrow> a \<in> set (take k xs) \<Longrightarrow> b \<in> set (drop k xs) \<Longrightarrow> P a b"
  by (metis append_take_drop_id sorted_wrt_append)

lemma sorted_strict_map:
  assumes "sorted_wrt (\<lambda>a b. \<not> flow_lt b a) fs" "distinct (map flow_id fs)"
  shows "sorted_wrt (<) (map flow_id fs)"
proof -
  have "sorted (map flow_id fs)"
    using assms(1) unfolding sorted_map flow_lt_def by (simp add: less_tuple_3_t_def [symmetric] not_less)
  then show ?thesis using assms(2) by (simp add: strict_sorted_iff)
qed

text \<open>The content of the table, piece by piece: its order, its size, its counters, and what it leaves out.\<close>

lemma sort_nodes_of:
  assumes "std_laws L" "ss_inv s bs els hc"
  shows "set (sort_nodes L (nodes_of s els bs)) = node_of s ` elems hc"
    "length (sort_nodes L (nodes_of s els bs)) = card (elems hc)"
    "distinct (map q_x (sort_nodes L (nodes_of s els bs)))"
    "sorted_wrt (\<lambda>a b. \<not> node_cmp b a) (sort_nodes L (nodes_of s els bs))"
proof -
  have q: "mset (sort_nodes L (nodes_of s els bs)) = mset (nodes_of s els bs)" using assms(1) by (simp add: std_laws_def)
  note nodes = nodes_of_set [OF assms(2)]
  show "set (sort_nodes L (nodes_of s els bs)) = node_of s ` elems hc" using mset_eq_setD [OF q] nodes(1) by simp
  show "length (sort_nodes L (nodes_of s els bs)) = card (elems hc)" using mset_eq_length [OF q] nodes(2) by simp
  show "distinct (map q_x (sort_nodes L (nodes_of s els bs)))"
    using nodes(3) q by (metis mset_eq_imp_distinct_iff mset_map)
  show "sorted_wrt (\<lambda>a b. \<not> node_cmp b a) (sort_nodes L (nodes_of s els bs))" using assms(1) by (simp add: std_laws_def)
qed

lemma node_count:
  assumes "std_laws L" "ss_inv s bs els hc" "n \<in> set (sort_nodes L (nodes_of s els bs))"
  shows "ss_counts s (q_x n) = Some (nat (q_y n))" "unat (flow_count (to_flow n)) = nat (q_y n)"
proof -
  obtain i where i: "i \<in> elems hc" "n = node_of s i" using sort_nodes_of(1) [OF assms(1,2)] assms(3) by auto
  show "ss_counts s (q_x n) = Some (nat (q_y n))" using counts_in [OF assms(2) i(1)] by (simp add: i(2) node_of_def)
  have "unat (word_of_int (ss_sum s i) :: u32) = nat (ss_sum s i)"
    using inv_sum(3,4) [OF assms(2) i(1)] by (simp add: unat_eq_nat_uint uint_word_of_int N_max_def)
  then show "unat (flow_count (to_flow n)) = nat (q_y n)" by (simp add: i(2) node_of_def to_flow_def)
qed

lemma set_dumped_flows:
  assumes "std_laws L"
  shows "set (dumped_flows L k ns) = to_flow ` set (take (nat k) (sort_nodes L ns))"
proof -
  have "mset (dumped_flows L k ns) = mset (map to_flow (take (nat k) (sort_nodes L ns)))"
    using assms by (simp add: std_laws_def dumped_flows_def)
  then show ?thesis using mset_eq_setD by fastforce
qed

lemma dumped_sorted:
  assumes "std_laws L" "ss_inv s bs els hc"
  shows "sorted_wrt (<) (map flow_id (dumped_flows L k (nodes_of s els bs)))"
proof -
  let ?ms = "map to_flow (take (nat k) (sort_nodes L (nodes_of s els bs)))"
  have f: "mset (sort_flows L ?ms) = mset ?ms" "sorted_wrt (\<lambda>a b. \<not> flow_lt b a) (sort_flows L ?ms)"
    using assms(1) by (simp_all add: std_laws_def)
  have "distinct (map flow_id ?ms)"
    using distinct_take [OF sort_nodes_of(3) [OF assms], of "nat k"] by (simp add: take_map to_flow_def comp_def)
  then have "distinct (map flow_id (sort_flows L ?ms))" using f(1) by (metis mset_eq_imp_distinct_iff mset_map)
  then show ?thesis using sorted_strict_map [OF f(2)] by (simp add: dumped_flows_def)
qed

lemma dumped_length:
  assumes "std_laws L" "ss_inv s bs els hc"
  shows "length (dumped_flows L k (nodes_of s els bs)) = min (nat k) (card (dom (ss_counts s)))"
  using length_dumped_flows [OF assms(1)] nodes_of_set(2) [OF assms(2)] counts_dom(2) [OF assms(2)] ss_invD(7) [OF assms(2)]
  by simp

lemma dumped_counts:
  assumes "std_laws L" "ss_inv s bs els hc" "f \<in> set (dumped_flows L k (nodes_of s els bs))"
  shows "ss_counts s (flow_id f) = Some (unat (flow_count f))"
proof -
  obtain n where "n \<in> set (sort_nodes L (nodes_of s els bs))" "f = to_flow n"
    using assms(3) set_dumped_flows [OF assms(1)] set_take_subset by fastforce
  then show ?thesis using node_count [OF assms(1,2)] by (simp add: to_flow_def)
qed

lemma dumped_top:
  assumes L: "std_laws L" and inv: "ss_inv s bs els hc"
    and t: "ss_counts s t = Some n" "t \<notin> flow_id ` set (dumped_flows L k (nodes_of s els bs))"
    and f: "f \<in> set (dumped_flows L k (nodes_of s els bs))"
  shows "n \<le> unat (flow_count f)"
proof -
  define q where "q = sort_nodes L (nodes_of s els bs)"
  note fset = set_dumped_flows [OF L, of k "nodes_of s els bs", folded q_def]
  obtain i where i: "i \<in> elems hc" "ss_data s i = t" "n = nat (ss_sum s i)"
    using t(1) ss_counts_iff [OF ss_invD(3,6) [OF inv]] by blast
  have "node_of s i \<in> set q" using i(1) sort_nodes_of(1) [OF L inv] by (simp add: q_def)
  moreover have "node_of s i \<notin> set (take (nat k) q)"
  proof
    assume "node_of s i \<in> set (take (nat k) q)"
    then have "to_flow (node_of s i) \<in> set (dumped_flows L k (nodes_of s els bs))" using fset by simp
    then have "flow_id (to_flow (node_of s i)) \<in> flow_id ` set (dumped_flows L k (nodes_of s els bs))" by (rule imageI)
    then show False using t(2) i(2) by (simp add: to_flow_def node_of_def)
  qed
  ultimately have out: "node_of s i \<in> set (drop (nat k) q)" by (metis Un_iff append_take_drop_id set_append)
  obtain a where a: "a \<in> set (take (nat k) q)" "f = to_flow a" using f fset by blast
  have "\<not> node_cmp (node_of s i) a"
    using sorted_wrt_take_drop [OF sort_nodes_of(4) [OF L inv, folded q_def] a(1) out] .
  then have "nat (ss_sum s i) \<le> nat (q_y a)" by (simp add: node_cmp_def node_of_def)
  moreover have "a \<in> set (sort_nodes L (nodes_of s els bs))" using a(1) in_set_takeD by (fastforce simp: q_def)
  ultimately show ?thesis using node_count(2) [OF L inv] a(2) i(3) by simp
qed

text \<open>
  C11. The first dump: count any stream of fewer than a million flows from a start with zeroed memory, with
  \<open>m2\<close> counters and a top \<open>k\<close> that the tables have room for. The dump then returns; the old table is the new
  one of before; the new table holds \<open>min k n\<close> of the \<open>n\<close> counted flows with their counters, sorted strictly by
  flow key, and no counted flow that it leaves out has a larger counter than one it holds. (The dump of a
  second interval can fault, see \<open>second_dump_faults\<close>.)
\<close>

theorem top_k_dump_exact:
  assumes "std_laws L" "head2_zero g" "0 < m2" "m2 \<le> int MAX_MEM + 10" "int (length ts) < N_max"
    and "0 \<le> k" "k \<le> int (length f1)"
  shows "\<exists>T T' fs. count_flows ts (spacesaving_new m2 k g f1 f2) = Some T \<and> top_k_dump L T = Some (0, T') \<and>
    old_table T' = new_table T \<and> used_flows (new_table T') = Some fs \<and> sorted_wrt (<) (map flow_id fs) \<and>
    length fs = min (nat k) (card (dom (ss_counts (sv_ss (sv T))))) \<and>
    (\<forall>f \<in> set fs. ss_counts (sv_ss (sv T)) (flow_id f) = Some (unat (flow_count f))) \<and>
    (\<forall>t n. ss_counts (sv_ss (sv T)) t = Some n \<and> t \<notin> flow_id ` set fs \<longrightarrow> (\<forall>f \<in> set fs. n \<le> unat (flow_count f)))"
proof -
  have m: "m2 \<le> M_max" using assms(4) by (simp add: M_max_def MAX_MEM_def)
  from Insert_all_ok [OF spacesaving_new_ok [OF assms(2,3)] assms(3) m, of ts k f1 f2] assms(5) obtain S where
    S: "Insert_all ts (sv (spacesaving_new m2 k g f1 f2)) = Some S" "sv_ok m2 S ts" "sv_K S = k"
    by (auto simp: spacesaving_new_def)
  define T where "T = (spacesaving_new m2 k g f1 f2)\<lparr>sv := S\<rparr>"
  from S(2) assms(4) obtain bs els hc where inv: "ss_inv (sv_ss (sv T)) bs els hc" "ss_tot (sv_ss (sv T)) \<le> int MAX_MEM + 10"
    by (auto simp: sv_ok_def T_def)
  have tab: "ft_data (old_table T) = Some f1" "sv_K (sv T) = k"
    by (simp_all add: T_def S(3) spacesaving_new_def flow_table_init_def)
  have count: "count_flows ts (spacesaving_new m2 k g f1 f2) = Some T" by (simp add: count_flows_def S(1) T_def)
  show ?thesis
    using count top_k_dump_run [OF assms(1) inv tab(1)] assms(6,7) dumped_sorted [OF assms(1) inv(1)] dumped_length [OF assms(1) inv(1)]
      dumped_counts [OF assms(1) inv(1)] dumped_top [OF assms(1) inv(1)] unfolding tab(2) by blast
qed

section \<open>The intervals after the first\<close>

text \<open>
  \<open>clear\<close> leaves the hash chains' heads (its loop writes \<open>head2[0]\<close> only), so a flow of the interval
  before is found again in an element that the stack of free elements holds. The first new flow of an
  empty summary, symbolically:
\<close>

lemma insert_first:
  assumes "ss_tot s = 0" "0 < m2" "ss_num s = M_max + 2" "ss_ID s (M_max + 2) = M_max + 2" "ss_head s 1 = 0"
    "ss_Right s 0 = N_max" "location x = Some w"
  shows "insert_new m2 x s = Some (s\<lparr>ss_tot := 1, ss_num := M_max + 1,
    ss_last := (ss_last s)(M_max + 2 := 0), ss_Next := (ss_Next s)(M_max + 2 := 0), ss_sum := (ss_sum s)(M_max + 2 := 1),
    ss_Next2 := (ss_Next2 s)(M_max + 2 := ss_head2 s w), ss_head2 := (ss_head2 s)(w := M_max + 2),
    ss_data := (ss_data s)(M_max + 2 := x), ss_head := (ss_head s)(1 := M_max + 2),
    ss_Left := (ss_Left s)(1 := 0, N_max := 1), ss_Right := (ss_Right s)(1 := N_max, 0 := 1)\<rparr>)"
proof -
  have near: "near_bucket hs (- 9) 0 = None" for hs by (simp add: near_bucket.simps)
  have e: "chk elem_len (M_max + 2) = Some ()" by (simp add: elem_len_def M_max_def)
  have b: "chk bucket_len 1 = Some ()" "chk bucket_len 0 = Some ()" "chk bucket_len N_max = Some ()" by (simp_all add: N_max_def)
  have m: "\<not> m2 < 1" using assms(2) by simp
  show ?thesis
    using m e b hash_chk [OF assms(7)]
    by (simp add: insert_new_def getid_def assms add2_def link_def linkhead_def near evict_loop.simps [of m2] Let_def fun_upd_twist)
qed

text \<open>A flow that is found in a free element of an empty summary: its counter is linked, \<open>tot\<close> stays 0.\<close>

lemma insert_stale:
  assumes "ss_tot s = 0" "ss_sum s i = 0" "ss_last s i = 0" "ss_Next s i = 0" "ss_head s 0 = 0" "ss_head s 1 = 0"
    "ss_Left s 0 = 0" "ss_Right s 0 = N_max" "1 \<le> i" "i \<le> M_max + 2"
  shows "insert_again i s = Some (s\<lparr>ss_sum := (ss_sum s)(i := 1), ss_Next := (ss_Next s)(i := 0), ss_last := (ss_last s)(i := 0),
    ss_head := (ss_head s)(1 := i), ss_Left := (ss_Left s)(N_max := 0, 1 := 0, N_max := 1),
    ss_Right := (ss_Right s)(0 := N_max, 1 := N_max, 0 := 1)\<rparr>)"
proof -
  have near: "near_bucket hs (- 9) 0 = None" for hs by (simp add: near_bucket.simps)
  have b: "chk bucket_len 1 = Some ()" "chk bucket_len 0 = Some ()" "chk bucket_len N_max = Some ()" by (simp_all add: N_max_def)
  have N: "N_max \<noteq> 0" "N_max \<noteq> 1" by (simp_all add: N_max_def)
  show ?thesis
    using b N elem_chk [OF assms(9,10)] assms(1-8,9)
    by (simp add: insert_again_def cut_def cuthead_def link_def linkhead_def near Let_def)
qed

text \<open>The next new flow is given that element once more, and is linked behind itself.\<close>

lemma insert_reused:
  assumes "ss_tot s = 0" "0 < m2" "ss_num s = M_max + 2" "ss_ID s (M_max + 2) = M_max + 2" "ss_head s 1 = M_max + 2"
    "location y = Some w"
  shows "insert_new m2 y s = Some (s\<lparr>ss_tot := 1, ss_num := M_max + 1,
    ss_last := (ss_last s)(M_max + 2 := 0), ss_Next := (ss_Next s)(M_max + 2 := M_max + 2), ss_sum := (ss_sum s)(M_max + 2 := 1),
    ss_Next2 := (ss_Next2 s)(M_max + 2 := ss_head2 s w), ss_head2 := (ss_head2 s)(w := M_max + 2),
    ss_data := (ss_data s)(M_max + 2 := y)\<rparr>)"
proof -
  have e: "chk elem_len (M_max + 2) = Some ()" "M_max + 2 \<noteq> 0" by (simp_all add: elem_len_def M_max_def)
  have b: "chk bucket_len 1 = Some ()" by (simp add: N_max_def)
  have h: "(ss_head s)(1 := M_max + 2) = ss_head s" using assms(5) by auto
  show ?thesis
    using assms(2) e b hash_chk [OF assms(6)] h
    by (simp add: insert_new_def getid_def assms(1,3-6) add2_def link_def evict_loop.simps [of m2] Let_def)
qed

lemma collect_cycle:
  assumes "ss_Next s j = j" "1 \<le> j" "j \<le> M_max + 2"
  shows "collect_elems s j q = None"
proof (induction "MAX_MEM + 10 - length q" arbitrary: q rule: less_induct)
  case less
  show ?case
  proof (cases "length q < MAX_MEM + 10")
    case True
    then have "collect_elems s j (q @ [\<lparr>q_x = ss_data s j, q_y = ss_sum s j\<rparr>]) = None" by (intro less) simp
    then show ?thesis using True assms by (subst collect_elems.simps) simp
  next
    case False
    then show ?thesis using assms by (subst collect_elems.simps) simp
  qed
qed

lemma work_cycle:
  assumes "ss_head (sv_ss S) N_max = 0" "ss_Left (sv_ss S) N_max = 1" "ss_head (sv_ss S) 1 = j" "ss_Next (sv_ss S) j = j"
    "1 \<le> j" "j \<le> M_max + 2"
  shows "work L S = None"
proof -
  have "collect_buckets (sv_ss S) 1 [] = None"
    using collect_cycle [OF assms(4-6)] assms(3) by (subst collect_buckets.simps) (simp add: N_max_def)
  then have "collect_buckets (sv_ss S) N_max [] = None"
    using assms(1,2) by (subst collect_buckets.simps) (simp add: collect_elems.simps N_max_def bucket_len_def)
  then show ?thesis by (simp add: work_def)
qed

text \<open>
  The summary that the dump of an interval with the one flow \<open>x\<close> leaves behind: empty, except that the
  last element is still on the hash chain of \<open>x\<close> with its key.
\<close>

definition stale :: "tuple_3_t \<Rightarrow> ssummary \<Rightarrow> bool" where
  "stale x s \<longleftrightarrow>
     ss_tot s = 0 \<and> ss_sum s (M_max + 2) = 0 \<and> ss_last s (M_max + 2) = 0 \<and> ss_Next s (M_max + 2) = 0 \<and> ss_head s 0 = 0 \<and>
     ss_head s 1 = 0 \<and> ss_head s N_max = 0 \<and> ss_Left s 0 = 0 \<and> ss_Right s 0 = N_max \<and> ss_num s = M_max + 2 \<and>
     ss_ID s (M_max + 2) = M_max + 2 \<and> ss_data s (M_max + 2) = x \<and> ss_Next2 s (M_max + 2) = 0 \<and>
     (\<forall>w. location x = Some w \<longrightarrow> ss_head2 s w = M_max + 2) \<and>
     (\<forall>y w. location y = Some w \<longrightarrow> ss_head2 s w = M_max + 2 \<or> ss_head2 s w = 0)"

lemma elem_last: "1 \<le> M_max + 2" "M_max + 2 \<le> M_max + 2" "chk elem_len (M_max + 2) = Some ()" "M_max + 2 \<noteq> 0"
  by (simp_all add: elem_len_def M_max_def)

lemma ss_M_range: "0 < ss_M" "ss_M \<le> M_max"
  by (simp_all add: ss_M_def M_max_def)

text \<open>What \<open>clear\<close> makes of the summary with one counted flow.\<close>

lemma first_insert_stale:
  assumes "head2_zero g" "location x = Some w" "w \<noteq> 0" "insert_new ss_M x (ss_clear (ssummary_new ss_M g)) = Some s"
  shows "stale x (ss_clear s)"
proof -
  let ?g = "ss_clear (ssummary_new ss_M g)"
  have w: "0 \<le> w" "w < len2" using location_range [OF assms(2)] by simp_all
  have z: "ss_head2 ?g v = 0" if "location y = Some v" for y v
    using assms(1) location_range [OF that] by (simp add: head2_zero_def ss_clear_def ssummary_new_def)
  have g: "ss_tot ?g = 0" "ss_num ?g = M_max + 2" "ss_ID ?g (M_max + 2) = M_max + 2" "ss_head ?g 1 = 0" "ss_Right ?g 0 = N_max"
    by (simp_all add: ss_clear_def ssummary_new_def N_max_def M_max_def)
  note ins = insert_first [OF g(1) ss_M_range(1) g(2-5) assms(2)]
  have s: "ss_head2 s = (ss_head2 ?g)(w := M_max + 2)" "ss_data s (M_max + 2) = x" "ss_Next s (M_max + 2) = 0"
    using assms(4) unfolding ins by auto
  have h2: "ss_head2 (ss_clear s) v = (if v = w then M_max + 2 else 0)" if "location y = Some v" for y v
    using z [OF that] assms(3) location_range [OF that] s(1) by (auto simp: ss_clear_def)
  show ?thesis unfolding stale_def
    using h2 assms(2) s(2,3) by (auto simp: ss_clear_def N_max_def M_max_def elem_len_def)
qed

lemma first_interval_stale:
  assumes "std_laws L" "head2_zero g" "100000 \<le> length f1" "location x \<noteq> Some 0"
  shows "\<exists>T1 T2. count_flows [x] (space_saving_init g f1 f2) = Some T1 \<and> top_k_dump L T1 = Some (0, T2) \<and>
    stale x (sv_ss (sv T2)) \<and> M2 (sv T2) = ss_M \<and> be_able_to_insert (sv T2)"
proof -
  let ?T = "space_saving_init g f1 f2" and ?g = "ss_clear (ssummary_new ss_M g)"
  obtain w where w: "location x = Some w" "w \<noteq> 0" using location_ok [of x] assms(4) by auto
  have ok0: "sv_ok ss_M (sv ?T) []" using spacesaving_new_ok [OF assms(2) ss_M_range(1)] by (simp add: space_saving_init_def)
  have "int (length ([] :: tuple_3_t list)) + 1 < N_max" by (simp add: N_max_def)
  from Insert_ok [OF ok0 ss_M_range this, of x] obtain S1 where
    S1: "Insert x (sv ?T) = Some S1" "sv_ok ss_M S1 [x]" "sv_K S1 = top_K"
    by (auto simp: space_saving_init_def spacesaving_new_def)
  have "ss_head2 ?g w = 0" using assms(2) location_range [OF w(1)] by (simp add: head2_zero_def ss_clear_def ssummary_new_def)
  then have "ss_find ?g x = Some 0" using w(1) by (simp add: ss_find_def find_from.simps)
  then have "insert_new ss_M x ?g = Some (sv_ss S1)"
    using S1(1) by (auto simp: Insert_def Let_def bind_eq_Some_conv space_saving_init_def spacesaving_new_def)
  then have st: "stale x (ss_clear (sv_ss S1))" by (rule first_insert_stale [OF assms(2) w])
  define T1 where "T1 = ?T\<lparr>sv := S1\<rparr>"
  have c1: "count_flows [x] ?T = Some T1" by (simp add: count_flows_def S1(1) T1_def)
  from S1(2) obtain bs els hc where inv1: "ss_inv (sv_ss (sv T1)) bs els hc" "ss_tot (sv_ss (sv T1)) \<le> ss_M"
    by (auto simp: sv_ok_def T1_def)
  have "ss_tot (sv_ss (sv T1)) \<le> int MAX_MEM + 10" using inv1(2) by (simp add: ss_M_def MAX_MEM_def)
  from top_k_dump_run [OF assms(1) inv1(1) this, of f1] obtain T2 where
    "top_k_dump L T1 = Some (0, T2)" "sv_ss (sv T2) = ss_clear (sv_ss S1)" "M2 (sv T2) = ss_M" "be_able_to_insert (sv T2)"
    using S1(2,3) assms(3)
    by (auto simp: T1_def top_K_def sv_ok_def space_saving_init_def spacesaving_new_def flow_table_init_def)
  then show ?thesis using c1 st by auto
qed

lemma second_interval_cycle:
  assumes "stale x (sv_ss S)" "M2 S = ss_M" "be_able_to_insert S" "x \<noteq> y"
  shows "\<exists>S3. Insert_all [x, y] S = Some S3 \<and> work L (S3\<lparr>total_pkt := 0\<rparr>) = None"
proof -
  let ?h = "sv_ss S" and ?i = "M_max + 2"
  obtain w v where w: "location x = Some w" "location y = Some v" using location_ok by meson
  have h: "ss_tot ?h = 0" "ss_sum ?h ?i = 0" "ss_last ?h ?i = 0" "ss_Next ?h ?i = 0" "ss_head ?h 0 = 0" "ss_head ?h 1 = 0"
    "ss_Left ?h 0 = 0" "ss_Right ?h 0 = N_max" "ss_num ?h = ?i" "ss_ID ?h ?i = ?i" "ss_head ?h N_max = 0"
    "ss_data ?h ?i = x" "ss_Next2 ?h ?i = 0" "ss_head2 ?h w = ?i" "ss_head2 ?h v = ?i \<or> ss_head2 ?h v = 0"
    using assms(1) w unfolding stale_def by blast+
  have "ss_find ?h x = Some ?i" using w(1) h(12,14) elem_last by (simp add: ss_find_def find_from.simps [of _ _ ?i])
  moreover obtain s2 where s2: "insert_again ?i ?h = Some s2" "ss_tot s2 = 0" "ss_num s2 = ?i" "ss_ID s2 ?i = ?i" "ss_head s2 1 = ?i"
    "ss_head s2 N_max = 0" "ss_Left s2 N_max = 1" "ss_head2 s2 = ss_head2 ?h" "ss_data s2 = ss_data ?h" "ss_Next2 s2 = ss_Next2 ?h"
    using insert_stale [OF h(1-8) elem_last(1,2)] h by (auto simp: N_max_def)
  moreover define S2 where "S2 = S\<lparr>total_pkt := total_pkt S + 1, sv_ss := s2\<rparr>"
  ultimately have I2: "Insert x S = Some S2" using assms(2,3) elem_last(4) by (simp add: Insert_def Let_def)
  have "find_from s2 y ?i = Some 0" "find_from s2 y 0 = Some 0"
    using assms(4) elem_last s2(9,10) h(12,13) by (simp_all add: find_from.simps [of _ _ ?i] find_from.simps [of _ _ 0])
  then have fy: "ss_find s2 y = Some 0" using w(2) h(15) s2(8) by (auto simp: ss_find_def)
  obtain s3 where s3: "insert_new ss_M y s2 = Some s3" "ss_head s3 N_max = 0" "ss_Left s3 N_max = 1" "ss_head s3 1 = ?i" "ss_Next s3 ?i = ?i"
    using insert_reused [OF s2(2) ss_M_range(1) s2(3-5) w(2)] s2(5-7) by auto
  define S3 where "S3 = S2\<lparr>total_pkt := total_pkt S2 + 1, sv_ss := s3\<rparr>"
  have I3: "Insert y S2 = Some S3" using fy s3(1) assms(2,3) by (simp add: Insert_def Let_def S2_def S3_def)
  have "work L (S3\<lparr>total_pkt := 0\<rparr>) = None"
    by (rule work_cycle [OF _ _ _ _ elem_last(1,2)]) (simp_all add: S3_def s3)
  then show ?thesis using I2 I3 by auto
qed

text \<open>
  C32. The detection does not survive its second interval. Whatever two different flows \<open>x\<close> and \<open>y\<close> are,
  unless the hash of \<open>x\<close> is 0: when \<open>x\<close> is the flow of the first interval and \<open>x\<close> and \<open>y\<close> are those of
  the second, then the dump of the first interval succeeds, both flows are counted, and the dump of the
  second interval runs around a cycle of elements and out of the array \<open>q\<close>.
\<close>

theorem second_dump_faults:
  assumes "std_laws L" "head2_zero g" "100000 \<le> length f1" "x \<noteq> y" "location x \<noteq> Some 0"
  shows "\<exists>T1 T2 T3. count_flows [x] (space_saving_init g f1 f2) = Some T1 \<and> top_k_dump L T1 = Some (0, T2) \<and>
    count_flows [x, y] T2 = Some T3 \<and> top_k_dump L T3 = None"
proof -
  from first_interval_stale [OF assms(1-3,5)] obtain T1 T2 where
    T: "count_flows [x] (space_saving_init g f1 f2) = Some T1" "top_k_dump L T1 = Some (0, T2)"
    "stale x (sv_ss (sv T2))" "M2 (sv T2) = ss_M" "be_able_to_insert (sv T2)" by blast
  from second_interval_cycle [OF T(3-5) assms(4)] obtain S3 where
    S3: "Insert_all [x, y] (sv T2) = Some S3" "work L (S3\<lparr>total_pkt := 0\<rparr>) = None" by blast
  have "count_flows [x, y] T2 = Some (T2\<lparr>sv := S3\<rparr>)" using S3(1) by (simp add: count_flows_def)
  moreover have "top_k_dump L (T2\<lparr>sv := S3\<rparr>) = None" using S3(2) by (simp add: top_k_dump_def Let_def)
  ultimately show ?thesis using T(1,2) by blast
qed

section \<open>Concrete runs\<close>

definition std0 :: std_lib where
  "std0 = \<lparr>sort_nodes = sort_key (\<lambda>n. - q_y n), sort_flows = sort_key flow_id\<rparr>"

lemma std_laws_std0: "std_laws std0"
proof -
  have "sorted_wrt (\<lambda>a b. \<not> node_cmp b a) (sort_key (\<lambda>n. - q_y n) xs)" for xs
    using sorted_sort_key [of "\<lambda>n. - q_y n" xs] by (simp add: sorted_map node_cmp_def not_less)
  moreover have "sorted_wrt (\<lambda>a b. \<not> flow_lt b a) (sort_key flow_id xs)" for xs
    using sorted_sort_key [of flow_id xs]
    by (simp add: sorted_map flow_lt_def less_tuple_3_t_def [symmetric] not_less)
  ultimately show ?thesis by (simp add: std_laws_def std0_def)
qed

definition zero_summary :: ssummary where
  "zero_summary = \<lparr>ss_tot = 0, ss_sum = (\<lambda>_. 0), ss_K = 0, ss_last = (\<lambda>_. 0), ss_Next = (\<lambda>_. 0), ss_ID = (\<lambda>_. 0),
     ss_head = (\<lambda>_. 0), ss_Left = (\<lambda>_. 0), ss_Right = (\<lambda>_. 0), ss_num = 0, ss_data = (\<lambda>_. Tuple_3 0 0 0),
     ss_head2 = (\<lambda>_. 0), ss_Next2 = (\<lambda>_. 0)\<rparr>"

lemma head2_zero_summary: "head2_zero zero_summary"
  by (simp add: head2_zero_def zero_summary_def)

definition flow1 :: tuple_3_t where "flow1 = Tuple_3 1 2 3"
definition flow2 :: tuple_3_t where "flow2 = Tuple_3 1 2 4"

definition flows0 :: "flow_table_element_t list" where
  "flows0 = replicate 100000 \<lparr>flow_id = flow1, flow_count = 0\<rparr>"

text \<open>The hash of the first flow, computed step by step.\<close>

lemma location_flow1: "location flow1 = Some 13323"
proof -
  have p: "prime32 ! 1000 = 7927" unfolding prime32_def by simp
  have s: "to_str flow1 = [49, 50, 51]" by (simp add: to_str_def flow1_def digits_of.simps)
  have t: "tail11 [49, 50, 51] (0x9e3779b9, 0x9e3779b9, 7927) = mix (2657790954, 2654435769, 7930)"
    by (simp add: tail11_def Let_def)
  have m: "mix_row 13 8 13 (2657790954, 2654435769, 7930) = (3347255, 2903994504, 1387328384)"
    "mix_row 12 16 5 (3347255, 2903994504, 1387328384) = (7308320, 3721853160, 1921302975)"
    "mix_row 3 10 15 (7308320, 3721853160, 1921302975) = (3192082766, 2689326555, 334811649)"
    by (simp_all add: mix_row_def)
  have "bob_blocks [49, 50, 51] (0x9e3779b9, 0x9e3779b9, 7927) = (3192082766, 2689326555, 334811649)"
    unfolding bob_blocks.simps [of "[49, 50, 51]"] t mix_def m by simp
  then show ?thesis by (simp add: location_def s p BOBHash32_run_def MAX_PRIME32_def len2_def)
qed

lemma Insert_all_refines_witness:
  "\<exists>S'. Insert_all [flow1, flow2, flow1] (sv (spacesaving_new 1 1 zero_summary [] [])) = Some S' \<and>
     count_run 1 [flow1, flow2, flow1] (ss_counts (sv_ss S'))"
  using Insert_all_refines [OF head2_zero_summary, of 1 "[flow1, flow2, flow1]" 1 "[]" "[]"] by (simp add: M_max_def N_max_def)

lemma space_saving_guarantee_witness:
  "\<exists>T. count_flows [flow1] (space_saving_init zero_summary [] []) = Some T \<and> ss_counts (sv_ss (sv T)) flow1 \<noteq> None"
  using space_saving_guarantee [OF head2_zero_summary, of "[flow1]" "[]" "[]"] by (auto simp: N_max_def)

lemma flow12: "flow1 \<noteq> flow2" "flow1 < flow2"
  by (simp_all add: flow1_def flow2_def less_tuple_3_t_def tuple_lt_def)

text \<open>Two flows in three reports, and the first of them is the top 1.\<close>

lemma top_k_dump_exact_witness:
  "\<exists>T T' f. count_flows [flow1, flow2, flow1] (spacesaving_new 4 1 zero_summary flows0 flows0) = Some T \<and>
     top_k_dump std0 T = Some (0, T') \<and> used_flows (new_table T') = Some [f] \<and> flow_id f = flow1 \<and> unat (flow_count f) = 2"
proof -
  let ?ts = "[flow1, flow2, flow1]"
  have len: "int (length flows0) = 100000" by (simp add: flows0_def)
  obtain T T' fs where T: "count_flows ?ts (spacesaving_new 4 1 zero_summary flows0 flows0) = Some T" "top_k_dump std0 T = Some (0, T')"
    "used_flows (new_table T') = Some fs" "length fs = min 1 (card (dom (ss_counts (sv_ss (sv T)))))"
    "\<forall>f \<in> set fs. ss_counts (sv_ss (sv T)) (flow_id f) = Some (unat (flow_count f))"
    "\<forall>t n. ss_counts (sv_ss (sv T)) t = Some n \<and> t \<notin> flow_id ` set fs \<longrightarrow> (\<forall>f \<in> set fs. n \<le> unat (flow_count f))"
    using top_k_dump_exact [OF std_laws_std0 head2_zero_summary, of 4 ?ts 1 flows0 flows0] len by (auto simp: MAX_MEM_def N_max_def)
  let ?c = "ss_counts (sv_ss (sv T))"
  have "count_run 4 ?ts ?c"
    using Insert_all_ok [OF spacesaving_new_ok [OF head2_zero_summary, of 4], of ?ts 1 flows0 flows0] T(1)
    by (auto simp: count_flows_def sv_ok_def M_max_def N_max_def)
  note C = counts_okD [OF counts_ok_run [OF this]]
  have "(\<Sum>t \<in> dom ?c. 1) \<le> (\<Sum>t \<in> dom ?c. the (?c t))"
    by (rule sum_mono) (use C(4) in \<open>fastforce simp: Suc_le_eq\<close>)
  then have room: "card (dom ?c) < 4" using C(3) by simp
  have two: "count_list ?ts flow1 = 2" using flow12(1) by simp
  then have "?c flow1 \<noteq> None" using C(7) room by force
  then obtain n where n: "?c flow1 = Some n" by blast
  then have n2: "n = 2" using C(9) [OF room n] two by simp
  have "dom ?c \<noteq> {}" using n by auto
  then have "card (dom ?c) \<noteq> 0" using C(1) by simp
  then obtain f where f: "fs = [f]" using T(4) by (cases fs) auto
  have cf: "unat (flow_count f) = count_list ?ts (flow_id f)" using C(9) [OF room] T(5) f by simp
  have "flow_id f = flow1"
  proof (rule ccontr)
    assume ne: "flow_id f \<noteq> flow1"
    then have "flow1 \<notin> flow_id ` set fs" using f by auto
    then have "2 \<le> unat (flow_count f)" using T(6) n n2 f by (metis list.set_intros(1))
    then show False using cf ne by (simp split: if_split_asm)
  qed
  then show ?thesis using T(1,2,3) f cf two by auto
qed

lemma second_dump_faults_witness:
  "\<exists>T1 T2 T3. count_flows [flow1] (space_saving_init zero_summary flows0 flows0) = Some T1 \<and> top_k_dump std0 T1 = Some (0, T2) \<and>
    count_flows [flow1, flow2] T2 = Some T3 \<and> top_k_dump std0 T3 = None"
proof (rule second_dump_faults [OF std_laws_std0 head2_zero_summary])
  show "100000 \<le> length flows0" by (simp add: flows0_def)
  show "flow1 \<noteq> flow2" by (rule flow12)
  show "location flow1 \<noteq> Some 0" by (simp add: location_flow1)
qed

end
