(* ===== verification/Main_Start.thy ===== *)
theory Main_Start
  imports Decimal Top_K
begin

text \<open>
  \<open>agent/main.c\<close>: the command line, the start of the switch driver, the two threads, and the end of the
  process. The calls of the operating system and of the driver's library are arguments, among them whether
  the shell that was asked for and each of the driver's threads ever end.
\<close>

section \<open>The command line\<close>

text \<open>
  \<open>getopt_long\<close> for a list of long options (name, whether it has an argument, value) and a string of short
  ones without arguments: its results one after the other with \<open>optarg\<close>. A long option may be cut as long
  as its meaning is clear; \<open>63\<close> is \<open>?\<close>. What is no option is passed over.
\<close>

type_synonym long_opt = "string \<times> bool \<times> int"

definition long_find :: "long_opt list \<Rightarrow> string \<Rightarrow> (bool \<times> int) option" where
  "long_find opts n =
     (case map_of opts n of
        Some o' \<Rightarrow> Some o'
      | None \<Rightarrow>
          (case remdups (map snd (filter (\<lambda>(m, _). take (length n) m = n) opts)) of
             [o'] \<Rightarrow> Some o'
           | _ \<Rightarrow> None))"

definition split_eq :: "string \<Rightarrow> string \<times> string option" where
  "split_eq a =
     (let n = takeWhile (\<lambda>c. c \<noteq> CHR ''='') a
      in (n, if n = a then None else Some (drop (length n + 1) a)))"

fun getopt_long :: "long_opt list \<Rightarrow> string \<Rightarrow> string list \<Rightarrow> (int \<times> string) list" where
  "getopt_long opts sh [] = []"
| "getopt_long opts sh (a # as) =
     (if a = ''--'' then []
      else if take 2 a = ''--'' then
        (let (n, v) = split_eq (drop 2 a) in
         case long_find opts n of
           None \<Rightarrow> (63, []) # getopt_long opts sh as
         | Some (False, c) \<Rightarrow> (if v = None then (c, []) else (63, [])) # getopt_long opts sh as
         | Some (True, c) \<Rightarrow>
             (case v of
                Some x \<Rightarrow> (c, x) # getopt_long opts sh as
              | None \<Rightarrow>
                  (case as of
                     [] \<Rightarrow> [(63, [])]
                   | x # as' \<Rightarrow> (c, x) # getopt_long opts sh as')))
      else if take 1 a = ''-'' \<and> a \<noteq> ''-'' then
        map (\<lambda>c. (if c \<in> set sh then of_char c else 63, [])) (tl a) @ getopt_long opts sh as
      else getopt_long opts sh as)"

text \<open>\<open>atoi\<close>: 0 for a text without digits, and undefined for a number that is no \<open>int\<close>.\<close>

definition atoi :: "string \<Rightarrow> int option" where
  "atoi s =
     (let t = dropWhile is_space s;
          t = (if t \<noteq> [] \<and> (hd t = CHR ''-'' \<or> hd t = CHR ''+'') then tl t else t)
      in if takeWhile is_digit t = [] then Some 0 else stoi s)"

section \<open>The state of the process's start\<close>

datatype cli_modes = No_interactive_cli | Interactive_ucli | Interactive_bfshell

datatype drv_thread = Tmr | Dma | Int_thr | Pkt | Port_fsm | Drusim | Agent_thr nat

text \<open>The members of the driver's context that the agent uses; a thread number 0 is no thread.\<close>

record switchd_ctx =
  install_dir :: "string option"
  conf_file :: "string option"
  kernel_pkt :: bool
  running_in_background :: bool
  dev_sts_thread :: bool
  dev_sts_port :: int
  agent_t_id :: "nat list"

text \<open>What the main thread does that others see, the latest first.\<close>

datatype main_act =
    Start_pmd int
  | Start_topk int
  | Sleep int
  | Detach_topk
  | Run_ucli
  | Run_bfshell
  | Join drv_thread

text \<open>
  \<open>g_detection\<close> is the pointer to the detection of large flows (\<open>shc::space_saving\<close>), NULL in a new
  process; only \<open>hal_init\<close> sets it.
\<close>

record main_g =
  switchd :: switchd_ctx
  requested_cli_mode :: cli_modes
  bf_tmr_thr_core :: int
  g_detection :: "topk option"
  acts :: "main_act list"

text \<open>An exit with its code and the message that is printed.\<close>

type_synonym exit = "int \<times> string"

record os_lib =
  os_geteuid :: int
  os_switchd_lib_init :: "switchd_ctx \<Rightarrow> int \<times> switchd_ctx"
  os_setaffinity :: "int \<Rightarrow> int"
  os_pipe :: "int \<times> int"
  os_create_pmd :: int
  os_create_topk :: int
  os_shell_ends :: bool
  os_thread_ends :: "drv_thread \<Rightarrow> bool"

definition act :: "main_act \<Rightarrow> main_g \<Rightarrow> main_g" where
  "act a g = g\<lparr>acts := a # acts g\<rparr>"

definition main_g_zero :: "nat \<Rightarrow> main_g" where
  "main_g_zero n = \<lparr>switchd = \<lparr>install_dir = None, conf_file = None, kernel_pkt = False, running_in_background = False,
       dev_sts_thread = False, dev_sts_port = 0, agent_t_id = replicate n 0\<rparr>,
     requested_cli_mode = No_interactive_cli, bf_tmr_thr_core = 2, g_detection = None, acts = []\<rparr>"

section \<open>The options\<close>

definition OPT_SDEINSTALLDIR :: int where "OPT_SDEINSTALLDIR = 1"
definition OPT_P4CONFFILE :: int where "OPT_P4CONFFILE = 2"
definition OPT_BFSHELL :: int where "OPT_BFSHELL = 3"
definition OPT_P4KERNELPKT :: int where "OPT_P4KERNELPKT = 4"
definition OPT_BFTMRCORE :: int where "OPT_BFTMRCORE = 5"

lemmas opt_defs = OPT_SDEINSTALLDIR_def OPT_P4CONFFILE_def OPT_BFSHELL_def OPT_P4KERNELPKT_def OPT_BFTMRCORE_def

definition options :: "long_opt list" where
  "options =
     [(''help'', False, of_char (CHR ''h'')),
      (''sde_install-dir'', True, OPT_SDEINSTALLDIR),
      (''p4-conf'', True, OPT_P4CONFFILE),
      (''bfshell'', False, OPT_BFSHELL),
      (''kernel-pkt'', False, OPT_P4KERNELPKT),
      (''bf-tmr-cpu'', True, OPT_BFTMRCORE)]"

fun parse_loop :: "(int \<times> string) list \<Rightarrow> main_g \<Rightarrow> (exit + main_g) option" where
  "parse_loop [] g = Some (Inr g)"
| "parse_loop ((c, optarg) # rs) g =
     (if c = OPT_SDEINSTALLDIR then parse_loop rs (g\<lparr>switchd := (switchd g)\<lparr>install_dir := Some optarg\<rparr>\<rparr>)
      else if c = OPT_P4CONFFILE then parse_loop rs (g\<lparr>switchd := (switchd g)\<lparr>conf_file := Some optarg\<rparr>\<rparr>)
      else if c = OPT_BFSHELL then parse_loop rs (g\<lparr>requested_cli_mode := Interactive_bfshell\<rparr>)
      else if c = OPT_P4KERNELPKT then parse_loop rs (g\<lparr>switchd := (switchd g)\<lparr>kernel_pkt := True\<rparr>\<rparr>)
      else if c = OPT_BFTMRCORE then do {
        n \<leftarrow> atoi optarg;
        parse_loop rs (g\<lparr>bf_tmr_thr_core := n\<rparr>)
      }
      else if c = of_char (CHR ''h'') \<or> c = of_char (CHR ''?'') then
        Some (Inl (if c = of_char (CHR ''h'') then 0 else 1, ''Usage''))
      else Some (Inl (0, ''Invalid option'')))"

definition parse_options :: "string list \<Rightarrow> main_g \<Rightarrow> (exit + main_g) option" where
  "parse_options argv g = do {
     r \<leftarrow> parse_loop (getopt_long options ''h'' (tl argv)) g;
     case r of
       Inl e \<Rightarrow> Some (Inl e)
     | Inr g \<Rightarrow>
         if install_dir (switchd g) = None then Some (Inl (0, ''ERROR : --sde_install-dir must be specified''))
         else if conf_file (switchd g) = None then Some (Inl (0, ''ERROR : --p4-conf must be specified''))
         else Some (Inr g)
   }"

section \<open>The driver, the threads, the shell\<close>

text \<open>The platform's type is no longer asked for: the thread is never bound.\<close>

definition bf_tmr_thr_cpu_affinity_set :: "os_lib \<Rightarrow> main_g \<Rightarrow> exit option" where
  "bf_tmr_thr_cpu_affinity_set OS g =
     (let is_sw_model = True in
      if \<not> is_sw_model \<and> os_setaffinity OS (bf_tmr_thr_core g) \<noteq> 0 then Some (1, ''Failed to bind bf_timer_src to cpu'')
      else None)"

definition bf_switchd_lib_init_post :: "os_lib \<Rightarrow> main_g \<Rightarrow> exit option" where
  "bf_switchd_lib_init_post OS g = bf_tmr_thr_cpu_affinity_set OS g"

definition bf_switchd_init :: "os_lib \<Rightarrow> main_g \<Rightarrow> exit + main_g" where
  "bf_switchd_init OS g =
     (if os_geteuid OS \<noteq> 0 then Inl (1, ''Need to run as root user! Exiting !'')
      else
        let c = (switchd g)\<lparr>running_in_background := False, dev_sts_thread := True, dev_sts_port := 7777\<rparr>;
            (status, c) = os_switchd_lib_init OS c;
            g = g\<lparr>switchd := c\<rparr>
        in if status \<noteq> 0 then Inl (1, ''Failed to initialize libbf_switchd'')
           else (case bf_switchd_lib_init_post OS g of Some e \<Rightarrow> Inl e | None \<Rightarrow> Inr g))"

text \<open>
  A shell and a thread that is waited for may never end: then \<open>main\<close> does not go on, the value \<open>None\<close>.
\<close>

definition run_shell :: "os_lib \<Rightarrow> main_act \<Rightarrow> main_g \<Rightarrow> main_g option" where
  "run_shell OS sh g = (if os_shell_ends OS then Some (act sh g) else None)"

fun join_threads :: "os_lib \<Rightarrow> drv_thread list \<Rightarrow> main_g \<Rightarrow> main_g option" where
  "join_threads OS [] g = Some g"
| "join_threads OS (t # ts) g = (if os_thread_ends OS t then join_threads OS ts (act (Join t) g) else None)"

fun join_agents :: "os_lib \<Rightarrow> nat \<Rightarrow> nat list \<Rightarrow> main_g \<Rightarrow> main_g option" where
  "join_agents OS i [] g = Some g"
| "join_agents OS i (t # ts) g = do {
     g \<leftarrow> (if t \<noteq> 0 then join_threads OS [Agent_thr i] g else Some g);
     join_agents OS (Suc i) ts g
   }"

definition run_cli_or_cleanup :: "os_lib \<Rightarrow> main_g \<Rightarrow> main_g option" where
  "run_cli_or_cleanup OS g = do {
     g \<leftarrow> (if requested_cli_mode g = Interactive_ucli then run_shell OS Run_ucli g
           else if requested_cli_mode g = Interactive_bfshell then run_shell OS Run_bfshell g
           else Some g);
     if requested_cli_mode g \<noteq> No_interactive_cli then do {
       g \<leftarrow> join_threads OS [Tmr, Dma, Int_thr, Pkt, Port_fsm, Drusim] g;
       join_agents OS 0 (agent_t_id (switchd g)) g
     }
     else Some g
   }"

text \<open>\<open>main\<close> up to the second thread. The call of \<open>hal_init\<close> is commented out.\<close>

definition main_threads :: "os_lib \<Rightarrow> string list \<Rightarrow> main_g \<Rightarrow> (exit + main_g) option" where
  "main_threads OS argv g = do {
     r \<leftarrow> parse_options argv g;
     case r of
       Inl e \<Rightarrow> Some (Inl e)
     | Inr g \<Rightarrow> Some
         (case bf_switchd_init OS g of
            Inl e \<Rightarrow> Inl e
          | Inr g \<Rightarrow>
              let (ret, fd) = os_pipe OS in
              if ret \<noteq> 0 then Inl (1, ''Create pipe faild'')
              else if os_create_pmd OS \<noteq> 0 then Inl (1, ''Failed to create shc pmd thread'')
              else
                let g = act (Start_pmd fd) g in
                if os_create_topk OS \<noteq> 0 then Inl (1, ''Failed to create shc top k thread'')
                else Inr (act (Start_topk 5) g))
   }"

text \<open>
  The loop that waits for the packet thread: \<open>ready n\<close> is what the \<open>n\<close>-th look at its flag finds.
\<close>

partial_function (option) wait_ready :: "(nat \<Rightarrow> bool) \<Rightarrow> nat \<Rightarrow> main_g \<Rightarrow> main_g option" where
  "wait_ready ready n g = (if ready n then Some g else wait_ready ready (Suc n) (act (Sleep 1) g))"

definition main :: "os_lib \<Rightarrow> string list \<Rightarrow> (nat \<Rightarrow> bool) \<Rightarrow> main_g \<Rightarrow> (exit + main_g) option" where
  "main OS argv ready g = do {
     r \<leftarrow> main_threads OS argv g;
     case r of
       Inl e \<Rightarrow> Some (Inl e)
     | Inr g \<Rightarrow> do {
         g \<leftarrow> wait_ready ready 0 (act (Sleep 2) g);
         g \<leftarrow> run_cli_or_cleanup OS (act Detach_topk g);
         Some (Inr g)
       }
   }"

section \<open>Command lines\<close>

text \<open>
  A well-formed option as one word or as two, what it means, and what a line of them means: each in its
  turn, so that a later one overrides an earlier one. A core number that is no \<open>int\<close> has no meaning.
\<close>

datatype opt_item = Opt_dir bool string | Opt_conf bool string | Opt_shell | Opt_kernel | Opt_core bool string

fun opt_word :: "string \<Rightarrow> bool \<Rightarrow> string \<Rightarrow> string list" where
  "opt_word n two x = (if two then [''--'' @ n, x] else [''--'' @ n @ ''='' @ x])"

fun item_words :: "opt_item \<Rightarrow> string list" where
  "item_words (Opt_dir two x) = opt_word ''sde_install-dir'' two x"
| "item_words (Opt_conf two x) = opt_word ''p4-conf'' two x"
| "item_words Opt_shell = [''--bfshell'']"
| "item_words Opt_kernel = [''--kernel-pkt'']"
| "item_words (Opt_core two x) = opt_word ''bf-tmr-cpu'' two x"

fun item_means :: "opt_item \<Rightarrow> main_g \<Rightarrow> main_g option" where
  "item_means (Opt_dir two x) g = Some (g\<lparr>switchd := (switchd g)\<lparr>install_dir := Some x\<rparr>\<rparr>)"
| "item_means (Opt_conf two x) g = Some (g\<lparr>switchd := (switchd g)\<lparr>conf_file := Some x\<rparr>\<rparr>)"
| "item_means Opt_shell g = Some (g\<lparr>requested_cli_mode := Interactive_bfshell\<rparr>)"
| "item_means Opt_kernel g = Some (g\<lparr>switchd := (switchd g)\<lparr>kernel_pkt := True\<rparr>\<rparr>)"
| "item_means (Opt_core two x) g = map_option (\<lambda>n. g\<lparr>bf_tmr_thr_core := n\<rparr>) (atoi x)"

fun items_mean :: "opt_item list \<Rightarrow> main_g \<Rightarrow> main_g option" where
  "items_mean [] g = Some g"
| "items_mean (i # is) g = Option.bind (item_means i g) (items_mean is)"

lemma parse_item:
  "parse_loop (getopt_long options ''h'' (item_words i @ ws)) g =
     Option.bind (item_means i g) (parse_loop (getopt_long options ''h'' ws))"
  by (cases i) (auto simp: split_eq_def long_find_def options_def opt_defs split: Option.bind_splits option.splits)

lemma parse_items:
  "parse_loop (getopt_long options ''h'' (concat (map item_words is) @ ws)) g =
     Option.bind (items_mean is g) (parse_loop (getopt_long options ''h'' ws))"
proof (induction "is" arbitrary: g)
  case (Cons i "is")
  show ?case
    by (cases "item_means i g") (simp_all add: parse_item Cons del: item_words.simps item_means.simps)
qed simp

text \<open>
  C26. The command line: after any well-formed options (in one word or in two, in any order and number, the
  last of a kind counting) \<open>parse_options\<close> has stored what they mean, and asks for an installation
  directory and a configuration that were not given. The repository's run script (\<open>agent/proj_run.sh\<close>) does
  not get there: its first word starts with \<open>--sde-dir=\<close>, which is no option (the program's is
  \<open>--sde_install-dir\<close>). Whatever the script's variables expand to, and whatever well-formed options are put
  before it, that word ends the process with the usage and the code 1 before anything is started.
\<close>

theorem command_line:
  "parse_options (prog # concat (map item_words is)) g = do {
     g \<leftarrow> items_mean is g;
     if install_dir (switchd g) = None then Some (Inl (0, ''ERROR : --sde_install-dir must be specified''))
     else if conf_file (switchd g) = None then Some (Inl (0, ''ERROR : --p4-conf must be specified''))
     else Some (Inr g)
   } \<and>
   main OS (prog # concat (map item_words is) @ (''--sde-dir='' @ w) # ws) ready g =
     map_option (\<lambda>_. Inl (1, ''Usage'')) (items_mean is g)"
proof
  have "parse_loop (getopt_long options ''h'' (concat (map item_words is))) g = map_option Inr (items_mean is g)"
    using parse_items [of "is" "[]" g] by (cases "items_mean is g") simp_all
  then show "parse_options (prog # concat (map item_words is)) g = do {
     g \<leftarrow> items_mean is g;
     if install_dir (switchd g) = None then Some (Inl (0, ''ERROR : --sde_install-dir must be specified''))
     else if conf_file (switchd g) = None then Some (Inl (0, ''ERROR : --p4-conf must be specified''))
     else Some (Inr g)
   }"
    by (cases "items_mean is g") (simp_all add: parse_options_def)
  have "parse_loop (getopt_long options ''h'' ((''--sde-dir='' @ w) # ws)) g' = Some (Inl (1, ''Usage''))" for g'
    by (simp add: split_eq_def long_find_def options_def opt_defs)
  then show "main OS (prog # concat (map item_words is) @ (''--sde-dir='' @ w) # ws) ready g =
     map_option (\<lambda>_. Inl (1, ''Usage'')) (items_mean is g)"
    using parse_items [of "is" "(''--sde-dir='' @ w) # ws" g]
    by (cases "items_mean is g") (simp_all add: main_def main_threads_def parse_options_def)
qed

section \<open>The end of the process\<close>

lemma wait_ready_ends:
  assumes "ready (n + k)" "\<And>j. j < k \<Longrightarrow> \<not> ready (n + j)"
  shows "wait_ready ready n g = Some (g\<lparr>acts := replicate k (Sleep 1) @ acts g\<rparr>)"
  using assms
proof (induction k arbitrary: n g)
  case (Suc k)
  from Suc.prems(2) [of 0] have "\<not> ready n" by simp
  moreover have "wait_ready ready (Suc n) (act (Sleep 1) g) =
      Some ((act (Sleep 1) g)\<lparr>acts := replicate k (Sleep 1) @ acts (act (Sleep 1) g)\<rparr>)"
    using Suc.prems(1) Suc.prems(2) [of "Suc _"] by (intro Suc.IH) simp_all
  ultimately show ?case
    by (subst wait_ready.simps) (simp add: act_def replicate_append_same [symmetric])
qed (simp add: wait_ready.simps)

lemma wait_ready_ready:
  assumes "wait_ready ready n g = Some g'" shows "\<exists>m. ready m"
  by (rule wait_ready.raw_induct [OF _ assms]) (auto split: if_split_asm)

text \<open>The threads that are waited for, in their order.\<close>

definition agent_thrs :: "nat \<Rightarrow> nat list \<Rightarrow> drv_thread list" where
  "agent_thrs i ts = map (\<lambda>(k, t). Agent_thr k) (filter (\<lambda>(k, t). t \<noteq> 0) (enumerate i ts))"

definition driver_thrs :: "main_g \<Rightarrow> drv_thread list" where
  "driver_thrs g = [Tmr, Dma, Int_thr, Pkt, Port_fsm, Drusim] @ agent_thrs 0 (agent_t_id (switchd g))"

lemma join_threads_eq:
  "join_threads OS ts g =
     (if list_all (os_thread_ends OS) ts then Some (g\<lparr>acts := rev (map Join ts) @ acts g\<rparr>) else None)"
  by (induction ts arbitrary: g) (simp_all add: act_def)

lemma join_agents_eq: "join_agents OS i ts g = join_threads OS (agent_thrs i ts) g"
  by (induction ts arbitrary: i g) (simp_all add: agent_thrs_def join_threads_eq)

lemma run_cli_or_cleanup_eq:
  "run_cli_or_cleanup OS g =
     (if requested_cli_mode g = No_interactive_cli then Some g
      else if os_shell_ends OS \<and> list_all (os_thread_ends OS) (driver_thrs g)
      then Some (g\<lparr>acts := rev (map Join (driver_thrs g)) @
             (if requested_cli_mode g = Interactive_ucli then Run_ucli else Run_bfshell) # acts g\<rparr>)
      else None)"
  by (cases "requested_cli_mode g")
     (auto simp: run_cli_or_cleanup_def run_shell_def act_def join_agents_eq join_threads_eq driver_thrs_def)

text \<open>What precedes the threads leaves no trace.\<close>

lemma parse_loop_acts: "parse_loop rs g = Some (Inr g') \<Longrightarrow> acts g' = acts g"
  by (induction rs g rule: parse_loop.induct) (auto split: if_splits Option.bind_split_asm)

lemma parse_loop_detection: "parse_loop rs g = Some (Inr g') \<Longrightarrow> g_detection g' = g_detection g"
  by (induction rs g rule: parse_loop.induct) (auto split: if_splits Option.bind_split_asm)

text \<open>The call of \<open>hal_init\<close> is commented out, and nothing else makes the detection.\<close>

lemma main_threads_detection:
  assumes "main_threads OS argv (main_g_zero k) = Some (Inr g)" shows "g_detection g = None"
  using assms
  by (auto simp: main_threads_def parse_options_def bf_switchd_init_def act_def Let_def bf_switchd_lib_init_post_def main_g_zero_def
      bf_tmr_thr_cpu_affinity_set_def dest!: parse_loop_detection split: Option.bind_split_asm sum.split_asm if_split_asm prod.split_asm)

lemma main_threads_acts:
  assumes "main_threads OS argv g = Some (Inr g')"
  shows "acts g' = Start_topk 5 # Start_pmd (snd (os_pipe OS)) # acts g"
  using assms
  by (auto simp: main_threads_def parse_options_def bf_switchd_init_def act_def Let_def bf_switchd_lib_init_post_def
      bf_tmr_thr_cpu_affinity_set_def dest!: parse_loop_acts split: Option.bind_split_asm sum.split_asm if_split_asm prod.split_asm)

text \<open>
  C25. Once both threads are made, \<open>main\<close> returns exactly if the packet thread becomes ready and, when a shell
  was asked for, the shell and every thread of the driver that is then joined end. When it returns, it has
  looked at the packet thread's flag once a second until the first time it was set, detached the other
  thread, and, only with a shell, waited for the driver's threads in their order.
\<close>

theorem main_ends:
  assumes "main_threads OS argv (main_g_zero k) = Some (Inr g)"
  shows "case main OS argv ready (main_g_zero k) of
      None \<Rightarrow> (\<forall>n. \<not> ready n) \<or> requested_cli_mode g \<noteq> No_interactive_cli \<and>
        \<not> (os_shell_ends OS \<and> list_all (os_thread_ends OS) (driver_thrs g))
    | Some r \<Rightarrow> \<exists>n g'. ready n \<and> (\<forall>j < n. \<not> ready j) \<and> r = Inr g' \<and>
        (requested_cli_mode g \<noteq> No_interactive_cli \<longrightarrow> os_shell_ends OS \<and> list_all (os_thread_ends OS) (driver_thrs g)) \<and>
        acts g' = (if requested_cli_mode g = No_interactive_cli then []
                   else rev (map Join (driver_thrs g)) @
                     [if requested_cli_mode g = Interactive_ucli then Run_ucli else Run_bfshell]) @
          [Detach_topk] @ replicate n (Sleep 1) @ [Sleep 2, Start_topk 5, Start_pmd (snd (os_pipe OS))]"
proof (cases "\<exists>n. ready n")
  case True
  define n where "n = (LEAST n. ready n)"
  have n: "ready n" "\<And>j. j < n \<Longrightarrow> \<not> ready j"
    unfolding n_def using LeastI_ex [OF True] not_less_Least by blast+
  let ?g = "act Detach_topk ((act (Sleep 2) g)\<lparr>acts := replicate n (Sleep 1) @ acts (act (Sleep 2) g)\<rparr>)"
  have run: "main OS argv ready (main_g_zero k) = map_option Inr (run_cli_or_cleanup OS ?g)"
    using wait_ready_ends [of ready 0 n "act (Sleep 2) g"] n by (simp add: main_def assms map_conv_bind_option comp_def)
  have g: "acts ?g = [Detach_topk] @ replicate n (Sleep 1) @ [Sleep 2, Start_topk 5, Start_pmd (snd (os_pipe OS))]"
    "requested_cli_mode ?g = requested_cli_mode g" "driver_thrs ?g = driver_thrs g"
    using main_threads_acts [OF assms] by (simp_all add: act_def main_g_zero_def driver_thrs_def)
  show ?thesis
    unfolding run run_cli_or_cleanup_eq using n g by auto
next
  case False
  then have "wait_ready ready 0 (act (Sleep 2) g) = None"
    by (cases "wait_ready ready 0 (act (Sleep 2) g)") (auto dest: wait_ready_ready)
  then show ?thesis using False by (simp add: main_def assms)
qed

text \<open>A root user without a shell, and a packet thread that is ready at the third look.\<close>

definition os0 :: os_lib where
  "os0 = \<lparr>os_geteuid = 0, os_switchd_lib_init = Pair 0, os_setaffinity = (\<lambda>_. 0), os_pipe = (0, 4),
     os_create_pmd = 0, os_create_topk = 0, os_shell_ends = True, os_thread_ends = (\<lambda>t. t \<noteq> Pkt)\<rparr>"

definition argv0 :: "string list" where
  "argv0 = [''agent'', ''--p4-conf=c'', ''--sde_inst'', ''d'']"

lemma main_threads0:
  "main_threads os0 argv0 (main_g_zero 2) =
     Some (Inr ((main_g_zero 2)\<lparr>switchd := (switchd (main_g_zero 2))\<lparr>install_dir := Some ''d'', conf_file := Some ''c'',
       dev_sts_thread := True, dev_sts_port := 7777\<rparr>, acts := [Start_topk 5, Start_pmd 4]\<rparr>))"
  by (simp add: main_threads_def argv0_def os0_def parse_options_def split_eq_def long_find_def options_def opt_defs
      bf_switchd_init_def bf_switchd_lib_init_post_def bf_tmr_thr_cpu_affinity_set_def act_def main_g_zero_def)

text \<open>The same with a shell never returns, since one of the driver's threads does not end.\<close>

lemma main_threads0_shell:
  "\<exists>g. main_threads os0 (argv0 @ [''--bfshell'']) (main_g_zero 2) = Some (Inr g) \<and> requested_cli_mode g = Interactive_bfshell"
  by (simp add: main_threads_def argv0_def os0_def parse_options_def split_eq_def long_find_def options_def opt_defs
      bf_switchd_init_def bf_switchd_lib_init_post_def bf_tmr_thr_cpu_affinity_set_def act_def main_g_zero_def)

lemma main_ends_witness:
  "(\<exists>g. main os0 argv0 (\<lambda>n. n = 2) (main_g_zero 2) = Some (Inr g) \<and>
     acts g = [Detach_topk, Sleep 1, Sleep 1, Sleep 2, Start_topk 5, Start_pmd 4]) \<and>
   main os0 (argv0 @ [''--bfshell'']) (\<lambda>n. n = 2) (main_g_zero 2) = None"
proof
  show "\<exists>g. main os0 argv0 (\<lambda>n. n = 2) (main_g_zero 2) = Some (Inr g) \<and>
     acts g = [Detach_topk, Sleep 1, Sleep 1, Sleep 2, Start_topk 5, Start_pmd 4]"
    using main_ends [OF main_threads0, of "\<lambda>n. n = 2"]
    by (auto simp: main_g_zero_def os0_def numeral_2_eq_2 split: option.splits)
  obtain g where g: "main_threads os0 (argv0 @ [''--bfshell'']) (main_g_zero 2) = Some (Inr g)"
    "requested_cli_mode g = Interactive_bfshell" using main_threads0_shell by blast
  from main_ends [OF g(1), of "\<lambda>n. n = 2"] g(2)
  show "main os0 (argv0 @ [''--bfshell'']) (\<lambda>n. n = 2) (main_g_zero 2) = None"
    by (auto simp: driver_thrs_def os0_def split: option.splits)
qed

end
