(* ===== verification/Route_Cleanup.thy ===== *)
theory Route_Cleanup
  imports Route_Ops
begin

text \<open>
  \<open>shc_route_cleanup\<close> of \<open>agent/route.c\<close>: a sweep over a shared table with an iterator, deleting the
  entries of one VRF as it goes. The interface \<open>sweep\<close> says what the sweep needs of the iterator and of
  the deletion; the routes provide it.
\<close>

section \<open>Sweeping a table\<close>

text \<open>
  The loop, with fuel: from position \<open>i\<close> the next entry is looked up; a victim is deleted, any other
  entry skipped.
\<close>

fun sweep_loop ::
  "('s \<Rightarrow> nat \<Rightarrow> ('k \<times> nat) option) \<Rightarrow> ('k \<Rightarrow> bool) \<Rightarrow> ('k \<Rightarrow> 's \<Rightarrow> 's option) \<Rightarrow> nat \<Rightarrow> nat \<Rightarrow> 's \<Rightarrow> 's option" where
  "sweep_loop next victim del 0 i s = None"
| "sweep_loop next victim del (Suc fuel) i s =
     (case next s i of
        None \<Rightarrow> Some s
      | Some (k, j) \<Rightarrow>
          if victim k then do { s' \<leftarrow> del k s; sweep_loop next victim del fuel j s' }
          else sweep_loop next victim del fuel j s)"

locale sweep =
  fixes entries :: "'s \<Rightarrow> 'k set"
    and pos :: "'s \<Rightarrow> 'k \<Rightarrow> nat"
    and next_entry :: "'s \<Rightarrow> nat \<Rightarrow> ('k \<times> nat) option"
    and victim :: "'k \<Rightarrow> bool"
    and del :: "'k \<Rightarrow> 's \<Rightarrow> 's option"
    and inv :: "'s \<Rightarrow> bool"
  assumes finite_entries: "inv s \<Longrightarrow> finite (entries s)"
    and next_Some: "inv s \<Longrightarrow> next_entry s i = Some (k, j) \<Longrightarrow>
      k \<in> entries s \<and> i \<le> pos s k \<and> j = Suc (pos s k) \<and> (\<forall>k' \<in> entries s. i \<le> pos s k' \<longrightarrow> pos s k \<le> pos s k')"
    and next_None: "inv s \<Longrightarrow> next_entry s i = None \<Longrightarrow> k \<in> entries s \<Longrightarrow> pos s k < i"
    and pos_inj: "inv s \<Longrightarrow> k \<in> entries s \<Longrightarrow> k' \<in> entries s \<Longrightarrow> pos s k = pos s k' \<Longrightarrow> k = k'"
    and del_entry: "inv s \<Longrightarrow> k \<in> entries s \<Longrightarrow> victim k \<Longrightarrow>
      \<exists>s'. del k s = Some s' \<and> inv s' \<and> entries s' = entries s - {k} \<and> (\<forall>k' \<in> entries s'. pos s' k' = pos s k')"
begin

text \<open>The entries still ahead of the iterator.\<close>

definition ahead :: "nat \<Rightarrow> 's \<Rightarrow> 'k set" where
  "ahead i s = {k \<in> entries s. i \<le> pos s k}"

lemma ahead_step:
  assumes "inv s" "next_entry s i = Some (k, j)"
  shows "k \<in> ahead i s" "ahead j s = ahead i s - {k}"
proof -
  note n = next_Some [OF assms]
  then show "k \<in> ahead i s" by (simp add: ahead_def)
  have "k' \<in> ahead j s \<longleftrightarrow> k' \<in> ahead i s - {k}" for k'
  proof (cases "k' \<in> entries s \<and> k' \<noteq> k")
    case True
    then have "pos s k' \<noteq> pos s k" using pos_inj [OF assms(1)] n by metis
    then have "Suc (pos s k) \<le> pos s k' \<longleftrightarrow> i \<le> pos s k'" using n True by fastforce
    then show ?thesis using n True by (simp add: ahead_def)
  qed (use n in \<open>auto simp: ahead_def\<close>)
  then show "ahead j s = ahead i s - {k}" by blast
qed

text \<open>With one step of fuel more than entries ahead, the sweep ends and has deleted exactly the victims ahead.\<close>

lemma sweep_ends:
  "inv s \<Longrightarrow> card (ahead i s) < fuel \<Longrightarrow>
     \<exists>s'. sweep_loop next_entry victim del fuel i s = Some s' \<and> inv s' \<and>
       entries s' = entries s - {k \<in> ahead i s. victim k}"
proof (induction fuel arbitrary: i s)
  case (Suc fuel)
  show ?case
  proof (cases "next_entry s i")
    case None
    have "\<not> i \<le> pos s k" if "k \<in> entries s" for k using next_None [OF Suc.prems(1) None that] by simp
    then have "ahead i s = {}" by (auto simp: ahead_def)
    then show ?thesis using None Suc.prems(1) by simp
  next
    case (Some p)
    then obtain k j where nx: "next_entry s i = Some (k, j)" by (cases p) auto
    note step = ahead_step [OF Suc.prems(1) nx]
    have fin: "finite (ahead i s)" using finite_entries [OF Suc.prems(1)] by (simp add: ahead_def)
    then have less: "card (ahead j s) < fuel" using step Suc.prems(2) card_Suc_Diff1 [OF fin step(1)] by simp
    show ?thesis
    proof (cases "victim k")
      case True
      have "k \<in> entries s" using step(1) by (simp add: ahead_def)
      from del_entry [OF Suc.prems(1) this True] obtain t where t: "del k s = Some t" "inv t"
        "entries t = entries s - {k}" "\<forall>k' \<in> entries t. pos t k' = pos s k'" by blast
      have ah: "ahead j t = ahead j s" using t(3,4) step(2) by (auto simp: ahead_def)
      from Suc.IH [OF t(2), of j] less obtain s' where
        "sweep_loop next_entry victim del fuel j t = Some s'" "inv s'" "entries s' = entries t - {k \<in> ahead j t. victim k}"
        by (auto simp: ah)
      then show ?thesis using nx True t step by (auto simp: ah)
    next
      case False
      from Suc.IH [OF Suc.prems(1) less] obtain s' where
        "sweep_loop next_entry victim del fuel j s = Some s'" "inv s'" "entries s' = entries s - {k \<in> ahead j s. victim k}" by blast
      then show ?thesis using nx False step by auto
    qed
  qed
qed simp

end

section \<open>The routes of a VRF\<close>

text \<open>The parts of the sweep over the agent's state, for the VRF in slot \<open>v\<close>.\<close>

definition rib_entries :: "('h, 'f, 'b) lib \<Rightarrow> ('h, 'f, 'b) agent \<Rightarrow> hkey set" where
  "rib_entries E s = dom (rib_map E s)"

definition rib_next :: "('h, 'f, 'b) lib \<Rightarrow> ('h, 'f, 'b) agent \<Rightarrow> nat \<Rightarrow> (hkey \<times> nat) option" where
  "rib_next E s i = map_option (\<lambda>(k, d, j). (k, j)) (rte_hash_iterate E (rib_tbl s) i)"

definition of_vrf :: "nat \<Rightarrow> hkey \<Rightarrow> bool" where
  "of_vrf v k = (case k of K_rib pfx \<Rightarrow> rk_vrf_id pfx = of_nat v + 1 | _ \<Rightarrow> False)"

definition route_del :: "('h, 'f, 'b) lib \<Rightarrow> nat \<Rightarrow> hkey \<Rightarrow> ('h, 'f, 'b) agent \<Rightarrow> ('h, 'f, 'b) agent option" where
  "route_del E v k s = (case k of K_rib pfx \<Rightarrow> map_option snd (shc_route_delete E v pfx s) | _ \<Rightarrow> None)"

text \<open>The iterator's laws and those of the tables together.\<close>

definition sweep_laws ::
  "('h, 'f, 'b) lib \<Rightarrow> ('b \<Rightarrow> int set) \<Rightarrow> ('f \<Rightarrow> u32 \<times> u8 \<rightharpoonup> int) \<Rightarrow> ('f \<Rightarrow> int) \<Rightarrow> ('h \<Rightarrow> hkey \<Rightarrow> nat) \<Rightarrow> bool" where
  "sweep_laws E us fm fd hpos \<longleftrightarrow> route_laws E us fm fd \<and> iter_laws E hpos"

text \<open>The invariant along the sweep: the routes left are those of \<open>V\<close> whose entries are left.\<close>

definition swept ::
  "('h, 'f, 'b) lib \<Rightarrow> ('b \<Rightarrow> int set) \<Rightarrow> ('f \<Rightarrow> u32 \<times> u8 \<rightharpoonup> int) \<Rightarrow> ('f \<Rightarrow> int) \<Rightarrow> ('h \<Rightarrow> hkey \<Rightarrow> nat) \<Rightarrow> nat
     \<Rightarrow> (hkey \<rightharpoonup> nhop_key \<times> rib_type) \<Rightarrow> ('h, 'f, 'b) agent \<Rightarrow> bool" where
  "swept E us fm fd hpos v V s \<longleftrightarrow> sweep_laws E us fm fd hpos \<and> v < nat SHC_NR_VRF \<and> route_inv E us fm s \<and>
     routes E us s = V |` rib_entries E s"

lemma sweptD:
  assumes "swept E us fm fd hpos v V s"
  shows "route_laws E us fm fd" "iter_laws E hpos" "v < nat SHC_NR_VRF" "route_inv E us fm s"
    "routes E us s = V |` rib_entries E s" "route_core E us fm s"
  using assms by (simp_all add: swept_def sweep_laws_def route_inv_def)

lemma iter_lawsD:
  assumes "iter_laws E hpos"
  shows iter_Some: "rte_hash_iterate E h i = Some (k, d, j) \<Longrightarrow>
        rte_hash_lookup_data E h k = Some d \<and> i \<le> hpos h k \<and> j = Suc (hpos h k) \<and>
        (\<forall>k'. rte_hash_lookup_data E h k' \<noteq> None \<and> i \<le> hpos h k' \<longrightarrow> hpos h k \<le> hpos h k')"
    and iter_None: "rte_hash_iterate E h i = None \<Longrightarrow> rte_hash_lookup_data E h k' \<noteq> None \<Longrightarrow> hpos h k' < i"
    and iter_inj: "rte_hash_lookup_data E h k \<noteq> None \<Longrightarrow> rte_hash_lookup_data E h k' \<noteq> None \<Longrightarrow>
        hpos h k = hpos h k' \<Longrightarrow> k = k'"
    and iter_del: "k' \<noteq> k \<Longrightarrow> rte_hash_lookup_data E h k' \<noteq> None \<Longrightarrow>
        hpos (snd (rte_hash_del_key E h k)) k' = hpos h k'"
  using assms unfolding iter_laws_def by (blast, blast, blast, blast)

lemma swept_key:
  assumes "swept E us fm fd hpos v V s" "k \<in> rib_entries E s"
  obtains w pfx where "k = K_rib pfx" "canon_prefix w pfx"
proof -
  have "routes_ok (rib_map E s) (rib_live us s) (nhop_mem s) (\<lambda>w. fm (fib (vrf_dp_of s w))) (\<lambda>w. rib_cnt (vrf_dp_of s w))"
    using sweptD(6) [OF assms(1)] by (simp add: route_core_def)
  from routes_table [OF this] obj_live assms(2) have "route_key_ok k"
    unfolding rib_entries_def by fastforce
  then show thesis using that by (auto simp: route_key_ok_def rib_tbl_key_def)
qed

lemma route_del_swept:
  assumes inv: "swept E us fm fd hpos v V s" and k: "k \<in> rib_entries E s" "of_vrf v k"
  shows "\<exists>s'. route_del E v k s = Some s' \<and> swept E us fm fd hpos v V s' \<and> rib_entries E s' = rib_entries E s - {k} \<and>
    (\<forall>k' \<in> rib_entries E s'. hpos (rib_tbl s') k' = hpos (rib_tbl s) k')"
proof -
  note I = sweptD [OF inv]
  from swept_key [OF inv k(1)] obtain w pfx where pfx: "k = K_rib pfx" "canon_prefix w pfx" .
  have "w < nat SHC_NR_VRF" "(of_nat w + 1 :: u32) = of_nat v + 1"
    using k(2) pfx by (simp_all add: of_vrf_def canon_prefix_def)
  then have "w = v" using vrf_id_inj [OF _ I(3), of w] by simp
  obtain d where d: "rib_map E s k = Some d" using k(1) by (auto simp: rib_entries_def)
  have key: "k = rib_tbl_key pfx" "canon_prefix v pfx" using pfx \<open>w = v\<close> by (simp_all add: rib_tbl_key_def)
  from shc_route_delete_present [OF I(1,4) key d] obtain s' where
    s': "shc_route_delete E v pfx s = Some (0, s')" "route_inv E us fm s'"
      "routes E us s' = (routes E us s)(k := None)" "rib_tbl s' = snd (rte_hash_del_key E (rib_tbl s) k)" by blast
  have map: "rib_map E s' = (rib_map E s)(k := None)"
    using hash_del [OF route_lawsD(1) [OF I(1)]] by (simp add: rib_map_def s'(4))
  then have ent: "rib_entries E s' = rib_entries E s - {k}" by (auto simp: rib_entries_def)
  have "(V |` rib_entries E s)(k := None) = V |` (rib_entries E s - {k})" by (auto simp: restrict_map_def fun_eq_iff)
  then have "swept E us fm fd hpos v V s'" using s'(2,3) I(5) inv ent by (simp add: swept_def)
  moreover have "hpos (rib_tbl s') k' = hpos (rib_tbl s) k'" if "k' \<in> rib_entries E s'" for k'
    using that ent iter_del [OF I(2), of k' k "rib_tbl s"] by (auto simp: s'(4) rib_entries_def rib_map_def)
  ultimately show ?thesis using s'(1) ent by (auto simp: route_del_def pfx(1))
qed

interpretation rib_sweep: sweep "rib_entries E" "\<lambda>s. hpos (rib_tbl s)" "rib_next E" "of_vrf v" "route_del E v"
  "swept E us fm fd hpos v V"
  for E :: "('h, 'f, 'b) lib" and us fm fd hpos v V
proof
  fix s :: "('h, 'f, 'b) agent" and i k j k'
  assume inv: "swept E us fm fd hpos v V s"
  note I = sweptD [OF inv]
  show "finite (rib_entries E s)"
    using I(6) by (auto simp: route_core_def rib_entries_def dest: routes_finite)
  show "k \<in> rib_entries E s \<and> i \<le> hpos (rib_tbl s) k \<and> j = Suc (hpos (rib_tbl s) k) \<and>
      (\<forall>k' \<in> rib_entries E s. i \<le> hpos (rib_tbl s) k' \<longrightarrow> hpos (rib_tbl s) k \<le> hpos (rib_tbl s) k')"
    if "rib_next E s i = Some (k, j)"
    using that iter_Some [OF I(2), of "rib_tbl s" i k _ j]
    by (auto simp: rib_next_def rib_entries_def rib_map_def)
  show "hpos (rib_tbl s) k < i" if "rib_next E s i = None" "k \<in> rib_entries E s"
    using that iter_None [OF I(2), of "rib_tbl s" i k] by (auto simp: rib_next_def rib_entries_def rib_map_def)
  show "k = k'" if "k \<in> rib_entries E s" "k' \<in> rib_entries E s" "hpos (rib_tbl s) k = hpos (rib_tbl s) k'"
    using that iter_inj [OF I(2), of "rib_tbl s" k k'] by (auto simp: rib_entries_def rib_map_def)
qed (rule route_del_swept)

text \<open>The loop of the code is the sweep, as long as its invariant holds.\<close>

lemma cleanup_loop_sweep:
  "swept E us fm fd hpos v V s \<Longrightarrow>
    route_cleanup_loop E v fuel i s = sweep_loop (rib_next E) (of_vrf v) (route_del E v) fuel i s"
proof (induction fuel arbitrary: i s)
  case (Suc fuel)
  note I = sweptD [OF Suc.prems]
  show ?case
  proof (cases "rte_hash_iterate E (rib_tbl s) i")
    case None
    then show ?thesis by (simp add: rib_next_def)
  next
    case (Some p)
    then obtain k d j where it: "rte_hash_iterate E (rib_tbl s) i = Some (k, d, j)" by (cases p) auto
    then have nx: "rib_next E s i = Some (k, j)" by (simp add: rib_next_def)
    then have k: "k \<in> rib_entries E s" using rib_sweep.next_Some [OF Suc.prems] by blast
    from swept_key [OF Suc.prems k] obtain w pfx where pfx: "k = K_rib pfx" "canon_prefix w pfx" .
    have vid: "vrf_id (vrf_dp_of s v) = of_nat v + 1" using I(3,6) by (simp add: route_core_def)
    show ?thesis
    proof (cases "of_vrf v k")
      case True
      from route_del_swept [OF Suc.prems k True] obtain s' where s': "route_del E v k s = Some s'"
        "swept E us fm fd hpos v V s'" by blast
      then obtain r where "shc_route_delete E v pfx s = Some (r, s')" by (auto simp: route_del_def pfx(1))
      then show ?thesis using it nx True s' Suc.IH [OF s'(2)] by (simp add: pfx(1) vid of_vrf_def)
    next
      case False
      then have "rk_vrf_id pfx \<noteq> of_nat v + 1" by (simp add: of_vrf_def pfx(1))
      then show ?thesis using it nx False Suc.IH [OF Suc.prems] by (auto simp: pfx(1) vid)
    qed
  qed
qed simp

lemma map_restrict_dom: "m |` dom m = m"
  by (rule ext) (simp add: restrict_map_def domIff)

lemma shc_route_cleanup_run:
  assumes "sweep_laws E us fm fd hpos" "route_inv E us fm s" "v < nat SHC_NR_VRF"
    and "card (dom (routes E us s)) < fuel"
  shows "\<exists>s'. shc_route_cleanup E fuel v s = Some (0, s') \<and> route_inv E us fm s' \<and>
    routes E us s' = (\<lambda>k. if of_vrf v k then None else routes E us s k)"
proof -
  have core: "route_core E us fm s" using assms(2) by (simp add: route_inv_def)
  have "(routes E us s k = None) = (rib_map E s k = None)" for k by (rule routes_None_iff [OF core])
  then have dom: "rib_entries E s = dom (routes E us s)" by (simp add: rib_entries_def dom_def)
  have inv: "swept E us fm fd hpos v (routes E us s) s"
    using assms(1-3) by (simp add: swept_def dom map_restrict_dom)
  have all: "rib_sweep.ahead E hpos 0 s = rib_entries E s" by (simp add: rib_sweep.ahead_def)
  from rib_sweep.sweep_ends [OF inv, of 0 fuel] assms(4) obtain s' where
    s': "sweep_loop (rib_next E) (of_vrf v) (route_del E v) fuel 0 s = Some s'"
      "swept E us fm fd hpos v (routes E us s) s'"
      "rib_entries E s' = rib_entries E s - {k \<in> rib_entries E s. of_vrf v k}"
    unfolding all dom by auto
  have "routes E us s' k = (if of_vrf v k then None else routes E us s k)" for k
    using sweptD(5) [OF s'(2)] s'(3) by (cases "routes E us s k") (auto simp: dom restrict_map_def)
  then have "routes E us s' = (\<lambda>k. if of_vrf v k then None else routes E us s k)" ..
  then show ?thesis
    using s'(1) cleanup_loop_sweep [OF inv] sweptD(4) [OF s'(2)] by (simp add: shc_route_cleanup_def)
qed

text \<open>
  C24. The cleanup of a VRF ends, after at most one step per entry of the shared table and one more, and
  has deleted exactly the VRF's routes: those of every other VRF are as they were, and the tables, the
  results, the next hops and all reference counts are consistent again.
\<close>

theorem shc_route_cleanup_contract:
  assumes "sweep_laws E us fm fd hpos" "route_inv E us fm s" "v < nat SHC_NR_VRF"
    and "card (dom (routes E us s)) < fuel"
  shows "\<exists>s'. shc_route_cleanup E fuel v s = Some (0, s') \<and> route_inv E us fm s' \<and>
    routes E us s' = (\<lambda>k. if of_vrf v k then None else routes E us s k)"
  by (rule shc_route_cleanup_run [OF assms])

lemma shc_route_cleanup_contract_witness:
  "\<exists>s'. shc_route_cleanup (lib0 4) 2 0 agent_route = Some (0, s') \<and>
     routes (lib0 4) set s' = Map.empty"
proof -
  have laws: "sweep_laws (lib0 4) set (\<lambda>f. map_of (fst f)) snd slot_pos"
    by (simp add: sweep_laws_def route_laws_lib0 iter_laws_lib0)
  have "of_vrf 0 (rib_tbl_key pfx0)" by (simp add: of_vrf_def rib_tbl_key_def pfx0_def)
  then show ?thesis
    using shc_route_cleanup_contract [OF laws agent_route_ok(1), of 0 2]
    by (auto simp: agent_route_ok(2) SHC_NR_VRF_def fun_eq_iff)
qed

end
