(* ===== verification/Vrf_Life.thy ===== *)
theory Vrf_Life
  imports Route_Cleanup
begin

text \<open>
  \<open>agent/vrf.c\<close>, the life cycle of a VRF: the start-up of the table (\<open>shc_vrf_init\<close>) and the
  deletion of a VRF with its routes and tunnels (\<open>shc_vrf_del\<close>).
\<close>

section \<open>Start-up\<close>

text \<open>
  A zeroed result, as in a freshly mapped array, and a zeroed slot. The pointer to a VRF's LPM table
  is NULL after the \<open>memset\<close>; nothing reads it before \<open>shc_vrf_route_init\<close> sets it, so the zeroed slot
  takes the table as an argument.
\<close>

definition fib_res_zero :: fib_res where
  "fib_res_zero =
     \<lparr>f_res_oid = 0, fr_flags = 0, mpath_cnt = 0, mpath_max = 0, mpath = replicate ROUTE_MAX_ECMP NULL, lpm_em = 0\<rparr>"

definition vrf_zero :: "'f \<Rightarrow> 'f shc_vrf" where
  "vrf_zero f =
     \<lparr>name = [], valid = False,
      dp = \<lparr>fib = f, rib_cnt = 0, tunnel_rmap = [], tunnel_cnt = 0, neigh_cnt = 0, internal_ip = 0,
            route_mac = [0, 0, 0, 0, 0, 0], vrf_id = 0, exit_flag = 0, List_Node = None\<rparr>\<rparr>"

text \<open>
  The loop of \<open>shc_vrf_init\<close>; \<open>first\<close> says whether the static table of \<open>shc_vrf_route_init\<close> has yet to
  be created.
\<close>

fun vrf_init_loop ::
  "('h, 'f, 'b) lib \<Rightarrow> int \<Rightarrow> bool \<Rightarrow> nat list \<Rightarrow> ('h, 'f, 'b) agent \<Rightarrow> ('h, 'f, 'b) agent option" where
  "vrf_init_loop E bh first [] s = Some s"
| "vrf_init_loop E bh first (i # is) s =
     (let s1 = s\<lparr>g_shc_vrfs := (g_shc_vrfs s)(i := vrf_zero (fib (vrf_dp_of s i)))\<rparr>;
          s2 = dp_upd i (\<lambda>d. d\<lparr>vrf_id := of_nat i + 1\<rparr>) s1
      in do {
        (ret, s3) \<leftarrow> shc_vrf_route_init E first i bh s2;
        RTE_ASSERT E (ret = 0);
        vrf_init_loop E bh False is s3
      })"

definition shc_vrf_init :: "('h, 'f, 'b) lib \<Rightarrow> ('h, 'f, 'b) agent \<Rightarrow> (int \<times> ('h, 'f, 'b) agent) option" where
  "shc_vrf_init E s =
     (let (ret, used) = rte_fbarray_init E (SHC_NR_FIB_RES_ALL + 1) in do {
        RTE_ASSERT E (ret = 0);
        let bh = rte_fbarray_find_next_free E used 0;
        RTE_ASSERT E (bh \<ge> 0);
        let (ret, used) = rte_fbarray_set_used E used bh;
        RTE_ASSERT E (ret = 0);
        let s1 = s\<lparr>fib_res_used := used, fib_res_mem := (\<lambda>_. fib_res_zero), f_res_blackhole := bh\<rparr>;
        f_res \<leftarrow> fib_res_get s1 bh;
        let s2 = fib_res_put bh (fib_res_set_flags f_res FRF_REJECT) s1;
        s3 \<leftarrow> vrf_init_loop E bh True vrf_slots s2;
        s4 \<leftarrow> shc_nhop_init E s3;
        Some (0, s4)
      })"

definition shc_vrf_deinit :: int where
  "shc_vrf_deinit = 0"

section \<open>Deletion\<close>

text \<open>\<open>fuel\<close> bounds the sweep over the route table.\<close>

definition shc_vrf_dp_dtor ::
  "('h, 'f, 'b) lib \<Rightarrow> nat \<Rightarrow> nat \<Rightarrow> ('h, 'f, 'b) agent \<Rightarrow> (int \<times> ('h, 'f, 'b) agent) option" where
  "shc_vrf_dp_dtor E fuel v s = do {
     (_, s1) \<leftarrow> shc_route_cleanup E fuel v s;
     (_, s2) \<leftarrow> shc_tunnel_map_cleanup v s1;
     Some (0, dp_upd v (\<lambda>d. d\<lparr>internal_ip := 0\<rparr>) s2)
   }"

definition shc_vrf_del ::
  "('h, 'f, 'b) lib \<Rightarrow> nat \<Rightarrow> string \<Rightarrow> ('h, 'f, 'b) agent \<Rightarrow> (int \<times> ('h, 'f, 'b) agent) option" where
  "shc_vrf_del E fuel vrf_name s = do {
     found \<leftarrow> vrf_find (g_shc_vrfs s) vrf_name vrf_slots;
     case found of
       None \<Rightarrow> Some (0, s)
     | Some i \<Rightarrow> do {
         (_, s1) \<leftarrow> shc_vrf_dp_dtor E fuel i s;
         let s2 = s1\<lparr>g_shc_vrfs := (g_shc_vrfs s1)(i := (g_shc_vrfs s1 i)\<lparr>name := [], valid := False\<rparr>)\<rparr>;
         RTE_ASSERT E (g_shc_vrf_n s2 > 0);
         Some (0, s2\<lparr>g_shc_vrf_n := g_shc_vrf_n s2 - 1\<rparr>)
       }
   }"

section \<open>The state after start-up\<close>

text \<open>The libraries' objects can all be created.\<close>

definition creates_ok :: "('h, 'f, 'b) lib \<Rightarrow> bool" where
  "creates_ok E \<longleftrightarrow> (\<forall>n c. rte_hash_create E n c \<noteq> None) \<and> (\<forall>v m d. rte_fib_create E v m d \<noteq> None) \<and>
     fst (rte_fbarray_init E FIB_RES_LEN) = 0"

lemma creates_okD:
  assumes "creates_ok E"
  shows creates_hash: "\<exists>h. rte_hash_create E n c = Some h"
    and creates_fib: "\<exists>f. rte_fib_create E v m d = Some f"
    and creates_array: "\<exists>b. rte_fbarray_init E FIB_RES_LEN = (0, b)"
  using assms by (auto simp: creates_ok_def prod_eq_iff)

text \<open>Slot \<open>w\<close> after start-up.\<close>

definition slot_init :: "('h, 'f, 'b) lib \<Rightarrow> int \<Rightarrow> nat \<Rightarrow> 'f shc_vrf" where
  "slot_init E bh w =
     (let z = vrf_zero (the (rte_fib_create E (of_nat w + 1) SHC_NR_ROUTES_ALL bh))
      in z\<lparr>dp := (dp z)\<lparr>vrf_id := of_nat w + 1\<rparr>\<rparr>)"

lemma slot_init_simps [simp]:
  "valid (slot_init E bh w) = False" "name (slot_init E bh w) = []"
  "vrf_id (dp (slot_init E bh w)) = of_nat w + 1" "rib_cnt (dp (slot_init E bh w)) = 0"
  "tunnel_rmap (dp (slot_init E bh w)) = []" "tunnel_cnt (dp (slot_init E bh w)) = 0"
  "fib (dp (slot_init E bh w)) = the (rte_fib_create E (of_nat w + 1) SHC_NR_ROUTES_ALL bh)"
  "List_Node (dp (slot_init E bh w)) = None"
  by (simp_all add: slot_init_def vrf_zero_def)

lemma vrf_init_loop_run:
  assumes "creates_ok E" "distinct is"
  shows "vrf_init_loop E bh first is s = Some
    (s\<lparr>g_shc_vrfs := (\<lambda>w. if w \<in> set is then slot_init E bh w else g_shc_vrfs s w),
       rib_tbl := (if first \<and> is \<noteq> [] then the (rte_hash_create E ''SHC_RIB_HASH_TBL'' (SHC_NR_ROUTES_ALL * 2))
                   else rib_tbl s)\<rparr>)"
  using assms(2)
proof (induction "is" arbitrary: first s)
  case (Cons i "is")
  obtain f where f: "rte_fib_create E (of_nat i + 1) SHC_NR_ROUTES_ALL bh = Some f"
    using creates_fib [OF assms(1)] by blast
  obtain h where h: "rte_hash_create E ''SHC_RIB_HASH_TBL'' (SHC_NR_ROUTES_ALL * 2) = Some h"
    using creates_hash [OF assms(1)] by blast
  define s3 where "s3 = s\<lparr>g_shc_vrfs := (g_shc_vrfs s)(i := slot_init E bh i), rib_tbl := (if first then h else rib_tbl s)\<rparr>"
  let ?s2 = "dp_upd i (\<lambda>d. d\<lparr>vrf_id := of_nat i + 1\<rparr>)
      (s\<lparr>g_shc_vrfs := (g_shc_vrfs s)(i := vrf_zero (fib (vrf_dp_of s i)))\<rparr>)"
  have step: "shc_vrf_route_init E first i bh ?s2 = Some (0, s3)"
    by (cases first)
       (auto simp: shc_vrf_route_init_def s3_def f h dp_upd_def slot_init_def vrf_zero_def intro!: agent.equality)
  have "vrf_init_loop E bh first (i # is) s = vrf_init_loop E bh False is s3"
    by (simp add: step Let_def)
  also have "\<dots> = Some (s3\<lparr>g_shc_vrfs := (\<lambda>w. if w \<in> set is then slot_init E bh w else g_shc_vrfs s3 w)\<rparr>)"
    using Cons by simp
  finally show ?case using Cons.prems by (auto simp: s3_def h fun_eq_iff)
qed simp

text \<open>The array with the blackhole's entry taken.\<close>

lemma shc_vrf_init_run:
  assumes "route_laws E us fm fd" "creates_ok E"
  obtains used h g where "us used = {0}" "rte_hash_lookup_data E h = Map.empty" "rte_hash_lookup_data E g = Map.empty"
    "shc_vrf_init E s = Some (0, s\<lparr>fib_res_used := used,
       fib_res_mem := (\<lambda>_. fib_res_zero)(0 := fib_res_set_flags fib_res_zero FRF_REJECT), f_res_blackhole := 0,
       g_shc_vrfs := (\<lambda>w. if w < nat SHC_NR_VRF then slot_init E 0 w else g_shc_vrfs s w),
       rib_tbl := h, nhop_tbl := g\<rparr>)"
proof -
  note L = route_lawsD [OF assms(1)]
  obtain b where b: "rte_fbarray_init E FIB_RES_LEN = (0, b)"
    using creates_array [OF assms(2)] by blast
  note fb = fba_init [OF L(3) b]
  have used: "us (snd (rte_fbarray_set_used E b 0)) = {0}"
    using fba_set_used [OF L(3), of 0 b] fb by (simp add: FIB_RES_LEN_def SHC_NR_FIB_RES_ALL_def)
  obtain h where h: "rte_hash_create E ''SHC_RIB_HASH_TBL'' (SHC_NR_ROUTES_ALL * 2) = Some h"
    using creates_hash [OF assms(2)] by blast
  obtain g where g: "rte_hash_create E ''NEXTHOP_HASH_TBL'' SHC_NR_NHOP_ALL = Some g"
    using creates_hash [OF assms(2)] by blast
  have len: "0 < FIB_RES_LEN" by (simp add: FIB_RES_LEN_def SHC_NR_FIB_RES_ALL_def)
  have slots: "distinct vrf_slots" "vrf_slots \<noteq> []" by (simp_all add: vrf_slots_def SHC_NR_VRF_def)
  show thesis
  proof (rule that [OF used hash_create [OF L(1) h] hash_create [OF L(1) g]])
    show "shc_vrf_init E s = Some (0, s\<lparr>fib_res_used := snd (rte_fbarray_set_used E b 0),
       fib_res_mem := (\<lambda>_. fib_res_zero)(0 := fib_res_set_flags fib_res_zero FRF_REJECT), f_res_blackhole := 0,
       g_shc_vrfs := (\<lambda>w. if w < nat SHC_NR_VRF then slot_init E 0 w else g_shc_vrfs s w),
       rib_tbl := h, nhop_tbl := g\<rparr>)"
      using b fb L(5) len slots g
      by (simp add: shc_vrf_init_def FIB_RES_LEN_def [symmetric] case_prod_unfold Let_def fib_res_get_def fib_res_put_def
          vrf_init_loop_run [OF assms(2)] h shc_nhop_init_def set_vrf_slots cong: if_cong)
  qed
qed

text \<open>No objects are live before start-up.\<close>

definition unborn :: "('h, 'f, 'b) agent \<Rightarrow> bool" where
  "unborn s \<longleftrightarrow> nhop_mem s = Map.empty \<and> neigh_mem s = Map.empty \<and> tunnel_mem s = Map.empty \<and> g_shc_vrf_n s = 0"

lemma obj_table_empty: "obj_table P Map.empty Map.empty"
  by (rule obj_tableI) auto

lemma shc_vrf_init_establishes:
  assumes "route_laws E us fm fd" "creates_ok E" "unborn s"
  shows "\<exists>s'. shc_vrf_init E s = Some (0, s') \<and> vrf_inv s' \<and> valid_slots s' = {} \<and>
    route_core E us fm s' \<and> nhop_inv E s' \<and> routes E us s' = Map.empty \<and> unborn s' \<and>
    (\<forall>w < nat SHC_NR_VRF. tunnel_rmap (vrf_dp_of s' w) = [] \<and> tunnel_cnt (vrf_dp_of s' w) = 0)"
proof -
  note L = route_lawsD [OF assms(1)]
  show ?thesis
  proof (rule shc_vrf_init_run [OF assms(1,2), of s])
    fix used h g
    assume r: "us used = {0}" "rte_hash_lookup_data E h = Map.empty" "rte_hash_lookup_data E g = Map.empty"
      "shc_vrf_init E s = Some (0, s\<lparr>fib_res_used := used,
       fib_res_mem := (\<lambda>_. fib_res_zero)(0 := fib_res_set_flags fib_res_zero FRF_REJECT), f_res_blackhole := 0,
       g_shc_vrfs := (\<lambda>w. if w < nat SHC_NR_VRF then slot_init E 0 w else g_shc_vrfs s w),
       rib_tbl := h, nhop_tbl := g\<rparr>)" (is "_ = Some (0, ?s)")
    have slot: "g_shc_vrfs ?s w = slot_init E 0 w" if "w < nat SHC_NR_VRF" for w using that by simp
    have none: "valid_slots ?s = {}" by (auto simp: valid_slots_def)
    have rib: "rib_map E ?s = Map.empty" "rib_live us ?s = Map.empty" "nhop_mem ?s = Map.empty"
      using r(1,2) assms(3) by (auto simp: rib_map_def rib_live_def unborn_def)
    have fibs: "fm (the (rte_fib_create E (of_nat w + 1) SHC_NR_ROUTES_ALL 0)) = Map.empty" for w :: nat
      using creates_fib [OF assms(2), of "of_nat w + 1" SHC_NR_ROUTES_ALL 0] fib_create [OF L(4)] by fastforce
    have "routes_ok (rib_map E ?s) (rib_live us ?s) (nhop_mem ?s) (\<lambda>w. fm (fib (vrf_dp_of ?s w)))
       (\<lambda>w. rib_cnt (vrf_dp_of ?s w))"
      unfolding rib by (simp add: routes_ok_def obj_table_empty fibs vrf_keys_def)
    then have core: "route_core E us fm ?s"
      using r(1) by (simp add: route_core_def FIB_RES_LEN_def SHC_NR_FIB_RES_ALL_def)
    have "nhop_inv E ?s" using r(3) assms(3) by (simp add: nhop_inv_def obj_table_empty unborn_def)
    moreover have "routes E us ?s = Map.empty" using routes_None_iff [OF core] rib(1) by (simp add: fun_eq_iff)
    moreover have "vrf_inv ?s" unfolding vrf_inv_def none using assms(3) by (simp add: unborn_def)
    moreover have "unborn ?s" using assms(3) by (simp add: unborn_def)
    ultimately show ?thesis using r(4) core none slot by auto
  qed
qed

section \<open>What a deletion leaves alone\<close>

text \<open>The names, the tunnels and the identifiers: what the route operations do not touch.\<close>

definition keeps_vrfs :: "('h, 'f, 'b) agent \<Rightarrow> ('h, 'f, 'b) agent \<Rightarrow> bool" where
  "keeps_vrfs s s' \<longleftrightarrow>
     vrf_hash_tbl s' = vrf_hash_tbl s \<and> tunnel_mem s' = tunnel_mem s \<and> g_shc_vrf_n s' = g_shc_vrf_n s \<and>
     (\<forall>w. vrf_id (vrf_dp_of s' w) = vrf_id (vrf_dp_of s w) \<and>
        tunnel_rmap (vrf_dp_of s' w) = tunnel_rmap (vrf_dp_of s w) \<and>
        tunnel_cnt (vrf_dp_of s' w) = tunnel_cnt (vrf_dp_of s w) \<and>
        valid (g_shc_vrfs s' w) = valid (g_shc_vrfs s w) \<and> name (g_shc_vrfs s' w) = name (g_shc_vrfs s w))"

lemma keeps_vrfs_refl [simp]: "keeps_vrfs s s"
  by (simp add: keeps_vrfs_def)

lemma keeps_vrfs_trans: "keeps_vrfs s t \<Longrightarrow> keeps_vrfs t u \<Longrightarrow> keeps_vrfs s u"
  by (simp add: keeps_vrfs_def)

lemma RTE_ASSERT_bind [simp]: "(RTE_ASSERT E c \<bind> g = Some x) = ((\<not> rte_assert_on E \<or> c) \<and> g () = Some x)"
  by (simp add: RTE_ASSERT_def)

lemma shc_neigh_del_keeps: "shc_neigh_del E v gw s = Some (r, s') \<Longrightarrow> keeps_vrfs s s'"
  by (auto simp: shc_neigh_del_def Let_def keeps_vrfs_def bind_eq_Some_conv split: option.splits if_splits)

lemma nhop_obj_delete_keeps: "nhop_obj_delete E v p s = Some (r, s') \<Longrightarrow> keeps_vrfs s s'"
  by (auto simp: nhop_obj_delete_def Let_def bind_eq_Some_conv case_prod_unfold keeps_vrfs_def split: if_splits
      dest!: shc_neigh_del_keeps)

lemma nhops_delete_keeps: "nhops_delete E v ps s = Some s' \<Longrightarrow> keeps_vrfs s s'"
  by (induction ps arbitrary: s)
     (auto simp: bind_eq_Some_conv dest!: nhop_obj_delete_keeps intro: keeps_vrfs_trans)

lemma rt_prefix_obj_delete_keeps: "rt_prefix_obj_delete E v pfx i s = Some (r, s') \<Longrightarrow> keeps_vrfs s s'"
  by (auto simp: rt_prefix_obj_delete_def Let_def bind_eq_Some_conv case_prod_unfold keeps_vrfs_def)

lemma fib_res_obj_delete_keeps: "fib_res_obj_delete E i s = Some (r, s') \<Longrightarrow> keeps_vrfs s s'"
  by (auto simp: fib_res_obj_delete_def fib_res_id_free_def Let_def bind_eq_Some_conv case_prod_unfold keeps_vrfs_def
      split: if_splits)

lemma shc_route_delete_keeps: "shc_route_delete E v pfx s = Some (r, s') \<Longrightarrow> keeps_vrfs s s'"
  by (auto simp: shc_route_delete_def bind_eq_Some_conv split: option.splits
      dest!: rt_prefix_obj_delete_keeps fib_res_obj_delete_keeps nhops_delete_keeps intro: keeps_vrfs_trans)

lemma route_cleanup_loop_keeps: "route_cleanup_loop E v fuel i s = Some s' \<Longrightarrow> keeps_vrfs s s'"
  by (induction fuel arbitrary: i s)
     (auto simp: bind_eq_Some_conv split: option.splits hkey.splits if_splits
      dest!: shc_route_delete_keeps, blast intro: keeps_vrfs_trans)

lemma shc_route_cleanup_keeps: "shc_route_cleanup E fuel v s = Some (r, s') \<Longrightarrow> keeps_vrfs s s'"
  by (auto simp: shc_route_cleanup_def bind_eq_Some_conv intro: route_cleanup_loop_keeps)

section \<open>The contract of a deletion\<close>

text \<open>The cleanup of the tunnels frees the records on the VRF's list and empties it.\<close>

lemma tunnel_cleanup_loop_run:
  assumes "distinct ps" "\<And>p. p \<in> set ps \<Longrightarrow> tunnel_mem s p \<noteq> None"
  shows "tunnel_cleanup_loop v ps s = Some
    (if ps = [] then s
     else dp_upd v (\<lambda>d. d\<lparr>tunnel_rmap := [], tunnel_cnt := tunnel_cnt d - of_nat (length ps)\<rparr>)
       (s\<lparr>tunnel_mem := (\<lambda>p. if p \<in> set ps then None else tunnel_mem s p)\<rparr>))"
  using assms
proof (induction ps arbitrary: s)
  case (Cons p ps)
  obtain t where t: "tunnel_mem s p = Some t" using Cons.prems(2) by auto
  define s1 where "s1 = dp_upd v (\<lambda>d. d\<lparr>tunnel_rmap := ps, tunnel_cnt := tunnel_cnt d - 1\<rparr>)
      (s\<lparr>tunnel_mem := (tunnel_mem s)(p := None)\<rparr>)"
  have "\<And>q. q \<in> set ps \<Longrightarrow> tunnel_mem s1 q \<noteq> None" using Cons.prems by (auto simp: s1_def)
  note IH = Cons.IH [OF _ this]
  have "tunnel_cleanup_loop v (p # ps) s = tunnel_cleanup_loop v ps s1" by (simp add: t s1_def)
  also have "\<dots> = Some
    (if ps = [] then s1
     else dp_upd v (\<lambda>d. d\<lparr>tunnel_rmap := [], tunnel_cnt := tunnel_cnt d - of_nat (length ps)\<rparr>)
       (s1\<lparr>tunnel_mem := (\<lambda>p. if p \<in> set ps then None else tunnel_mem s1 p)\<rparr>))"
    using IH Cons.prems(1) by simp
  finally show ?case
    by (auto simp: s1_def dp_upd_def fun_eq_iff algebra_simps intro!: agent.equality)
qed simp

text \<open>The destructor: the routes go, the tunnels' records are freed, the internal address is cleared.\<close>

definition tunnels_freed :: "nat \<Rightarrow> ('h, 'f, 'b) agent \<Rightarrow> ('h, 'f, 'b) agent" where
  "tunnels_freed v s =
     dp_upd v (\<lambda>d. d\<lparr>tunnel_rmap := [], tunnel_cnt := 0, internal_ip := 0\<rparr>)
       (s\<lparr>tunnel_mem := (\<lambda>p. if p \<in> set (tunnel_rmap (vrf_dp_of s v)) then None else tunnel_mem s p)\<rparr>)"

lemma keeps_vrfs_tun:
  assumes "keeps_vrfs s s1" shows "tun_inv E s1 = tun_inv E s" "vrf_inv s1 = vrf_inv s" "valid_slots s1 = valid_slots s"
proof -
  note k = assms [unfolded keeps_vrfs_def]
  show v: "valid_slots s1 = valid_slots s" using k by (simp add: valid_slots_def)
  show "tun_inv E s1 = tun_inv E s" unfolding tun_inv_def v using k by simp
  show "vrf_inv s1 = vrf_inv s" unfolding vrf_inv_def v using k by simp
qed

lemma shc_vrf_dp_dtor_run:
  assumes "sweep_laws E us fm fd hpos" "route_inv E us fm s" "v < nat SHC_NR_VRF" "card (dom (routes E us s)) < fuel"
    and "tun_inv E s"
  shows "\<exists>s1. shc_vrf_dp_dtor E fuel v s = Some (0, tunnels_freed v s1) \<and> shc_route_cleanup E fuel v s = Some (0, s1) \<and>
    keeps_vrfs s s1 \<and> route_inv E us fm s1 \<and> routes E us s1 = (\<lambda>k. if of_vrf v k then None else routes E us s k)"
proof -
  from shc_route_cleanup_run [OF assms(1-4)] obtain s1 where s1: "shc_route_cleanup E fuel v s = Some (0, s1)"
    "route_inv E us fm s1" "routes E us s1 = (\<lambda>k. if of_vrf v k then None else routes E us s k)" by blast
  have keep: "keeps_vrfs s s1" by (rule shc_route_cleanup_keeps [OF s1(1)])
  then have tun: "tun_inv E s1" using assms(5) keeps_vrfs_tun by blast
  note row = tun_rmap [OF tun assms(3)]
  have live: "\<And>p. p \<in> set (tunnel_rmap (vrf_dp_of s1 v)) \<Longrightarrow> tunnel_mem s1 p \<noteq> None"
    using row by (auto simp: rmap_of_def)
  have dist: "distinct (tunnel_rmap (vrf_dp_of s1 v))" using row by blast
  note loop = tunnel_cleanup_loop_run [OF dist live, where v = v]
  have end_state: "(if tunnel_rmap (vrf_dp_of s1 v) = [] then s1
     else dp_upd v (\<lambda>d. d\<lparr>tunnel_rmap := [], tunnel_cnt := tunnel_cnt d - of_nat (length (tunnel_rmap (vrf_dp_of s1 v)))\<rparr>)
       (s1\<lparr>tunnel_mem := (\<lambda>p. if p \<in> set (tunnel_rmap (vrf_dp_of s1 v)) then None else tunnel_mem s1 p)\<rparr>)) =
    dp_upd v (\<lambda>d. d\<lparr>tunnel_rmap := [], tunnel_cnt := 0\<rparr>)
       (s1\<lparr>tunnel_mem := (\<lambda>p. if p \<in> set (tunnel_rmap (vrf_dp_of s1 v)) then None else tunnel_mem s1 p)\<rparr>)"
    using row by (auto simp: dp_upd_def fun_eq_iff intro!: agent.equality)
  have "shc_vrf_dp_dtor E fuel v s = Some (0, tunnels_freed v s1)"
    using s1(1) loop [unfolded end_state]
    by (simp add: shc_vrf_dp_dtor_def shc_tunnel_map_cleanup_def tunnels_freed_def dp_upd_def)
  then show ?thesis using s1 keep by blast
qed

text \<open>The slot is marked free.\<close>

definition slot_freed :: "nat \<Rightarrow> ('h, 'f, 'b) agent \<Rightarrow> ('h, 'f, 'b) agent" where
  "slot_freed v s =
     (let s' = tunnels_freed v s in
      s'\<lparr>g_shc_vrfs := (g_shc_vrfs s')(v := (g_shc_vrfs s' v)\<lparr>name := [], valid := False\<rparr>),
         g_shc_vrf_n := g_shc_vrf_n s' - 1\<rparr>)"

lemma slot_freed_simps [simp]:
  "g_shc_vrf_n (slot_freed v s) = g_shc_vrf_n s - 1" "vrf_hash_tbl (slot_freed v s) = vrf_hash_tbl s"
  "valid (g_shc_vrfs (slot_freed v s) w) = (w \<noteq> v \<and> valid (g_shc_vrfs s w))"
  "name (g_shc_vrfs (slot_freed v s) w) = (if w = v then [] else name (g_shc_vrfs s w))"
  "vrf_id (vrf_dp_of (slot_freed v s) w) = vrf_id (vrf_dp_of s w)"
  "rib_cnt (vrf_dp_of (slot_freed v s) w) = rib_cnt (vrf_dp_of s w)"
  "fib (vrf_dp_of (slot_freed v s) w) = fib (vrf_dp_of s w)"
  "tunnel_rmap (vrf_dp_of (slot_freed v s) w) = (if w = v then [] else tunnel_rmap (vrf_dp_of s w))"
  "tunnel_cnt (vrf_dp_of (slot_freed v s) w) = (if w = v then 0 else tunnel_cnt (vrf_dp_of s w))"
  "tunnel_mem (slot_freed v s) p = (if p \<in> set (tunnel_rmap (vrf_dp_of s v)) then None else tunnel_mem s p)"
  "rib_tbl (slot_freed v s) = rib_tbl s" "fib_res_mem (slot_freed v s) = fib_res_mem s"
  "fib_res_used (slot_freed v s) = fib_res_used s" "f_res_blackhole (slot_freed v s) = f_res_blackhole s"
  "nhop_tbl (slot_freed v s) = nhop_tbl s" "nhop_mem (slot_freed v s) = nhop_mem s"
  "neigh_tbl (slot_freed v s) = neigh_tbl s" "neigh_mem (slot_freed v s) = neigh_mem s"
  by (simp_all add: slot_freed_def tunnels_freed_def Let_def)

lemma valid_slots_freed [simp]: "valid_slots (slot_freed v s) = valid_slots s - {v}"
  by (auto simp: valid_slots_def)

lemma is_vrf_freed: "is_vrf (slot_freed v s) nm i \<longleftrightarrow> is_vrf s nm i \<and> i \<noteq> v"
  by (auto simp: is_vrf_def)

lemma vrf_inv_freed:
  assumes "vrf_inv s" "v \<in> valid_slots s" shows "vrf_inv (slot_freed v s)"
proof -
  have "inj_on (\<lambda>i. name (g_shc_vrfs (slot_freed v s) i)) (valid_slots s - {v})"
    using assms(1) by (auto simp: vrf_inv_def inj_on_def)
  moreover have "0 < card (valid_slots s)" using assms(2) card_gt_0_iff by fastforce
  then have "int (card (valid_slots s - {v})) = int (card (valid_slots s)) - 1"
    using assms(2) by (simp add: card_Diff_singleton of_nat_diff)
  ultimately show ?thesis using assms(1) by (simp add: vrf_inv_def)
qed

lemma route_inv_freed:
  "route_inv E us fm (slot_freed v s) = route_inv E us fm s" "routes E us (slot_freed v s) = routes E us s"
proof -
  have same: "rib_map E (slot_freed v s) = rib_map E s" "rib_live us (slot_freed v s) = rib_live us s"
    by (simp_all add: rib_map_def rib_live_def fun_eq_iff)
  show "routes E us (slot_freed v s) = routes E us s" by (rule routes_cong) (simp_all add: same)
  have "route_core E us fm (slot_freed v s) = route_core E us fm s"
    by (rule route_core_cong) (simp_all add: same)
  then show "route_inv E us fm (slot_freed v s) = route_inv E us fm s"
    by (simp add: route_inv_def nhop_inv_def neigh_inv_def)
qed

lemma tun_inv_freed:
  assumes "tun_inv E s" "tunnel_rmap (vrf_dp_of s v) = []" "v < nat SHC_NR_VRF"
  shows "tun_inv E (slot_freed v s)"
proof -
  have none: "rmap_of (tunnel_mem s) v = {}" using tun_rmap [OF assms(1,3)] assms(2) by simp
  have mem: "tunnel_mem (slot_freed v s) = tunnel_mem s" using assms(2) by (simp add: fun_eq_iff)
  note tab = tun_table [OF assms(1)]
  have "obj_table (\<lambda>_ t. \<exists>i \<in> valid_slots s - {v}. ti_vrf_id t = of_nat i + 1)
       (rte_hash_lookup_data E (vrf_hash_tbl s)) (tunnel_mem s)"
  proof (rule obj_tableI)
    fix k p assume "rte_hash_lookup_data E (vrf_hash_tbl s) k = Some p"
    from obj_live [OF tab this] obtain t i where
      "tunnel_mem s p = Some t" "i \<in> valid_slots s" "ti_vrf_id t = of_nat i + 1" by blast
    then show "\<exists>t. tunnel_mem s p = Some t \<and> (\<exists>i \<in> valid_slots s - {v}. ti_vrf_id t = of_nat i + 1)"
      using none by (auto simp: rmap_of_def)
  qed (use obj_inj [OF tab] obj_noleak [OF tab] in blast)+
  then show ?thesis using tun_rmap [OF assms(1)] none by (simp add: tun_inv_def mem)
qed

text \<open>The tables keep the keys of the freed tunnels.\<close>

lemma freed_tunnel_faults:
  assumes "tun_inv E s" "v < nat SHC_NR_VRF" "tunnel_vrf E s (tunnel_key type tid) = Some (of_nat v + 1)" "\<not> rte_assert_on E"
  shows "shc_tunnel_map_vrf_lookup E type tid flag (slot_freed v s) = None"
proof -
  obtain p where p: "rte_hash_lookup_data E (vrf_hash_tbl s) (tunnel_key type tid) = Some p"
    using assms(3) tunnel_unmapped [of E s "tunnel_key type tid"]
    by (cases "rte_hash_lookup_data E (vrf_hash_tbl s) (tunnel_key type tid)") auto
  from tunnel_mappedE [OF assms(1) p] obtain t where "tunnel_mem s p = Some t" "ti_vrf_id t = of_nat v + 1"
    using assms(3) by (metis option.inject)
  then have "p \<in> set (tunnel_rmap (vrf_dp_of s v))" using tun_rmap [OF assms(1,2)] by (auto simp: rmap_of_def)
  then show ?thesis using p assms(4) by (simp add: shc_tunnel_map_vrf_lookup_def)
qed

lemma shc_vrf_del_run:
  assumes "sweep_laws E us fm fd hpos" "route_inv E us fm s" "vrf_inv s" "tun_inv E s"
    and "card (dom (routes E us s)) < fuel"
  obtains (no) "\<And>i. \<not> is_vrf s nm i" "shc_vrf_del E fuel nm s = Some (0, s)"
  | (vrf) v s1 where "is_vrf s nm v" "\<And>j. is_vrf s nm j \<longleftrightarrow> j = v" "v \<in> valid_slots s" "v < nat SHC_NR_VRF"
      "shc_vrf_del E fuel nm s = Some (0, slot_freed v s1)" "shc_route_cleanup E fuel v s = Some (0, s1)"
      "keeps_vrfs s s1" "route_inv E us fm s1" "routes E us s1 = (\<lambda>k. if of_vrf v k then None else routes E us s k)"
  using assms(3)
proof (cases rule: shc_vrf_lookup_spec [of s nm, case_names none found])
  case none
  then show ?thesis using no by (simp add: shc_vrf_del_def shc_vrf_lookup_def)
next
  case (found v)
  have v: "v \<in> valid_slots s" "v < nat SHC_NR_VRF" using found(1) by (auto simp: is_vrf_def valid_slots_def)
  from shc_vrf_dp_dtor_run [OF assms(1,2) v(2) assms(5,4)] obtain s1 where
    s1: "shc_vrf_dp_dtor E fuel v s = Some (0, tunnels_freed v s1)" "shc_route_cleanup E fuel v s = Some (0, s1)"
      "keeps_vrfs s s1" "route_inv E us fm s1" "routes E us s1 = (\<lambda>k. if of_vrf v k then None else routes E us s k)" by blast
  have "\<not> rte_assert_on E" using assms(1) by (auto simp: sweep_laws_def route_laws_def)
  then have "shc_vrf_del E fuel nm s = Some (0, slot_freed v s1)"
    using found(3) s1(1) by (simp add: shc_vrf_del_def shc_vrf_lookup_def slot_freed_def Let_def)
  then show ?thesis using vrf found(1,2) v s1(2-) by blast
qed

text \<open>
  C28. \<open>shc_vrf_del\<close> on sound tables returns 0 and no VRF has the name afterwards. If none had it,
  nothing changes. Otherwise that VRF goes with exactly its own routes, every other VRF and its
  routes are as they were, and the tables stay sound; the tunnel map stays sound if no tunnel is mapped
  to the VRF, but a tunnel that is mapped to it keeps its key in the table, and the next lookup of the
  tunnel reads the freed record.
\<close>

theorem shc_vrf_del_contract:
  assumes "sweep_laws E us fm fd hpos" "route_inv E us fm s" "vrf_inv s" "tun_inv E s"
    and "card (dom (routes E us s)) < fuel"
  shows "\<exists>s'. shc_vrf_del E fuel nm s = Some (0, s') \<and> vrf_inv s' \<and> route_inv E us fm s' \<and> (\<forall>i. \<not> is_vrf s' nm i) \<and>
    ((\<forall>v. \<not> is_vrf s nm v) \<longrightarrow> s' = s) \<and>
    (\<forall>v. is_vrf s nm v \<longrightarrow> shc_vrf_count s' = shc_vrf_count s - 1 \<and>
       (\<forall>nm' i. is_vrf s' nm' i = (is_vrf s nm' i \<and> i \<noteq> v)) \<and>
       routes E us s' = (\<lambda>k. if of_vrf v k then None else routes E us s k) \<and>
       (tunnel_rmap (vrf_dp_of s v) = [] \<longrightarrow> tun_inv E s') \<and>
       (\<forall>type tid flag. tunnel_vrf E s (tunnel_key type tid) = Some (of_nat v + 1) \<longrightarrow>
          shc_tunnel_map_vrf_lookup E type tid flag s' = None))"
proof -
  have off: "\<not> rte_assert_on E" using assms(1) by (auto simp: sweep_laws_def route_laws_def)
  show ?thesis
  proof (cases rule: shc_vrf_del_run [OF assms, of nm, case_names no vrf])
    case no
    then show ?thesis using assms(2,3) by simp
  next
    case (vrf v s1)
    note keep = keeps_vrfs_tun [OF vrf(7)]
    have same: "is_vrf s1 nm' i = is_vrf s nm' i" for nm' i
      using vrf(7) keep(3) by (simp add: is_vrf_def keeps_vrfs_def)
    have tuns: "tunnel_vrf E s1 = tunnel_vrf E s" "tunnel_rmap (vrf_dp_of s1 v) = tunnel_rmap (vrf_dp_of s v)"
      "g_shc_vrf_n s1 = g_shc_vrf_n s"
      using vrf(7) by (simp_all add: keeps_vrfs_def tunnel_vrf_def [abs_def] tunnels_def)
    have "vrf_inv (slot_freed v s1)" using vrf_inv_freed [of s1 v] assms(3) keep vrf(3) by simp
    moreover have "tunnel_rmap (vrf_dp_of s v) = [] \<Longrightarrow> tun_inv E (slot_freed v s1)"
      using tun_inv_freed [of E s1 v] assms(4) keep tuns vrf(4) by simp
    moreover have "shc_tunnel_map_vrf_lookup E type tid flag (slot_freed v s1) = None"
      if "tunnel_vrf E s (tunnel_key type tid) = Some (of_nat v + 1)" for type tid flag
      using freed_tunnel_faults [of E s1 v type tid flag] assms(4) keep tuns vrf(4) off that by simp
    ultimately show ?thesis
      using vrf(1,2,5,8,9) same tuns by (simp add: route_inv_freed is_vrf_freed shc_vrf_count_def)
  qed
qed

lemma agent_tun_frame:
  "rib_tbl agent_tun = []" "nhop_tbl agent_tun = []" "nhop_mem agent_tun = Map.empty" "neigh_tbl agent_tun = []"
  "neigh_mem agent_tun = Map.empty" "g_shc_vrf_n agent_tun = 1" "fib_res_used agent_tun = [0]"
  "f_res_blackhole agent_tun = 0" "valid (g_shc_vrfs agent_tun i) = (i = 0)"
  "name (g_shc_vrfs agent_tun i) = (if i = 0 then ''red'' else [])" "vrf_id (vrf_dp_of agent_tun i) = of_nat i + 1"
  "rib_cnt (vrf_dp_of agent_tun i) = 0" "fib (vrf_dp_of agent_tun i) = ([], 0)"
proof -
  have "shc_vrf_lookup ''red'' agent0 = Some (Some 0)"
    using shc_vrf_lookup_iff [OF vrf_inv_agent0] by (simp add: is_vrf_agent0)
  then show "rib_tbl agent_tun = []" "nhop_tbl agent_tun = []" "nhop_mem agent_tun = Map.empty" "neigh_tbl agent_tun = []"
    "neigh_mem agent_tun = Map.empty" "g_shc_vrf_n agent_tun = 1" "fib_res_used agent_tun = [0]"
    "f_res_blackhole agent_tun = 0" "valid (g_shc_vrfs agent_tun i) = (i = 0)"
    "name (g_shc_vrfs agent_tun i) = (if i = 0 then ''red'' else [])" "vrf_id (vrf_dp_of agent_tun i) = of_nat i + 1"
    "rib_cnt (vrf_dp_of agent_tun i) = 0" "fib (vrf_dp_of agent_tun i) = ([], 0)"
    by (simp_all add: agent_tun_def shc_tunnel_map_vrf_def Let_def slot_add_def first_free_def allocated_def)
       (simp_all add: agent0_def vrf_dp0_def)
qed

lemma agent_tun_sound:
  "route_inv (lib0 4) set (\<lambda>f. map_of (fst f)) agent_tun" "routes (lib0 4) set agent_tun = Map.empty"
  "vrf_inv agent_tun" "is_vrf agent_tun ''red'' 0"
proof -
  note F = agent_tun_frame
  have live: "rib_map (lib0 4) agent_tun = Map.empty" "rib_live set agent_tun = Map.empty"
    by (auto simp: rib_map_def rib_live_def F)
  have core: "route_core (lib0 4) set (\<lambda>f. map_of (fst f)) agent_tun"
    by (simp add: route_core_def live F routes_ok_def obj_table_empty vrf_keys_def FIB_RES_LEN_def SHC_NR_FIB_RES_ALL_def)
  then show "route_inv (lib0 4) set (\<lambda>f. map_of (fst f)) agent_tun"
    by (simp add: route_inv_def nhop_inv_def neigh_inv_def F obj_table_empty)
  show "routes (lib0 4) set agent_tun = Map.empty" using routes_None_iff [OF core] live by (simp add: fun_eq_iff)
  have "valid_slots agent_tun = {0}" by (auto simp: valid_slots_def F SHC_NR_VRF_def)
  then show "vrf_inv agent_tun" "is_vrf agent_tun ''red'' 0"
    by (simp_all add: vrf_inv_def is_vrf_def F SHC_VRF_NAME_LEN_def)
qed

lemma shc_vrf_del_contract_witness:
  "\<exists>s'. shc_vrf_del (lib0 4) 1 ''red'' agent_tun = Some (0, s') \<and> shc_vrf_count s' = 0 \<and>
     shc_tunnel_map_vrf_lookup (lib0 4) SHC_TUNNEL_VXLAN 100 0 s' = None"
proof -
  have laws: "sweep_laws (lib0 4) set (\<lambda>f. map_of (fst f)) snd slot_pos"
    by (simp add: sweep_laws_def route_laws_lib0 iter_laws_lib0)
  note S = agent_tun_sound
  from shc_vrf_del_contract [OF laws S(1,3) tun_inv_agent_tun, of 1 "''red''"] obtain s' where
    s': "shc_vrf_del (lib0 4) 1 ''red'' agent_tun = Some (0, s')"
      "\<forall>v. is_vrf agent_tun ''red'' v \<longrightarrow> shc_vrf_count s' = shc_vrf_count agent_tun - 1 \<and>
       (\<forall>type tid flag. tunnel_vrf (lib0 4) agent_tun (tunnel_key type tid) = Some (of_nat v + 1) \<longrightarrow>
          shc_tunnel_map_vrf_lookup (lib0 4) type tid flag s' = None)"
    by (auto simp: S(2))
  have "tunnel_vrf (lib0 4) agent_tun (tunnel_key SHC_TUNNEL_VXLAN 100) = Some (of_nat 0 + 1)"
    by (simp add: tunnel_vrf_def agent_tun_entry)
  with s' S(4) show ?thesis by (fastforce simp: shc_vrf_count_def agent_tun_frame)
qed

end
