(* ===== verification/Agent_Frames.thy ===== *)
theory Agent_Frames
  imports Vrf_Life Entry_Api
begin

text \<open>
  What the route operations of \<open>agent/route.c\<close> leave alone: the VRFs and tunnels, and, but for one reference
  that an insertion takes, the neighbours.
\<close>

section \<open>What the route operations leave alone\<close>

lemma keeps_vrfs_upd [simp]:
  "keeps_vrfs s (t\<lparr>neigh_tbl := a\<rparr>) = keeps_vrfs s t" "keeps_vrfs s (t\<lparr>neigh_mem := b\<rparr>) = keeps_vrfs s t"
  "keeps_vrfs s (t\<lparr>neigh_count := c\<rparr>) = keeps_vrfs s t" "keeps_vrfs s (t\<lparr>hal_log := d\<rparr>) = keeps_vrfs s t"
  "keeps_vrfs s (t\<lparr>nhop_tbl := e\<rparr>) = keeps_vrfs s t" "keeps_vrfs s (t\<lparr>nhop_mem := f\<rparr>) = keeps_vrfs s t"
  "keeps_vrfs s (t\<lparr>rib_tbl := g\<rparr>) = keeps_vrfs s t" "keeps_vrfs s (t\<lparr>fib_res_mem := h\<rparr>) = keeps_vrfs s t"
  "keeps_vrfs s (t\<lparr>fib_res_used := i\<rparr>) = keeps_vrfs s t"
  by (simp_all add: keeps_vrfs_def)

lemma keeps_vrfs_dp [simp]:
  "(\<And>d. vrf_id (g d) = vrf_id d \<and> tunnel_rmap (g d) = tunnel_rmap d \<and> tunnel_cnt (g d) = tunnel_cnt d) \<Longrightarrow>
     keeps_vrfs s (dp_upd v g t) = keeps_vrfs s t"
  by (auto simp: keeps_vrfs_def dp_upd_def)

text \<open>
  The neighbours' reference counters: positive and at most \<open>n\<close>. \<open>refs_grow m\<close>: a step by which they grow by at
  most \<open>m\<close>, as long as the counter's width allows it.
\<close>

definition refs_within :: "nat \<Rightarrow> (ptr \<rightharpoonup> ol_neigh_entry) \<Rightarrow> bool" where
  "refs_within n M \<longleftrightarrow> (\<forall>p e. M p = Some e \<longrightarrow> 0 < ne_refcnt e \<and> unat (ne_refcnt e) \<le> n)"

definition refs_grow :: "nat \<Rightarrow> ('h, 'f, 'b) agent \<Rightarrow> ('h, 'f, 'b) agent \<Rightarrow> bool" where
  "refs_grow m s s' \<longleftrightarrow> keeps_vrfs s s' \<and>
     (\<forall>n. refs_within n (neigh_mem s) \<and> n + m < 2 ^ 32 \<longrightarrow> refs_within (n + m) (neigh_mem s'))"

lemma refs_growI: "keeps_vrfs s s' \<Longrightarrow> neigh_mem s' = neigh_mem s \<Longrightarrow> refs_grow m s s'"
  by (auto simp: refs_grow_def refs_within_def trans_le_add1)

lemma refs_within_mono: "refs_within n M \<Longrightarrow> n \<le> m \<Longrightarrow> refs_within m M"
  unfolding refs_within_def by (meson le_trans)

lemma refs_grow_mono:
  assumes "refs_grow a s t" "a \<le> b" shows "refs_grow b s t"
proof -
  have "refs_within (n + b) (neigh_mem t)" if "refs_within n (neigh_mem s)" "n + b < 2 ^ 32" for n
  proof -
    have "n + a < 2 ^ 32" using that(2) assms(2) by linarith
    then have "refs_within (n + a) (neigh_mem t)" using assms(1) that(1) by (simp add: refs_grow_def)
    then show ?thesis by (rule refs_within_mono) (use assms(2) in simp)
  qed
  then show ?thesis using assms(1) by (simp add: refs_grow_def)
qed

lemma refs_grow_trans:
  assumes "refs_grow a s t" "refs_grow b t u" shows "refs_grow (a + b) s u"
proof -
  have "refs_within (n + (a + b)) (neigh_mem u)" if "refs_within n (neigh_mem s)" "n + (a + b) < 2 ^ 32" for n
    using assms that unfolding refs_grow_def by (metis add.assoc add_lessD1)
  moreover have "keeps_vrfs s u" using assms keeps_vrfs_trans by (auto simp: refs_grow_def)
  ultimately show ?thesis by (simp add: refs_grow_def)
qed

lemma refs_grow_trans0: "refs_grow a s t \<Longrightarrow> refs_grow 0 t u \<Longrightarrow> refs_grow a s u"
  using refs_grow_trans by fastforce

lemma refs_grow_upd [simp]:
  "refs_grow m s (t\<lparr>neigh_tbl := a\<rparr>) = refs_grow m s t" "refs_grow m s (t\<lparr>hal_log := d\<rparr>) = refs_grow m s t"
  "refs_grow m s (t\<lparr>neigh_count := c\<rparr>) = refs_grow m s t"
  "refs_grow m s (t\<lparr>nhop_tbl := e\<rparr>) = refs_grow m s t" "refs_grow m s (t\<lparr>nhop_mem := f\<rparr>) = refs_grow m s t"
  "refs_grow m s (t\<lparr>rib_tbl := g\<rparr>) = refs_grow m s t" "refs_grow m s (t\<lparr>fib_res_mem := h\<rparr>) = refs_grow m s t"
  "refs_grow m s (t\<lparr>fib_res_used := i\<rparr>) = refs_grow m s t"
  "refs_grow m (s\<lparr>hal_log := d\<rparr>) t = refs_grow m s t"
  "refs_grow m (s\<lparr>nhop_tbl := e\<rparr>) t = refs_grow m s t" "refs_grow m (s\<lparr>nhop_mem := f\<rparr>) t = refs_grow m s t"
  by (simp_all add: refs_grow_def keeps_vrfs_def)

lemma refs_grow_refl [simp]: "refs_grow m s s"
  by (rule refs_growI) simp_all

lemma refs_grow_dp [simp]:
  "(\<And>d. vrf_id (g d) = vrf_id d \<and> tunnel_rmap (g d) = tunnel_rmap d \<and> tunnel_cnt (g d) = tunnel_cnt d) \<Longrightarrow>
     refs_grow m s (dp_upd v g t) = refs_grow m s t"
  by (simp add: refs_grow_def)

lemma refs_within_put:
  "refs_within n M \<Longrightarrow> 0 < ne_refcnt e \<Longrightarrow> unat (ne_refcnt e) \<le> n \<Longrightarrow> refs_within n (M(p \<mapsto> e))"
  by (auto simp: refs_within_def)

lemma refs_within_drop: "refs_within n M \<Longrightarrow> refs_within n (M(p := None))"
  by (auto simp: refs_within_def)

lemma shc_neigh_add_grow:
  assumes "shc_neigh_add E v gw s = Some (r, x, s')" shows "refs_grow 1 s s'"
proof (cases "rte_hash_lookup_data E (neigh_tbl s) (neigh_key (vrf_id (vrf_dp_of s v)) gw)")
  case (Some p)
  then obtain e where e: "neigh_mem s p = Some e" "s' = s\<lparr>neigh_mem := (neigh_mem s)(p \<mapsto> e\<lparr>ne_refcnt := ne_refcnt e + 1\<rparr>)\<rparr>"
    using assms by (auto simp: shc_neigh_add_def bind_eq_Some_conv)
  have "refs_within (n + 1) (neigh_mem s')" if n: "refs_within n (neigh_mem s)" "n + 1 < 2 ^ 32" for n
  proof -
    have le: "unat (ne_refcnt e) \<le> n" using n(1) e(1) by (auto simp: refs_within_def)
    then have one: "unat (ne_refcnt e + 1) = unat (ne_refcnt e) + 1" using n(2) by (simp add: unat_word_ariths)
    then have "0 < ne_refcnt e + 1" by (simp add: word_less_nat_alt)
    moreover have "refs_within (n + 1) (neigh_mem s)" using n(1) by (rule refs_within_mono) simp
    ultimately show ?thesis using e(2) le one by (simp add: refs_within_put)
  qed
  then show ?thesis using e(2) by (simp add: refs_grow_def)
next
  case None
  have grown: "refs_grow (Suc 0) s (t\<lparr>neigh_mem := (neigh_mem s)(p \<mapsto> e)\<rparr>)" if t: "keeps_vrfs s t" "ne_refcnt e = 1" for t p e
  proof -
    have "refs_within (n + 1) ((neigh_mem s)(p \<mapsto> e))" if "refs_within n (neigh_mem s)" for n
      using refs_within_mono [OF that, of "n + 1"] t(2) by (intro refs_within_put) simp_all
    then show ?thesis using t(1) by (simp add: refs_grow_def)
  qed
  show ?thesis
    using assms None
    by (auto simp: shc_neigh_add_def Let_def hal_alloc_oid_eq grown split: prod.splits if_splits)
qed

lemma shc_neigh_del_grow:
  assumes "shc_neigh_del E v gw s = Some (r, s')" shows "refs_grow 0 s s'"
proof -
  have cut: "refs_grow 0 s (s\<lparr>neigh_mem := (neigh_mem s)(p \<mapsto> e\<lparr>ne_refcnt := ne_refcnt e - 1\<rparr>)\<rparr>)"
    if e: "neigh_mem s p = Some e" "0 < ne_refcnt e - 1" for p e
  proof -
    have "refs_within n ((neigh_mem s)(p \<mapsto> e\<lparr>ne_refcnt := ne_refcnt e - 1\<rparr>))" if "refs_within n (neigh_mem s)" for n
    proof -
      have "0 < ne_refcnt e" "unat (ne_refcnt e) \<le> n" using that e(1) by (auto simp: refs_within_def)
      then have "unat (ne_refcnt e - 1) \<le> n" using unat_minus_one [of "ne_refcnt e"] by (cases "ne_refcnt e = 0") auto
      then show ?thesis using that e(2) by (simp add: refs_within_put)
    qed
    then show ?thesis by (simp add: refs_grow_def)
  qed
  have drop: "refs_grow 0 s (t\<lparr>neigh_mem := (neigh_mem s)(p := None)\<rparr>)" if "keeps_vrfs s t" for t p
    using that by (simp add: refs_grow_def refs_within_drop)
  show ?thesis
    using assms
    by (auto simp: shc_neigh_del_def Let_def bind_eq_Some_conv drop split: option.splits if_splits intro!: cut)
qed

lemma refs_grow_rollback [simp]: "refs_grow m s (nhop_rollback4 E d p t) = refs_grow m s t"
  by (simp add: nhop_rollback4_def)

lemma nhop_obj_create_grow:
  assumes "nhop_obj_create E v d s = Some (r, x, s')" shows "refs_grow 1 s s'"
proof (cases "rte_hash_lookup_data E (nhop_tbl s) (nhop_tbl_key d)")
  case (Some p)
  then show ?thesis using assms by (auto simp: nhop_obj_create_def bind_eq_Some_conv)
next
  case None
  show ?thesis
    using assms None
    by (simp add: nhop_obj_create_def Let_def hal_alloc_oid_eq split: prod.splits if_splits Option.bind_splits)
       (auto dest!: shc_neigh_add_grow shc_neigh_del_grow intro: refs_grow_trans0)
qed

lemma nhop_obj_delete_grow:
  assumes "nhop_obj_delete E v p s = Some (r, s')" shows "refs_grow 0 s s'"
  using assms
  by (simp add: nhop_obj_delete_def Let_def split: prod.splits if_splits Option.bind_splits)
     (auto dest!: shc_neigh_del_grow)

lemma nhops_delete_grow: "nhops_delete E v ps s = Some s' \<Longrightarrow> refs_grow 0 s s'"
  by (induction ps arbitrary: s)
     (auto simp: bind_eq_Some_conv dest!: nhop_obj_delete_grow intro: refs_grow_trans0)

text \<open>The tables of routes and results do not touch the neighbours.\<close>

lemma rt_prefix_obj_delete_grow: "rt_prefix_obj_delete E v pfx i s = Some (r, s') \<Longrightarrow> refs_grow 0 s s'"
  by (auto simp: rt_prefix_obj_delete_def Let_def bind_eq_Some_conv case_prod_unfold)

lemma rt_prefix_obj_update_grow: "rt_prefix_obj_update E v pfx i j s = Some (r, s') \<Longrightarrow> refs_grow 0 s s'"
  by (auto simp: rt_prefix_obj_update_def Let_def bind_eq_Some_conv case_prod_unfold split: if_splits)

lemma fib_res_obj_delete_grow: "fib_res_obj_delete E i s = Some (r, s') \<Longrightarrow> refs_grow 0 s s'"
  by (auto simp: fib_res_obj_delete_def fib_res_id_free_def Let_def bind_eq_Some_conv case_prod_unfold split: if_splits)

lemma fib_res_obj_create_grow:
  assumes "fib_res_obj_create E ps f t e s = Some (r, s')" shows "refs_grow 0 s s'"
proof -
  have alloc: "refs_grow 0 s s1" if "fib_res_id_alloc E s = Some (i, s1)" for i s1
    using that by (auto simp: fib_res_id_alloc_def Let_def bind_eq_Some_conv case_prod_unfold fib_res_put_def split: if_splits)
  show ?thesis
    using assms
    by (simp add: fib_res_obj_create_def Let_def fib_res_put_def split: Option.bind_splits prod.splits if_splits option.splits)
       (auto dest: alloc)
qed

lemmas route_part_grow =
  rt_prefix_obj_delete_grow rt_prefix_obj_update_grow fib_res_obj_delete_grow fib_res_obj_create_grow
  nhops_delete_grow nhop_obj_delete_grow nhop_obj_create_grow

section \<open>The route operations\<close>

lemma route_nhop_insert_new_grow:
  assumes "route_nhop_insert_new E v pfx d t found s = Some (r, s')" shows "refs_grow 1 s s'"
  using assms
  by (simp add: route_nhop_insert_new_def Let_def split: prod.splits if_splits Option.bind_splits option.splits)
     (auto dest!: route_part_grow, (metis refs_grow_trans0)+)

lemma shc_route_nhop_insert_grow:
  "shc_route_nhop_insert E v pfx d t s = Some (r, s') \<Longrightarrow> refs_grow 1 s s'"
  by (auto simp: shc_route_nhop_insert_def bind_eq_Some_conv split: option.splits if_splits dest!: route_nhop_insert_new_grow)

lemma shc_route_delete_grow: "shc_route_delete E v pfx s = Some (r, s') \<Longrightarrow> refs_grow 0 s s'"
  by (auto simp: shc_route_delete_def bind_eq_Some_conv split: option.splits dest!: route_part_grow intro: refs_grow_trans0)

lemma shc_route_nhop_delete_grow:
  assumes "shc_route_nhop_delete E v pfx d t s = Some (r, s')" shows "refs_grow 0 s s'"
proof (cases "rte_hash_lookup_data E (rib_tbl s) (rib_tbl_key pfx)")
  case (Some i)
  show ?thesis
  proof (cases "rte_hash_lookup_data E (nhop_tbl s) (nhop_tbl_key d)")
    case None
    then show ?thesis using assms Some
      by (auto simp: shc_route_nhop_delete_def split: Option.bind_splits if_splits)
  next
    case (Some p)
    show ?thesis
      using assms \<open>rte_hash_lookup_data E (rib_tbl s) (rib_tbl_key pfx) = Some i\<close> Some
      by (simp add: shc_route_nhop_delete_def split: prod.splits if_splits Option.bind_splits)
         (auto dest!: route_part_grow, (metis refs_grow_trans0)+)
  qed
qed (use assms in \<open>simp add: shc_route_nhop_delete_def\<close>)

lemma route_cleanup_loop_grow: "route_cleanup_loop E v fuel i s = Some s' \<Longrightarrow> refs_grow 0 s s'"
  by (induction fuel arbitrary: i s)
     (auto simp: bind_eq_Some_conv split: option.splits hkey.splits if_splits
      dest!: shc_route_delete_grow, blast intro: refs_grow_trans0)

lemma shc_route_cleanup_grow: "shc_route_cleanup E fuel v s = Some (r, s') \<Longrightarrow> refs_grow 0 s s'"
  by (auto simp: shc_route_cleanup_def bind_eq_Some_conv intro: route_cleanup_loop_grow)

end
