(* ===== verification/Agent_Spec.thy ===== *)
theory Agent_Spec
  imports Vrf_Life
begin

text \<open>
  What the agent's control operations promise together: three maps (VRFs by name, routes by prefix,
  tunnels by identifier) and the outcomes each operation may have on them.
\<close>

section \<open>Operations and the abstract state\<close>

datatype agent_op =
    Vrf_add string
  | Vrf_del string
  | Vrf_intip string u32
  | Vrf_rmac string mac
  | Vrf_rmac_unset string mac
  | Route_add nat shc_rib_key nhop_key rib_type
  | Route_del nat shc_rib_key
  | Nhop_del nat shc_rib_key nhop_key rib_type
  | Route_flush nat
  | Tunnel_add string shc_tunnel_type u32 shc_tunnel_attr
  | Rule u32 u32 u32 int

record agent_spec =
  sp_vrf :: "string \<rightharpoonup> nat"
  sp_route :: "hkey \<rightharpoonup> nhop_key \<times> rib_type"
  sp_tun :: "hkey \<rightharpoonup> u32"

definition spec_start :: agent_spec where
  "spec_start = \<lparr>sp_vrf = Map.empty, sp_route = Map.empty, sp_tun = Map.empty\<rparr>"

definition spec_covered :: "agent_spec \<Rightarrow> nat \<Rightarrow> u32 \<Rightarrow> bool" where
  "spec_covered a v ip \<longleftrightarrow> (\<exists>l \<le> 32. sp_route a (rib_tbl_key (rib_key_of v (ip_net ip (of_nat l), of_nat l))) \<noteq> None)"

definition spec_flush :: "nat \<Rightarrow> agent_spec \<Rightarrow> agent_spec" where
  "spec_flush v a = a\<lparr>sp_route := (\<lambda>k. if of_vrf v k then None else sp_route a k)\<rparr>"

text \<open>
  When an operation may be called: names fit; a VRF is deleted only when no tunnel leads to it; prefixes are
  canonical ones of an existing VRF; a multicast route has one next hop; a rule is for a destination
  covered by a route of the VRF that tunnel 0 is mapped to.
\<close>

definition op_ok :: "agent_spec \<Rightarrow> agent_op \<Rightarrow> bool" where
  "op_ok a op = (case op of
     Vrf_add nm \<Rightarrow> length nm < SHC_VRF_NAME_LEN
   | Vrf_del nm \<Rightarrow> (\<forall>v. sp_vrf a nm = Some v \<longrightarrow> of_nat v + 1 \<notin> ran (sp_tun a))
   | Route_add v pfx d t \<Rightarrow> v \<in> ran (sp_vrf a) \<and> canon_prefix v pfx \<and>
       (t = RT_DEFAULT \<or> (t = RT_MROUTE \<and> sp_route a (rib_tbl_key pfx) = None))
   | Route_del v pfx \<Rightarrow> canon_prefix v pfx
   | Nhop_del v pfx d t \<Rightarrow> canon_prefix v pfx
   | Route_flush v \<Rightarrow> v < nat SHC_NR_VRF
   | Rule vni src dst fl \<Rightarrow> \<exists>v < nat SHC_NR_VRF. sp_tun a (tunnel_key SHC_TUNNEL_VXLAN 0) = Some (of_nat v + 1) \<and>
       spec_covered a v (rte_be_to_cpu_32 dst)
   | _ \<Rightarrow> True)"

section \<open>The outcomes\<close>

inductive spec_step :: "agent_spec \<Rightarrow> agent_op \<Rightarrow> int \<Rightarrow> agent_spec \<Rightarrow> bool" where
  vrf_again: "sp_vrf a nm = Some i \<Longrightarrow> spec_step a (Vrf_add nm) 0 a"
| vrf_full: "sp_vrf a nm = None \<Longrightarrow> ran (sp_vrf a) = {..<nat SHC_NR_VRF} \<Longrightarrow> spec_step a (Vrf_add nm) SHC_VRF_NOENT a"
| vrf_new: "sp_vrf a nm = None \<Longrightarrow> i < nat SHC_NR_VRF \<Longrightarrow> i \<notin> ran (sp_vrf a) \<Longrightarrow> {..<i} \<subseteq> ran (sp_vrf a) \<Longrightarrow>
    spec_step a (Vrf_add nm) 0 (a\<lparr>sp_vrf := (sp_vrf a)(nm \<mapsto> i)\<rparr>)"
| vrf_gone: "sp_vrf a nm = None \<Longrightarrow> spec_step a (Vrf_del nm) 0 a"
| vrf_del: "sp_vrf a nm = Some v \<Longrightarrow> of_nat v + 1 \<notin> ran (sp_tun a) \<Longrightarrow>
    spec_step a (Vrf_del nm) 0 (spec_flush v (a\<lparr>sp_vrf := (sp_vrf a)(nm := None)\<rparr>))"
| intip: "r = (if sp_vrf a nm = None then SHC_VRF_NOT_EXIST else 0) \<Longrightarrow> spec_step a (Vrf_intip nm ip) r a"
| rmac: "r = (if sp_vrf a nm = None then SHC_VRF_NOT_EXIST else 0) \<Longrightarrow> spec_step a (Vrf_rmac nm m) r a"
| rmac_unset: "r \<in> (if sp_vrf a nm = None then {SHC_VRF_NOT_EXIST} else {0, SHC_COMM_INVAL_PARAM}) \<Longrightarrow>
    spec_step a (Vrf_rmac_unset nm m) r a"
| route_new: "sp_route a (rib_tbl_key pfx) = None \<Longrightarrow> v \<in> ran (sp_vrf a) \<Longrightarrow> canon_prefix v pfx \<Longrightarrow>
    spec_step a (Route_add v pfx d t) 0 (a\<lparr>sp_route := (sp_route a)(rib_tbl_key pfx \<mapsto> (d, t))\<rparr>)"
| route_fail: "sp_route a (rib_tbl_key pfx) = None \<Longrightarrow> r < 0 \<Longrightarrow> spec_step a (Route_add v pfx d t) r a"
| route_again: "sp_route a (rib_tbl_key pfx) = Some (d0, t0) \<Longrightarrow>
    r = (if t0 \<noteq> t then SHC_IPV4_ROUTETYPE_NO_SAME else SHC_ROUTE_NEXTHOP_ECMP_NOSPACE) \<Longrightarrow>
    spec_step a (Route_add v pfx d t) r a"
| route_none: "sp_route a (rib_tbl_key pfx) = None \<Longrightarrow> spec_step a (Route_del v pfx) SHC_ROUTE_PREFIX_NOT_FOUND a"
| route_del: "sp_route a (rib_tbl_key pfx) \<noteq> None \<Longrightarrow>
    spec_step a (Route_del v pfx) 0 (a\<lparr>sp_route := (sp_route a)(rib_tbl_key pfx := None)\<rparr>)"
| nhop_none: "sp_route a (rib_tbl_key pfx) = None \<Longrightarrow> spec_step a (Nhop_del v pfx d t) 0 a"
| nhop_other: "sp_route a (rib_tbl_key pfx) = Some (d0, t0) \<Longrightarrow> t0 \<noteq> t \<or> d0 \<noteq> d \<Longrightarrow>
    r = (if t0 \<noteq> t then SHC_IPV4_ROUTETYPE_NO_SAME else 0) \<Longrightarrow> spec_step a (Nhop_del v pfx d t) r a"
| nhop_del: "sp_route a (rib_tbl_key pfx) = Some (d, t) \<Longrightarrow>
    spec_step a (Nhop_del v pfx d t) 0 (a\<lparr>sp_route := (sp_route a)(rib_tbl_key pfx := None)\<rparr>)"
| flush: "spec_step a (Route_flush v) 0 (spec_flush v a)"
| tun_novrf: "sp_vrf a nm = None \<Longrightarrow> spec_step a (Tunnel_add nm type tid attr) SHC_VRF_NOT_EXIST a"
| tun_map: "sp_vrf a nm = Some i \<Longrightarrow> sp_tun a (tunnel_key type tid) \<in> {None, Some (of_nat i + 1)} \<Longrightarrow>
    spec_step a (Tunnel_add nm type tid attr) 0 (a\<lparr>sp_tun := (sp_tun a)(tunnel_key type tid \<mapsto> of_nat i + 1)\<rparr>)"
| tun_used: "sp_vrf a nm = Some i \<Longrightarrow> sp_tun a (tunnel_key type tid) = Some (of_nat j + 1) \<Longrightarrow> j \<noteq> i \<Longrightarrow>
    spec_step a (Tunnel_add nm type tid attr) SHC_TUNNEL_INUSED a"
| tun_fail: "sp_vrf a nm = Some i \<Longrightarrow> r \<in> {SHC_COMM_NOMEM, SHC_TUNNEL_MAP_NOSPACE} \<Longrightarrow>
    spec_step a (Tunnel_add nm type tid attr) r a"
| rule: "r \<in> {0, -1, - ENOENT, SHC_LOAD_TO_P4_FAIL} \<Longrightarrow> spec_step a (Rule vni src dst fl) r a"

inductive_cases spec_vrf_addE: "spec_step a (Vrf_add nm) r a'"
inductive_cases spec_route_addE: "spec_step a (Route_add v pfx d t) r a'"

inductive spec_run :: "agent_spec \<Rightarrow> (agent_op \<times> int) list \<Rightarrow> agent_spec \<Rightarrow> bool" where
  run_nil: "spec_run a [] a"
| run_cons: "spec_step a op r b \<Longrightarrow> spec_run b ors c \<Longrightarrow> spec_run a ((op, r) # ors) c"

inductive_simps spec_run_Nil: "spec_run a [] b"
inductive_simps spec_run_Cons: "spec_run a (x # ors) b"

section \<open>The invariant of the abstract state\<close>

text \<open>
  VRFs have different slots of the table; every route belongs to a VRF that exists, and every tunnel
  leads to one. A new VRF starts without routes and tunnels for that reason.
\<close>

definition spec_inv :: "agent_spec \<Rightarrow> bool" where
  "spec_inv a \<longleftrightarrow> inj_on (sp_vrf a) (dom (sp_vrf a)) \<and> ran (sp_vrf a) \<subseteq> {..<nat SHC_NR_VRF} \<and>
     (\<forall>k \<in> dom (sp_route a). \<exists>v \<in> ran (sp_vrf a). of_vrf v k) \<and>
     (\<forall>x \<in> ran (sp_tun a). \<exists>v \<in> ran (sp_vrf a). x = of_nat v + 1)"

lemma spec_invD:
  assumes "spec_inv a"
  shows spec_inv_slots: "ran (sp_vrf a) \<subseteq> {..<nat SHC_NR_VRF}"
    and spec_inv_route: "sp_route a k \<noteq> None \<Longrightarrow> \<exists>v \<in> ran (sp_vrf a). of_vrf v k"
    and spec_inv_tun: "sp_tun a k = Some x \<Longrightarrow> \<exists>v \<in> ran (sp_vrf a). x = of_nat v + 1"
  using assms unfolding spec_inv_def by (blast, blast, blast intro: ranI)

lemma spec_inv_start: "spec_inv spec_start"
  by (simp add: spec_inv_def spec_start_def)

lemma ran_del_inj:
  assumes "inj_on f (dom f)" "f a = Some v" shows "ran (f(a := None)) = ran f - {v}"
proof (intro set_eqI iffI)
  fix w assume "w \<in> ran (f(a := None))"
  then obtain b where "b \<noteq> a" "f b = Some w" by (auto simp: ran_def split: if_splits)
  moreover have "w \<noteq> v"
  proof
    assume "w = v"
    then have "f b = f a" using assms(2) calculation by simp
    then show False using inj_onD [OF assms(1) \<open>f b = f a\<close>] calculation assms(2) by (simp add: domI)
  qed
  ultimately show "w \<in> ran f - {v}" by (auto simp: ran_def)
next
  fix w assume "w \<in> ran f - {v}"
  then obtain b where "f b = Some w" "w \<noteq> v" by (auto simp: ran_def)
  then show "w \<in> ran (f(a := None))" using assms(2) by (auto simp: ran_def intro!: exI [of _ b])
qed

lemma spec_step_inv:
  assumes "spec_step a op r b" "spec_inv a" shows "spec_inv b"
  using assms
proof (cases rule: spec_step.cases)
  case (vrf_new nm i)
  have "inj_on (sp_vrf b) (dom (sp_vrf b))"
    using assms(2) vrf_new by (auto simp: spec_inv_def inj_on_def ran_def)
  moreover have "ran (sp_vrf b) = insert i (ran (sp_vrf a))" using vrf_new by simp
  ultimately show ?thesis using assms(2) vrf_new unfolding spec_inv_def by fastforce
next
  case (vrf_del nm v)
  have inj: "inj_on (sp_vrf a) (dom (sp_vrf a))" using assms(2) by (simp add: spec_inv_def)
  have ran: "ran (sp_vrf b) = ran (sp_vrf a) - {v}"
    using vrf_del ran_del_inj [OF inj vrf_del(4)] by (simp add: spec_flush_def)
  have "inj_on (sp_vrf b) (dom (sp_vrf b))"
    using inj vrf_del by (auto simp: spec_flush_def inj_on_def)
  moreover have "\<exists>w \<in> ran (sp_vrf b). of_vrf w k" if "k \<in> dom (sp_route b)" for k
  proof -
    have k: "\<not> of_vrf v k" "k \<in> dom (sp_route a)"
      using that vrf_del by (auto simp: spec_flush_def split: if_splits)
    with assms(2) show ?thesis unfolding ran by (auto simp: spec_inv_def)
  qed
  moreover have "\<exists>w \<in> ran (sp_vrf b). x = of_nat w + 1" if "x \<in> ran (sp_tun b)" for x
  proof -
    have x: "x \<in> ran (sp_tun a)" "x \<noteq> of_nat v + 1" using that vrf_del by (auto simp: spec_flush_def)
    then obtain w where w: "w \<in> ran (sp_vrf a)" "x = of_nat w + 1" using assms(2) by (auto simp: spec_inv_def)
    then have "w \<noteq> v" using x(2) by auto
    then show ?thesis using w unfolding ran by blast
  qed
  ultimately show ?thesis using assms(2) unfolding spec_inv_def ran by blast
next
  case (route_new pfx v d t)
  have "of_vrf v (rib_tbl_key pfx)" using route_new(6) by (simp add: of_vrf_def rib_tbl_key_def canon_prefix_def)
  then show ?thesis using assms(2) route_new by (auto simp: spec_inv_def)
next
  case (tun_map nm i type tid attr)
  have "ran (sp_tun b) \<subseteq> insert (of_nat i + 1) (ran (sp_tun a))"
    using tun_map by (auto simp: ran_def split: if_splits)
  moreover have "i \<in> ran (sp_vrf a)" using tun_map by (auto simp: ran_def)
  ultimately show ?thesis using assms(2) tun_map by (auto simp: spec_inv_def)
qed (auto simp: spec_inv_def spec_flush_def split: if_splits)

lemma spec_run_inv: "spec_run a ors b \<Longrightarrow> spec_inv a \<Longrightarrow> spec_inv b"
  by (induction rule: spec_run.induct) (auto intro: spec_step_inv)

end
