(* ===== verification/Agent_System.thy ===== *)
theory Agent_System
  imports Agent_Frames Agent_Spec
begin

text \<open>
  The agent as a whole: its operations, the invariant of all its tables together, the abstract state they
  stand for, and what the lookups leave of both.
\<close>

section \<open>Operations\<close>

text \<open>The sweep over the route table takes at most one step per entry of the table and one more.\<close>

definition sweep_fuel :: nat where
  "sweep_fuel = nat FIB_RES_LEN + 1"

definition agent_do :: "('h, 'f, 'b) lib \<Rightarrow> agent_op \<Rightarrow> ('h, 'f, 'b) agent \<Rightarrow> (int \<times> ('h, 'f, 'b) agent) option" where
  "agent_do E op s = (case op of
     Vrf_add nm \<Rightarrow> shc_vrf_add nm s
   | Vrf_del nm \<Rightarrow> shc_vrf_del E sweep_fuel nm s
   | Vrf_intip nm ip \<Rightarrow> shc_vrf_intip_set nm ip s
   | Vrf_rmac nm m \<Rightarrow> shc_vrf_rmac_set nm m s
   | Vrf_rmac_unset nm m \<Rightarrow> shc_vrf_rmac_unset nm m s
   | Route_add v pfx d t \<Rightarrow> shc_route_nhop_insert E v pfx d t s
   | Route_del v pfx \<Rightarrow> shc_route_delete E v pfx s
   | Nhop_del v pfx d t \<Rightarrow> shc_route_nhop_delete E v pfx d t s
   | Route_flush v \<Rightarrow> shc_route_cleanup E sweep_fuel v s
   | Tunnel_add nm type tid attr \<Rightarrow> shc_tunnel_map_vrf E nm type tid attr s
   | Rule vni src dst fl \<Rightarrow> shc_swTohw_rule E vni src dst fl s)"

section \<open>The invariant and the abstraction\<close>

definition vrf_of :: "('h, 'f, 'b) agent \<Rightarrow> string \<Rightarrow> nat option" where
  "vrf_of s nm = find (\<lambda>i. valid (g_shc_vrfs s i) \<and> name (g_shc_vrfs s i) = nm) vrf_slots"

definition spec_of :: "('h, 'f, 'b) lib \<Rightarrow> ('b \<Rightarrow> int set) \<Rightarrow> ('h, 'f, 'b) agent \<Rightarrow> agent_spec" where
  "spec_of E us s = \<lparr>sp_vrf = vrf_of s, sp_route = routes E us s, sp_tun = tunnel_vrf E s\<rparr>"

definition agent_inv ::
  "('h, 'f, 'b) lib \<Rightarrow> ('b \<Rightarrow> int set) \<Rightarrow> ('f \<Rightarrow> u32 \<times> u8 \<rightharpoonup> int) \<Rightarrow> nat \<Rightarrow> ('h, 'f, 'b) agent \<Rightarrow> bool" where
  "agent_inv E us fm n s \<longleftrightarrow> vrf_inv s \<and> route_inv E us fm s \<and> tun_inv E s \<and> refs_within n (neigh_mem s)"

text \<open>
  The part without the tunnels. It survives more: a VRF that is deleted while tunnels lead to it, and a
  tunnel that is unmapped, leave a table of tunnels with stale pointers, but everything else sound.
\<close>

definition core_inv ::
  "('h, 'f, 'b) lib \<Rightarrow> ('b \<Rightarrow> int set) \<Rightarrow> ('f \<Rightarrow> u32 \<times> u8 \<rightharpoonup> int) \<Rightarrow> nat \<Rightarrow> ('h, 'f, 'b) agent \<Rightarrow> bool" where
  "core_inv E us fm n s \<longleftrightarrow> vrf_inv s \<and> route_inv E us fm s \<and> refs_within n (neigh_mem s)"

lemma agent_core: "agent_inv E us fm n s \<Longrightarrow> core_inv E us fm n s"
  by (simp add: agent_inv_def core_inv_def)

lemma agent_invD:
  assumes "agent_inv E us fm n s"
  shows "vrf_inv s" "route_inv E us fm s" "tun_inv E s" "refs_within n (neigh_mem s)"
  using assms by (auto simp: agent_inv_def)

lemma vrf_of_iff:
  assumes "vrf_inv s" shows "vrf_of s nm = Some i \<longleftrightarrow> is_vrf s nm i"
proof -
  have "shc_vrf_lookup nm s = Some (vrf_of s nm)"
    unfolding shc_vrf_lookup_def vrf_of_def by (rule vrf_find_spec) (rule vrf_short [OF assms])
  then show ?thesis using shc_vrf_lookup_iff [OF assms, of nm i] by simp
qed

lemma vrf_of_None_iff: "vrf_inv s \<Longrightarrow> vrf_of s nm = None \<longleftrightarrow> (\<forall>i. \<not> is_vrf s nm i)"
  using vrf_of_iff by (metis not_None_eq)

lemma ran_vrf_of: "vrf_inv s \<Longrightarrow> ran (vrf_of s) = valid_slots s"
  by (auto simp: ran_def vrf_of_iff is_vrf_def)

lemma option_eqI: "(\<And>i. x = Some i \<longleftrightarrow> y = Some i) \<Longrightarrow> x = y"
  by (metis not_None_eq)

section \<open>Steps that the abstraction does not see\<close>

text \<open>A lookup keeps the invariant and the abstract state.\<close>

definition unseen ::
  "('h, 'f, 'b) lib \<Rightarrow> ('b \<Rightarrow> int set) \<Rightarrow> ('f \<Rightarrow> u32 \<times> u8 \<rightharpoonup> int) \<Rightarrow> ('h, 'f, 'b) agent \<Rightarrow> ('h, 'f, 'b) agent \<Rightarrow> bool" where
  "unseen E us fm s s' \<longleftrightarrow>
     (\<forall>n. agent_inv E us fm n s \<longrightarrow> agent_inv E us fm n s' \<and> spec_of E us s' = spec_of E us s) \<and>
     (\<forall>n. core_inv E us fm n s \<longrightarrow> core_inv E us fm n s' \<and> vrf_of s' = vrf_of s \<and> routes E us s' = routes E us s)"

lemma unseen_refl [simp]: "unseen E us fm s s"
  by (simp add: unseen_def)

lemma unseen_trans: "unseen E us fm s t \<Longrightarrow> unseen E us fm t u \<Longrightarrow> unseen E us fm s u"
  unfolding unseen_def by (metis (no_types, lifting))

text \<open>The route table's part and everything else that only writes the trace and the VRFs' counters.\<close>

lemma keeps_vrfs_of: "keeps_vrfs s s' \<Longrightarrow> vrf_of s' = vrf_of s \<and> tunnel_vrf E s' = tunnel_vrf E s"
  by (simp add: keeps_vrfs_def vrf_of_def [abs_def] tunnel_vrf_def [abs_def] tunnels_def)

lemma keeps_routes_vrfs: "keeps_routes s s' \<Longrightarrow> keeps_vrfs s s'"
  by (simp add: keeps_routes_def keeps_vrfs_def)

lemma unseenI:
  assumes "keeps_vrfs s s'"
    and "\<And>n. route_inv E us fm s \<Longrightarrow> refs_within n (neigh_mem s) \<Longrightarrow>
      route_inv E us fm s' \<and> routes E us s' = routes E us s \<and> refs_within n (neigh_mem s')"
  shows "unseen E us fm s s'"
  using assms(2) keeps_vrfs_tun(1) [OF assms(1), where E = E] keeps_vrfs_tun(2) [OF assms(1)] keeps_vrfs_of [OF assms(1), of E]
  by (auto simp: unseen_def agent_inv_def core_inv_def spec_of_def)

lemma route_only_unseen: "route_only s s' \<Longrightarrow> unseen E us fm s s'"
  using route_only_inv [of s s' E us fm]
  by (intro unseenI keeps_routes_vrfs) (auto simp: route_only_def)

lemma nhop_offload_unseen:
  assumes "nhop_offload E p fl s = Some (r, s')" shows "unseen E us fm s s'"
proof -
  obtain f where f: "nhop_mem s p = Some f" using assms by (auto simp: nhop_offload_def bind_eq_Some_conv)
  show ?thesis
  proof (rule nhop_offload_spec [OF f, of E fl])
    fix q l assume "nhop_offload E p fl s =
      Some (q, s\<lparr>hal_log := l, nhop_mem := (nhop_mem s)(p \<mapsto> if q = 0 then nhop_counted fl f else f)\<rparr>)"
    then have s': "s' = s\<lparr>hal_log := l, nhop_mem := (nhop_mem s)(p \<mapsto> if q = 0 then nhop_counted fl f else f)\<rparr>"
      using assms by simp
    show ?thesis
      using nhop_recount [OF _ f, of E us fm "if q = 0 then nhop_counted fl f else f" l] s'
      by (intro unseenI) simp_all
  qed
qed

lemma shc_route_lookup_unseen:
  assumes "shc_route_lookup E v sip dip fl s = Some (r, fr, s')" shows "unseen E us fm s s'"
proof -
  let ?run = "route_offload E v (fib_res_get s (rte_fib_lookup E (fib (vrf_dp_of s v)) (rte_be_to_cpu_32 dip)))
      (rte_be_to_cpu_32 sip) (rte_be_to_cpu_32 dip) fl s"
  obtain q s1 where 1: "?run = Some (q, s1)" using assms by (cases ?run) (auto simp: shc_route_lookup_def Let_def)
  with assms have 2: "s' = s1 \<or> (\<exists>p. nhop_offload E p fl s1 = Some (r, s'))"
    by (simp add: shc_route_lookup_def Let_def split: Option.bind_splits if_splits prod.splits) blast+
  have "unseen E us fm s s1" using route_offload_only [OF 1] route_only_unseen by blast
  moreover have "unseen E us fm s1 s'" using 2 nhop_offload_unseen unseen_refl by blast
  ultimately show ?thesis by (rule unseen_trans)
qed

lemma flow_reset_unseen: "unseen E us fm s (dp_upd v (\<lambda>d. d\<lparr>exit_flag := 0, List_Node := Some initLink\<rparr>) s)"
  by (rule route_only_unseen) (simp add: route_only_def keeps_routes_def)

text \<open>Counting a neighbour's users.\<close>

lemma neigh_recount:
  assumes "neigh_mem s p = Some e" "ne_refcnt e' = ne_refcnt e"
  shows "unseen E us fm s (s\<lparr>hal_log := l, neigh_mem := (neigh_mem s)(p \<mapsto> e')\<rparr>)" (is "unseen E us fm s ?s")
proof (rule unseenI)
  fix n assume inv: "route_inv E us fm s" "refs_within n (neigh_mem s)"
  have core: "route_core E us fm s" "nhop_inv E s" "neigh_inv E s" using inv(1) by (auto simp: route_inv_def)
  note tab = core(3) [unfolded neigh_inv_def]
  obtain k where k: "rte_hash_lookup_data E (neigh_tbl s) k = Some p" using obj_noleak [OF tab, of p] assms(1) by auto
  have "0 < ne_refcnt e'" using obj_liveE [OF tab k] assms by auto
  from obj_update(1) [OF tab k this] have "neigh_inv E ?s" by (simp add: neigh_inv_def)
  moreover have "route_core E us fm ?s = route_core E us fm s" "routes E us ?s = routes E us s"
    by (rule route_core_keeps; simp add: keeps_routes_def)+
  moreover have "nhop_inv E ?s = nhop_inv E s" by (rule nhop_inv_cong) simp_all
  moreover have "refs_within n ((neigh_mem s)(p \<mapsto> e'))"
    using inv(2) assms by (intro refs_within_put) (auto simp: refs_within_def)
  ultimately show "route_inv E us fm ?s \<and> routes E us ?s = routes E us s \<and> refs_within n (neigh_mem ?s)"
    using core by (simp add: route_inv_def)
qed (simp add: keeps_vrfs_def)

lemma shc_neigh_lookup_unseen:
  assumes "shc_neigh_lookup E vrfid gw fl s = Some (r, m, s')" shows "unseen E us fm s s'"
proof (cases "rte_hash_lookup_data E (neigh_tbl s) (neigh_key vrfid gw)")
  case (Some p)
  with assms obtain e where e: "neigh_mem s p = Some e" by (auto simp: shc_neigh_lookup_def bind_eq_Some_conv)
  have counted: "unseen E us fm s (s\<lparr>hal_log := l, neigh_mem := (neigh_mem s)(p \<mapsto> e\<lparr>ne_exit_flag := x\<rparr>)\<rparr>)" for l x
    by (rule neigh_recount [OF e]) simp
  have here: "unseen E us fm s (s\<lparr>neigh_mem := (neigh_mem s)(p \<mapsto> e\<lparr>ne_exit_flag := x\<rparr>)\<rparr>)" for x
    using counted [where l = "hal_log s" and x = x] by simp
  have traced: "unseen E us fm s (s\<lparr>hal_log := l\<rparr>)" for l by (rule route_only_unseen) simp
  have "(\<exists>l. s' = s\<lparr>hal_log := l\<rparr>) \<or> (\<exists>l x. s' = s\<lparr>hal_log := l, neigh_mem := (neigh_mem s)(p \<mapsto> e\<lparr>ne_exit_flag := x\<rparr>)\<rparr>) \<or>
      s' = s \<or> (\<exists>x. s' = s\<lparr>neigh_mem := (neigh_mem s)(p \<mapsto> e\<lparr>ne_exit_flag := x\<rparr>)\<rparr>)"
    using assms Some e
    by (auto simp: shc_neigh_lookup_def Let_def hal_shim_defs hal_do_eq split: if_splits)
  then show ?thesis using counted here traced by auto
qed (use assms in \<open>simp add: shc_neigh_lookup_def\<close>)

text \<open>Counting a tunnel's users.\<close>

lemma tunnel_recount:
  assumes "tunnel_mem s p = Some t" "ti_vrf_id t' = ti_vrf_id t"
  shows "unseen E us fm s (s\<lparr>hal_log := l, tunnel_mem := (tunnel_mem s)(p \<mapsto> t')\<rparr>)" (is "unseen E us fm s ?s")
proof -
  have slots: "valid_slots ?s = valid_slots s" by (simp add: valid_slots_def)
  have vrfs: "vrf_inv ?s = vrf_inv s" "vrf_of ?s = vrf_of s" by (simp_all add: vrf_inv_def slots vrf_of_def [abs_def])
  have same: "rib_map E ?s = rib_map E s" "rib_live us ?s = rib_live us s"
    by (simp_all add: rib_map_def rib_live_def fun_eq_iff)
  have routes: "routes E us ?s = routes E us s" by (rule routes_cong) (simp_all add: same)
  have "route_core E us fm ?s = route_core E us fm s" by (rule route_core_cong) (simp_all add: same)
  then have inv: "route_inv E us fm ?s = route_inv E us fm s" by (simp add: route_inv_def nhop_inv_def neigh_inv_def)
  have "tun_inv E ?s \<and> tunnel_vrf E ?s = tunnel_vrf E s" if tun: "tun_inv E s"
  proof -
    note tab = tun_table [OF tun]
    obtain k where k: "rte_hash_lookup_data E (vrf_hash_tbl s) k = Some p" using obj_noleak [OF tab, of p] assms(1) by auto
    have "\<exists>i \<in> valid_slots s. ti_vrf_id t' = of_nat i + 1" using obj_liveE [OF tab k] assms by auto
    note u = obj_update [OF tab k this]
    have "rmap_of ((tunnel_mem s)(p \<mapsto> t')) i = rmap_of (tunnel_mem s) i" for i
      using assms by (auto simp: rmap_of_def)
    then have "tun_inv E ?s" using u(1) tun by (simp add: tun_inv_def slots)
    moreover have "tunnel_vrf E ?s k' = tunnel_vrf E s k'" for k'
      using u(2) assms k by (cases "k' = k") (simp_all add: tunnel_vrf_def tunnels_def obj_view_def)
    ultimately show ?thesis by blast
  qed
  then show ?thesis
    using vrfs routes inv by (auto simp: unseen_def agent_inv_def core_inv_def spec_of_def)
qed

lemma shc_tunnel_map_vrf_lookup_served:
  assumes "agent_inv E us fm n s" "\<not> rte_assert_on E" "tunnel_vrf E s (tunnel_key type tid) = Some (of_nat v + 1)"
    "v < nat SHC_NR_VRF"
  shows "\<exists>s'. shc_tunnel_map_vrf_lookup E type tid fl s = Some (Some v, s') \<and> unseen E us fm s s'"
proof -
  note tun = agent_invD(3) [OF assms(1)]
  obtain p where p: "rte_hash_lookup_data E (vrf_hash_tbl s) (tunnel_key type tid) = Some p"
    using assms(3) tunnel_unmapped [of E s "tunnel_key type tid"] by fastforce
  from tunnel_mappedE [OF tun p] obtain t i where t: "tunnel_mem s p = Some t" "i < nat SHC_NR_VRF"
    "tunnel_vrf E s (tunnel_key type tid) = Some (of_nat i + 1)" "shc_vrf_dp_get_by_id (ti_vrf_id t) s = Some (Some i)" by metis
  then have "i = v" using assms(3,4) vrf_id_inj [OF t(2) assms(4)] by simp
  from shc_tunnel_map_vrf_lookup_mapped [OF p t(1) assms(2) t(4), of fl] \<open>i = v\<close> show ?thesis
    using tunnel_recount [OF t(1), of "tunnel_counted fl t" E us fm] by (simp add: tunnel_counted_def)
qed

text \<open>The rule entry point always returns where its caller may call it.\<close>

lemma shc_neigh_lookup_returns:
  assumes "neigh_inv E s"
  shows "\<exists>r m s'. shc_neigh_lookup E vrfid gw fl s = Some (r, m, s') \<and> r \<in> {0, -1, - ENOENT, SHC_LOAD_TO_P4_FAIL}"
proof (cases "rte_hash_lookup_data E (neigh_tbl s) (neigh_key vrfid gw)")
  case (Some p)
  from obj_liveE [OF assms [unfolded neigh_inv_def] Some] obtain e where "neigh_mem s p = Some e" by metis
  then show ?thesis
    using Some by (simp add: shc_neigh_lookup_def Let_def hal_shim_defs hal_do_eq hal_ret_def)
qed (simp add: shc_neigh_lookup_def)

lemma spec_covered_longest:
  assumes "spec_covered (spec_of E us s) v ip"
  shows "\<exists>l. longest_route E us s v ip l"
proof -
  define P where "P l \<longleftrightarrow> l \<le> 32 \<and> routes E us s (cover_key v ip l) \<noteq> None" for l
  obtain l where l: "P l" using assms by (auto simp: P_def spec_covered_def spec_of_def cover_key_def)
  have bound: "\<And>k. P k \<Longrightarrow> k \<le> 32" by (simp add: P_def)
  define m where "m = (GREATEST l. P l)"
  have "P m" unfolding m_def by (rule GreatestI_nat [of P l 32]) (use l bound in blast)+
  moreover have "\<not> P k" if "m < k" for k
  proof
    assume "P k"
    then have "k \<le> m" unfolding m_def by (rule Greatest_le_nat [of P k 32]) (use bound in blast)
    with that show False by simp
  qed
  ultimately show ?thesis unfolding longest_route_def P_def by blast
qed

lemma shc_swTohw_rule_returns:
  assumes laws: "route_laws E us fm fd" "malloc_ok E" and inv: "agent_inv E us fm n s"
    and ok: "op_ok (spec_of E us s) (Rule vni src dst fl)"
  shows "\<exists>r s'. shc_swTohw_rule E vni src dst fl s = Some (r, s') \<and> r \<in> {0, -1, - ENOENT, SHC_LOAD_TO_P4_FAIL} \<and>
    unseen E us fm s s'"
proof -
  note off = route_lawsD(5) [OF laws(1)]
  from ok obtain v where v: "v < nat SHC_NR_VRF" "tunnel_vrf E s (tunnel_key SHC_TUNNEL_VXLAN 0) = Some (of_nat v + 1)"
    "spec_covered (spec_of E us s) v (rte_be_to_cpu_32 dst)"
    by (auto simp: op_ok_def spec_of_def)
  from shc_tunnel_map_vrf_lookup_served [OF inv off v(2,1)] obtain s1 where
    s1: "shc_tunnel_map_vrf_lookup E SHC_TUNNEL_VXLAN 0 fl s = Some (Some v, s1)" "unseen E us fm s s1" by blast
  define s2 where "s2 = dp_upd v (\<lambda>d. d\<lparr>exit_flag := 0, List_Node := Some initLink\<rparr>)
      (dp_upd v (\<lambda>d. d\<lparr>exit_flag := 0, List_Node := Some initLink\<rparr>) s1)"
  have u2: "unseen E us fm s s2"
    using s1(2) unseen_trans [OF flow_reset_unseen flow_reset_unseen] unseen_trans unfolding s2_def by blast
  with inv have inv2: "agent_inv E us fm n s2" "spec_of E us s2 = spec_of E us s" by (simp_all add: unseen_def)
  from v(3) inv2(2) obtain l where l: "longest_route E us s2 v (rte_be_to_cpu_32 dst) l"
    using spec_covered_longest by metis
  have "List_Node (vrf_dp_of s2 v) \<noteq> None" by (simp add: s2_def)
  from shc_route_lookup_covered [OF laws(1) agent_invD(2) [OF inv2(1)] v(1) l this laws(2)] obtain ret i s3 where
    s3: "shc_route_lookup E v src dst fl s2 = Some (ret, Some i, s3)" "ret = 0 \<or> ret = SHC_LOAD_TO_P4_FAIL"
      "route_inv E us fm s3" "rib_map E s2 (cover_key v (rte_be_to_cpu_32 dst) l) = Some i" "rib_map E s3 = rib_map E s2" by blast
  have u3: "unseen E us fm s s3" by (rule unseen_trans [OF u2 shc_route_lookup_unseen [OF s3(1)]])
  have core: "route_core E us fm s3" and near: "neigh_inv E s3" using s3(3) by (auto simp: route_inv_def)
  from s3(4,5) have "rib_map E s3 (cover_key v (rte_be_to_cpu_32 dst) l) = Some i" by simp
  from route_presentE [OF core this] obtain r p f where r: "fib_res_get s3 i = Some r" "mpath r = [p]" "nhop_mem s3 p = Some f" by metis
  then have f: "mpath_nhop s3 r 0 = Some f" by (simp add: mpath_nhop_def mpath_get_def)
  from shc_neigh_lookup_returns [OF near, of "vrf_id (vrf_dp_of s3 v)" "nh_gateway f" fl] obtain q m s4 where
    s4: "shc_neigh_lookup E (vrf_id (vrf_dp_of s3 v)) (nh_gateway f) fl s3 = Some (q, m, s4)" "q \<in> {0, -1, - ENOENT, SHC_LOAD_TO_P4_FAIL}" by blast
  have u4: "unseen E us fm s s4" by (rule unseen_trans [OF u3 shc_neigh_lookup_unseen [OF s4(1)]])
  have run: "shc_swTohw_rule E vni src dst fl s =
      (if ret < 0 then Some (ret, s3) else Some (if q < 0 then q else 0, s4))"
    using s1(1) s3(1) r(1) f s4(1) off laws(2) by (simp add: shc_swTohw_rule_def s2_def)
  show ?thesis
  proof (cases "ret < 0")
    case True
    then show ?thesis using run s3(2) u3 by auto
  next
    case False
    then show ?thesis using run s4(2) u4 by auto
  qed
qed

end
