(* ===== verification/Agent_Refines.thy ===== *)
theory Agent_Refines
  imports Agent_System
begin

text \<open>
  Every control operation, called as it may be called, returns, keeps the invariant of all tables and does
  to the abstract state what the specification says.
\<close>

section \<open>Every operation refines the abstract one\<close>

text \<open>What is relied on: the laws of the tables and their iterator, and memory for the lists of destinations.\<close>

definition agent_laws ::
  "('h, 'f, 'b) lib \<Rightarrow> ('b \<Rightarrow> int set) \<Rightarrow> ('f \<Rightarrow> u32 \<times> u8 \<rightharpoonup> int) \<Rightarrow> ('f \<Rightarrow> int) \<Rightarrow> ('h \<Rightarrow> hkey \<Rightarrow> nat) \<Rightarrow> bool" where
  "agent_laws E us fm fd hpos \<longleftrightarrow> sweep_laws E us fm fd hpos \<and> malloc_ok E"

lemma agent_lawsD:
  assumes "agent_laws E us fm fd hpos"
  shows "sweep_laws E us fm fd hpos" "route_laws E us fm fd" "malloc_ok E" "hash_laws E" "zmalloc_law E" "\<not> rte_assert_on E"
  using assms route_lawsD [of E us fm fd] by (auto simp: agent_laws_def sweep_laws_def)

definition op_refines ::
  "('h, 'f, 'b) lib \<Rightarrow> ('b \<Rightarrow> int set) \<Rightarrow> ('f \<Rightarrow> u32 \<times> u8 \<rightharpoonup> int) \<Rightarrow> nat \<Rightarrow> agent_op \<Rightarrow> ('h, 'f, 'b) agent \<Rightarrow> bool" where
  "op_refines E us fm n op s \<longleftrightarrow> (\<exists>r s'. agent_do E op s = Some (r, s') \<and> agent_inv E us fm (n + 1) s' \<and>
     spec_step (spec_of E us s) op r (spec_of E us s'))"

lemma agent_inv_mono: "agent_inv E us fm n s \<Longrightarrow> n \<le> m \<Longrightarrow> agent_inv E us fm m s"
  using refs_within_mono by (auto simp: agent_inv_def)

lemma op_refines_unseen:
  assumes "agent_inv E us fm n s" "agent_do E op s = Some (r, s')" "unseen E us fm s s'"
    "spec_step (spec_of E us s) op r (spec_of E us s)"
  shows "op_refines E us fm n op s"
  using assms agent_inv_mono [of E us fm n s' "n + 1"] by (auto simp: op_refines_def unseen_def)

lemma op_refines_route:
  assumes "agent_inv E us fm n s" "n + 1 < 2 ^ 32" "agent_do E op s = Some (r, s')" "refs_grow 1 s s'"
    "route_inv E us fm s'" "spec_step (spec_of E us s) op r ((spec_of E us s)\<lparr>sp_route := routes E us s'\<rparr>)"
  shows "op_refines E us fm n op s"
proof -
  have grow: "keeps_vrfs s s'" "refs_within (n + 1) (neigh_mem s')"
    using assms(4) agent_invD(4) [OF assms(1)] assms(2) by (auto simp: refs_grow_def)
  then have "agent_inv E us fm (n + 1) s'"
    using keeps_vrfs_tun(1,2) [OF grow(1)] agent_invD [OF assms(1)] assms(5) by (simp add: agent_inv_def)
  moreover have "spec_of E us s' = (spec_of E us s)\<lparr>sp_route := routes E us s'\<rparr>"
    using keeps_vrfs_of [OF grow(1)] by (simp add: spec_of_def)
  ultimately show ?thesis using assms(3,6) by (auto simp: op_refines_def)
qed

lemma refs_grow_le: "refs_grow 0 s s' \<Longrightarrow> refs_grow 1 s s'"
  by (rule refs_grow_mono [of 0]) simp_all

lemma refs_below:
  assumes "agent_inv E us fm n s" shows "neigh_refs E s k \<le> n"
  using agent_invD(4) [OF assms]
  by (auto simp: neigh_refs_def neighs_def obj_view_def refs_within_def split: option.splits)

lemma routes_below_fuel:
  assumes "route_inv E us fm s" shows "card (dom (routes E us s)) < sweep_fuel"
proof -
  have core: "route_core E us fm s" using assms by (simp add: route_inv_def)
  have "dom (routes E us s) = dom (rib_map E s)" using routes_None_iff [OF core] by (metis domIff set_eqI)
  then show ?thesis using rib_card [OF core] by (simp add: sweep_fuel_def)
qed

text \<open>The operations on routes.\<close>

lemma route_add_refines:
  assumes "agent_laws E us fm fd hpos" "agent_inv E us fm n s" "n + 1 < 2 ^ 32" "op_ok (spec_of E us s) (Route_add v pfx d t)"
  shows "op_refines E us fm n (Route_add v pfx d t) s"
proof -
  let ?k = "rib_tbl_key pfx"
  have ok: "v \<in> ran (vrf_of s)" "canon_prefix v pfx" "t = RT_DEFAULT \<or> (t = RT_MROUTE \<and> routes E us s ?k = None)"
    using assms(4) by (auto simp: op_ok_def spec_of_def)
  have room: "neigh_refs E s (neigh_key (vrf_id (vrf_dp_of s v)) (nk_gateway d)) < 2 ^ 32 - 1"
    using refs_below [OF assms(2)] assms(3) le_less_trans by fastforce
  from shc_route_nhop_insert_run [OF agent_lawsD(2) [OF assms(1)] agent_invD(2) [OF assms(2)] ok(2,3) room]
  obtain r s' where run: "shc_route_nhop_insert E v pfx d t s = Some (r, s')" "route_inv E us fm s'"
    and out: "case routes E us s ?k of
       None \<Rightarrow> (r = 0 \<and> routes E us s' = (routes E us s)(?k \<mapsto> (d, t))) \<or> (r < 0 \<and> routes E us s' = routes E us s)
     | Some (d0, t0) \<Rightarrow> s' = s \<and> r = (if t0 \<noteq> t then SHC_IPV4_ROUTETYPE_NO_SAME else SHC_ROUTE_NEXTHOP_ECMP_NOSPACE)"
    by blast
  have "spec_step (spec_of E us s) (Route_add v pfx d t) r ((spec_of E us s)\<lparr>sp_route := routes E us s'\<rparr>)"
  proof (cases "routes E us s ?k")
    case None
    then consider "r = 0" "routes E us s' = (routes E us s)(?k \<mapsto> (d, t))" | "r < 0" "routes E us s' = routes E us s"
      using out by auto
    then show ?thesis
      using None ok spec_step.route_new [of "spec_of E us s" pfx v d t] spec_step.route_fail [of "spec_of E us s" pfx r v d t]
      by cases (simp_all add: spec_of_def)
  next
    case (Some dt)
    then show ?thesis
      using out spec_step.route_again [of "spec_of E us s" pfx "fst dt" "snd dt" r t v d]
      by (simp add: spec_of_def case_prod_unfold)
  qed
  then show ?thesis
    using run by (intro op_refines_route [OF assms(2,3) _ shc_route_nhop_insert_grow [OF run(1)]]) (simp_all add: agent_do_def)
qed

lemma route_del_refines:
  assumes "agent_laws E us fm fd hpos" "agent_inv E us fm n s" "n + 1 < 2 ^ 32" "canon_prefix v pfx"
  shows "op_refines E us fm n (Route_del v pfx) s"
proof -
  from shc_route_delete_run [OF agent_lawsD(2) [OF assms(1)] agent_invD(2) [OF assms(2)] assms(4)]
  obtain r s' where run: "shc_route_delete E v pfx s = Some (r, s')" "route_inv E us fm s'"
    and out: "if routes E us s (rib_tbl_key pfx) = None then r = SHC_ROUTE_PREFIX_NOT_FOUND \<and> s' = s
     else r = 0 \<and> routes E us s' = (routes E us s)(rib_tbl_key pfx := None)" by blast
  have "spec_step (spec_of E us s) (Route_del v pfx) r ((spec_of E us s)\<lparr>sp_route := routes E us s'\<rparr>)"
    using out spec_step.route_none [of "spec_of E us s" pfx v] spec_step.route_del [of "spec_of E us s" pfx v]
    by (auto simp: spec_of_def split: if_splits)
  then show ?thesis
    using run by (intro op_refines_route [OF assms(2,3) _ refs_grow_le [OF shc_route_delete_grow [OF run(1)]]]) (simp_all add: agent_do_def)
qed

lemma nhop_del_refines:
  assumes "agent_laws E us fm fd hpos" "agent_inv E us fm n s" "n + 1 < 2 ^ 32" "canon_prefix v pfx"
  shows "op_refines E us fm n (Nhop_del v pfx d t) s"
proof -
  let ?k = "rib_tbl_key pfx"
  from shc_route_nhop_delete_contract [OF agent_lawsD(2) [OF assms(1)] agent_invD(2) [OF assms(2)] assms(4), of d t]
  obtain r s' where run: "shc_route_nhop_delete E v pfx d t s = Some (r, s')" "route_inv E us fm s'"
    and out: "case routes E us s ?k of None \<Rightarrow> r = 0 \<and> s' = s
     | Some (d0, t0) \<Rightarrow> if t0 \<noteq> t then r = SHC_IPV4_ROUTETYPE_NO_SAME \<and> s' = s
         else if d0 \<noteq> d then r = 0 \<and> s' = s
         else r = 0 \<and> routes E us s' = (routes E us s)(?k := None)" by blast
  have "spec_step (spec_of E us s) (Nhop_del v pfx d t) r ((spec_of E us s)\<lparr>sp_route := routes E us s'\<rparr>)"
  proof (cases "routes E us s ?k")
    case None
    then show ?thesis using out spec_step.nhop_none [of "spec_of E us s" pfx v d t] by (simp add: spec_of_def)
  next
    case (Some dt)
    show ?thesis
      using Some out spec_step.nhop_other [of "spec_of E us s" pfx "fst dt" "snd dt" t d r v]
        spec_step.nhop_del [of "spec_of E us s" pfx d t v]
      by (auto simp: spec_of_def case_prod_unfold split: if_splits)
  qed
  then show ?thesis
    using run by (intro op_refines_route [OF assms(2,3) _ refs_grow_le [OF shc_route_nhop_delete_grow [OF run(1)]]]) (simp_all add: agent_do_def)
qed

lemma route_flush_refines:
  assumes "agent_laws E us fm fd hpos" "agent_inv E us fm n s" "n + 1 < 2 ^ 32" "v < nat SHC_NR_VRF"
  shows "op_refines E us fm n (Route_flush v) s"
proof -
  note inv = agent_invD(2) [OF assms(2)]
  from shc_route_cleanup_run [OF agent_lawsD(1) [OF assms(1)] inv assms(4) routes_below_fuel [OF inv]]
  obtain s' where run: "shc_route_cleanup E sweep_fuel v s = Some (0, s')" "route_inv E us fm s'"
    "routes E us s' = (\<lambda>k. if of_vrf v k then None else routes E us s k)" by blast
  have "spec_step (spec_of E us s) (Route_flush v) 0 ((spec_of E us s)\<lparr>sp_route := routes E us s'\<rparr>)"
    using spec_step.flush [of "spec_of E us s" v] run(3) by (simp add: spec_flush_def spec_of_def cong: if_cong)
  then show ?thesis
    using run by (intro op_refines_route [OF assms(2,3) _ refs_grow_le [OF shc_route_cleanup_grow [OF run(1)]]]) (simp_all add: agent_do_def)
qed

text \<open>The operations on VRFs.\<close>

lemma slot_taken_routes:
  "route_inv E us fm (slot_taken nm i s) = route_inv E us fm s" "routes E us (slot_taken nm i s) = routes E us s"
proof -
  let ?s' = "slot_taken nm i s"
  have same: "fib (vrf_dp_of ?s' w) = fib (vrf_dp_of s w)" "rib_cnt (vrf_dp_of ?s' w) = rib_cnt (vrf_dp_of s w)"
    "vrf_id (vrf_dp_of ?s' w) = vrf_id (vrf_dp_of s w)" for w
    by (simp_all add: slot_taken_def shc_vrf_dp_ctor_def)
  have tabs: "rib_map E ?s' = rib_map E s" "rib_live us ?s' = rib_live us s" "nhop_mem ?s' = nhop_mem s"
    by (simp_all add: slot_taken_def rib_map_def rib_live_def fun_eq_iff)
  have "route_core E us fm ?s' = route_core E us fm s"
    by (rule route_core_cong) (use same tabs in \<open>simp_all add: slot_taken_def\<close>)
  then show "route_inv E us fm ?s' = route_inv E us fm s" by (simp add: route_inv_def nhop_inv_def neigh_inv_def slot_taken_def)
  show "routes E us ?s' = routes E us s" by (rule routes_cong [OF tabs])
qed

lemma vrf_add_refines:
  assumes "agent_inv E us fm n s" "length nm < SHC_VRF_NAME_LEN"
  shows "op_refines E us fm n (Vrf_add nm) s"
proof -
  note I = agent_invD [OF assms(1)]
  note ran = ran_vrf_of [OF I(1)]
  have slots: "valid_slots s = ran (sp_vrf (spec_of E us s))" by (simp add: spec_of_def ran)
  show ?thesis
  proof (cases rule: shc_vrf_add_run [OF I(1), of nm, case_names exist full new])
    case (exist i)
    then have "sp_vrf (spec_of E us s) nm = Some i" using vrf_of_iff [OF I(1)] by (simp add: spec_of_def)
    from spec_step.vrf_again [OF this] show ?thesis
      using exist(2) by (intro op_refines_unseen [OF assms(1), where s' = s]) (simp_all add: agent_do_def)
  next
    case full
    then have "sp_vrf (spec_of E us s) nm = None" using vrf_of_None_iff [OF I(1)] by (simp add: spec_of_def)
    moreover have "ran (sp_vrf (spec_of E us s)) = {..<nat SHC_NR_VRF}" using full(2) slots by auto
    ultimately show ?thesis
      using full(3) spec_step.vrf_full by (intro op_refines_unseen [OF assms(1), where s' = s]) (auto simp: agent_do_def)
  next
    case (new i)
    let ?s' = "slot_taken nm i s"
    note S = slot_taken_sound [OF I(1) assms(2) new(1,2)]
    have i: "i < nat SHC_NR_VRF" "i \<notin> valid_slots s" "{..<i} \<subseteq> valid_slots s"
      using new(2) by (auto simp: first_free_slot_def)
    have tabs: "tunnel_mem ?s' = tunnel_mem s" "vrf_hash_tbl ?s' = vrf_hash_tbl s" "neigh_mem ?s' = neigh_mem s"
      by (simp_all add: slot_taken_def)
    have routes: "route_inv E us fm ?s'" "routes E us ?s' = routes E us s"
      using I(2) by (simp_all add: slot_taken_routes)
    note tun = tun_table [OF I(3)] and row = tun_rmap [OF I(3)]
    have "rmap_of (tunnel_mem s) i = {}"
    proof (rule ccontr)
      assume "rmap_of (tunnel_mem s) i \<noteq> {}"
      then obtain p t where p: "tunnel_mem s p = Some t" "ti_vrf_id t = of_nat i + 1" by (auto simp: rmap_of_def)
      then obtain k where "rte_hash_lookup_data E (vrf_hash_tbl s) k = Some p" using obj_noleak [OF tun, of p] by auto
      from tunnel_mappedE [OF I(3) this] p obtain j where "j \<in> valid_slots s" "j < nat SHC_NR_VRF" "of_nat j + 1 = (of_nat i + 1 :: u32)"
        by (metis option.inject)
      then show False using vrf_id_inj [of j i] i(1,2) by simp
    qed
    then have "tun_inv E ?s'"
      using row obj_table_mono [OF tun, of "\<lambda>_ t. \<exists>j \<in> valid_slots ?s'. ti_vrf_id t = of_nat j + 1"] S(2)
      unfolding tun_inv_def tabs by (auto simp: slot_taken_def shc_vrf_dp_ctor_def)
    then have inv: "agent_inv E us fm (n + 1) ?s'"
      using agent_inv_mono [of E us fm n ?s' "n + 1"] S(1) routes(1) I(4) tabs by (simp add: agent_inv_def)
    have "vrf_of ?s' = (vrf_of s)(nm \<mapsto> i)"
    proof
      fix m show "vrf_of ?s' m = ((vrf_of s)(nm \<mapsto> i)) m"
        using S(3) new(1) by (intro option_eqI) (auto simp: vrf_of_iff [OF I(1)] vrf_of_iff [OF S(1)])
    qed
    then have spec: "spec_of E us ?s' = (spec_of E us s)\<lparr>sp_vrf := (sp_vrf (spec_of E us s))(nm \<mapsto> i)\<rparr>"
      using routes(2) tabs by (simp add: spec_of_def tunnel_vrf_def [abs_def] tunnels_def)
    have "sp_vrf (spec_of E us s) nm = None" using new(1) vrf_of_None_iff [OF I(1)] by (simp add: spec_of_def)
    from spec_step.vrf_new [OF this i(1)] i(2,3) spec
    have "spec_step (spec_of E us s) (Vrf_add nm) 0 (spec_of E us ?s')" by (simp add: slots)
    then show ?thesis using new(3) inv by (auto simp: op_refines_def agent_do_def slot_taken_def)
  qed
qed

lemma vrf_del_refines:
  assumes "agent_laws E us fm fd hpos" "agent_inv E us fm n s" "n + 1 < 2 ^ 32" "op_ok (spec_of E us s) (Vrf_del nm)"
  shows "op_refines E us fm n (Vrf_del nm) s"
proof -
  note I = agent_invD [OF assms(2)]
  show ?thesis
  proof (cases rule: shc_vrf_del_run [OF agent_lawsD(1) [OF assms(1)] I(2,1,3) routes_below_fuel [OF I(2)], of nm, case_names no vrf])
    case no
    then have "sp_vrf (spec_of E us s) nm = None" using vrf_of_None_iff [OF I(1)] by (simp add: spec_of_def)
    from spec_step.vrf_gone [OF this] no(2) show ?thesis
      by (intro op_refines_unseen [OF assms(2), where s' = s]) (simp_all add: agent_do_def)
  next
    case (vrf v s1)
    let ?s' = "slot_freed v s1"
    note keep = keeps_vrfs_tun(1) [OF vrf(7), where E = E] keeps_vrfs_tun(2,3) [OF vrf(7)] keeps_vrfs_of [OF vrf(7), of E]
    have name: "sp_vrf (spec_of E us s) nm = Some v" using vrf(1) vrf_of_iff [OF I(1)] by (simp add: spec_of_def)
    then have free: "of_nat v + 1 \<notin> ran (tunnel_vrf E s)" using assms(4) by (simp add: op_ok_def spec_of_def)
    have "rmap_of (tunnel_mem s) v = {}"
    proof (rule ccontr)
      assume "rmap_of (tunnel_mem s) v \<noteq> {}"
      then obtain p t where p: "tunnel_mem s p = Some t" "ti_vrf_id t = of_nat v + 1" by (auto simp: rmap_of_def)
      then obtain k where k: "rte_hash_lookup_data E (vrf_hash_tbl s) k = Some p" using obj_noleak [OF tun_table [OF I(3)], of p] by auto
      then have "tunnel_vrf E s k = Some (of_nat v + 1)" using p by (simp add: tunnel_vrf_def tunnels_def obj_view_def)
      then show False using free by (auto simp: ran_def)
    qed
    then have empty: "tunnel_rmap (vrf_dp_of s1 v) = []"
      using tun_rmap [OF I(3) vrf(4)] vrf(7) by (simp add: keeps_vrfs_def)
    have "refs_within n (neigh_mem ?s')"
      using shc_route_cleanup_grow [OF vrf(6)] I(4) assms(3) by (simp add: refs_grow_def)
    then have "agent_inv E us fm n ?s'"
      using vrf_inv_freed [of s1 v] tun_inv_freed [OF _ empty vrf(4), of E] I vrf(3,8) keep
      by (simp add: agent_inv_def route_inv_freed)
    then have inv: "vrf_inv ?s'" "agent_inv E us fm (n + 1) ?s'"
      using agent_inv_mono [of E us fm n ?s' "n + 1"] agent_invD(1) by auto
    have "is_vrf ?s' m j \<longleftrightarrow> is_vrf s m j \<and> m \<noteq> nm" for m j
      using vrf(1,2) vrf_of_iff [OF I(1)] keep(3) vrf(7)
      by (auto simp: is_vrf_freed is_vrf_def keeps_vrfs_def)
    then have "vrf_of ?s' m = ((vrf_of s)(nm := None)) m" for m
      by (intro option_eqI) (auto simp: vrf_of_iff [OF I(1)] vrf_of_iff [OF inv(1)])
    then have names: "vrf_of ?s' = (vrf_of s)(nm := None)" by (rule ext)
    have "tunnel_mem ?s' = tunnel_mem s1" using empty by (simp add: fun_eq_iff)
    then have tuns: "tunnel_vrf E ?s' = tunnel_vrf E s" using keep(4) by (simp add: tunnel_vrf_def [abs_def] tunnels_def)
    have "spec_of E us ?s' = spec_flush v ((spec_of E us s)\<lparr>sp_vrf := (sp_vrf (spec_of E us s))(nm := None)\<rparr>)"
      using names tuns vrf(9) by (simp add: spec_of_def spec_flush_def route_inv_freed cong: if_cong)
    with spec_step.vrf_del [OF name] free have "spec_step (spec_of E us s) (Vrf_del nm) 0 (spec_of E us ?s')"
      by (simp add: spec_of_def)
    then show ?thesis using vrf(5) inv(2) by (auto simp: op_refines_def agent_do_def)
  qed
qed

lemma dp_write_unseen:
  "(\<And>d. fib (g d) = fib d \<and> rib_cnt (g d) = rib_cnt d \<and> vrf_id (g d) = vrf_id d \<and> tunnel_rmap (g d) = tunnel_rmap d \<and>
      tunnel_cnt (g d) = tunnel_cnt d) \<Longrightarrow> unseen E us fm s (dp_upd i g s)"
  by (rule route_only_unseen) (simp add: route_only_def keeps_routes_def dp_upd_def)

lemma vrf_intip_refines:
  assumes "agent_inv E us fm n s" shows "op_refines E us fm n (Vrf_intip nm ip) s"
  using agent_invD(1) [OF assms]
proof (cases rule: shc_vrf_lookup_spec [of s nm, case_names no vrf])
  case no
  then have "sp_vrf (spec_of E us s) nm = None" using vrf_of_None_iff [OF agent_invD(1) [OF assms]] by (simp add: spec_of_def)
  then show ?thesis using no
    by (intro op_refines_unseen [OF assms _ unseen_refl, where r = SHC_VRF_NOT_EXIST])
       (auto simp: agent_do_def shc_vrf_intip_set_def intro: spec_step.intip)
next
  case (vrf i)
  then have "sp_vrf (spec_of E us s) nm = Some i" using vrf_of_iff [OF agent_invD(1) [OF assms]] by (simp add: spec_of_def)
  then show ?thesis using vrf(3)
    by (intro op_refines_unseen [OF assms _ dp_write_unseen [of "\<lambda>d. d\<lparr>internal_ip := ip\<rparr>" _ _ _ _ i], where r = 0])
       (auto simp: agent_do_def shc_vrf_intip_set_def intro: spec_step.intip)
qed

lemma vrf_rmac_refines:
  assumes "agent_inv E us fm n s" shows "op_refines E us fm n (Vrf_rmac nm m) s"
  using agent_invD(1) [OF assms]
proof (cases rule: shc_vrf_lookup_spec [of s nm, case_names no vrf])
  case no
  then have "sp_vrf (spec_of E us s) nm = None" using vrf_of_None_iff [OF agent_invD(1) [OF assms]] by (simp add: spec_of_def)
  then show ?thesis using no
    by (intro op_refines_unseen [OF assms _ unseen_refl, where r = SHC_VRF_NOT_EXIST])
       (auto simp: agent_do_def shc_vrf_rmac_set_def intro: spec_step.rmac)
next
  case (vrf i)
  then have "sp_vrf (spec_of E us s) nm = Some i" using vrf_of_iff [OF agent_invD(1) [OF assms]] by (simp add: spec_of_def)
  then show ?thesis using vrf(3)
    by (intro op_refines_unseen [OF assms _ dp_write_unseen [of "\<lambda>d. d\<lparr>route_mac := rte_ether_addr_copy m\<rparr>" _ _ _ _ i], where r = 0])
       (auto simp: agent_do_def shc_vrf_rmac_set_def intro: spec_step.rmac)
qed

lemma vrf_rmac_unset_refines:
  assumes "agent_inv E us fm n s" shows "op_refines E us fm n (Vrf_rmac_unset nm m) s"
  using agent_invD(1) [OF assms]
proof (cases rule: shc_vrf_lookup_spec [of s nm, case_names no vrf])
  case no
  then have "sp_vrf (spec_of E us s) nm = None" using vrf_of_None_iff [OF agent_invD(1) [OF assms]] by (simp add: spec_of_def)
  then show ?thesis using no
    by (intro op_refines_unseen [OF assms _ unseen_refl, where r = SHC_VRF_NOT_EXIST])
       (auto simp: agent_do_def shc_vrf_rmac_unset_def intro: spec_step.rmac_unset)
next
  case (vrf i)
  then have name: "sp_vrf (spec_of E us s) nm = Some i" using vrf_of_iff [OF agent_invD(1) [OF assms]] by (simp add: spec_of_def)
  show ?thesis
  proof (cases "take 6 m = route_mac (vrf_dp_of s i)")
    case True
    then show ?thesis using vrf(3) name
      by (intro op_refines_unseen [OF assms _ dp_write_unseen [of "\<lambda>d. d\<lparr>route_mac := rte_ether_addr_copy (shc_fake_mac_get s)\<rparr>" _ _ _ _ i],
            where r = 0])
         (auto simp: agent_do_def shc_vrf_rmac_unset_def intro: spec_step.rmac_unset)
  next
    case False
    then show ?thesis using vrf(3) name
      by (intro op_refines_unseen [OF assms _ unseen_refl, where r = SHC_COMM_INVAL_PARAM])
         (auto simp: agent_do_def shc_vrf_rmac_unset_def intro: spec_step.rmac_unset)
  qed
qed

text \<open>Mapping a tunnel writes the tunnels only.\<close>

definition tun_only :: "('h, 'f, 'b) agent \<Rightarrow> ('h, 'f, 'b) agent \<Rightarrow> bool" where
  "tun_only s s' \<longleftrightarrow> rib_tbl s' = rib_tbl s \<and> fib_res_mem s' = fib_res_mem s \<and> fib_res_used s' = fib_res_used s \<and>
     f_res_blackhole s' = f_res_blackhole s \<and> nhop_tbl s' = nhop_tbl s \<and> nhop_mem s' = nhop_mem s \<and>
     neigh_tbl s' = neigh_tbl s \<and> neigh_mem s' = neigh_mem s \<and> g_shc_vrf_n s' = g_shc_vrf_n s \<and>
     (\<forall>w. fib (vrf_dp_of s' w) = fib (vrf_dp_of s w) \<and> rib_cnt (vrf_dp_of s' w) = rib_cnt (vrf_dp_of s w) \<and>
        vrf_id (vrf_dp_of s' w) = vrf_id (vrf_dp_of s w) \<and>
        valid (g_shc_vrfs s' w) = valid (g_shc_vrfs s w) \<and> name (g_shc_vrfs s' w) = name (g_shc_vrfs s w))"

lemma shc_tunnel_map_vrf_only:
  fixes E :: "('h, 'f, 'b) lib"
  assumes "shc_tunnel_map_vrf E nm type tid attr s = Some (r, s')" shows "tun_only s s'"
proof -
  have refl: "tun_only t t" for t :: "('h, 'f, 'b) agent" by (simp add: tun_only_def)
  have put: "tun_only s (dp_upd i (\<lambda>d. d\<lparr>tunnel_rmap := g d, tunnel_cnt := c d\<rparr>) (s\<lparr>vrf_hash_tbl := h, tunnel_mem := m\<rparr>))"
    "tun_only s (s\<lparr>vrf_hash_tbl := h\<rparr>)" for i g c h m
    by (simp_all add: tun_only_def dp_upd_def)
  show ?thesis
    using assms
    by (simp add: shc_tunnel_map_vrf_def Let_def split: Option.bind_splits option.split_asm prod.split_asm if_split_asm)
       (auto simp: refl put)
qed

lemma tun_only_inv:
  assumes "tun_only s s'"
  shows "vrf_inv s' = vrf_inv s" "route_inv E us fm s' = route_inv E us fm s" "routes E us s' = routes E us s" "vrf_of s' = vrf_of s"
proof -
  note o = assms [unfolded tun_only_def]
  have "valid_slots s' = valid_slots s" using o by (simp add: valid_slots_def)
  then show "vrf_inv s' = vrf_inv s" using o by (simp add: vrf_inv_def)
  have same: "rib_map E s' = rib_map E s" "rib_live us s' = rib_live us s"
    using o by (simp_all add: rib_map_def rib_live_def fun_eq_iff)
  show "routes E us s' = routes E us s" by (rule routes_cong) (use same o in simp_all)
  have "route_core E us fm s' = route_core E us fm s" by (rule route_core_cong) (use same o in simp_all)
  then show "route_inv E us fm s' = route_inv E us fm s" using o by (simp add: route_inv_def nhop_inv_def neigh_inv_def)
  show "vrf_of s' = vrf_of s" using o by (simp add: vrf_of_def [abs_def])
qed

lemma tunnel_add_refines:
  assumes "agent_laws E us fm fd hpos" "agent_inv E us fm n s"
  shows "op_refines E us fm n (Tunnel_add nm type tid attr) s"
proof -
  let ?k = "tunnel_key type tid" and ?a = "spec_of E us s"
  note I = agent_invD [OF assms(2)] and L = agent_lawsD [OF assms(1)]
  from shc_tunnel_map_vrf_contract_plain [OF L(4,5,6) I(1,3), of nm type tid attr] obtain r s' where
    run: "shc_tunnel_map_vrf E nm type tid attr s = Some (r, s')" "tun_inv E s'" and
    out: "((\<forall>i. \<not> is_vrf s nm i) \<and> r = SHC_VRF_NOT_EXIST \<and> s' = s) \<or>
     (\<exists>i. is_vrf s nm i \<and>
        ((r = 0 \<and> tunnel_vrf E s' = (tunnel_vrf E s)(?k \<mapsto> of_nat i + 1)) \<or>
         (r = SHC_TUNNEL_INUSED \<and> s' = s \<and> (\<exists>j. j \<noteq> i \<and> tunnel_vrf E s ?k = Some (of_nat j + 1))) \<or>
         ((r = SHC_COMM_NOMEM \<or> r = SHC_TUNNEL_MAP_NOSPACE) \<and> tunnel_vrf E s' = tunnel_vrf E s)))" by blast
  note only = tun_only_inv [OF shc_tunnel_map_vrf_only [OF run(1)]]
  have "agent_inv E us fm (n + 1) s'"
    using I run(2) only(1,2) refs_within_mono [OF I(4), of "n + 1"] shc_tunnel_map_vrf_only [OF run(1)]
    by (simp add: agent_inv_def tun_only_def)
  moreover have "spec_of E us s' = ?a\<lparr>sp_tun := tunnel_vrf E s'\<rparr>" using only(3,4) by (simp add: spec_of_def)
  moreover have "spec_step ?a (Tunnel_add nm type tid attr) r (?a\<lparr>sp_tun := tunnel_vrf E s'\<rparr>)"
  proof (cases "sp_vrf ?a nm")
    case None
    then have "\<forall>i. \<not> is_vrf s nm i" using vrf_of_None_iff [OF I(1)] by (simp add: spec_of_def)
    with out None show ?thesis using spec_step.tun_novrf by (auto simp: spec_of_def)
  next
    case (Some i)
    then have i: "is_vrf s nm i" "i < nat SHC_NR_VRF" and vi: "shc_vrf_lookup nm s = Some (Some i)"
      using vrf_of_iff [OF I(1)] shc_vrf_lookup_iff [OF I(1)] by (auto simp: spec_of_def is_vrf_def valid_slots_def)
    have uniq: "is_vrf s nm j \<Longrightarrow> j = i" for j using vrf_of_iff [OF I(1), of nm] i(1) by (metis option.inject)
    consider (used) "r = SHC_TUNNEL_INUSED" "s' = s" "\<exists>j. j \<noteq> i \<and> tunnel_vrf E s ?k = Some (of_nat j + 1)"
      | (fail) "r \<in> {SHC_COMM_NOMEM, SHC_TUNNEL_MAP_NOSPACE}" "tunnel_vrf E s' = tunnel_vrf E s"
      | (ok) "r = 0" "tunnel_vrf E s' = (tunnel_vrf E s)(?k \<mapsto> of_nat i + 1)"
      using out i(1) uniq by (metis insertCI)
    then show ?thesis
    proof cases
      case used
      then show ?thesis using Some spec_step.tun_used by (auto simp: spec_of_def)
    next
      case fail
      then show ?thesis using Some spec_step.tun_fail [of ?a nm i r type tid attr] by (simp add: spec_of_def)
    next
      case ok
      have "sp_tun ?a ?k \<in> {None, Some (of_nat i + 1)}"
      proof (cases "rte_hash_lookup_data E (vrf_hash_tbl s) ?k")
        case None
        then show ?thesis by (simp add: spec_of_def tunnel_unmapped)
      next
        case (Some p)
        from tunnel_mappedE [OF I(3) Some] obtain t j where t: "tunnel_mem s p = Some t"
          "ti_vrf_id t = of_nat j + 1" "tunnel_vrf E s ?k = Some (of_nat j + 1)" by metis
        have "vrf_id (vrf_dp_of s i) = of_nat i + 1" using I(1) i(2) by (simp add: vrf_inv_def)
        then have "ti_vrf_id t = of_nat i + 1"
          using run(1) ok(1) vi Some t(1) L(6) by (auto simp: shc_tunnel_map_vrf_def const_defs split: if_splits)
        then show ?thesis using t by (simp add: spec_of_def)
      qed
      from spec_step.tun_map [OF Some this, of attr] ok show ?thesis by (simp add: spec_of_def)
    qed
  qed
  ultimately show ?thesis using run(1) by (auto simp: op_refines_def agent_do_def)
qed

lemma rule_refines:
  assumes "agent_laws E us fm fd hpos" "agent_inv E us fm n s" "op_ok (spec_of E us s) (Rule vni src dst fl)"
  shows "op_refines E us fm n (Rule vni src dst fl) s"
  using shc_swTohw_rule_returns [OF agent_lawsD(2,3) [OF assms(1)] assms(2,3)] spec_step.rule [of _ "spec_of E us s" vni src dst fl]
  by (auto simp: agent_do_def intro: op_refines_unseen [OF assms(2)])

lemma agent_do_refines:
  assumes "agent_laws E us fm fd hpos" "agent_inv E us fm n s" "n + 1 < 2 ^ 32" "op_ok (spec_of E us s) op"
  shows "op_refines E us fm n op s"
  using assms(4) vrf_add_refines [OF assms(2)] vrf_del_refines [OF assms(1-3)] vrf_intip_refines [OF assms(2)]
    vrf_rmac_refines [OF assms(2)] vrf_rmac_unset_refines [OF assms(2)] route_add_refines [OF assms(1-3)]
    route_del_refines [OF assms(1-3)] nhop_del_refines [OF assms(1-3)] route_flush_refines [OF assms(1-3)]
    tunnel_add_refines [OF assms(1,2)] rule_refines [OF assms(1,2)]
  by (cases op) (simp_all add: op_ok_def [of _ "Vrf_add x" for x] op_ok_def [of _ "Route_del v p" for v p]
      op_ok_def [of _ "Nhop_del v p d t" for v p d t] op_ok_def [of _ "Route_flush v" for v])

end
