(* ===== verification/Agent_Start.thy ===== *)
theory Agent_Start
  imports Vrf_Life Netio_Filter Decimal
begin

text \<open>
  The packet thread of the agent: the start-up of the data plane (\<open>shc_dp_init\<close>, \<open>agent/pmd.c\<close>), the
  sockets and events of \<open>agent/netio.c\<close>, the event loop's callbacks and the thread's body
  (\<open>shc_pmd_thread\<close>). A call of \<open>rte_exit\<close> ends the process: that outcome is \<open>Inl\<close> with its message,
  any other return is \<open>Inr\<close>.
\<close>

section \<open>The operating system and the event library\<close>

text \<open>
  What the calls return: a handle or \<open>None\<close> for NULL, or the status. \<open>rte_eal_init\<close> is given the
  argument vector; the calls on an event are told which of the two events it is, those on a socket the
  socket and the option.
\<close>

datatype netio_event = Udp_event | Timer_event

record io_lib =
  rte_eal_init :: "string list \<Rightarrow> int"
  rte_eal_cleanup :: int
  rte_pktmbuf_pool_create :: "string \<Rightarrow> nat \<Rightarrow> nat \<Rightarrow> nat option"
  sys_socket :: int
  sys_setsockopt :: "int \<Rightarrow> string \<Rightarrow> int"
  event_base_new_with_config :: "nat option"
  event_assign :: "netio_event \<Rightarrow> int"
  event_add :: "netio_event \<Rightarrow> int"
  event_loopbreak_stops :: bool

text \<open>The handles in a thread's context; \<open>sock_prog\<close> is the filter attached to its socket.\<close>

record io_ctx =
  mp :: "nat option"
  ev_base :: "nat option"
  udp_sock :: int
  sock_prog :: "sock_filter list option"
  timer_tv :: "int \<times> int"
  dp_locker_set :: bool

definition io_ctx_zero :: io_ctx where
  "io_ctx_zero = \<lparr>mp = None, ev_base = None, udp_sock = 0, sock_prog = None, timer_tv = (0, 0), dp_locker_set = False\<rparr>"

section \<open>The EAL and the buffer pool\<close>

text \<open>The size is a 32-bit number printed as a signed one into 16 bytes.\<close>

definition shc_dp_eal_init :: "io_lib \<Rightarrow> shc_pmd_ctx \<Rightarrow> string + int" where
  "shc_dp_eal_init IO ctx =
     (let m = (if msize ctx \<noteq> 0 then take 15 (fmt_d (sint (msize ctx))) else ''2048'');
          argv = [''swf'', ''--no-huge'', ''-m'', m, ''--syslog'', ''syslog'']
      in if pid ctx \<noteq> 0 then Inr 0
         else if rte_eal_init IO argv < 0 then Inl ''Error with EAL initialization''
         else Inr 0)"

definition NB_MBUF :: nat where "NB_MBUF = 1024 * 8"

definition shc_dp_mbuf_init :: "('h, 'f, 'b) lib \<Rightarrow> io_lib \<Rightarrow> io_ctx \<Rightarrow> (int \<times> io_ctx) option" where
  "shc_dp_mbuf_init E IO c = do {
     let mbuf_pool = rte_pktmbuf_pool_create IO ''MBUF_POOL'' NB_MBUF 32;
     RTE_ASSERT E (mbuf_pool \<noteq> None);
     Some (0, c\<lparr>mp := mbuf_pool\<rparr>)
   }"

definition shc_dp_mbuf_deinit :: int where "shc_dp_mbuf_deinit = 0"

definition shc_dp_eal_deinit :: "io_lib \<Rightarrow> int" where "shc_dp_eal_deinit IO = rte_eal_cleanup IO"

section \<open>The socket and its events\<close>

definition udp_netio_init :: "('h, 'f, 'b) lib \<Rightarrow> io_lib \<Rightarrow> io_ctx \<Rightarrow> (int \<times> io_ctx) option" where
  "udp_netio_init E IO c = do {
     let raw_sock = sys_socket IO;
     RTE_ASSERT E (raw_sock \<ge> 0);
     let ret = sys_setsockopt IO raw_sock ''IP_HDRINCL'';
     RTE_ASSERT E (ret = 0);
     let ret = sys_setsockopt IO raw_sock ''SO_ATTACH_FILTER'';
     RTE_ASSERT E (ret = 0);
     let c = c\<lparr>udp_sock := raw_sock, sock_prog := (if ret = 0 then Some insns else None)\<rparr>;
     RTE_ASSERT E (ev_base c \<noteq> None);
     let ret = event_assign IO Udp_event;
     RTE_ASSERT E (ret = 0);
     let ret = event_add IO Udp_event;
     RTE_ASSERT E (ret = 0);
     Some (ret, c)
   }"

definition shc_netio_init :: "('h, 'f, 'b) lib \<Rightarrow> io_lib \<Rightarrow> io_ctx \<Rightarrow> (int \<times> io_ctx) option" where
  "shc_netio_init E IO c = do {
     let c = c\<lparr>dp_locker_set := True, ev_base := event_base_new_with_config IO\<rparr>;
     RTE_ASSERT E (ev_base c \<noteq> None);
     (ret, c) \<leftarrow> udp_netio_init E IO c;
     RTE_ASSERT E (0 = ret);
     let ret = event_assign IO Timer_event;
     RTE_ASSERT E (ret = 0);
     let c = c\<lparr>timer_tv := (1, 0)\<rparr>;
     let ret = event_add IO Timer_event;
     RTE_ASSERT E (ret = 0);
     Some (0, c)
   }"

definition shc_netio_deinit :: int where "shc_netio_deinit = 0"

section \<open>The data plane's start-up\<close>

text \<open>A call whose negative result ends the process with a message.\<close>

definition or_exit :: "string \<Rightarrow> (int \<times> 'a) option \<Rightarrow> ('a \<Rightarrow> (string + 'c) option) \<Rightarrow> (string + 'c) option" where
  "or_exit msg call k = do { (ret, x) \<leftarrow> call; if ret < 0 then Some (Inl msg) else k x }"

definition shc_dp_init ::
  "('h, 'f, 'b) lib \<Rightarrow> io_lib \<Rightarrow> shc_pmd_ctx \<Rightarrow> io_ctx \<Rightarrow> ('h, 'f, 'b) agent
     \<Rightarrow> (string + int \<times> io_ctx \<times> ('h, 'f, 'b) agent) option" where
  "shc_dp_init E IO ctx c s =
     (case shc_dp_eal_init IO ctx of
        Inl msg \<Rightarrow> Some (Inl msg)
      | Inr ret \<Rightarrow>
          if ret < 0 then Some (Inl ''Initialize EAL failed'')
          else
            or_exit ''Initialize mbuf pool failed'' (shc_dp_mbuf_init E IO c) (\<lambda>c.
            or_exit ''Initialize VRF failed'' (shc_vrf_init E s) (\<lambda>s.
            or_exit ''Initialize VRF mapping failed'' (shc_tunnel_map_vrf_init E s) (\<lambda>s.
            or_exit ''Initialize overlay neigh failed'' (shc_neigh_init E s) (\<lambda>s.
            or_exit ''Initialize raw socket failed'' (shc_netio_init E IO c) (\<lambda>c.
            Some (Inr (0, c, s))))))))"

definition shc_dp_deinit :: "io_lib \<Rightarrow> string + int" where
  "shc_dp_deinit IO =
     (if shc_netio_deinit < 0 then Inl ''finish raw socket failed''
      else if shc_neigh_deinit < 0 then Inl ''finish overlay neigh failed''
      else if shc_tunnel_map_vrf_deinit < 0 then Inl ''finish VRF mapping failed''
      else if shc_vrf_deinit < 0 then Inl ''finish VRF failed''
      else if shc_dp_mbuf_deinit < 0 then Inl ''finish mbuf pool failed''
      else if shc_dp_eal_deinit IO < 0 then Inl ''finish EAL failed''
      else Inr 0)"

section \<open>The event loop\<close>

text \<open>The lock's entry points, which the loop's other threads would use.\<close>

definition shc_netio_write_lock :: "('h, 'f, 'b) pmd \<Rightarrow> ('h, 'f, 'b) pmd" where
  "shc_netio_write_lock s = s\<lparr>lock_log := WrLock # lock_log s\<rparr>"

definition shc_netio_write_unlock :: "('h, 'f, 'b) pmd \<Rightarrow> ('h, 'f, 'b) pmd" where
  "shc_netio_write_unlock s = s\<lparr>lock_log := WrUnlock # lock_log s\<rparr>"

definition shc_netio_read_lock :: "('h, 'f, 'b) pmd \<Rightarrow> ('h, 'f, 'b) pmd" where
  "shc_netio_read_lock s = s\<lparr>lock_log := RdLock # lock_log s\<rparr>"

definition shc_netio_read_unlock :: "('h, 'f, 'b) pmd \<Rightarrow> ('h, 'f, 'b) pmd" where
  "shc_netio_read_unlock s = s\<lparr>lock_log := RdUnlock # lock_log s\<rparr>"

text \<open>
  An event that the library reports: what happened (\<open>EV_READ\<close> is 2) on which event, and what \<open>recv\<close>
  finds. The timer's callback does nothing.
\<close>

type_synonym reported = "netio_event \<times> int \<times> (nat \<Rightarrow> u8 list option)"

definition EV_READ :: int where "EV_READ = 2"

definition netio_cb ::
  "('h, 'f, 'b) lib \<Rightarrow> mbuf_lib \<Rightarrow> int \<Rightarrow> (nat \<Rightarrow> u8 list option) \<Rightarrow> ('h, 'f, 'b) pmd \<Rightarrow> ('h, 'f, 'b) pmd option" where
  "netio_cb E M which rx s = (if which = EV_READ then netio_rx E M rx s else Some s)"

definition timer_cb :: "('h, 'f, 'b) pmd \<Rightarrow> ('h, 'f, 'b) pmd" where
  "timer_cb s = s"

text \<open>
  \<open>shc_netio_run\<close> on the events that are reported one after the other; \<open>event_loopbreak_stops\<close> says
  whether \<open>event_loopbreak\<close> reaches the loop (it acts on the base of \<open>event_init\<close>, which the agent does
  not call).
\<close>

fun shc_netio_run ::
  "('h, 'f, 'b) lib \<Rightarrow> mbuf_lib \<Rightarrow> io_lib \<Rightarrow> reported list \<Rightarrow> ('h, 'f, 'b) pmd \<Rightarrow> ('h, 'f, 'b) pmd option" where
  "shc_netio_run E M IO [] s = Some s"
| "shc_netio_run E M IO ((ev, which, rx) # evs) s =
     (if loop_broken s \<and> event_loopbreak_stops IO then Some s
      else do {
        s' \<leftarrow> (case ev of Udp_event \<Rightarrow> netio_cb E M which rx s | Timer_event \<Rightarrow> Some (timer_cb s));
        shc_netio_run E M IO evs s'
      })"

section \<open>The thread\<close>

datatype pmd_thr_stat = PTS_INIT | PTS_RUNNING | PTS_IDEL

text \<open>The thread's state and the global that tells the main thread how far it is.\<close>

record ('h, 'f, 'b) thr =
  th :: "('h, 'f, 'b) pmd"
  thr_stat :: pmd_thr_stat

definition shc_pmd_thr_stat_set :: "pmd_thr_stat \<Rightarrow> ('h, 'f, 'b) thr \<Rightarrow> int \<times> ('h, 'f, 'b) thr" where
  "shc_pmd_thr_stat_set st t = (0, t\<lparr>thr_stat := st\<rparr>)"

definition shc_api_shc_pmd_thread_ready_get :: "('h, 'f, 'b) thr \<Rightarrow> bool" where
  "shc_api_shc_pmd_thread_ready_get t \<longleftrightarrow> PTS_RUNNING = thr_stat t"

text \<open>
  The part of \<open>shc_pmd_thread\<close> before the loop and the whole of it. The two hooks of the arguments are
  functions on the state, or NULL.
\<close>

definition pmd_thread_up ::
  "('h, 'f, 'b) lib \<Rightarrow> io_lib \<Rightarrow> bool \<Rightarrow> ('h, 'f, 'b) thr \<Rightarrow> (string + io_ctx \<times> ('h, 'f, 'b) thr) option" where
  "pmd_thread_up E IO calloc_ok t =
     (let a = ag (th t);
          (slot, cs) = shc_pmd_ctx_create PACKET_MAX calloc_ok (pmd_ctxs_tbl a);
          a = a\<lparr>pmd_ctxs_tbl := cs\<rparr>
      in case slot of
           None \<Rightarrow> Some (Inl ''Create NTB pmd context failed'')
         | Some i \<Rightarrow> do {
             ctx \<leftarrow> cs ! i;
             r \<leftarrow> shc_dp_init E IO ctx io_ctx_zero a;
             case r of
               Inl msg \<Rightarrow> Some (Inl msg)
             | Inr (ret, c, a) \<Rightarrow>
                 if ret < 0 then Some (Inl ''Initialize NTB dataplane failed'')
                 else Some (Inr (c, snd (shc_pmd_thr_stat_set PTS_RUNNING (t\<lparr>th := (th t)\<lparr>ag := a\<rparr>\<rparr>))))
           })"

definition shc_pmd_thread ::
  "('h, 'f, 'b) lib \<Rightarrow> mbuf_lib \<Rightarrow> io_lib \<Rightarrow> bool \<Rightarrow> (('h, 'f, 'b) thr \<Rightarrow> ('h, 'f, 'b) thr) option
     \<Rightarrow> (('h, 'f, 'b) thr \<Rightarrow> ('h, 'f, 'b) thr) option \<Rightarrow> reported list \<Rightarrow> ('h, 'f, 'b) thr
     \<Rightarrow> (string + ('h, 'f, 'b) thr) option" where
  "shc_pmd_thread E M IO calloc_ok run_prepare run_post evs t = do {
     r \<leftarrow> pmd_thread_up E IO calloc_ok t;
     case r of
       Inl msg \<Rightarrow> Some (Inl msg)
     | Inr (c, t) \<Rightarrow> do {
         let t = (case run_prepare of None \<Rightarrow> t | Some f \<Rightarrow> f t);
         s \<leftarrow> shc_netio_run E M IO evs (th t);
         let t = t\<lparr>th := s\<rparr>;
         case shc_dp_deinit IO of
           Inl msg \<Rightarrow> Some (Inl msg)
         | Inr _ \<Rightarrow> Some (Inr (case run_post of None \<Rightarrow> t | Some f \<Rightarrow> f t))
       }
   }"

section \<open>The state after start-up\<close>

lemma tun_inv_empty:
  assumes "rte_hash_lookup_data E (vrf_hash_tbl s) = Map.empty" "tunnel_mem s = Map.empty"
    "\<And>w. w < nat SHC_NR_VRF \<Longrightarrow> tunnel_rmap (vrf_dp_of s w) = [] \<and> tunnel_cnt (vrf_dp_of s w) = 0"
  shows "tun_inv E s" "tunnel_vrf E s = Map.empty"
  using assms(3) by (auto simp: tun_inv_def assms(1,2) obj_table_empty rmap_of_def tunnel_vrf_def tunnels_def obj_view_def)

text \<open>With assertions compiled out, the calls on the socket and the events may fail; none is noticed.\<close>

lemma shc_netio_init_unchecked:
  assumes "\<not> rte_assert_on E"
  shows "shc_netio_init E IO c = Some (0, c\<lparr>dp_locker_set := True, ev_base := event_base_new_with_config IO,
    udp_sock := sys_socket IO,
    sock_prog := (if sys_setsockopt IO (sys_socket IO) ''SO_ATTACH_FILTER'' = 0 then Some insns else None),
    timer_tv := (1, 0)\<rparr>)"
  using assms by (simp add: shc_netio_init_def udp_netio_init_def Let_def)

lemma shc_vrf_init_state:
  assumes "route_laws E us fm fd" "creates_ok E" "unborn s"
  obtains s1 where "shc_vrf_init E s = Some (0, s1)" "vrf_inv s1" "valid_slots s1 = {}" "route_core E us fm s1"
    "nhop_inv E s1" "routes E us s1 = Map.empty" "unborn s1"
    "\<And>w. w < nat SHC_NR_VRF \<Longrightarrow> tunnel_rmap (vrf_dp_of s1 w) = [] \<and> tunnel_cnt (vrf_dp_of s1 w) = 0"
  using shc_vrf_init_establishes [OF assms] by blast

lemma shc_dp_init_run:
  assumes "route_laws E us fm fd" "creates_ok E" "unborn s"
  shows "case shc_dp_eal_init IO ctx of
      Inl msg \<Rightarrow> pid ctx = 0 \<and> shc_dp_init E IO ctx c s = Some (Inl msg)
    | Inr _ \<Rightarrow> \<exists>c' s'. shc_dp_init E IO ctx c s = Some (Inr (0, c', s')) \<and>
        vrf_inv s' \<and> route_inv E us fm s' \<and> tun_inv E s' \<and> (\<forall>nm i. \<not> is_vrf s' nm i) \<and>
        routes E us s' = Map.empty \<and> tunnel_vrf E s' = Map.empty \<and> neighs E s' = Map.empty"
proof (cases "shc_dp_eal_init IO ctx")
  case (Inl msg)
  then show ?thesis by (auto simp: shc_dp_init_def shc_dp_eal_init_def Let_def split: if_splits)
next
  case (Inr ret)
  have ret: "ret = 0" using Inr by (simp add: shc_dp_eal_init_def Let_def split: if_splits)
  note L = route_lawsD [OF assms(1)]
  show ?thesis
  proof (rule shc_vrf_init_state [OF assms])
    fix s1
    assume s1: "shc_vrf_init E s = Some (0, s1)" "vrf_inv s1" "valid_slots s1 = {}" "route_core E us fm s1"
      "nhop_inv E s1" "routes E us s1 = Map.empty" "unborn s1"
      "\<And>w. w < nat SHC_NR_VRF \<Longrightarrow> tunnel_rmap (vrf_dp_of s1 w) = [] \<and> tunnel_cnt (vrf_dp_of s1 w) = 0"
    obtain h where h: "rte_hash_create E ''VRF_MAPPING_HASH'' (SHC_NR_TUNNEL_ALL * 8) = Some h"
      using creates_hash [OF assms(2)] by blast
    obtain g where g: "rte_hash_create E ''HASH_OVERLAY_GW'' (MAX_VRF_GW_HASH_ENT * 6) = Some g"
      using creates_hash [OF assms(2)] by blast
    define s' where "s' = s1\<lparr>vrf_hash_tbl := h, neigh_tbl := g\<rparr>"
    note empty = hash_create [OF L(1) h] hash_create [OF L(1) g]
    have run: "\<exists>c'. shc_dp_init E IO ctx c s = Some (Inr (0, c', s'))"
      using L(5) by (simp add: shc_dp_init_def Inr ret or_exit_def shc_dp_mbuf_init_def Let_def s1(1)
          shc_tunnel_map_vrf_init_def h shc_neigh_init_def g shc_netio_init_unchecked s'_def)
    have mem: "nhop_mem s' = Map.empty" "neigh_mem s' = Map.empty" "tunnel_mem s' = Map.empty"
      using s1(7) by (simp_all add: unborn_def s'_def)
    have same: "rib_map E s' = rib_map E s1" "rib_live us s' = rib_live us s1" "nhop_mem s' = nhop_mem s1"
      by (simp_all add: s'_def rib_map_def rib_live_def fun_eq_iff)
    have core: "route_core E us fm s' = route_core E us fm s1"
      by (rule route_core_cong [OF same]) (simp_all add: s'_def)
    note core = core routes_cong [OF same]
    have "nhop_inv E s'" using s1(5) by (simp add: nhop_inv_def s'_def)
    then have "route_inv E us fm s'"
      using s1(4) core mem(2) empty(2) by (simp add: route_inv_def neigh_inv_def obj_table_empty) (simp add: s'_def obj_table_empty)
    moreover have "tun_inv E s'" "tunnel_vrf E s' = Map.empty"
      using s1(8) empty(1) mem(3) by (auto intro!: tun_inv_empty simp: s'_def)
    moreover have "neighs E s' = Map.empty" using empty(2) by (auto simp: neighs_def obj_view_def s'_def fun_eq_iff)
    moreover have vs: "valid_slots s' = {}" using s1(3) by (simp add: valid_slots_def s'_def)
    moreover have "vrf_inv s'" unfolding vrf_inv_def vs using s1(2) by (simp add: vrf_inv_def s1(3)) (simp add: s'_def)
    ultimately show ?thesis using run core(2) s1(6) Inr by (auto simp: is_vrf_def)
  qed
qed

text \<open>
  C27. The start-up of the data plane, when every hash table, LPM table and bit array can be created
  (\<open>creates_ok\<close>) and the assertions are compiled out, as in this build: if the EAL does not come up, the
  process exits with its message, which only the master thread can. Otherwise \<open>shc_dp_init\<close> returns 0,
  whatever the calls on the buffer pool, the socket and the event library returned, and has established
  the invariants of all tables: there is no VRF, no route, no tunnel and no neighbour.
\<close>

theorem shc_dp_init_establishes:
  assumes "route_laws E us fm fd" "creates_ok E" "unborn s"
  shows "case shc_dp_eal_init IO ctx of
      Inl msg \<Rightarrow> pid ctx = 0 \<and> shc_dp_init E IO ctx c s = Some (Inl msg)
    | Inr _ \<Rightarrow> \<exists>c' s'. shc_dp_init E IO ctx c s = Some (Inr (0, c', s')) \<and>
        vrf_inv s' \<and> route_inv E us fm s' \<and> tun_inv E s' \<and> (\<forall>nm i. \<not> is_vrf s' nm i) \<and>
        routes E us s' = Map.empty \<and> tunnel_vrf E s' = Map.empty \<and> neighs E s' = Map.empty"
  by (rule shc_dp_init_run [OF assms])

text \<open>An operating system on which the socket cannot be opened.\<close>

definition io0 :: io_lib where
  "io0 = \<lparr>rte_eal_init = (\<lambda>_. 0), rte_eal_cleanup = 0, rte_pktmbuf_pool_create = (\<lambda>_ _ _. Some 1), sys_socket = -1,
     sys_setsockopt = (\<lambda>_ _. -1), event_base_new_with_config = Some 1, event_assign = (\<lambda>_. 0), event_add = (\<lambda>_. 0),
     event_loopbreak_stops = False\<rparr>"

lemma shc_dp_init_establishes_witness:
  "\<exists>c' s'. shc_dp_init (lib0 4) io0 (shc_pmd_ctx_zero PACKET_MAX) io_ctx_zero (agent0\<lparr>g_shc_vrf_n := 0\<rparr>) = Some (Inr (0, c', s')) \<and>
     vrf_inv s' \<and> routes (lib0 4) set s' = Map.empty"
proof -
  have "creates_ok (lib0 4)" by (simp add: creates_ok_def)
  moreover have "unborn (agent0\<lparr>g_shc_vrf_n := 0\<rparr>)" by (simp add: unborn_def)
  moreover have "shc_dp_eal_init io0 (shc_pmd_ctx_zero PACKET_MAX) = Inr 0"
    by (simp add: shc_dp_eal_init_def shc_pmd_ctx_zero_def io0_def Let_def)
  ultimately show ?thesis
    using shc_dp_init_establishes [OF route_laws_lib0, of 4 "agent0\<lparr>g_shc_vrf_n := 0\<rparr>"
        "shc_pmd_ctx_zero PACKET_MAX" io0 io_ctx_zero] by auto
qed

section \<open>Buffers and locks along the loop\<close>

text \<open>The operations on the lock since some moment, the last first: reads, each released before the next.\<close>

fun reads_paired :: "lock_op list \<Rightarrow> bool" where
  "reads_paired [] = True"
| "reads_paired (RdUnlock # RdLock # l) = reads_paired l"
| "reads_paired _ = False"

lemma reads_paired_append: "reads_paired l \<Longrightarrow> reads_paired l' \<Longrightarrow> reads_paired (l @ l')"
  by (induction l rule: reads_paired.induct) auto

definition balanced :: "('h, 'f, 'b) pmd \<Rightarrow> ('h, 'f, 'b) pmd \<Rightarrow> bool" where
  "balanced s s' \<longleftrightarrow> mbufs_out s' = mbufs_out s \<and> (\<exists>l. lock_log s' = l @ lock_log s \<and> reads_paired l)"

lemma balanced_refl [simp]: "balanced s s"
  by (simp add: balanced_def)

lemma balanced_trans: "balanced s t \<Longrightarrow> balanced t u \<Longrightarrow> balanced s u"
  unfolding balanced_def by (auto intro: reads_paired_append)

lemma netio_rx_balances: "netio_rx E M rx s = Some s' \<Longrightarrow> balanced s s'"
  using netio_rx_balanced [of E M rx s s'] unfolding balanced_def
  by (cases "rte_pktmbuf_alloc M (allocs s) = None") (auto intro!: exI [of _ "[RdUnlock, RdLock]"])

text \<open>
  C29. Whatever events the loop is given, and whatever datagrams they carry, whenever it returns all mbufs
  taken from the pool are back and the data path's lock, which was only taken for reading, is released.
\<close>

theorem shc_netio_run_balanced:
  assumes "shc_netio_run E M IO evs s = Some s'"
  shows "mbufs_out s' = mbufs_out s \<and> (\<exists>l. lock_log s' = l @ lock_log s \<and> reads_paired l)"
proof -
  have "shc_netio_run E M IO evs s = Some s' \<Longrightarrow> balanced s s'"
  proof (induction E M IO evs s rule: shc_netio_run.induct)
    case (2 E M IO ev which rx evs s)
    show ?case
    proof (cases "loop_broken s \<and> event_loopbreak_stops IO")
      case False
      with 2(2) obtain t where t:
        "(case ev of Udp_event \<Rightarrow> netio_cb E M which rx s | Timer_event \<Rightarrow> Some (timer_cb s)) = Some t"
        "shc_netio_run E M IO evs t = Some s'" by (auto simp: bind_eq_Some_conv)
      have "balanced s t"
        using t(1) netio_rx_balances [of E M rx s t]
        by (auto simp: netio_cb_def timer_cb_def split: netio_event.splits if_splits)
      then show ?thesis using 2(1) [OF False t] balanced_trans by blast
    qed (use 2(2) in simp)
  qed simp
  with assms show ?thesis by (simp add: balanced_def)
qed

lemma shc_netio_run_balanced_witness:
  "\<exists>s'. shc_netio_run (lib0 4) mlib0 io0 [(Udp_event, 2, \<lambda>_. Some []), (Timer_event, 1, \<lambda>_. None)] (pmd_of agent_rule) = Some s' \<and>
     mbufs_out s' = 0 \<and> (\<exists>l. lock_log s' = l @ [] \<and> reads_paired l)"
proof -
  have "\<exists>s'. shc_netio_run (lib0 4) mlib0 io0 [(Udp_event, 2, \<lambda>_. Some []), (Timer_event, 1, \<lambda>_. None)] (pmd_of agent_rule) = Some s'"
    by (simp add: netio_cb_def EV_READ_def io0_def netio_rx_def pool_alloc_def pmd_of_def mbuf0_def store_bytes_def tunnel_rcv_def load8_def Let_def
        IPPROTO_UDP_def write_at_def nth_append)
  then obtain s' where run: "shc_netio_run (lib0 4) mlib0 io0 [(Udp_event, 2, \<lambda>_. Some []), (Timer_event, 1, \<lambda>_. None)]
      (pmd_of agent_rule) = Some s'" ..
  from shc_netio_run_balanced [OF run] run show ?thesis by (auto simp: pmd_of_def)
qed

end
