(* ===== verification/Agent_Reach.thy ===== *)
theory Agent_Reach
  imports Agent_Refines Agent_Start
begin

text \<open>
  The states that the agent can reach: from the start of the data plane by control operations that are
  called as they may be, and by packets that the packet thread handles between them.
\<close>

section \<open>Packets\<close>

lemma shc_tunnel_map_vrf_lookup_unseen:
  assumes "shc_tunnel_map_vrf_lookup E type tid fl s = Some (v, s')" shows "unseen E us fm s s'"
proof (cases "rte_hash_lookup_data E (vrf_hash_tbl s) (tunnel_key type tid)")
  case (Some p)
  with assms obtain t where t: "tunnel_mem s p = Some t" by (auto simp: shc_tunnel_map_vrf_lookup_def bind_eq_Some_conv)
  have counted: "unseen E us fm s (s\<lparr>hal_log := l, tunnel_mem := (tunnel_mem s)(p \<mapsto> t\<lparr>ti_exit_flag := x\<rparr>)\<rparr>)" for l x
    by (rule tunnel_recount [OF t]) simp
  have here: "unseen E us fm s (s\<lparr>tunnel_mem := (tunnel_mem s)(p \<mapsto> t\<lparr>ti_exit_flag := x\<rparr>)\<rparr>)" for x
    using counted [where l = "hal_log s" and x = x] by simp
  have "s' = s \<or> (\<exists>l x. s' = s\<lparr>hal_log := l, tunnel_mem := (tunnel_mem s)(p \<mapsto> t\<lparr>ti_exit_flag := x\<rparr>)\<rparr>) \<or>
      (\<exists>x. s' = s\<lparr>tunnel_mem := (tunnel_mem s)(p \<mapsto> t\<lparr>ti_exit_flag := x\<rparr>)\<rparr>)"
    using assms Some t
    by (auto simp: shc_tunnel_map_vrf_lookup_def Let_def hal_shim_defs hal_do_eq split: if_split_asm Option.bind_splits)
  then show ?thesis using counted here by auto
qed (use assms in \<open>simp add: shc_tunnel_map_vrf_lookup_def\<close>)

lemma evt_inc_unseen:
  assumes "evt_inc type s = Some s'" shows "unseen E us fm (ag s) (ag s')"
proof -
  from assms obtain cs where "ag s' = (ag s)\<lparr>pmd_ctxs_tbl := cs\<rparr>" by (auto simp: evt_inc_def bind_eq_Some_conv)
  then show ?thesis by (intro route_only_unseen) (simp add: route_only_def keeps_routes_def)
qed

lemma neigh_probe_unseen:
  assumes "neigh_probe_xmit E M vrfid nh s = Some (r, s')" shows "unseen E us fm (ag s) (ag s')"
  using assms
  by (auto simp: neigh_probe_xmit_def Let_def pool_alloc_def pool_free_def
      split: Option.bind_split_asm option.split_asm if_split_asm prod.split_asm
      dest!: evt_inc_unseen [where E = E and us = us and fm = fm] shc_route_lookup_unseen [where us = us and fm = fm]
      intro: unseen_trans)

lemma inner_header_unseen:
  assumes "inner_header E M v f pkt s = Some (p, s')" shows "unseen E us fm (ag s) (ag s')"
  using assms
  by (auto simp: inner_header_def Let_def split: Option.bind_split_asm option.split_asm if_split_asm prod.split_asm
      dest!: evt_inc_unseen [where E = E and us = us and fm = fm] neigh_probe_unseen [where us = us and fm = fm]
        shc_neigh_lookup_unseen [where us = us and fm = fm];
      meson unseen_trans)

lemma ip_forward_unseen:
  assumes "ip_forward E M v r pkt s = Some (p, s')" shows "unseen E us fm (ag s) (ag s')"
  using assms
  by (auto simp: ip_forward_def Let_def split: Option.bind_split_asm sum.split_asm if_split_asm prod.split_asm
      dest!: inner_header_unseen [where us = us and fm = fm])

lemma ip_forward_m_loop_unseen:
  "ip_forward_m_loop E M v r ns pkt s = Some (p, s') \<Longrightarrow> unseen E us fm (ag s) (ag s')"
proof (induction ns arbitrary: pkt s)
  case (Cons n ns)
  then show ?case
    by (auto split: Option.bind_split_asm sum.split_asm if_split_asm prod.split_asm
        dest!: inner_header_unseen [where us = us and fm = fm] intro: unseen_trans)
qed simp

lemma ol_ip_rcv_unseen:
  assumes "ol_ip_rcv E M pkt s = Some (p, s')" shows "unseen E us fm (ag s) (ag s')"
  using assms
  by (auto simp: ol_ip_rcv_def ip_forward_m_def Let_def split: Option.bind_split_asm if_split_asm prod.split_asm
      dest!: ip_forward_unseen [where us = us and fm = fm] ip_forward_m_loop_unseen [where us = us and fm = fm]
        shc_route_lookup_unseen [where us = us and fm = fm]
      intro: unseen_trans)

lemma tunnel_rcv_unseen:
  assumes "tunnel_rcv E M pkt s = Some (p, s')" shows "unseen E us fm (ag s) (ag s')"
  using assms
  by (auto simp: tunnel_rcv_def vxlan_tunnel_rcv_def overlay_pkt_rcv_def ol_ether_rcv_def Let_def
      split: Option.bind_split_asm if_split_asm prod.split_asm
      dest!: ol_ip_rcv_unseen [where us = us and fm = fm] shc_tunnel_map_vrf_lookup_unseen [where us = us and fm = fm]
      intro: unseen_trans)

lemma netio_rx_unseen:
  assumes "netio_rx E M rx s = Some s'" shows "unseen E us fm (ag s) (ag s')"
  using assms
  by (auto simp: netio_rx_def pool_alloc_def pool_free_def Let_def
      split: Option.bind_split_asm prod.split_asm option.split_asm if_split_asm dest!: tunnel_rcv_unseen [where us = us and fm = fm])

text \<open>
  A call of the offload entry point that returned, of any flow: the timer makes it also for flows that no
  caller vouches for.
\<close>

lemma shc_swTohw_rule_unseen:
  fixes E :: "('a, 'b, 'c) lib"
  assumes "shc_swTohw_rule E vni src dst fl s = Some (r, s')" shows "unseen E us fm s s'"
proof -
  define reset :: "nat \<Rightarrow> ('a, 'b, 'c) agent \<Rightarrow> ('a, 'b, 'c) agent" where "reset v = dp_upd v (\<lambda>d. d\<lparr>exit_flag := 0, List_Node := Some initLink\<rparr>)" for v
  from assms obtain v s1 ret f s3 where s: "shc_tunnel_map_vrf_lookup E SHC_TUNNEL_VXLAN 0 fl s = Some (Some v, s1)"
    "shc_route_lookup E v src dst fl (reset v (reset v s1)) = Some (ret, f, s3)"
    and s': "s' = s3 \<or> (\<exists>w k r' a. shc_neigh_lookup E w k fl s3 = Some (r', a, s'))"
    by (fastforce simp: shc_swTohw_rule_def reset_def Let_def split: Option.bind_split_asm option.split_asm if_split_asm prod.split_asm)
  have "unseen E us fm s s3"
    using shc_tunnel_map_vrf_lookup_unseen [OF s(1)] shc_route_lookup_unseen [OF s(2)] flow_reset_unseen [of E us fm _ v]
    unfolding reset_def by (meson unseen_trans)
  then show ?thesis using s' shc_neigh_lookup_unseen unseen_trans by blast
qed

section \<open>Reachable states\<close>

text \<open>
  \<open>n\<close> counts the control operations. A packet, or a flow of the timer's, that the thread does not survive
  leads nowhere.
\<close>

inductive agent_reach ::
  "('h, 'f, 'b) lib \<Rightarrow> ('b \<Rightarrow> int set) \<Rightarrow> io_lib \<Rightarrow> mbuf_lib \<Rightarrow> nat \<Rightarrow> ('h, 'f, 'b) agent \<Rightarrow> bool"
  for E us IO M where
  start: "unborn s0 \<Longrightarrow> shc_dp_init E IO ctx c s0 = Some (Inr (0, c', s)) \<Longrightarrow> agent_reach E us IO M 0 s"
| control: "agent_reach E us IO M n s \<Longrightarrow> op_ok (spec_of E us s) op \<Longrightarrow> agent_do E op s = Some (r, s') \<Longrightarrow>
    agent_reach E us IO M (n + 1) s'"
| flow: "agent_reach E us IO M n s \<Longrightarrow> shc_swTohw_rule E vni src dst fl s = Some (r, s') \<Longrightarrow> agent_reach E us IO M n s'"
| packet: "agent_reach E us IO M n (ag p) \<Longrightarrow> netio_rx E M rx p = Some p' \<Longrightarrow> agent_reach E us IO M n (ag p')"

lemma agent_start_sound:
  assumes "route_laws E us fm fd" "creates_ok E" "unborn s0" "shc_dp_init E IO ctx c s0 = Some (Inr (0, c', s))"
  shows "agent_inv E us fm 0 s" "spec_of E us s = spec_start"
proof -
  have s: "vrf_inv s \<and> route_inv E us fm s \<and> tun_inv E s \<and> (\<forall>nm i. \<not> is_vrf s nm i) \<and>
        routes E us s = Map.empty \<and> tunnel_vrf E s = Map.empty \<and> neighs E s = Map.empty"
    using shc_dp_init_run [OF assms(1-3), where IO = IO and ctx = ctx and c = c] assms(4) by (auto split: sum.splits)
  have tab: "obj_table (\<lambda>_ e. 0 < ne_refcnt e) (rte_hash_lookup_data E (neigh_tbl s)) (neigh_mem s)"
    using s by (simp add: route_inv_def neigh_inv_def)
  have "neigh_mem s p = None" for p
  proof (rule ccontr)
    assume p: "neigh_mem s p \<noteq> None"
    from obj_noleak [OF tab p] obtain k where "rte_hash_lookup_data E (neigh_tbl s) k = Some p" by blast
    then have "neighs E s k \<noteq> None" using p by (simp add: neighs_def obj_view_def)
    then show False using s by simp
  qed
  then show "agent_inv E us fm 0 s" using s by (simp add: agent_inv_def refs_within_def)
  have "vrf_of s = Map.empty" using s vrf_of_None_iff by blast
  then show "spec_of E us s = spec_start" using s by (simp add: spec_of_def spec_start_def)
qed

lemma reach_sound:
  assumes "agent_laws E us fm fd hpos" "creates_ok E" "agent_reach E us IO M n s" "n < 2 ^ 32"
  shows "agent_inv E us fm n s \<and> spec_inv (spec_of E us s)"
  using assms(3,4)
proof (induction rule: agent_reach.induct)
  case (start s0 ctx c c' s)
  then show ?case
    using agent_start_sound [OF agent_lawsD(2) [OF assms(1)] assms(2) start(1,2)] spec_inv_start by simp
next
  case (control n s op r s')
  then have "agent_inv E us fm n s" "spec_inv (spec_of E us s)" by auto
  moreover from agent_do_refines [OF assms(1) this(1) _ control(2)] control(3,5)
  have "agent_inv E us fm (n + 1) s'" "spec_step (spec_of E us s) op r (spec_of E us s')" by (auto simp: op_refines_def)
  ultimately show ?case using spec_step_inv by blast
next
  case (flow n s vni src dst fl r s')
  then show ?case using shc_swTohw_rule_unseen [OF flow(2), of us fm] by (auto simp: unseen_def)
next
  case (packet n p rx p')
  then show ?case using netio_rx_unseen [OF packet(2), of us fm] by (auto simp: unseen_def)
qed

section \<open>The agent refines its specification\<close>

lemma agent_step_refines:
  assumes "agent_laws E us fm fd hpos" "creates_ok E" "agent_reach E us IO M n s" "n + 1 < 2 ^ 32"
    and "op_ok (spec_of E us s) op"
  obtains r s' where "agent_do E op s = Some (r, s')" "spec_step (spec_of E us s) op r (spec_of E us s')"
    "agent_reach E us IO M (n + 1) s'"
  using agent_do_refines [OF assms(1) _ assms(4,5)] reach_sound [OF assms(1-3)] assms(4) agent_reach.control [OF assms(3,5)]
  by (fastforce simp: op_refines_def)

text \<open>A sequence of operations with their results, each called where it may be called.\<close>

fun agent_run ::
  "('h, 'f, 'b) lib \<Rightarrow> agent_op list \<Rightarrow> ('h, 'f, 'b) agent \<Rightarrow> ((agent_op \<times> int) list \<times> ('h, 'f, 'b) agent) option" where
  "agent_run E [] s = Some ([], s)"
| "agent_run E (op # ops) s = do {
     (r, s) \<leftarrow> agent_do E op s;
     (ors, s) \<leftarrow> agent_run E ops s;
     Some ((op, r) # ors, s)
   }"

fun ops_ok :: "('h, 'f, 'b) lib \<Rightarrow> ('b \<Rightarrow> int set) \<Rightarrow> agent_op list \<Rightarrow> ('h, 'f, 'b) agent \<Rightarrow> bool" where
  "ops_ok E us [] s \<longleftrightarrow> True"
| "ops_ok E us (op # ops) s \<longleftrightarrow> op_ok (spec_of E us s) op \<and>
     (case agent_do E op s of None \<Rightarrow> True | Some (r, s') \<Rightarrow> ops_ok E us ops s')"

text \<open>
  C1. In every state that the agent reaches from its start, by fewer than 2 ^ 32 control operations that
  their callers may call and by whatever packets are handled between them, each further sequence of such
  operations returns (no branch of it reads through a stale pointer or past an array), and its results and
  effects are a run of the specification on three maps: VRFs by name, routes by prefix, tunnels by identifier.
\<close>

theorem agent_refines_spec:
  assumes "agent_laws E us fm fd hpos" "creates_ok E" "agent_reach E us IO M n s" "n + length ops < 2 ^ 32"
    and "ops_ok E us ops s"
  shows "\<exists>ors s'. agent_run E ops s = Some (ors, s') \<and> map fst ors = ops \<and>
    spec_run (spec_of E us s) ors (spec_of E us s') \<and> agent_reach E us IO M (n + length ops) s'"
  using assms(3-5)
proof (induction ops arbitrary: n s)
  case (Cons op ops)
  from Cons.prems have "n + 1 < 2 ^ 32" "op_ok (spec_of E us s) op" by simp_all
  from agent_step_refines [OF assms(1,2) Cons.prems(1) this] obtain r s1 where
    s1: "agent_do E op s = Some (r, s1)" "spec_step (spec_of E us s) op r (spec_of E us s1)" "agent_reach E us IO M (n + 1) s1" .
  from Cons.IH [OF s1(3)] Cons.prems(2,3) s1(1) obtain ors s' where
    "agent_run E ops s1 = Some (ors, s')" "map fst ors = ops" "spec_run (spec_of E us s1) ors (spec_of E us s')"
    "agent_reach E us IO M (n + 1 + length ops) s'" by auto
  then show ?case using s1 by (auto simp: spec_run_Cons)
qed (simp add: spec_run_Nil)

section \<open>Instances\<close>

lemma laws_lib0: "agent_laws (lib0 4) set (\<lambda>f. map_of (fst f)) snd slot_pos" "creates_ok (lib0 4)"
  by (simp_all add: agent_laws_def sweep_laws_def route_laws_lib0 iter_laws_lib0 creates_ok_def)

lemma lib0_started: "\<exists>s. agent_reach (lib0 4) set io0 mlib0 0 s \<and> spec_of (lib0 4) set s = spec_start"
proof -
  let ?s0 = "agent0\<lparr>g_shc_vrf_n := 0\<rparr>"
  have s0: "unborn ?s0" by (simp add: unborn_def)
  moreover have "shc_dp_eal_init io0 (shc_pmd_ctx_zero PACKET_MAX) = Inr 0"
    by (simp add: shc_dp_eal_init_def shc_pmd_ctx_zero_def io0_def Let_def)
  ultimately obtain c' s' where "shc_dp_init (lib0 4) io0 (shc_pmd_ctx_zero PACKET_MAX) io_ctx_zero ?s0 = Some (Inr (0, c', s'))"
    using shc_dp_init_run [OF route_laws_lib0 laws_lib0(2) s0, where IO = io0 and ctx = "shc_pmd_ctx_zero PACKET_MAX"
        and c = io_ctx_zero] by auto
  note s' = this
  from agent_reach.start [OF s0 s'] agent_start_sound(2) [OF route_laws_lib0 laws_lib0(2) s0 s'] show ?thesis by blast
qed

lemma lib0_red:
  assumes "agent_do (lib0 4) (Vrf_add ''red'') s = Some (r, s')" "agent_reach (lib0 4) set io0 mlib0 0 s"
    "spec_of (lib0 4) set s = spec_start" "spec_step spec_start (Vrf_add ''red'') r (spec_of (lib0 4) set s')"
  shows "agent_reach (lib0 4) set io0 mlib0 1 s'" "sp_vrf (spec_of (lib0 4) set s') ''red'' = Some 0"
proof -
  have "op_ok (spec_of (lib0 4) set s) (Vrf_add ''red'')" by (simp add: op_ok_def SHC_VRF_NAME_LEN_def)
  from agent_reach.control [OF assms(2) this assms(1)] show "agent_reach (lib0 4) set io0 mlib0 1 s'" by simp
  show "sp_vrf (spec_of (lib0 4) set s') ''red'' = Some 0"
    using assms(4)
  proof (rule spec_vrf_addE)
    assume "ran (sp_vrf spec_start) = {..<nat SHC_NR_VRF}"
    then have "0 \<notin> {..<nat SHC_NR_VRF}" unfolding spec_start_def by simp
    then show ?thesis by (simp add: SHC_NR_VRF_def)
  next
    fix i assume "{..<i} \<subseteq> ran (sp_vrf spec_start)"
      "spec_of (lib0 4) set s' = spec_start\<lparr>sp_vrf := (sp_vrf spec_start)(''red'' \<mapsto> i)\<rparr>"
    then have "{..<i} = {}" "spec_of (lib0 4) set s' = spec_start\<lparr>sp_vrf := (sp_vrf spec_start)(''red'' \<mapsto> i)\<rparr>"
      by (auto simp: spec_start_def)
    moreover from this(1) have "i = 0" by (cases i) auto
    ultimately show ?thesis by simp
  qed (simp add: spec_start_def)
qed

text \<open>A VRF and a route in it, from the start on.\<close>

lemma lib0_first_vrf:
  obtains s r s1 where "agent_reach (lib0 4) set io0 mlib0 0 s" "spec_of (lib0 4) set s = spec_start"
    "agent_do (lib0 4) (Vrf_add ''red'') s = Some (r, s1)" "spec_step spec_start (Vrf_add ''red'') r (spec_of (lib0 4) set s1)"
    "agent_reach (lib0 4) set io0 mlib0 1 s1" "sp_vrf (spec_of (lib0 4) set s1) ''red'' = Some 0"
proof -
  obtain s where s: "agent_reach (lib0 4) set io0 mlib0 0 s" "spec_of (lib0 4) set s = spec_start" using lib0_started by blast
  have ok: "(0 :: nat) + 1 < 2 ^ 32" "op_ok (spec_of (lib0 4) set s) (Vrf_add ''red'')"
    by (simp_all add: op_ok_def SHC_VRF_NAME_LEN_def)
  obtain r s1 where "agent_do (lib0 4) (Vrf_add ''red'') s = Some (r, s1)"
    "spec_step (spec_of (lib0 4) set s) (Vrf_add ''red'') r (spec_of (lib0 4) set s1)"
    by (rule agent_step_refines [OF laws_lib0 s(1) ok])
  then show thesis using that s lib0_red by (metis (no_types))
qed

lemma agent_refines_spec_witness:
  "\<exists>s ors s'. agent_reach (lib0 4) set io0 mlib0 0 s \<and>
     agent_run (lib0 4) [Vrf_add ''red'', Route_add 0 pfx0 hop0 RT_DEFAULT] s = Some (ors, s') \<and>
     spec_run spec_start ors (spec_of (lib0 4) set s')"
proof -
  obtain s r s1 where s: "agent_reach (lib0 4) set io0 mlib0 0 s" "spec_of (lib0 4) set s = spec_start"
    "agent_do (lib0 4) (Vrf_add ''red'') s = Some (r, s1)" and red: "sp_vrf (spec_of (lib0 4) set s1) ''red'' = Some 0"
    using lib0_first_vrf .
  have "op_ok (spec_of (lib0 4) set s1) (Route_add 0 pfx0 hop0 RT_DEFAULT)"
    using ranI [of "sp_vrf (spec_of (lib0 4) set s1)" "''red''"] red canon_pfx0 by (simp add: op_ok_def)
  then have "ops_ok (lib0 4) set [Vrf_add ''red'', Route_add 0 pfx0 hop0 RT_DEFAULT] s"
    using s(3) by (auto simp: op_ok_def SHC_VRF_NAME_LEN_def split: option.splits)
  from agent_refines_spec [OF laws_lib0 s(1) _ this] s(1) show ?thesis unfolding s(2) by auto
qed

end
