(* ===== verification/Agent_Live.thy ===== *)
theory Agent_Live
  imports Agent_Reach
begin

text \<open>
  What stays sound when VRFs are deleted although tunnels lead to them and tunnels are unmapped: both leave
  stale pointers in the table of tunnels, which a later operation may read (that step does not return), but
  the VRFs and the routes do not depend on them.
\<close>

section \<open>Calls without a promise on tunnels\<close>

text \<open>
  What a caller still promises: names that fit, canonical prefixes of an existing VRF, a route type that is
  the default, or a multicast route where no route is. Deletions of VRFs and rules are unrestricted.
\<close>

definition call_ok :: "agent_spec \<Rightarrow> agent_op \<Rightarrow> bool" where
  "call_ok a op = (case op of Vrf_del nm \<Rightarrow> True | Rule vni src dst fl \<Rightarrow> True | _ \<Rightarrow> op_ok a op)"

lemma op_call_ok: "op_ok a op \<Longrightarrow> call_ok a op"
  by (cases op) (simp_all add: call_ok_def)

text \<open>The states reached so; a step that does not return leads nowhere. \<open>n\<close> counts the control operations.\<close>

inductive agent_live ::
  "('h, 'f, 'b) lib \<Rightarrow> ('b \<Rightarrow> int set) \<Rightarrow> io_lib \<Rightarrow> mbuf_lib \<Rightarrow> nat \<Rightarrow> ('h, 'f, 'b) agent \<Rightarrow> bool"
  for E us IO M where
  start: "unborn s0 \<Longrightarrow> shc_dp_init E IO ctx c s0 = Some (Inr (0, c', s)) \<Longrightarrow> agent_live E us IO M 0 s"
| control: "agent_live E us IO M n s \<Longrightarrow> call_ok (spec_of E us s) op \<Longrightarrow> agent_do E op s = Some (r, s') \<Longrightarrow>
    agent_live E us IO M (n + 1) s'"
| unmap: "agent_live E us IO M n s \<Longrightarrow> shc_tunnel_unmap_vrf E type tid s = Some (r, s') \<Longrightarrow> agent_live E us IO M (n + 1) s'"
| flow: "agent_live E us IO M n s \<Longrightarrow> shc_swTohw_rule E vni src dst fl s = Some (r, s') \<Longrightarrow> agent_live E us IO M n s'"
| packet: "agent_live E us IO M n (ag p) \<Longrightarrow> netio_rx E M rx p = Some p' \<Longrightarrow> agent_live E us IO M n (ag p')"

lemma reach_live: "agent_reach E us IO M n s \<Longrightarrow> agent_live E us IO M n s"
  by (induction rule: agent_reach.induct)
     (auto intro: agent_live.start agent_live.flow agent_live.packet dest: agent_live.control [OF _ op_call_ok])

section \<open>Operations on the tunnels\<close>

lemma tun_only_refl: "tun_only s s"
  by (simp add: tun_only_def)

lemma tun_only_trans: "tun_only s t \<Longrightarrow> tun_only t u \<Longrightarrow> tun_only s u"
  by (simp add: tun_only_def)

lemma tun_only_dp:
  assumes "\<And>d. fib (g d) = fib d \<and> rib_cnt (g d) = rib_cnt d \<and> vrf_id (g d) = vrf_id d"
  shows "tun_only s (dp_upd i g (s\<lparr>hal_log := l, tunnel_mem := m\<rparr>))"
  using assms by (simp add: tun_only_def dp_upd_def)

lemma shc_tunnel_unmap_only:
  fixes E :: "('h, 'f, 'b) lib"
  assumes "shc_tunnel_unmap_vrf E type tid s = Some (r, s')" shows "tun_only s s'"
proof -
  from assms have "s' = s \<or> (\<exists>l i p.
      s' = dp_upd i (\<lambda>d. d\<lparr>tunnel_rmap := remove1 p (tunnel_rmap d), tunnel_cnt := tunnel_cnt d - 1\<rparr>)
        (s\<lparr>hal_log := l, tunnel_mem := (tunnel_mem s)(p := None)\<rparr>))"
    by (auto simp: shc_tunnel_unmap_vrf_def shc_hal_tunnel_map_vrf_entry_del_def hal_do_eq Let_def
        split: option.split_asm Option.bind_split_asm if_split_asm prod.split_asm)
  then show ?thesis
  proof (elim disjE exE)
    fix l i p
    assume "s' = dp_upd i (\<lambda>d. d\<lparr>tunnel_rmap := remove1 p (tunnel_rmap d), tunnel_cnt := tunnel_cnt d - 1\<rparr>)
      (s\<lparr>hal_log := l, tunnel_mem := (tunnel_mem s)(p := None)\<rparr>)"
    then show ?thesis by (simp only:) (rule tun_only_dp, simp)
  qed (simp only: tun_only_refl)
qed

lemma tunnel_cleanup_only: "tunnel_cleanup_loop v ps s = Some s' \<Longrightarrow> tun_only s s'"
proof (induction ps arbitrary: s)
  case (Cons p ps)
  let ?s = "dp_upd v (\<lambda>d. d\<lparr>tunnel_rmap := ps, tunnel_cnt := tunnel_cnt d - 1\<rparr>) (s\<lparr>tunnel_mem := (tunnel_mem s)(p := None)\<rparr>)"
  have "tun_only s ?s" using tun_only_dp [where l = "hal_log s" and s = s] by simp
  moreover have "tun_only ?s s'" using Cons by (auto split: Option.bind_split_asm)
  ultimately show ?case by (rule tun_only_trans)
qed (simp add: tun_only_refl)

lemma tun_only_core:
  assumes "tun_only s s'" "core_inv E us fm n s"
  shows "core_inv E us fm n s'" "vrf_of s' = vrf_of s" "routes E us s' = routes E us s"
  using assms(2) tun_only_inv [OF assms(1)] assms(1) by (simp_all add: core_inv_def tun_only_def)

section \<open>The invariant without tunnels\<close>

definition live_inv ::
  "('h, 'f, 'b) lib \<Rightarrow> ('b \<Rightarrow> int set) \<Rightarrow> ('f \<Rightarrow> u32 \<times> u8 \<rightharpoonup> int) \<Rightarrow> nat \<Rightarrow> ('h, 'f, 'b) agent \<Rightarrow> bool" where
  "live_inv E us fm n s \<longleftrightarrow> core_inv E us fm n s \<and> (\<forall>k. routes E us s k \<noteq> None \<longrightarrow> (\<exists>v \<in> valid_slots s. of_vrf v k))"

lemma live_invD:
  assumes "live_inv E us fm n s"
  shows "core_inv E us fm n s" "vrf_inv s" "route_inv E us fm s" "refs_within n (neigh_mem s)"
    "routes E us s k \<noteq> None \<Longrightarrow> \<exists>v \<in> valid_slots s. of_vrf v k"
  using assms by (auto simp: live_inv_def core_inv_def)

lemma live_inv_mono: "live_inv E us fm n s \<Longrightarrow> n \<le> m \<Longrightarrow> live_inv E us fm m s"
  using refs_within_mono by (auto simp: live_inv_def core_inv_def)

lemma live_inv_same:
  assumes "live_inv E us fm n s" "core_inv E us fm n s' \<and> vrf_of s' = vrf_of s \<and> routes E us s' = routes E us s"
  shows "live_inv E us fm n s'"
proof -
  have "valid_slots s' = valid_slots s"
    using assms ran_vrf_of [of s] ran_vrf_of [of s'] by (auto simp: live_inv_def core_inv_def)
  then show ?thesis using assms by (simp add: live_inv_def)
qed

lemma live_inv_unseen: "live_inv E us fm n s \<Longrightarrow> unseen E us fm s s' \<Longrightarrow> live_inv E us fm n s'"
  using live_inv_same live_invD(1) unfolding unseen_def by blast

lemma live_inv_tun:
  assumes "live_inv E us fm n s" "tun_only s s'" shows "live_inv E us fm n s'"
  using live_inv_same [OF assms(1)] tun_only_core [OF assms(2) live_invD(1) [OF assms(1)]] by blast

text \<open>An operation on routes: no route is left that was not there, or the new one is of an existing VRF.\<close>

lemma live_inv_routes:
  assumes "live_inv E us fm n s" "n + 1 < 2 ^ 32" "refs_grow 1 s s'" "route_inv E us fm s'"
    and "\<And>k. routes E us s' k \<noteq> None \<Longrightarrow> routes E us s k \<noteq> None \<or> (\<exists>v \<in> valid_slots s. of_vrf v k)"
  shows "live_inv E us fm (n + 1) s'"
proof -
  have "keeps_vrfs s s'" "refs_within (n + 1) (neigh_mem s')"
    using assms(3) live_invD(4) [OF assms(1)] assms(2) by (auto simp: refs_grow_def)
  then show ?thesis
    using keeps_vrfs_tun(2,3) [of s s'] live_invD [OF assms(1)] assms(4,5) unfolding live_inv_def core_inv_def by metis
qed

lemma canon_of_vrf: "canon_prefix v pfx \<Longrightarrow> of_vrf v (rib_tbl_key pfx)"
  by (simp add: of_vrf_def rib_tbl_key_def canon_prefix_def)

lemma live_route_add:
  assumes "agent_laws E us fm fd hpos" "live_inv E us fm n s" "n + 1 < 2 ^ 32" "call_ok (spec_of E us s) (Route_add v pfx d t)"
    and "shc_route_nhop_insert E v pfx d t s = Some (r, s')"
  shows "live_inv E us fm (n + 1) s'"
proof -
  note I = live_invD [OF assms(2)]
  have ok: "v \<in> valid_slots s" "canon_prefix v pfx" "t = RT_DEFAULT \<or> (t = RT_MROUTE \<and> routes E us s (rib_tbl_key pfx) = None)"
    using assms(4) ran_vrf_of [OF I(2)] by (auto simp: call_ok_def op_ok_def spec_of_def)
  have "neigh_refs E s k \<le> n" for k
    using I(4) by (auto simp: neigh_refs_def neighs_def obj_view_def refs_within_def split: option.splits)
  then have room: "neigh_refs E s (neigh_key (vrf_id (vrf_dp_of s v)) (nk_gateway d)) < 2 ^ 32 - 1"
    using assms(3) le_less_trans by fastforce
  from shc_route_nhop_insert_run [OF agent_lawsD(2) [OF assms(1)] I(3) ok(2,3) room] assms(5)
  have s': "route_inv E us fm s'" "case routes E us s (rib_tbl_key pfx) of
       None \<Rightarrow> (r = 0 \<and> routes E us s' = (routes E us s)(rib_tbl_key pfx \<mapsto> (d, t))) \<or> (r < 0 \<and> routes E us s' = routes E us s)
     | Some (d0, t0) \<Rightarrow> s' = s \<and> r = (if t0 \<noteq> t then SHC_IPV4_ROUTETYPE_NO_SAME else SHC_ROUTE_NEXTHOP_ECMP_NOSPACE)"
    by auto
  show ?thesis
  proof (rule live_inv_routes [OF assms(2,3) shc_route_nhop_insert_grow [OF assms(5)] s'(1)])
    fix k assume "routes E us s' k \<noteq> None"
    then have "routes E us s k \<noteq> None \<or> k = rib_tbl_key pfx"
      using s'(2) by (auto split: option.split_asm if_split_asm)
    then show "routes E us s k \<noteq> None \<or> (\<exists>v \<in> valid_slots s. of_vrf v k)" using ok canon_of_vrf by blast
  qed
qed

lemma live_route_del:
  assumes "agent_laws E us fm fd hpos" "live_inv E us fm n s" "n + 1 < 2 ^ 32" "canon_prefix v pfx"
    and "shc_route_delete E v pfx s = Some (r, s') \<or> shc_route_nhop_delete E v pfx d t s = Some (r, s')"
  shows "live_inv E us fm (n + 1) s'"
proof -
  note L = agent_lawsD(2) [OF assms(1)] and I = live_invD(3) [OF assms(2)]
  have "route_inv E us fm s' \<and> (\<forall>k. routes E us s' k \<noteq> None \<longrightarrow> routes E us s k \<noteq> None) \<and> refs_grow 0 s s'"
    using assms(5)
  proof
    assume run: "shc_route_delete E v pfx s = Some (r, s')"
    from shc_route_delete_run [OF L I assms(4)] run shc_route_delete_grow [OF run] show ?thesis
      by (auto split: if_split_asm)
  next
    assume run: "shc_route_nhop_delete E v pfx d t s = Some (r, s')"
    from shc_route_nhop_delete_contract [OF L I assms(4), of d t] run shc_route_nhop_delete_grow [OF run] show ?thesis
      by (auto split: if_split_asm option.split_asm)
  qed
  then show ?thesis using live_inv_routes [OF assms(2,3) refs_grow_le] by blast
qed

lemma live_route_flush:
  assumes "agent_laws E us fm fd hpos" "live_inv E us fm n s" "v < nat SHC_NR_VRF"
    and "shc_route_cleanup E sweep_fuel v s = Some (r, s')"
  shows "route_inv E us fm s'" "routes E us s' = (\<lambda>k. if of_vrf v k then None else routes E us s k)"
proof -
  note I = live_invD(3) [OF assms(2)]
  from shc_route_cleanup_run [OF agent_lawsD(1) [OF assms(1)] I assms(3) routes_below_fuel [OF I]] assms(4)
  show "route_inv E us fm s'" "routes E us s' = (\<lambda>k. if of_vrf v k then None else routes E us s k)" by auto
qed

lemma live_vrf_add:
  assumes "live_inv E us fm n s" "length nm < SHC_VRF_NAME_LEN" "shc_vrf_add nm s = Some (r, s')"
  shows "live_inv E us fm n s'"
proof -
  note I = live_invD [OF assms(1)]
  show ?thesis
    using I(2)
  proof (cases rule: shc_vrf_add_run [of s nm, case_names exist full new])
    case (new i)
    then have s': "s' = slot_taken nm i s" using assms(3) by (simp add: slot_taken_def)
    note S = slot_taken_sound [OF I(2) assms(2) new(1,2)]
    have "neigh_mem s' = neigh_mem s" by (simp add: s' slot_taken_def)
    then show ?thesis
      using I S(1,2) slot_taken_routes [of E us] unfolding s' by (auto simp: live_inv_def core_inv_def)
  qed (use assms in auto)
qed

text \<open>The end of a VRF, whatever its tunnels are.\<close>

lemma live_vrf_del:
  fixes E :: "('h, 'f, 'b) lib"
  assumes "agent_laws E us fm fd hpos" "live_inv E us fm n s" "n + 1 < 2 ^ 32" "shc_vrf_del E sweep_fuel nm s = Some (r, s')"
  shows "live_inv E us fm (n + 1) s'"
  using live_invD(2) [OF assms(2)]
proof (cases rule: shc_vrf_lookup_spec [of s nm, case_names none found])
  case none
  then show ?thesis
    using assms(4) live_inv_mono [OF assms(2), of "n + 1"] by (simp add: shc_vrf_del_def shc_vrf_lookup_def)
next
  case (found v)
  note off = agent_lawsD(6) [OF assms(1)]
  have v: "v \<in> valid_slots s" "v < nat SHC_NR_VRF" using found(1) by (auto simp: is_vrf_def valid_slots_def)
  from assms(4) found(3) obtain q s1 s2 where s1: "shc_route_cleanup E sweep_fuel v s = Some (q, s1)"
    and s2: "tunnel_cleanup_loop v (tunnel_rmap (vrf_dp_of s1 v)) s1 = Some s2"
    and s': "s' = (dp_upd v (\<lambda>d. d\<lparr>internal_ip := 0\<rparr>) s2)\<lparr>g_shc_vrfs := (g_shc_vrfs (dp_upd v (\<lambda>d. d\<lparr>internal_ip := 0\<rparr>) s2))
        (v := (g_shc_vrfs (dp_upd v (\<lambda>d. d\<lparr>internal_ip := 0\<rparr>) s2) v)\<lparr>name := [], valid := False\<rparr>), g_shc_vrf_n := g_shc_vrf_n s2 - 1\<rparr>"
    using off
    by (auto simp: shc_vrf_del_def shc_vrf_lookup_def shc_vrf_dp_dtor_def shc_tunnel_map_cleanup_def Let_def
        split: Option.bind_split_asm prod.split_asm)
  note flush = live_route_flush [OF assms(1,2) v(2) s1]
  have grow: "refs_grow 1 s s1" by (rule refs_grow_le [OF shc_route_cleanup_grow [OF s1]])
  then have keep: "keeps_vrfs s s1" by (simp add: refs_grow_def)
  have "live_inv E us fm (n + 1) s1"
    by (rule live_inv_routes [OF assms(2,3) grow flush(1)]) (simp add: flush(2) split: if_split_asm)
  note J = live_invD [OF this]
  have slots: "valid_slots s1 = valid_slots s" using keeps_vrfs_tun(3) [OF keep] .
  note t = tunnel_cleanup_only [OF s2, unfolded tun_only_def]
  have "tun_only (slot_freed v s1) s'"
    using t unfolding s' by (simp add: tun_only_def)
  note T = tun_only_inv [OF this] and only = this [unfolded tun_only_def]
  have inv: "vrf_inv s'" "route_inv E us fm s'" "routes E us s' = routes E us s1" "neigh_mem s' = neigh_mem s1"
    using vrf_inv_freed [OF J(2), of v] v(1) slots J(3) only by (simp_all add: T(1,2,3) route_inv_freed)
  have free: "valid_slots s' = valid_slots s - {v}" using only slots by (auto simp: valid_slots_def)
  have "\<exists>w \<in> valid_slots s'. of_vrf w k" if "routes E us s' k \<noteq> None" for k
  proof -
    have k: "\<not> of_vrf v k" "routes E us s k \<noteq> None" using that inv(3) flush(2) by (auto split: if_split_asm)
    then show ?thesis using live_invD(5) [OF assms(2)] free by blast
  qed
  then show ?thesis using inv J(4) by (simp add: live_inv_def core_inv_def)
qed

lemma shc_vrf_set_unseen:
  assumes "shc_vrf_intip_set nm ip s = Some (r, s') \<or> shc_vrf_rmac_set nm m s = Some (r, s') \<or>
    shc_vrf_rmac_unset nm m s = Some (r, s')"
  shows "unseen E us fm s s'"
  using assms
  by (auto simp: shc_vrf_intip_set_def shc_vrf_rmac_set_def shc_vrf_rmac_unset_def Let_def
      split: Option.bind_split_asm option.split_asm if_split_asm intro: dp_write_unseen)

section \<open>The steps\<close>

lemma live_step:
  assumes "agent_laws E us fm fd hpos" "live_inv E us fm n s" "n + 1 < 2 ^ 32" "call_ok (spec_of E us s) op"
    and "agent_do E op s = Some (r, s')"
  shows "live_inv E us fm (n + 1) s'"
proof -
  have set: "live_inv E us fm (n + 1) s'"
    if "shc_vrf_intip_set nm ip s = Some (r, s') \<or> shc_vrf_rmac_set nm m s = Some (r, s') \<or> shc_vrf_rmac_unset nm m s = Some (r, s')"
    for nm ip m
    using live_inv_mono [OF live_inv_unseen [OF assms(2) shc_vrf_set_unseen [OF that]]] by simp
  show ?thesis
  proof (cases op)
    case (Vrf_add nm)
    then have "length nm < SHC_VRF_NAME_LEN" "shc_vrf_add nm s = Some (r, s')"
      using assms(4,5) by (simp_all add: call_ok_def op_ok_def agent_do_def)
    then show ?thesis using live_inv_mono [OF live_vrf_add [OF assms(2)], of nm r s' "n + 1"] by simp
  next
    case (Vrf_del nm)
    then show ?thesis using live_vrf_del [OF assms(1-3)] assms(5) by (simp add: agent_do_def)
  next
    case (Route_add v pfx d t)
    then show ?thesis using live_route_add [OF assms(1-3)] assms(4,5) by (simp add: agent_do_def)
  next
    case (Route_del v pfx)
    then have "canon_prefix v pfx" "shc_route_delete E v pfx s = Some (r, s')"
      using assms(4,5) by (simp_all add: call_ok_def op_ok_def agent_do_def)
    then show ?thesis using live_route_del [OF assms(1-3)] by blast
  next
    case (Nhop_del v pfx d t)
    then have "canon_prefix v pfx" "shc_route_nhop_delete E v pfx d t s = Some (r, s')"
      using assms(4,5) by (simp_all add: call_ok_def op_ok_def agent_do_def)
    then show ?thesis using live_route_del [OF assms(1-3)] by blast
  next
    case (Route_flush v)
    then have run: "v < nat SHC_NR_VRF" "shc_route_cleanup E sweep_fuel v s = Some (r, s')"
      using assms(4,5) by (simp_all add: call_ok_def op_ok_def agent_do_def)
    note flush = live_route_flush [OF assms(1,2) run]
    show ?thesis
      by (rule live_inv_routes [OF assms(2,3) refs_grow_le [OF shc_route_cleanup_grow [OF run(2)]] flush(1)])
         (simp add: flush(2) split: if_split_asm)
  next
    case (Tunnel_add nm type tid attr)
    then have "tun_only s s'" using assms(5) shc_tunnel_map_vrf_only by (simp add: agent_do_def)
    then show ?thesis using live_inv_mono [OF live_inv_tun [OF assms(2)], of s' "n + 1"] by simp
  next
    case (Rule vni src dst fl)
    then have "unseen E us fm s s'" using assms(5) shc_swTohw_rule_unseen by (simp add: agent_do_def)
    then show ?thesis using live_inv_mono [OF live_inv_unseen [OF assms(2)], of s' "n + 1"] by simp
  next
    case (Vrf_intip nm ip)
    then have "shc_vrf_intip_set nm ip s = Some (r, s')" using assms(5) by (simp add: agent_do_def)
    then show ?thesis using set by blast
  next
    case (Vrf_rmac nm m)
    then have "shc_vrf_rmac_set nm m s = Some (r, s')" using assms(5) by (simp add: agent_do_def)
    then show ?thesis using set by blast
  next
    case (Vrf_rmac_unset nm m)
    then have "shc_vrf_rmac_unset nm m s = Some (r, s')" using assms(5) by (simp add: agent_do_def)
    then show ?thesis using set by blast
  qed
qed

lemma agent_start_live:
  assumes "route_laws E us fm fd" "creates_ok E" "unborn s0" "shc_dp_init E IO ctx c s0 = Some (Inr (0, c', s))"
  shows "live_inv E us fm 0 s"
proof -
  note S = agent_start_sound [OF assms]
  have "routes E us s = Map.empty" using S(2) by (simp add: spec_of_def spec_start_def)
  then show ?thesis using agent_core [OF S(1)] by (simp add: live_inv_def)
qed

lemma live_sound:
  assumes "agent_laws E us fm fd hpos" "creates_ok E" "agent_live E us IO M n s" "n < 2 ^ 32"
  shows "live_inv E us fm n s"
  using assms(3,4)
proof (induction rule: agent_live.induct)
  case (start s0 ctx c c' s)
  then show ?case using agent_start_live [OF agent_lawsD(2) [OF assms(1)] assms(2)] by blast
next
  case (control n s op r s')
  then show ?case using live_step [OF assms(1) _ _ control(2,3)] by simp
next
  case (unmap n s type tid r s')
  then show ?case
    using live_inv_mono [OF live_inv_tun [OF _ shc_tunnel_unmap_only [OF unmap(2)]], of E us fm n "n + 1"] by simp
next
  case (flow n s vni src dst fl r s')
  then show ?case using live_inv_unseen [OF _ shc_swTohw_rule_unseen [OF flow(2)]] by blast
next
  case (packet n p rx p')
  then show ?case using live_inv_unseen [OF _ netio_rx_unseen [OF packet(2)]] by blast
qed

section \<open>What holds in every state\<close>

text \<open>
  C2. Whatever fewer than 2 ^ 32 control operations came, VRFs deleted while tunnels led to them and tunnels
  unmapped included, and whatever packets and rules between them: in every state the agent reaches, the VRF
  table and the routes with their results, next hops and reference counts are sound together, and every
  route belongs to a VRF that exists. As long as no mapped VRF was deleted and no tunnel unmapped, the
  table of tunnels is sound too, and every tunnel leads to a VRF that exists. The callers promise names that
  fit, canonical prefixes of an existing VRF and a route type that is the default or, where no route is,
  multicast; the data plane's tables could be created and memory is there.
\<close>

theorem agent_live_invariant:
  assumes "agent_laws E us fm fd hpos" "creates_ok E" "agent_live E us IO M n s" "n < 2 ^ 32"
  shows "vrf_inv s \<and> route_inv E us fm s \<and>
    (\<forall>k. routes E us s k \<noteq> None \<longrightarrow> (\<exists>nm v. is_vrf s nm v \<and> of_vrf v k)) \<and>
    (agent_reach E us IO M n s \<longrightarrow> tun_inv E s \<and>
       (\<forall>k x. tunnel_vrf E s k = Some x \<longrightarrow> (\<exists>nm v. is_vrf s nm v \<and> x = of_nat v + 1)))"
proof -
  note I = live_sound [OF assms]
  have name: "\<exists>nm. is_vrf s nm v" if "v \<in> valid_slots s" for v
    using that by (auto simp: is_vrf_def)
  have "tun_inv E s \<and> (\<forall>k x. tunnel_vrf E s k = Some x \<longrightarrow> (\<exists>nm v. is_vrf s nm v \<and> x = of_nat v + 1))"
    if "agent_reach E us IO M n s"
  proof -
    have R: "tun_inv E s" "spec_inv (spec_of E us s)"
      using reach_sound [OF assms(1,2) that assms(4)] by (simp_all add: agent_inv_def)
    have "\<exists>nm v. is_vrf s nm v \<and> x = of_nat v + 1" if "tunnel_vrf E s k = Some x" for k x
      using spec_inv_tun [OF R(2), of k x] that name ran_vrf_of [OF live_invD(2) [OF I]] by (simp add: spec_of_def) blast
    then show ?thesis using R(1) by blast
  qed
  then show ?thesis using live_invD(2,3) [OF I] live_invD(5) [OF I] name by meson
qed

text \<open>
  C3. A VRF that is created in any of these states starts without a route of any kind in its slot, also when
  the slot was another VRF's before (deleted with or without tunnels), and the routes of the other VRFs
  stay as they are.
\<close>

theorem new_vrf_is_empty:
  assumes "agent_laws E us fm fd hpos" "creates_ok E" "agent_live E us IO M n s" "n < 2 ^ 32"
    and "length nm < SHC_VRF_NAME_LEN" "\<And>i. \<not> is_vrf s nm i" "shc_vrf_add nm s = Some (0, s')"
  shows "\<exists>v. is_vrf s' nm v \<and> (\<forall>nm' i. is_vrf s nm' i \<longrightarrow> is_vrf s' nm' i \<and> i \<noteq> v) \<and> routes E us s' = routes E us s \<and>
    (\<forall>k. of_vrf v k \<longrightarrow> routes E us s' k = None)"
proof -
  note I = live_sound [OF assms(1-4)]
  show ?thesis
    using live_invD(2) [OF I]
  proof (cases rule: shc_vrf_add_run [of s nm, case_names exist full new])
    case (new v)
    then have s': "s' = slot_taken nm v s" using assms(7) by (simp add: slot_taken_def)
    note S = slot_taken_sound [OF live_invD(2) [OF I] assms(5) new(1,2)]
    have v: "v < nat SHC_NR_VRF" "v \<notin> valid_slots s" using new(2) by (auto simp: first_free_slot_def)
    have "routes E us s k = None" if k: "of_vrf v k" for k
    proof (rule ccontr)
      assume "routes E us s k \<noteq> None"
      then obtain w where w: "w \<in> valid_slots s" "of_vrf w k" using live_invD(5) [OF I] by blast
      then have "w < nat SHC_NR_VRF" "(of_nat w + 1 :: u32) = of_nat v + 1"
        using k by (auto simp: valid_slots_def of_vrf_def split: hkey.splits)
      then show False using vrf_id_inj [of w v] v w(1) by simp
    qed
    moreover have "\<forall>nm' i. is_vrf s nm' i \<longrightarrow> i \<noteq> v" using v(2) by (auto simp: is_vrf_def)
    ultimately show ?thesis using S(3) unfolding s' slot_taken_routes(2) by blast
  qed (use assms(6,7) in \<open>auto simp: const_defs\<close>)
qed

section \<open>Instances\<close>

inductive_cases spec_tunnel_addE: "spec_step a (Tunnel_add nm type tid attr) r a'"

lemma spec_step_names:
  "spec_step a (Route_add v pfx d t) r b \<Longrightarrow> sp_vrf b = sp_vrf a"
  "spec_step a (Tunnel_add nm type tid attr) r b \<Longrightarrow> sp_vrf b = sp_vrf a"
  by (auto elim: spec_route_addE spec_tunnel_addE)

lemma spec_first_vrf:
  assumes "spec_step spec_start (Vrf_add nm) r a" "sp_vrf a nm = Some i" shows "sp_vrf a = [nm \<mapsto> i]"
  using assms(1) by (rule spec_vrf_addE) (use assms(2) in \<open>auto simp: spec_start_def\<close>)

text \<open>A VRF with a route and a tunnel is deleted.\<close>

lemma lib0_deleted:
  obtains s1 r2 s2 r3 s3 s4 where "agent_reach (lib0 4) set io0 mlib0 1 s1" "vrf_of s1 = [''red'' \<mapsto> 0]"
    "agent_do (lib0 4) (Route_add 0 pfx0 hop0 RT_DEFAULT) s1 = Some (r2, s2)"
    "agent_do (lib0 4) (Tunnel_add ''red'' SHC_TUNNEL_VXLAN 0 \<lparr>urpf = False, htab16 = False\<rparr>) s2 = Some (r3, s3)"
    "shc_vrf_del (lib0 4) sweep_fuel ''red'' s3 = Some (0, s4)" "agent_live (lib0 4) set io0 mlib0 4 s4"
    "\<And>nm i. \<not> is_vrf s4 nm i" "agent_reach (lib0 4) set io0 mlib0 3 s3" "is_vrf s3 ''red'' 0"
proof -
  obtain s r s1 where s1: "spec_step spec_start (Vrf_add ''red'') r (spec_of (lib0 4) set s1)"
    "agent_reach (lib0 4) set io0 mlib0 1 s1" "sp_vrf (spec_of (lib0 4) set s1) ''red'' = Some 0"
    using lib0_first_vrf .
  note red = spec_first_vrf [OF s1(1,3)]
  have n: "(1 :: nat) + 1 < 2 ^ 32" "(2 :: nat) + 1 < 2 ^ 32" by simp_all
  have "op_ok (spec_of (lib0 4) set s1) (Route_add 0 pfx0 hop0 RT_DEFAULT)"
    using canon_pfx0 by (simp add: op_ok_def red)
  from agent_step_refines [OF laws_lib0 s1(2) n(1) this] obtain r2 s2 where a:
    "agent_do (lib0 4) (Route_add 0 pfx0 hop0 RT_DEFAULT) s1 = Some (r2, s2)"
    "spec_step (spec_of (lib0 4) set s1) (Route_add 0 pfx0 hop0 RT_DEFAULT) r2 (spec_of (lib0 4) set s2)"
    "agent_reach (lib0 4) set io0 mlib0 (1 + 1) s2" .
  have s2: "agent_reach (lib0 4) set io0 mlib0 2 s2" using a(3) by (simp only: one_add_one)
  let ?t = "Tunnel_add ''red'' SHC_TUNNEL_VXLAN 0 \<lparr>urpf = False, htab16 = False\<rparr>"
  have "op_ok (spec_of (lib0 4) set s2) ?t" by (simp add: op_ok_def)
  from agent_step_refines [OF laws_lib0 s2 n(2) this] obtain r3 s3 where b: "agent_do (lib0 4) ?t s2 = Some (r3, s3)"
    "spec_step (spec_of (lib0 4) set s2) ?t r3 (spec_of (lib0 4) set s3)" "agent_reach (lib0 4) set io0 mlib0 (2 + 1) s3" .
  have s3: "agent_do (lib0 4) ?t s2 = Some (r3, s3)" "agent_reach (lib0 4) set io0 mlib0 3 s3"
    "sp_vrf (spec_of (lib0 4) set s3) = [''red'' \<mapsto> 0]"
    using b(1,3) spec_step_names(2) [OF b(2)] spec_step_names(1) [OF a(2)] red by (simp_all add: numeral_3_eq_3 numeral_2_eq_2)
  have I: "agent_inv (lib0 4) set (\<lambda>f. map_of (fst f)) 3 s3" using reach_sound [OF laws_lib0 s3(2)] by simp
  note J = agent_invD [OF I]
  have only: "is_vrf s3 nm i \<longleftrightarrow> nm = ''red'' \<and> i = 0" for nm i
    using vrf_of_iff [OF J(1), of nm i] s3(3) by (auto simp: spec_of_def split: if_split_asm)
  show thesis
  proof (cases rule: shc_vrf_del_run [OF agent_lawsD(1) [OF laws_lib0(1)] J(2,1,3) routes_below_fuel [OF J(2)], of "''red''", case_names no vrf])
    case no
    then show ?thesis using only by blast
  next
    case (vrf v s4)
    have "is_vrf (slot_freed v s4) nm i \<longleftrightarrow> is_vrf s3 nm i \<and> i \<noteq> v" for nm i
      using vrf(7) keeps_vrfs_tun(3) [OF vrf(7)] by (simp add: is_vrf_freed is_vrf_def keeps_vrfs_def)
    then have "\<not> is_vrf (slot_freed v s4) nm i" for nm i using only vrf(1) by auto
    moreover have "agent_live (lib0 4) set io0 mlib0 (3 + 1) (slot_freed v s4)"
      by (rule agent_live.control [OF reach_live [OF s3(2)], where op = "Vrf_del ''red''"])
         (simp_all add: call_ok_def agent_do_def vrf(5))
    ultimately show ?thesis using that [OF s1(2) _ a(1) s3(1) vrf(5) _ _ s3(2)] red only by (simp add: spec_of_def)
  qed
qed

lemma agent_live_invariant_witness:
  "\<exists>s3 s4. is_vrf s3 ''red'' 0 \<and> agent_reach (lib0 4) set io0 mlib0 3 s3 \<and> shc_vrf_del (lib0 4) sweep_fuel ''red'' s3 = Some (0, s4) \<and>
     agent_live (lib0 4) set io0 mlib0 4 s4 \<and> vrf_inv s4 \<and> (\<forall>k. routes (lib0 4) set s4 k = None)"
proof -
  obtain s1 r2 s2 r3 s3 s4 where s4: "agent_reach (lib0 4) set io0 mlib0 3 s3" "is_vrf s3 ''red'' 0"
    "shc_vrf_del (lib0 4) sweep_fuel ''red'' s3 = Some (0, s4)" "agent_live (lib0 4) set io0 mlib0 4 s4"
    "\<And>nm i. \<not> is_vrf s4 nm i"
    using lib0_deleted by metis
  have "(4 :: nat) < 2 ^ 32" by simp
  from agent_live_invariant [OF laws_lib0 s4(4) this] s4(5)
  have "vrf_inv s4 \<and> (\<forall>k. routes (lib0 4) set s4 k = None)" by meson
  then show ?thesis using s4 by blast
qed

lemma new_vrf_is_empty_witness:
  "\<exists>s1 r2 s2 r3 s3 s4 s5. agent_reach (lib0 4) set io0 mlib0 1 s1 \<and> is_vrf s1 ''red'' 0 \<and>
     agent_do (lib0 4) (Route_add 0 pfx0 hop0 RT_DEFAULT) s1 = Some (r2, s2) \<and>
     agent_do (lib0 4) (Tunnel_add ''red'' SHC_TUNNEL_VXLAN 0 \<lparr>urpf = False, htab16 = False\<rparr>) s2 = Some (r3, s3) \<and>
     agent_do (lib0 4) (Vrf_del ''red'') s3 = Some (0, s4) \<and> agent_live (lib0 4) set io0 mlib0 4 s4 \<and>
     shc_vrf_add ''blue'' s4 = Some (0, s5) \<and> is_vrf s5 ''blue'' 0 \<and> (\<forall>k. of_vrf 0 k \<longrightarrow> routes (lib0 4) set s5 k = None)"
proof -
  obtain s1 r2 s2 r3 s3 s4 where s: "agent_reach (lib0 4) set io0 mlib0 1 s1" "vrf_of s1 = [''red'' \<mapsto> 0]"
    "agent_do (lib0 4) (Route_add 0 pfx0 hop0 RT_DEFAULT) s1 = Some (r2, s2)"
    "agent_do (lib0 4) (Tunnel_add ''red'' SHC_TUNNEL_VXLAN 0 \<lparr>urpf = False, htab16 = False\<rparr>) s2 = Some (r3, s3)"
    "shc_vrf_del (lib0 4) sweep_fuel ''red'' s3 = Some (0, s4)" "agent_live (lib0 4) set io0 mlib0 4 s4"
    "\<And>nm i. \<not> is_vrf s4 nm i"
    using lib0_deleted by (metis (no_types, lifting))
  have red: "is_vrf s1 ''red'' 0"
    using vrf_of_iff [of s1 "''red''" 0] s(2) agent_invD(1) reach_sound [OF laws_lib0 s(1)] by fastforce
  have inv: "vrf_inv s4" using live_invD(2) [OF live_sound [OF laws_lib0 s(6)]] by simp
  have none: "valid_slots s4 = {}" using s(7) by (auto simp: is_vrf_def)
  obtain v s5 where s5: "first_free_slot s4 v" "shc_vrf_add ''blue'' s4 = Some (0, s5)" "s5 = slot_taken ''blue'' v s4"
    using inv
  proof (cases rule: shc_vrf_add_run [of s4 "''blue''", case_names exist full new])
    case full
    then have "0 \<in> valid_slots s4" by (simp add: SHC_NR_VRF_def)
    then show ?thesis using none by simp
  next
    case (new i)
    then show ?thesis using that by (simp add: slot_taken_def)
  qed (use s(7) in blast)
  have "v = 0" using s5(1) none by (cases v) (auto simp: first_free_slot_def)
  moreover have len: "length ''blue'' < SHC_VRF_NAME_LEN" by (simp add: SHC_VRF_NAME_LEN_def)
  note taken = slot_taken_sound(3) [OF inv len s(7) s5(1)]
  ultimately have blue: "is_vrf s5 n j \<longleftrightarrow> n = ''blue'' \<and> j = 0" for n j using s(7) s5(3) by simp
  have four: "(4 :: nat) < 2 ^ 32" by simp
  from new_vrf_is_empty [OF laws_lib0 s(6) four len s(7) s5(2)] blue
  have "\<forall>k. of_vrf 0 k \<longrightarrow> routes (lib0 4) set s5 k = None" by metis
  moreover have "agent_do (lib0 4) (Vrf_del ''red'') s3 = Some (0, s4)" "is_vrf s5 ''blue'' 0"
    using s(5) blue by (simp_all add: agent_do_def)
  ultimately show ?thesis using s(1,3,4,6) red s5(2)
    by (intro exI [of _ s1] exI [of _ r2] exI [of _ s2] exI [of _ r3] exI [of _ s3] exI [of _ s4] exI [of _ s5] conjI)
qed

end
