(* ===== verification/Topk_Diff.thy ===== *)
theory Topk_Diff
  imports Entry_Api Top_K
begin

text \<open>
  The comparison of two top-k tables: \<open>hal_topk_dump\<close> of \<open>platform/drivers/hal_table_api.cpp\<close> and
  \<open>diff_cmp\<close> of \<open>agent/topk_deal.cpp\<close>, the timer's handler that merges the old and the new table and moves
  the rules of the flows that left or entered the top k out of the hardware or into it.
\<close>

section \<open>The handler\<close>

text \<open>
  The dump under the detection's mutex. The two out-parameters point to the two global tables, which are
  fields of the model's state.
\<close>

definition hal_topk_dump :: "std_lib \<Rightarrow> topk \<Rightarrow> (int \<times> topk) option" where
  "hal_topk_dump L T = top_k_dump L T"

definition flow_at :: "flow_table_t \<Rightarrow> int \<Rightarrow> tuple_3_t option" where
  "flow_at t i = do {
     d \<leftarrow> ft_data t;
     if 0 \<le> i \<and> i < int (length d) then Some (flow_id (d ! nat i)) else None
   }"

text \<open>
  One call of the offload entry point, whose result \<open>diff_cmp\<close> drops. The first cast goes through
  \<open>int32_t\<close>; as an argument it becomes a \<open>uint32_t\<close> again, with the same low 32 bits.
\<close>

definition sw_to_hw :: "('h, 'f, 'b) lib \<Rightarrow> tuple_3_t \<Rightarrow> int \<Rightarrow> ('h, 'f, 'b) agent \<Rightarrow> ('h, 'f, 'b) agent option" where
  "sw_to_hw E t flag s = map_option snd (shc_swTohw_rule E (ucast (port t)) (ucast (src_ip t)) (ucast (dst_ip t)) flag s)"

partial_function (option) diff_loop ::
  "('h, 'f, 'b) lib \<Rightarrow> flow_table_t \<Rightarrow> flow_table_t \<Rightarrow> int \<Rightarrow> int \<Rightarrow> ('h, 'f, 'b) agent \<Rightarrow> ('h, 'f, 'b) agent option" where
  "diff_loop E old_s new_s old_index new_index s =
     (if old_index < used_bucket old_s \<or> new_index < used_bucket new_s then
        (if old_index = used_bucket old_s \<and> new_index = used_bucket new_s then Some s
         else if old_index = used_bucket old_s then do {
           n \<leftarrow> flow_at new_s new_index;
           s \<leftarrow> sw_to_hw E n 0 s;
           diff_loop E old_s new_s old_index (new_index + 1) s
         }
         else if new_index = used_bucket new_s then do {
           d \<leftarrow> flow_at old_s old_index;
           s \<leftarrow> sw_to_hw E d 1 s;
           diff_loop E old_s new_s (old_index + 1) new_index s
         }
         else do {
           d \<leftarrow> flow_at old_s old_index;
           n \<leftarrow> flow_at new_s new_index;
           if tuple_eq d n then diff_loop E old_s new_s (old_index + 1) (new_index + 1) s
           else if tuple_lt d n then do {
             s \<leftarrow> sw_to_hw E d 1 s;
             diff_loop E old_s new_s (old_index + 1) new_index s
           }
           else do {
             s \<leftarrow> sw_to_hw E n 0 s;
             diff_loop E old_s new_s old_index (new_index + 1) s
           }
         })
      else Some s)"

definition diff_cmp ::
  "('h, 'f, 'b) lib \<Rightarrow> std_lib \<Rightarrow> topk \<Rightarrow> ('h, 'f, 'b) agent \<Rightarrow> (topk \<times> ('h, 'f, 'b) agent) option" where
  "diff_cmp E L T s = do {
     (_, T) \<leftarrow> hal_topk_dump L T;
     s \<leftarrow> diff_loop E (old_table T) (new_table T) 0 0 s;
     Some (T, s)
   }"

section \<open>The merge of two sorted lists\<close>

text \<open>
  The calls as a list: a flow with its flag. \<open>diff_calls\<close> is the merge the loop performs, as a function
  on the two lists of keys.
\<close>

fun diff_calls :: "tuple_3_t list \<Rightarrow> tuple_3_t list \<Rightarrow> (tuple_3_t \<times> int) list" where
  "diff_calls [] ns = map (\<lambda>n. (n, 0)) ns"
| "diff_calls os [] = map (\<lambda>d. (d, 1)) os"
| "diff_calls (d # os) (n # ns) =
     (if d = n then diff_calls os ns
      else if d < n then (d, 1) # diff_calls os (n # ns)
      else (n, 0) # diff_calls (d # os) ns)"

fun run_calls :: "('h, 'f, 'b) lib \<Rightarrow> (tuple_3_t \<times> int) list \<Rightarrow> ('h, 'f, 'b) agent \<Rightarrow> ('h, 'f, 'b) agent option" where
  "run_calls E [] s = Some s"
| "run_calls E ((t, flag) # cs) s = Option.bind (sw_to_hw E t flag s) (run_calls E cs)"

lemma diff_calls_Nil2 [simp]: "diff_calls os [] = map (\<lambda>d. (d, 1)) os"
  by (cases os) simp_all

lemma sorted_less_notin: "sorted (y # ys) \<Longrightarrow> (x :: 'a::linorder) < y \<Longrightarrow> x \<notin># mset (y # ys)"
  by auto

lemma mset_diff_add:
  assumes "x \<notin># B"
  shows "add_mset x A - B = add_mset x (A - B)" "B - add_mset x A = B - A"
  using assms by (simp_all add: multiset_eq_iff not_in_iff)

text \<open>The merge calls the difference of the two multisets of keys, in order.\<close>

lemma diff_calls_mset:
  "sorted os \<Longrightarrow> sorted ns \<Longrightarrow>
     mset (diff_calls os ns) = image_mset (\<lambda>d. (d, 1)) (mset os - mset ns) + image_mset (\<lambda>n. (n, 0)) (mset ns - mset os)"
proof (induction os ns rule: diff_calls.induct)
  case (3 d os n ns)
  consider "d = n" | "d < n" | "n < d" by fastforce
  then show ?case
  proof cases
    case 1
    then show ?thesis using 3 by simp
  next
    case 2
    have "d \<notin># mset (n # ns)" using sorted_less_notin [OF 3(5) 2] .
    note D = mset_diff_add [OF this, of "mset os"]
    have "mset (diff_calls os (n # ns)) =
        image_mset (\<lambda>d. (d, 1)) (mset os - mset (n # ns)) + image_mset (\<lambda>n. (n, 0)) (mset (n # ns) - mset os)"
      using 2 3(2,4,5) by simp
    then show ?thesis using 2 D less_imp_neq [OF 2] by simp
  next
    case a: 3
    have "n \<notin># mset (d # os)" using sorted_less_notin [OF 3(4) a] .
    note D = mset_diff_add [OF this, of "mset ns"]
    have "mset (diff_calls (d # os) ns) =
        image_mset (\<lambda>d. (d, 1)) (mset (d # os) - mset ns) + image_mset (\<lambda>n. (n, 0)) (mset ns - mset (d # os))"
      using a 3(3,4,5) by simp
    then show ?thesis using a D less_imp_neq [OF a] by auto
  qed
qed simp_all

lemma diff_calls_within: "t \<in> fst ` set (diff_calls os ns) \<Longrightarrow> t \<in> set os \<union> set ns"
  by (induction os ns rule: diff_calls.induct) (auto split: if_split_asm)

lemma diff_calls_sorted:
  "sorted os \<Longrightarrow> sorted ns \<Longrightarrow> sorted (map fst (diff_calls os ns))"
proof (induction os ns rule: diff_calls.induct)
  case (3 d os n ns)
  have s: "sorted os" "sorted ns" "\<forall>x \<in> set os. d \<le> x" "\<forall>x \<in> set ns. n \<le> x" using 3(4,5) by auto
  consider "d = n" | "d < n" | "n < d" by fastforce
  then show ?case
  proof cases
    case 1
    then show ?thesis using 3(1) s by simp
  next
    case 2
    then have "\<forall>t \<in> fst ` set (diff_calls os (n # ns)). d \<le> t" using diff_calls_within [of _ os "n # ns"] s by fastforce
    then show ?thesis using 2 3(2) s 3(5) by auto
  next
    case a: 3
    then have "\<forall>t \<in> fst ` set (diff_calls (d # os) ns). n \<le> t" using diff_calls_within [of _ "d # os" ns] s by fastforce
    then show ?thesis using a 3(3) s 3(4) by auto
  qed
qed (simp_all add: comp_def)

section \<open>The loop performs the merge\<close>

text \<open>A table whose first \<open>used_bucket\<close> elements are \<open>fs\<close>.\<close>

definition table_flows :: "flow_table_t \<Rightarrow> flow_table_element_t list \<Rightarrow> bool" where
  "table_flows t fs \<longleftrightarrow> used_flows t = Some fs \<and> used_bucket t = int (length fs)"

lemma flow_at_table:
  assumes "table_flows t fs" "i < length fs"
  shows "flow_at t (int i) = Some (flow_id (fs ! i))"
proof -
  obtain d where d: "ft_data t = Some d" "fs = take (length fs) d" "length fs \<le> length d"
    using assms(1) by (auto simp: table_flows_def used_flows_def)
  have "fs ! i = d ! i" using d(2) assms(2) by (metis nth_take)
  then show ?thesis using d assms(2) by (simp add: flow_at_def)
qed

lemma drop_nthE:
  assumes "drop i xs = y # ys"
  shows "i < length xs" "xs ! i = y" "drop (Suc i) xs = ys"
proof -
  show l: "i < length xs" by (rule ccontr) (use assms in simp)
  show "xs ! i = y" "drop (Suc i) xs = ys" using Cons_nth_drop_Suc [OF l] assms by auto
qed

lemma drop_ConsE:
  assumes "y # ys = map f (drop i xs)"
  shows "i < length xs" "y = f (xs ! i)" "ys = map f (drop (Suc i) xs)"
proof -
  have "drop i (map f xs) = y # ys" using assms by (simp add: drop_map)
  note d = drop_nthE [OF this]
  show "i < length xs" using d(1) by simp
  then show "y = f (xs ! i)" using d(2) by simp
  show "ys = map f (drop (Suc i) xs)" using d(3) by (simp add: drop_map)
qed

lemma diff_loop_merge:
  assumes old: "table_flows old_s os" and new: "table_flows new_s ns"
  shows "xs = map flow_id (drop i os) \<Longrightarrow> ys = map flow_id (drop j ns) \<Longrightarrow> i \<le> length os \<Longrightarrow> j \<le> length ns \<Longrightarrow>
    diff_loop E old_s new_s (int i) (int j) s = run_calls E (diff_calls xs ys) s"
proof (induction "length xs + length ys" arbitrary: xs ys i j s rule: less_induct)
  case less
  have used: "used_bucket old_s = int (length os)" "used_bucket new_s = int (length ns)"
    using old new by (simp_all add: table_flows_def)
  have one: "int i + 1 = int (Suc i)" "int j + 1 = int (Suc j)" by simp_all
  note IH = less.hyps [OF _ refl refl]
  show ?case
  proof (cases xs)
    case Nil
    then have i: "i = length os" using less.prems(1,3) by simp
    show ?thesis
    proof (cases ys)
      case Nil
      then have "j = length ns" using less.prems(2,4) by simp
      then show ?thesis using i \<open>xs = []\<close> Nil by (simp add: diff_loop.simps used)
    next
      case (Cons n ys')
      note n = drop_ConsE [OF less.prems(2) [unfolded Cons]]
      have "diff_loop E old_s new_s (int i) (int (Suc j)) = run_calls E (diff_calls xs ys')"
        unfolding n(3) using less.prems Cons n by (intro ext, subst less.prems(1), intro IH) simp_all
      then show ?thesis
        using i n(1,2) \<open>xs = []\<close> Cons flow_at_table [OF new n(1)]
        by (subst diff_loop.simps) (simp add: used one del: of_nat_Suc)
    qed
  next
    case (Cons d xs')
    note d = drop_ConsE [OF less.prems(1) [unfolded Cons]]
    have del: "diff_loop E old_s new_s (int (Suc i)) (int j) = run_calls E (diff_calls xs' ys)"
      unfolding d(3) using less.prems Cons d by (intro ext, subst less.prems(2), intro IH) simp_all
    show ?thesis
    proof (cases ys)
      case Nil
      then have "j = length ns" using less.prems(2,4) by simp
      then show ?thesis
        using d(1,2) Cons Nil flow_at_table [OF old d(1)] del
        by (subst diff_loop.simps) (simp add: used one del: of_nat_Suc)
    next
      case (Cons n ys')
      note n = drop_ConsE [OF less.prems(2) [unfolded Cons]]
      have add: "diff_loop E old_s new_s (int i) (int (Suc j)) = run_calls E (diff_calls xs ys')"
        unfolding n(3) using less.prems Cons n by (intro ext, subst less.prems(1), intro IH) simp_all
      have both: "diff_loop E old_s new_s (int (Suc i)) (int (Suc j)) = run_calls E (diff_calls xs' ys')"
        unfolding n(3) d(3) using less.prems Cons \<open>xs = d # xs'\<close> n d by (intro ext, intro IH) simp_all
      have lt: "tuple_lt a b \<longleftrightarrow> a < b" for a b by (simp add: less_tuple_3_t_def)
      show ?thesis
        using d(1,2) n(1,2) Cons \<open>xs = d # xs'\<close> flow_at_table [OF old d(1)] flow_at_table [OF new n(1)] del add both
        by (subst diff_loop.simps) (simp add: used one lt del: of_nat_Suc)
    qed
  qed
qed

lemma length_diff_calls: "length (diff_calls os ns) \<le> length os + length ns"
  by (induction os ns rule: diff_calls.induct) auto

text \<open>
  The handler's loop over two index variables is the merge of two lists, and it ends: for any two tables
  it makes the calls of \<open>diff_calls\<close> in order, at most one per element of the tables, and returns unless
  one of these calls does not.
\<close>

theorem diff_loop_ends:
  assumes "table_flows old_s os" "table_flows new_s ns"
  shows "diff_loop E old_s new_s 0 0 s = run_calls E (diff_calls (map flow_id os) (map flow_id ns)) s \<and>
    length (diff_calls (map flow_id os) (map flow_id ns)) \<le> length os + length ns"
  using diff_loop_merge [OF assms, of _ 0 _ 0 E s] length_diff_calls [of "map flow_id os" "map flow_id ns"] by simp

section \<open>A tick of the timer\<close>

lemma fill_table_used:
  assumes "std_laws L" "fill_table L q k t = Some t'" "0 \<le> k" "used_flows t' = Some fs"
  shows "used_bucket t' = int (length fs)"
proof -
  have "length (sort_flows L xs) = length xs" for xs using assms(1) mset_eq_length by (auto simp: std_laws_def)
  then show ?thesis using assms(2-4)
    by (auto simp: fill_table_def used_flows_def Let_def bind_eq_Some_conv split: if_splits)
qed

text \<open>The keys of a table, and a table in the order that \<open>std::sort\<close> leaves, where a key could come twice.\<close>

definition keys_of :: "flow_table_t \<Rightarrow> tuple_3_t list" where
  "keys_of t = map flow_id (the (used_flows t))"

definition table_ordered :: "flow_table_t \<Rightarrow> bool" where
  "table_ordered t \<longleftrightarrow> (\<exists>fs. table_flows t fs) \<and> sorted (keys_of t)"

lemma table_orderedE:
  assumes "table_ordered t"
  obtains fs where "table_flows t fs" "keys_of t = map flow_id fs" "sorted (map flow_id fs)"
  using assms by (auto simp: table_ordered_def keys_of_def table_flows_def)

lemma fill_table_ordered:
  assumes "std_laws L" "fill_table L q k t = Some t'" "0 \<le> k"
  shows "table_ordered t'"
proof -
  have len: "length (sort_flows L xs) = length xs" for xs using assms(1) mset_eq_length by (auto simp: std_laws_def)
  define n where "n = nat (if int (length q) > k then k else int (length q))"
  from assms(2) obtain d where d: "n \<le> length d" "ft_data t' = Some (sort_flows L (map to_flow (take n q)) @ drop n d)"
    "used_bucket t' = (if int (length q) > k then k else int (length q))"
    by (auto simp: fill_table_def Let_def n_def bind_eq_Some_conv split: if_split_asm)
  let ?fs = "sort_flows L (map to_flow (take n q))"
  have n: "int n = used_bucket t'" "n \<le> length q" using assms(3) d(3) by (auto simp: n_def)
  have "used_flows t' = Some ?fs" using d n len by (simp add: used_flows_def)
  moreover have "sorted_wrt (\<lambda>a b. \<not> flow_lt b a) ?fs" using assms(1) by (simp add: std_laws_def)
  then have "sorted (map flow_id ?fs)"
    unfolding sorted_map flow_lt_def by (simp add: less_tuple_3_t_def [symmetric] not_less)
  ultimately show ?thesis using n len by (auto simp: table_ordered_def table_flows_def keys_of_def)
qed

lemma top_k_dump_ordered:
  assumes "std_laws L" "top_k_dump L T = Some (r, T')" "0 \<le> sv_K (sv T)"
  shows "r = 0" "old_table T' = new_table T" "table_ordered (new_table T')"
  using assms fill_table_ordered [OF assms(1)]
  by (auto simp: top_k_dump_def work_def Let_def bind_eq_Some_conv)

text \<open>
  C10. A tick of the timer in any interval, as long as the dump returns: the new table is in key order again
  (so the table of the interval before always is), and when that one was in key order too, \<open>diff_cmp\<close>
  makes one sequence of calls of the offload entry point, in key order: for every key, as many deletions as
  the old table has it more often than the new one, and as many additions as the new one has it more often.
  For tables without equal keys, such as those of the first interval's dump, that is exactly one call for
  every flow that is in one of the two only.
\<close>

theorem diff_cmp_moves:
  assumes "std_laws L" "top_k_dump L T = Some (r, T')" "0 \<le> sv_K (sv T)" "table_ordered (new_table T)"
  shows "\<exists>cs. table_ordered (new_table T') \<and> diff_cmp E L T s = map_option (Pair T') (run_calls E cs s) \<and>
    sorted (map fst cs) \<and>
    mset cs = image_mset (\<lambda>t. (t, 1)) (mset (keys_of (new_table T)) - mset (keys_of (new_table T'))) +
              image_mset (\<lambda>t. (t, 0)) (mset (keys_of (new_table T')) - mset (keys_of (new_table T)))"
proof -
  note D = top_k_dump_ordered [OF assms(1-3)]
  obtain os where os: "table_flows (new_table T) os" "keys_of (new_table T) = map flow_id os" "sorted (map flow_id os)"
    using table_orderedE [OF assms(4)] .
  obtain ns where ns: "table_flows (new_table T') ns" "keys_of (new_table T') = map flow_id ns" "sorted (map flow_id ns)"
    using table_orderedE [OF D(3)] .
  let ?cs = "diff_calls (map flow_id os) (map flow_id ns)"
  have "diff_loop E (new_table T) (new_table T') 0 0 s = run_calls E ?cs s"
    using diff_loop_merge [OF os(1) ns(1), of _ 0 _ 0 E s] by simp
  then have "diff_cmp E L T s = map_option (Pair T') (run_calls E ?cs s)"
    using assms(2) D(1,2) by (cases "run_calls E ?cs s") (simp_all add: diff_cmp_def hal_topk_dump_def)
  then show ?thesis
    using D(3) diff_calls_mset [OF os(3) ns(3)] diff_calls_sorted [OF os(3) ns(3)] unfolding os(2) ns(2) by blast
qed

section \<open>Concrete runs\<close>

definition table_of :: "tuple_3_t list \<Rightarrow> flow_table_t" where
  "table_of ts = \<lparr>ft_data = Some (map (\<lambda>t. \<lparr>flow_id = t, flow_count = 1\<rparr>) ts), used_bucket = int (length ts)\<rparr>"

lemma table_flows_of: "table_flows (table_of ts) (map (\<lambda>t. \<lparr>flow_id = t, flow_count = 1\<rparr>) ts)"
  by (simp add: table_flows_def used_flows_def table_of_def)

lemma diff_loop_ends_witness:
  "diff_loop (lib0 4) (table_of [flow1]) (table_of [flow1, flow2]) 0 0 agent0 = run_calls (lib0 4) [(flow2, 0)] agent0"
  using diff_loop_ends [OF table_flows_of table_flows_of, of "lib0 4" "[flow1]" "[flow1, flow2]" agent0]
  by (simp add: comp_def)

text \<open>
  Two intervals: in the first one flow is counted and dumped; nothing is counted in the second, whose tick
  deletes that flow's rule.
\<close>

lemma sort_nodes_Nil: "std_laws L \<Longrightarrow> sort_nodes L [] = []" "std_laws L \<Longrightarrow> sort_flows L [] = []"
  by (auto simp: std_laws_def) (metis mset_zero_iff mset.simps(1))+

text \<open>The dump of an interval in which nothing was counted.\<close>

lemma empty_dump:
  assumes "std_laws L" "sv_ss (sv T) = ss_clear s" "ft_data (old_table T) = Some d" "0 \<le> sv_K (sv T)"
  shows "\<exists>T'. top_k_dump L T = Some (0, T') \<and> keys_of (new_table T') = []"
proof -
  have "collect_buckets (ss_clear s) N_max [] = Some []"
    by (subst collect_buckets.simps)
       (simp add: N_max_def bucket_len_def ss_clear_def collect_elems.simps collect_buckets.simps [of _ 0])
  then show ?thesis
    using assms sort_nodes_Nil [OF assms(1)]
    by (auto simp: top_k_dump_def work_def fill_table_def flow_table_clear_def keys_of_def used_flows_def)
qed

lemma one_flow_dump:
  obtains T1 T2 where "count_flows [flow1] (space_saving_init zero_summary flows0 flows0) = Some T1"
    "top_k_dump std0 T1 = Some (0, T2)" "old_table T2 = flow_table_init flows0" "keys_of (new_table T2) = [flow1]"
    "\<exists>s. sv_ss (sv T2) = ss_clear s" "sv_K (sv T2) = top_K"
proof -
  let ?T = "space_saving_init zero_summary flows0 flows0"
  have ok0: "sv_ok ss_M (sv ?T) []" using spacesaving_new_ok [OF head2_zero_summary ss_M_range(1)] by (simp add: space_saving_init_def)
  from Insert_all_ok [OF ok0 ss_M_range, of "[flow1]"] obtain S where
    S: "Insert_all [flow1] (sv ?T) = Some S" "sv_ok ss_M S [flow1]" "sv_K S = top_K"
    by (auto simp: N_max_def space_saving_init_def spacesaving_new_def)
  define T1 where "T1 = ?T\<lparr>sv := S\<rparr>"
  from S(2) obtain bs els hc where inv: "ss_inv (sv_ss (sv T1)) bs els hc" "ss_tot (sv_ss (sv T1)) \<le> int MAX_MEM + 10"
    by (auto simp: sv_ok_def T1_def ss_M_def MAX_MEM_def)
  have tab: "ft_data (old_table T1) = Some flows0" "new_table T1 = flow_table_init flows0" "sv_K (sv T1) = top_K"
    by (simp_all add: T1_def S(3) space_saving_init_def spacesaving_new_def flow_table_init_def)
  let ?fs = "dumped_flows std0 top_K (nodes_of (sv_ss (sv T1)) els bs)"
  have K: "top_K \<le> int (length flows0)" "0 \<le> top_K" by (simp_all add: top_K_def flows0_def)
  from top_k_dump_run [OF std_laws_std0 inv tab(1)] K tab(2,3) obtain T2 where
    T2: "top_k_dump std0 T1 = Some (0, T2)" "old_table T2 = flow_table_init flows0" "used_flows (new_table T2) = Some ?fs"
      "sv_ss (sv T2) = ss_clear (sv_ss (sv T1))" "sv_K (sv T2) = top_K" by auto
  let ?c = "ss_counts (sv_ss (sv T1))"
  have "count_run (nat ss_M) [flow1] ?c" using S(2) by (simp add: sv_ok_def T1_def)
  note C = counts_okD [OF counts_ok_run [OF this]]
  have "(\<Sum>t \<in> dom ?c. 1) \<le> (\<Sum>t \<in> dom ?c. the (?c t))"
    by (rule sum_mono) (use C(4) in \<open>fastforce simp: Suc_le_eq\<close>)
  then have room: "card (dom ?c) < nat ss_M" using C(3) by (simp add: ss_M_def)
  have "?c t \<noteq> None \<longleftrightarrow> t = flow1" for t
    using C(4,9) [of t] C(7) [of t] room by (cases "?c t") (auto split: if_split_asm)
  then have dom: "dom ?c = {flow1}" by auto
  have "length ?fs = 1" using dumped_length [OF std_laws_std0 inv(1), of top_K] dom by (simp add: top_K_def)
  then obtain f where f: "?fs = [f]" by (metis One_nat_def length_0_conv length_Suc_conv)
  then have "?c (flow_id f) \<noteq> None" using dumped_counts [OF std_laws_std0 inv(1), of f top_K] by simp
  then have "keys_of (new_table T2) = [flow1]" using dom f T2(3) by (auto simp: keys_of_def)
  moreover have "count_flows [flow1] ?T = Some T1" by (simp only: count_flows_def S(1) T1_def option.map)
  ultimately show thesis using T2 that by blast
qed

lemma diff_cmp_moves_witness:
  "\<exists>T1 T2 T3. count_flows [flow1] (space_saving_init zero_summary flows0 flows0) = Some T1 \<and> top_k_dump std0 T1 = Some (0, T2) \<and>
     top_k_dump std0 T2 = Some (0, T3) \<and> diff_cmp (lib0 4) std0 T2 agent0 = map_option (Pair T3) (run_calls (lib0 4) [(flow1, 1)] agent0)"
proof -
  obtain T1 T2 where T: "count_flows [flow1] (space_saving_init zero_summary flows0 flows0) = Some T1"
    "top_k_dump std0 T1 = Some (0, T2)" "old_table T2 = flow_table_init flows0" "keys_of (new_table T2) = [flow1]"
    "\<exists>s. sv_ss (sv T2) = ss_clear s" "sv_K (sv T2) = top_K"
    using one_flow_dump .
  have K: "0 \<le> sv_K (sv T2)" "0 \<le> sv_K (sv T1)"
    using T(2,6) by (auto simp: top_K_def top_k_dump_def work_def Let_def bind_eq_Some_conv)
  obtain T3 where T3: "top_k_dump std0 T2 = Some (0, T3)" "keys_of (new_table T3) = []"
    using empty_dump [OF std_laws_std0 _ _ K(1)] T(3,5) by (auto simp: flow_table_init_def)
  have "table_ordered (new_table T2)" using top_k_dump_ordered(3) [OF std_laws_std0 T(2) K(2)] .
  from diff_cmp_moves [OF std_laws_std0 T3(1) K(1) this, of "lib0 4" agent0] obtain cs where
    cs: "diff_cmp (lib0 4) std0 T2 agent0 = map_option (Pair T3) (run_calls (lib0 4) cs agent0)" "mset cs = {#(flow1, 1)#}"
    by (auto simp: T(4) T3(2))
  then have "cs = [(flow1, 1)]" by simp
  then show ?thesis using T(1,2) T3(1) cs(1) by blast
qed

end
