(* ===== verification/Process.thy ===== *)
theory Process
  imports Main_Start Agent_Live Topk_Diff
begin

text \<open>
  The process: the threads that \<open>main\<close> starts, over the state they share. The packet thread sets the tables
  up and handles datagrams, the other thread arms the timer (\<open>shc_topk_thread\<close> of \<open>agent/topk_deal.cpp\<close>),
  the timer's signal runs \<open>diff_cmp\<close>, the driver's callback counts flows, and control operations come from
  whoever uses the agent's interface.
\<close>

section \<open>The shared state and the timer's thread\<close>

text \<open>
  \<open>space_saving\<close> is the global pointer to the detection, NULL until \<open>hal_init\<close> has run; \<open>itimer\<close> the
  time to the first signal and between signals in seconds.
\<close>

record ('h, 'f, 'b) proc =
  p_thr :: "('h, 'f, 'b) thr"
  space_saving :: "topk option"
  sigalrm :: bool
  itimer :: "(int \<times> int) option"

abbreviation p_agent :: "('h, 'f, 'b) proc \<Rightarrow> ('h, 'f, 'b) agent" where
  "p_agent p \<equiv> ag (th (p_thr p))"

definition set_agent :: "('h, 'f, 'b) agent \<Rightarrow> ('h, 'f, 'b) proc \<Rightarrow> ('h, 'f, 'b) proc" where
  "set_agent s p = p\<lparr>p_thr := (p_thr p)\<lparr>th := (th (p_thr p))\<lparr>ag := s\<rparr>\<rparr>\<rparr>"

lemma set_agent_simps [simp]:
  "p_agent (set_agent s p) = s" "thr_stat (p_thr (set_agent s p)) = thr_stat (p_thr p)"
  "space_saving (set_agent s p) = space_saving p" "itimer (set_agent s p) = itimer p" "sigalrm (set_agent s p) = sigalrm p"
  by (simp_all add: set_agent_def)

text \<open>The thread's part before it waits; a failed \<open>setitimer\<close> is reported and forgotten.\<close>

definition shc_topk_thread :: "int \<Rightarrow> int \<Rightarrow> ('h, 'f, 'b) proc \<Rightarrow> ('h, 'f, 'b) proc" where
  "shc_topk_thread setitimer_ret interval_time p =
     p\<lparr>sigalrm := True,
       itimer := (if setitimer_ret < 0 then itimer p else Some (interval_time, interval_time))\<rparr>"

text \<open>The signal's handler on the shared state, where a NULL pointer to the detection is dereferenced.\<close>

definition alarm_tick ::
  "('h, 'f, 'b) lib \<Rightarrow> std_lib \<Rightarrow> ('h, 'f, 'b) proc \<Rightarrow> ('h, 'f, 'b) proc option" where
  "alarm_tick E L p = do {
     T \<leftarrow> space_saving p;
     (T, s) \<leftarrow> diff_cmp E L T (p_agent p);
     Some (set_agent s (p\<lparr>space_saving := Some T\<rparr>))
   }"

definition count_flow :: "tuple_3_t \<Rightarrow> ('h, 'f, 'b) proc \<Rightarrow> ('h, 'f, 'b) proc option" where
  "count_flow t p = do {
     T \<leftarrow> space_saving p;
     T \<leftarrow> count_flows [t] T;
     Some (p\<lparr>space_saving := Some T\<rparr>)
   }"

section \<open>The states the process reaches\<close>

text \<open>
  The pointer to the detection is as \<open>main\<close> has left it when it starts the threads. \<open>n\<close> counts the control
  operations. They, and the timer's signals, are considered once the packet thread is up; a step that the
  process does not survive leads nowhere.
\<close>

inductive proc_reach ::
  "('h, 'f, 'b) lib \<Rightarrow> ('b \<Rightarrow> int set) \<Rightarrow> io_lib \<Rightarrow> mbuf_lib \<Rightarrow> std_lib \<Rightarrow> os_lib \<Rightarrow> string list
     \<Rightarrow> nat \<Rightarrow> ('h, 'f, 'b) proc \<Rightarrow> bool"
  for E us IO M L OS argv where
  born: "main_threads OS argv (main_g_zero k) = Some (Inr g) \<Longrightarrow> unborn (ag (th t)) \<Longrightarrow> thr_stat t = PTS_INIT \<Longrightarrow>
    proc_reach E us IO M L OS argv 0 \<lparr>p_thr = t, space_saving = g_detection g, sigalrm = False, itimer = None\<rparr>"
| pmd_up: "proc_reach E us IO M L OS argv n p \<Longrightarrow> thr_stat (p_thr p) = PTS_INIT \<Longrightarrow>
    pmd_thread_up E IO ok (p_thr p) = Some (Inr (c, t)) \<Longrightarrow> proc_reach E us IO M L OS argv n (p\<lparr>p_thr := t\<rparr>)"
| datagram: "proc_reach E us IO M L OS argv n p \<Longrightarrow> thr_stat (p_thr p) = PTS_RUNNING \<Longrightarrow>
    netio_rx E M rx (th (p_thr p)) = Some s \<Longrightarrow> proc_reach E us IO M L OS argv n (p\<lparr>p_thr := (p_thr p)\<lparr>th := s\<rparr>\<rparr>)"
| topk_up: "proc_reach E us IO M L OS argv n p \<Longrightarrow> proc_reach E us IO M L OS argv n (shc_topk_thread ret 5 p)"
| digest: "proc_reach E us IO M L OS argv n p \<Longrightarrow> count_flow t p = Some p' \<Longrightarrow> proc_reach E us IO M L OS argv n p'"
| alarm: "proc_reach E us IO M L OS argv n p \<Longrightarrow> thr_stat (p_thr p) = PTS_RUNNING \<Longrightarrow> itimer p \<noteq> None \<Longrightarrow>
    alarm_tick E L p = Some p' \<Longrightarrow> proc_reach E us IO M L OS argv n p'"
| control: "proc_reach E us IO M L OS argv n p \<Longrightarrow> thr_stat (p_thr p) = PTS_RUNNING \<Longrightarrow>
    call_ok (spec_of E us (p_agent p)) op \<Longrightarrow> agent_do E op (p_agent p) = Some (r, s) \<Longrightarrow>
    proc_reach E us IO M L OS argv (n + 1) (set_agent s p)"
| unmap: "proc_reach E us IO M L OS argv n p \<Longrightarrow> thr_stat (p_thr p) = PTS_RUNNING \<Longrightarrow>
    shc_tunnel_unmap_vrf E type tid (p_agent p) = Some (r, s) \<Longrightarrow>
    proc_reach E us IO M L OS argv (n + 1) (set_agent s p)"
| rule: "proc_reach E us IO M L OS argv n p \<Longrightarrow> thr_stat (p_thr p) = PTS_RUNNING \<Longrightarrow>
    shc_swTohw_rule E vni src dst fl (p_agent p) = Some (r, s) \<Longrightarrow> proc_reach E us IO M L OS argv n (set_agent s p)"

section \<open>The threads keep the agent's states\<close>

lemma sw_to_hw_reach: "sw_to_hw E t fl s = Some s' \<Longrightarrow> agent_live E us IO M n s \<Longrightarrow> agent_live E us IO M n s'"
  by (auto simp: sw_to_hw_def intro: agent_live.flow)

lemma diff_loop_reach:
  assumes "diff_loop E old_s new_s i j s = Some s'" "agent_live E us IO M n s"
  shows "agent_live E us IO M n s'"
proof -
  have "agent_live E us IO M n s \<longrightarrow> agent_live E us IO M n s'"
    by (rule diff_loop.raw_induct [OF _ assms(1), where P = "\<lambda>E old_s new_s i j s s'. agent_live E us IO M n s \<longrightarrow> agent_live E us IO M n s'"])
      (auto split: if_split_asm Option.bind_split_asm; blast intro: sw_to_hw_reach)
  then show ?thesis using assms(2) ..
qed

lemma alarm_tick_reach:
  assumes "alarm_tick E L p = Some p'" "agent_live E us IO M n (p_agent p)"
  shows "agent_live E us IO M n (p_agent p')"
  using assms diff_loop_reach [of E _ _ _ _ "p_agent p" _ us IO M n]
  by (auto simp: alarm_tick_def diff_cmp_def split: Option.bind_split_asm prod.split_asm)

lemma alarm_tick_stat: "alarm_tick E L p = Some p' \<Longrightarrow> thr_stat (p_thr p') = thr_stat (p_thr p)"
  by (auto simp: alarm_tick_def split: Option.bind_split_asm prod.split_asm)

lemma count_flow_same: "count_flow t p = Some p' \<Longrightarrow> p_thr p' = p_thr p"
  by (auto simp: count_flow_def split: Option.bind_split_asm)

lemma pmd_thread_up_reach:
  assumes "pmd_thread_up E IO ok t = Some (Inr (c, t'))" "unborn (ag (th t))"
  shows "thr_stat t' = PTS_RUNNING" "agent_live E us IO M 0 (ag (th t'))"
proof -
  obtain slot cs where cs: "shc_pmd_ctx_create PACKET_MAX ok (pmd_ctxs_tbl (ag (th t))) = (slot, cs)" by fastforce
  have u: "unborn ((ag (th t))\<lparr>pmd_ctxs_tbl := cs\<rparr>)" using assms(2) by (simp add: unborn_def)
  from assms(1) cs obtain ctx ret s where
    i: "shc_dp_init E IO ctx io_ctx_zero ((ag (th t))\<lparr>pmd_ctxs_tbl := cs\<rparr>) = Some (Inr (ret, c, s))"
    and t': "t' = t\<lparr>th := (th t)\<lparr>ag := s\<rparr>, thr_stat := PTS_RUNNING\<rparr>"
    by (auto simp: pmd_thread_up_def shc_pmd_thr_stat_set_def Let_def split: option.split_asm Option.bind_split_asm sum.split_asm if_split_asm prod.split_asm)
  then have "ret = 0"
    by (auto simp: shc_dp_init_def or_exit_def Let_def split: sum.split_asm if_split_asm Option.bind_split_asm prod.split_asm)
  then show "thr_stat t' = PTS_RUNNING" "agent_live E us IO M 0 (ag (th t'))"
    using i t' agent_live.start [OF u] by simp_all
qed

text \<open>
  Before the packet thread is up, the agent's tables are as the process was born; from then on they are in a
  state the agent reaches.
\<close>

lemma proc_reach_agent:
  assumes "proc_reach E us IO M L OS argv n p"
  shows "thr_stat (p_thr p) = PTS_INIT \<and> unborn (p_agent p) \<and> n = 0 \<or>
    thr_stat (p_thr p) = PTS_RUNNING \<and> agent_live E us IO M n (p_agent p)"
  using assms
proof (induction rule: proc_reach.induct)
  case (pmd_up n p ok c t)
  then show ?case using pmd_thread_up_reach [OF pmd_up(3)] by auto
next
  case (datagram n p rx s)
  then show ?case using agent_live.packet by auto
next
  case (alarm n p p')
  then show ?case using alarm_tick_reach alarm_tick_stat by fastforce
next
  case (control n p op r s)
  then show ?case using agent_live.control by fastforce
next
  case (unmap n p type tid r s)
  then show ?case using agent_live.unmap by fastforce
next
  case (rule n p vni src dst fl r s)
  then show ?case using agent_live.flow by fastforce
next
  case (digest n p t p')
  then show ?case using count_flow_same by fastforce
qed (auto simp: shc_topk_thread_def)

lemma proc_reach_no_detection:
  assumes "proc_reach E us IO M L OS argv n p" shows "space_saving p = None"
  using assms
proof (induction rule: proc_reach.induct)
  case (born k g t)
  then show ?case using main_threads_detection by simp
qed (auto simp: shc_topk_thread_def count_flow_def alarm_tick_def)

section \<open>The agent in the process\<close>

text \<open>
  Datagrams, rules and control operations, the threads coming up in any order: once the packet thread is up
  the agent is in a state of \<open>agent_live\<close>, so its VRFs and routes are sound together.
\<close>

lemma process_keeps_agent:
  assumes "agent_laws E us fm fd hpos" "creates_ok E" "proc_reach E us IO M L OS argv n p" "n < 2 ^ 32"
    and "thr_stat (p_thr p) = PTS_RUNNING"
  shows "vrf_inv (p_agent p) \<and> route_inv E us fm (p_agent p)"
proof -
  have "agent_live E us IO M n (p_agent p)" using proc_reach_agent [OF assms(3)] assms(5) by auto
  then show ?thesis using live_invD(2,3) [OF live_sound [OF assms(1,2) _ assms(4)]] by simp
qed

text \<open>The detection as \<open>hal_init\<close> makes it, when no flow has been counted.\<close>

lemma fresh_dump:
  assumes "std_laws L" "head2_zero g" "100000 \<le> length f1"
  obtains T where "top_k_dump L (space_saving_init g f1 f2) = Some (0, T)" "table_flows (old_table T) []" "table_flows (new_table T) []"
proof -
  let ?T = "space_saving_init g f1 f2"
  have K: "sv_K (sv ?T) = 100000" "ft_data (old_table ?T) = Some f1" "new_table ?T = flow_table_init f2"
    "sv_ss (sv ?T) = ss_clear (ssummary_new ss_M g)"
    by (simp_all add: space_saving_init_def spacesaving_new_def top_K_def flow_table_init_def)
  have inv: "ss_inv (sv_ss (sv ?T)) [] (\<lambda>_. []) (\<lambda>_. [])"
    unfolding K(4) using assms(2) by (intro ss_clear_inv) (simp add: head2_zero_def ssummary_new_def)
  have tot: "ss_tot (sv_ss (sv ?T)) \<le> int MAX_MEM + 10" by (simp add: K(4) ss_clear_def)
  from top_k_dump_run [OF assms(1) inv tot K(2)] assms(3) K(1) obtain T where T: "top_k_dump L ?T = Some (0, T)"
    "old_table T = flow_table_init f2" "used_flows (new_table T) = Some (dumped_flows L 100000 [])"
    by (auto simp: K(3) nodes_of_def)
  have e: "dumped_flows L 100000 [] = []" using length_dumped_flows [OF assms(1), of 100000 "[]"] by simp
  from T(1) obtain q t where f: "fill_table L q (sv_K (sv ?T)) t = Some (new_table T)"
    by (auto simp: top_k_dump_def work_def Let_def bind_eq_Some_conv)
  have "used_bucket (new_table T) = 0"
    using fill_table_used [OF assms(1) f _ T(3)] by (simp add: K(1) e)
  then have "table_flows (new_table T) []" using T(3) by (simp add: table_flows_def e)
  moreover have "table_flows (old_table T) []" by (simp add: T(2) table_flows_def used_flows_def flow_table_init_def)
  ultimately show thesis using T(1) that by blast
qed

lemma fresh_tick:
  assumes "std_laws L" "head2_zero g" "100000 \<le> length f1" "space_saving p = Some (space_saving_init g f1 f2)"
  shows "\<exists>p'. alarm_tick E L p = Some p' \<and> p_agent p' = p_agent p"
proof -
  obtain T where T: "top_k_dump L (space_saving_init g f1 f2) = Some (0, T)" "table_flows (old_table T) []" "table_flows (new_table T) []"
    using fresh_dump [OF assms(1-3)] .
  have "diff_loop E (old_table T) (new_table T) 0 0 (p_agent p) = Some (p_agent p)"
    using T(2,3) by (subst diff_loop.simps) (simp add: table_flows_def)
  then show ?thesis using T(1) by (simp add: alarm_tick_def assms(4) diff_cmp_def hal_topk_dump_def)
qed

text \<open>
  C4. \<open>main\<close> starts the threads without having run \<open>hal_init\<close> (the call is commented out), and no other step of
  the process makes the detection. So in every state the process reaches, whatever the command line and
  the operating system's answers were and whatever datagrams, rules and control operations came (the callers'
  promises are those of \<open>agent_live\<close>), the tick of the timer that \<open>main\<close>'s second thread arms dereferences the NULL pointer to the detection.
\<close>

theorem process_tick_faults:
  assumes "proc_reach E us IO M L OS argv n p"
  shows "space_saving p = None \<and> alarm_tick E L p = None"
  using proc_reach_no_detection [OF assms] by (simp add: alarm_tick_def)

section \<open>Instances\<close>

text \<open>A process whose packet thread comes up with the tables of \<open>lib0\<close>.\<close>

definition thr0 :: "(slots, alist_fib, int list) thr" where
  "thr0 = \<lparr>th = pmd_of (agent0\<lparr>g_shc_vrf_n := 0, pmd_ctxs_tbl := replicate 8 None\<rparr>), thr_stat = PTS_INIT\<rparr>"

lemma lib0_process:
  "\<exists>p. proc_reach (lib0 4) set io0 mlib0 std0 os0 argv0 0 p \<and> thr_stat (p_thr p) = PTS_RUNNING \<and>
     itimer p = Some (5, 5) \<and> spec_of (lib0 4) set (p_agent p) = spec_start"
proof -
  let ?p0 = "shc_topk_thread 0 5 \<lparr>p_thr = thr0, space_saving = None, sigalrm = False, itimer = None\<rparr>"
  let ?s0 = "(ag (th thr0))\<lparr>pmd_ctxs_tbl := (replicate 8 None)[0 := Some (shc_pmd_ctx_zero PACKET_MAX)]\<rparr>"
  have "unborn (ag (th thr0))" by (simp add: thr0_def pmd_of_def unborn_def)
  then have p0: "proc_reach (lib0 4) set io0 mlib0 std0 os0 argv0 0 ?p0"
    using proc_reach.born [OF main_threads0, of thr0 "lib0 4" set io0 mlib0 std0]
    by (intro proc_reach.topk_up) (simp add: thr0_def main_g_zero_def)
  have s0: "unborn ?s0" by (simp add: thr0_def pmd_of_def unborn_def)
  moreover have "shc_dp_eal_init io0 (shc_pmd_ctx_zero PACKET_MAX) = Inr 0"
    by (simp add: shc_dp_eal_init_def shc_pmd_ctx_zero_def io0_def Let_def)
  ultimately obtain c' s' where s': "shc_dp_init (lib0 4) io0 (shc_pmd_ctx_zero PACKET_MAX) io_ctx_zero ?s0 = Some (Inr (0, c', s'))"
    using shc_dp_init_run [OF route_laws_lib0 laws_lib0(2) s0, where IO = io0 and ctx = "shc_pmd_ctx_zero PACKET_MAX"
        and c = io_ctx_zero] by auto
  let ?t = "thr0\<lparr>th := (th thr0)\<lparr>ag := s'\<rparr>, thr_stat := PTS_RUNNING\<rparr>"
  have "shc_pmd_ctx_create PACKET_MAX True (replicate 8 None) = (Some 0, (replicate 8 None)[0 := Some (shc_pmd_ctx_zero PACKET_MAX)])"
    by (simp add: shc_pmd_ctx_create_def shc_pmd_ctx_zero_def eval_nat_numeral)
  then have "pmd_thread_up (lib0 4) io0 True (p_thr ?p0) = Some (Inr (c', ?t))"
    using s' by (simp add: pmd_thread_up_def shc_pmd_thr_stat_set_def Let_def shc_topk_thread_def thr0_def pmd_of_def eval_nat_numeral)
  then have "proc_reach (lib0 4) set io0 mlib0 std0 os0 argv0 0 (?p0\<lparr>p_thr := ?t\<rparr>)"
    by (intro proc_reach.pmd_up [OF p0]) (simp_all add: shc_topk_thread_def thr0_def)
  then show ?thesis
    using agent_start_sound(2) [OF route_laws_lib0 laws_lib0(2) s0 s'] by (intro exI conjI) (auto simp: shc_topk_thread_def)
qed

lemma process_tick_faults_witness:
  "\<exists>p. proc_reach (lib0 4) set io0 mlib0 std0 os0 argv0 0 p \<and> thr_stat (p_thr p) = PTS_RUNNING \<and>
     itimer p = Some (5, 5) \<and> alarm_tick (lib0 4) std0 p = None"
  using lib0_process process_tick_faults by blast

end
