(* ===== verification/Bfrt.thy ===== *)
theory Bfrt
  imports Agent_Types
begin

text \<open>
  The switch vendor's run-time interface (\<open>bfrt\<close>) as the drivers under \<open>platform/drivers\<close> use it, a
  parameter of the model with its documented laws; the object that every driver class keeps; and the
  contract of a hardware table, a locale whose lemmas hold for each of the six drivers.
\<close>

section \<open>The vendor's interface\<close>

text \<open>
  A key object maps field identifiers to values; a data object also has an action. A reset key has all its
  fields 0.
\<close>

type_synonym bf_key = "u32 \<Rightarrow> u64"

record bf_data =
  bd_action :: u32
  bd_vals :: "u32 \<Rightarrow> u64"

definition key_reset :: bf_key where "key_reset = (\<lambda>_. 0)"
definition data_reset :: "u32 \<Rightarrow> bf_data" where "data_reset a = \<lparr>bd_action = a, bd_vals = (\<lambda>_. 0)\<rparr>"

text \<open>
  The calls, on the state \<open>'d\<close> of the device. A lookup or an allocation gives a status, 0 for
  \<open>BF_SUCCESS\<close>, with its result; identifiers and tables are numbers. The identifier allocators of
  \<open>bfutils\<close> are part of the device's state, known by handles. \<open>bf_assert_on\<close> says whether \<open>bf_sys_assert\<close>
  is compiled in.
\<close>

record 'd bfrt =
  bf_assert_on :: bool
  BF_STS_MAX :: int
  bfrtTableFromNameGet :: "string \<Rightarrow> int \<times> u32"
  keyFieldIdGet :: "u32 \<Rightarrow> string \<Rightarrow> int \<times> u32"
  actionIdGet :: "u32 \<Rightarrow> string \<Rightarrow> int \<times> u32"
  dataFieldIdGet :: "u32 \<Rightarrow> string \<Rightarrow> u32 \<Rightarrow> int \<times> u32"
  bf_tableSizeGet :: "u32 \<Rightarrow> 'd \<Rightarrow> int \<times> u64"
  keyAllocate :: "u32 \<Rightarrow> int"
  dataAllocate :: "u32 \<Rightarrow> int"
  key_setValue :: "u32 \<Rightarrow> u32 \<Rightarrow> u64 \<Rightarrow> int"
  data_setValue :: "u32 \<Rightarrow> u32 \<Rightarrow> u32 \<Rightarrow> u64 \<Rightarrow> int"
  bf_tableEntryAdd :: "u32 \<Rightarrow> bf_key \<Rightarrow> bf_data \<Rightarrow> 'd \<Rightarrow> int \<times> 'd"
  bf_tableEntryMod :: "u32 \<Rightarrow> bf_key \<Rightarrow> bf_data \<Rightarrow> 'd \<Rightarrow> int \<times> 'd"
  bf_tableEntryDel :: "u32 \<Rightarrow> bf_key \<Rightarrow> 'd \<Rightarrow> int \<times> 'd"
  bf_tableEntryGet :: "u32 \<Rightarrow> bf_key \<Rightarrow> 'd \<Rightarrow> int \<times> bf_data"
  bf_tableUsageGet :: "u32 \<Rightarrow> 'd \<Rightarrow> int \<times> u32"
  data_actionIdGet :: "bf_data \<Rightarrow> int \<times> u32"
  data_getValue :: "bf_data \<Rightarrow> u32 \<Rightarrow> int \<times> u64"
  bf_id_allocator_new :: "u64 \<Rightarrow> bool \<Rightarrow> 'd \<Rightarrow> u32 \<times> 'd"
  bf_id_allocator_allocate :: "u32 \<Rightarrow> 'd \<Rightarrow> int \<times> 'd"
  bf_id_allocator_release :: "u32 \<Rightarrow> u32 \<Rightarrow> 'd \<Rightarrow> 'd"

definition bf_sys_assert :: "'d bfrt \<Rightarrow> bool \<Rightarrow> unit option" where
  "bf_sys_assert B c = (if bf_assert_on B \<and> \<not> c then None else Some ())"

lemma bf_sys_assert_True [simp]: "bf_sys_assert B True = Some ()"
  by (simp add: bf_sys_assert_def)

section \<open>The object of a driver class\<close>

text \<open>
  The members that the classes have in common: the table, the identifiers of the key fields and of the
  action's data fields in the order the constructor looks them up, the action, the table's size, and the
  identifier allocator of those classes that have one.
\<close>

record driver =
  table_ptr :: u32
  key_field_ids :: "u32 list"
  action_id :: u32
  data_field_ids :: "u32 list"
  driver_size :: u64
  id_generator :: u32

text \<open>
  A lookup of a constructor: its status is asserted; the member it would have written is 0 when it fails.
  Without the table the next call goes through NULL.
\<close>

definition id_of :: "'d bfrt \<Rightarrow> int \<times> u32 \<Rightarrow> u32 option" where
  "id_of B r = do { bf_sys_assert B (fst r = 0); Some (if fst r = 0 then snd r else 0) }"

definition table_of_name :: "'d bfrt \<Rightarrow> string \<Rightarrow> u32 option" where
  "table_of_name B n = (let r = bfrtTableFromNameGet B n in if fst r = 0 then Some (snd r) else None)"

fun ids_of :: "'d bfrt \<Rightarrow> (string \<Rightarrow> int \<times> u32) \<Rightarrow> string list \<Rightarrow> u32 list option" where
  "ids_of B f [] = Some []"
| "ids_of B f (x # xs) = do { i \<leftarrow> id_of B (f x); is \<leftarrow> ids_of B f xs; Some (i # is) }"

text \<open>The size goes through a \<open>uint32_t\<close>.\<close>

definition size_of_table :: "'d bfrt \<Rightarrow> u32 \<Rightarrow> 'd \<Rightarrow> u64 option" where
  "size_of_table B t d = do {
     let (st, n) = bf_tableSizeGet B t d;
     bf_sys_assert B (st = 0);
     Some (ucast (ucast n :: u32))
   }"

definition alloc_buffers :: "'d bfrt \<Rightarrow> u32 \<Rightarrow> unit option" where
  "alloc_buffers B t = do { bf_sys_assert B (keyAllocate B t = 0); bf_sys_assert B (dataAllocate B t = 0) }"

text \<open>One \<open>setValue\<close> on the class's key or data object, by the position of its field.\<close>

definition set_key :: "'d bfrt \<Rightarrow> driver \<Rightarrow> nat \<Rightarrow> u64 \<Rightarrow> bf_key \<Rightarrow> bf_key option" where
  "set_key B dr i v k = do {
     let fid = key_field_ids dr ! i;
     let st = key_setValue B (table_ptr dr) fid v;
     bf_sys_assert B (st = 0);
     Some (if st = 0 then k(fid := v) else k)
   }"

definition set_data :: "'d bfrt \<Rightarrow> driver \<Rightarrow> nat \<Rightarrow> u64 \<Rightarrow> bf_data \<Rightarrow> bf_data option" where
  "set_data B dr i v dt = do {
     let fid = data_field_ids dr ! i;
     let st = data_setValue B (table_ptr dr) (bd_action dt) fid v;
     bf_sys_assert B (st = 0);
     Some (if st = 0 then dt\<lparr>bd_vals := (bd_vals dt)(fid := v)\<rparr> else dt)
   }"

definition get_data :: "'d bfrt \<Rightarrow> driver \<Rightarrow> nat \<Rightarrow> bf_data \<Rightarrow> (int \<times> u64) option" where
  "get_data B dr i dt = do {
     let (st, v) = data_getValue B dt (data_field_ids dr ! i);
     bf_sys_assert B (st = 0);
     Some (st, v)
   }"

fun set_all :: "(nat \<Rightarrow> u64 \<Rightarrow> 'a \<Rightarrow> 'a option) \<Rightarrow> (nat \<times> u64) list \<Rightarrow> 'a \<Rightarrow> 'a option" where
  "set_all f [] x = Some x"
| "set_all f ((i, v) # ivs) x = Option.bind (f i v x) (set_all f ivs)"

section \<open>The documented laws\<close>

text \<open>
  \<open>vents t d\<close> is the content of table \<open>t\<close> in the device's state \<open>d\<close>. An operation that reports success has
  changed its own table accordingly; one that reports a failure has changed nothing. A field takes the values
  of its width, \<open>kw\<close> and \<open>dw\<close> bits, and no others.
\<close>

type_synonym 'd vents = "u32 \<Rightarrow> 'd \<Rightarrow> bf_key \<rightharpoonup> bf_data"

definition only_table :: "'d vents \<Rightarrow> u32 \<Rightarrow> 'd \<Rightarrow> (bf_key \<rightharpoonup> bf_data) \<Rightarrow> 'd \<Rightarrow> bool" where
  "only_table vents t d m d' \<longleftrightarrow> vents t d' = m \<and> (\<forall>u. u \<noteq> t \<longrightarrow> vents u d' = vents u d)"

definition entry_laws :: "'d bfrt \<Rightarrow> 'd vents \<Rightarrow> bool" where
  "entry_laws B vents \<longleftrightarrow>
     (\<forall>t k v d st d'. bf_tableEntryAdd B t k v d = (st, d') \<longrightarrow>
        (st = 0 \<longrightarrow> vents t d k = None) \<and> only_table vents t d (if st = 0 then (vents t d)(k \<mapsto> v) else vents t d) d') \<and>
     (\<forall>t k v d st d'. bf_tableEntryMod B t k v d = (st, d') \<longrightarrow>
        (st = 0 \<longrightarrow> vents t d k \<noteq> None) \<and> only_table vents t d (if st = 0 then (vents t d)(k \<mapsto> v) else vents t d) d') \<and>
     (\<forall>t k d st d'. bf_tableEntryDel B t k d = (st, d') \<longrightarrow>
        (st = 0 \<longrightarrow> vents t d k \<noteq> None) \<and> only_table vents t d (if st = 0 then (vents t d)(k := None) else vents t d) d') \<and>
     (\<forall>t k d st v. bf_tableEntryGet B t k d = (st, v) \<longrightarrow>
        (case vents t d k of None \<Rightarrow> st \<noteq> 0 | Some w \<Rightarrow> st = 0 \<and> v = w))"

definition field_laws :: "'d bfrt \<Rightarrow> (u32 \<Rightarrow> u32 \<Rightarrow> nat) \<Rightarrow> (u32 \<Rightarrow> u32 \<Rightarrow> nat) \<Rightarrow> bool" where
  "field_laws B kw dw \<longleftrightarrow>
     (\<forall>t i v. key_setValue B t i v = 0 \<longleftrightarrow> unat v < 2 ^ kw t i) \<and>
     (\<forall>t a i v. data_setValue B t a i v = 0 \<longleftrightarrow> unat v < 2 ^ dw t i) \<and>
     (\<forall>dt i. data_getValue B dt i = (0, bd_vals dt i)) \<and>
     (\<forall>dt. fst (data_actionIdGet B dt) = 0)"

text \<open>
  A driver object whose constructor found \<open>nk\<close> key fields and \<open>nd\<close> data fields, all different.
\<close>

definition driver_ok :: "nat \<Rightarrow> nat \<Rightarrow> driver \<Rightarrow> bool" where
  "driver_ok nk nd dr \<longleftrightarrow>
     length (key_field_ids dr) = nk \<and> distinct (key_field_ids dr) \<and>
     nd \<le> length (data_field_ids dr) \<and> distinct (data_field_ids dr)"

section \<open>Filling an object\<close>

fun fill_fields :: "u32 list \<Rightarrow> (nat \<times> u64) list \<Rightarrow> (u32 \<Rightarrow> u64) \<Rightarrow> (u32 \<Rightarrow> u64)" where
  "fill_fields fids [] k = k"
| "fill_fields fids ((i, v) # ivs) k = fill_fields fids ivs (k(fids ! i := v))"

lemma set_all_key:
  assumes "field_laws B kw dw"
  shows "\<forall>(i, v) \<in> set ivs. unat v < 2 ^ kw (table_ptr dr) (key_field_ids dr ! i) \<Longrightarrow>
    set_all (set_key B dr) ivs k = Some (fill_fields (key_field_ids dr) ivs k)"
proof (induction ivs arbitrary: k)
  case (Cons iv ivs)
  then show ?case using assms by (cases iv) (simp add: set_key_def field_laws_def Let_def)
qed simp

lemma set_all_data:
  assumes "field_laws B kw dw"
  shows "\<forall>(i, v) \<in> set ivs. unat v < 2 ^ dw (table_ptr dr) (data_field_ids dr ! i) \<Longrightarrow>
    set_all (set_data B dr) ivs dt = Some (dt\<lparr>bd_vals := fill_fields (data_field_ids dr) ivs (bd_vals dt)\<rparr>)"
proof (induction ivs arbitrary: dt)
  case (Cons iv ivs)
  then show ?case using assms by (cases iv) (simp add: set_data_def field_laws_def Let_def)
qed simp

lemma fill_fields_other:
  "distinct fids \<Longrightarrow> i < length fids \<Longrightarrow> \<forall>j \<in> fst ` set ivs. j < length fids \<Longrightarrow> i \<notin> fst ` set ivs \<Longrightarrow>
     fill_fields fids ivs k (fids ! i) = k (fids ! i)"
  by (induction fids ivs k rule: fill_fields.induct) (auto simp: nth_eq_iff_index_eq)

lemma fill_fields_nth:
  "distinct fids \<Longrightarrow> \<forall>j \<in> fst ` set ivs. j < length fids \<Longrightarrow> distinct (map fst ivs) \<Longrightarrow> (i, v) \<in> set ivs \<Longrightarrow>
     fill_fields fids ivs k (fids ! i) = v"
proof (induction fids ivs k rule: fill_fields.induct)
  case (2 fids j w ivs k)
  show ?case
  proof (cases "i = j")
    case True
    then have "v = w" "i \<notin> fst ` set ivs" using 2(4,5) by force+
    then show ?thesis using True 2(2,3) fill_fields_other [of fids i ivs] by simp
  next
    case False
    then show ?thesis using 2 by (simp del: fun_upd_apply)
  qed
qed simp

text \<open>Objects filled alike were filled from the same values.\<close>

lemma fill_fields_inj:
  assumes "distinct fids" "map fst xs = [0..<length fids]" "map fst ys = [0..<length fids]"
    and "fill_fields fids xs k = fill_fields fids ys k"
  shows "xs = ys"
proof -
  have val: "snd (zs ! i) = fill_fields fids zs k (fids ! i)" if "map fst zs = [0..<length fids]" "i < length fids" for zs i
  proof -
    have l: "length zs = length fids" using that(1) by (metis length_map length_upt minus_nat.diff_0)
    have "fst (zs ! i) = i" using that l by (metis add_0 nth_map nth_upt)
    then have "(i, snd (zs ! i)) \<in> set zs" using that(2) l by (metis nth_mem prod.collapse)
    moreover have "\<forall>j \<in> fst ` set zs. j < length fids" using that(1) by (metis atLeastLessThan_iff image_set set_upt)
    ultimately show ?thesis using fill_fields_nth [OF assms(1)] that(1) by (metis distinct_upt)
  qed
  have "length xs = length fids" "length ys = length fids"
    using assms(2,3) by (metis length_map length_upt minus_nat.diff_0)+
  then have "map snd xs = map snd ys"
    using val [OF assms(2)] val [OF assms(3)] assms(2-4) by (intro nth_equalityI) (auto dest: map_eq_imp_length_eq)
  then show ?thesis using assms(2,3) by (metis zip_map_fst_snd)
qed

text \<open>A value too wide for its field is refused; with the assertions on, the process ends there.\<close>

lemma set_key_too_wide:
  assumes "field_laws B kw dw" "bf_assert_on B" "2 ^ kw (table_ptr dr) (key_field_ids dr ! i) \<le> unat v"
  shows "set_key B dr i v k = None"
  using assms by (simp add: set_key_def field_laws_def bf_sys_assert_def Let_def not_less)

section \<open>The contract of a hardware table\<close>

text \<open>The operations that change a table, and what a sequence of them does to a map.\<close>

datatype ('k, 'v) hal_op = Op_add 'k 'v | Op_mod 'k 'v | Op_del 'k

fun run_op ::
  "('k \<Rightarrow> 'v \<Rightarrow> 'd \<Rightarrow> (int \<times> 'd) option) \<Rightarrow> ('k \<Rightarrow> 'v \<Rightarrow> 'd \<Rightarrow> (int \<times> 'd) option) \<Rightarrow> ('k \<Rightarrow> 'd \<Rightarrow> (int \<times> 'd) option) \<Rightarrow>
   ('k, 'v) hal_op \<Rightarrow> 'd \<Rightarrow> (int \<times> 'd) option" where
  "run_op add mdf del (Op_add k v) d = add k v d"
| "run_op add mdf del (Op_mod k v) d = mdf k v d"
| "run_op add mdf del (Op_del k) d = del k d"

text \<open>A sequence of operations, with the statuses they return.\<close>

fun run_ops ::
  "('k \<Rightarrow> 'v \<Rightarrow> 'd \<Rightarrow> (int \<times> 'd) option) \<Rightarrow> ('k \<Rightarrow> 'v \<Rightarrow> 'd \<Rightarrow> (int \<times> 'd) option) \<Rightarrow> ('k \<Rightarrow> 'd \<Rightarrow> (int \<times> 'd) option) \<Rightarrow>
   ('k, 'v) hal_op list \<Rightarrow> 'd \<Rightarrow> (int list \<times> 'd) option" where
  "run_ops add mdf del [] d = Some ([], d)"
| "run_ops add mdf del (p # ps) d = do {
     (st, d) \<leftarrow> run_op add mdf del p d;
     (sts, d) \<leftarrow> run_ops add mdf del ps d;
     Some (st # sts, d)
   }"

fun op_allowed :: "('k, 'v) hal_op \<Rightarrow> ('k \<rightharpoonup> 'v) \<Rightarrow> bool" where
  "op_allowed (Op_add k v) m = (m k = None)"
| "op_allowed (Op_mod k v) m = (m k \<noteq> None)"
| "op_allowed (Op_del k) m = (m k \<noteq> None)"

fun op_effect :: "('k, 'v) hal_op \<Rightarrow> ('k \<rightharpoonup> 'v) \<Rightarrow> ('k \<rightharpoonup> 'v)" where
  "op_effect (Op_add k v) m = m(k \<mapsto> v)"
| "op_effect (Op_mod k v) m = m(k \<mapsto> v)"
| "op_effect (Op_del k) m = m(k := None)"

fun map_ops :: "('k, 'v) hal_op list \<Rightarrow> int list \<Rightarrow> ('k \<rightharpoonup> 'v) \<Rightarrow> ('k \<rightharpoonup> 'v) option" where
  "map_ops [] [] m = Some m"
| "map_ops (p # ps) (st # sts) m =
     (if st \<noteq> 0 then map_ops ps sts m
      else if op_allowed p m then map_ops ps sts (op_effect p m)
      else None)"
| "map_ops _ _ m = None"

fun op_fits :: "('k \<Rightarrow> bool) \<Rightarrow> ('v \<Rightarrow> bool) \<Rightarrow> ('k, 'v) hal_op \<Rightarrow> bool" where
  "op_fits okk okv (Op_add k v) = (okk k \<and> okv v)"
| "op_fits okk okv (Op_mod k v) = (okk k \<and> okv v)"
| "op_fits okk okv (Op_del k) = okk k"

text \<open>
  \<open>ents d\<close> is the table as a map from the agent's keys to the agent's data; \<open>okk\<close> and \<open>okv\<close> are the keys and
  the data that the hardware's fields can hold; \<open>ok\<close> is the vendor's documented behaviour.
\<close>

locale hal_table =
  fixes add mdf :: "'k \<Rightarrow> 'v \<Rightarrow> 'd \<Rightarrow> (int \<times> 'd) option"
    and del :: "'k \<Rightarrow> 'd \<Rightarrow> (int \<times> 'd) option"
    and get :: "'k \<Rightarrow> 'd \<Rightarrow> (int \<times> 'v) option"
    and ents :: "'d \<Rightarrow> 'k \<rightharpoonup> 'v"
    and okk :: "'k \<Rightarrow> bool" and okv :: "'v \<Rightarrow> bool" and ok :: bool
  assumes add_law: "ok \<Longrightarrow> okk k \<Longrightarrow> okv v \<Longrightarrow> \<exists>st d'. add k v d = Some (st, d') \<and>
      (st = 0 \<longrightarrow> ents d k = None) \<and> ents d' = (if st = 0 then (ents d)(k \<mapsto> v) else ents d)"
    and mod_law: "ok \<Longrightarrow> okk k \<Longrightarrow> okv v \<Longrightarrow> \<exists>st d'. mdf k v d = Some (st, d') \<and>
      (st = 0 \<longrightarrow> ents d k \<noteq> None) \<and> ents d' = (if st = 0 then (ents d)(k \<mapsto> v) else ents d)"
    and del_law: "ok \<Longrightarrow> okk k \<Longrightarrow> \<exists>st d'. del k d = Some (st, d') \<and>
      (st = 0 \<longrightarrow> ents d k \<noteq> None) \<and> ents d' = (if st = 0 then (ents d)(k := None) else ents d)"
    and get_law: "ok \<Longrightarrow> okk k \<Longrightarrow> \<exists>st v. get k d = Some (st, v) \<and>
      (case ents d k of None \<Rightarrow> st \<noteq> 0 | Some w \<Rightarrow> st = 0 \<and> v = w)"
begin

lemma op_run:
  assumes "ok" "op_fits okk okv p"
  shows "\<exists>st d'. run_op add mdf del p d = Some (st, d') \<and> (st = 0 \<longrightarrow> op_allowed p (ents d)) \<and>
    ents d' = (if st = 0 then op_effect p (ents d) else ents d)"
proof (cases p)
  case (Op_add k v)
  then show ?thesis using add_law [of k v d] assms by (simp only: run_op.simps op_allowed.simps op_effect.simps op_fits.simps)
next
  case (Op_mod k v)
  then show ?thesis using mod_law [of k v d] assms by (simp only: run_op.simps op_allowed.simps op_effect.simps op_fits.simps)
next
  case (Op_del k)
  then show ?thesis using del_law [of k d] assms by (simp only: run_op.simps op_allowed.simps op_effect.simps op_fits.simps)
qed

text \<open>Every sequence of operations returns and does to the table what its statuses say.\<close>

lemma ops_refine:
  "ok \<Longrightarrow> \<forall>p \<in> set ps. op_fits okk okv p \<Longrightarrow>
     \<exists>sts d'. run_ops add mdf del ps d = Some (sts, d') \<and> map_ops ps sts (ents d) = Some (ents d')"
proof (induction ps arbitrary: d)
  case (Cons p ps)
  from op_run [OF Cons.prems(1), of p d] Cons.prems(2) obtain st d1 where
    p: "run_op add mdf del p d = Some (st, d1)" "st = 0 \<longrightarrow> op_allowed p (ents d)"
      "ents d1 = (if st = 0 then op_effect p (ents d) else ents d)" by auto
  from Cons.IH [of d1] Cons.prems obtain sts d2 where
    ps: "run_ops add mdf del ps d1 = Some (sts, d2)" "map_ops ps sts (ents d1) = Some (ents d2)" by auto
  show ?case using p ps by (intro exI [of _ "st # sts"] exI [of _ d2]) (cases "st = 0"; simp)
qed simp

lemma get_entry:
  assumes "ok" "okk k" "get k d = Some (st, v)"
  shows "st = 0 \<longleftrightarrow> ents d k \<noteq> None" "st = 0 \<Longrightarrow> ents d k = Some v"
  using get_law [OF assms(1,2), of d] assms(3) by (auto split: option.splits)

end

section \<open>Tables over coded keys and data\<close>

text \<open>
  A driver writes a key \<open>k\<close> as the key object \<open>enc k\<close> and reads a data object as \<open>dec\<close>. Its table is a map
  of the agent's keys when the coding of keys is injective.
\<close>

definition table_ents :: "'d vents \<Rightarrow> u32 \<Rightarrow> ('k \<Rightarrow> bf_key) \<Rightarrow> (bf_data \<Rightarrow> 'v) \<Rightarrow> 'd \<Rightarrow> 'k \<rightharpoonup> 'v" where
  "table_ents vents t enc dec d k = map_option dec (vents t d (enc k))"

lemma table_ents_put:
  assumes "inj enc" "vents t d' = (vents t d)(enc k \<mapsto> dt)"
  shows "table_ents vents t enc dec d' = (table_ents vents t enc dec d)(k \<mapsto> dec dt)"
  using assms by (intro ext) (simp add: table_ents_def inj_eq)

lemma table_ents_drop:
  assumes "inj enc" "vents t d' = (vents t d)(enc k := None)"
  shows "table_ents vents t enc dec d' = (table_ents vents t enc dec d)(k := None)"
  using assms by (intro ext) (simp add: table_ents_def inj_eq)

lemma table_ents_same: "vents t d' = vents t d \<Longrightarrow> table_ents vents t enc dec d' = table_ents vents t enc dec d"
  by (simp add: table_ents_def fun_eq_iff)

lemma entry_add:
  assumes "entry_laws B vents" "bf_tableEntryAdd B t k v d = (st, d')"
  shows "st = 0 \<longrightarrow> vents t d k = None" "only_table vents t d (if st = 0 then (vents t d)(k \<mapsto> v) else vents t d) d'"
  using assms unfolding entry_laws_def by metis+

lemma entry_mod:
  assumes "entry_laws B vents" "bf_tableEntryMod B t k v d = (st, d')"
  shows "st = 0 \<longrightarrow> vents t d k \<noteq> None" "only_table vents t d (if st = 0 then (vents t d)(k \<mapsto> v) else vents t d) d'"
  using assms unfolding entry_laws_def by metis+

lemma entry_del:
  assumes "entry_laws B vents" "bf_tableEntryDel B t k d = (st, d')"
  shows "st = 0 \<longrightarrow> vents t d k \<noteq> None" "only_table vents t d (if st = 0 then (vents t d)(k := None) else vents t d) d'"
  using assms unfolding entry_laws_def by metis+

lemma entry_get:
  assumes "entry_laws B vents" "bf_tableEntryGet B t k d = (st, v)"
  shows "case vents t d k of None \<Rightarrow> st \<noteq> 0 | Some w \<Rightarrow> st = 0 \<and> v = w"
  using assms unfolding entry_laws_def by metis

text \<open>What such a step makes of the table as the agent sees it.\<close>

lemma table_ents_step:
  assumes "inj enc" "only_table vents t d (if st = (0 :: int) then (vents t d)(enc k \<mapsto> dt) else vents t d) d'"
  shows "table_ents vents t enc dec d' =
    (if st = 0 then (table_ents vents t enc dec d)(k \<mapsto> dec dt) else table_ents vents t enc dec d)"
  using assms(2) table_ents_put [OF assms(1), of vents t d' d k dt dec] table_ents_same [of vents t d' d]
  by (cases "st = 0") (simp_all add: only_table_def)

lemma table_ents_step_drop:
  assumes "inj enc" "only_table vents t d (if st = (0 :: int) then (vents t d)(enc k := None) else vents t d) d'"
  shows "table_ents vents t enc dec d' =
    (if st = 0 then (table_ents vents t enc dec d)(k := None) else table_ents vents t enc dec d)"
  using assms(2) table_ents_drop [OF assms(1), of vents t d' d k dec] table_ents_same [of vents t d' d]
  by (cases "st = 0") (simp_all add: only_table_def)

text \<open>So a driver that codes its arguments and makes one call of the vendor keeps the contract.\<close>

lemma coded_table:
  assumes L: "ok \<Longrightarrow> entry_laws B vents" and inj: "ok \<Longrightarrow> inj enc"
    and add: "\<And>k v d. ok \<Longrightarrow> okk k \<Longrightarrow> okv v \<Longrightarrow> add k v d = Some (bf_tableEntryAdd B t (enc k) (encd v) d)"
    and mdf: "\<And>k v d. ok \<Longrightarrow> okk k \<Longrightarrow> okv v \<Longrightarrow> mdf k v d = Some (bf_tableEntryMod B t (enc k) (encd v) d)"
    and del: "\<And>k d. ok \<Longrightarrow> okk k \<Longrightarrow> del k d = Some (bf_tableEntryDel B t (enc k) d)"
    and get: "\<And>k d st dt. ok \<Longrightarrow> okk k \<Longrightarrow> bf_tableEntryGet B t (enc k) d = (st, dt) \<Longrightarrow>
      \<exists>v. get k d = Some (st, v) \<and> (st = 0 \<longrightarrow> v = dec dt)"
    and dec: "\<And>v. ok \<Longrightarrow> okv v \<Longrightarrow> dec (encd v) = v"
  shows "hal_table add mdf del get (table_ents vents t enc dec) okk okv ok"
proof
  fix k v d
  assume ok: "ok" "okk k" "okv v"
  obtain st d' where r: "bf_tableEntryAdd B t (enc k) (encd v) d = (st, d')" by fastforce
  show "\<exists>st d'. add k v d = Some (st, d') \<and> (st = 0 \<longrightarrow> table_ents vents t enc dec d k = None) \<and>
    table_ents vents t enc dec d' = (if st = 0 then (table_ents vents t enc dec d)(k \<mapsto> v) else table_ents vents t enc dec d)"
    using entry_add(1) [OF L [OF ok(1)] r] table_ents_step [OF inj [OF ok(1)] entry_add(2) [OF L [OF ok(1)] r], of dec]
    by (intro exI [of _ st] exI [of _ d']) (simp only: add [OF ok] r dec [OF ok(1,3)] table_ents_def option.map_disc_iff simp_thms)
  obtain st d' where r: "bf_tableEntryMod B t (enc k) (encd v) d = (st, d')" by fastforce
  show "\<exists>st d'. mdf k v d = Some (st, d') \<and> (st = 0 \<longrightarrow> table_ents vents t enc dec d k \<noteq> None) \<and>
    table_ents vents t enc dec d' = (if st = 0 then (table_ents vents t enc dec d)(k \<mapsto> v) else table_ents vents t enc dec d)"
    using entry_mod(1) [OF L [OF ok(1)] r] table_ents_step [OF inj [OF ok(1)] entry_mod(2) [OF L [OF ok(1)] r], of dec]
    by (intro exI [of _ st] exI [of _ d'])
      (simp only: mdf [OF ok] r dec [OF ok(1,3)] table_ents_def option.map_disc_iff simp_thms)
next
  fix k d
  assume ok: "ok" "okk k"
  obtain st d' where r: "bf_tableEntryDel B t (enc k) d = (st, d')" by fastforce
  show "\<exists>st d'. del k d = Some (st, d') \<and> (st = 0 \<longrightarrow> table_ents vents t enc dec d k \<noteq> None) \<and>
    table_ents vents t enc dec d' = (if st = 0 then (table_ents vents t enc dec d)(k := None) else table_ents vents t enc dec d)"
    using entry_del(1) [OF L [OF ok(1)] r] table_ents_step_drop [OF inj [OF ok(1)] entry_del(2) [OF L [OF ok(1)] r], of dec]
    by (intro exI [of _ st] exI [of _ d']) (simp only: del [OF ok] r table_ents_def option.map_disc_iff simp_thms)
  obtain st dt where r: "bf_tableEntryGet B t (enc k) d = (st, dt)" by fastforce
  show "\<exists>st v. get k d = Some (st, v) \<and> (case table_ents vents t enc dec d k of None \<Rightarrow> st \<noteq> 0 | Some w \<Rightarrow> st = 0 \<and> v = w)"
    using entry_get [OF L [OF ok(1)] r] get [OF ok r] by (auto simp: table_ents_def split: option.splits)
qed

end
