(* ===== verification/Mac_Word.thy ===== *)
theory Mac_Word
  imports Agent_Types
begin

text \<open>
  MAC addresses as the hardware drivers pass them on: \<open>mac_array_to_uint64\<close> and \<open>uint64_to_mac_array\<close> of
  \<open>platform/drivers/neigh.cpp\<close> (and, with the same bodies, of \<open>port_for_mac.cpp\<close>), between the six
  bytes of an address and a 64-bit word.
\<close>

section \<open>The conversions\<close>

text \<open>The loop of the variable \<open>i\<close> from 6 down to 1; the array has six elements.\<close>

primrec mac_loop :: "nat \<Rightarrow> mac \<Rightarrow> u64 \<Rightarrow> u64" where
  "mac_loop 0 from' dst = dst"
| "mac_loop (Suc j) from' dst = mac_loop j from' (dst + push_bit ((6 - Suc j) * 8) (ucast (from' ! j)))"

definition mac_array_to_uint64 :: "mac \<Rightarrow> u64" where
  "mac_array_to_uint64 from' = mac_loop 6 from' 0"

definition uint64_to_mac_array :: "u64 \<Rightarrow> mac" where
  "uint64_to_mac_array from' =
     [ucast (drop_bit 40 from'), ucast (drop_bit 32 from'), ucast (drop_bit 24 from'), ucast (drop_bit 16 from'),
      ucast (drop_bit 8 from'), ucast from']"

section \<open>They are inverse to each other\<close>

lemma add_high:
  fixes a b :: u64
  assumes "take_bit k a = a"
  shows "a + push_bit k b = a OR push_bit k b"
proof (rule disjunctive_add)
  fix n
  have "bit a n = (n < k \<and> bit a n)" using assms by (metis bit_take_bit_iff)
  then show "\<not> bit a n \<or> \<not> bit (push_bit k b) n" by (auto simp: bit_push_bit_iff)
qed

lemma bit_byte: "bit (b :: u8) n \<Longrightarrow> n < 8"
  using bit_imp_le_length [of b n] by simp

lemma take_bit_or_push:
  fixes a :: u64 and b :: u8
  assumes "take_bit k a = a" "m = k + 8"
  shows "take_bit m (a OR push_bit k (ucast b)) = a OR push_bit k (ucast b)"
proof (rule bit_eqI)
  fix n
  assume "possible_bit TYPE(64 word) n"
  have a: "bit a n \<Longrightarrow> n < k" using assms(1) by (metis bit_take_bit_iff)
  show "bit (take_bit m (a OR push_bit k (ucast b))) n = bit (a OR push_bit k (ucast b)) n"
    using a bit_byte [of b "n - k"] assms(2) by (auto simp: bit_simps)
qed

text \<open>The six bytes, with no carry between them.\<close>

lemma mac_word_or:
  "mac_array_to_uint64 [a, b, c, d, e, f] =
     (((((ucast f OR push_bit 8 (ucast e)) OR push_bit 16 (ucast d)) OR push_bit 24 (ucast c)) OR push_bit 32 (ucast b)) OR
      push_bit 40 (ucast a))"
proof -
  have 0: "take_bit 8 (ucast f :: u64) = ucast f" using bit_byte [of f] by (intro bit_eqI) (auto simp: bit_simps)
  note s1 = add_high [OF 0, of "ucast e"] take_bit_or_push [OF 0, of 16 e, simplified numeral_plus_numeral num.simps add_num_simps, OF refl]
  note s2 = add_high [OF s1(2), of "ucast d"] take_bit_or_push [OF s1(2), of 24 d, simplified numeral_plus_numeral num.simps add_num_simps, OF refl]
  note s3 = add_high [OF s2(2), of "ucast c"] take_bit_or_push [OF s2(2), of 32 c, simplified numeral_plus_numeral num.simps add_num_simps, OF refl]
  note s4 = add_high [OF s3(2), of "ucast b"] take_bit_or_push [OF s3(2), of 40 b, simplified numeral_plus_numeral num.simps add_num_simps, OF refl]
  note s5 = add_high [OF s4(2), of "ucast a"]
  have "mac_array_to_uint64 [a, b, c, d, e, f] =
    ucast f + push_bit 8 (ucast e) + push_bit 16 (ucast d) + push_bit 24 (ucast c) + push_bit 32 (ucast b) + push_bit 40 (ucast a)"
    by (simp add: mac_array_to_uint64_def numeral_eq_Suc)
  then show ?thesis unfolding s1(1) s2(1) s3(1) s4(1) s5 .
qed

lemma bit_shifted:
  fixes y :: u8
  assumes "k \<le> 40"
  shows "bit (push_bit k (ucast y :: u64)) n \<longleftrightarrow> k \<le> n \<and> n < k + 8 \<and> bit y (n - k)"
  using assms bit_byte [of y "n - k"] by (auto simp: bit_simps)

lemma bit_mac_word:
  "bit (mac_array_to_uint64 [a, b, c, d, e, f]) n \<longleftrightarrow>
     (if n < 8 then bit f n else if n < 16 then bit e (n - 8) else if n < 24 then bit d (n - 16)
      else if n < 32 then bit c (n - 24) else if n < 40 then bit b (n - 32) else bit a (n - 40))"
  unfolding mac_word_or bit_or_iff bit_shifted [of 0 f, simplified] bit_shifted [of 8, simplified] bit_shifted [of 16, simplified] bit_shifted [of 24, simplified]
    bit_shifted [of 32, simplified] bit_shifted [of 40, simplified]
  using bit_byte [of a "n - 40"] by auto

lemma mac_listE:
  assumes "length m = 6"
  obtains a b c d e f where "m = [a, b, c, d, e, f]"
  using assms by (auto simp: numeral_eq_Suc length_Suc_conv)

lemma mac_word_array:
  assumes "length m = 6"
  shows "uint64_to_mac_array (mac_array_to_uint64 m) = m"
proof -
  obtain a b c d e f where m: "m = [a, b, c, d, e, f]" using mac_listE [OF assms] .
  have "ucast (drop_bit (8 * k) (mac_array_to_uint64 m)) = (m ! (5 - k))" if "k < 6" for k
  proof (rule bit_eqI)
    fix n
    assume "possible_bit TYPE(8 word) n"
    then have "n < 8" by simp
    moreover have "k = 0 \<or> k = 1 \<or> k = 2 \<or> k = 3 \<or> k = 4 \<or> k = 5" using that by auto
    ultimately show "bit (ucast (drop_bit (8 * k) (mac_array_to_uint64 m)) :: u8) n = bit (m ! (5 - k)) n"
      by (elim disjE) (simp_all add: m bit_simps bit_mac_word)
  qed
  from this [of 0] this [of 1] this [of 2] this [of 3] this [of 4] this [of 5] show ?thesis
    by (simp add: uint64_to_mac_array_def m)
qed

lemma mac_array_word:
  assumes "take_bit 48 w = w"
  shows "mac_array_to_uint64 (uint64_to_mac_array w) = w"
proof (rule bit_eqI)
  fix n
  assume "possible_bit TYPE(64 word) n"
  have "bit w n \<Longrightarrow> n < 48" using assms by (metis bit_take_bit_iff)
  then show "bit (mac_array_to_uint64 (uint64_to_mac_array w)) n = bit w n"
    unfolding uint64_to_mac_array_def bit_mac_word by (auto simp: bit_simps)
qed

lemma length_mac_array [simp]: "length (uint64_to_mac_array w) = 6"
  by (simp add: uint64_to_mac_array_def)

lemma mac_word_48: "length m = 6 \<Longrightarrow> unat (mac_array_to_uint64 m) < 2 ^ 48"
proof -
  assume "length m = 6"
  then obtain a b c d e f where m: "m = [a, b, c, d, e, f]" by (rule mac_listE)
  have "take_bit 48 (mac_array_to_uint64 m) = mac_array_to_uint64 m"
    using bit_byte [of a] by (intro bit_eqI) (fastforce simp: bit_take_bit_iff m bit_mac_word)
  then show ?thesis by (metis take_bit_nat_less_exp unsigned_take_bit_eq)
qed

text \<open>
  C17. The two conversions are inverse to each other: an address of six bytes survives the way to the
  hardware's 48-bit field and back, and so does every value of the field.
\<close>

theorem mac_word_roundtrip:
  "(length m = 6 \<longrightarrow> uint64_to_mac_array (mac_array_to_uint64 m) = m) \<and>
   (unat w < 2 ^ 48 \<longrightarrow> mac_array_to_uint64 (uint64_to_mac_array w) = w)"
proof -
  have "take_bit 48 w = w" if "unat w < 2 ^ 48"
    using that by (intro word_unat_eq_iff [THEN iffD2]) (simp add: unsigned_take_bit_eq take_bit_nat_eq_self)
  then show ?thesis using mac_word_array mac_array_word by blast
qed

lemma mac_word_roundtrip_witness:
  "uint64_to_mac_array (mac_array_to_uint64 [0x11, 0x22, 0x33, 0x44, 0x55, 0x77]) = [0x11, 0x22, 0x33, 0x44, 0x55, 0x77] \<and>
   mac_array_to_uint64 (uint64_to_mac_array 0x112233445588) = 0x112233445588"
  using mac_word_roundtrip [of "[0x11, 0x22, 0x33, 0x44, 0x55, 0x77]" "0x112233445588"] by simp

end
