(* ===== verification/Hal_Tables.thy ===== *)
theory Hal_Tables
  imports Bfrt Mac_Word
begin

text \<open>
  The driver classes of \<open>platform/drivers\<close>, one per hardware table: \<open>TunnelMapVrf\<close>, \<open>Route\<close>, \<open>RouteSele\<close>,
  \<open>NHop\<close>, \<open>Neigh\<close> (here \<open>NeighTable\<close>) and \<open>PortForMac\<close>. A driver's object is fixed after its constructor:
  the buffers for key and data are reset before every use. A method is a function of the device's state;
  \<open>None\<close> is a failed \<open>bf_sys_assert\<close>.
\<close>

section \<open>The tables' types\<close>

fun tunnel_type_code :: "hal_tunnel_key_type \<Rightarrow> int" where
  "tunnel_type_code TYPE_TUNNEL_TYPE_NONE = 0"
| "tunnel_type_code TYPE_TUNNEL_TYPE_VXLAN = 1"
| "tunnel_type_code TYPE_TUNNEL_TYPE_GRE = 2"

record hal_route_sele_key =
  hk_vni :: u32
  hk_sele_src_addr :: u32
  hk_sele_dst_addr :: u32

record hal_port_for_mac_key =
  hk_port :: u16

record hal_port_for_mac_data =
  hd_port_smac :: mac
  hd_port_dmac :: mac

text \<open>The statuses of the agent's own follow those of the vendor, so they are positive.\<close>

definition HAL_STATUS_FIRST_TEST :: "'d bfrt \<Rightarrow> int" where "HAL_STATUS_FIRST_TEST B = BF_STS_MAX B"
definition HAL_STATUS_FAILURE :: "'d bfrt \<Rightarrow> int" where "HAL_STATUS_FAILURE B = BF_STS_MAX B + 1"
definition HAL_ALREADY_EXISTS :: "'d bfrt \<Rightarrow> int" where "HAL_ALREADY_EXISTS B = BF_STS_MAX B + 2"
definition HAL_NO_SPACE :: "'d bfrt \<Rightarrow> int" where "HAL_NO_SPACE B = BF_STS_MAX B + 3"
definition HAL_INVALID_ARG :: "'d bfrt \<Rightarrow> int" where "HAL_INVALID_ARG B = BF_STS_MAX B + 4"
definition HAL_NOT_SUPPORTED :: "'d bfrt \<Rightarrow> int" where "HAL_NOT_SUPPORTED B = BF_STS_MAX B + 5"
definition HAL_OBJECT_NOT_FOUND :: "'d bfrt \<Rightarrow> int" where "HAL_OBJECT_NOT_FOUND B = BF_STS_MAX B + 6"

text \<open>
  In each class \<open>key_words\<close> and \<open>data_words\<close> list the \<open>setValue\<close> calls of \<open>KeySetUp\<close> and \<open>DataSetUp\<close> in
  their order: the position of the field among the identifiers of the constructor, and the value. An
  identifier of \<open>AllocOid\<close> is written only when one was allocated.
\<close>

section \<open>TunnelMapVrf\<close>

definition TunnelMapVrf_key_words :: "hal_tunnel_map_vrf_key \<Rightarrow> (nat \<times> u64) list" where
  "TunnelMapVrf_key_words key = [(0, of_int (tunnel_type_code (hk_tunnel_type key))), (1, ucast (hk_tunnel_key key))]"

definition TunnelMapVrf_data_words :: "hal_tunnel_map_vrf_data \<Rightarrow> (nat \<times> u64) list" where
  "TunnelMapVrf_data_words data = [(0, ucast (hd_vrf data))]"

definition TunnelMapVrf_KeySetUp :: "'d bfrt \<Rightarrow> driver \<Rightarrow> hal_tunnel_map_vrf_key \<Rightarrow> bf_key \<Rightarrow> bf_key option" where
  "TunnelMapVrf_KeySetUp B dr key = set_all (set_key B dr) (TunnelMapVrf_key_words key)"

definition TunnelMapVrf_DataSetUp :: "'d bfrt \<Rightarrow> driver \<Rightarrow> hal_tunnel_map_vrf_data \<Rightarrow> bf_data \<Rightarrow> bf_data option" where
  "TunnelMapVrf_DataSetUp B dr data = set_all (set_data B dr) (TunnelMapVrf_data_words data)"

definition TunnelMapVrf_new :: "'d bfrt \<Rightarrow> 'd \<Rightarrow> driver option" where
  "TunnelMapVrf_new B d = do {
     t \<leftarrow> table_of_name B ''pipe.ShcIngress.tunnel_map_vrf_tbl'';
     kids \<leftarrow> ids_of B (keyFieldIdGet B t) [''ig_md.type'', ''hdr.vxlan.vni''];
     act \<leftarrow> id_of B (actionIdGet B t ''ShcIngress.tunnel_map_vrf'');
     dids \<leftarrow> ids_of B (\<lambda>x. dataFieldIdGet B t x act) [''vrf''];
     n \<leftarrow> size_of_table B t d;
     alloc_buffers B t;
     Some \<lparr>table_ptr = t, key_field_ids = kids, action_id = act, data_field_ids = dids, driver_size = n, id_generator = 0\<rparr>
   }"

definition TunnelMapVrf_tableEntryAddModify ::
  "'d bfrt \<Rightarrow> driver \<Rightarrow> hal_tunnel_map_vrf_key \<Rightarrow> hal_tunnel_map_vrf_data \<Rightarrow> bool \<Rightarrow> 'd \<Rightarrow> (int \<times> 'd) option" where
  "TunnelMapVrf_tableEntryAddModify B dr key data is_add d = do {
     dt \<leftarrow> TunnelMapVrf_DataSetUp B dr data (data_reset (action_id dr));
     k \<leftarrow> TunnelMapVrf_KeySetUp B dr key key_reset;
     Some (if is_add then bf_tableEntryAdd B (table_ptr dr) k dt d else bf_tableEntryMod B (table_ptr dr) k dt d)
   }"

definition TunnelMapVrf_tableEntryGet ::
  "'d bfrt \<Rightarrow> driver \<Rightarrow> hal_tunnel_map_vrf_key \<Rightarrow> 'd \<Rightarrow> (int \<times> hal_tunnel_map_vrf_data) option" where
  "TunnelMapVrf_tableEntryGet B dr key d = do {
     k \<leftarrow> TunnelMapVrf_KeySetUp B dr key key_reset;
     let (st, dt) = bf_tableEntryGet B (table_ptr dr) k d;
     if st \<noteq> 0 then Some (st, \<lparr>hd_vrf = - 1\<rparr>)
     else do {
       bf_sys_assert B (fst (data_actionIdGet B dt) = 0);
       (st, vrf) \<leftarrow> get_data B dr 0 dt;
       Some (st, \<lparr>hd_vrf = ucast vrf\<rparr>)
     }
   }"

definition TunnelMapVrf_tableEntryDel :: "'d bfrt \<Rightarrow> driver \<Rightarrow> hal_tunnel_map_vrf_key \<Rightarrow> 'd \<Rightarrow> (int \<times> 'd) option" where
  "TunnelMapVrf_tableEntryDel B dr key d = do {
     k \<leftarrow> TunnelMapVrf_KeySetUp B dr key key_reset;
     Some (bf_tableEntryDel B (table_ptr dr) k d)
   }"

definition TunnelMapVrf_tableUsageGet :: "'d bfrt \<Rightarrow> driver \<Rightarrow> 'd \<Rightarrow> int \<times> u32" where
  "TunnelMapVrf_tableUsageGet B dr d = bf_tableUsageGet B (table_ptr dr) d"

definition TunnelMapVrf_tableSizeGet :: "driver \<Rightarrow> int \<times> u32" where
  "TunnelMapVrf_tableSizeGet dr = (0, ucast (driver_size dr))"

section \<open>Route\<close>

definition Route_key_words :: "hal_route_key \<Rightarrow> (nat \<times> u64) list" where
  "Route_key_words key = [(0, ucast (hk_vrf key)), (1, ucast (hk_ip_src_addr key)), (2, ucast (hk_ip_dst_addr key))]"

definition Route_data_words :: "hal_route_data \<Rightarrow> (nat \<times> u64) list" where
  "Route_data_words data = [(0, ucast (hd_nhop_id data))]"

definition Route_KeySetUp :: "'d bfrt \<Rightarrow> driver \<Rightarrow> hal_route_key \<Rightarrow> bf_key \<Rightarrow> bf_key option" where
  "Route_KeySetUp B dr key = set_all (set_key B dr) (Route_key_words key)"

definition Route_DataSetUp :: "'d bfrt \<Rightarrow> driver \<Rightarrow> hal_route_data \<Rightarrow> bf_data \<Rightarrow> bf_data option" where
  "Route_DataSetUp B dr data = set_all (set_data B dr) (Route_data_words data)"

definition Route_new :: "'d bfrt \<Rightarrow> 'd \<Rightarrow> driver option" where
  "Route_new B d = do {
     t \<leftarrow> table_of_name B ''pipe.ShcIngress.route_tbl'';
     kids \<leftarrow> ids_of B (keyFieldIdGet B t) [''ig_md.vrf'', ''hdr.inner_ipv4.src_addr'', ''hdr.inner_ipv4.dst_addr''];
     act \<leftarrow> id_of B (actionIdGet B t ''ShcIngress.route_for_nexthop'');
     dids \<leftarrow> ids_of B (\<lambda>x. dataFieldIdGet B t x act) [''nhop_id''];
     n \<leftarrow> size_of_table B t d;
     alloc_buffers B t;
     Some \<lparr>table_ptr = t, key_field_ids = kids, action_id = act, data_field_ids = dids, driver_size = n, id_generator = 0\<rparr>
   }"

definition Route_tableEntryAddModify ::
  "'d bfrt \<Rightarrow> driver \<Rightarrow> hal_route_key \<Rightarrow> hal_route_data \<Rightarrow> bool \<Rightarrow> 'd \<Rightarrow> (int \<times> 'd) option" where
  "Route_tableEntryAddModify B dr key data is_add d = do {
     dt \<leftarrow> Route_DataSetUp B dr data (data_reset (action_id dr));
     k \<leftarrow> Route_KeySetUp B dr key key_reset;
     Some (if is_add then bf_tableEntryAdd B (table_ptr dr) k dt d else bf_tableEntryMod B (table_ptr dr) k dt d)
   }"

definition Route_tableEntryGet ::
  "'d bfrt \<Rightarrow> driver \<Rightarrow> hal_route_key \<Rightarrow> 'd \<Rightarrow> (int \<times> hal_route_data) option" where
  "Route_tableEntryGet B dr key d = do {
     k \<leftarrow> Route_KeySetUp B dr key key_reset;
     let (st, dt) = bf_tableEntryGet B (table_ptr dr) k d;
     if st \<noteq> 0 then Some (st, \<lparr>hd_nhop_id = - 1\<rparr>)
     else do {
       bf_sys_assert B (fst (data_actionIdGet B dt) = 0);
       (st, nhop_id) \<leftarrow> get_data B dr 0 dt;
       Some (st, \<lparr>hd_nhop_id = ucast nhop_id\<rparr>)
     }
   }"

definition Route_tableEntryDel :: "'d bfrt \<Rightarrow> driver \<Rightarrow> hal_route_key \<Rightarrow> 'd \<Rightarrow> (int \<times> 'd) option" where
  "Route_tableEntryDel B dr key d = do {
     k \<leftarrow> Route_KeySetUp B dr key key_reset;
     Some (bf_tableEntryDel B (table_ptr dr) k d)
   }"

definition Route_tableUsageGet :: "'d bfrt \<Rightarrow> driver \<Rightarrow> 'd \<Rightarrow> int \<times> u32" where
  "Route_tableUsageGet B dr d = bf_tableUsageGet B (table_ptr dr) d"

definition Route_tableSizeGet :: "driver \<Rightarrow> int \<times> u32" where
  "Route_tableSizeGet dr = (0, ucast (driver_size dr))"

section \<open>RouteSele\<close>

definition RouteSele_key_words :: "hal_route_sele_key \<Rightarrow> (nat \<times> u64) list" where
  "RouteSele_key_words key = [(0, ucast (hk_vni key)), (1, ucast (hk_sele_src_addr key)), (2, ucast (hk_sele_dst_addr key))]"

definition RouteSele_data_words :: "hal_route_data \<Rightarrow> (nat \<times> u64) list" where
  "RouteSele_data_words data = [(0, ucast (hd_nhop_id data))]"

definition RouteSele_KeySetUp :: "'d bfrt \<Rightarrow> driver \<Rightarrow> hal_route_sele_key \<Rightarrow> bf_key \<Rightarrow> bf_key option" where
  "RouteSele_KeySetUp B dr key = set_all (set_key B dr) (RouteSele_key_words key)"

definition RouteSele_DataSetUp :: "'d bfrt \<Rightarrow> driver \<Rightarrow> hal_route_data \<Rightarrow> bf_data \<Rightarrow> bf_data option" where
  "RouteSele_DataSetUp B dr data = set_all (set_data B dr) (RouteSele_data_words data)"

definition RouteSele_new :: "'d bfrt \<Rightarrow> 'd \<Rightarrow> driver option" where
  "RouteSele_new B d = do {
     t \<leftarrow> table_of_name B ''pipe.ShcIngress.route_sele_tbl'';
     kids \<leftarrow> ids_of B (keyFieldIdGet B t) [''ig_md.vni'', ''hdr.inner_ipv4.src_addr'', ''hdr.inner_ipv4.dst_addr''];
     act \<leftarrow> id_of B (actionIdGet B t ''ShcIngress.route_sele_for_nexthop'');
     _ \<leftarrow> id_of B (actionIdGet B t ''ShcIngress.route_sele_for_miss'');
     dids \<leftarrow> ids_of B (\<lambda>x. dataFieldIdGet B t x act) [''nhop_id'', ''$ENTRY_TTL''];
     n \<leftarrow> size_of_table B t d;
     alloc_buffers B t;
     Some \<lparr>table_ptr = t, key_field_ids = kids, action_id = act, data_field_ids = dids, driver_size = n, id_generator = 0\<rparr>
   }"

definition RouteSele_tableEntryAddModify ::
  "'d bfrt \<Rightarrow> driver \<Rightarrow> hal_route_sele_key \<Rightarrow> hal_route_data \<Rightarrow> bool \<Rightarrow> 'd \<Rightarrow> (int \<times> 'd) option" where
  "RouteSele_tableEntryAddModify B dr key data is_add d = do {
     dt \<leftarrow> RouteSele_DataSetUp B dr data (data_reset (action_id dr));
     k \<leftarrow> RouteSele_KeySetUp B dr key key_reset;
     Some (if is_add then bf_tableEntryAdd B (table_ptr dr) k dt d else bf_tableEntryMod B (table_ptr dr) k dt d)
   }"

definition RouteSele_tableEntryGet ::
  "'d bfrt \<Rightarrow> driver \<Rightarrow> hal_route_sele_key \<Rightarrow> 'd \<Rightarrow> (int \<times> hal_route_data) option" where
  "RouteSele_tableEntryGet B dr key d = do {
     k \<leftarrow> RouteSele_KeySetUp B dr key key_reset;
     let (st, dt) = bf_tableEntryGet B (table_ptr dr) k d;
     if st \<noteq> 0 then Some (st, \<lparr>hd_nhop_id = - 1\<rparr>)
     else do {
       bf_sys_assert B (fst (data_actionIdGet B dt) = 0);
       (st, nhop_id) \<leftarrow> get_data B dr 0 dt;
       Some (st, \<lparr>hd_nhop_id = ucast nhop_id\<rparr>)
     }
   }"

definition RouteSele_tableEntryDel :: "'d bfrt \<Rightarrow> driver \<Rightarrow> hal_route_sele_key \<Rightarrow> 'd \<Rightarrow> (int \<times> 'd) option" where
  "RouteSele_tableEntryDel B dr key d = do {
     k \<leftarrow> RouteSele_KeySetUp B dr key key_reset;
     Some (bf_tableEntryDel B (table_ptr dr) k d)
   }"

definition RouteSele_tableUsageGet :: "'d bfrt \<Rightarrow> driver \<Rightarrow> 'd \<Rightarrow> int \<times> u32" where
  "RouteSele_tableUsageGet B dr d = bf_tableUsageGet B (table_ptr dr) d"

definition RouteSele_tableSizeGet :: "driver \<Rightarrow> int \<times> u32" where
  "RouteSele_tableSizeGet dr = (0, ucast (driver_size dr))"

section \<open>NHop\<close>

definition NHop_key_words :: "hal_nhop_key \<Rightarrow> (nat \<times> u64) list" where
  "NHop_key_words key = [(0, ucast (hk_nhop_id key))]"

definition NHop_data_words :: "hal_nhop_data \<Rightarrow> (nat \<times> u64) list" where
  "NHop_data_words data = [(0, ucast (hd_tunnel_key data)), (1, ucast (hd_local data)), (2, ucast (hd_remote data)), (3, ucast (hd_neigh_id data))]"

definition NHop_KeySetUp :: "'d bfrt \<Rightarrow> driver \<Rightarrow> hal_nhop_key \<Rightarrow> bf_key \<Rightarrow> bf_key option" where
  "NHop_KeySetUp B dr key = set_all (set_key B dr) (NHop_key_words key)"

definition NHop_DataSetUp :: "'d bfrt \<Rightarrow> driver \<Rightarrow> hal_nhop_data \<Rightarrow> bf_data \<Rightarrow> bf_data option" where
  "NHop_DataSetUp B dr data = set_all (set_data B dr) (NHop_data_words data)"

definition NHop_new :: "'d bfrt \<Rightarrow> 'd \<Rightarrow> (driver \<times> 'd) option" where
  "NHop_new B d = do {
     t \<leftarrow> table_of_name B ''pipe.ShcIngress.nhop_tbl'';
     kids \<leftarrow> ids_of B (keyFieldIdGet B t) [''ig_md.nhop_id''];
     act \<leftarrow> id_of B (actionIdGet B t ''ShcIngress.nhop'');
     dids \<leftarrow> ids_of B (\<lambda>x. dataFieldIdGet B t x act) [''vni'', ''local'', ''remote'', ''neigh_id''];
     n \<leftarrow> size_of_table B t d;
     alloc_buffers B t;
     let (g, d) = bf_id_allocator_new B n False d;
     Some (\<lparr>table_ptr = t, key_field_ids = kids, action_id = act, data_field_ids = dids, driver_size = n, id_generator = g\<rparr>, d)
   }"

definition NHop_tableEntryAddModify ::
  "'d bfrt \<Rightarrow> driver \<Rightarrow> hal_nhop_key \<Rightarrow> hal_nhop_data \<Rightarrow> bool \<Rightarrow> 'd \<Rightarrow> (int \<times> 'd) option" where
  "NHop_tableEntryAddModify B dr key data is_add d = do {
     dt \<leftarrow> NHop_DataSetUp B dr data (data_reset (action_id dr));
     k \<leftarrow> NHop_KeySetUp B dr key key_reset;
     Some (if is_add then bf_tableEntryAdd B (table_ptr dr) k dt d else bf_tableEntryMod B (table_ptr dr) k dt d)
   }"

definition NHop_tableEntryGet ::
  "'d bfrt \<Rightarrow> driver \<Rightarrow> hal_nhop_key \<Rightarrow> 'd \<Rightarrow> (int \<times> hal_nhop_data) option" where
  "NHop_tableEntryGet B dr key d = do {
     k \<leftarrow> NHop_KeySetUp B dr key key_reset;
     let (st, dt) = bf_tableEntryGet B (table_ptr dr) k d;
     if st \<noteq> 0 then Some (st, \<lparr>hd_tunnel_key = - 1, hd_local = 0, hd_remote = 0, hd_neigh_id = - 1\<rparr>)
     else do {
       bf_sys_assert B (fst (data_actionIdGet B dt) = 0);
       (st, vni) \<leftarrow> get_data B dr 0 dt;
       (st, local) \<leftarrow> get_data B dr 1 dt;
       (st, remote) \<leftarrow> get_data B dr 2 dt;
       (st, neigh_id) \<leftarrow> get_data B dr 3 dt;
       Some (st, \<lparr>hd_tunnel_key = ucast vni, hd_local = ucast local, hd_remote = ucast remote, hd_neigh_id = ucast neigh_id\<rparr>)
     }
   }"

definition NHop_tableEntryDel :: "'d bfrt \<Rightarrow> driver \<Rightarrow> hal_nhop_key \<Rightarrow> 'd \<Rightarrow> (int \<times> 'd) option" where
  "NHop_tableEntryDel B dr key d = do {
     k \<leftarrow> NHop_KeySetUp B dr key key_reset;
     Some (bf_tableEntryDel B (table_ptr dr) k d)
   }"

definition NHop_tableUsageGet :: "'d bfrt \<Rightarrow> driver \<Rightarrow> 'd \<Rightarrow> int \<times> u32" where
  "NHop_tableUsageGet B dr d = bf_tableUsageGet B (table_ptr dr) d"

definition NHop_tableSizeGet :: "driver \<Rightarrow> int \<times> u32" where
  "NHop_tableSizeGet dr = (0, ucast (driver_size dr))"

definition NHop_AllocOid :: "'d bfrt \<Rightarrow> driver \<Rightarrow> 'd \<Rightarrow> int \<times> u32 option \<times> 'd" where
  "NHop_AllocOid B dr d =
     (let (id, d) = bf_id_allocator_allocate B (id_generator dr) d
      in if id = - 1 \<or> (of_int id :: u64) > driver_size dr then (HAL_NO_SPACE B, None, d) else (0, Some (of_int id), d))"

definition NHop_FreeOid :: "'d bfrt \<Rightarrow> driver \<Rightarrow> u32 \<Rightarrow> 'd \<Rightarrow> int \<times> 'd" where
  "NHop_FreeOid B dr oid d = (0, bf_id_allocator_release B (id_generator dr) oid d)"

section \<open>Neigh\<close>

definition NeighTable_key_words :: "hal_neigh_key \<Rightarrow> (nat \<times> u64) list" where
  "NeighTable_key_words key = [(0, ucast (hk_neigh_id key))]"

definition NeighTable_data_words :: "hal_neigh_data \<Rightarrow> (nat \<times> u64) list" where
  "NeighTable_data_words data = [(0, mac_array_to_uint64 (hd_dmac data))]"

definition NeighTable_KeySetUp :: "'d bfrt \<Rightarrow> driver \<Rightarrow> hal_neigh_key \<Rightarrow> bf_key \<Rightarrow> bf_key option" where
  "NeighTable_KeySetUp B dr key = set_all (set_key B dr) (NeighTable_key_words key)"

definition NeighTable_DataSetUp :: "'d bfrt \<Rightarrow> driver \<Rightarrow> hal_neigh_data \<Rightarrow> bf_data \<Rightarrow> bf_data option" where
  "NeighTable_DataSetUp B dr data = set_all (set_data B dr) (NeighTable_data_words data)"

definition NeighTable_new :: "'d bfrt \<Rightarrow> 'd \<Rightarrow> (driver \<times> 'd) option" where
  "NeighTable_new B d = do {
     t \<leftarrow> table_of_name B ''pipe.ShcIngress.neigh_tbl'';
     kids \<leftarrow> ids_of B (keyFieldIdGet B t) [''ig_md.meta.neigh_id''];
     act \<leftarrow> id_of B (actionIdGet B t ''ShcIngress.neigh'');
     dids \<leftarrow> ids_of B (\<lambda>x. dataFieldIdGet B t x act) [''dmac''];
     n \<leftarrow> size_of_table B t d;
     alloc_buffers B t;
     let (g, d) = bf_id_allocator_new B n False d;
     Some (\<lparr>table_ptr = t, key_field_ids = kids, action_id = act, data_field_ids = dids, driver_size = n, id_generator = g\<rparr>, d)
   }"

definition NeighTable_tableEntryAddModify ::
  "'d bfrt \<Rightarrow> driver \<Rightarrow> hal_neigh_key \<Rightarrow> hal_neigh_data \<Rightarrow> bool \<Rightarrow> 'd \<Rightarrow> (int \<times> 'd) option" where
  "NeighTable_tableEntryAddModify B dr key data is_add d = do {
     dt \<leftarrow> NeighTable_DataSetUp B dr data (data_reset (action_id dr));
     k \<leftarrow> NeighTable_KeySetUp B dr key key_reset;
     Some (if is_add then bf_tableEntryAdd B (table_ptr dr) k dt d else bf_tableEntryMod B (table_ptr dr) k dt d)
   }"

definition NeighTable_tableEntryGet ::
  "'d bfrt \<Rightarrow> driver \<Rightarrow> hal_neigh_key \<Rightarrow> 'd \<Rightarrow> (int \<times> hal_neigh_data) option" where
  "NeighTable_tableEntryGet B dr key d = do {
     k \<leftarrow> NeighTable_KeySetUp B dr key key_reset;
     let (st, dt) = bf_tableEntryGet B (table_ptr dr) k d;
     if st \<noteq> 0 then Some (st, \<lparr>hd_dmac = uint64_to_mac_array 0\<rparr>)
     else do {
       bf_sys_assert B (fst (data_actionIdGet B dt) = 0);
       (st, dmac) \<leftarrow> get_data B dr 0 dt;
       Some (0, \<lparr>hd_dmac = uint64_to_mac_array dmac\<rparr>)
     }
   }"

definition NeighTable_tableEntryDel :: "'d bfrt \<Rightarrow> driver \<Rightarrow> hal_neigh_key \<Rightarrow> 'd \<Rightarrow> (int \<times> 'd) option" where
  "NeighTable_tableEntryDel B dr key d = do {
     k \<leftarrow> NeighTable_KeySetUp B dr key key_reset;
     Some (bf_tableEntryDel B (table_ptr dr) k d)
   }"

definition NeighTable_tableUsageGet :: "'d bfrt \<Rightarrow> driver \<Rightarrow> 'd \<Rightarrow> int \<times> u32" where
  "NeighTable_tableUsageGet B dr d = bf_tableUsageGet B (table_ptr dr) d"

definition NeighTable_tableSizeGet :: "driver \<Rightarrow> int \<times> u32" where
  "NeighTable_tableSizeGet dr = (0, ucast (driver_size dr))"

definition NeighTable_AllocOid :: "'d bfrt \<Rightarrow> driver \<Rightarrow> 'd \<Rightarrow> int \<times> u32 option \<times> 'd" where
  "NeighTable_AllocOid B dr d =
     (let (id, d) = bf_id_allocator_allocate B (id_generator dr) d
      in if id = - 1 \<or> (of_int id :: u64) > driver_size dr then (HAL_NO_SPACE B, None, d) else (0, Some (of_int id), d))"

definition NeighTable_FreeOid :: "'d bfrt \<Rightarrow> driver \<Rightarrow> u32 \<Rightarrow> 'd \<Rightarrow> int \<times> 'd" where
  "NeighTable_FreeOid B dr oid d = (0, bf_id_allocator_release B (id_generator dr) oid d)"

section \<open>PortForMac\<close>

definition PortForMac_key_words :: "hal_port_for_mac_key \<Rightarrow> (nat \<times> u64) list" where
  "PortForMac_key_words key = [(0, ucast (hk_port key))]"

definition PortForMac_data_words :: "hal_port_for_mac_data \<Rightarrow> (nat \<times> u64) list" where
  "PortForMac_data_words data = [(1, mac_array_to_uint64 (hd_port_dmac data)), (0, mac_array_to_uint64 (hd_port_smac data))]"

definition PortForMac_KeySetUp :: "'d bfrt \<Rightarrow> driver \<Rightarrow> hal_port_for_mac_key \<Rightarrow> bf_key \<Rightarrow> bf_key option" where
  "PortForMac_KeySetUp B dr key = set_all (set_key B dr) (PortForMac_key_words key)"

definition PortForMac_DataSetUp :: "'d bfrt \<Rightarrow> driver \<Rightarrow> hal_port_for_mac_data \<Rightarrow> bf_data \<Rightarrow> bf_data option" where
  "PortForMac_DataSetUp B dr data = set_all (set_data B dr) (PortForMac_data_words data)"

definition PortForMac_new :: "'d bfrt \<Rightarrow> 'd \<Rightarrow> driver option" where
  "PortForMac_new B d = do {
     t \<leftarrow> table_of_name B ''pipe.ShcIngress.port_for_mac_tbl'';
     kids \<leftarrow> ids_of B (keyFieldIdGet B t) [''ig_md.meta.port''];
     act \<leftarrow> id_of B (actionIdGet B t ''ShcIngress.port_for_mac'');
     _ \<leftarrow> id_of B (actionIdGet B t ''ShcIngress.fake_mac_for_outer'');
     dids \<leftarrow> ids_of B (\<lambda>x. dataFieldIdGet B t x act) [''smac'', ''dmac''];
     n \<leftarrow> size_of_table B t d;
     alloc_buffers B t;
     Some \<lparr>table_ptr = t, key_field_ids = kids, action_id = act, data_field_ids = dids, driver_size = n, id_generator = 0\<rparr>
   }"

definition PortForMac_tableEntryAddModify ::
  "'d bfrt \<Rightarrow> driver \<Rightarrow> hal_port_for_mac_key \<Rightarrow> hal_port_for_mac_data \<Rightarrow> bool \<Rightarrow> 'd \<Rightarrow> (int \<times> 'd) option" where
  "PortForMac_tableEntryAddModify B dr key data is_add d = do {
     dt \<leftarrow> PortForMac_DataSetUp B dr data (data_reset (action_id dr));
     k \<leftarrow> PortForMac_KeySetUp B dr key key_reset;
     Some (if is_add then bf_tableEntryAdd B (table_ptr dr) k dt d else bf_tableEntryMod B (table_ptr dr) k dt d)
   }"

definition PortForMac_tableEntryGet ::
  "'d bfrt \<Rightarrow> driver \<Rightarrow> hal_port_for_mac_key \<Rightarrow> hal_port_for_mac_data \<Rightarrow> 'd \<Rightarrow> (int \<times> hal_port_for_mac_data) option" where
  "PortForMac_tableEntryGet B dr key data d = do {
     k \<leftarrow> PortForMac_KeySetUp B dr key key_reset;
     let (st, dt) = bf_tableEntryGet B (table_ptr dr) k d;
     if st \<noteq> 0 then Some (st, data\<lparr>hd_port_dmac := uint64_to_mac_array 0\<rparr>)
     else do {
       bf_sys_assert B (fst (data_actionIdGet B dt) = 0);
       (st, smac) \<leftarrow> get_data B dr 0 dt;
       (st, dmac) \<leftarrow> get_data B dr 1 dt;
       Some (st, \<lparr>hd_port_smac = uint64_to_mac_array smac, hd_port_dmac = uint64_to_mac_array dmac\<rparr>)
     }
   }"

definition PortForMac_tableEntryDel :: "'d bfrt \<Rightarrow> driver \<Rightarrow> hal_port_for_mac_key \<Rightarrow> 'd \<Rightarrow> (int \<times> 'd) option" where
  "PortForMac_tableEntryDel B dr key d = do {
     k \<leftarrow> PortForMac_KeySetUp B dr key key_reset;
     Some (bf_tableEntryDel B (table_ptr dr) k d)
   }"

definition PortForMac_tableUsageGet :: "'d bfrt \<Rightarrow> driver \<Rightarrow> 'd \<Rightarrow> int \<times> u32" where
  "PortForMac_tableUsageGet B dr d = bf_tableUsageGet B (table_ptr dr) d"

definition PortForMac_tableSizeGet :: "driver \<Rightarrow> int \<times> u32" where
  "PortForMac_tableSizeGet dr = (0, ucast (driver_size dr))"

section \<open>The contract\<close>

text \<open>
  Each class codes its key and its data injectively and makes one call of the vendor, so its operations
  keep the contract \<open>hal_table\<close>: for arguments that fit the fields, under the vendor's documented laws.
\<close>

definition fits :: "(u32 \<Rightarrow> nat) \<Rightarrow> u32 list \<Rightarrow> (nat \<times> u64) list \<Rightarrow> bool" where
  "fits w fids ivs \<longleftrightarrow> (\<forall>(i, v) \<in> set ivs. unat v < 2 ^ w (fids ! i))"

definition hal_ok :: "'d bfrt \<Rightarrow> 'd vents \<Rightarrow> (u32 \<Rightarrow> u32 \<Rightarrow> nat) \<Rightarrow> (u32 \<Rightarrow> u32 \<Rightarrow> nat) \<Rightarrow> nat \<Rightarrow> nat \<Rightarrow> driver \<Rightarrow> bool" where
  "hal_ok B vents kw dw nk nd dr \<longleftrightarrow> entry_laws B vents \<and> field_laws B kw dw \<and> driver_ok nk nd dr"

lemma hal_okD:
  assumes "hal_ok B vents kw dw nk nd dr"
  shows "entry_laws B vents" "field_laws B kw dw" "length (key_field_ids dr) = nk" "distinct (key_field_ids dr)"
    "nd \<le> length (data_field_ids dr)" "distinct (data_field_ids dr)"
  using assms by (simp_all add: hal_ok_def driver_ok_def)

lemma ucast_32_64 [simp]: "ucast (ucast (x :: u32) :: u64) = x"
  by (rule bit_eqI) (simp add: bit_simps)

lemma ucast_16_64 [simp]: "ucast (ucast (x :: u16) :: u64) = x"
  by (rule bit_eqI) (simp add: bit_simps)

lemma ucast_64_inj: "(ucast (x :: u32) :: u64) = ucast y \<longleftrightarrow> x = y" "(ucast (a :: u16) :: u64) = ucast b \<longleftrightarrow> a = b"
  by (metis ucast_32_64) (metis ucast_16_64)

lemma tunnel_type_code_inj: "(of_int (tunnel_type_code a) :: u64) = of_int (tunnel_type_code b) \<longleftrightarrow> a = b"
  by (cases a; cases b) auto

definition enc_words :: "driver \<Rightarrow> (nat \<times> u64) list \<Rightarrow> bf_key" where
  "enc_words dr ivs = fill_fields (key_field_ids dr) ivs key_reset"

definition enc_data :: "driver \<Rightarrow> (nat \<times> u64) list \<Rightarrow> bf_data" where
  "enc_data dr ivs = \<lparr>bd_action = action_id dr, bd_vals = fill_fields (data_field_ids dr) ivs (\<lambda>_. 0)\<rparr>"

lemma key_words_set:
  assumes "field_laws B kw dw" "fits (kw (table_ptr dr)) (key_field_ids dr) ivs"
  shows "set_all (set_key B dr) ivs key_reset = Some (enc_words dr ivs)"
  using set_all_key [OF assms(1)] assms(2) by (simp add: fits_def enc_words_def)

lemma data_words_set:
  assumes "field_laws B kw dw" "fits (dw (table_ptr dr)) (data_field_ids dr) ivs"
  shows "set_all (set_data B dr) ivs (data_reset (action_id dr)) = Some (enc_data dr ivs)"
  using set_all_data [OF assms(1)] assms(2) by (simp add: fits_def enc_data_def data_reset_def)

lemma enc_words_inj:
  assumes "hal_ok B vents kw dw nk nd dr" "\<And>k. map fst (f k) = [0..<nk]" "inj f"
  shows "inj (\<lambda>k. enc_words dr (f k))"
proof (rule injI)
  fix k l
  assume "enc_words dr (f k) = enc_words dr (f l)"
  then have "f k = f l"
    using fill_fields_inj [OF hal_okD(4) [OF assms(1)], of "f k" "f l" key_reset] assms(2) hal_okD(3) [OF assms(1)]
    by (simp add: enc_words_def)
  then show "k = l" using assms(3) by (simp add: inj_eq)
qed

lemma enc_data_nth:
  assumes "hal_ok B vents kw dw nk nd dr" "fst ` set ivs \<subseteq> {..<nd}" "distinct (map fst ivs)" "(i, v) \<in> set ivs"
  shows "bd_vals (enc_data dr ivs) (data_field_ids dr ! i) = v"
proof -
  have "\<forall>j \<in> fst ` set ivs. j < length (data_field_ids dr)" using assms(2) hal_okD(5) [OF assms(1)] by auto
  then show ?thesis using fill_fields_nth [OF hal_okD(6) [OF assms(1)] _ assms(3,4)] by (simp add: enc_data_def)
qed

lemma get_data_value:
  assumes "field_laws B kw dw"
  shows "get_data B dr i dt = Some (0, bd_vals dt (data_field_ids dr ! i))" "fst (data_actionIdGet B dt) = 0"
  using assms by (simp_all add: get_data_def field_laws_def)

text \<open>TunnelMapVrf\<close>

definition TunnelMapVrf_dec :: "driver \<Rightarrow> bf_data \<Rightarrow> hal_tunnel_map_vrf_data" where
  "TunnelMapVrf_dec dr dt = \<lparr>hd_vrf = ucast (bd_vals dt (data_field_ids dr ! 0))\<rparr>"

definition TunnelMapVrf_fits_key :: "(u32 \<Rightarrow> u32 \<Rightarrow> nat) \<Rightarrow> driver \<Rightarrow> hal_tunnel_map_vrf_key \<Rightarrow> bool" where
  "TunnelMapVrf_fits_key kw dr key \<longleftrightarrow> fits (kw (table_ptr dr)) (key_field_ids dr) (TunnelMapVrf_key_words key)"

definition TunnelMapVrf_fits_data :: "(u32 \<Rightarrow> u32 \<Rightarrow> nat) \<Rightarrow> driver \<Rightarrow> hal_tunnel_map_vrf_data \<Rightarrow> bool" where
  "TunnelMapVrf_fits_data dw dr data \<longleftrightarrow> fits (dw (table_ptr dr)) (data_field_ids dr) (TunnelMapVrf_data_words data)"

definition TunnelMapVrf_ents :: "'d vents \<Rightarrow> driver \<Rightarrow> 'd \<Rightarrow> hal_tunnel_map_vrf_key \<rightharpoonup> hal_tunnel_map_vrf_data" where
  "TunnelMapVrf_ents vents dr = table_ents vents (table_ptr dr) (\<lambda>k. enc_words dr (TunnelMapVrf_key_words k)) (TunnelMapVrf_dec dr)"

lemma TunnelMapVrf_key_words_fst: "map fst (TunnelMapVrf_key_words k) = [0..<2]"
  by (simp add: TunnelMapVrf_key_words_def upt_rec)

lemma TunnelMapVrf_key_words_inj: "inj TunnelMapVrf_key_words"
  by (rule injI) (simp add: TunnelMapVrf_key_words_def ucast_64_inj tunnel_type_code_inj)

lemma TunnelMapVrf_dec_enc:
  assumes "hal_ok B vents kw dw 2 1 dr" "TunnelMapVrf_fits_data dw dr data"
  shows "TunnelMapVrf_dec dr (enc_data dr (TunnelMapVrf_data_words data)) = data"
proof -
  have "bd_vals (enc_data dr (TunnelMapVrf_data_words data)) (data_field_ids dr ! i) = v" if "(i, v) \<in> set (TunnelMapVrf_data_words data)" for i v
    by (rule enc_data_nth [OF assms(1) _ _ that]) (simp_all add: TunnelMapVrf_data_words_def)
  then show ?thesis using assms(2) by (simp add: TunnelMapVrf_dec_def TunnelMapVrf_data_words_def TunnelMapVrf_fits_data_def)
qed

lemma TunnelMapVrf_contract:
  "hal_table (\<lambda>k v. TunnelMapVrf_tableEntryAddModify B dr k v True) (\<lambda>k v. TunnelMapVrf_tableEntryAddModify B dr k v False)
     (TunnelMapVrf_tableEntryDel B dr) (TunnelMapVrf_tableEntryGet B dr) (TunnelMapVrf_ents vents dr)
     (TunnelMapVrf_fits_key kw dr) (TunnelMapVrf_fits_data dw dr) (hal_ok B vents kw dw 2 1 dr)"
  unfolding TunnelMapVrf_ents_def
proof (rule coded_table [where B = B and vents = vents and encd = "\<lambda>v. enc_data dr (TunnelMapVrf_data_words v)"], goal_cases)
  case 1
  then show ?case by (rule hal_okD(1))
next
  case 2
  then show ?case by (rule enc_words_inj [OF _ TunnelMapVrf_key_words_fst TunnelMapVrf_key_words_inj])
next
  case (6 k d st dt)
  note ok = hal_okD(2) [OF 6(1)] 6(2) [unfolded TunnelMapVrf_fits_key_def]
  show ?case
    using 6(3) by (simp add: TunnelMapVrf_tableEntryGet_def TunnelMapVrf_KeySetUp_def TunnelMapVrf_dec_def key_words_set [OF ok] get_data_value [OF ok(1)])
next
  case (7 v)
  then show ?case by (rule TunnelMapVrf_dec_enc)
qed (simp_all add: TunnelMapVrf_tableEntryAddModify_def TunnelMapVrf_tableEntryDel_def TunnelMapVrf_KeySetUp_def TunnelMapVrf_DataSetUp_def
  TunnelMapVrf_fits_key_def TunnelMapVrf_fits_data_def key_words_set [OF hal_okD(2)] data_words_set [OF hal_okD(2)])

interpretation tunnel_map_vrf_hw: hal_table "\<lambda>k v. TunnelMapVrf_tableEntryAddModify B dr k v True" "\<lambda>k v. TunnelMapVrf_tableEntryAddModify B dr k v False"
  "TunnelMapVrf_tableEntryDel B dr" "TunnelMapVrf_tableEntryGet B dr" "TunnelMapVrf_ents vents dr" "TunnelMapVrf_fits_key kw dr" "TunnelMapVrf_fits_data dw dr"
  "hal_ok B vents kw dw 2 1 dr"
  for B dr vents kw dw
  by (rule TunnelMapVrf_contract)

text \<open>Route\<close>

definition Route_dec :: "driver \<Rightarrow> bf_data \<Rightarrow> hal_route_data" where
  "Route_dec dr dt = \<lparr>hd_nhop_id = ucast (bd_vals dt (data_field_ids dr ! 0))\<rparr>"

definition Route_fits_key :: "(u32 \<Rightarrow> u32 \<Rightarrow> nat) \<Rightarrow> driver \<Rightarrow> hal_route_key \<Rightarrow> bool" where
  "Route_fits_key kw dr key \<longleftrightarrow> fits (kw (table_ptr dr)) (key_field_ids dr) (Route_key_words key)"

definition Route_fits_data :: "(u32 \<Rightarrow> u32 \<Rightarrow> nat) \<Rightarrow> driver \<Rightarrow> hal_route_data \<Rightarrow> bool" where
  "Route_fits_data dw dr data \<longleftrightarrow> fits (dw (table_ptr dr)) (data_field_ids dr) (Route_data_words data)"

definition Route_ents :: "'d vents \<Rightarrow> driver \<Rightarrow> 'd \<Rightarrow> hal_route_key \<rightharpoonup> hal_route_data" where
  "Route_ents vents dr = table_ents vents (table_ptr dr) (\<lambda>k. enc_words dr (Route_key_words k)) (Route_dec dr)"

lemma Route_key_words_fst: "map fst (Route_key_words k) = [0..<3]"
  by (simp add: Route_key_words_def upt_rec)

lemma Route_key_words_inj: "inj Route_key_words"
  by (rule injI) (simp add: Route_key_words_def ucast_64_inj tunnel_type_code_inj)

lemma Route_dec_enc:
  assumes "hal_ok B vents kw dw 3 1 dr" "Route_fits_data dw dr data"
  shows "Route_dec dr (enc_data dr (Route_data_words data)) = data"
proof -
  have "bd_vals (enc_data dr (Route_data_words data)) (data_field_ids dr ! i) = v" if "(i, v) \<in> set (Route_data_words data)" for i v
    by (rule enc_data_nth [OF assms(1) _ _ that]) (simp_all add: Route_data_words_def)
  then show ?thesis using assms(2) by (simp add: Route_dec_def Route_data_words_def Route_fits_data_def)
qed

lemma Route_contract:
  "hal_table (\<lambda>k v. Route_tableEntryAddModify B dr k v True) (\<lambda>k v. Route_tableEntryAddModify B dr k v False)
     (Route_tableEntryDel B dr) (Route_tableEntryGet B dr) (Route_ents vents dr)
     (Route_fits_key kw dr) (Route_fits_data dw dr) (hal_ok B vents kw dw 3 1 dr)"
  unfolding Route_ents_def
proof (rule coded_table [where B = B and vents = vents and encd = "\<lambda>v. enc_data dr (Route_data_words v)"], goal_cases)
  case 1
  then show ?case by (rule hal_okD(1))
next
  case 2
  then show ?case by (rule enc_words_inj [OF _ Route_key_words_fst Route_key_words_inj])
next
  case (6 k d st dt)
  note ok = hal_okD(2) [OF 6(1)] 6(2) [unfolded Route_fits_key_def]
  show ?case
    using 6(3) by (simp add: Route_tableEntryGet_def Route_KeySetUp_def Route_dec_def key_words_set [OF ok] get_data_value [OF ok(1)])
next
  case (7 v)
  then show ?case by (rule Route_dec_enc)
qed (simp_all add: Route_tableEntryAddModify_def Route_tableEntryDel_def Route_KeySetUp_def Route_DataSetUp_def
  Route_fits_key_def Route_fits_data_def key_words_set [OF hal_okD(2)] data_words_set [OF hal_okD(2)])

interpretation route_hw: hal_table "\<lambda>k v. Route_tableEntryAddModify B dr k v True" "\<lambda>k v. Route_tableEntryAddModify B dr k v False"
  "Route_tableEntryDel B dr" "Route_tableEntryGet B dr" "Route_ents vents dr" "Route_fits_key kw dr" "Route_fits_data dw dr"
  "hal_ok B vents kw dw 3 1 dr"
  for B dr vents kw dw
  by (rule Route_contract)

text \<open>RouteSele\<close>

definition RouteSele_dec :: "driver \<Rightarrow> bf_data \<Rightarrow> hal_route_data" where
  "RouteSele_dec dr dt = \<lparr>hd_nhop_id = ucast (bd_vals dt (data_field_ids dr ! 0))\<rparr>"

definition RouteSele_fits_key :: "(u32 \<Rightarrow> u32 \<Rightarrow> nat) \<Rightarrow> driver \<Rightarrow> hal_route_sele_key \<Rightarrow> bool" where
  "RouteSele_fits_key kw dr key \<longleftrightarrow> fits (kw (table_ptr dr)) (key_field_ids dr) (RouteSele_key_words key)"

definition RouteSele_fits_data :: "(u32 \<Rightarrow> u32 \<Rightarrow> nat) \<Rightarrow> driver \<Rightarrow> hal_route_data \<Rightarrow> bool" where
  "RouteSele_fits_data dw dr data \<longleftrightarrow> fits (dw (table_ptr dr)) (data_field_ids dr) (RouteSele_data_words data)"

definition RouteSele_ents :: "'d vents \<Rightarrow> driver \<Rightarrow> 'd \<Rightarrow> hal_route_sele_key \<rightharpoonup> hal_route_data" where
  "RouteSele_ents vents dr = table_ents vents (table_ptr dr) (\<lambda>k. enc_words dr (RouteSele_key_words k)) (RouteSele_dec dr)"

lemma RouteSele_key_words_fst: "map fst (RouteSele_key_words k) = [0..<3]"
  by (simp add: RouteSele_key_words_def upt_rec)

lemma RouteSele_key_words_inj: "inj RouteSele_key_words"
  by (rule injI) (simp add: RouteSele_key_words_def ucast_64_inj tunnel_type_code_inj)

lemma RouteSele_dec_enc:
  assumes "hal_ok B vents kw dw 3 1 dr" "RouteSele_fits_data dw dr data"
  shows "RouteSele_dec dr (enc_data dr (RouteSele_data_words data)) = data"
proof -
  have "bd_vals (enc_data dr (RouteSele_data_words data)) (data_field_ids dr ! i) = v" if "(i, v) \<in> set (RouteSele_data_words data)" for i v
    by (rule enc_data_nth [OF assms(1) _ _ that]) (simp_all add: RouteSele_data_words_def)
  then show ?thesis using assms(2) by (simp add: RouteSele_dec_def RouteSele_data_words_def RouteSele_fits_data_def)
qed

lemma RouteSele_contract:
  "hal_table (\<lambda>k v. RouteSele_tableEntryAddModify B dr k v True) (\<lambda>k v. RouteSele_tableEntryAddModify B dr k v False)
     (RouteSele_tableEntryDel B dr) (RouteSele_tableEntryGet B dr) (RouteSele_ents vents dr)
     (RouteSele_fits_key kw dr) (RouteSele_fits_data dw dr) (hal_ok B vents kw dw 3 1 dr)"
  unfolding RouteSele_ents_def
proof (rule coded_table [where B = B and vents = vents and encd = "\<lambda>v. enc_data dr (RouteSele_data_words v)"], goal_cases)
  case 1
  then show ?case by (rule hal_okD(1))
next
  case 2
  then show ?case by (rule enc_words_inj [OF _ RouteSele_key_words_fst RouteSele_key_words_inj])
next
  case (6 k d st dt)
  note ok = hal_okD(2) [OF 6(1)] 6(2) [unfolded RouteSele_fits_key_def]
  show ?case
    using 6(3) by (simp add: RouteSele_tableEntryGet_def RouteSele_KeySetUp_def RouteSele_dec_def key_words_set [OF ok] get_data_value [OF ok(1)])
next
  case (7 v)
  then show ?case by (rule RouteSele_dec_enc)
qed (simp_all add: RouteSele_tableEntryAddModify_def RouteSele_tableEntryDel_def RouteSele_KeySetUp_def RouteSele_DataSetUp_def
  RouteSele_fits_key_def RouteSele_fits_data_def key_words_set [OF hal_okD(2)] data_words_set [OF hal_okD(2)])

interpretation route_sele_hw: hal_table "\<lambda>k v. RouteSele_tableEntryAddModify B dr k v True" "\<lambda>k v. RouteSele_tableEntryAddModify B dr k v False"
  "RouteSele_tableEntryDel B dr" "RouteSele_tableEntryGet B dr" "RouteSele_ents vents dr" "RouteSele_fits_key kw dr" "RouteSele_fits_data dw dr"
  "hal_ok B vents kw dw 3 1 dr"
  for B dr vents kw dw
  by (rule RouteSele_contract)

text \<open>NHop\<close>

definition NHop_dec :: "driver \<Rightarrow> bf_data \<Rightarrow> hal_nhop_data" where
  "NHop_dec dr dt = \<lparr>hd_tunnel_key = ucast (bd_vals dt (data_field_ids dr ! 0)), hd_local = ucast (bd_vals dt (data_field_ids dr ! 1)), hd_remote = ucast (bd_vals dt (data_field_ids dr ! 2)), hd_neigh_id = ucast (bd_vals dt (data_field_ids dr ! 3))\<rparr>"

definition NHop_fits_key :: "(u32 \<Rightarrow> u32 \<Rightarrow> nat) \<Rightarrow> driver \<Rightarrow> hal_nhop_key \<Rightarrow> bool" where
  "NHop_fits_key kw dr key \<longleftrightarrow> fits (kw (table_ptr dr)) (key_field_ids dr) (NHop_key_words key)"

definition NHop_fits_data :: "(u32 \<Rightarrow> u32 \<Rightarrow> nat) \<Rightarrow> driver \<Rightarrow> hal_nhop_data \<Rightarrow> bool" where
  "NHop_fits_data dw dr data \<longleftrightarrow> fits (dw (table_ptr dr)) (data_field_ids dr) (NHop_data_words data)"

definition NHop_ents :: "'d vents \<Rightarrow> driver \<Rightarrow> 'd \<Rightarrow> hal_nhop_key \<rightharpoonup> hal_nhop_data" where
  "NHop_ents vents dr = table_ents vents (table_ptr dr) (\<lambda>k. enc_words dr (NHop_key_words k)) (NHop_dec dr)"

lemma NHop_key_words_fst: "map fst (NHop_key_words k) = [0..<1]"
  by (simp add: NHop_key_words_def upt_rec)

lemma NHop_key_words_inj: "inj NHop_key_words"
  by (rule injI) (simp add: NHop_key_words_def ucast_64_inj tunnel_type_code_inj)

lemma NHop_dec_enc:
  assumes "hal_ok B vents kw dw 1 4 dr" "NHop_fits_data dw dr data"
  shows "NHop_dec dr (enc_data dr (NHop_data_words data)) = data"
proof -
  have "bd_vals (enc_data dr (NHop_data_words data)) (data_field_ids dr ! i) = v" if "(i, v) \<in> set (NHop_data_words data)" for i v
    by (rule enc_data_nth [OF assms(1) _ _ that]) (simp_all add: NHop_data_words_def)
  then show ?thesis using assms(2) by (simp add: NHop_dec_def NHop_data_words_def NHop_fits_data_def)
qed

lemma NHop_contract:
  "hal_table (\<lambda>k v. NHop_tableEntryAddModify B dr k v True) (\<lambda>k v. NHop_tableEntryAddModify B dr k v False)
     (NHop_tableEntryDel B dr) (NHop_tableEntryGet B dr) (NHop_ents vents dr)
     (NHop_fits_key kw dr) (NHop_fits_data dw dr) (hal_ok B vents kw dw 1 4 dr)"
  unfolding NHop_ents_def
proof (rule coded_table [where B = B and vents = vents and encd = "\<lambda>v. enc_data dr (NHop_data_words v)"], goal_cases)
  case 1
  then show ?case by (rule hal_okD(1))
next
  case 2
  then show ?case by (rule enc_words_inj [OF _ NHop_key_words_fst NHop_key_words_inj])
next
  case (6 k d st dt)
  note ok = hal_okD(2) [OF 6(1)] 6(2) [unfolded NHop_fits_key_def]
  show ?case
    using 6(3) by (simp add: NHop_tableEntryGet_def NHop_KeySetUp_def NHop_dec_def key_words_set [OF ok] get_data_value [OF ok(1)])
next
  case (7 v)
  then show ?case by (rule NHop_dec_enc)
qed (simp_all add: NHop_tableEntryAddModify_def NHop_tableEntryDel_def NHop_KeySetUp_def NHop_DataSetUp_def
  NHop_fits_key_def NHop_fits_data_def key_words_set [OF hal_okD(2)] data_words_set [OF hal_okD(2)])

interpretation nhop_hw: hal_table "\<lambda>k v. NHop_tableEntryAddModify B dr k v True" "\<lambda>k v. NHop_tableEntryAddModify B dr k v False"
  "NHop_tableEntryDel B dr" "NHop_tableEntryGet B dr" "NHop_ents vents dr" "NHop_fits_key kw dr" "NHop_fits_data dw dr"
  "hal_ok B vents kw dw 1 4 dr"
  for B dr vents kw dw
  by (rule NHop_contract)

text \<open>Neigh\<close>

definition NeighTable_dec :: "driver \<Rightarrow> bf_data \<Rightarrow> hal_neigh_data" where
  "NeighTable_dec dr dt = \<lparr>hd_dmac = uint64_to_mac_array (bd_vals dt (data_field_ids dr ! 0))\<rparr>"

definition NeighTable_fits_key :: "(u32 \<Rightarrow> u32 \<Rightarrow> nat) \<Rightarrow> driver \<Rightarrow> hal_neigh_key \<Rightarrow> bool" where
  "NeighTable_fits_key kw dr key \<longleftrightarrow> fits (kw (table_ptr dr)) (key_field_ids dr) (NeighTable_key_words key)"

definition NeighTable_fits_data :: "(u32 \<Rightarrow> u32 \<Rightarrow> nat) \<Rightarrow> driver \<Rightarrow> hal_neigh_data \<Rightarrow> bool" where
  "NeighTable_fits_data dw dr data \<longleftrightarrow> fits (dw (table_ptr dr)) (data_field_ids dr) (NeighTable_data_words data) \<and> length (hd_dmac data) = 6"

definition NeighTable_ents :: "'d vents \<Rightarrow> driver \<Rightarrow> 'd \<Rightarrow> hal_neigh_key \<rightharpoonup> hal_neigh_data" where
  "NeighTable_ents vents dr = table_ents vents (table_ptr dr) (\<lambda>k. enc_words dr (NeighTable_key_words k)) (NeighTable_dec dr)"

lemma NeighTable_key_words_fst: "map fst (NeighTable_key_words k) = [0..<1]"
  by (simp add: NeighTable_key_words_def upt_rec)

lemma NeighTable_key_words_inj: "inj NeighTable_key_words"
  by (rule injI) (simp add: NeighTable_key_words_def ucast_64_inj tunnel_type_code_inj)

lemma NeighTable_dec_enc:
  assumes "hal_ok B vents kw dw 1 1 dr" "NeighTable_fits_data dw dr data"
  shows "NeighTable_dec dr (enc_data dr (NeighTable_data_words data)) = data"
proof -
  have "bd_vals (enc_data dr (NeighTable_data_words data)) (data_field_ids dr ! i) = v" if "(i, v) \<in> set (NeighTable_data_words data)" for i v
    by (rule enc_data_nth [OF assms(1) _ _ that]) (simp_all add: NeighTable_data_words_def)
  then show ?thesis using assms(2) by (simp add: NeighTable_dec_def NeighTable_data_words_def NeighTable_fits_data_def mac_word_array)
qed

lemma NeighTable_contract:
  "hal_table (\<lambda>k v. NeighTable_tableEntryAddModify B dr k v True) (\<lambda>k v. NeighTable_tableEntryAddModify B dr k v False)
     (NeighTable_tableEntryDel B dr) (NeighTable_tableEntryGet B dr) (NeighTable_ents vents dr)
     (NeighTable_fits_key kw dr) (NeighTable_fits_data dw dr) (hal_ok B vents kw dw 1 1 dr)"
  unfolding NeighTable_ents_def
proof (rule coded_table [where B = B and vents = vents and encd = "\<lambda>v. enc_data dr (NeighTable_data_words v)"], goal_cases)
  case 1
  then show ?case by (rule hal_okD(1))
next
  case 2
  then show ?case by (rule enc_words_inj [OF _ NeighTable_key_words_fst NeighTable_key_words_inj])
next
  case (6 k d st dt)
  note ok = hal_okD(2) [OF 6(1)] 6(2) [unfolded NeighTable_fits_key_def]
  show ?case
    using 6(3) by (simp add: NeighTable_tableEntryGet_def NeighTable_KeySetUp_def NeighTable_dec_def key_words_set [OF ok] get_data_value [OF ok(1)])
next
  case (7 v)
  then show ?case by (rule NeighTable_dec_enc)
qed (simp_all add: NeighTable_tableEntryAddModify_def NeighTable_tableEntryDel_def NeighTable_KeySetUp_def NeighTable_DataSetUp_def
  NeighTable_fits_key_def NeighTable_fits_data_def key_words_set [OF hal_okD(2)] data_words_set [OF hal_okD(2)])

interpretation neigh_hw: hal_table "\<lambda>k v. NeighTable_tableEntryAddModify B dr k v True" "\<lambda>k v. NeighTable_tableEntryAddModify B dr k v False"
  "NeighTable_tableEntryDel B dr" "NeighTable_tableEntryGet B dr" "NeighTable_ents vents dr" "NeighTable_fits_key kw dr" "NeighTable_fits_data dw dr"
  "hal_ok B vents kw dw 1 1 dr"
  for B dr vents kw dw
  by (rule NeighTable_contract)

text \<open>PortForMac\<close>

definition PortForMac_dec :: "driver \<Rightarrow> bf_data \<Rightarrow> hal_port_for_mac_data" where
  "PortForMac_dec dr dt = \<lparr>hd_port_smac = uint64_to_mac_array (bd_vals dt (data_field_ids dr ! 0)), hd_port_dmac = uint64_to_mac_array (bd_vals dt (data_field_ids dr ! 1))\<rparr>"

definition PortForMac_fits_key :: "(u32 \<Rightarrow> u32 \<Rightarrow> nat) \<Rightarrow> driver \<Rightarrow> hal_port_for_mac_key \<Rightarrow> bool" where
  "PortForMac_fits_key kw dr key \<longleftrightarrow> fits (kw (table_ptr dr)) (key_field_ids dr) (PortForMac_key_words key)"

definition PortForMac_fits_data :: "(u32 \<Rightarrow> u32 \<Rightarrow> nat) \<Rightarrow> driver \<Rightarrow> hal_port_for_mac_data \<Rightarrow> bool" where
  "PortForMac_fits_data dw dr data \<longleftrightarrow> fits (dw (table_ptr dr)) (data_field_ids dr) (PortForMac_data_words data) \<and> length (hd_port_dmac data) = 6 \<and> length (hd_port_smac data) = 6"

definition PortForMac_ents :: "'d vents \<Rightarrow> driver \<Rightarrow> 'd \<Rightarrow> hal_port_for_mac_key \<rightharpoonup> hal_port_for_mac_data" where
  "PortForMac_ents vents dr = table_ents vents (table_ptr dr) (\<lambda>k. enc_words dr (PortForMac_key_words k)) (PortForMac_dec dr)"

lemma PortForMac_key_words_fst: "map fst (PortForMac_key_words k) = [0..<1]"
  by (simp add: PortForMac_key_words_def upt_rec)

lemma PortForMac_key_words_inj: "inj PortForMac_key_words"
  by (rule injI) (simp add: PortForMac_key_words_def ucast_64_inj tunnel_type_code_inj)

lemma PortForMac_dec_enc:
  assumes "hal_ok B vents kw dw 1 2 dr" "PortForMac_fits_data dw dr data"
  shows "PortForMac_dec dr (enc_data dr (PortForMac_data_words data)) = data"
proof -
  have "bd_vals (enc_data dr (PortForMac_data_words data)) (data_field_ids dr ! i) = v" if "(i, v) \<in> set (PortForMac_data_words data)" for i v
    by (rule enc_data_nth [OF assms(1) _ _ that]) (simp_all add: PortForMac_data_words_def)
  then show ?thesis using assms(2) by (simp add: PortForMac_dec_def PortForMac_data_words_def PortForMac_fits_data_def mac_word_array)
qed

lemma PortForMac_contract:
  "hal_table (\<lambda>k v. PortForMac_tableEntryAddModify B dr k v True) (\<lambda>k v. PortForMac_tableEntryAddModify B dr k v False)
     (PortForMac_tableEntryDel B dr) (\<lambda>k. PortForMac_tableEntryGet B dr k data0) (PortForMac_ents vents dr)
     (PortForMac_fits_key kw dr) (PortForMac_fits_data dw dr) (hal_ok B vents kw dw 1 2 dr)"
  unfolding PortForMac_ents_def
proof (rule coded_table [where B = B and vents = vents and encd = "\<lambda>v. enc_data dr (PortForMac_data_words v)"], goal_cases)
  case 1
  then show ?case by (rule hal_okD(1))
next
  case 2
  then show ?case by (rule enc_words_inj [OF _ PortForMac_key_words_fst PortForMac_key_words_inj])
next
  case (6 k d st dt)
  note ok = hal_okD(2) [OF 6(1)] 6(2) [unfolded PortForMac_fits_key_def]
  show ?case
    using 6(3) by (simp add: PortForMac_tableEntryGet_def PortForMac_KeySetUp_def PortForMac_dec_def key_words_set [OF ok] get_data_value [OF ok(1)])
next
  case (7 v)
  then show ?case by (rule PortForMac_dec_enc)
qed (simp_all add: PortForMac_tableEntryAddModify_def PortForMac_tableEntryDel_def PortForMac_KeySetUp_def PortForMac_DataSetUp_def
  PortForMac_fits_key_def PortForMac_fits_data_def key_words_set [OF hal_okD(2)] data_words_set [OF hal_okD(2)])

interpretation port_for_mac_hw: hal_table "\<lambda>k v. PortForMac_tableEntryAddModify B dr k v True" "\<lambda>k v. PortForMac_tableEntryAddModify B dr k v False"
  "PortForMac_tableEntryDel B dr" "\<lambda>k. PortForMac_tableEntryGet B dr k data0" "PortForMac_ents vents dr" "PortForMac_fits_key kw dr" "PortForMac_fits_data dw dr"
  "hal_ok B vents kw dw 1 2 dr"
  for B dr vents kw dw data0
  by (rule PortForMac_contract)

section \<open>The other tables\<close>

text \<open>A driver changes its own table only.\<close>

definition frame :: "'d vents \<Rightarrow> u32 \<Rightarrow> 'd \<Rightarrow> 'd \<Rightarrow> bool" where
  "frame vents t d d' \<longleftrightarrow> (\<forall>u. u \<noteq> t \<longrightarrow> vents u d' = vents u d)"

lemma frame_step:
  assumes "entry_laws B vents"
  shows "bf_tableEntryAdd B t k v d = (st, d') \<Longrightarrow> frame vents t d d'"
    "bf_tableEntryMod B t k v d = (st, d') \<Longrightarrow> frame vents t d d'"
    "bf_tableEntryDel B t k d = (st, d') \<Longrightarrow> frame vents t d d'"
  using entry_add(2) [OF assms] entry_mod(2) [OF assms] entry_del(2) [OF assms] unfolding frame_def only_table_def by blast+

lemma TunnelMapVrf_frame:
  assumes "entry_laws B vents"
  shows "TunnelMapVrf_tableEntryAddModify B dr k v a d = Some (st, d') \<Longrightarrow> frame vents (table_ptr dr) d d'"
    "TunnelMapVrf_tableEntryDel B dr k d = Some (st, d') \<Longrightarrow> frame vents (table_ptr dr) d d'"
  using frame_step [OF assms]
  by (auto simp: TunnelMapVrf_tableEntryAddModify_def TunnelMapVrf_tableEntryDel_def bind_eq_Some_conv split: if_splits)

lemma Route_frame:
  assumes "entry_laws B vents"
  shows "Route_tableEntryAddModify B dr k v a d = Some (st, d') \<Longrightarrow> frame vents (table_ptr dr) d d'"
    "Route_tableEntryDel B dr k d = Some (st, d') \<Longrightarrow> frame vents (table_ptr dr) d d'"
  using frame_step [OF assms]
  by (auto simp: Route_tableEntryAddModify_def Route_tableEntryDel_def bind_eq_Some_conv split: if_splits)

lemma RouteSele_frame:
  assumes "entry_laws B vents"
  shows "RouteSele_tableEntryAddModify B dr k v a d = Some (st, d') \<Longrightarrow> frame vents (table_ptr dr) d d'"
    "RouteSele_tableEntryDel B dr k d = Some (st, d') \<Longrightarrow> frame vents (table_ptr dr) d d'"
  using frame_step [OF assms]
  by (auto simp: RouteSele_tableEntryAddModify_def RouteSele_tableEntryDel_def bind_eq_Some_conv split: if_splits)

lemma NHop_frame:
  assumes "entry_laws B vents"
  shows "NHop_tableEntryAddModify B dr k v a d = Some (st, d') \<Longrightarrow> frame vents (table_ptr dr) d d'"
    "NHop_tableEntryDel B dr k d = Some (st, d') \<Longrightarrow> frame vents (table_ptr dr) d d'"
  using frame_step [OF assms]
  by (auto simp: NHop_tableEntryAddModify_def NHop_tableEntryDel_def bind_eq_Some_conv split: if_splits)

lemma NeighTable_frame:
  assumes "entry_laws B vents"
  shows "NeighTable_tableEntryAddModify B dr k v a d = Some (st, d') \<Longrightarrow> frame vents (table_ptr dr) d d'"
    "NeighTable_tableEntryDel B dr k d = Some (st, d') \<Longrightarrow> frame vents (table_ptr dr) d d'"
  using frame_step [OF assms]
  by (auto simp: NeighTable_tableEntryAddModify_def NeighTable_tableEntryDel_def bind_eq_Some_conv split: if_splits)

lemma PortForMac_frame:
  assumes "entry_laws B vents"
  shows "PortForMac_tableEntryAddModify B dr k v a d = Some (st, d') \<Longrightarrow> frame vents (table_ptr dr) d d'"
    "PortForMac_tableEntryDel B dr k d = Some (st, d') \<Longrightarrow> frame vents (table_ptr dr) d d'"
  using frame_step [OF assms]
  by (auto simp: PortForMac_tableEntryAddModify_def PortForMac_tableEntryDel_def bind_eq_Some_conv split: if_splits)

end
