(* ===== verification/Hal_Api.thy ===== *)
theory Hal_Api
  imports Hal_Tables Neigh
begin

text \<open>
  The hardware abstraction layer as the agent calls it: the entry points of
  \<open>platform/drivers/hal_table_api.cpp\<close> over the driver objects that \<open>hal_init\<close> makes, and what the agent's
  traces of calls mean for the device's tables. The mutex an entry point holds around its call makes the
  call one step; it is not part of the model.
\<close>

section \<open>The driver objects\<close>

record hal =
  tunnel_map_vrf_table :: driver
  route_table :: driver
  route_sele_table :: driver
  nhop_table :: driver
  neigh_table :: driver
  port_for_mac_table :: driver

text \<open>
  The constructors in the order of \<open>hal_init\<close>; the start of the top-k detection before them is
  \<open>space_saving_init\<close>, the registration of the two callbacks after them is the vendor's.
\<close>

definition hal_init :: "'d bfrt \<Rightarrow> 'd \<Rightarrow> (hal \<times> 'd) option" where
  "hal_init B d = do {
     tm \<leftarrow> TunnelMapVrf_new B d;
     rt \<leftarrow> Route_new B d;
     rs \<leftarrow> RouteSele_new B d;
     (nh, d) \<leftarrow> NHop_new B d;
     (ne, d) \<leftarrow> NeighTable_new B d;
     pm \<leftarrow> PortForMac_new B d;
     Some (\<lparr>tunnel_map_vrf_table = tm, route_table = rt, route_sele_table = rs, nhop_table = nh, neigh_table = ne,
            port_for_mac_table = pm\<rparr>, d)
   }"

section \<open>The entry points\<close>

text \<open>tunnel_map_vrf table\<close>

definition hal_tunnel_map_vrf_entry_add :: "'d bfrt \<Rightarrow> hal \<Rightarrow> hal_tunnel_map_vrf_key \<Rightarrow> hal_tunnel_map_vrf_data \<Rightarrow> 'd \<Rightarrow> (int \<times> 'd) option" where
  "hal_tunnel_map_vrf_entry_add B H key data d = TunnelMapVrf_tableEntryAddModify B (tunnel_map_vrf_table H) key data True d"

definition hal_tunnel_map_vrf_entry_mod :: "'d bfrt \<Rightarrow> hal \<Rightarrow> hal_tunnel_map_vrf_key \<Rightarrow> hal_tunnel_map_vrf_data \<Rightarrow> 'd \<Rightarrow> (int \<times> 'd) option" where
  "hal_tunnel_map_vrf_entry_mod B H key data d = TunnelMapVrf_tableEntryAddModify B (tunnel_map_vrf_table H) key data False d"

definition hal_tunnel_map_vrf_entry_del :: "'d bfrt \<Rightarrow> hal \<Rightarrow> hal_tunnel_map_vrf_key \<Rightarrow> 'd \<Rightarrow> (int \<times> 'd) option" where
  "hal_tunnel_map_vrf_entry_del B H key d = TunnelMapVrf_tableEntryDel B (tunnel_map_vrf_table H) key d"

definition hal_tunnel_map_vrf_entry_get :: "'d bfrt \<Rightarrow> hal \<Rightarrow> hal_tunnel_map_vrf_key \<Rightarrow> 'd \<Rightarrow> (int \<times> hal_tunnel_map_vrf_data) option" where
  "hal_tunnel_map_vrf_entry_get B H key d = TunnelMapVrf_tableEntryGet B (tunnel_map_vrf_table H) key d"

definition hal_tunnel_map_vrf_table_usage_get :: "'d bfrt \<Rightarrow> hal \<Rightarrow> 'd \<Rightarrow> int \<times> u32" where
  "hal_tunnel_map_vrf_table_usage_get B H d = TunnelMapVrf_tableUsageGet B (tunnel_map_vrf_table H) d"

definition hal_tunnel_map_vrf_table_size_get :: "hal \<Rightarrow> int \<times> u32" where
  "hal_tunnel_map_vrf_table_size_get H = TunnelMapVrf_tableSizeGet (tunnel_map_vrf_table H)"

text \<open>route table\<close>

definition hal_route_entry_add :: "'d bfrt \<Rightarrow> hal \<Rightarrow> hal_route_key \<Rightarrow> hal_route_data \<Rightarrow> 'd \<Rightarrow> (int \<times> 'd) option" where
  "hal_route_entry_add B H key data d = Route_tableEntryAddModify B (route_table H) key data True d"

definition hal_route_entry_mod :: "'d bfrt \<Rightarrow> hal \<Rightarrow> hal_route_key \<Rightarrow> hal_route_data \<Rightarrow> 'd \<Rightarrow> (int \<times> 'd) option" where
  "hal_route_entry_mod B H key data d = Route_tableEntryAddModify B (route_table H) key data False d"

definition hal_route_entry_del :: "'d bfrt \<Rightarrow> hal \<Rightarrow> hal_route_key \<Rightarrow> 'd \<Rightarrow> (int \<times> 'd) option" where
  "hal_route_entry_del B H key d = Route_tableEntryDel B (route_table H) key d"

definition hal_route_entry_get :: "'d bfrt \<Rightarrow> hal \<Rightarrow> hal_route_key \<Rightarrow> 'd \<Rightarrow> (int \<times> hal_route_data) option" where
  "hal_route_entry_get B H key d = Route_tableEntryGet B (route_table H) key d"

definition hal_route_table_usage_get :: "'d bfrt \<Rightarrow> hal \<Rightarrow> 'd \<Rightarrow> int \<times> u32" where
  "hal_route_table_usage_get B H d = Route_tableUsageGet B (route_table H) d"

definition hal_route_table_size_get :: "hal \<Rightarrow> int \<times> u32" where
  "hal_route_table_size_get H = Route_tableSizeGet (route_table H)"

text \<open>route_sele table\<close>

definition hal_route_sele_entry_add :: "'d bfrt \<Rightarrow> hal \<Rightarrow> hal_route_sele_key \<Rightarrow> hal_route_data \<Rightarrow> 'd \<Rightarrow> (int \<times> 'd) option" where
  "hal_route_sele_entry_add B H key data d = RouteSele_tableEntryAddModify B (route_sele_table H) key data True d"

definition hal_route_sele_entry_mod :: "'d bfrt \<Rightarrow> hal \<Rightarrow> hal_route_sele_key \<Rightarrow> hal_route_data \<Rightarrow> 'd \<Rightarrow> (int \<times> 'd) option" where
  "hal_route_sele_entry_mod B H key data d = RouteSele_tableEntryAddModify B (route_sele_table H) key data False d"

definition hal_route_sele_entry_del :: "'d bfrt \<Rightarrow> hal \<Rightarrow> hal_route_sele_key \<Rightarrow> 'd \<Rightarrow> (int \<times> 'd) option" where
  "hal_route_sele_entry_del B H key d = RouteSele_tableEntryDel B (route_sele_table H) key d"

definition hal_route_sele_entry_get :: "'d bfrt \<Rightarrow> hal \<Rightarrow> hal_route_sele_key \<Rightarrow> 'd \<Rightarrow> (int \<times> hal_route_data) option" where
  "hal_route_sele_entry_get B H key d = RouteSele_tableEntryGet B (route_sele_table H) key d"

definition hal_route_sele_table_usage_get :: "'d bfrt \<Rightarrow> hal \<Rightarrow> 'd \<Rightarrow> int \<times> u32" where
  "hal_route_sele_table_usage_get B H d = RouteSele_tableUsageGet B (route_sele_table H) d"

definition hal_route_sele_table_size_get :: "hal \<Rightarrow> int \<times> u32" where
  "hal_route_sele_table_size_get H = RouteSele_tableSizeGet (route_sele_table H)"

text \<open>nhop table\<close>

definition hal_nhop_entry_add :: "'d bfrt \<Rightarrow> hal \<Rightarrow> hal_nhop_key \<Rightarrow> hal_nhop_data \<Rightarrow> 'd \<Rightarrow> (int \<times> 'd) option" where
  "hal_nhop_entry_add B H key data d = NHop_tableEntryAddModify B (nhop_table H) key data True d"

definition hal_nhop_entry_mod :: "'d bfrt \<Rightarrow> hal \<Rightarrow> hal_nhop_key \<Rightarrow> hal_nhop_data \<Rightarrow> 'd \<Rightarrow> (int \<times> 'd) option" where
  "hal_nhop_entry_mod B H key data d = NHop_tableEntryAddModify B (nhop_table H) key data False d"

definition hal_nhop_entry_del :: "'d bfrt \<Rightarrow> hal \<Rightarrow> hal_nhop_key \<Rightarrow> 'd \<Rightarrow> (int \<times> 'd) option" where
  "hal_nhop_entry_del B H key d = NHop_tableEntryDel B (nhop_table H) key d"

definition hal_nhop_entry_get :: "'d bfrt \<Rightarrow> hal \<Rightarrow> hal_nhop_key \<Rightarrow> 'd \<Rightarrow> (int \<times> hal_nhop_data) option" where
  "hal_nhop_entry_get B H key d = NHop_tableEntryGet B (nhop_table H) key d"

definition hal_nhop_table_usage_get :: "'d bfrt \<Rightarrow> hal \<Rightarrow> 'd \<Rightarrow> int \<times> u32" where
  "hal_nhop_table_usage_get B H d = NHop_tableUsageGet B (nhop_table H) d"

definition hal_nhop_table_size_get :: "hal \<Rightarrow> int \<times> u32" where
  "hal_nhop_table_size_get H = NHop_tableSizeGet (nhop_table H)"

definition hal_nhop_alloc_oid :: "'d bfrt \<Rightarrow> hal \<Rightarrow> 'd \<Rightarrow> int \<times> u32 option \<times> 'd" where
  "hal_nhop_alloc_oid B H d = NHop_AllocOid B (nhop_table H) d"

definition hal_nhop_free_oid :: "'d bfrt \<Rightarrow> hal \<Rightarrow> u32 \<Rightarrow> 'd \<Rightarrow> int \<times> 'd" where
  "hal_nhop_free_oid B H oid d = NHop_FreeOid B (nhop_table H) oid d"

text \<open>neigh table\<close>

definition hal_neigh_entry_add :: "'d bfrt \<Rightarrow> hal \<Rightarrow> hal_neigh_key \<Rightarrow> hal_neigh_data \<Rightarrow> 'd \<Rightarrow> (int \<times> 'd) option" where
  "hal_neigh_entry_add B H key data d = NeighTable_tableEntryAddModify B (neigh_table H) key data True d"

definition hal_neigh_entry_mod :: "'d bfrt \<Rightarrow> hal \<Rightarrow> hal_neigh_key \<Rightarrow> hal_neigh_data \<Rightarrow> 'd \<Rightarrow> (int \<times> 'd) option" where
  "hal_neigh_entry_mod B H key data d = NeighTable_tableEntryAddModify B (neigh_table H) key data False d"

definition hal_neigh_entry_del :: "'d bfrt \<Rightarrow> hal \<Rightarrow> hal_neigh_key \<Rightarrow> 'd \<Rightarrow> (int \<times> 'd) option" where
  "hal_neigh_entry_del B H key d = NeighTable_tableEntryDel B (neigh_table H) key d"

definition hal_neigh_entry_get :: "'d bfrt \<Rightarrow> hal \<Rightarrow> hal_neigh_key \<Rightarrow> 'd \<Rightarrow> (int \<times> hal_neigh_data) option" where
  "hal_neigh_entry_get B H key d = NeighTable_tableEntryGet B (neigh_table H) key d"

definition hal_neigh_table_usage_get :: "'d bfrt \<Rightarrow> hal \<Rightarrow> 'd \<Rightarrow> int \<times> u32" where
  "hal_neigh_table_usage_get B H d = NeighTable_tableUsageGet B (neigh_table H) d"

definition hal_neigh_table_size_get :: "hal \<Rightarrow> int \<times> u32" where
  "hal_neigh_table_size_get H = NeighTable_tableSizeGet (neigh_table H)"

definition hal_neigh_alloc_oid :: "'d bfrt \<Rightarrow> hal \<Rightarrow> 'd \<Rightarrow> int \<times> u32 option \<times> 'd" where
  "hal_neigh_alloc_oid B H d = NeighTable_AllocOid B (neigh_table H) d"

definition hal_neigh_free_oid :: "'d bfrt \<Rightarrow> hal \<Rightarrow> u32 \<Rightarrow> 'd \<Rightarrow> int \<times> 'd" where
  "hal_neigh_free_oid B H oid d = NeighTable_FreeOid B (neigh_table H) oid d"

text \<open>port_for_mac table\<close>

definition hal_port_for_mac_entry_add :: "'d bfrt \<Rightarrow> hal \<Rightarrow> hal_port_for_mac_key \<Rightarrow> hal_port_for_mac_data \<Rightarrow> 'd \<Rightarrow> (int \<times> 'd) option" where
  "hal_port_for_mac_entry_add B H key data d = PortForMac_tableEntryAddModify B (port_for_mac_table H) key data True d"

definition hal_port_for_mac_entry_mod :: "'d bfrt \<Rightarrow> hal \<Rightarrow> hal_port_for_mac_key \<Rightarrow> hal_port_for_mac_data \<Rightarrow> 'd \<Rightarrow> (int \<times> 'd) option" where
  "hal_port_for_mac_entry_mod B H key data d = PortForMac_tableEntryAddModify B (port_for_mac_table H) key data False d"

definition hal_port_for_mac_entry_del :: "'d bfrt \<Rightarrow> hal \<Rightarrow> hal_port_for_mac_key \<Rightarrow> 'd \<Rightarrow> (int \<times> 'd) option" where
  "hal_port_for_mac_entry_del B H key d = PortForMac_tableEntryDel B (port_for_mac_table H) key d"

definition hal_port_for_mac_entry_get :: "'d bfrt \<Rightarrow> hal \<Rightarrow> hal_port_for_mac_key \<Rightarrow> hal_port_for_mac_data \<Rightarrow> 'd \<Rightarrow> (int \<times> hal_port_for_mac_data) option" where
  "hal_port_for_mac_entry_get B H key data d = PortForMac_tableEntryGet B (port_for_mac_table H) key data d"

definition hal_port_for_mac_table_usage_get :: "'d bfrt \<Rightarrow> hal \<Rightarrow> 'd \<Rightarrow> int \<times> u32" where
  "hal_port_for_mac_table_usage_get B H d = PortForMac_tableUsageGet B (port_for_mac_table H) d"

definition hal_port_for_mac_table_size_get :: "hal \<Rightarrow> int \<times> u32" where
  "hal_port_for_mac_table_size_get H = PortForMac_tableSizeGet (port_for_mac_table H)"

section \<open>The agent's calls\<close>

text \<open>One call of the agent, by the entry point it names; the identifier of an allocation is left out.\<close>

fun hal_call_run :: "'d bfrt \<Rightarrow> hal \<Rightarrow> hal_call \<Rightarrow> 'd \<Rightarrow> (int \<times> 'd) option" where
  "hal_call_run B H (Hal_tunnel_map_vrf_entry_add k v) d = hal_tunnel_map_vrf_entry_add B H k v d"
| "hal_call_run B H (Hal_tunnel_map_vrf_entry_del k) d = hal_tunnel_map_vrf_entry_del B H k d"
| "hal_call_run B H (Hal_route_entry_add k v) d = hal_route_entry_add B H k v d"
| "hal_call_run B H (Hal_route_entry_del k) d = hal_route_entry_del B H k d"
| "hal_call_run B H (Hal_nhop_entry_add k v) d = hal_nhop_entry_add B H k v d"
| "hal_call_run B H (Hal_nhop_entry_del k) d = hal_nhop_entry_del B H k d"
| "hal_call_run B H (Hal_neigh_entry_add k v) d = hal_neigh_entry_add B H k v d"
| "hal_call_run B H (Hal_neigh_entry_del k) d = hal_neigh_entry_del B H k d"
| "hal_call_run B H Hal_nhop_alloc_oid d = (let (st, _, d) = hal_nhop_alloc_oid B H d in Some (st, d))"
| "hal_call_run B H Hal_neigh_alloc_oid d = (let (st, _, d) = hal_neigh_alloc_oid B H d in Some (st, d))"

text \<open>
  A trace of the agent, the last call first, is a history of the device from \<open>d0\<close> to \<open>d\<close> when every call
  returns the status that the trace records.
\<close>

fun drive :: "'d bfrt \<Rightarrow> hal \<Rightarrow> hal_trace \<Rightarrow> 'd \<Rightarrow> 'd option" where
  "drive B H [] d0 = Some d0"
| "drive B H ((c, st) # tr) d0 = do {
     d \<leftarrow> drive B H tr d0;
     (st', d) \<leftarrow> hal_call_run B H c d;
     if st' = st then Some d else None
   }"

text \<open>What the agent knows of the device: four tables as maps of its own keys, and a call's effect on them.\<close>

record hal_view =
  vw_tunnel :: "hal_tunnel_map_vrf_key \<rightharpoonup> hal_tunnel_map_vrf_data"
  vw_route :: "hal_route_key \<rightharpoonup> hal_route_data"
  vw_nhop :: "hal_nhop_key \<rightharpoonup> hal_nhop_data"
  vw_neigh :: "hal_neigh_key \<rightharpoonup> hal_neigh_data"

definition hal_view_of :: "'d vents \<Rightarrow> hal \<Rightarrow> 'd \<Rightarrow> hal_view" where
  "hal_view_of vents H d =
     \<lparr>vw_tunnel = TunnelMapVrf_ents vents (tunnel_map_vrf_table H) d, vw_route = Route_ents vents (route_table H) d,
      vw_nhop = NHop_ents vents (nhop_table H) d, vw_neigh = NeighTable_ents vents (neigh_table H) d\<rparr>"

fun call_effect :: "hal_call \<Rightarrow> hal_view \<Rightarrow> hal_view" where
  "call_effect (Hal_tunnel_map_vrf_entry_add k v) w = w\<lparr>vw_tunnel := (vw_tunnel w)(k \<mapsto> v)\<rparr>"
| "call_effect (Hal_tunnel_map_vrf_entry_del k) w = w\<lparr>vw_tunnel := (vw_tunnel w)(k := None)\<rparr>"
| "call_effect (Hal_route_entry_add k v) w = w\<lparr>vw_route := (vw_route w)(k \<mapsto> v)\<rparr>"
| "call_effect (Hal_route_entry_del k) w = w\<lparr>vw_route := (vw_route w)(k := None)\<rparr>"
| "call_effect (Hal_nhop_entry_add k v) w = w\<lparr>vw_nhop := (vw_nhop w)(k \<mapsto> v)\<rparr>"
| "call_effect (Hal_nhop_entry_del k) w = w\<lparr>vw_nhop := (vw_nhop w)(k := None)\<rparr>"
| "call_effect (Hal_neigh_entry_add k v) w = w\<lparr>vw_neigh := (vw_neigh w)(k \<mapsto> v)\<rparr>"
| "call_effect (Hal_neigh_entry_del k) w = w\<lparr>vw_neigh := (vw_neigh w)(k := None)\<rparr>"
| "call_effect _ w = w"

fun call_allowed :: "hal_call \<Rightarrow> hal_view \<Rightarrow> bool" where
  "call_allowed (Hal_tunnel_map_vrf_entry_add k v) w = (vw_tunnel w k = None)"
| "call_allowed (Hal_tunnel_map_vrf_entry_del k) w = (vw_tunnel w k \<noteq> None)"
| "call_allowed (Hal_route_entry_add k v) w = (vw_route w k = None)"
| "call_allowed (Hal_route_entry_del k) w = (vw_route w k \<noteq> None)"
| "call_allowed (Hal_nhop_entry_add k v) w = (vw_nhop w k = None)"
| "call_allowed (Hal_nhop_entry_del k) w = (vw_nhop w k \<noteq> None)"
| "call_allowed (Hal_neigh_entry_add k v) w = (vw_neigh w k = None)"
| "call_allowed (Hal_neigh_entry_del k) w = (vw_neigh w k \<noteq> None)"
| "call_allowed _ w = True"

text \<open>The calls whose arguments the device's fields can hold.\<close>

fun call_fits :: "(u32 \<Rightarrow> u32 \<Rightarrow> nat) \<Rightarrow> (u32 \<Rightarrow> u32 \<Rightarrow> nat) \<Rightarrow> hal \<Rightarrow> hal_call \<Rightarrow> bool" where
  "call_fits kw dw H (Hal_tunnel_map_vrf_entry_add k v) =
     (TunnelMapVrf_fits_key kw (tunnel_map_vrf_table H) k \<and> TunnelMapVrf_fits_data dw (tunnel_map_vrf_table H) v)"
| "call_fits kw dw H (Hal_tunnel_map_vrf_entry_del k) = TunnelMapVrf_fits_key kw (tunnel_map_vrf_table H) k"
| "call_fits kw dw H (Hal_route_entry_add k v) = (Route_fits_key kw (route_table H) k \<and> Route_fits_data dw (route_table H) v)"
| "call_fits kw dw H (Hal_route_entry_del k) = Route_fits_key kw (route_table H) k"
| "call_fits kw dw H (Hal_nhop_entry_add k v) = (NHop_fits_key kw (nhop_table H) k \<and> NHop_fits_data dw (nhop_table H) v)"
| "call_fits kw dw H (Hal_nhop_entry_del k) = NHop_fits_key kw (nhop_table H) k"
| "call_fits kw dw H (Hal_neigh_entry_add k v) = (NeighTable_fits_key kw (neigh_table H) k \<and> NeighTable_fits_data dw (neigh_table H) v)"
| "call_fits kw dw H (Hal_neigh_entry_del k) = NeighTable_fits_key kw (neigh_table H) k"
| "call_fits kw dw H _ = True"

section \<open>The device refines the maps\<close>

definition alloc_frame :: "'d bfrt \<Rightarrow> 'd vents \<Rightarrow> bool" where
  "alloc_frame B vents \<longleftrightarrow> (\<forall>g d t. vents t (snd (bf_id_allocator_allocate B g d)) = vents t d) \<and>
     (\<forall>g i d t. vents t (bf_id_allocator_release B g i d) = vents t d)"

text \<open>The four tables are set up and different, and the vendor keeps its documented behaviour.\<close>

definition hal_ready :: "'d bfrt \<Rightarrow> 'd vents \<Rightarrow> (u32 \<Rightarrow> u32 \<Rightarrow> nat) \<Rightarrow> (u32 \<Rightarrow> u32 \<Rightarrow> nat) \<Rightarrow> hal \<Rightarrow> bool" where
  "hal_ready B vents kw dw H \<longleftrightarrow>
     hal_ok B vents kw dw 2 1 (tunnel_map_vrf_table H) \<and> hal_ok B vents kw dw 3 1 (route_table H) \<and>
     hal_ok B vents kw dw 1 4 (nhop_table H) \<and> hal_ok B vents kw dw 1 1 (neigh_table H) \<and>
     distinct (map table_ptr [tunnel_map_vrf_table H, route_table H, nhop_table H, neigh_table H]) \<and> alloc_frame B vents"

lemma hal_readyD:
  assumes "hal_ready B vents kw dw H"
  shows "hal_ok B vents kw dw 2 1 (tunnel_map_vrf_table H)" "hal_ok B vents kw dw 3 1 (route_table H)"
    "hal_ok B vents kw dw 1 4 (nhop_table H)" "hal_ok B vents kw dw 1 1 (neigh_table H)"
    "distinct (map table_ptr [tunnel_map_vrf_table H, route_table H, nhop_table H, neigh_table H])" "alloc_frame B vents"
  using assms by (simp_all add: hal_ready_def)

lemma hal_ready_laws: "hal_ready B vents kw dw H \<Longrightarrow> entry_laws B vents"
  using hal_okD(1) hal_readyD(1) .

lemma frame_ents:
  assumes "frame vents t d d'" "t \<noteq> table_ptr dr"
  shows "TunnelMapVrf_ents vents dr d' = TunnelMapVrf_ents vents dr d" "Route_ents vents dr d' = Route_ents vents dr d"
    "NHop_ents vents dr d' = NHop_ents vents dr d" "NeighTable_ents vents dr d' = NeighTable_ents vents dr d"
proof -
  have same: "vents (table_ptr dr) d' = vents (table_ptr dr) d" using assms unfolding frame_def by metis
  show "TunnelMapVrf_ents vents dr d' = TunnelMapVrf_ents vents dr d" "Route_ents vents dr d' = Route_ents vents dr d"
    "NHop_ents vents dr d' = NHop_ents vents dr d" "NeighTable_ents vents dr d' = NeighTable_ents vents dr d"
    unfolding TunnelMapVrf_ents_def Route_ents_def NHop_ents_def NeighTable_ents_def by (rule table_ents_same [where vents = vents and d = d and d' = d', OF same])+
qed

text \<open>The result of a call that keeps the contract of one table and the frame of the others.\<close>

definition call_ok :: "'d vents \<Rightarrow> hal \<Rightarrow> hal_call \<Rightarrow> 'd \<Rightarrow> int \<times> 'd \<Rightarrow> bool" where
  "call_ok vents H c d r \<longleftrightarrow> (fst r = 0 \<longrightarrow> call_allowed c (hal_view_of vents H d)) \<and>
     hal_view_of vents H (snd r) =
       (if fst r = 0 then call_effect c (hal_view_of vents H d) else hal_view_of vents H d)"

lemma call_okI:
  assumes "hal_call_run B H c d = Some (st, d')" "st = 0 \<longrightarrow> call_allowed c (hal_view_of vents H d)"
    "hal_view_of vents H d' = (if st = 0 then call_effect c (hal_view_of vents H d) else hal_view_of vents H d)"
  shows "\<exists>r. hal_call_run B H c d = Some r \<and> call_ok vents H c d r"
  using assms by (auto simp: call_ok_def)

lemma tunnel_map_vrf_add_call_ok:
  assumes "hal_ready B vents kw dw H" "call_fits kw dw H (Hal_tunnel_map_vrf_entry_add k v)"
  shows "\<exists>r. hal_call_run B H (Hal_tunnel_map_vrf_entry_add k v) d = Some r \<and> call_ok vents H (Hal_tunnel_map_vrf_entry_add k v) d r"
proof -
  note R = hal_readyD [OF assms(1)]
  obtain st d' where r: "TunnelMapVrf_tableEntryAddModify B (tunnel_map_vrf_table H) k v True d = Some (st, d')"
    "st = 0 \<longrightarrow> TunnelMapVrf_ents vents (tunnel_map_vrf_table H) d k = None"
    "TunnelMapVrf_ents vents (tunnel_map_vrf_table H) d' =
      (if st = 0 then (TunnelMapVrf_ents vents (tunnel_map_vrf_table H) d)(k \<mapsto> v) else TunnelMapVrf_ents vents (tunnel_map_vrf_table H) d)"
    using tunnel_map_vrf_hw.add_law [OF R(1), of k v d] assms(2) by auto
  then show ?thesis
    using R(5) frame_ents [OF TunnelMapVrf_frame(1) [OF hal_ready_laws [OF assms(1)] r(1)]]
    by (intro call_okI) (auto simp: hal_tunnel_map_vrf_entry_add_def hal_view_of_def)
qed

lemma tunnel_map_vrf_del_call_ok:
  assumes "hal_ready B vents kw dw H" "call_fits kw dw H (Hal_tunnel_map_vrf_entry_del k)"
  shows "\<exists>r. hal_call_run B H (Hal_tunnel_map_vrf_entry_del k) d = Some r \<and> call_ok vents H (Hal_tunnel_map_vrf_entry_del k) d r"
proof -
  note R = hal_readyD [OF assms(1)]
  obtain st d' where r: "TunnelMapVrf_tableEntryDel B (tunnel_map_vrf_table H) k d = Some (st, d')"
    "st = 0 \<longrightarrow> TunnelMapVrf_ents vents (tunnel_map_vrf_table H) d k \<noteq> None"
    "TunnelMapVrf_ents vents (tunnel_map_vrf_table H) d' =
      (if st = 0 then (TunnelMapVrf_ents vents (tunnel_map_vrf_table H) d)(k := None) else TunnelMapVrf_ents vents (tunnel_map_vrf_table H) d)"
    using tunnel_map_vrf_hw.del_law [OF R(1), of k d] assms(2) by auto
  then show ?thesis
    using R(5) frame_ents [OF TunnelMapVrf_frame(2) [OF hal_ready_laws [OF assms(1)] r(1)]]
    by (intro call_okI) (auto simp: hal_tunnel_map_vrf_entry_del_def hal_view_of_def)
qed

lemma route_add_call_ok:
  assumes "hal_ready B vents kw dw H" "call_fits kw dw H (Hal_route_entry_add k v)"
  shows "\<exists>r. hal_call_run B H (Hal_route_entry_add k v) d = Some r \<and> call_ok vents H (Hal_route_entry_add k v) d r"
proof -
  note R = hal_readyD [OF assms(1)]
  obtain st d' where r: "Route_tableEntryAddModify B (route_table H) k v True d = Some (st, d')"
    "st = 0 \<longrightarrow> Route_ents vents (route_table H) d k = None"
    "Route_ents vents (route_table H) d' =
      (if st = 0 then (Route_ents vents (route_table H) d)(k \<mapsto> v) else Route_ents vents (route_table H) d)"
    using route_hw.add_law [OF R(2), of k v d] assms(2) by auto
  then show ?thesis
    using R(5) frame_ents [OF Route_frame(1) [OF hal_ready_laws [OF assms(1)] r(1)]]
    by (intro call_okI) (auto simp: hal_route_entry_add_def hal_view_of_def)
qed

lemma route_del_call_ok:
  assumes "hal_ready B vents kw dw H" "call_fits kw dw H (Hal_route_entry_del k)"
  shows "\<exists>r. hal_call_run B H (Hal_route_entry_del k) d = Some r \<and> call_ok vents H (Hal_route_entry_del k) d r"
proof -
  note R = hal_readyD [OF assms(1)]
  obtain st d' where r: "Route_tableEntryDel B (route_table H) k d = Some (st, d')"
    "st = 0 \<longrightarrow> Route_ents vents (route_table H) d k \<noteq> None"
    "Route_ents vents (route_table H) d' =
      (if st = 0 then (Route_ents vents (route_table H) d)(k := None) else Route_ents vents (route_table H) d)"
    using route_hw.del_law [OF R(2), of k d] assms(2) by auto
  then show ?thesis
    using R(5) frame_ents [OF Route_frame(2) [OF hal_ready_laws [OF assms(1)] r(1)]]
    by (intro call_okI) (auto simp: hal_route_entry_del_def hal_view_of_def)
qed

lemma nhop_add_call_ok:
  assumes "hal_ready B vents kw dw H" "call_fits kw dw H (Hal_nhop_entry_add k v)"
  shows "\<exists>r. hal_call_run B H (Hal_nhop_entry_add k v) d = Some r \<and> call_ok vents H (Hal_nhop_entry_add k v) d r"
proof -
  note R = hal_readyD [OF assms(1)]
  obtain st d' where r: "NHop_tableEntryAddModify B (nhop_table H) k v True d = Some (st, d')"
    "st = 0 \<longrightarrow> NHop_ents vents (nhop_table H) d k = None"
    "NHop_ents vents (nhop_table H) d' =
      (if st = 0 then (NHop_ents vents (nhop_table H) d)(k \<mapsto> v) else NHop_ents vents (nhop_table H) d)"
    using nhop_hw.add_law [OF R(3), of k v d] assms(2) by auto
  then show ?thesis
    using R(5) frame_ents [OF NHop_frame(1) [OF hal_ready_laws [OF assms(1)] r(1)]]
    by (intro call_okI) (auto simp: hal_nhop_entry_add_def hal_view_of_def)
qed

lemma nhop_del_call_ok:
  assumes "hal_ready B vents kw dw H" "call_fits kw dw H (Hal_nhop_entry_del k)"
  shows "\<exists>r. hal_call_run B H (Hal_nhop_entry_del k) d = Some r \<and> call_ok vents H (Hal_nhop_entry_del k) d r"
proof -
  note R = hal_readyD [OF assms(1)]
  obtain st d' where r: "NHop_tableEntryDel B (nhop_table H) k d = Some (st, d')"
    "st = 0 \<longrightarrow> NHop_ents vents (nhop_table H) d k \<noteq> None"
    "NHop_ents vents (nhop_table H) d' =
      (if st = 0 then (NHop_ents vents (nhop_table H) d)(k := None) else NHop_ents vents (nhop_table H) d)"
    using nhop_hw.del_law [OF R(3), of k d] assms(2) by auto
  then show ?thesis
    using R(5) frame_ents [OF NHop_frame(2) [OF hal_ready_laws [OF assms(1)] r(1)]]
    by (intro call_okI) (auto simp: hal_nhop_entry_del_def hal_view_of_def)
qed

lemma neigh_add_call_ok:
  assumes "hal_ready B vents kw dw H" "call_fits kw dw H (Hal_neigh_entry_add k v)"
  shows "\<exists>r. hal_call_run B H (Hal_neigh_entry_add k v) d = Some r \<and> call_ok vents H (Hal_neigh_entry_add k v) d r"
proof -
  note R = hal_readyD [OF assms(1)]
  obtain st d' where r: "NeighTable_tableEntryAddModify B (neigh_table H) k v True d = Some (st, d')"
    "st = 0 \<longrightarrow> NeighTable_ents vents (neigh_table H) d k = None"
    "NeighTable_ents vents (neigh_table H) d' =
      (if st = 0 then (NeighTable_ents vents (neigh_table H) d)(k \<mapsto> v) else NeighTable_ents vents (neigh_table H) d)"
    using neigh_hw.add_law [OF R(4), of k v d] assms(2) by auto
  then show ?thesis
    using R(5) frame_ents [OF NeighTable_frame(1) [OF hal_ready_laws [OF assms(1)] r(1)]]
    by (intro call_okI) (auto simp: hal_neigh_entry_add_def hal_view_of_def)
qed

lemma neigh_del_call_ok:
  assumes "hal_ready B vents kw dw H" "call_fits kw dw H (Hal_neigh_entry_del k)"
  shows "\<exists>r. hal_call_run B H (Hal_neigh_entry_del k) d = Some r \<and> call_ok vents H (Hal_neigh_entry_del k) d r"
proof -
  note R = hal_readyD [OF assms(1)]
  obtain st d' where r: "NeighTable_tableEntryDel B (neigh_table H) k d = Some (st, d')"
    "st = 0 \<longrightarrow> NeighTable_ents vents (neigh_table H) d k \<noteq> None"
    "NeighTable_ents vents (neigh_table H) d' =
      (if st = 0 then (NeighTable_ents vents (neigh_table H) d)(k := None) else NeighTable_ents vents (neigh_table H) d)"
    using neigh_hw.del_law [OF R(4), of k d] assms(2) by auto
  then show ?thesis
    using R(5) frame_ents [OF NeighTable_frame(2) [OF hal_ready_laws [OF assms(1)] r(1)]]
    by (intro call_okI) (auto simp: hal_neigh_entry_del_def hal_view_of_def)
qed

lemma same_view:
  assumes "\<And>t. vents t d' = vents t d"
  shows "hal_view_of vents H d' = hal_view_of vents H d"
  by (simp add: hal_view_of_def TunnelMapVrf_ents_def Route_ents_def NHop_ents_def NeighTable_ents_def table_ents_same [where vents = vents and d = d and d' = d', OF assms])

lemma alloc_call_ok:
  assumes "hal_ready B vents kw dw H"
  shows "\<exists>r. hal_call_run B H Hal_nhop_alloc_oid d = Some r \<and> call_ok vents H Hal_nhop_alloc_oid d r"
    "\<exists>r. hal_call_run B H Hal_neigh_alloc_oid d = Some r \<and> call_ok vents H Hal_neigh_alloc_oid d r"
proof -
  have v: "hal_view_of vents H (snd (bf_id_allocator_allocate B g d)) = hal_view_of vents H d" for g
    using hal_readyD(6) [OF assms] by (intro same_view) (simp add: alloc_frame_def)
  have "snd (snd (NHop_AllocOid B dr d)) = snd (bf_id_allocator_allocate B (id_generator dr) d)" for dr
    by (simp add: NHop_AllocOid_def Let_def split: prod.splits)
  then show "\<exists>r. hal_call_run B H Hal_nhop_alloc_oid d = Some r \<and> call_ok vents H Hal_nhop_alloc_oid d r"
    using v by (simp add: call_ok_def hal_nhop_alloc_oid_def split: prod.splits) (metis snd_conv)
  have "snd (snd (NeighTable_AllocOid B dr d)) = snd (bf_id_allocator_allocate B (id_generator dr) d)" for dr
    by (simp add: NeighTable_AllocOid_def Let_def split: prod.splits)
  then show "\<exists>r. hal_call_run B H Hal_neigh_alloc_oid d = Some r \<and> call_ok vents H Hal_neigh_alloc_oid d r"
    using v by (simp add: call_ok_def hal_neigh_alloc_oid_def split: prod.splits) (metis snd_conv)
qed

lemmas call_oks = tunnel_map_vrf_add_call_ok tunnel_map_vrf_del_call_ok route_add_call_ok route_del_call_ok nhop_add_call_ok
  nhop_del_call_ok neigh_add_call_ok neigh_del_call_ok alloc_call_ok

lemma hal_call_ok:
  assumes "hal_ready B vents kw dw H" "call_fits kw dw H c"
  shows "\<exists>r. hal_call_run B H c d = Some r \<and> call_ok vents H c d r"
  using assms(2) by (cases c) (simp_all only: call_oks [OF assms(1)])

section \<open>Traces of the agent\<close>

text \<open>The statuses of a trace decide what it does to the four maps.\<close>

fun view_run :: "hal_trace \<Rightarrow> hal_view \<Rightarrow> hal_view option" where
  "view_run [] w = Some w"
| "view_run ((c, st) # tr) w = do {
     w \<leftarrow> view_run tr w;
     if st \<noteq> 0 then Some w
     else if call_allowed c w then Some (call_effect c w)
     else None
   }"

definition trace_fits :: "(u32 \<Rightarrow> u32 \<Rightarrow> nat) \<Rightarrow> (u32 \<Rightarrow> u32 \<Rightarrow> nat) \<Rightarrow> hal \<Rightarrow> hal_trace \<Rightarrow> bool" where
  "trace_fits kw dw H tr \<longleftrightarrow> (\<forall>c \<in> fst ` set tr. call_fits kw dw H c)"

lemma drive_view:
  "hal_ready B vents kw dw H \<Longrightarrow> trace_fits kw dw H tr \<Longrightarrow> drive B H tr d0 = Some d \<Longrightarrow>
     view_run tr (hal_view_of vents H d0) = Some (hal_view_of vents H d)"
proof (induction tr arbitrary: d)
  case (Cons cst tr)
  obtain c st where cst: "cst = (c, st)" by fastforce
  from Cons.prems(3) obtain d1 where d1: "drive B H tr d0 = Some d1" "hal_call_run B H c d1 = Some (st, d)"
    by (auto simp: cst bind_eq_Some_conv split: if_splits)
  have "call_fits kw dw H c" "trace_fits kw dw H tr" using Cons.prems(2) by (auto simp: trace_fits_def cst)
  then show ?case
    using hal_call_ok [OF Cons.prems(1), of c d1] d1 Cons.IH [OF Cons.prems(1) _ d1(1)] by (auto simp: cst call_ok_def)
qed simp

lemma drive_total:
  "hal_ready B vents kw dw H \<Longrightarrow> \<forall>c \<in> set cs. call_fits kw dw H c \<Longrightarrow> \<exists>tr d. map fst tr = cs \<and> drive B H tr d0 = Some d"
proof (induction cs)
  case (Cons c cs)
  then obtain tr d where tr: "map fst tr = cs" "drive B H tr d0 = Some d" by auto
  from hal_call_ok [OF Cons.prems(1), of c d] Cons.prems(2) obtain st d' where "hal_call_run B H c d = Some (st, d')" by auto
  then show ?case using tr by (intro exI [of _ "(c, st) # tr"] exI [of _ d']) simp
qed simp

text \<open>
  C12. The hardware layer refines four maps: every sequence of the agent's calls whose arguments fit the
  device's fields returns, and its statuses decide what the tables hold afterwards: a call that succeeds was
  allowed on the map (the key was absent for an addition, present for a deletion) and updates the map of its
  own table only, a call that fails changes nothing.
\<close>

theorem hal_calls_refine:
  assumes "hal_ready B vents kw dw H" "\<forall>c \<in> set cs. call_fits kw dw H c"
  shows "\<exists>tr d. map fst tr = cs \<and> drive B H tr d0 = Some d \<and>
    view_run tr (hal_view_of vents H d0) = Some (hal_view_of vents H d)"
proof -
  from drive_total [OF assms, of d0] obtain tr d where tr: "map fst tr = cs" "drive B H tr d0 = Some d" by blast
  have "trace_fits kw dw H tr" using assms(2) unfolding tr(1) [symmetric] by (simp add: trace_fits_def)
  then show ?thesis using drive_view [OF assms(1) _ tr(2)] tr by blast
qed

text \<open>What the agent's books say of a neighbour's entry is what the device holds.\<close>

lemma view_run_neigh:
  "view_run tr w0 = Some w \<Longrightarrow> vw_neigh w0 \<lparr>hk_neigh_id = oid\<rparr> = None \<Longrightarrow>
     hw_present (adds_neigh oid) (dels_neigh oid) tr \<longleftrightarrow> vw_neigh w \<lparr>hk_neigh_id = oid\<rparr> \<noteq> None"
proof (induction tr arbitrary: w)
  case (Cons cst tr)
  obtain c st where cst: "cst = (c, st)" by fastforce
  from Cons.prems(1) obtain w1 where w1: "view_run tr w0 = Some w1"
    "w = (if st = 0 then call_effect c w1 else w1)" by (cases "view_run tr w0") (auto simp: cst split: if_splits)
  note IH = Cons.IH [OF w1(1) Cons.prems(2)]
  have eq: "k = \<lparr>hk_neigh_id = oid\<rparr> \<longleftrightarrow> hk_neigh_id k = oid" for k :: hal_neigh_key by (cases k) simp
  show ?case
  proof (cases "st = 0")
    case True
    then show ?thesis using IH w1(2) eq by (cases c) (auto simp: cst)
  next
    case False
    then show ?thesis using IH w1(2) by (simp add: cst)
  qed
qed simp

text \<open>
  C13. The offload of neighbours down to the device: start from a device whose neighbour table is empty, and a
  neighbour with a known address that the calls so far have kept in step with its counter, with a hardware
  layer in which no call fails. After any sequence of lookups with at most 127 users at any time, a
  device that has executed the agent's calls with the statuses the agent saw, each of which fits the
  device's fields, holds the neighbour's entry exactly while there are users left (an add counts one
  more, a delete one less but never below 0).
\<close>

theorem neigh_device_sync:
  assumes "hal_ready B vents kw dw H" "NeighTable_ents vents (neigh_table H) d0 = Map.empty"
    and "neigh_ready E (neigh_key vrfid gw) s" "0 \<le> sint (neigh_users E (neigh_key vrfid gw) s)"
    and "neigh_offloaded E (neigh_key vrfid gw) s = (neigh_users E (neigh_key vrfid gw) s \<noteq> 0)"
    and "peak fs (sint (neigh_users E (neigh_key vrfid gw) s)) \<le> 127"
  shows "\<exists>s' e. lookups (neigh_lookup_step E vrfid gw) fs s = Some s' \<and> neighs E s' (neigh_key vrfid gw) = Some e \<and>
    (\<forall>d. trace_fits kw dw H (hal_log s') \<and> drive B H (hal_log s') d0 = Some d \<longrightarrow>
       (NeighTable_ents vents (neigh_table H) d \<lparr>hk_neigh_id = ne_neigh_oid e\<rparr> \<noteq> None \<longleftrightarrow>
        users fs (sint (neigh_users E (neigh_key vrfid gw) s)) > 0))"
proof -
  have "neigh_off.synced E vrfid gw s" using assms(3-5) by (simp add: neigh_off.synced_def)
  from neigh_off.lookups_synced [OF this assms(6)] obtain s' where
    s': "lookups (neigh_lookup_step E vrfid gw) fs s = Some s'" "neigh_off.synced E vrfid gw s'"
      "sint (neigh_users E (neigh_key vrfid gw) s') = users fs (sint (neigh_users E (neigh_key vrfid gw) s))" by blast
  then obtain e where e: "neighs E s' (neigh_key vrfid gw) = Some e"
    by (auto simp: neigh_off.synced_def neigh_ready_def split: option.splits)
  have off: "hw_present (adds_neigh (ne_neigh_oid e)) (dels_neigh (ne_neigh_oid e)) (hal_log s') \<longleftrightarrow>
    users fs (sint (neigh_users E (neigh_key vrfid gw) s)) > 0"
    using s'(2,3) e sint_zero_iff by (fastforce simp: neigh_off.synced_def neigh_offloaded_def)
  have "NeighTable_ents vents (neigh_table H) d \<lparr>hk_neigh_id = ne_neigh_oid e\<rparr> \<noteq> None \<longleftrightarrow>
      users fs (sint (neigh_users E (neigh_key vrfid gw) s)) > 0"
    if "trace_fits kw dw H (hal_log s')" "drive B H (hal_log s') d0 = Some d" for d
    using view_run_neigh [OF drive_view [OF assms(1) that], of "ne_neigh_oid e"] assms(2) off by (simp add: hal_view_of_def)
  then show ?thesis using s'(1) e by blast
qed

section \<open>A device\<close>

text \<open>
  A device that keeps its tables as maps, whose fields have the widths \<open>kw\<close> and \<open>dw\<close> and whose names are
  numbered in the order of a list.
\<close>

type_synonym device0 = "u32 \<Rightarrow> bf_key \<rightharpoonup> bf_data"

definition names0 :: "string list" where
  "names0 = [''pipe.ShcIngress.tunnel_map_vrf_tbl'', ''pipe.ShcIngress.route_tbl'', ''pipe.ShcIngress.route_sele_tbl'',
     ''pipe.ShcIngress.nhop_tbl'', ''pipe.ShcIngress.neigh_tbl'', ''pipe.ShcIngress.port_for_mac_tbl'',
     ''ig_md.type'', ''hdr.vxlan.vni'', ''ig_md.vrf'', ''hdr.inner_ipv4.src_addr'', ''hdr.inner_ipv4.dst_addr'', ''ig_md.vni'',
     ''ig_md.nhop_id'', ''ig_md.meta.neigh_id'', ''ig_md.meta.port'', ''vrf'', ''nhop_id'', ''$ENTRY_TTL'', ''vni'', ''local'',
     ''remote'', ''neigh_id'', ''dmac'', ''smac'']"

fun number0 :: "string list \<Rightarrow> u32 \<Rightarrow> string \<Rightarrow> int \<times> u32" where
  "number0 [] i x = (0, 0)"
| "number0 (n # ns) i x = (if n = x then (0, i) else number0 ns (i + 1) x)"

definition bfrt0 :: "(u32 \<Rightarrow> u32 \<Rightarrow> nat) \<Rightarrow> (u32 \<Rightarrow> u32 \<Rightarrow> nat) \<Rightarrow> device0 bfrt" where
  "bfrt0 kw dw =
     \<lparr>bf_assert_on = True, BF_STS_MAX = 33, bfrtTableFromNameGet = number0 names0 1, keyFieldIdGet = (\<lambda>_. number0 names0 1),
      actionIdGet = (\<lambda>_ _. (0, 1)), dataFieldIdGet = (\<lambda>_ n _. number0 names0 1 n), bf_tableSizeGet = (\<lambda>_ _. (0, 1024)),
      keyAllocate = (\<lambda>_. 0), dataAllocate = (\<lambda>_. 0),
      key_setValue = (\<lambda>t i v. if unat v < 2 ^ kw t i then 0 else 1),
      data_setValue = (\<lambda>t a i v. if unat v < 2 ^ dw t i then 0 else 1),
      bf_tableEntryAdd = (\<lambda>t k v d. if d t k = None then (0, d(t := (d t)(k \<mapsto> v))) else (4, d)),
      bf_tableEntryMod = (\<lambda>t k v d. if d t k \<noteq> None then (0, d(t := (d t)(k \<mapsto> v))) else (6, d)),
      bf_tableEntryDel = (\<lambda>t k d. if d t k \<noteq> None then (0, d(t := (d t)(k := None))) else (6, d)),
      bf_tableEntryGet = (\<lambda>t k d. case d t k of None \<Rightarrow> (6, data_reset 0) | Some v \<Rightarrow> (0, v)),
      bf_tableUsageGet = (\<lambda>_ _. (0, 0)), data_actionIdGet = (\<lambda>dt. (0, bd_action dt)), data_getValue = (\<lambda>dt i. (0, bd_vals dt i)),
      bf_id_allocator_new = (\<lambda>_ _ d. (1, d)), bf_id_allocator_allocate = (\<lambda>_ d. (1, d)), bf_id_allocator_release = (\<lambda>_ _ d. d)\<rparr>"

abbreviation vents0 :: "device0 vents" where "vents0 t d \<equiv> d t"

lemma bfrt0_laws:
  "entry_laws (bfrt0 kw dw) vents0" "field_laws (bfrt0 kw dw) kw dw" "alloc_frame (bfrt0 kw dw) vents0"
  by (auto simp: entry_laws_def field_laws_def alloc_frame_def only_table_def bfrt0_def split: if_splits option.splits)

text \<open>Fields of 64 bits hold every value.\<close>

abbreviation wide :: "u32 \<Rightarrow> u32 \<Rightarrow> nat" where "wide \<equiv> \<lambda>_ _. 64"

definition hal0 :: hal where
  "hal0 = \<lparr>
     tunnel_map_vrf_table = \<lparr>table_ptr = 1, key_field_ids = [7, 8], action_id = 1, data_field_ids = [16], driver_size = 1024, id_generator = 0\<rparr>,
     route_table = \<lparr>table_ptr = 2, key_field_ids = [9, 10, 11], action_id = 1, data_field_ids = [17], driver_size = 1024, id_generator = 0\<rparr>,
     route_sele_table = \<lparr>table_ptr = 3, key_field_ids = [12, 10, 11], action_id = 1, data_field_ids = [17, 18], driver_size = 1024, id_generator = 0\<rparr>,
     nhop_table = \<lparr>table_ptr = 4, key_field_ids = [13], action_id = 1, data_field_ids = [19, 20, 21, 22], driver_size = 1024, id_generator = 1\<rparr>,
     neigh_table = \<lparr>table_ptr = 5, key_field_ids = [14], action_id = 1, data_field_ids = [23], driver_size = 1024, id_generator = 1\<rparr>,
     port_for_mac_table = \<lparr>table_ptr = 6, key_field_ids = [15], action_id = 1, data_field_ids = [24, 23], driver_size = 1024, id_generator = 0\<rparr>\<rparr>"

lemma hal_init_hal0: "hal_init (bfrt0 kw dw) d = Some (hal0, d)"
  by (simp add: hal_init_def TunnelMapVrf_new_def Route_new_def RouteSele_new_def NHop_new_def NeighTable_new_def PortForMac_new_def
      table_of_name_def id_of_def size_of_table_def alloc_buffers_def bfrt0_def names0_def hal0_def Let_def)

lemma hal_ready_hal0: "hal_ready (bfrt0 kw dw) vents0 kw dw hal0"
  using bfrt0_laws [of kw dw] by (simp add: hal_ready_def hal_ok_def driver_ok_def hal0_def)

lemma unat_64: "unat (v :: u64) < 2 ^ 64"
  using unsigned_less [of v, where 'a = nat] by simp

lemma fits_wide [simp]: "fits (wide t) fids ivs"
  using unat_64 by (auto simp: fits_def)

lemma hal_calls_refine_witness:
  "\<exists>tr d. map fst tr = [Hal_neigh_entry_del \<lparr>hk_neigh_id = 7\<rparr>, Hal_neigh_entry_add \<lparr>hk_neigh_id = 7\<rparr> \<lparr>hd_dmac = [2, 0, 0, 0, 0, 1]\<rparr>] \<and>
     drive (bfrt0 wide wide) hal0 tr (\<lambda>_. Map.empty) = Some d \<and>
     view_run tr (hal_view_of vents0 hal0 (\<lambda>_. Map.empty)) = Some (hal_view_of vents0 hal0 d)"
proof (rule hal_calls_refine [OF hal_ready_hal0])
  show "\<forall>c \<in> set [Hal_neigh_entry_del \<lparr>hk_neigh_id = 7\<rparr>, Hal_neigh_entry_add \<lparr>hk_neigh_id = 7\<rparr> \<lparr>hd_dmac = [2, 0, 0, 0, 0, 1]\<rparr>].
    call_fits wide wide hal0 c"
    by (simp add: NeighTable_fits_key_def NeighTable_fits_data_def)
qed

lemma neigh_device_sync_witness:
  "\<exists>s' e. lookups (neigh_lookup_step (lib0 4) 1 5) [0, 0, 1] agent_static = Some s' \<and> neighs (lib0 4) s' (neigh_key 1 5) = Some e \<and>
    (\<forall>d. trace_fits wide wide hal0 (hal_log s') \<and> drive (bfrt0 wide wide) hal0 (hal_log s') (\<lambda>_. Map.empty) = Some d \<longrightarrow>
       NeighTable_ents vents0 (neigh_table hal0) d \<lparr>hk_neigh_id = ne_neigh_oid e\<rparr> \<noteq> None)"
proof -
  have e: "NeighTable_ents vents0 (neigh_table hal0) (\<lambda>_. Map.empty) = Map.empty"
    by (simp add: NeighTable_ents_def table_ents_def fun_eq_iff)
  show ?thesis
    using neigh_device_sync [OF hal_ready_hal0 e, of "lib0 4" 1 5 agent_static "[0, 0, 1]" wide wide] hal_never_fails_lib0 [of 4]
    by (simp add: neigh_ready_def neigh_users_def neigh_offloaded_def agent_static_entry)
qed

end
