(* ===== verification/Hal_Oid.thy ===== *)
theory Hal_Oid
  imports Hal_Api
begin

text \<open>
  The identifiers that \<open>AllocOid\<close> of \<open>platform/drivers/nhop.cpp\<close> and \<open>neigh.cpp\<close> hands out, over the
  vendor's identifier allocators.
\<close>

text \<open>
  The documented allocator: \<open>used g d\<close> are the identifiers in use, from 1 to \<open>cap g\<close> for an allocator that
  is not zero based; \<open>- 1\<close> when all are.
\<close>

definition id_laws :: "'d bfrt \<Rightarrow> (u32 \<Rightarrow> 'd \<Rightarrow> int set) \<Rightarrow> (u32 \<Rightarrow> int) \<Rightarrow> bool" where
  "id_laws B used cap \<longleftrightarrow>
     (\<forall>g d i d'. bf_id_allocator_allocate B g d = (i, d') \<longrightarrow>
        (if i = - 1 then used g d = {1..cap g} \<and> used g d' = used g d
         else i \<in> {1..cap g} - used g d \<and> used g d' = insert i (used g d))) \<and>
     (\<forall>g i d. used g (bf_id_allocator_release B g i d) = used g d - {uint i})"

text \<open>Allocations one after the other, with their statuses and identifiers.\<close>

fun alloc_oids :: "('d \<Rightarrow> int \<times> u32 option \<times> 'd) \<Rightarrow> nat \<Rightarrow> 'd \<Rightarrow> (int \<times> u32 option) list \<times> 'd" where
  "alloc_oids f 0 d = ([], d)"
| "alloc_oids f (Suc n) d =
     (let (st, oid, d) = f d; (rs, d) = alloc_oids f n d in ((st, oid) # rs, d))"

lemma NHop_AllocOid_step:
  assumes "id_laws B used cap" "cap (id_generator dr) = uint (driver_size dr)"
  shows "\<exists>d'. (used (id_generator dr) d = {1..cap (id_generator dr)} \<and> NHop_AllocOid B dr d = (HAL_NO_SPACE B, None, d') \<and>
      used (id_generator dr) d' = used (id_generator dr) d) \<or>
    (\<exists>i. i \<in> {1..cap (id_generator dr)} - used (id_generator dr) d \<and> NHop_AllocOid B dr d = (0, Some (of_int i), d') \<and>
      used (id_generator dr) d' = insert i (used (id_generator dr) d))"
proof -
  let ?g = "id_generator dr"
  obtain i d' where r: "bf_id_allocator_allocate B ?g d = (i, d')" by fastforce
  have L: "if i = - 1 then used ?g d = {1..cap ?g} \<and> used ?g d' = used ?g d
    else i \<in> {1..cap ?g} - used ?g d \<and> used ?g d' = insert i (used ?g d)"
    using assms(1) r unfolding id_laws_def by blast
  show ?thesis
  proof (cases "i = - 1")
    case True
    then show ?thesis using L r by (auto simp: NHop_AllocOid_def)
  next
    case False
    then have i: "1 \<le> i" "i \<le> uint (driver_size dr)" using L assms(2) by auto
    have "uint (of_int i :: u64) = i"
      using i uint_lt2p [of "driver_size dr"] by (simp add: uint_word_of_int)
    then have "\<not> (of_int i :: u64) > driver_size dr" using i by (simp add: word_less_def)
    then show ?thesis using L r False by (auto simp: NHop_AllocOid_def)
  qed
qed

lemma alloc_oids_run:
  assumes "id_laws B used cap" "cap (id_generator dr) = uint (driver_size dr)" "uint (driver_size dr) < 2 ^ 32"
  shows "used (id_generator dr) d \<subseteq> {1..cap (id_generator dr)} \<Longrightarrow>
    \<exists>ids d'. alloc_oids (NHop_AllocOid B dr) n d =
      (map (\<lambda>i. (0, Some (of_int i))) ids @ replicate (n - length ids) (HAL_NO_SPACE B, None), d') \<and>
      distinct ids \<and> set ids \<subseteq> {1..cap (id_generator dr)} - used (id_generator dr) d \<and>
      length ids = min n (card ({1..cap (id_generator dr)} - used (id_generator dr) d))"
proof (induction n arbitrary: d)
  case (Suc n)
  let ?g = "id_generator dr"
  let ?free = "\<lambda>d. {1..cap ?g} - used ?g d"
  from NHop_AllocOid_step [OF assms(1,2), of d] obtain d1 where
    "(used ?g d = {1..cap ?g} \<and> NHop_AllocOid B dr d = (HAL_NO_SPACE B, None, d1) \<and> used ?g d1 = used ?g d) \<or>
     (\<exists>i. i \<in> ?free d \<and> NHop_AllocOid B dr d = (0, Some (of_int i), d1) \<and> used ?g d1 = insert i (used ?g d))" ..
  then show ?case
  proof (elim disjE exE conjE)
    assume f: "used ?g d = {1..cap ?g}" "NHop_AllocOid B dr d = (HAL_NO_SPACE B, None, d1)" "used ?g d1 = used ?g d"
    then obtain d' where "alloc_oids (NHop_AllocOid B dr) n d1 = (replicate n (HAL_NO_SPACE B, None), d')"
      using Suc.IH [of d1] by auto
    then show ?thesis using f by (intro exI [of _ "[]"] exI [of _ d']) simp
  next
    fix i
    assume i: "i \<in> ?free d" "NHop_AllocOid B dr d = (0, Some (of_int i), d1)" "used ?g d1 = insert i (used ?g d)"
    obtain ids d' where r: "alloc_oids (NHop_AllocOid B dr) n d1 =
        (map (\<lambda>i. (0, Some (of_int i))) ids @ replicate (n - length ids) (HAL_NO_SPACE B, None), d')"
      "distinct ids" "set ids \<subseteq> ?free d1" "length ids = min n (card (?free d1))"
      using Suc.IH [of d1] Suc.prems i(1,3) by auto
    have fr: "?free d1 = ?free d - {i}" using i(3) by auto
    have card: "card (?free d) = Suc (card (?free d1))" unfolding fr using i(1) by (metis card_Suc_Diff1 finite_Diff finite_atLeastAtMost_int)
    show ?thesis
    proof (intro exI conjI)
      show "alloc_oids (NHop_AllocOid B dr) (Suc n) d =
        (map (\<lambda>i. (0, Some (of_int i))) (i # ids) @ replicate (Suc n - length (i # ids)) (HAL_NO_SPACE B, None), d')"
        using i(2) r(1) by simp
      show "distinct (i # ids)" "set (i # ids) \<subseteq> ?free d" using r(2,3) i(1) fr by auto
      show "length (i # ids) = min (Suc n) (card (?free d))" using r(4) card by simp
    qed
  qed
qed simp

text \<open>
  C16. Identifiers of next hops are handed out one each: of \<open>n\<close> allocations from a fresh allocator the first
  \<open>size\<close> succeed with different identifiers from 1 to \<open>size\<close>. Every further one returns the positive status
  \<open>HAL_NO_SPACE\<close> and writes no identifier, which the agent's tests for a negative status do not see.
\<close>

theorem hal_nhop_alloc_oid_distinct:
  assumes "id_laws B used cap" "cap (id_generator (nhop_table H)) = uint (driver_size (nhop_table H))"
    and "uint (driver_size (nhop_table H)) < 2 ^ 32" "used (id_generator (nhop_table H)) d = {}" "0 < BF_STS_MAX B"
  shows "\<exists>oids d'. alloc_oids (hal_nhop_alloc_oid B H) n d =
      (map (\<lambda>oid. (0, Some oid)) oids @ replicate (n - length oids) (HAL_NO_SPACE B, None), d') \<and>
    distinct oids \<and> (\<forall>oid \<in> set oids. 1 \<le> uint oid \<and> uint oid \<le> uint (driver_size (nhop_table H))) \<and>
    length oids = min n (unat (driver_size (nhop_table H))) \<and> HAL_NO_SPACE B > 0"
proof -
  let ?n = "nhop_table H"
  have f: "hal_nhop_alloc_oid B H = NHop_AllocOid B ?n" by (simp add: hal_nhop_alloc_oid_def fun_eq_iff)
  from alloc_oids_run [OF assms(1-3), of d n] assms(2,4) obtain ids d' where r:
    "alloc_oids (NHop_AllocOid B ?n) n d =
      (map (\<lambda>i. (0, Some (of_int i))) ids @ replicate (n - length ids) (HAL_NO_SPACE B, None), d')"
    "distinct ids" "set ids \<subseteq> {1..uint (driver_size ?n)}" "length ids = min n (card {1..uint (driver_size ?n)})" by auto
  have u: "uint (of_int i :: u32) = i" if "i \<in> set ids" for i
    using that r(3) assms(3) by (auto simp: uint_word_of_int)
  have inj: "inj_on (of_int :: int \<Rightarrow> u32) (set ids)" by (rule inj_on_inverseI [of _ uint]) (rule u)
  show ?thesis
  proof (intro exI conjI)
    show "alloc_oids (hal_nhop_alloc_oid B H) n d = (map (\<lambda>oid. (0, Some oid)) (map of_int ids) @
      replicate (n - length (map of_int ids :: u32 list)) (HAL_NO_SPACE B, None), d')" using r(1) by (simp add: f comp_def)
    show "distinct (map of_int ids :: u32 list)" using r(2) inj by (simp add: distinct_map)
    show "\<forall>oid \<in> set (map of_int ids :: u32 list). 1 \<le> uint oid \<and> uint oid \<le> uint (driver_size ?n)"
      using u r(3) unfolding set_map by (metis (no_types) atLeastAtMost_iff imageE subsetD)
    have "card {1..uint (driver_size ?n)} = unat (driver_size ?n)" unfolding card_atLeastAtMost_int unat_eq_nat_uint by simp
    then show "length (map of_int ids :: u32 list) = min n (unat (driver_size ?n))" using r(4) by (simp only: length_map)
    show "HAL_NO_SPACE B > 0" using assms(5) by (simp add: HAL_NO_SPACE_def)
  qed
qed

text \<open>A device whose state is the list of the identifiers given out, of 1024.\<close>

definition bfrt_ids :: "int list bfrt" where
  "bfrt_ids = \<lparr>bf_assert_on = True, BF_STS_MAX = 33, bfrtTableFromNameGet = (\<lambda>_. (0, 1)), keyFieldIdGet = (\<lambda>_ _. (0, 1)),
     actionIdGet = (\<lambda>_ _. (0, 1)), dataFieldIdGet = (\<lambda>_ _ _. (0, 1)), bf_tableSizeGet = (\<lambda>_ _. (0, 1024)),
     keyAllocate = (\<lambda>_. 0), dataAllocate = (\<lambda>_. 0), key_setValue = (\<lambda>_ _ _. 0), data_setValue = (\<lambda>_ _ _ _. 0),
     bf_tableEntryAdd = (\<lambda>_ _ _ d. (1, d)), bf_tableEntryMod = (\<lambda>_ _ _ d. (1, d)), bf_tableEntryDel = (\<lambda>_ _ d. (1, d)),
     bf_tableEntryGet = (\<lambda>_ _ _. (1, data_reset 0)), bf_tableUsageGet = (\<lambda>_ _. (0, 0)), data_actionIdGet = (\<lambda>_. (0, 1)),
     data_getValue = (\<lambda>_ _. (0, 0)), bf_id_allocator_new = (\<lambda>_ _ d. (1, d)),
     bf_id_allocator_allocate = (\<lambda>_ d. case filter (\<lambda>i. i \<notin> set d) [1..1024] of [] \<Rightarrow> (- 1, d) | i # _ \<Rightarrow> (i, i # d)),
     bf_id_allocator_release = (\<lambda>_ i d. filter (\<lambda>j. j \<noteq> uint i) d)\<rparr>"

lemma id_laws_bfrt_ids: "id_laws bfrt_ids (\<lambda>_ d. set d \<inter> {1..1024}) (\<lambda>_. 1024)"
proof -
  have step: "if i = - 1 then set d \<inter> {1..1024} = {1..1024} \<and> set d' \<inter> {1..1024} = set d \<inter> {1..1024}
      else i \<in> {1..1024} - set d \<inter> {1..1024} \<and> set d' \<inter> {1..1024} = insert i (set d \<inter> {1..1024})"
    if a: "bf_id_allocator_allocate bfrt_ids g d = (i, d')" for g i d d'
  proof -
    from a have a: "(case filter (\<lambda>i. i \<notin> set d) [1..1024] of [] \<Rightarrow> (- 1, d) | i # _ \<Rightarrow> (i, i # d)) = (i, d')" by (simp add: bfrt_ids_def)
    show ?thesis
    proof (cases "filter (\<lambda>i. i \<notin> set d) [1..1024]")
    case Nil
    then have "{1..1024} \<subseteq> set d" by (auto simp: filter_empty_conv)
    then show ?thesis using a Nil by auto
  next
    case (Cons j js)
    then have "j \<in> set (filter (\<lambda>i. i \<notin> set d) [1..1024])" by simp
    then have "j \<in> {1..1024}" "j \<notin> set d" by auto
    then show ?thesis using a Cons by auto
    qed
  qed
  then show ?thesis unfolding id_laws_def by (intro conjI allI impI) (erule step, auto simp: bfrt_ids_def)
qed

lemma hal_nhop_alloc_oid_distinct_witness:
  "\<exists>oids d'. alloc_oids (hal_nhop_alloc_oid bfrt_ids hal0) 1025 [] =
      (map (\<lambda>oid. (0, Some oid)) oids @ replicate (1025 - length oids) (HAL_NO_SPACE bfrt_ids, None), d') \<and> length oids = 1024"
proof -
  have h: "1024 = uint (driver_size (nhop_table hal0))" "uint (driver_size (nhop_table hal0)) < 2 ^ 32"
    "set [] \<inter> {1..1024} = ({} :: int set)" "0 < BF_STS_MAX bfrt_ids" "unat (driver_size (nhop_table hal0)) = 1024"
    by (simp_all add: hal0_def bfrt_ids_def)
  obtain oids d' where "alloc_oids (hal_nhop_alloc_oid bfrt_ids hal0) 1025 [] =
      (map (\<lambda>oid. (0, Some oid)) oids @ replicate (1025 - length oids) (HAL_NO_SPACE bfrt_ids, None), d')"
    "length oids = min 1025 (unat (driver_size (nhop_table hal0)))"
    using hal_nhop_alloc_oid_distinct [OF id_laws_bfrt_ids h(1-4), of 1025] by blast
  then show ?thesis unfolding h(5) by (intro exI [of _ oids] exI [of _ d']) simp
qed

end
