(* ===== verification/Object_Id.thy ===== *)
theory Object_Id
  imports Hal_Oid
begin

text \<open>
  The counted identifiers of \<open>platform/drivers/utils/object_id.cpp\<close>: the vendor's allocator with an offset and
  a count of the identifiers given out.
\<close>

record object_id =
  oi_generator :: u32
  oi_size :: u32
  oi_offset :: u32
  oi_count :: u32

definition OjectID_new :: "'d bfrt \<Rightarrow> u32 \<Rightarrow> bool \<Rightarrow> u32 \<Rightarrow> 'd \<Rightarrow> object_id \<times> 'd" where
  "OjectID_new B initial_size zero_based offset d =
     (let (g, d) = bf_id_allocator_new B (ucast initial_size) zero_based d
      in (\<lparr>oi_generator = g, oi_size = initial_size, oi_offset = offset, oi_count = 0\<rparr>, d))"

definition OjectID_Alloc :: "'d bfrt \<Rightarrow> object_id \<Rightarrow> 'd \<Rightarrow> int \<times> u32 option \<times> object_id \<times> 'd" where
  "OjectID_Alloc B x d =
     (let (id, d) = bf_id_allocator_allocate B (oi_generator x) d
      in if id = - 1 \<or> id > sint (oi_size x) then (HAL_NO_SPACE B, None, x, d)
         else (0, Some (of_int id + oi_offset x), x\<lparr>oi_count := oi_count x + 1\<rparr>, d))"

definition OjectID_Free :: "'d bfrt \<Rightarrow> object_id \<Rightarrow> u32 \<Rightarrow> 'd \<Rightarrow> int \<times> object_id \<times> 'd" where
  "OjectID_Free B x oid d =
     (0, x\<lparr>oi_count := oi_count x - 1\<rparr>, bf_id_allocator_release B (oi_generator x) (oid - oi_offset x) d)"

definition ClearOffset :: "object_id \<Rightarrow> u32 \<Rightarrow> u32" where
  "ClearOffset x oid = oid - oi_offset x"

definition GetUsage :: "object_id \<Rightarrow> u32" where "GetUsage x = oi_count x"
definition GetSize :: "object_id \<Rightarrow> u32" where "GetSize x = oi_size x"
definition GetLeft :: "object_id \<Rightarrow> u32" where "GetLeft x = oi_size x - oi_count x"

section \<open>The count is the number of identifiers in use\<close>

definition oid_inv :: "(u32 \<Rightarrow> 'd \<Rightarrow> int set) \<Rightarrow> (u32 \<Rightarrow> int) \<Rightarrow> object_id \<Rightarrow> 'd \<Rightarrow> bool" where
  "oid_inv used cap x d \<longleftrightarrow> cap (oi_generator x) = uint (oi_size x) \<and> uint (oi_size x) < 2 ^ 31 \<and>
     used (oi_generator x) d \<subseteq> {1..uint (oi_size x)} \<and> unat (oi_count x) = card (used (oi_generator x) d)"

lemma sint_small: "uint (w :: u32) < 2 ^ 31 \<Longrightarrow> sint w = uint w"
  using signed_take_bit_int_eq_self [of 31 "uint w"] uint_ge_0 [of w] by (simp add: sint_uint)

lemma OjectID_Alloc_inv:
  assumes "id_laws B used cap" "oid_inv used cap x d" "OjectID_Alloc B x d = (st, oid, x', d')"
  shows "oid_inv used cap x' d'"
    and "case oid of None \<Rightarrow> st = HAL_NO_SPACE B \<and> GetLeft x = 0 \<and> x' = x
       | Some i \<Rightarrow> st = 0 \<and> uint (ClearOffset x i) \<in> {1..uint (oi_size x)} - used (oi_generator x) d \<and> GetUsage x' = GetUsage x + 1"
proof -
  let ?g = "oi_generator x" and ?n = "uint (oi_size x)"
  have I: "cap ?g = ?n" "?n < 2 ^ 31" "used ?g d \<subseteq> {1..?n}" "unat (oi_count x) = card (used ?g d)"
    using assms(2) by (simp_all add: oid_inv_def)
  note sz = sint_small [OF I(2)]
  obtain i d1 where r: "bf_id_allocator_allocate B ?g d = (i, d1)" by fastforce
  have L: "if i = - 1 then used ?g d = {1..?n} \<and> used ?g d1 = used ?g d
    else i \<in> {1..?n} - used ?g d \<and> used ?g d1 = insert i (used ?g d)"
    using assms(1) r unfolding id_laws_def I(1) [symmetric] by blast
  have fin: "finite (used ?g d)" using I(3) finite_subset by blast
  have "oid_inv used cap x' d' \<and> (case oid of None \<Rightarrow> st = HAL_NO_SPACE B \<and> GetLeft x = 0 \<and> x' = x
       | Some i \<Rightarrow> st = 0 \<and> uint (ClearOffset x i) \<in> {1..?n} - used ?g d \<and> GetUsage x' = GetUsage x + 1)"
  proof (cases "i = - 1")
    case True
    then have "used ?g d = {1..?n}" "used ?g d1 = used ?g d" using L by auto
    moreover from this(1) have "unat (oi_count x) = unat (oi_size x)" using I(4) by (simp only: card_atLeastAtMost_int unat_eq_nat_uint)
    then have "oi_count x = oi_size x" by (simp add: word_unat_eq_iff)
    ultimately show ?thesis using assms(2,3) r True by (auto simp: OjectID_Alloc_def oid_inv_def GetLeft_def)
  next
    case False
    then have i: "i \<in> {1..?n} - used ?g d" "used ?g d1 = insert i (used ?g d)" using L by auto
    then have x': "st = 0" "oid = Some (of_int i + oi_offset x)" "x' = x\<lparr>oi_count := oi_count x + 1\<rparr>" "d' = d1"
      using assms(3) r False sz by (auto simp: OjectID_Alloc_def)
    have u: "uint (of_int i :: u32) = i" using i(1) I(2) by (simp add: uint_word_of_int)
    have card: "card (used ?g d1) = Suc (card (used ?g d))" using i fin by simp
    have "used ?g d1 \<subseteq> {1..?n}" using i I(3) by auto
    then have "card (used ?g d1) \<le> nat ?n" using card_mono [of "{1..?n}" "used ?g d1"] by simp
    moreover have "nat ?n < 2 ^ 31" using I(2) by (simp only: nat_less_numeral_power_cancel_iff)
    ultimately have "Suc (unat (oi_count x)) < 2 ^ 32" using I(4) card by simp
    then have "unat (oi_count x + 1) = card (used ?g d1)"
      using I(4) card by (simp add: unat_word_ariths)
    then show ?thesis using I i x' u by (auto simp: oid_inv_def ClearOffset_def GetUsage_def)
  qed
  then show "oid_inv used cap x' d'" "case oid of None \<Rightarrow> st = HAL_NO_SPACE B \<and> GetLeft x = 0 \<and> x' = x
       | Some i \<Rightarrow> st = 0 \<and> uint (ClearOffset x i) \<in> {1..?n} - used ?g d \<and> GetUsage x' = GetUsage x + 1" by simp_all
qed

lemma OjectID_Free_inv:
  assumes "id_laws B used cap" "oid_inv used cap x d" "uint (ClearOffset x oid) \<in> used (oi_generator x) d"
    "OjectID_Free B x oid d = (st, x', d')"
  shows "oid_inv used cap x' d'" "GetLeft x' = GetLeft x + 1"
proof -
  let ?g = "oi_generator x"
  have I: "used ?g d \<subseteq> {1..uint (oi_size x)}" "unat (oi_count x) = card (used ?g d)" using assms(2) by (simp_all add: oid_inv_def)
  have x': "x' = x\<lparr>oi_count := oi_count x - 1\<rparr>" "used ?g d' = used ?g d - {uint (ClearOffset x oid)}"
    using assms(1,4) by (auto simp: OjectID_Free_def id_laws_def ClearOffset_def)
  have fin: "finite (used ?g d)" using I(1) finite_subset by blast
  then have "card (used ?g d') = card (used ?g d) - 1" "0 < card (used ?g d)"
    using assms(3) x'(2) by (auto simp: card_gt_0_iff)
  moreover from this(2) have "oi_count x \<noteq> 0" using I(2) by auto
  then have "unat (oi_count x - 1) = unat (oi_count x) - 1" by (rule unat_minus_one)
  ultimately have "unat (oi_count x - 1) = card (used ?g d')" using I(2) by simp
  then show "oid_inv used cap x' d'" using assms(2) x' by (auto simp: oid_inv_def)
  show "GetLeft x' = GetLeft x + 1" by (simp add: x'(1) GetLeft_def)
qed

text \<open>Freeing an identifier when none is in use leaves a count of \<open>2 ^ 32 - 1\<close>.\<close>

lemma OjectID_Free_unused:
  assumes "GetUsage x = 0" "OjectID_Free B x oid d = (st, x', d')"
  shows "GetUsage x' = 2 ^ 32 - 1" "st = 0"
  using assms by (auto simp: OjectID_Free_def GetUsage_def)

end
