(* ===== verification/Digest.thy ===== *)
theory Digest
  imports Hal_Api Top_K
begin

text \<open>
  The two callbacks of the switch: \<open>learn_callback\<close> of \<open>platform/drivers/shc_digest.cpp\<close>, which counts
  the flows the data plane reports and writes entries for the large ones, and \<open>idletime_callback\<close> of
  \<open>platform/drivers/shc_aging.cpp\<close>, which deletes the entries that no packet has hit.
\<close>

section \<open>The learn callback\<close>

text \<open>
  A digest, by what \<open>getValue\<close> reads of its fields (\<open>None\<close> when it fails and leaves the variable alone).
\<close>

record digest =
  dg_type :: "u64 option"
  dg_vni :: "u64 option"
  dg_src_addr :: "u64 option"
  dg_dst_addr :: "u64 option"

definition read_field :: "u64 option \<Rightarrow> u64" where
  "read_field v = (case v of None \<Rightarrow> 0 | Some x \<Rightarrow> x)"

text \<open>The file's counters, and the detection that \<open>space_saving\<close> points to.\<close>

record learn =
  g_flow_count :: u32
  g_real_count :: u32
  g_fake_count :: u32
  g_error_count :: u32
  g_space_saving :: spacesaving

definition digest_flow :: "digest \<Rightarrow> tuple_3_t" where
  "digest_flow dg = Tuple_3 (read_field (dg_src_addr dg)) (read_field (dg_dst_addr dg)) (read_field (dg_vni dg))"

definition digest_key :: "digest \<Rightarrow> hal_route_sele_key" where
  "digest_key dg = \<lparr>hk_vni = ucast (read_field (dg_vni dg)), hk_sele_src_addr = ucast (read_field (dg_src_addr dg)),
     hk_sele_dst_addr = ucast (read_field (dg_dst_addr dg))\<rparr>"

definition digest_data :: "digest \<Rightarrow> hal_route_data" where
  "digest_data dg = \<lparr>hd_nhop_id = ucast (read_field (dg_vni dg))\<rparr>"

definition count_entry :: "u64 \<Rightarrow> learn \<Rightarrow> learn" where
  "count_entry vni G =
     (let G = G\<lparr>g_flow_count := g_flow_count G + 1\<rparr>;
          G = (if vni \<le> 5000 then G\<lparr>g_real_count := g_real_count G + 1\<rparr> else G);
          G = (if 15000 > vni \<and> vni > 5000 then G\<lparr>g_fake_count := g_fake_count G + 1\<rparr> else G)
      in if 15000 < vni then G\<lparr>g_error_count := g_error_count G + 1\<rparr> else G)"

definition learn_one :: "'d bfrt \<Rightarrow> hal \<Rightarrow> digest \<Rightarrow> learn \<Rightarrow> 'd \<Rightarrow> (learn \<times> 'd) option" where
  "learn_one B H dg G d = do {
     S \<leftarrow> Insert (digest_flow dg) (g_space_saving G);
     let G = G\<lparr>g_space_saving := S\<rparr>;
     if read_field (dg_type dg) = 1 then do {
       (stu_2, d) \<leftarrow> hal_route_sele_entry_add B H (digest_key dg) (digest_data dg) d;
       Some (if stu_2 = 0 then count_entry (read_field (dg_vni dg)) G else G, d)
     }
     else Some (G, d)
   }"

fun learn_all :: "'d bfrt \<Rightarrow> hal \<Rightarrow> digest list \<Rightarrow> learn \<Rightarrow> 'd \<Rightarrow> (learn \<times> 'd) option" where
  "learn_all B H [] G d = Some (G, d)"
| "learn_all B H (dg # dgs) G d = do { (G, d) \<leftarrow> learn_one B H dg G d; learn_all B H dgs G d }"

text \<open>\<open>ack\<close> is the status of the acknowledgement at the end; the message's digests are \<open>dgs\<close>.\<close>

definition learn_callback :: "'d bfrt \<Rightarrow> hal \<Rightarrow> int \<Rightarrow> digest list \<Rightarrow> learn \<Rightarrow> 'd \<Rightarrow> (int \<times> learn \<times> 'd) option" where
  "learn_callback B H ack dgs G d = do {
     (G, d) \<leftarrow> learn_all B H dgs G d;
     bf_sys_assert B (ack = 0);
     Some (0, G, d)
   }"

section \<open>The idle-time callback\<close>

text \<open>The key of the aged entry, read back from the device; the VNI of the deletion's key goes through 16 bits.\<close>

record aged_key =
  ag_vni :: "u64 option"
  ag_ip_src :: "u64 option"
  ag_ip_dst :: "u64 option"

definition aging_key :: "aged_key \<Rightarrow> hal_route_sele_key" where
  "aging_key a = \<lparr>hk_vni = ucast (ucast (read_field (ag_vni a)) :: u16), hk_sele_src_addr = ucast (read_field (ag_ip_src a)),
     hk_sele_dst_addr = ucast (read_field (ag_ip_dst a))\<rparr>"

definition idletime_callback :: "'d bfrt \<Rightarrow> hal \<Rightarrow> aged_key \<Rightarrow> 'd \<Rightarrow> (int \<times> 'd) option" where
  "idletime_callback B H a d = do {
     (_, d) \<leftarrow> hal_route_sele_entry_del B H (aging_key a) d;
     Some (0, d)
   }"

text \<open>The object by which the device names the entry with key \<open>k\<close>.\<close>

definition aged_of :: "hal_route_sele_key \<Rightarrow> aged_key" where
  "aged_of k = \<lparr>ag_vni = Some (ucast (hk_vni k)), ag_ip_src = Some (ucast (hk_sele_src_addr k)),
     ag_ip_dst = Some (ucast (hk_sele_dst_addr k))\<rparr>"

section \<open>What a report does\<close>

abbreviation sele_ents :: "'d vents \<Rightarrow> hal \<Rightarrow> 'd \<Rightarrow> hal_route_sele_key \<rightharpoonup> hal_route_data" where
  "sele_ents vents H \<equiv> RouteSele_ents vents (route_sele_table H)"

definition sele_ready :: "'d bfrt \<Rightarrow> 'd vents \<Rightarrow> (u32 \<Rightarrow> u32 \<Rightarrow> nat) \<Rightarrow> (u32 \<Rightarrow> u32 \<Rightarrow> nat) \<Rightarrow> hal \<Rightarrow> bool" where
  "sele_ready B vents kw dw H \<longleftrightarrow> hal_ok B vents kw dw 3 1 (route_sele_table H)"

definition digest_fits :: "(u32 \<Rightarrow> u32 \<Rightarrow> nat) \<Rightarrow> (u32 \<Rightarrow> u32 \<Rightarrow> nat) \<Rightarrow> hal \<Rightarrow> digest \<Rightarrow> bool" where
  "digest_fits kw dw H dg \<longleftrightarrow> RouteSele_fits_key kw (route_sele_table H) (digest_key dg) \<and>
     RouteSele_fits_data dw (route_sele_table H) (digest_data dg)"

lemma count_entry_simps [simp]:
  "g_flow_count (count_entry v G) = g_flow_count G + 1" "g_space_saving (count_entry v G) = g_space_saving G"
  by (simp_all add: count_entry_def Let_def)

text \<open>One digest: the flow is counted, and an entry is written exactly when the counter goes up.\<close>

lemma learn_one_ok:
  assumes "sele_ready B vents kw dw H" "digest_fits kw dw H dg"
    and "sv_ok m2 (g_space_saving G) ts" "0 < m2" "m2 \<le> M_max" "int (length ts) + 1 < N_max"
  shows "\<exists>G' d'. learn_one B H dg G d = Some (G', d') \<and> sv_ok m2 (g_space_saving G') (ts @ [digest_flow dg]) \<and>
    (g_flow_count G' = g_flow_count G \<and> sele_ents vents H d' = sele_ents vents H d \<or>
     g_flow_count G' = g_flow_count G + 1 \<and> read_field (dg_type dg) = 1 \<and> sele_ents vents H d (digest_key dg) = None \<and>
     sele_ents vents H d' = (sele_ents vents H d)(digest_key dg \<mapsto> digest_data dg))"
proof -
  obtain S where S: "Insert (digest_flow dg) (g_space_saving G) = Some S" "sv_ok m2 S (ts @ [digest_flow dg])"
    using Insert_ok [OF assms(3-6)] by blast
  show ?thesis
  proof (cases "read_field (dg_type dg) = 1")
    case True
    from route_sele_hw.add_law [OF assms(1) [unfolded sele_ready_def], of "digest_key dg" "digest_data dg" d] assms(2)
    obtain st d' where r: "hal_route_sele_entry_add B H (digest_key dg) (digest_data dg) d = Some (st, d')"
      "st = 0 \<longrightarrow> sele_ents vents H d (digest_key dg) = None"
      "sele_ents vents H d' = (if st = 0 then (sele_ents vents H d)(digest_key dg \<mapsto> digest_data dg) else sele_ents vents H d)"
      by (auto simp: digest_fits_def hal_route_sele_entry_add_def)
    show ?thesis using S True r by (cases "st = 0") (simp_all add: learn_one_def Let_def)
  next
    case False
    then show ?thesis using S by (simp add: learn_one_def Let_def)
  qed
qed

text \<open>
  The table after a sequence of reports: nothing that was there changes, and every new entry is that of a
  reported large flow.
\<close>

definition learned :: "digest list \<Rightarrow> (hal_route_sele_key \<rightharpoonup> hal_route_data) \<Rightarrow> (hal_route_sele_key \<rightharpoonup> hal_route_data) \<Rightarrow> bool" where
  "learned dgs m m' \<longleftrightarrow> m \<subseteq>\<^sub>m m' \<and>
     (\<forall>k v. m' k = Some v \<longrightarrow> m k = Some v \<or>
        (\<exists>dg \<in> set dgs. read_field (dg_type dg) = 1 \<and> digest_key dg = k \<and> digest_data dg = v))"

lemma learned_refl: "learned dgs m m"
  by (simp add: learned_def)

lemma learned_add:
  assumes "learned dgs (m(digest_key dg \<mapsto> digest_data dg)) m'" "m (digest_key dg) = None" "read_field (dg_type dg) = 1"
  shows "learned (dg # dgs) m m'"
proof -
  have "m \<subseteq>\<^sub>m m(digest_key dg \<mapsto> digest_data dg)" using assms(2) by (auto simp: map_le_def)
  then show ?thesis using assms unfolding learned_def
    by (auto intro: map_le_trans split: if_splits)
qed

lemma learned_skip: "learned dgs m m' \<Longrightarrow> learned (dg # dgs) m m'"
  by (auto simp: learned_def)

lemma learn_all_ok:
  assumes ready: "sele_ready B vents kw dw H" and m2: "0 < m2" "m2 \<le> M_max"
  shows "\<forall>dg \<in> set dgs. digest_fits kw dw H dg \<Longrightarrow> sv_ok m2 (g_space_saving G) ts \<Longrightarrow>
    int (length ts + length dgs) < N_max \<Longrightarrow> finite (dom (sele_ents vents H d)) \<Longrightarrow>
    \<exists>G' d'. learn_all B H dgs G d = Some (G', d') \<and> sv_ok m2 (g_space_saving G') (ts @ map digest_flow dgs) \<and>
      learned dgs (sele_ents vents H d) (sele_ents vents H d') \<and> finite (dom (sele_ents vents H d')) \<and>
      card (dom (sele_ents vents H d)) \<le> card (dom (sele_ents vents H d')) \<and>
      g_flow_count G' = g_flow_count G + of_nat (card (dom (sele_ents vents H d')) - card (dom (sele_ents vents H d)))"
proof (induction dgs arbitrary: G ts d)
  case Nil
  then show ?case by (simp add: learned_refl)
next
  case (Cons dg dgs)
  let ?m = "sele_ents vents H d"
  have room: "int (length ts) + 1 < N_max" using Cons.prems(3) by simp
  from learn_one_ok [OF ready _ Cons.prems(2) m2 room, of dg d] Cons.prems(1) obtain G1 d1 where
    one: "learn_one B H dg G d = Some (G1, d1)" "sv_ok m2 (g_space_saving G1) (ts @ [digest_flow dg])"
    and step: "g_flow_count G1 = g_flow_count G \<and> sele_ents vents H d1 = ?m \<or>
       g_flow_count G1 = g_flow_count G + 1 \<and> read_field (dg_type dg) = 1 \<and> ?m (digest_key dg) = None \<and>
       sele_ents vents H d1 = ?m(digest_key dg \<mapsto> digest_data dg)" by auto
  have fin: "finite (dom (sele_ents vents H d1))" using step Cons.prems(4) by auto
  from Cons.IH [OF _ one(2) _ fin] Cons.prems(1,3) obtain G2 d2 where
    rest: "learn_all B H dgs G1 d1 = Some (G2, d2)" "sv_ok m2 (g_space_saving G2) ((ts @ [digest_flow dg]) @ map digest_flow dgs)"
      "learned dgs (sele_ents vents H d1) (sele_ents vents H d2)" "finite (dom (sele_ents vents H d2))"
      "card (dom (sele_ents vents H d1)) \<le> card (dom (sele_ents vents H d2))"
      "g_flow_count G2 = g_flow_count G1 + of_nat (card (dom (sele_ents vents H d2)) - card (dom (sele_ents vents H d1)))"
    by auto
  from step show ?case
  proof
    assume "g_flow_count G1 = g_flow_count G \<and> sele_ents vents H d1 = ?m"
    then show ?thesis using one rest learned_skip by auto
  next
    assume s: "g_flow_count G1 = g_flow_count G + 1 \<and> read_field (dg_type dg) = 1 \<and> ?m (digest_key dg) = None \<and>
       sele_ents vents H d1 = ?m(digest_key dg \<mapsto> digest_data dg)"
    have "card (dom (sele_ents vents H d1)) = Suc (card (dom ?m))"
      using s Cons.prems(4) by (simp add: card_insert_if domIff)
    then have "card (dom (sele_ents vents H d2)) - card (dom ?m) = Suc (card (dom (sele_ents vents H d2)) - card (dom (sele_ents vents H d1)))"
      "card (dom ?m) \<le> card (dom (sele_ents vents H d2))"
      using rest(5) by simp_all
    moreover have "learned (dg # dgs) ?m (sele_ents vents H d2)" using rest(3) s by (intro learned_add) auto
    ultimately show ?thesis using one(1) rest s by (auto simp: algebra_simps)
  qed
qed

text \<open>
  C14. A message of digests in the first interval, when the detection is as the flows \<open>ts\<close> counted from a start
  with zeroed memory have left it, below a million counted flows in all, with digests whose values fit the
  device's fields and an acknowledgement that succeeds: the callback returns; the detection has counted
  every digest's flow, in order; the table of selected routes has kept its entries and has new ones only for
  reported large flows, each naming its own VNI as next hop; and the counter of flows has grown by the
  number of new entries.
\<close>

theorem learn_callback_contract:
  assumes "sele_ready B vents kw dw H" "\<forall>dg \<in> set dgs. digest_fits kw dw H dg"
    and "head2_zero g" "0 < m2" "m2 \<le> M_max" "Insert_all ts (sv (spacesaving_new m2 k g f1 f2)) = Some (g_space_saving G)"
    and "int (length ts + length dgs) < N_max" "finite (dom (sele_ents vents H d))"
  shows "\<exists>G' d'. learn_callback B H 0 dgs G d = Some (0, G', d') \<and>
    count_run (nat m2) (ts @ map digest_flow dgs) (ss_counts (sv_ss (g_space_saving G'))) \<and>
    learned dgs (sele_ents vents H d) (sele_ents vents H d') \<and>
    g_flow_count G' = g_flow_count G + of_nat (card (dom (sele_ents vents H d')) - card (dom (sele_ents vents H d)))"
proof -
  have "sv_ok m2 (g_space_saving G) ts"
    using Insert_all_ok [OF spacesaving_new_ok [OF assms(3,4)] assms(4,5), of ts k f1 f2] assms(6,7) by auto
  from learn_all_ok [OF assms(1,4,5,2) this assms(7,8)] obtain G' d' where r: "learn_all B H dgs G d = Some (G', d')"
    "sv_ok m2 (g_space_saving G') (ts @ map digest_flow dgs)" "learned dgs (sele_ents vents H d) (sele_ents vents H d')"
    "g_flow_count G' = g_flow_count G + of_nat (card (dom (sele_ents vents H d')) - card (dom (sele_ents vents H d)))" by blast
  have "count_run (nat m2) (ts @ map digest_flow dgs) (ss_counts (sv_ss (g_space_saving G')))"
    using r(2) by (simp add: sv_ok_def)
  then show ?thesis using r(1,3,4) by (simp add: learn_callback_def)
qed

section \<open>What aging does\<close>

lemma ucast_vni: "unat (ucast (ucast (ucast (v :: u32) :: u64) :: u16) :: u32) = unat v mod 65536"
proof -
  have "(ucast (ucast (ucast v :: u64) :: u16) :: u32) = take_bit 16 v"
    by (rule bit_eqI) (auto simp: bit_simps dest: bit_imp_le_length)
  then show ?thesis by (simp add: unsigned_take_bit_eq take_bit_nat_def)
qed

lemma aging_key_of:
  "aging_key (aged_of k) = k \<longleftrightarrow> unat (hk_vni k) < 65536"
proof -
  have "aging_key (aged_of k) = k \<longleftrightarrow> ucast (ucast (ucast (hk_vni k) :: u64) :: u16) = hk_vni k"
    by (cases k) (simp add: aging_key_def aged_of_def read_field_def)
  also have "\<dots> \<longleftrightarrow> unat (ucast (ucast (ucast (hk_vni k) :: u64) :: u16) :: u32) = unat (hk_vni k)" by (rule word_unat_eq_iff)
  also have "\<dots> \<longleftrightarrow> unat (hk_vni k) < 65536" unfolding ucast_vni by (metis mod_less mod_less_divisor zero_less_numeral)
  finally show ?thesis .
qed

text \<open>
  C15. The deletion's key takes the aged entry's VNI through 16 bits, while entries are written with 24-bit
  VNIs. The callback makes exactly that deletion and reports success whatever its status \<open>st\<close> is. For an entry
  with a VNI below 65536 the deletion's key is the entry's: it is gone if the status is 0, and otherwise the
  table is as it was. An entry with a larger VNI is never deleted, so it stays in the table for good.
\<close>

theorem idletime_callback_truncates:
  assumes "sele_ready B vents kw dw H" "RouteSele_fits_key kw (route_sele_table H) (aging_key (aged_of k))"
  shows "\<exists>st d'. hal_route_sele_entry_del B H (aging_key (aged_of k)) d = Some (st, d') \<and>
    idletime_callback B H (aged_of k) d = Some (0, d') \<and>
    (if unat (hk_vni k) < 65536
     then aging_key (aged_of k) = k \<and>
       sele_ents vents H d' = (if st = 0 then (sele_ents vents H d)(k := None) else sele_ents vents H d)
     else sele_ents vents H d' k = sele_ents vents H d k)"
proof -
  from route_sele_hw.del_law [OF assms(1) [unfolded sele_ready_def] assms(2), of d] obtain st d' where
    r: "hal_route_sele_entry_del B H (aging_key (aged_of k)) d = Some (st, d')"
      "sele_ents vents H d' = (if st = 0 then (sele_ents vents H d)(aging_key (aged_of k) := None) else sele_ents vents H d)"
    by (auto simp: hal_route_sele_entry_del_def)
  then show ?thesis using aging_key_of [of k] by (auto simp: idletime_callback_def)
qed

section \<open>Concrete runs\<close>

lemma sele_ready_hal0: "sele_ready (bfrt0 kw dw) vents0 kw dw hal0"
  using bfrt0_laws [of kw dw] by (simp add: sele_ready_def hal_ok_def driver_ok_def hal0_def)

definition digest0 :: digest where
  "digest0 = \<lparr>dg_type = Some 1, dg_vni = Some 3, dg_src_addr = Some 1, dg_dst_addr = Some 2\<rparr>"

definition learn0 :: learn where
  "learn0 = \<lparr>g_flow_count = 0, g_real_count = 0, g_fake_count = 0, g_error_count = 0,
     g_space_saving = sv (spacesaving_new 1 1 zero_summary [] [])\<rparr>"

lemma learn_callback_contract_witness:
  "\<exists>G' d'. learn_callback (bfrt0 wide wide) hal0 0 [digest0, digest0] learn0 (\<lambda>_. Map.empty) = Some (0, G', d') \<and>
    count_run 1 [flow1, flow1] (ss_counts (sv_ss (g_space_saving G')))"
proof -
  have e: "sele_ents vents0 hal0 (\<lambda>_. Map.empty) = Map.empty" by (simp add: RouteSele_ents_def table_ents_def fun_eq_iff)
  have ok: "Insert_all [] (sv (spacesaving_new 1 1 zero_summary [] [])) = Some (g_space_saving learn0)" by (simp add: learn0_def)
  have f: "digest_flow digest0 = flow1" by (simp add: digest_flow_def digest0_def read_field_def flow1_def)
  have fits: "\<forall>dg \<in> set [digest0, digest0]. digest_fits wide wide hal0 dg"
    by (simp add: digest_fits_def RouteSele_fits_key_def RouteSele_fits_data_def)
  show ?thesis
    using learn_callback_contract [OF sele_ready_hal0 fits head2_zero_summary _ _ ok, of "\<lambda>_. Map.empty"] e f by (auto simp: M_max_def N_max_def)
qed

lemma idletime_callback_truncates_witness:
  "\<exists>d d'. sele_ents vents0 hal0 d \<lparr>hk_vni = 65537, hk_sele_src_addr = 1, hk_sele_dst_addr = 2\<rparr> = Some \<lparr>hd_nhop_id = 65537\<rparr> \<and>
    idletime_callback (bfrt0 wide wide) hal0 (aged_of \<lparr>hk_vni = 65537, hk_sele_src_addr = 1, hk_sele_dst_addr = 2\<rparr>) d = Some (0, d') \<and>
    sele_ents vents0 hal0 d' \<lparr>hk_vni = 65537, hk_sele_src_addr = 1, hk_sele_dst_addr = 2\<rparr> = Some \<lparr>hd_nhop_id = 65537\<rparr>"
proof -
  let ?k = "\<lparr>hk_vni = 65537, hk_sele_src_addr = 1, hk_sele_dst_addr = 2\<rparr>"
  let ?d = "\<lambda>_. Map.empty (enc_words (route_sele_table hal0) (RouteSele_key_words ?k) \<mapsto>
    enc_data (route_sele_table hal0) (RouteSele_data_words \<lparr>hd_nhop_id = 65537\<rparr>))"
  have dec: "RouteSele_dec (route_sele_table hal0) (enc_data (route_sele_table hal0) (RouteSele_data_words \<lparr>hd_nhop_id = 65537\<rparr>)) = \<lparr>hd_nhop_id = 65537\<rparr>"
    by (rule RouteSele_dec_enc [OF sele_ready_hal0 [of wide wide, unfolded sele_ready_def]]) (simp add: RouteSele_fits_data_def)
  then have "sele_ents vents0 hal0 ?d ?k = Some \<lparr>hd_nhop_id = 65537\<rparr>"
    by (simp add: RouteSele_ents_def table_ents_def)
  then show ?thesis
    using idletime_callback_truncates [OF sele_ready_hal0, of wide ?k wide ?d] by (auto simp: RouteSele_fits_key_def)
qed

end
