(* ===== verification/Hal_Start.thy ===== *)
theory Hal_Start
  imports Digest
begin

text \<open>
  The whole of \<open>hal_init\<close> (\<open>platform/drivers/hal_init.cpp\<close>): the connection to the device, the top-k detection,
  the driver objects, and the registration of the two callbacks (\<open>shc_digest.cpp\<close>, \<open>shc_aging.cpp\<close>).
\<close>

section \<open>The calls of the registration\<close>

text \<open>
  What the vendor's library answers, beside the driver's calls: statuses, and the identifiers of objects and
  fields.
\<close>

record learn_lib =
  bfRtInfoGet :: "string \<Rightarrow> int"
  sessionCreate :: u32
  bfrtLearnFromNameGet :: "string \<Rightarrow> int \<times> u32"
  learnFieldIdGet :: "u32 \<Rightarrow> string \<Rightarrow> int \<times> u32"
  bfRtLearnCallbackRegister :: "u32 \<Rightarrow> u32 \<Rightarrow> int"
  attributeAllocate :: "u32 \<Rightarrow> int \<times> u32"
  idleTableNotifyModeSet :: "u32 \<Rightarrow> bool \<Rightarrow> u32 \<Rightarrow> u32 \<Rightarrow> u32 \<Rightarrow> int"
  tableAttributesSet :: "u32 \<Rightarrow> u32 \<Rightarrow> u32 \<Rightarrow> int"

text \<open>Without the assertion, a failed lookup leaves \<open>bfrtInfo\<close> NULL: the first result is whether it is set.\<close>

definition setUp :: "'d bfrt \<Rightarrow> learn_lib \<Rightarrow> (bool \<times> u32) option" where
  "setUp B N = do {
     let bf_status = bfRtInfoGet N ''shc_real_time_sketch'';
     bf_sys_assert B (bf_status = 0);
     Some (bf_status = 0, sessionCreate N)
   }"

section \<open>The learn callback's registration\<close>

record learn_ids =
  learn_obj :: u32
  learn_type_field_id :: u32
  learn_vni_digest_field_id :: u32
  learn_src_ip_digest_field_id :: u32
  learn_dst_ip_digest_field_id :: u32
  learn_count_field_id :: u32

text \<open>An object that a call failed to find is a NULL pointer, which the next call follows.\<close>

definition found :: "int \<times> u32 \<Rightarrow> u32 option" where
  "found r = (if fst r = 0 then Some (snd r) else None)"

definition ShcDigest :: "'d bfrt \<Rightarrow> learn_lib \<Rightarrow> u32 \<Rightarrow> learn_ids option" where
  "ShcDigest B N session = do {
     obj \<leftarrow> found (bfrtLearnFromNameGet N ''ShcIngressDeparser.flowkey_digest'');
     ty \<leftarrow> id_of B (learnFieldIdGet N obj ''type'');
     vni \<leftarrow> id_of B (learnFieldIdGet N obj ''vni_digest'');
     src \<leftarrow> id_of B (learnFieldIdGet N obj ''src_ip_digest'');
     dst \<leftarrow> id_of B (learnFieldIdGet N obj ''dst_ip_digest'');
     cnt \<leftarrow> id_of B (learnFieldIdGet N obj ''count'');
     let bf_status = bfRtLearnCallbackRegister N obj session;
     bf_sys_assert B (bf_status = 0);
     Some \<lparr>learn_obj = obj, learn_type_field_id = ty, learn_vni_digest_field_id = vni,
           learn_src_ip_digest_field_id = src, learn_dst_ip_digest_field_id = dst, learn_count_field_id = cnt\<rparr>
   }"

definition shc_digest_init :: "'d bfrt \<Rightarrow> learn_lib \<Rightarrow> u32 \<Rightarrow> (int \<times> learn_ids) option" where
  "shc_digest_init B N session = map_option (Pair 0) (ShcDigest B N session)"

section \<open>The aging callback's registration\<close>

record aging_ids =
  ag_route_sele :: u32
  aging_vni_field_id :: u32
  aging_ip_src_field_id :: u32
  aging_ip_dst_field_id :: u32
  aging_attr :: u32

text \<open>The status of the call that first turns the notification off is overwritten by the next one's.\<close>

definition ShcAging :: "'d bfrt \<Rightarrow> learn_lib \<Rightarrow> u32 \<Rightarrow> aging_ids option" where
  "ShcAging B N session = do {
     t \<leftarrow> found (bfrtTableFromNameGet B ''pipe.ShcIngress.route_sele_tbl'');
     vni \<leftarrow> id_of B (keyFieldIdGet B t ''ig_md.vni'');
     src \<leftarrow> id_of B (keyFieldIdGet B t ''hdr.inner_ipv4.src_addr'');
     dst \<leftarrow> id_of B (keyFieldIdGet B t ''hdr.inner_ipv4.dst_addr'');
     attr \<leftarrow> found (attributeAllocate N t);
     let min_ttl = 10;
     let max_ttl = 20000;
     let ttl_query_interval = 100;
     let bf_status = idleTableNotifyModeSet N attr False ttl_query_interval max_ttl min_ttl;
     let bf_status = idleTableNotifyModeSet N attr True ttl_query_interval max_ttl min_ttl;
     bf_sys_assert B (bf_status = 0);
     let bf_status = tableAttributesSet N t session attr;
     bf_sys_assert B (bf_status = 0);
     Some \<lparr>ag_route_sele = t, aging_vni_field_id = vni, aging_ip_src_field_id = src, aging_ip_dst_field_id = dst,
           aging_attr = attr\<rparr>
   }"

definition shc_aging_init :: "'d bfrt \<Rightarrow> learn_lib \<Rightarrow> u32 \<Rightarrow> (int \<times> aging_ids) option" where
  "shc_aging_init B N session = map_option (Pair 0) (ShcAging B N session)"

section \<open>The start of the hardware layer\<close>

record hal_up =
  hu_session :: u32
  hu_topk :: topk
  hu_hal :: hal
  hu_learn :: learn_ids
  hu_aging :: aging_ids

text \<open>
  \<open>g\<close>, \<open>f1\<close> and \<open>f2\<close> are the memory that the detection's \<open>new\<close> and its tables' allocations find.
\<close>

definition hal_init_all ::
  "'d bfrt \<Rightarrow> learn_lib \<Rightarrow> ssummary \<Rightarrow> flow_table_element_t list \<Rightarrow> flow_table_element_t list \<Rightarrow> 'd \<Rightarrow> (hal_up \<times> 'd) option" where
  "hal_init_all B N g f1 f2 d = do {
     (info, session) \<leftarrow> setUp B N;
     let T = space_saving_init g f1 f2;
     (H, d) \<leftarrow> (if info then hal_init B d else None);
     (_, li) \<leftarrow> shc_digest_init B N session;
     (_, ai) \<leftarrow> shc_aging_init B N session;
     Some (\<lparr>hu_session = session, hu_topk = T, hu_hal = H, hu_learn = li, hu_aging = ai\<rparr>, d)
   }"

section \<open>What a start that returns has done\<close>

text \<open>
  With its assertions compiled in, a start returns only after every call of the registration has succeeded,
  except the one whose status is overwritten: the callbacks' field identifiers are the device's, both callbacks
  are registered, and the detection is the fresh one.
\<close>

lemma bf_sys_assert_eq_Some: "bf_sys_assert B c = Some u \<longleftrightarrow> bf_assert_on B \<longrightarrow> c"
  by (auto simp: bf_sys_assert_def)

definition learn_ids_ok :: "learn_lib \<Rightarrow> learn_ids \<Rightarrow> bool" where
  "learn_ids_ok N li \<longleftrightarrow> bfrtLearnFromNameGet N ''ShcIngressDeparser.flowkey_digest'' = (0, learn_obj li) \<and>
     learnFieldIdGet N (learn_obj li) ''type'' = (0, learn_type_field_id li) \<and>
     learnFieldIdGet N (learn_obj li) ''vni_digest'' = (0, learn_vni_digest_field_id li) \<and>
     learnFieldIdGet N (learn_obj li) ''src_ip_digest'' = (0, learn_src_ip_digest_field_id li) \<and>
     learnFieldIdGet N (learn_obj li) ''dst_ip_digest'' = (0, learn_dst_ip_digest_field_id li) \<and>
     learnFieldIdGet N (learn_obj li) ''count'' = (0, learn_count_field_id li)"

definition aging_ids_ok :: "'d bfrt \<Rightarrow> learn_lib \<Rightarrow> aging_ids \<Rightarrow> bool" where
  "aging_ids_ok B N ai \<longleftrightarrow> bfrtTableFromNameGet B ''pipe.ShcIngress.route_sele_tbl'' = (0, ag_route_sele ai) \<and>
     keyFieldIdGet B (ag_route_sele ai) ''ig_md.vni'' = (0, aging_vni_field_id ai) \<and>
     keyFieldIdGet B (ag_route_sele ai) ''hdr.inner_ipv4.src_addr'' = (0, aging_ip_src_field_id ai) \<and>
     keyFieldIdGet B (ag_route_sele ai) ''hdr.inner_ipv4.dst_addr'' = (0, aging_ip_dst_field_id ai) \<and>
     attributeAllocate N (ag_route_sele ai) = (0, aging_attr ai)"

lemma ShcDigest_registered:
  assumes "bf_assert_on B" "ShcDigest B N session = Some li"
  shows "learn_ids_ok N li \<and> bfRtLearnCallbackRegister N (learn_obj li) session = 0"
  using assms
  by (auto simp: ShcDigest_def found_def id_of_def learn_ids_ok_def bf_sys_assert_eq_Some Let_def prod_eq_iff
      split: Option.bind_split_asm if_split_asm)

lemma ShcAging_registered:
  assumes "bf_assert_on B" "ShcAging B N session = Some ai"
  shows "aging_ids_ok B N ai \<and> idleTableNotifyModeSet N (aging_attr ai) True 100 20000 10 = 0 \<and>
    tableAttributesSet N (ag_route_sele ai) session (aging_attr ai) = 0"
  using assms
  by (auto simp: ShcAging_def found_def id_of_def aging_ids_ok_def bf_sys_assert_eq_Some Let_def prod_eq_iff
      split: Option.bind_split_asm if_split_asm)

lemma hal_init_all_registered:
  assumes "bf_assert_on B" "hal_init_all B N g f1 f2 d = Some (u, d')"
  shows "learn_ids_ok N (hu_learn u) \<and> aging_ids_ok B N (hu_aging u) \<and> hu_topk u = space_saving_init g f1 f2 \<and>
    hal_init B d = Some (hu_hal u, d')"
  using assms(2) ShcDigest_registered [OF assms(1)] ShcAging_registered [OF assms(1)]
  by (auto simp: hal_init_all_def setUp_def shc_digest_init_def shc_aging_init_def Let_def
      split: Option.bind_split_asm prod.split_asm if_split_asm)

end
