(* ===== verification/Hal_Log.thy ===== *)
theory Hal_Log
  imports Prelude
begin

text \<open>
  The log of the hardware layer, \<open>platform/drivers/utils/log.cpp\<close>: which messages are written, by level, by
  object type and by operation.
\<close>

section \<open>Levels and switches\<close>

datatype hal_verbosity = HAL_API_LEVEL_ERROR | HAL_API_LEVEL_WARN | HAL_API_LEVEL_NOTICE | HAL_API_LEVEL_INFO
  | HAL_API_LEVEL_DEBUG | HAL_API_LEVEL_DETAIL | HAL_API_LEVEL_MAX

primrec level_code :: "hal_verbosity \<Rightarrow> nat" where
  "level_code HAL_API_LEVEL_ERROR = 0"
| "level_code HAL_API_LEVEL_WARN = 1"
| "level_code HAL_API_LEVEL_NOTICE = 2"
| "level_code HAL_API_LEVEL_INFO = 3"
| "level_code HAL_API_LEVEL_DEBUG = 4"
| "level_code HAL_API_LEVEL_DETAIL = 5"
| "level_code HAL_API_LEVEL_MAX = 6"

instantiation hal_verbosity :: linorder
begin

definition less_eq_hal_verbosity :: "hal_verbosity \<Rightarrow> hal_verbosity \<Rightarrow> bool" where
  "less_eq_hal_verbosity a b \<longleftrightarrow> level_code a \<le> level_code b"

definition less_hal_verbosity :: "hal_verbosity \<Rightarrow> hal_verbosity \<Rightarrow> bool" where
  "less_hal_verbosity a b \<longleftrightarrow> level_code a < level_code b"

instance
proof
  fix a b :: hal_verbosity
  show "a \<le> b \<Longrightarrow> b \<le> a \<Longrightarrow> a = b" by (cases a; cases b) (simp_all add: less_eq_hal_verbosity_def)
qed (auto simp: less_eq_hal_verbosity_def less_hal_verbosity_def)

end

text \<open>The operations in the order of the enumeration; the array of switches has four elements.\<close>

datatype hal_operation = HAL_GET_OPERATION | HAL_GET_ALL_OPERATION | HAL_SET_OPERATION | HAL_ADD_OPERATION
  | HAL_MOD_OPERATION | HAL_DEL_OPERATION | HAL_CLEAR_OPERATION

primrec op_index :: "hal_operation \<Rightarrow> nat" where
  "op_index HAL_GET_OPERATION = 0"
| "op_index HAL_GET_ALL_OPERATION = 1"
| "op_index HAL_SET_OPERATION = 2"
| "op_index HAL_ADD_OPERATION = 3"
| "op_index HAL_MOD_OPERATION = 4"
| "op_index HAL_DEL_OPERATION = 5"
| "op_index HAL_CLEAR_OPERATION = 6"

datatype bf_level = BF_LOG_ERR | BF_LOG_WARN | BF_LOG_INFO | BF_LOG_DBG

fun hal_to_bf_sys_level :: "hal_verbosity \<Rightarrow> bf_level" where
  "hal_to_bf_sys_level HAL_API_LEVEL_ERROR = BF_LOG_ERR"
| "hal_to_bf_sys_level HAL_API_LEVEL_WARN = BF_LOG_WARN"
| "hal_to_bf_sys_level HAL_API_LEVEL_NOTICE = BF_LOG_WARN"
| "hal_to_bf_sys_level HAL_API_LEVEL_INFO = BF_LOG_INFO"
| "hal_to_bf_sys_level HAL_API_LEVEL_DEBUG = BF_LOG_DBG"
| "hal_to_bf_sys_level HAL_API_LEVEL_DETAIL = BF_LOG_INFO"
| "hal_to_bf_sys_level HAL_API_LEVEL_MAX = BF_LOG_ERR"

section \<open>The state\<close>

text \<open>\<open>out\<close> is what went to the system's log, the latest first; \<open>sys_level\<close> the level set there last.\<close>

record hal_logger =
  operationSettings :: "bool list"
  default_verbosity :: hal_verbosity
  mapInitialized :: bool
  HalObjectSet :: "u16 set"
  ObjectVerbosityMap :: "u16 \<rightharpoonup> hal_verbosity"
  sys_level :: "bf_level option"
  out :: "(bf_level \<times> string) list"

definition hal_logger_start :: hal_logger where
  "hal_logger_start = \<lparr>operationSettings = replicate 4 True, default_verbosity = HAL_API_LEVEL_ERROR, mapInitialized = False,
     HalObjectSet = {0}, ObjectVerbosityMap = Map.empty, sys_level = None, out = []\<rparr>"

section \<open>The switches\<close>

definition toggle_operation :: "hal_operation \<Rightarrow> bool \<Rightarrow> hal_logger \<Rightarrow> hal_logger option" where
  "toggle_operation operation isEnabled g =
     (if op_index operation < length (operationSettings g)
      then Some (g\<lparr>operationSettings := (operationSettings g)[op_index operation := isEnabled]\<rparr>) else None)"

definition toggle_all_operations :: "bool \<Rightarrow> hal_logger \<Rightarrow> hal_logger" where
  "toggle_all_operations isEnabled g =
     g\<lparr>operationSettings := replicate (length (operationSettings g)) isEnabled\<rparr>"

definition set_log_level :: "hal_verbosity \<Rightarrow> hal_logger \<Rightarrow> hal_logger" where
  "set_log_level new_verbosity g =
     g\<lparr>default_verbosity := new_verbosity, sys_level := Some (hal_to_bf_sys_level new_verbosity)\<rparr>"

definition get_log_level :: "hal_logger \<Rightarrow> hal_verbosity" where
  "get_log_level g = default_verbosity g"

definition set_log_level_object :: "u16 \<Rightarrow> hal_verbosity \<Rightarrow> hal_logger \<Rightarrow> hal_logger" where
  "set_log_level_object object_type new_verbosity g =
     (if object_type = 0 then g
      else if ObjectVerbosityMap g object_type \<noteq> None
      then g\<lparr>ObjectVerbosityMap := (ObjectVerbosityMap g)(object_type \<mapsto> new_verbosity)\<rparr>
      else g)"

definition set_log_level_all_objects :: "hal_verbosity \<Rightarrow> hal_logger \<Rightarrow> hal_logger" where
  "set_log_level_all_objects verbosity g =
     g\<lparr>ObjectVerbosityMap := (\<lambda>i. if i \<in> HalObjectSet g then Some verbosity else ObjectVerbosityMap g i),
       mapInitialized := True, sys_level := Some (hal_to_bf_sys_level verbosity)\<rparr>"

definition logging_init :: "hal_verbosity \<Rightarrow> hal_logger \<Rightarrow> int \<times> hal_logger" where
  "logging_init verbosity g = (0, (set_log_level_all_objects verbosity g)\<lparr>default_verbosity := verbosity\<rparr>)"

section \<open>The messages\<close>

definition hal_log_internal :: "hal_verbosity \<Rightarrow> string \<Rightarrow> hal_logger \<Rightarrow> hal_logger" where
  "hal_log_internal verbosity message g = g\<lparr>out := (hal_to_bf_sys_level verbosity, message) # out g\<rparr>"

definition hal_log :: "hal_verbosity \<Rightarrow> string \<Rightarrow> hal_logger \<Rightarrow> bool \<times> hal_logger" where
  "hal_log verbosity message g =
     (if verbosity \<le> default_verbosity g then (True, hal_log_internal verbosity message g) else (False, g))"

definition hal_log_object :: "hal_verbosity \<Rightarrow> u16 \<Rightarrow> string \<Rightarrow> hal_logger \<Rightarrow> bool \<times> hal_logger" where
  "hal_log_object verbosity object_type message g =
     (if object_type = 0 then hal_log verbosity message g
      else case ObjectVerbosityMap g object_type of
        Some v \<Rightarrow> if verbosity \<le> v then hal_log verbosity message g else (False, g)
      | None \<Rightarrow> hal_log verbosity message g)"

definition hal_log_operation ::
  "hal_verbosity \<Rightarrow> u16 \<Rightarrow> hal_operation \<Rightarrow> string \<Rightarrow> hal_logger \<Rightarrow> (bool \<times> hal_logger) option" where
  "hal_log_operation verbosity object_type operation message g =
     (if op_index operation < length (operationSettings g) then
        Some (if operationSettings g ! op_index operation then hal_log_object verbosity object_type message g else (False, g))
      else None)"

section \<open>What the object types decide\<close>

text \<open>The calls of the interface that change the logger.\<close>

datatype log_call =
    Toggle_op hal_operation bool
  | Toggle_all bool
  | Set_level hal_verbosity
  | Set_object u16 hal_verbosity
  | Set_all_objects hal_verbosity
  | Init hal_verbosity
  | Log hal_verbosity u16 string

fun log_do :: "log_call \<Rightarrow> hal_logger \<Rightarrow> hal_logger option" where
  "log_do (Toggle_op op' b) g = toggle_operation op' b g"
| "log_do (Toggle_all b) g = Some (toggle_all_operations b g)"
| "log_do (Set_level v) g = Some (set_log_level v g)"
| "log_do (Set_object i v) g = Some (set_log_level_object i v g)"
| "log_do (Set_all_objects v) g = Some (set_log_level_all_objects v g)"
| "log_do (Init v) g = Some (snd (logging_init v g))"
| "log_do (Log v i m) g = Some (snd (hal_log_object v i m g))"

fun log_run :: "log_call list \<Rightarrow> hal_logger \<Rightarrow> hal_logger option" where
  "log_run [] g = Some g"
| "log_run (c # cs) g = Option.bind (log_do c g) (log_run cs)"

definition log_ok :: "hal_logger \<Rightarrow> bool" where
  "log_ok g \<longleftrightarrow> HalObjectSet g = {0} \<and> (\<forall>i. i \<noteq> 0 \<longrightarrow> ObjectVerbosityMap g i = None) \<and> length (operationSettings g) = 4"

lemma log_ok_start [simp]: "log_ok hal_logger_start"
  by (simp add: log_ok_def hal_logger_start_def)

lemmas log_defs = toggle_operation_def toggle_all_operations_def set_log_level_def set_log_level_object_def
  set_log_level_all_objects_def logging_init_def hal_log_def hal_log_object_def hal_log_internal_def

lemma log_do_ok: "log_do c g = Some g' \<Longrightarrow> log_ok g \<Longrightarrow> log_ok g'"
  by (cases c) (auto simp: log_defs log_ok_def split: if_splits option.splits)

lemma log_run_ok: "log_run cs g = Some g' \<Longrightarrow> log_ok g \<Longrightarrow> log_ok g'"
  by (induction cs arbitrary: g) (auto simp: bind_eq_Some_conv dest: log_do_ok)

text \<open>
  The only object type the map ever holds is 0, which every test leaves out: whatever was set for it, an object
  type decides nothing, and \<open>set_log_level_object\<close> never changes anything.
\<close>

lemma object_types_have_no_effect:
  assumes "log_run cs hal_logger_start = Some g"
  shows "hal_log_object v i m g = hal_log v m g" "set_log_level_object i v g = g"
proof -
  have "log_ok g" using log_run_ok [OF assms] by simp
  then have "ObjectVerbosityMap g i = None" if "i \<noteq> 0" using that by (simp add: log_ok_def)
  then show "hal_log_object v i m g = hal_log v m g" "set_log_level_object i v g = g"
    by (cases "i = 0"; simp add: hal_log_object_def set_log_level_object_def)+
qed

text \<open>
  Three of the seven operations are past the end of the array of switches, for toggling as for logging.
\<close>

lemma operation_past_switches:
  assumes "log_run cs hal_logger_start = Some g"
  shows "hal_log_operation v i op' m g = None \<longleftrightarrow> op' \<in> {HAL_MOD_OPERATION, HAL_DEL_OPERATION, HAL_CLEAR_OPERATION}"
    "toggle_operation op' b g = None \<longleftrightarrow> op' \<in> {HAL_MOD_OPERATION, HAL_DEL_OPERATION, HAL_CLEAR_OPERATION}"
proof -
  have "log_ok g" using log_run_ok [OF assms] by simp
  then have "length (operationSettings g) = 4" by (simp add: log_ok_def)
  then show "hal_log_operation v i op' m g = None \<longleftrightarrow> op' \<in> {HAL_MOD_OPERATION, HAL_DEL_OPERATION, HAL_CLEAR_OPERATION}"
    "toggle_operation op' b g = None \<longleftrightarrow> op' \<in> {HAL_MOD_OPERATION, HAL_DEL_OPERATION, HAL_CLEAR_OPERATION}"
    by (cases op'; simp add: hal_log_operation_def toggle_operation_def)+
qed

end
