(* ===== verification/Ip_Prefix.thy ===== *)
theory Ip_Prefix
  imports Mbuf Decimal
begin

text \<open>
  The addresses and prefixes of the common library: \<open>common/ipaddress.h\<close>, \<open>common/ipaddress.cpp\<close>,
  \<open>common/ipprefix.h\<close> and \<open>common/ipprefix.cpp\<close>. An exception is \<open>Inl\<close>; \<open>Undefined\<close> stands for a failed
  \<open>assert\<close> and for an operation without a defined result.
\<close>

section \<open>Exceptions and the text of addresses\<close>

datatype exn = Invalid_argument | Logic_error | Undefined

definition and_then :: "exn + 'a \<Rightarrow> ('a \<Rightarrow> exn + 'b) \<Rightarrow> exn + 'b" where
  "and_then m k = (case m of Inl e \<Rightarrow> Inl e | Inr x \<Rightarrow> k x)"

lemma and_then_simps [simp]: "and_then (Inl e) k = Inl e" "and_then (Inr x) k = k x"
  by (simp_all add: and_then_def)

text \<open>
  \<open>inet_pton\<close> and \<open>inet_ntop\<close> for the two families, \<open>None\<close> for a text that is no address. An IPv4 address
  is the word its four bytes are in memory (network order), an IPv6 address its 16 bytes.
\<close>

record addr_lib =
  inet_pton4 :: "string \<Rightarrow> u32 option"
  inet_pton6 :: "string \<Rightarrow> u8 list option"
  inet_ntop4 :: "u32 \<Rightarrow> string"
  inet_ntop6 :: "u8 list \<Rightarrow> string"

text \<open>What is relied on: the text of an address is read back, and looks like one of its family.\<close>

definition addr_laws :: "addr_lib \<Rightarrow> bool" where
  "addr_laws A \<longleftrightarrow>
     (\<forall>x. inet_pton4 A (inet_ntop4 A x) = Some x \<and> CHR '':'' \<notin> set (inet_ntop4 A x) \<and>
        CHR ''/'' \<notin> set (inet_ntop4 A x) \<and> CHR '','' \<notin> set (inet_ntop4 A x) \<and> inet_ntop4 A x \<noteq> []) \<and>
     (\<forall>b. length b = 16 \<longrightarrow> inet_pton6 A (inet_ntop6 A b) = Some b \<and> CHR '':'' \<in> set (inet_ntop6 A b) \<and>
        CHR ''/'' \<notin> set (inet_ntop6 A b) \<and> CHR '','' \<notin> set (inet_ntop6 A b)) \<and>
     (\<forall>s b. inet_pton6 A s = Some b \<longrightarrow> length b = 16)"

section \<open>Addresses\<close>

text \<open>\<open>struct ip_addr_t\<close>: the family and the union, whose 16 bytes are kept for a family of neither kind.\<close>

datatype ip_addr_t = V4 u32 | V6 "u8 list" | Fam u8 "u8 list"

definition AF_INET :: u8 where "AF_INET = 2"
definition AF_INET6 :: u8 where "AF_INET6 = 10"

fun family :: "ip_addr_t \<Rightarrow> u8" where
  "family (V4 x) = AF_INET"
| "family (V6 b) = AF_INET6"
| "family (Fam f b) = f"

definition IpAddress_u32 :: "u32 \<Rightarrow> ip_addr_t" where
  "IpAddress_u32 ip = V4 ip"

definition IpAddress_str :: "addr_lib \<Rightarrow> string \<Rightarrow> exn + ip_addr_t" where
  "IpAddress_str A ipStr =
     (if CHR '':'' \<in> set ipStr
      then (case inet_pton6 A ipStr of None \<Rightarrow> Inl Invalid_argument | Some b \<Rightarrow> Inr (V6 b))
      else (case inet_pton4 A ipStr of None \<Rightarrow> Inl Invalid_argument | Some x \<Rightarrow> Inr (V4 x)))"

definition isV4 :: "ip_addr_t \<Rightarrow> bool" where
  "isV4 ip \<longleftrightarrow> family ip = AF_INET"

fun isZero :: "ip_addr_t \<Rightarrow> bool" where
  "isZero (V4 x) = (x = 0)"
| "isZero (V6 b) = (b = replicate 16 0)"
| "isZero (Fam f b) = False"

text \<open>The first four bytes as a word, for an address that is not IPv4.\<close>

definition first_word :: "u8 list \<Rightarrow> u32" where
  "first_word b = le32 (b ! 0) (b ! 1) (b ! 2) (b ! 3)"

fun isIpv6LinkLocal :: "ip_addr_t \<Rightarrow> bool" where
  "isIpv6LinkLocal (V6 b) = (first_word b AND bswap32 0xffc00000 = bswap32 0xfe800000)"
| "isIpv6LinkLocal ip = False"

text \<open>\<open>memcmp\<close> finds the first block of bytes smaller.\<close>

fun mem_less :: "u8 list \<Rightarrow> u8 list \<Rightarrow> bool" where
  "mem_less (x # xs) (y # ys) = (x < y \<or> (x = y \<and> mem_less xs ys))"
| "mem_less xs ys = False"

fun addr_less :: "ip_addr_t \<Rightarrow> ip_addr_t \<Rightarrow> bool" where
  "addr_less (V4 x) (V4 y) = (bswap32 x < bswap32 y)"
| "addr_less (V6 b) (V6 c) = mem_less b c"
| "addr_less (Fam f b) (Fam g c) = (if f \<noteq> g then f < g else mem_less b c)"
| "addr_less a b = (family a < family b)"

fun addr_equal :: "ip_addr_t \<Rightarrow> ip_addr_t \<Rightarrow> bool" where
  "addr_equal (V4 x) (V4 y) = (x = y)"
| "addr_equal (V6 b) (V6 c) = (b = c)"
| "addr_equal a b = False"

text \<open>For another family \<open>inet_ntop\<close> returns NULL, which is no text.\<close>

fun addr_to_string :: "addr_lib \<Rightarrow> ip_addr_t \<Rightarrow> exn + string" where
  "addr_to_string A (V4 x) = Inr (inet_ntop4 A x)"
| "addr_to_string A (V6 b) = Inr (inet_ntop6 A b)"
| "addr_to_string A (Fam f b) = Inl Logic_error"

datatype addr_scope = GLOBAL_SCOPE | LINK_SCOPE | HOST_SCOPE

definition getAddrScope :: "addr_lib \<Rightarrow> ip_addr_t \<Rightarrow> exn + addr_scope" where
  "getAddrScope A ip =
     and_then (IpAddress_str A ''169.254.0.0'') (\<lambda>link4.
     and_then (IpAddress_str A ''FE80::0'') (\<lambda>link6.
     and_then (IpAddress_str A ''127.0.0.1'') (\<lambda>host4.
     and_then (IpAddress_str A ''::1'') (\<lambda>host6.
       (case ip of
          V4 x \<Rightarrow> (case link4 of
              V4 l \<Rightarrow> Inr (if bswap32 x AND 0xffff0000 = bswap32 l then LINK_SCOPE
                          else if addr_equal ip host4 then HOST_SCOPE else GLOBAL_SCOPE)
            | _ \<Rightarrow> Inl Undefined)
        | V6 b \<Rightarrow> (case link6 of
              V6 l \<Rightarrow> Inr (if b ! 0 = l ! 0 \<and> b ! 1 AND 0xc0 = l ! 1 then LINK_SCOPE
                          else if addr_equal ip host6 then HOST_SCOPE else GLOBAL_SCOPE)
            | _ \<Rightarrow> Inl Undefined)
        | Fam f b \<Rightarrow> (case link6 of
              V6 l \<Rightarrow> Inr (if b ! 0 = l ! 0 \<and> b ! 1 AND 0xc0 = l ! 1 then LINK_SCOPE else GLOBAL_SCOPE)
            | _ \<Rightarrow> Inl Undefined))))))"

section \<open>Prefixes\<close>

record ip_prefix =
  m_ip :: ip_addr_t
  m_mask :: int

definition isValid :: "ip_prefix \<Rightarrow> bool" where
  "isValid p \<longleftrightarrow> 0 \<le> m_mask p \<and>
     (case m_ip p of V4 x \<Rightarrow> m_mask p \<le> 32 | V6 b \<Rightarrow> m_mask p \<le> 128 | Fam f b \<Rightarrow> False)"

definition IpPrefix_v4 :: "u32 \<Rightarrow> int \<Rightarrow> exn + ip_prefix" where
  "IpPrefix_v4 ipPrefix len =
     (let p = \<lparr>m_ip = IpAddress_u32 ipPrefix, m_mask = len\<rparr> in
      if \<not> isValid p then Inl Invalid_argument else Inr p)"

text \<open>The text before the first slash is the address, what follows it the length.\<close>

definition IpPrefix_str :: "addr_lib \<Rightarrow> string \<Rightarrow> exn + ip_prefix" where
  "IpPrefix_str A ipPrefixStr =
     (let ipStr = takeWhile (\<lambda>c. c \<noteq> CHR ''/'') ipPrefixStr in
      and_then (if ipStr = [] then Inr (IpAddress_u32 0) else IpAddress_str A ipStr) (\<lambda>ip.
        if CHR ''/'' \<notin> set ipPrefixStr then Inr \<lparr>m_ip = ip, m_mask = (if isV4 ip then 32 else 128)\<rparr>
        else
          case stoi (drop (length ipStr + 1) ipPrefixStr) of
            None \<Rightarrow> Inl Invalid_argument
          | Some len \<Rightarrow>
              let p = \<lparr>m_ip = ip, m_mask = len\<rparr> in
              if \<not> isValid p then Inl Invalid_argument else Inr p))"

text \<open>
  \<open>getMask\<close>: for IPv4 the shift of a 64-bit number, put into network order; for IPv6 whole bytes of
  ones and one byte that is cut.
\<close>

definition mask4 :: "int \<Rightarrow> u32" where
  "mask4 m = bswap32 (ucast (take_bit 32 (push_bit (nat (32 - m)) (0xFFFFFFFF :: u64))))"

definition mask6 :: "int \<Rightarrow> u8 list" where
  "mask6 m =
     (let mid = nat m div 8; bits = nat m mod 8
      in replicate mid 0xFF @
         (if mid < 16 then ucast (push_bit (8 - bits) (0xFF :: u32)) # replicate (16 - mid - 1) 0 else []))"

definition getMask :: "ip_prefix \<Rightarrow> exn + ip_addr_t" where
  "getMask p =
     (case m_ip p of
        V4 x \<Rightarrow> if 0 \<le> m_mask p \<and> m_mask p \<le> 32 then Inr (V4 (mask4 (m_mask p))) else Inl Undefined
      | V6 b \<Rightarrow> if 0 \<le> m_mask p \<and> m_mask p \<le> 128 then Inr (V6 (mask6 (m_mask p))) else Inl Undefined
      | Fam f b \<Rightarrow> Inl Logic_error)"

definition isDefaultRoute :: "ip_prefix \<Rightarrow> bool" where
  "isDefaultRoute p \<longleftrightarrow> m_mask p = 0"

text \<open>The bytes of two addresses, combined one by one.\<close>

definition bytes_and :: "u8 list \<Rightarrow> u8 list \<Rightarrow> u8 list" where
  "bytes_and b c = map (\<lambda>i. b ! i AND c ! i) [0..<16]"

definition getBroadcastIp :: "ip_prefix \<Rightarrow> exn + ip_addr_t" where
  "getBroadcastIp p =
     and_then (getMask p) (\<lambda>msk.
       case (m_ip p, msk) of
         (V4 x, V4 m) \<Rightarrow> Inr (IpAddress_u32 (x OR NOT m))
       | (V6 b, V6 m) \<Rightarrow> Inr (V6 (map (\<lambda>i. b ! i OR NOT (m ! i)) [0..<16]))
       | _ \<Rightarrow> Inl Undefined)"

definition isAddressInSubnet :: "ip_prefix \<Rightarrow> ip_addr_t \<Rightarrow> exn + bool" where
  "isAddressInSubnet p addr =
     (if family (m_ip p) \<noteq> family addr then Inr False
      else
        and_then (getMask p) (\<lambda>msk.
          case (m_ip p, addr, msk) of
            (V4 x, V4 a, V4 m) \<Rightarrow> Inr (x AND m = a AND m)
          | (V6 b, V6 a, V6 m) \<Rightarrow> Inr (list_all (\<lambda>i. b ! i AND m ! i = a ! i AND m ! i) [0..<16])
          | _ \<Rightarrow> Inl Undefined))"

text \<open>\<open>getSubnet\<close>: an IPv6 subnet is printed and parsed again.\<close>

definition getSubnet :: "addr_lib \<Rightarrow> ip_prefix \<Rightarrow> exn + ip_prefix" where
  "getSubnet A p =
     and_then (getMask p) (\<lambda>msk.
       case (m_ip p, msk) of
         (V4 x, V4 m) \<Rightarrow> IpPrefix_v4 (x AND m) (m_mask p)
       | (V6 b, V6 m) \<Rightarrow> IpPrefix_str A (inet_ntop6 A (bytes_and b m) @ ''/'' @ fmt_d (m_mask p))
       | _ \<Rightarrow> Inl Undefined)"

definition prefix_less :: "ip_prefix \<Rightarrow> ip_prefix \<Rightarrow> bool" where
  "prefix_less p q = (if m_mask p \<noteq> m_mask q then m_mask p < m_mask q else addr_less (m_ip p) (m_ip q))"

definition prefix_equal :: "ip_prefix \<Rightarrow> ip_prefix \<Rightarrow> bool" where
  "prefix_equal p q \<longleftrightarrow> addr_equal (m_ip p) (m_ip q) \<and> m_mask p = m_mask q"

definition prefix_to_string :: "addr_lib \<Rightarrow> ip_prefix \<Rightarrow> exn + string" where
  "prefix_to_string A p = and_then (addr_to_string A (m_ip p)) (\<lambda>s. Inr (s @ ''/'' @ fmt_d (m_mask p)))"

section \<open>The bits of an address\<close>

text \<open>A proper address, the number of its bits, and bit \<open>i\<close>, the most significant first.\<close>

fun addr_ok :: "ip_addr_t \<Rightarrow> bool" where
  "addr_ok (V4 x) = True"
| "addr_ok (V6 b) = (length b = 16)"
| "addr_ok (Fam f b) = False"

fun addr_width :: "ip_addr_t \<Rightarrow> nat" where
  "addr_width (V4 x) = 32"
| "addr_width (V6 b) = 128"
| "addr_width (Fam f b) = 0"

fun addr_bit :: "ip_addr_t \<Rightarrow> nat \<Rightarrow> bool" where
  "addr_bit (V4 x) i = bit (bswap32 x) (31 - i)"
| "addr_bit (V6 b) i = bit (b ! (i div 8)) (7 - i mod 8)"
| "addr_bit (Fam f b) i = False"

text \<open>Two addresses of one family agree in their first \<open>n\<close> bits.\<close>

definition agree :: "nat \<Rightarrow> ip_addr_t \<Rightarrow> ip_addr_t \<Rightarrow> bool" where
  "agree n a b \<longleftrightarrow> family a = family b \<and> (\<forall>i < n. addr_bit a i = addr_bit b i)"

definition prefix_ok :: "ip_prefix \<Rightarrow> bool" where
  "prefix_ok p \<longleftrightarrow> isValid p \<and> addr_ok (m_ip p)"

lemma agree_refl [simp]: "agree n a a"
  by (simp add: agree_def)

lemma agree_sym: "agree n a b \<Longrightarrow> agree n b a"
  by (auto simp: agree_def)

lemma agree_trans: "agree n a b \<Longrightarrow> agree n b c \<Longrightarrow> agree n a c"
  by (auto simp: agree_def)

lemma agree_le: "agree n a b \<Longrightarrow> m \<le> n \<Longrightarrow> agree m a b"
  by (auto simp: agree_def)

text \<open>The last \<open>m\<close> of \<open>w\<close> numbers, counted down.\<close>

lemma all_down:
  fixes m w :: nat
  assumes "m \<le> w" shows "(\<forall>n. w - m \<le> n \<and> n < w \<longrightarrow> P n) \<longleftrightarrow> (\<forall>i < m. P (w - Suc i))"
proof (rule iffI)
  assume h: "\<forall>n. w - m \<le> n \<and> n < w \<longrightarrow> P n"
  show "\<forall>i < m. P (w - Suc i)" using h assms by (metis Suc_leI diff_less diff_le_mono2 less_le_trans zero_less_Suc)
next
  assume h: "\<forall>i < m. P (w - Suc i)"
  show "\<forall>n. w - m \<le> n \<and> n < w \<longrightarrow> P n"
  proof (rule allI, rule impI)
    fix n assume "w - m \<le> n \<and> n < w"
    then show "P n" using h [rule_format, of "w - Suc n"] assms by auto
  qed
qed

lemma bswap32_and: "bswap32 (x AND y) = bswap32 x AND bswap32 y"
  by (rule bit_eqI) (auto simp: bit_bswap32 bit_and_iff)

lemma bit_mask4:
  assumes "m \<le> 32" shows "bit (bswap32 (mask4 (int m))) n \<longleftrightarrow> 32 - m \<le> n \<and> n < 32"
proof -
  have ones: "(0xFFFFFFFF :: u64) = Bit_Operations.mask 32" by (simp add: mask_eq_exp_minus_1)
  have "nat (32 - int m) = 32 - m" using assms by simp
  then show ?thesis
    using assms unfolding mask4_def ones
    by (auto simp: bit_ucast_iff bit_take_bit_iff bit_push_bit_iff bit_mask_iff)
qed

lemma and_mask4:
  assumes "m \<le> 32"
  shows "x AND mask4 (int m) = y AND mask4 (int m) \<longleftrightarrow> agree m (V4 x) (V4 y)"
proof -
  have "x AND mask4 (int m) = y AND mask4 (int m) \<longleftrightarrow>
      bswap32 x AND bswap32 (mask4 (int m)) = bswap32 y AND bswap32 (mask4 (int m))"
    by (metis bswap32_and bswap32_inj)
  also have "\<dots> \<longleftrightarrow> (\<forall>n. 32 - m \<le> n \<and> n < 32 \<longrightarrow> bit (bswap32 x) n = bit (bswap32 y) n)"
    by (auto simp: bit_eq_iff bit_and_iff bit_mask4 [OF assms])
  also have "\<dots> \<longleftrightarrow> (\<forall>i < m. bit (bswap32 x) (31 - i) = bit (bswap32 y) (31 - i))"
    by (simp add: all_down [OF assms])
  finally show ?thesis by (simp add: agree_def)
qed

lemma length_mask6: "m \<le> 128 \<Longrightarrow> length (mask6 (int m)) = 16"
  by (auto simp: mask6_def Let_def)

lemma bit_mask6:
  assumes "m \<le> 128" "k < 16" "j < 8"
  shows "bit (mask6 (int m) ! k) j \<longleftrightarrow> 8 * k + (7 - j) < m"
proof -
  have ones: "(0xFF :: u8) = Bit_Operations.mask 8" "(0xFF :: u32) = Bit_Operations.mask 8" by (simp_all add: mask_eq_exp_minus_1)
  define mid where "mid = m div 8"
  define bits where "bits = m mod 8"
  have m: "m = 8 * mid + bits" "bits < 8" by (simp_all add: mid_def bits_def)
  have msk: "mask6 (int m) = replicate mid 0xFF @
      (if mid < 16 then ucast (push_bit (8 - bits) (0xFF :: u32)) # replicate (16 - mid - 1) 0 else [])"
    by (simp add: mask6_def Let_def mid_def bits_def)
  consider "k < mid" | "k = mid" | "k > mid" by linarith
  then show ?thesis
  proof cases
    case 1
    then show ?thesis using assms m unfolding msk ones by (auto simp: nth_append bit_mask_iff)
  next
    case 2
    then show ?thesis using assms m unfolding msk ones
      by (auto simp: nth_append bit_mask_iff bit_ucast_iff bit_push_bit_iff)
  next
    case 3
    then show ?thesis using assms m unfolding msk by (auto simp: nth_append nth_Cons')
  qed
qed

text \<open>The masked bytes agree when the bits under the mask do.\<close>

lemma byte_and_mask6:
  assumes "m \<le> 128" "k < 16"
  shows "x AND mask6 (int m) ! k = y AND mask6 (int m) ! k \<longleftrightarrow> (\<forall>j < 8. 8 * k + j < m \<longrightarrow> bit x (7 - j) = bit y (7 - j))"
proof -
  have "x AND mask6 (int m) ! k = y AND mask6 (int m) ! k \<longleftrightarrow>
      (\<forall>j < 8. 8 * k + (7 - j) < m \<longrightarrow> bit x j = bit y j)"
    by (auto simp: bit_eq_iff bit_and_iff bit_mask6 [OF assms] impossible_bit)
  also have "\<dots> \<longleftrightarrow> (\<forall>n. 8 - 8 \<le> n \<and> n < 8 \<longrightarrow> (8 * k + (7 - n) < m \<longrightarrow> bit x n = bit y n))" by simp
  also have "\<dots> \<longleftrightarrow> (\<forall>j < 8. 8 * k + j < m \<longrightarrow> bit x (7 - j) = bit y (7 - j))"
    by (subst all_down) auto
  finally show ?thesis .
qed

lemma bytes_agree:
  assumes "m \<le> 128"
  shows "(\<forall>k < 16. b ! k AND mask6 (int m) ! k = c ! k AND mask6 (int m) ! k) \<longleftrightarrow> agree m (V6 b) (V6 c)"
proof -
  have "(\<forall>k < 16. \<forall>j < 8. 8 * k + j < m \<longrightarrow> bit (b ! k) (7 - j) = bit (c ! k) (7 - j)) \<longleftrightarrow>
      (\<forall>i < m. bit (b ! (i div 8)) (7 - i mod 8) = bit (c ! (i div 8)) (7 - i mod 8))" (is "?L \<longleftrightarrow> ?R")
  proof
    assume ?L
    show ?R
    proof (rule allI, rule impI)
      fix i assume "i < m"
      then have "i div 8 < 16" "i mod 8 < 8" "8 * (i div 8) + i mod 8 < m" using assms by auto
      then show "bit (b ! (i div 8)) (7 - i mod 8) = bit (c ! (i div 8)) (7 - i mod 8)" using \<open>?L\<close> by blast
    qed
  next
    assume R: ?R
    show ?L
    proof (rule allI, rule impI, rule allI, rule impI, rule impI)
      fix k j :: nat assume "k < 16" "j < 8" "8 * k + j < m"
      then show "bit (b ! k) (7 - j) = bit (c ! k) (7 - j)" using R [rule_format, of "8 * k + j"] by simp
    qed
  qed
  then show ?thesis by (simp add: byte_and_mask6 [OF assms] agree_def)
qed

section \<open>Subnets\<close>

fun masked :: "nat \<Rightarrow> ip_addr_t \<Rightarrow> ip_addr_t" where
  "masked m (V4 x) = V4 (x AND mask4 (int m))"
| "masked m (V6 b) = V6 (bytes_and b (mask6 (int m)))"
| "masked m (Fam f b) = Fam f b"

definition subnet :: "ip_prefix \<Rightarrow> ip_prefix" where
  "subnet p = \<lparr>m_ip = masked (nat (m_mask p)) (m_ip p), m_mask = m_mask p\<rparr>"

lemma bytes_and_eq: "bytes_and b m = bytes_and c m \<longleftrightarrow> (\<forall>k < 16. b ! k AND m ! k = c ! k AND m ! k)"
  by (auto simp: bytes_and_def map_eq_conv)

lemma length_bytes_and [simp]: "length (bytes_and b c) = 16"
  by (simp add: bytes_and_def)

lemma masked_eq:
  assumes "addr_ok a" "addr_ok b" "m \<le> addr_width a"
  shows "masked m a = masked m b \<longleftrightarrow> agree m a b"
proof (cases a)
  case (V4 x)
  then show ?thesis using assms and_mask4 [of m x] by (cases b) (auto simp: agree_def AF_INET_def AF_INET6_def)
next
  case (V6 x)
  then show ?thesis using assms bytes_agree [of m x]
    by (cases b) (auto simp: agree_def AF_INET_def AF_INET6_def bytes_and_eq)
qed (use assms in simp)

lemma masked_ok [simp]: "addr_ok a \<Longrightarrow> addr_ok (masked m a)" "addr_width (masked m a) = addr_width a"
  "family (masked m a) = family a"
  by (cases a; simp)+

lemma masked_masked [simp]: "addr_ok a \<Longrightarrow> masked m (masked m a) = masked m a"
  by (cases a) (simp_all add: bytes_and_def and.assoc)

lemma masked_agree: "addr_ok a \<Longrightarrow> m \<le> addr_width a \<Longrightarrow> agree m (masked m a) a"
  using masked_eq [of "masked m a" a m] by simp

lemma masked_rest:
  assumes "addr_ok a" "m \<le> i" "i < addr_width a" shows "\<not> addr_bit (masked m a) i"
proof (cases a)
  case (V4 x)
  then show ?thesis using assms by (auto simp: bswap32_and bit_and_iff bit_mask4)
next
  case (V6 b)
  have "i div 8 < 16" "i mod 8 < 8" using assms V6 by auto
  then show ?thesis using assms V6 bit_mask6 [of m "i div 8" "7 - i mod 8"] by (auto simp: bytes_and_def bit_and_iff)
qed (use assms in simp)

lemma prefix_ok_width: "prefix_ok p \<Longrightarrow> 0 \<le> m_mask p \<and> nat (m_mask p) \<le> addr_width (m_ip p)"
  by (auto simp: prefix_ok_def isValid_def split: ip_addr_t.splits)

lemma getMask_ok:
  assumes "prefix_ok p"
  shows "getMask p = Inr (case m_ip p of V4 x \<Rightarrow> V4 (mask4 (m_mask p)) | V6 b \<Rightarrow> V6 (mask6 (m_mask p)) | Fam f b \<Rightarrow> Fam f b)"
  using assms by (auto simp: getMask_def prefix_ok_def isValid_def split: ip_addr_t.splits)

text \<open>The text of an address, a slash and a length is parsed back.\<close>

lemma IpPrefix_str_text:
  assumes "IpAddress_str A s = Inr ip" "s \<noteq> []" "CHR ''/'' \<notin> set s" "isValid \<lparr>m_ip = ip, m_mask = m\<rparr>"
  shows "IpPrefix_str A (s @ ''/'' @ fmt_d m) = Inr \<lparr>m_ip = ip, m_mask = m\<rparr>"
proof -
  have "takeWhile (\<lambda>c. c \<noteq> CHR ''/'') (s @ CHR ''/'' # fmt_d m) = s"
    using assms(3) by (subst takeWhile_append2) auto
  moreover have "stoi (fmt_d m) = Some m"
    using assms(4) by (intro stoi_fmt_d) (auto simp: isValid_def split: ip_addr_t.splits)
  ultimately show ?thesis using assms by (simp add: IpPrefix_str_def Let_def)
qed

lemma IpAddress_str_text:
  assumes "addr_laws A" "addr_ok ip" "addr_to_string A ip = Inr s"
  shows "IpAddress_str A s = Inr ip" "s \<noteq> []" "CHR ''/'' \<notin> set s" "CHR '','' \<notin> set s"
  using assms by (cases ip; auto simp: addr_laws_def IpAddress_str_def)+

lemma getSubnet_ok:
  assumes "addr_laws A" "prefix_ok p" shows "getSubnet A p = Inr (subnet p)" "prefix_ok (subnet p)"
proof -
  note w = prefix_ok_width [OF assms(2)]
  show ok: "prefix_ok (subnet p)"
    using assms(2) by (cases "m_ip p") (auto simp: prefix_ok_def isValid_def subnet_def)
  show "getSubnet A p = Inr (subnet p)"
  proof (cases "m_ip p")
    case (V4 x)
    then show ?thesis using assms(2) ok w
      by (simp add: getSubnet_def getMask_ok IpPrefix_v4_def IpAddress_u32_def subnet_def prefix_ok_def Let_def)
  next
    case (V6 b)
    let ?c = "bytes_and b (mask6 (m_mask p))"
    have "IpAddress_str A (inet_ntop6 A ?c) = Inr (V6 ?c)" "inet_ntop6 A ?c \<noteq> []" "CHR ''/'' \<notin> set (inet_ntop6 A ?c)"
      using IpAddress_str_text [OF assms(1), of "V6 ?c"] by simp_all
    moreover have "isValid \<lparr>m_ip = V6 ?c, m_mask = m_mask p\<rparr>" using V6 ok w by (simp add: prefix_ok_def subnet_def)
    ultimately have "IpPrefix_str A (inet_ntop6 A ?c @ ''/'' @ fmt_d (m_mask p)) = Inr \<lparr>m_ip = V6 ?c, m_mask = m_mask p\<rparr>"
      by (rule IpPrefix_str_text)
    then show ?thesis using V6 assms(2) w by (simp add: getSubnet_def getMask_ok subnet_def)
  qed (use assms(2) in \<open>simp add: prefix_ok_def\<close>)
qed

lemma isAddressInSubnet_ok:
  assumes "prefix_ok p" "addr_ok a"
  shows "isAddressInSubnet p a = Inr (agree (nat (m_mask p)) (m_ip p) a)"
proof (cases "family (m_ip p) = family a")
  case True
  note w = prefix_ok_width [OF assms(1)]
  show ?thesis
  proof (cases "m_ip p")
    case (V4 x)
    then obtain y where "a = V4 y" using True assms(2) by (cases a) (auto simp: AF_INET_def AF_INET6_def)
    then show ?thesis using V4 w and_mask4 [of "nat (m_mask p)" x y] assms(1)
      by (simp add: isAddressInSubnet_def getMask_ok)
  next
    case (V6 b)
    then obtain c where "a = V6 c" using True assms(2) by (cases a) (auto simp: AF_INET_def AF_INET6_def)
    then show ?thesis using V6 w bytes_agree [of "nat (m_mask p)" b c] assms(1)
      by (simp add: isAddressInSubnet_def getMask_ok list_all_iff Ball_def)
  qed (use assms in \<open>simp add: prefix_ok_def\<close>)
qed (simp add: isAddressInSubnet_def agree_def)

section \<open>A library of the texts\<close>

text \<open>Each byte is two letters; an IPv6 address starts with a colon.\<close>

definition two_letters :: "u8 \<Rightarrow> string" where
  "two_letters b = [char_of (97 + unat b div 16), char_of (97 + unat b mod 16)]"

fun bytes_of :: "string \<Rightarrow> u8 list" where
  "bytes_of (a # b # s) = of_nat (16 * (of_char a - 97) + (of_char b - 97)) # bytes_of s"
| "bytes_of s = []"

definition addr_lib0 :: addr_lib where
  "addr_lib0 =
     \<lparr>inet_pton4 = (\<lambda>s. case bytes_of s of [a, b, c, d] \<Rightarrow> Some (le32 a b c d) | _ \<Rightarrow> None),
      inet_pton6 = (\<lambda>s. if length (bytes_of (tl s)) = 16 then Some (bytes_of (tl s)) else None),
      inet_ntop4 = (\<lambda>x. concat (map two_letters (bytes32 x))),
      inet_ntop6 = (\<lambda>b. CHR '':'' # concat (map two_letters b))\<rparr>"

lemma letter [simp]: "n < 16 \<Longrightarrow> (97 + n) mod 256 = 97 + n" for n :: nat
  by (intro mod_less) simp

lemma nibbles [simp]: "unat b div 16 < 16" "unat b mod 16 < 16" for b :: u8
proof -
  have "unat b < 2 ^ LENGTH(8)" by (rule unsigned_less)
  then show "unat b div 16 < 16" by (simp add: less_mult_imp_div_less)
qed simp

lemma bytes_of_letters: "bytes_of (concat (map two_letters bs)) = bs"
proof (induction bs)
  case (Cons b bs)
  have "bytes_of (concat (map two_letters (b # bs))) = of_nat (16 * (unat b div 16) + unat b mod 16) # bs"
    by (simp add: Cons two_letters_def [of b])
  moreover have "of_nat (16 * (unat b div 16) + unat b mod 16) = b" by (simp only: mult_div_mod_eq) simp
  ultimately show ?case by (simp only:)
qed simp

lemma letters_plain: "c \<in> set (two_letters b) \<Longrightarrow> c \<noteq> CHR '':'' \<and> c \<noteq> CHR ''/'' \<and> c \<noteq> CHR '',''"
proof -
  assume c: "c \<in> set (two_letters b)"
  have "97 \<le> (of_char c :: nat)" using c by (auto simp: two_letters_def)
  then show ?thesis by auto
qed

lemma addr_laws_lib0: "addr_laws addr_lib0"
proof -
  have "le32 (ucast x) (ucast (drop_bit 8 x)) (ucast (drop_bit 16 x)) (ucast (drop_bit 24 x)) = x" for x :: u32
    by (rule bit_eqI) (auto simp: bit_le32 bit_ucast_iff bit_drop_bit_eq dest: bit_imp_le_length)
  then have "inet_pton4 addr_lib0 (inet_ntop4 addr_lib0 x) = Some x" for x
    by (simp add: addr_lib0_def bytes_of_letters) (simp add: bytes32_def)
  moreover have "CHR '':'' \<notin> set (concat (map two_letters bs))" "CHR ''/'' \<notin> set (concat (map two_letters bs))"
    "CHR '','' \<notin> set (concat (map two_letters bs))" for bs
    using letters_plain by auto
  moreover have "inet_ntop4 addr_lib0 x \<noteq> []" for x by (simp add: addr_lib0_def bytes32_def two_letters_def)
  ultimately show ?thesis by (auto simp: addr_laws_def) (auto simp: addr_lib0_def bytes_of_letters split: if_splits)
qed

text \<open>The broadcast address: the first bits of the prefix and ones behind them.\<close>

lemma bit_bswap32_not: "n < 32 \<Longrightarrow> bit (bswap32 (NOT x)) n \<longleftrightarrow> \<not> bit (bswap32 x) n"
  by (auto simp: bit_bswap32 bit_not_iff)

lemma bswap32_or: "bswap32 (x OR y) = bswap32 x OR bswap32 y"
  by (rule bit_eqI) (auto simp: bit_bswap32 bit_or_iff)

lemma getBroadcastIp_ok:
  assumes "prefix_ok p"
  shows "\<exists>b. getBroadcastIp p = Inr b \<and> addr_ok b \<and> agree (nat (m_mask p)) b (m_ip p) \<and>
    (\<forall>i. nat (m_mask p) \<le> i \<and> i < addr_width (m_ip p) \<longrightarrow> addr_bit b i)"
proof -
  define m where "m = nat (m_mask p)"
  have m: "m_mask p = int m" "m \<le> addr_width (m_ip p)" using prefix_ok_width [OF assms] by (simp_all add: m_def)
  show ?thesis
  proof (cases "m_ip p")
    case (V4 x)
    let ?b = "V4 (x OR NOT (mask4 (int m)))"
    have bit: "addr_bit ?b i \<longleftrightarrow> addr_bit (V4 x) i \<or> m \<le> i" if "i < 32" for i
      using that m(2) V4 bit_mask4 [of m "31 - i"] bit_bswap32_not [of "31 - i" "mask4 (int m)"] by (auto simp: bswap32_or bit_or_iff)
    have "getBroadcastIp p = Inr ?b" using V4 m(1) by (simp add: getBroadcastIp_def getMask_ok [OF assms] IpAddress_u32_def)
    moreover have "agree m ?b (V4 x)" unfolding agree_def using bit m(2) V4 by auto
    ultimately show ?thesis using V4 bit unfolding m_def [symmetric] by (intro exI [of _ ?b]) simp
  next
    case (V6 x)
    let ?f = "\<lambda>k. x ! k OR NOT (mask6 (int m) ! k)"
    let ?b = "V6 (map ?f [0..<16])"
    have bit: "addr_bit ?b i \<longleftrightarrow> addr_bit (V6 x) i \<or> m \<le> i" if "i < 128" for i
    proof -
      have i: "i div 8 < 16" "7 - i mod 8 < 8" "i = 8 * (i div 8) + i mod 8" "i mod 8 < 8" using that by auto
      have "bit (mask6 (int m) ! (i div 8)) (7 - i mod 8) \<longleftrightarrow> 8 * (i div 8) + (7 - (7 - i mod 8)) < m"
        using bit_mask6 [OF _ i(1,2)] m(2) V6 by simp
      also have "\<dots> \<longleftrightarrow> i < m" using i(3,4) by simp
      finally show ?thesis using i(1,2) by (auto simp: bit_or_iff bit_not_iff)
    qed
    have "getBroadcastIp p = Inr ?b" using V6 m(1) by (simp add: getBroadcastIp_def getMask_ok [OF assms])
    moreover have "agree m ?b (V6 x)" unfolding agree_def using bit m(2) V6 by auto
    moreover have "\<forall>i. m \<le> i \<and> i < 128 \<longrightarrow> addr_bit ?b i" using bit by blast
    ultimately show ?thesis
      unfolding m_def [symmetric] V6 by (intro exI [of _ ?b] conjI) (simp_all only: addr_ok.simps addr_width.simps length_map length_upt)
  qed (use assms in \<open>simp add: prefix_ok_def\<close>)
qed

text \<open>
  C35. A valid prefix stands for the first bits of its address: \<open>isAddressInSubnet\<close> says whether those bits
  agree, \<open>getSubnet\<close> gives the prefix with the same first bits and zeros behind them, and \<open>getBroadcastIp\<close>
  the address with the same first bits and ones behind them. This covers the masks of both families, the
  network order of IPv4 words and the printing and parsing on the way.
\<close>

theorem prefix_means_bits:
  assumes "addr_laws A" "prefix_ok p" "addr_ok a"
  shows "isAddressInSubnet p a = Inr (agree (nat (m_mask p)) (m_ip p) a) \<and>
    (\<exists>q. getSubnet A p = Inr q \<and> prefix_ok q \<and> m_mask q = m_mask p \<and>
       agree (nat (m_mask p)) (m_ip q) (m_ip p) \<and>
       (\<forall>i. nat (m_mask p) \<le> i \<and> i < addr_width (m_ip p) \<longrightarrow> \<not> addr_bit (m_ip q) i)) \<and>
    (\<exists>b. getBroadcastIp p = Inr b \<and> addr_ok b \<and> agree (nat (m_mask p)) b (m_ip p) \<and>
       (\<forall>i. nat (m_mask p) \<le> i \<and> i < addr_width (m_ip p) \<longrightarrow> addr_bit b i))"
proof -
  note w = prefix_ok_width [OF assms(2)] and s = getSubnet_ok [OF assms(1,2)]
  have ok: "addr_ok (m_ip p)" using assms(2) by (simp add: prefix_ok_def)
  have "agree (nat (m_mask p)) (m_ip (subnet p)) (m_ip p)"
    using masked_agree [OF ok] w by (simp add: subnet_def)
  moreover have "\<not> addr_bit (m_ip (subnet p)) i" if "nat (m_mask p) \<le> i" "i < addr_width (m_ip p)" for i
    using masked_rest [OF ok that] by (simp add: subnet_def)
  ultimately show ?thesis using isAddressInSubnet_ok [OF assms(2,3)] s getBroadcastIp_ok [OF assms(2)] by (auto simp: subnet_def)
qed

lemma prefix_means_bits_witness:
  "isAddressInSubnet \<lparr>m_ip = V6 (0x20 # replicate 15 1), m_mask = 7\<rparr> (V6 (0x21 # replicate 15 2)) = Inr True"
proof -
  have "prefix_ok \<lparr>m_ip = V6 (0x20 # replicate 15 1), m_mask = 7\<rparr>" by (simp add: prefix_ok_def isValid_def)
  moreover have "agree 7 (V6 (0x20 # replicate 15 1)) (V6 (0x21 # replicate 15 2))"
  proof -
    have "list_all (\<lambda>i. addr_bit (V6 (0x20 # replicate 15 1)) i = addr_bit (V6 (0x21 # replicate 15 2)) i) [0..<7]"
      by code_simp
    then show ?thesis by (simp add: agree_def list_all_iff)
  qed
  ultimately show ?thesis
    using prefix_means_bits [OF addr_laws_lib0, of "\<lparr>m_ip = V6 (0x20 # replicate 15 1), m_mask = 7\<rparr>"
        "V6 (0x21 # replicate 15 2)"] by simp
qed

text \<open>
  The text of a prefix is parsed back to the prefix, for both families and every length; the
  parser rejects a length that is too large for its address.
\<close>

theorem prefix_text_roundtrip:
  assumes "addr_laws A" "addr_ok ip"
  shows "\<exists>s. prefix_to_string A \<lparr>m_ip = ip, m_mask = int m\<rparr> = Inr s \<and>
    (m < 2 ^ 31 \<longrightarrow> IpPrefix_str A s = (if m \<le> addr_width ip then Inr \<lparr>m_ip = ip, m_mask = int m\<rparr> else Inl Invalid_argument))"
proof -
  obtain t where t: "addr_to_string A ip = Inr t" using assms(2) by (cases ip) auto
  note parsed = IpAddress_str_text [OF assms t]
  have valid: "isValid \<lparr>m_ip = ip, m_mask = int m\<rparr> \<longleftrightarrow> m \<le> addr_width ip"
    using assms(2) by (cases ip) (auto simp: isValid_def)
  have tw: "takeWhile (\<lambda>c. c \<noteq> CHR ''/'') (t @ CHR ''/'' # fmt_d (int m)) = t"
    using parsed(3) by (subst takeWhile_append2) auto
  have "stoi (fmt_d (int m)) = Some (int m)" if "m < 2 ^ 31" using that by (intro stoi_fmt_d) auto
  then have "IpPrefix_str A (t @ ''/'' @ fmt_d (int m)) =
      (if m \<le> addr_width ip then Inr \<lparr>m_ip = ip, m_mask = int m\<rparr> else Inl Invalid_argument)" if "m < 2 ^ 31"
    using that parsed tw valid by (simp add: IpPrefix_str_def Let_def)
  then show ?thesis using t by (auto simp: prefix_to_string_def)
qed

lemma prefix_text_roundtrip_witness:
  "\<exists>s. prefix_to_string addr_lib0 \<lparr>m_ip = V6 (replicate 16 7), m_mask = 64\<rparr> = Inr s \<and>
     IpPrefix_str addr_lib0 s = Inr \<lparr>m_ip = V6 (replicate 16 7), m_mask = 64\<rparr>"
  using prefix_text_roundtrip [OF addr_laws_lib0, of "V6 (replicate 16 7)" 64] by simp

section \<open>The order of prefixes\<close>

text \<open>
  \<open>std::map\<close> finds a key by \<open>operator<\<close> only. On proper prefixes it is a strict total order and two
  prefixes neither of which is smaller are equal, so a map from such prefixes is a function.
\<close>

lemma mem_less_irrefl: "\<not> mem_less b b"
  by (induction b) auto

lemma mem_less_trans: "mem_less a b \<Longrightarrow> mem_less b c \<Longrightarrow> mem_less a c"
proof (induction a b arbitrary: c rule: mem_less.induct)
  case (1 x xs y ys)
  then show ?case by (cases c) auto
qed auto

lemma mem_less_total: "length a = length b \<Longrightarrow> mem_less a b \<or> a = b \<or> mem_less b a"
  by (induction a b rule: list_induct2) auto

lemma addr_less_order:
  assumes "addr_ok a" "addr_ok b"
  shows "\<not> addr_less a a" "addr_less a b \<or> a = b \<or> addr_less b a"
  using assms mem_less_irrefl mem_less_total
  by (cases a; cases b; auto simp: AF_INET_def AF_INET6_def)+

lemma addr_less_trans:
  assumes "addr_ok a" "addr_ok b" "addr_ok c" "addr_less a b" "addr_less b c" shows "addr_less a c"
  using assms by (cases a; cases b; cases c; simp add: AF_INET_def AF_INET6_def; metis mem_less_trans)

lemma prefix_less_order:
  assumes "prefix_ok p" "prefix_ok q" "prefix_ok r"
  shows "\<not> prefix_less p p" "prefix_less p q \<Longrightarrow> prefix_less q r \<Longrightarrow> prefix_less p r"
    "\<not> prefix_less p q \<and> \<not> prefix_less q p \<longleftrightarrow> p = q"
proof -
  note ok = assms [unfolded prefix_ok_def]
  show "\<not> prefix_less p p" using ok addr_less_order(1) [of "m_ip p" "m_ip p"] by (simp add: prefix_less_def)
  show "prefix_less p q \<Longrightarrow> prefix_less q r \<Longrightarrow> prefix_less p r"
    using ok addr_less_trans [of "m_ip p" "m_ip q" "m_ip r"] by (auto simp: prefix_less_def split: if_splits)
  show "\<not> prefix_less p q \<and> \<not> prefix_less q p \<longleftrightarrow> p = q"
    using ok addr_less_order [of "m_ip p" "m_ip q"] by (cases p; cases q) (auto simp: prefix_less_def)
qed

end
