(* ===== verification/Lpm_Trie.thy ===== *)
theory Lpm_Trie
  imports Ip_Prefix
begin

text \<open>
  The route table of the common library, \<open>common/lpm_trie.h\<close> and \<open>common/lpm_trie.cpp\<close>: for each family
  a vector with one map per length of prefix, from subnets to the routes' texts.
\<close>

section \<open>Operations\<close>

text \<open>A \<open>std::map\<close> is a partial function: its keys are subnets, on which the order is total.\<close>

type_synonym fib_map = "ip_prefix \<rightharpoonup> string"

record fib_hash =
  fib_table :: "fib_map list"
  fib6_table :: "fib_map list"

definition Fib_Hash_new :: fib_hash where
  "Fib_Hash_new = \<lparr>fib_table = replicate 33 Map.empty, fib6_table = replicate 129 Map.empty\<rparr>"

definition get_fib_table :: "fib_hash \<Rightarrow> ip_addr_t \<Rightarrow> fib_map list" where
  "get_fib_table s ip = (if isV4 ip then fib_table s else fib6_table s)"

text \<open>A write through the reference that \<open>get_fib_table\<close> returns.\<close>

definition put_fib_table :: "fib_hash \<Rightarrow> ip_addr_t \<Rightarrow> fib_map list \<Rightarrow> fib_hash" where
  "put_fib_table s ip t = (if isV4 ip then s\<lparr>fib_table := t\<rparr> else s\<lparr>fib6_table := t\<rparr>)"

text \<open>The length as the unsigned number the functions compare.\<close>

definition prefixlen_of :: "ip_prefix \<Rightarrow> nat" where
  "prefixlen_of p = unat (of_int (m_mask p) :: u32)"

definition lpm_trie_is_exist :: "addr_lib \<Rightarrow> ip_prefix \<Rightarrow> fib_hash \<Rightarrow> exn + bool" where
  "lpm_trie_is_exist A p s =
     (let t = get_fib_table s (m_ip p); n = prefixlen_of p in
      if n < length t then and_then (getSubnet A p) (\<lambda>q. Inr ((t ! n) q \<noteq> None))
      else Inr False)"

definition lpm_trie_modify :: "addr_lib \<Rightarrow> ip_prefix \<Rightarrow> string \<Rightarrow> fib_hash \<Rightarrow> exn + bool \<times> fib_hash" where
  "lpm_trie_modify A p route_info s =
     (let t = get_fib_table s (m_ip p); n = prefixlen_of p in
      if n < length t then
        and_then (getSubnet A p) (\<lambda>q.
          if (t ! n) q \<noteq> None then Inr (True, put_fib_table s (m_ip p) (t[n := (t ! n)(q \<mapsto> route_info)]))
          else Inr (False, s))
      else Inr (False, s))"

text \<open>The text is written to the caller's string when the result is true.\<close>

definition lpm_trie_get :: "addr_lib \<Rightarrow> ip_prefix \<Rightarrow> fib_hash \<Rightarrow> exn + bool \<times> string option" where
  "lpm_trie_get A p s =
     (let t = get_fib_table s (m_ip p); n = prefixlen_of p in
      if n < length t then
        and_then (getSubnet A p) (\<lambda>q.
          case (t ! n) q of Some route_info \<Rightarrow> Inr (True, Some route_info) | None \<Rightarrow> Inr (False, None))
      else Inr (False, None))"

definition lpm_trie_insert :: "addr_lib \<Rightarrow> ip_prefix \<Rightarrow> string \<Rightarrow> fib_hash \<Rightarrow> exn + bool \<times> fib_hash" where
  "lpm_trie_insert A p route_info s =
     (let t = get_fib_table s (m_ip p); n = prefixlen_of p in
      if n \<ge> length t then Inr (False, s)
      else and_then (getSubnet A p) (\<lambda>q.
        Inr (True, put_fib_table s (m_ip p) (t[n := (t ! n)(q \<mapsto> route_info)]))))"

text \<open>The loop of \<open>lpm_trie_lookup\<close>: \<open>n\<close> lengths are left, the next one is \<open>n - 1\<close>.\<close>

fun lookup_loop :: "addr_lib \<Rightarrow> string \<Rightarrow> fib_map list \<Rightarrow> nat \<Rightarrow> exn + string option" where
  "lookup_loop A ipstr t 0 = Inr None"
| "lookup_loop A ipstr t (Suc n) =
     and_then (IpPrefix_str A (ipstr @ fmt_d (int n))) (\<lambda>tempprefix.
     and_then (getSubnet A tempprefix) (\<lambda>q.
       case (t ! n) q of Some route_info \<Rightarrow> Inr (Some route_info) | None \<Rightarrow> lookup_loop A ipstr t n))"

definition lpm_trie_lookup :: "addr_lib \<Rightarrow> ip_addr_t \<Rightarrow> fib_hash \<Rightarrow> exn + bool \<times> string option" where
  "lpm_trie_lookup A dst_ip s =
     (let t = get_fib_table s dst_ip in
      and_then (addr_to_string A dst_ip) (\<lambda>str.
      and_then (lookup_loop A (str @ ''/'') t (length t)) (\<lambda>r. Inr (r \<noteq> None, r))))"

definition lpm_trie_delete :: "addr_lib \<Rightarrow> ip_prefix \<Rightarrow> fib_hash \<Rightarrow> exn + bool \<times> fib_hash" where
  "lpm_trie_delete A p s =
     and_then (lpm_trie_is_exist A p s) (\<lambda>exist.
       if \<not> exist then Inr (True, s)
       else
         let t = get_fib_table s (m_ip p); n = prefixlen_of p in
         if n \<ge> length t then Inr (False, s)
         else and_then (getSubnet A p) (\<lambda>q. Inr (True, put_fib_table s (m_ip p) (t[n := (t ! n)(q := None)]))))"

section \<open>The table as one map\<close>

text \<open>
  A subnet is a proper prefix without bits behind its length. In a sound table the map of length \<open>n\<close>
  holds subnets of that length and family only.
\<close>

definition is_subnet :: "ip_prefix \<Rightarrow> bool" where
  "is_subnet q \<longleftrightarrow> prefix_ok q \<and> subnet q = q"

definition fib_view :: "fib_hash \<Rightarrow> ip_prefix \<rightharpoonup> string" where
  "fib_view s q = (if is_subnet q then (get_fib_table s (m_ip q) ! nat (m_mask q)) q else None)"

definition fib_ok :: "fib_hash \<Rightarrow> bool" where
  "fib_ok s \<longleftrightarrow> length (fib_table s) = 33 \<and> length (fib6_table s) = 129 \<and>
     (\<forall>ip n q. addr_ok ip \<and> n \<le> addr_width ip \<and> (get_fib_table s ip ! n) q \<noteq> None \<longrightarrow>
        is_subnet q \<and> m_mask q = int n \<and> family (m_ip q) = family ip)"

lemma family_isV4: "addr_ok a \<Longrightarrow> addr_ok b \<Longrightarrow> isV4 a = isV4 b \<longleftrightarrow> family a = family b"
  by (cases a; cases b) (auto simp: isV4_def AF_INET_def AF_INET6_def)

lemma family_width: "addr_ok a \<Longrightarrow> addr_ok b \<Longrightarrow> family a = family b \<Longrightarrow> addr_width a = addr_width b"
  by (cases a; cases b) (auto simp: AF_INET_def AF_INET6_def)

lemma fib_ok_length: "fib_ok s \<Longrightarrow> addr_ok ip \<Longrightarrow> length (get_fib_table s ip) = Suc (addr_width ip)"
  by (cases ip) (auto simp: fib_ok_def get_fib_table_def isV4_def AF_INET_def AF_INET6_def)

lemma prefixlen_ok:
  assumes "prefix_ok p" shows "prefixlen_of p = nat (m_mask p)" "nat (m_mask p) \<le> addr_width (m_ip p)" "0 \<le> m_mask p"
proof -
  show w: "nat (m_mask p) \<le> addr_width (m_ip p)" "0 \<le> m_mask p" using prefix_ok_width [OF assms] by simp_all
  have "addr_width (m_ip p) \<le> 128" by (cases "m_ip p") auto
  then have "nat (m_mask p) < 2 ^ 32" using w(1) by simp
  moreover have "(of_int (m_mask p) :: u32) = of_nat (nat (m_mask p))" using w(2) by simp
  ultimately show "prefixlen_of p = nat (m_mask p)" by (simp only: prefixlen_of_def unat_of_nat) simp
qed

lemma is_subnet_subnet: "prefix_ok p \<Longrightarrow> is_subnet (subnet p)"
  using getSubnet_ok(2) [OF addr_laws_lib0, of p] by (simp add: is_subnet_def subnet_def prefix_ok_def)

lemma subnet_parts [simp]: "m_mask (subnet p) = m_mask p" "family (m_ip (subnet p)) = family (m_ip p)"
  "isV4 (m_ip (subnet p)) = isV4 (m_ip p)"
  by (simp_all add: subnet_def isV4_def)

text \<open>A write to the map of a prefix is a write to the view.\<close>

lemma fib_put:
  assumes "fib_ok s" "prefix_ok p"
    and "s' = put_fib_table s (m_ip p)
      ((get_fib_table s (m_ip p))[prefixlen_of p := (get_fib_table s (m_ip p) ! prefixlen_of p)(subnet p := v)])"
  shows "fib_ok s'" "fib_view s' = (fib_view s)(subnet p := v)"
proof -
  note n = prefixlen_ok [OF assms(2)]
  have ok: "addr_ok (m_ip p)" using assms(2) by (simp add: prefix_ok_def)
  have sub: "is_subnet (subnet p)" by (rule is_subnet_subnet [OF assms(2)])
  have len: "length (get_fib_table s ip) = Suc (addr_width ip)" if "addr_ok ip" for ip
    using fib_ok_length [OF assms(1) that] .
  have get: "get_fib_table s' ip ! k =
      (if family ip = family (m_ip p) \<and> k = nat (m_mask p) then (get_fib_table s ip ! k)(subnet p := v)
       else get_fib_table s ip ! k)" if "addr_ok ip" "k \<le> addr_width ip" for ip k
  proof -
    have fam: "isV4 ip = isV4 (m_ip p) \<longleftrightarrow> family ip = family (m_ip p)" by (rule family_isV4 [OF that(1) ok])
    have "k < length (get_fib_table s ip)" using len that by simp
    then show ?thesis using fam
      by (cases "isV4 ip"; cases "isV4 (m_ip p)") (auto simp: assms(3) put_fib_table_def get_fib_table_def n(1) nth_list_update)
  qed
  have sizes: "length (fib_table s') = 33" "length (fib6_table s') = 129"
    using assms(1) by (auto simp: assms(3) put_fib_table_def get_fib_table_def fib_ok_def)
  have entries: "is_subnet q \<and> m_mask q = int k \<and> family (m_ip q) = family ip"
    if "addr_ok ip" "k \<le> addr_width ip" "(get_fib_table s' ip ! k) q \<noteq> None" for ip k q
    using that assms(1) sub n(3) get [OF that(1,2)] unfolding fib_ok_def by (auto split: if_splits)
  show "fib_ok s'" unfolding fib_ok_def using sizes entries by blast
  show "fib_view s' = (fib_view s)(subnet p := v)"
  proof
    fix q
    show "fib_view s' q = ((fib_view s)(subnet p := v)) q"
    proof (cases "is_subnet q")
      case True
      then have q: "prefix_ok q" "addr_ok (m_ip q)" by (simp_all add: is_subnet_def prefix_ok_def)
      have "q = subnet p \<Longrightarrow> family (m_ip q) = family (m_ip p) \<and> m_mask q = m_mask p" by simp
      moreover have "q \<noteq> subnet p \<Longrightarrow> ((get_fib_table s (m_ip q) ! k)(subnet p := v)) q = (get_fib_table s (m_ip q) ! k) q" for k
        by simp
      ultimately show ?thesis using True get [OF q(2) prefixlen_ok(2) [OF q(1)]] by (auto simp: fib_view_def)
    qed (use sub in \<open>auto simp: fib_view_def\<close>)
  qed
qed

lemma fib_new: "fib_ok Fib_Hash_new" "fib_view Fib_Hash_new = Map.empty"
proof -
  have get: "(get_fib_table Fib_Hash_new ip ! n) q = None" if "addr_ok ip" "n \<le> addr_width ip" for ip n q
    using that by (cases ip) (auto simp: get_fib_table_def Fib_Hash_new_def isV4_def AF_INET_def AF_INET6_def)
  then show "fib_ok Fib_Hash_new" by (auto simp: fib_ok_def) (simp_all add: Fib_Hash_new_def)
  show "fib_view Fib_Hash_new = Map.empty"
    using get prefixlen_ok(2) by (auto simp: fib_view_def is_subnet_def prefix_ok_def fun_eq_iff)
qed

section \<open>The operations on the view\<close>

lemma fib_at:
  assumes "prefix_ok p"
  shows "(get_fib_table s (m_ip p) ! prefixlen_of p) (subnet p) = fib_view s (subnet p)"
  using assms is_subnet_subnet [OF assms] prefixlen_ok(1) [OF assms] by (simp add: fib_view_def get_fib_table_def)

lemma fib_runs:
  assumes "addr_laws A" "fib_ok s" "prefix_ok p"
  shows exist_run: "lpm_trie_is_exist A p s = Inr (fib_view s (subnet p) \<noteq> None)"
    and get_run: "lpm_trie_get A p s = Inr (fib_view s (subnet p) \<noteq> None, fib_view s (subnet p))"
    and modify_run: "\<exists>s'. lpm_trie_modify A p i s = Inr (fib_view s (subnet p) \<noteq> None, s') \<and> fib_ok s' \<and>
      fib_view s' = (if fib_view s (subnet p) \<noteq> None then (fib_view s)(subnet p \<mapsto> i) else fib_view s)"
    and insert_run: "\<exists>s'. lpm_trie_insert A p i s = Inr (True, s') \<and> fib_ok s' \<and>
      fib_view s' = (fib_view s)(subnet p \<mapsto> i)"
    and delete_run: "\<exists>s'. lpm_trie_delete A p s = Inr (True, s') \<and> fib_ok s' \<and>
      fib_view s' = (fib_view s)(subnet p := None)"
proof -
  have len: "prefixlen_of p < length (get_fib_table s (m_ip p))"
    using fib_ok_length [OF assms(2)] prefixlen_ok [OF assms(3)] assms(3) by (simp add: prefix_ok_def)
  note S = getSubnet_ok(1) [OF assms(1,3)] and at = fib_at [OF assms(3)] and put = fib_put [OF assms(2,3) refl]
  show ex: "lpm_trie_is_exist A p s = Inr (fib_view s (subnet p) \<noteq> None)"
    using len by (simp add: lpm_trie_is_exist_def S at Let_def)
  show "lpm_trie_get A p s = Inr (fib_view s (subnet p) \<noteq> None, fib_view s (subnet p))"
    using len by (simp add: lpm_trie_get_def S at Let_def split: option.splits)
  show "\<exists>s'. lpm_trie_modify A p i s = Inr (fib_view s (subnet p) \<noteq> None, s') \<and> fib_ok s' \<and>
      fib_view s' = (if fib_view s (subnet p) \<noteq> None then (fib_view s)(subnet p \<mapsto> i) else fib_view s)"
    using len put assms(2) by (cases "fib_view s (subnet p)") (simp_all add: lpm_trie_modify_def S at Let_def)
  show "\<exists>s'. lpm_trie_insert A p i s = Inr (True, s') \<and> fib_ok s' \<and> fib_view s' = (fib_view s)(subnet p \<mapsto> i)"
    using len put by (simp add: lpm_trie_insert_def S Let_def)
  show "\<exists>s'. lpm_trie_delete A p s = Inr (True, s') \<and> fib_ok s' \<and> fib_view s' = (fib_view s)(subnet p := None)"
    using len put assms(2) by (cases "fib_view s (subnet p)") (auto simp: lpm_trie_delete_def ex S Let_def fun_upd_idem)
qed

section \<open>Sequences of operations\<close>

datatype fib_op = Ins ip_prefix string | Mod ip_prefix string | Del ip_prefix

fun op_prefix :: "fib_op \<Rightarrow> ip_prefix" where
  "op_prefix (Ins p i) = p"
| "op_prefix (Mod p i) = p"
| "op_prefix (Del p) = p"

fun fib_step :: "addr_lib \<Rightarrow> fib_op \<Rightarrow> fib_hash \<Rightarrow> exn + bool \<times> fib_hash" where
  "fib_step A (Ins p i) s = lpm_trie_insert A p i s"
| "fib_step A (Mod p i) s = lpm_trie_modify A p i s"
| "fib_step A (Del p) s = lpm_trie_delete A p s"

fun fib_run :: "addr_lib \<Rightarrow> fib_op list \<Rightarrow> fib_hash \<Rightarrow> exn + bool list \<times> fib_hash" where
  "fib_run A [] s = Inr ([], s)"
| "fib_run A (c # cs) s =
     and_then (fib_step A c s) (\<lambda>(r, s). and_then (fib_run A cs s) (\<lambda>(rs, s). Inr (r # rs, s)))"

text \<open>The same on a map from subnets.\<close>

fun map_step :: "fib_op \<Rightarrow> fib_map \<Rightarrow> bool \<times> fib_map" where
  "map_step (Ins p i) V = (True, V(subnet p \<mapsto> i))"
| "map_step (Mod p i) V = (if V (subnet p) \<noteq> None then (True, V(subnet p \<mapsto> i)) else (False, V))"
| "map_step (Del p) V = (True, V(subnet p := None))"

fun map_run :: "fib_op list \<Rightarrow> fib_map \<Rightarrow> bool list \<times> fib_map" where
  "map_run [] V = ([], V)"
| "map_run (c # cs) V = (let (r, V) = map_step c V; (rs, V) = map_run cs V in (r # rs, V))"

lemma fib_step_refines:
  assumes "addr_laws A" "fib_ok s" "prefix_ok (op_prefix c)"
  shows "\<exists>s'. fib_step A c s = Inr (fst (map_step c (fib_view s)), s') \<and> fib_ok s' \<and>
    fib_view s' = snd (map_step c (fib_view s))"
  using assms insert_run [OF assms(1,2)] modify_run [OF assms(1,2)] delete_run [OF assms(1,2)]
  by (cases c) fastforce+

lemma fib_run_refines:
  assumes "addr_laws A" "\<forall>c \<in> set cs. prefix_ok (op_prefix c)" "fib_ok s"
  shows "\<exists>s'. fib_run A cs s = Inr (fst (map_run cs (fib_view s)), s') \<and> fib_ok s' \<and>
    fib_view s' = snd (map_run cs (fib_view s))"
  using assms(2,3)
proof (induction cs arbitrary: s)
  case (Cons c cs)
  from fib_step_refines [OF assms(1) Cons.prems(2)] Cons.prems(1) obtain t where
    t: "fib_step A c s = Inr (fst (map_step c (fib_view s)), t)" "fib_ok t" "fib_view t = snd (map_step c (fib_view s))"
    by fastforce
  from Cons.IH [OF _ t(2)] Cons.prems(1) obtain s' where
    "fib_run A cs t = Inr (fst (map_run cs (fib_view t)), s')" "fib_ok s'" "fib_view s' = snd (map_run cs (fib_view t))"
    by auto
  then show ?case using t by (auto simp: case_prod_unfold Let_def)
qed simp

section \<open>The longest match\<close>

text \<open>The subnet of length \<open>n\<close> an address is in, and the first of lengths \<open>n - 1, n - 2, \<dots>\<close> with a route.\<close>

definition subnet_at :: "ip_addr_t \<Rightarrow> nat \<Rightarrow> ip_prefix" where
  "subnet_at a n = subnet \<lparr>m_ip = a, m_mask = int n\<rparr>"

fun longest_at :: "fib_map \<Rightarrow> ip_addr_t \<Rightarrow> nat \<Rightarrow> string option" where
  "longest_at V a 0 = None"
| "longest_at V a (Suc n) = (case V (subnet_at a n) of Some i \<Rightarrow> Some i | None \<Rightarrow> longest_at V a n)"

lemma prefix_ok_at: "addr_ok a \<Longrightarrow> n \<le> addr_width a \<Longrightarrow> prefix_ok \<lparr>m_ip = a, m_mask = int n\<rparr>"
  by (cases a) (auto simp: prefix_ok_def isValid_def)

lemma lookup_loop_run:
  assumes "addr_laws A" "fib_ok s" "addr_ok a" "addr_to_string A a = Inr str"
  shows "n \<le> Suc (addr_width a) \<Longrightarrow>
    lookup_loop A (str @ ''/'') (get_fib_table s a) n = Inr (longest_at (fib_view s) a n)"
proof (induction n)
  case (Suc n)
  let ?p = "\<lparr>m_ip = a, m_mask = int n\<rparr>"
  have ok: "prefix_ok ?p" using prefix_ok_at [OF assms(3)] Suc.prems by simp
  have "IpPrefix_str A (str @ ''/'' @ fmt_d (int n)) = Inr ?p"
    using IpPrefix_str_text [OF IpAddress_str_text(1-3) [OF assms(1,3,4)], of "int n"] ok by (simp add: prefix_ok_def)
  moreover have "(get_fib_table s a ! n) (subnet ?p) = fib_view s (subnet ?p)"
    using fib_at [OF ok, of s] prefixlen_ok(1) [OF ok] by simp
  ultimately show ?case
    using Suc getSubnet_ok(1) [OF assms(1) ok] by (simp add: subnet_at_def split: option.splits)
qed simp

lemma lpm_trie_lookup_run:
  assumes "addr_laws A" "fib_ok s" "addr_ok a"
  shows "lpm_trie_lookup A a s =
    Inr (longest_at (fib_view s) a (Suc (addr_width a)) \<noteq> None, longest_at (fib_view s) a (Suc (addr_width a)))"
proof -
  obtain str where str: "addr_to_string A a = Inr str" using assms(3) by (cases a) auto
  show ?thesis
    using lookup_loop_run [OF assms str, of "Suc (addr_width a)"] fib_ok_length [OF assms(2,3)]
    by (simp add: lpm_trie_lookup_def str Let_def del: longest_at.simps)
qed

lemma longest_at_None: "longest_at V a n = None \<longleftrightarrow> (\<forall>k < n. V (subnet_at a k) = None)"
  by (induction n) (auto simp: less_Suc_eq split: option.splits)

lemma longest_at_Some:
  "longest_at V a n = Some i \<Longrightarrow> \<exists>k < n. V (subnet_at a k) = Some i \<and> (\<forall>j. k < j \<and> j < n \<longrightarrow> V (subnet_at a j) = None)"
  by (induction n) (auto simp: less_Suc_eq split: option.splits)

text \<open>An address is in a subnet exactly when the subnet is the one of its length.\<close>

lemma subnet_at_iff:
  assumes "is_subnet q" "addr_ok a"
  shows "agree (nat (m_mask q)) (m_ip q) a \<longleftrightarrow> nat (m_mask q) \<le> addr_width a \<and> q = subnet_at a (nat (m_mask q))"
proof -
  have ok: "prefix_ok q" "addr_ok (m_ip q)" using assms(1) by (simp_all add: is_subnet_def prefix_ok_def)
  note n = prefixlen_ok [OF ok(1)]
  have q: "m_ip q = masked (nat (m_mask q)) (m_ip q)"
    using assms(1) unfolding is_subnet_def subnet_def by (metis ip_prefix.select_convs(1))
  note eq = masked_eq [OF ok(2) assms(2) n(2)]
  have "q = subnet_at a (nat (m_mask q)) \<longleftrightarrow> m_ip q = masked (nat (m_mask q)) a"
    using n(3) by (cases q) (auto simp: subnet_at_def subnet_def)
  moreover have "agree (nat (m_mask q)) (m_ip q) a \<Longrightarrow> addr_width a = addr_width (m_ip q)"
    using family_width [OF ok(2) assms(2)] by (simp add: agree_def)
  ultimately show ?thesis using eq q n(2) by auto
qed

text \<open>
  C36. The route table refines a map from subnets: any sequence of insertions, modifications and deletions
  of proper prefixes, from the empty table, raises no exception and returns what the same sequence on the
  map returns, and afterwards \<open>lpm_trie_get\<close> and \<open>lpm_trie_is_exist\<close> of any proper prefix read the map at
  the prefix's subnet.
\<close>

theorem fib_hash_refines_map:
  assumes "addr_laws A" "\<forall>c \<in> set cs. prefix_ok (op_prefix c)"
  shows "\<exists>s. fib_run A cs Fib_Hash_new = Inr (fst (map_run cs Map.empty), s) \<and>
    (\<forall>p. prefix_ok p \<longrightarrow>
       lpm_trie_get A p s = Inr (snd (map_run cs Map.empty) (subnet p) \<noteq> None, snd (map_run cs Map.empty) (subnet p)) \<and>
       lpm_trie_is_exist A p s = Inr (snd (map_run cs Map.empty) (subnet p) \<noteq> None))"
proof -
  from fib_run_refines [OF assms fib_new(1)] obtain s where
    s: "fib_run A cs Fib_Hash_new = Inr (fst (map_run cs Map.empty), s)" "fib_ok s"
      "fib_view s = snd (map_run cs Map.empty)" by (auto simp: fib_new(2))
  then show ?thesis using get_run [OF assms(1) s(2)] exist_run [OF assms(1) s(2)] by (metis s(3))
qed

definition route0 :: "fib_op list" where
  "route0 = [Ins \<lparr>m_ip = V4 0x0000000a, m_mask = 8\<rparr> ''a'', Ins \<lparr>m_ip = V4 0x0000010a, m_mask = 16\<rparr> ''b'',
     Del \<lparr>m_ip = V4 0x0000020a, m_mask = 16\<rparr>]"

lemma route0_ok: "\<forall>c \<in> set route0. prefix_ok (op_prefix c)"
  by (simp add: route0_def prefix_ok_def isValid_def)

lemma fib_hash_refines_map_witness:
  "\<exists>s. fib_run addr_lib0 route0 Fib_Hash_new = Inr ([True, True, True], s)"
  using fib_hash_refines_map [OF addr_laws_lib0 route0_ok] by (auto simp: route0_def)

text \<open>
  C37. After any sequence of operations, the lookup of a proper address returns the route of the longest
  prefix whose first bits are the address's, and false exactly if there is none.
\<close>

theorem lpm_trie_lookup_longest:
  assumes "addr_laws A" "\<forall>c \<in> set cs. prefix_ok (op_prefix c)" "addr_ok a"
  shows "\<exists>rs s r. fib_run A cs Fib_Hash_new = Inr (rs, s) \<and> lpm_trie_lookup A a s = Inr (r \<noteq> None, r) \<and>
    (r = None \<longleftrightarrow> (\<forall>q \<in> dom (snd (map_run cs Map.empty)). \<not> agree (nat (m_mask q)) (m_ip q) a)) \<and>
    (\<forall>i. r = Some i \<longrightarrow> (\<exists>q. snd (map_run cs Map.empty) q = Some i \<and> agree (nat (m_mask q)) (m_ip q) a \<and>
       (\<forall>q' \<in> dom (snd (map_run cs Map.empty)). agree (nat (m_mask q')) (m_ip q') a \<longrightarrow> m_mask q' \<le> m_mask q)))"
proof -
  let ?V = "snd (map_run cs Map.empty)" and ?w = "addr_width a"
  from fib_run_refines [OF assms(1,2) fib_new(1)] obtain s where
    s: "fib_run A cs Fib_Hash_new = Inr (fst (map_run cs Map.empty), s)" "fib_ok s" "fib_view s = ?V"
    by (auto simp: fib_new(2))
  have sub: "is_subnet q" if "q \<in> dom ?V" for q using that s(3) [symmetric] by (auto simp: fib_view_def split: if_splits)
  define r where "r = longest_at ?V a (Suc ?w)"
  have run: "lpm_trie_lookup A a s = Inr (r \<noteq> None, r)"
    using lpm_trie_lookup_run [OF assms(1) s(2) assms(3)] by (simp add: r_def s(3) del: longest_at.simps)
  have at: "subnet_at a k \<in> dom ?V \<Longrightarrow> agree k (m_ip (subnet_at a k)) a" for k
  proof -
    assume k: "subnet_at a k \<in> dom ?V"
    have "k \<le> ?w" using prefixlen_ok(2) [of "subnet_at a k"] sub [OF k] by (simp add: is_subnet_def subnet_at_def subnet_def)
    then show ?thesis using subnet_at_iff [OF sub [OF k] assms(3)] by (simp add: subnet_at_def)
  qed
  have hit: "nat (m_mask q) \<le> ?w \<and> q = subnet_at a (nat (m_mask q)) \<and> 0 \<le> m_mask q"
    if "q \<in> dom ?V" "agree (nat (m_mask q)) (m_ip q) a" for q
    using subnet_at_iff [OF sub assms(3)] that prefixlen_ok(3) [of q] sub [OF that(1)] by (auto simp: is_subnet_def)
  have mask_at [simp]: "m_mask (subnet_at a k) = int k" for k by (simp add: subnet_at_def)
  have none: "r = None \<longleftrightarrow> (\<forall>q \<in> dom ?V. \<not> agree (nat (m_mask q)) (m_ip q) a)"
  proof
    assume "r = None"
    then have "\<forall>k < Suc ?w. ?V (subnet_at a k) = None" unfolding r_def longest_at_None .
    then show "\<forall>q \<in> dom ?V. \<not> agree (nat (m_mask q)) (m_ip q) a" using hit by (metis domIff less_Suc_eq_le)
  next
    assume "\<forall>q \<in> dom ?V. \<not> agree (nat (m_mask q)) (m_ip q) a"
    then have "?V (subnet_at a k) = None" for k using at [of k] by (metis domIff mask_at nat_int)
    then show "r = None" unfolding r_def longest_at_None by blast
  qed
  have some: "\<exists>q. ?V q = Some i \<and> agree (nat (m_mask q)) (m_ip q) a \<and>
       (\<forall>q' \<in> dom ?V. agree (nat (m_mask q')) (m_ip q') a \<longrightarrow> m_mask q' \<le> m_mask q)" if "r = Some i" for i
  proof -
    from longest_at_Some [OF that [unfolded r_def]] obtain k where
      k: "?V (subnet_at a k) = Some i" "\<And>j. k < j \<Longrightarrow> j < Suc ?w \<Longrightarrow> ?V (subnet_at a j) = None" by blast
    have "m_mask q' \<le> int k" if "q' \<in> dom ?V" "agree (nat (m_mask q')) (m_ip q') a" for q'
    proof (rule ccontr)
      assume "\<not> m_mask q' \<le> int k"
      then have "?V (subnet_at a (nat (m_mask q'))) = None" using hit [OF that] by (intro k(2)) auto
      then show False using hit [OF that] that(1) by auto
    qed
    then show ?thesis using k(1) at [of k] by (intro exI [of _ "subnet_at a k"]) auto
  qed
  from s(1) run none some show ?thesis by blast
qed

lemma lpm_trie_lookup_longest_witness:
  "\<exists>rs s i. fib_run addr_lib0 route0 Fib_Hash_new = Inr (rs, s) \<and>
     lpm_trie_lookup addr_lib0 (V4 0x0403020a) s = Inr (True, Some i)"
proof -
  let ?q = "subnet \<lparr>m_ip = V4 0x0000000a, m_mask = 8\<rparr>"
  have "snd (map_run route0 Map.empty) ?q = Some ''a''" by (simp add: route0_def subnet_def)
  then have dom: "?q \<in> dom (snd (map_run route0 Map.empty))" by (rule domI)
  have "list_all (\<lambda>i. addr_bit (m_ip ?q) i = addr_bit (V4 0x0403020a) i) [0..<8]" by code_simp
  then have "agree (nat (m_mask ?q)) (m_ip ?q) (V4 0x0403020a)" by (simp add: agree_def list_all_iff)
  then have match: "\<not> (\<forall>q \<in> dom (snd (map_run route0 Map.empty)). \<not> agree (nat (m_mask q)) (m_ip q) (V4 0x0403020a))"
    using dom by blast
  have "addr_ok (V4 0x0403020a)" by simp
  from lpm_trie_lookup_longest [OF addr_laws_lib0 route0_ok this] obtain rs s r where
    R: "fib_run addr_lib0 route0 Fib_Hash_new = Inr (rs, s)"
      "lpm_trie_lookup addr_lib0 (V4 0x0403020a) s = Inr (r \<noteq> None, r)"
      "r = None \<longleftrightarrow> (\<forall>q \<in> dom (snd (map_run route0 Map.empty)). \<not> agree (nat (m_mask q)) (m_ip q) (V4 0x0403020a))"
    by (elim exE conjE) (rule that)
  from R(3) match have "r \<noteq> None" by argo
  with R(1,2) show ?thesis by auto
qed

end
