(* ===== verification/Ip_List.thy ===== *)
theory Ip_List
  imports Ip_Prefix
begin

text \<open>
  Sets of addresses and their text: \<open>common/ipaddresses.h\<close>, \<open>common/ipaddresses.cpp\<close> and
  \<open>common/tokenize.cpp\<close>.
\<close>

section \<open>Splitting a text\<close>

text \<open>\<open>getline\<close> until the stream's end: an empty rest is no token.\<close>

fun tokenize :: "char \<Rightarrow> string \<Rightarrow> string list" where
  "tokenize token [] = []"
| "tokenize token (c # cs) =
     (let tmp = takeWhile (\<lambda>x. x \<noteq> token) (c # cs)
      in tmp # tokenize token (drop (length tmp + 1) (c # cs)))"

text \<open>At most \<open>firstN\<close> tokens are split off; the rest is the last one.\<close>

fun tokenize_n :: "char \<Rightarrow> nat \<Rightarrow> string \<Rightarrow> string list" where
  "tokenize_n token 0 s = [s]"
| "tokenize_n token (Suc n) s =
     (if token \<notin> set s then [s]
      else
        let tmp = takeWhile (\<lambda>x. x \<noteq> token) s
        in tmp # tokenize_n token n (drop (length tmp + 1) s))"

section \<open>Sets of addresses\<close>

text \<open>A \<open>std::set\<close> is the list of its elements in the order of \<open>operator<\<close>.\<close>

type_synonym ip_set = "ip_addr_t list"

fun set_insert :: "ip_addr_t \<Rightarrow> ip_set \<Rightarrow> ip_set" where
  "set_insert x [] = [x]"
| "set_insert x (y # ys) =
     (if addr_less x y then x # y # ys else if addr_less y x then y # set_insert x ys else y # ys)"

definition set_has :: "ip_addr_t \<Rightarrow> ip_set \<Rightarrow> bool" where
  "set_has x s = list_ex (\<lambda>y. \<not> addr_less x y \<and> \<not> addr_less y x) s"

definition set_erase :: "ip_addr_t \<Rightarrow> ip_set \<Rightarrow> ip_set" where
  "set_erase x s = filter (\<lambda>y. addr_less x y \<or> addr_less y x) s"

definition add :: "ip_addr_t \<Rightarrow> ip_set \<Rightarrow> ip_set" where
  "add ip m_ips = set_insert ip m_ips"

definition add_str :: "addr_lib \<Rightarrow> string \<Rightarrow> ip_set \<Rightarrow> exn + ip_set" where
  "add_str A ipStr m_ips = and_then (IpAddress_str A ipStr) (\<lambda>ip. Inr (set_insert ip m_ips))"

fun insert_all :: "addr_lib \<Rightarrow> string list \<Rightarrow> ip_set \<Rightarrow> exn + ip_set" where
  "insert_all A [] m_ips = Inr m_ips"
| "insert_all A (ip # ips) m_ips = and_then (add_str A ip m_ips) (insert_all A ips)"

text \<open>
  The constructor calls \<open>shc::tokenize\<close>, which \<open>tokenize.h\<close> declares and no file defines (\<open>tokenize.cpp\<close>
  defines a function of that name in the namespace \<open>sfc\<close>): it is the argument \<open>tok\<close>.
\<close>

definition IpAddresses :: "(char \<Rightarrow> string \<Rightarrow> string list) \<Rightarrow> addr_lib \<Rightarrow> string \<Rightarrow> exn + ip_set" where
  "IpAddresses tok A ipsStr = insert_all A (tok (CHR '','') ipsStr) []"

definition getSize :: "ip_set \<Rightarrow> nat" where
  "getSize m_ips = length m_ips"

definition contains :: "ip_addr_t \<Rightarrow> ip_set \<Rightarrow> bool" where
  "contains ip m_ips = set_has ip m_ips"

definition contains_str :: "addr_lib \<Rightarrow> string \<Rightarrow> ip_set \<Rightarrow> exn + bool" where
  "contains_str A ipStr m_ips = and_then (IpAddress_str A ipStr) (\<lambda>ip. Inr (set_has ip m_ips))"

definition contains_all :: "ip_set \<Rightarrow> ip_set \<Rightarrow> bool" where
  "contains_all ips m_ips = list_all (\<lambda>ip. contains ip m_ips) ips"

definition remove_addr :: "ip_addr_t \<Rightarrow> ip_set \<Rightarrow> ip_set" where
  "remove_addr ip m_ips = set_erase ip m_ips"

definition remove_str :: "addr_lib \<Rightarrow> string \<Rightarrow> ip_set \<Rightarrow> exn + ip_set" where
  "remove_str A ipStr m_ips = and_then (IpAddress_str A ipStr) (\<lambda>ip. Inr (set_erase ip m_ips))"

text \<open>\<open>operator<\<close> and \<open>operator==\<close> of two sets compare element by element.\<close>

fun ips_less :: "ip_set \<Rightarrow> ip_set \<Rightarrow> bool" where
  "ips_less s [] = False"
| "ips_less [] (y # ys) = True"
| "ips_less (x # xs) (y # ys) = (addr_less x y \<or> (\<not> addr_less y x \<and> ips_less xs ys))"

definition ips_equal :: "ip_set \<Rightarrow> ip_set \<Rightarrow> bool" where
  "ips_equal s t \<longleftrightarrow> length s = length t \<and> list_all2 addr_equal s t"

text \<open>The loop of \<open>to_string\<close>: every element but the first is preceded by a comma.\<close>

fun ips_text :: "addr_lib \<Rightarrow> bool \<Rightarrow> ip_set \<Rightarrow> exn + string" where
  "ips_text A first [] = Inr []"
| "ips_text A first (ip # ips) =
     and_then (addr_to_string A ip) (\<lambda>s. and_then (ips_text A False ips) (\<lambda>t.
       Inr ((if first then [] else '','') @ s @ t)))"

definition ips_to_string :: "addr_lib \<Rightarrow> ip_set \<Rightarrow> exn + string" where
  "ips_to_string A m_ips = ips_text A True m_ips"

section \<open>The set behind the list\<close>

definition ips_ok :: "ip_set \<Rightarrow> bool" where
  "ips_ok s \<longleftrightarrow> sorted_wrt addr_less s \<and> (\<forall>x \<in> set s. addr_ok x)"

lemma ips_ok_Cons: "ips_ok (x # xs) \<longleftrightarrow> addr_ok x \<and> (\<forall>y \<in> set xs. addr_less x y) \<and> ips_ok xs"
  by (auto simp: ips_ok_def)

lemma addr_less_asym: "addr_ok a \<Longrightarrow> addr_ok b \<Longrightarrow> addr_less a b \<Longrightarrow> \<not> addr_less b a"
  using addr_less_trans [of a b a] addr_less_order(1) [of a a] by blast

lemma same_place: "addr_ok a \<Longrightarrow> addr_ok b \<Longrightarrow> \<not> addr_less a b \<and> \<not> addr_less b a \<longleftrightarrow> a = b"
  using addr_less_order [of a b] addr_less_order(1) [of a a] by blast

lemma set_insert_set:
  "ips_ok s \<Longrightarrow> addr_ok x \<Longrightarrow> ips_ok (set_insert x s) \<and> set (set_insert x s) = insert x (set s)"
proof (induction s)
  case (Cons y ys)
  have ok: "addr_ok y" "ips_ok ys" "\<And>z. z \<in> set ys \<Longrightarrow> addr_less y z" using Cons.prems(1) by (auto simp: ips_ok_Cons)
  then have ok': "\<And>z. z \<in> set ys \<Longrightarrow> addr_ok z" by (auto simp: ips_ok_def)
  have IH: "ips_ok (set_insert x ys)" "set (set_insert x ys) = insert x (set ys)" using Cons.IH [OF ok(2) Cons.prems(2)] by simp_all
  consider "addr_less x y" | "\<not> addr_less x y" "addr_less y x" | "\<not> addr_less x y" "\<not> addr_less y x" by blast
  then show ?case
  proof cases
    case 1
    then have "\<And>z. z \<in> set ys \<Longrightarrow> addr_less x z" using addr_less_trans [OF Cons.prems(2) ok(1) ok' 1] ok(3) by blast
    then show ?thesis using 1 Cons.prems by (auto simp: ips_ok_Cons)
  next
    case 2
    then show ?thesis using IH ok by (auto simp: ips_ok_Cons)
  next
    case 3
    then have "x = y" using same_place [OF Cons.prems(2) ok(1)] by blast
    then show ?thesis using 3 Cons.prems(1) by auto
  qed
qed (simp add: ips_ok_def)

lemma set_has_set: "ips_ok s \<Longrightarrow> addr_ok x \<Longrightarrow> set_has x s \<longleftrightarrow> x \<in> set s"
  using same_place by (auto simp: set_has_def list_ex_iff ips_ok_def)

lemma set_erase_set:
  assumes "ips_ok s" "addr_ok x" shows "ips_ok (set_erase x s)" "set (set_erase x s) = set s - {x}"
proof -
  show "ips_ok (set_erase x s)" using assms by (auto simp: set_erase_def ips_ok_def sorted_wrt_filter)
  have "\<And>y. y \<in> set s \<Longrightarrow> (addr_less x y \<or> addr_less y x) = (y \<noteq> x)"
    using same_place [OF assms(2)] assms(1) by (auto simp: ips_ok_def)
  then show "set (set_erase x s) = set s - {x}" by (auto simp: set_erase_def)
qed

lemma ips_unique: "ips_ok s \<Longrightarrow> ips_ok t \<Longrightarrow> set s = set t \<Longrightarrow> s = t"
proof (induction s arbitrary: t)
  case (Cons x xs)
  then obtain y ys where t: "t = y # ys" by (cases t) auto
  have ok: "addr_ok x" "addr_ok y" "ips_ok xs" "ips_ok ys" "\<And>z. z \<in> set xs \<Longrightarrow> addr_less x z" "\<And>z. z \<in> set ys \<Longrightarrow> addr_less y z"
    using Cons.prems(1,2) by (auto simp: t ips_ok_Cons)
  have xy: "x = y"
  proof (rule ccontr)
    assume "x \<noteq> y"
    then have "x \<in> set ys" "y \<in> set xs" using Cons.prems(3) t by auto
    then show False using ok addr_less_asym by blast
  qed
  have "x \<notin> set xs" "y \<notin> set ys" using ok addr_less_order(1) by blast+
  then have "set xs = set ys" using Cons.prems(3) t xy by auto
  then show ?case using Cons.IH [OF ok(3,4)] t xy by simp
qed simp

section \<open>The text of a set\<close>

fun join_words :: "char \<Rightarrow> string list \<Rightarrow> string" where
  "join_words c [] = []"
| "join_words c [w] = w"
| "join_words c (w # v # ws) = w @ c # join_words c (v # ws)"

lemma join_words_Cons: "ws \<noteq> [] \<Longrightarrow> join_words c (w # ws) = w @ c # join_words c ws"
  by (cases ws) simp_all

lemma tokenize_step:
  assumes "c \<notin> set w" shows "tokenize c (w @ c # s) = w # tokenize c s"
proof -
  have "takeWhile (\<lambda>x. x \<noteq> c) (w @ c # s) = w" using assms by (subst takeWhile_append2) auto
  then show ?thesis by (cases w) (simp_all add: Let_def)
qed

text \<open>The words of a text come back, unless the last one is empty.\<close>

lemma tokenize_join:
  "\<forall>w \<in> set ws. c \<notin> set w \<Longrightarrow> ws = [] \<or> last ws \<noteq> [] \<Longrightarrow> tokenize c (join_words c ws) = ws"
proof (induction c ws rule: join_words.induct)
  case (2 c w)
  then have "takeWhile (\<lambda>x. x \<noteq> c) w = w" by (auto simp: takeWhile_eq_all_conv)
  then show ?case using 2 by (cases w) (simp_all add: Let_def)
next
  case (3 c w v ws)
  then show ?case by (simp add: tokenize_step)
qed simp

definition addr_text :: "addr_lib \<Rightarrow> ip_addr_t \<Rightarrow> string" where
  "addr_text A ip = (case addr_to_string A ip of Inl e \<Rightarrow> [] | Inr s \<Rightarrow> s)"

lemma addr_text_ok:
  assumes "addr_laws A" "addr_ok ip"
  shows "addr_to_string A ip = Inr (addr_text A ip)" "IpAddress_str A (addr_text A ip) = Inr ip"
    "addr_text A ip \<noteq> []" "CHR '','' \<notin> set (addr_text A ip)"
proof -
  show s: "addr_to_string A ip = Inr (addr_text A ip)" using assms(2) by (cases ip) (auto simp: addr_text_def)
  show "IpAddress_str A (addr_text A ip) = Inr ip" "addr_text A ip \<noteq> []" "CHR '','' \<notin> set (addr_text A ip)"
    using IpAddress_str_text [OF assms s] by simp_all
qed

lemma ips_text_run:
  "addr_laws A \<Longrightarrow> \<forall>x \<in> set xs. addr_ok x \<Longrightarrow> xs \<noteq> [] \<Longrightarrow>
     ips_text A first xs = Inr ((if first then [] else '','') @ join_words (CHR '','') (map (addr_text A) xs))"
proof (induction xs arbitrary: first)
  case (Cons x xs)
  then show ?case
    by (cases "xs = []") (simp_all add: addr_text_ok join_words_Cons)
qed simp

text \<open>What a list of words says: the addresses, or the exception for the first word that is none.\<close>

fun read_words :: "addr_lib \<Rightarrow> string list \<Rightarrow> exn + ip_addr_t list" where
  "read_words A [] = Inr []"
| "read_words A (w # ws) = and_then (IpAddress_str A w) (\<lambda>ip. and_then (read_words A ws) (\<lambda>ips. Inr (ip # ips)))"

lemma IpAddress_str_ok: "addr_laws A \<Longrightarrow> IpAddress_str A w = Inr ip \<Longrightarrow> addr_ok ip"
  by (auto simp: IpAddress_str_def addr_laws_def split: if_split_asm option.split_asm)

lemma insert_all_run:
  assumes "addr_laws A"
  shows "ips_ok s \<Longrightarrow> case read_words A ws of
      Inl e \<Rightarrow> insert_all A ws s = Inl e
    | Inr xs \<Rightarrow> \<exists>s'. insert_all A ws s = Inr s' \<and> ips_ok s' \<and> set s' = set xs \<union> set s"
proof (induction ws arbitrary: s)
  case (Cons w ws)
  show ?case
  proof (cases "IpAddress_str A w")
    case (Inr ip)
    note ins = set_insert_set [OF Cons.prems IpAddress_str_ok [OF assms Inr]]
    from Cons.IH [of "set_insert ip s"] ins show ?thesis
      by (auto simp: add_str_def Inr split: sum.splits)
  qed (simp add: add_str_def)
qed simp

lemma read_printed:
  "addr_laws A \<Longrightarrow> \<forall>x \<in> set xs. addr_ok x \<Longrightarrow> read_words A (map (addr_text A) xs) = Inr xs"
  by (induction xs) (simp_all add: addr_text_ok)

lemma IpAddresses_words:
  assumes "addr_laws A" "\<forall>w \<in> set ws. CHR '','' \<notin> set w" "ws = [] \<or> last ws \<noteq> []"
  shows "case read_words A ws of
      Inl e \<Rightarrow> IpAddresses tokenize A (join_words (CHR '','') ws) = Inl e
    | Inr xs \<Rightarrow> \<exists>s. IpAddresses tokenize A (join_words (CHR '','') ws) = Inr s \<and> ips_ok s \<and> set s = set xs \<and>
        (\<forall>x. addr_ok x \<longrightarrow> contains x s = (x \<in> set xs))"
proof -
  have "ips_ok []" by (simp add: ips_ok_def)
  from insert_all_run [OF assms(1) this, of ws] show ?thesis
    using set_has_set by (auto simp: IpAddresses_def tokenize_join [OF assms(2,3)] contains_def split: sum.splits)
qed

lemma IpAddresses_printed:
  assumes "addr_laws A" "ips_ok xs"
  shows "\<exists>t. ips_to_string A xs = Inr t \<and> IpAddresses tokenize A t = Inr xs"
proof -
  have ok: "\<forall>x \<in> set xs. addr_ok x" using assms(2) by (simp add: ips_ok_def)
  let ?ws = "map (addr_text A) xs" and ?t = "join_words (CHR '','') (map (addr_text A) xs)"
  have text_run: "ips_to_string A xs = Inr ?t"
    using ips_text_run [OF assms(1) ok] by (cases "xs = []") (simp_all add: ips_to_string_def)
  have ws: "\<forall>w \<in> set ?ws. CHR '','' \<notin> set w" "?ws = [] \<or> last ?ws \<noteq> []"
    using addr_text_ok(3,4) [OF assms(1)] ok by (auto simp: last_map)
  from IpAddresses_words [OF assms(1) ws] read_printed [OF assms(1) ok] obtain s where
    "IpAddresses tokenize A ?t = Inr s" "ips_ok s" "set s = set xs" by auto
  then show ?thesis using text_run ips_unique [OF _ assms(2)] by blast
qed

text \<open>
  C38. If \<open>shc::tokenize\<close>, which the sources declare and do not define, were the function of \<open>tokenize.cpp\<close>: a
  text of comma-separated words, the last one not empty, is read into the set of the addresses the words name,
  whatever their order and however often one is named, and \<open>contains\<close> finds exactly these; the first word
  that is no address (an empty one between two commas, say) ends the constructor with its exception. The text
  that \<open>to_string\<close> makes of a set is read back to the same set.
\<close>

theorem ip_addresses_text:
  assumes "addr_laws A" "tok = tokenize" "\<forall>w \<in> set ws. CHR '','' \<notin> set w" "ws = [] \<or> last ws \<noteq> []" "ips_ok ys"
  shows "(case read_words A ws of
      Inl e \<Rightarrow> IpAddresses tok A (join_words (CHR '','') ws) = Inl e
    | Inr xs \<Rightarrow> \<exists>s. IpAddresses tok A (join_words (CHR '','') ws) = Inr s \<and> ips_ok s \<and> set s = set xs \<and>
        (\<forall>x. addr_ok x \<longrightarrow> contains x s = (x \<in> set xs))) \<and>
    (\<exists>t. ips_to_string A ys = Inr t \<and> IpAddresses tok A t = Inr ys)"
  unfolding assms(2) using IpAddresses_words [OF assms(1,3,4)] IpAddresses_printed [OF assms(1,5)] by blast

lemma ip_addresses_text_witness:
  "IpAddresses tokenize addr_lib0 (join_words (CHR '','') [addr_text addr_lib0 (V4 1), [], ''x'']) = Inl Invalid_argument \<and>
   (\<exists>s. IpAddresses tokenize addr_lib0 (join_words (CHR '','') (map (addr_text addr_lib0) [V6 (replicate 16 9), V4 1, V4 1])) = Inr s \<and>
      set s = {V4 1, V6 (replicate 16 9)}) \<and>
   (\<exists>t. ips_to_string addr_lib0 [V4 1] = Inr t \<and> IpAddresses tokenize addr_lib0 t = Inr [V4 1])"
proof -
  let ?a = "map (addr_text addr_lib0) [V6 (replicate 16 9), V4 1, V4 1]"
  have ok: "ips_ok [V4 1]" by (simp add: ips_ok_def)
  note T = addr_text_ok [OF addr_laws_lib0]
  have "read_words addr_lib0 [addr_text addr_lib0 (V4 1), [], ''x''] = Inl Invalid_argument"
    using T(2) [of "V4 1"] by (simp add: IpAddress_str_def) (simp add: addr_lib0_def bytes_of.simps)
  moreover have "\<forall>w \<in> set [addr_text addr_lib0 (V4 1), [], ''x'']. CHR '','' \<notin> set w" using T(4) by simp
  ultimately have "IpAddresses tokenize addr_lib0 (join_words (CHR '','') [addr_text addr_lib0 (V4 1), [], ''x'']) = Inl Invalid_argument"
    using ip_addresses_text [OF addr_laws_lib0 refl _ _ ok, of "[addr_text addr_lib0 (V4 1), [], ''x'']"] by simp
  moreover have "read_words addr_lib0 ?a = Inr [V6 (replicate 16 9), V4 1, V4 1]"
    by (rule read_printed [OF addr_laws_lib0]) simp
  moreover have "\<forall>w \<in> set ?a. CHR '','' \<notin> set w" "last ?a \<noteq> []" using T(3,4) by simp_all
  ultimately show ?thesis
    using ip_addresses_text [OF addr_laws_lib0 refl _ _ ok, of ?a] by (auto simp: insert_commute)
qed

end
