(* ===== verification/Spec2Isabelle.thy ===== *)
theory Spec2Isabelle
  imports Errno Stat Vrf_Table Neigh Tunnel_Map Route_Ops Route_Lookup Entry_Api Packet_Path Netio_Filter Process
    Object_Id Hal_Start Hal_Log Lpm_Trie Ip_List
begin

text \<open>
  The program. A VXLAN gateway on a programmable switch. The agent (\<open>agent/\<close>, in C) keeps the control plane's
  tables: VRFs, the tunnels that lead to them, their routes, the next hops the routes share, and the overlay
  neighbours behind those. Datagrams that the switch cannot forward come in on a raw socket and are handled in
  software. The switch reports flows to the hardware layer (\<open>platform/drivers/\<close>, in C++), which counts them
  with a stream summary; every five seconds a timer dumps the largest flows, compares them with the dump
  before, and moves the rules of those that came or went into the hardware or out of it. A library of
  addresses and prefixes (\<open>common/\<close>) stands beside this.

  How the parts interact. \<open>main\<close> (\<open>agent/main.c\<close>) reads the command line, starts the vendor's driver and two
  threads. The packet thread (\<open>shc_pmd_thread\<close>, \<open>agent/pmd.c\<close>) sets up all tables and runs the event loop,
  whose callback \<open>netio_rx\<close> takes a datagram through tunnel, route and neighbour lookups. The other thread
  arms the timer, whose signal runs \<open>diff_cmp\<close> (\<open>agent/topk_deal.cpp\<close>); that calls \<open>shc_swTohw_rule\<close>
  (\<open>agent/entry_api.c\<close>) for each flow. The same three lookups then do the offload: they count users and call
  the hardware layer (\<open>hal_table_api.cpp\<close>) when the first one comes or the last one goes. The driver classes
  below it write the vendor's tables. Digests and aged entries come back through two callbacks.

  Conventions. A C function is a function on an explicit state, \<open>Some\<close> of its return value, what its
  out-parameters hold and the new state; \<open>None\<close> stands for a failed assertion, a read or write outside an
  object, or a loop that does not end. A C++ exception is the left side of a sum, and so is the end of the
  process (an exit code or message). Structures are records with the members' names, enumerations datatypes,
  and integers words of their C width, except where the code computes with an \<open>int\<close> that cannot overflow;
  the \<open>int\<close> lengths of the lists of destinations wrap, and the theorems stay below the length where C's would
  overflow.
  Pointers to objects that are shared are addresses into a map of live objects (\<open>neigh_mem\<close>, \<open>nhop_mem\<close>,
  \<open>tunnel_mem\<close>), so that a freed object is absent; the VRFs are the array they are in the code. The agent's
  whole state is the record \<open>agent\<close> of \<open>Agent_Types\<close>; calls of the hardware layer are logged in it with the
  status they got.

  Libraries. Code that is not in the repository is an argument: \<open>E\<close> the DPDK's tables, arrays and memory
  (\<open>lib\<close>), \<open>M\<close> its packet buffers, \<open>IO\<close> the sockets, events and start-up calls, \<open>OS\<close> the system calls of \<open>main\<close>,
  \<open>B\<close> and \<open>N\<close> the vendor's run-time interface, \<open>L\<close> the sorting of the C++ library, \<open>A\<close> the text of addresses.
  \<open>shc::tokenize\<close>, which is declared but not defined, is an argument of \<open>IpAddresses\<close>; \<open>Ip_List\<close> says what
  the text constructor would do with the function of \<open>tokenize.cpp\<close>. \<open>OS\<close> also says which shells and driver
  threads end, since \<open>main\<close> waits for them. What is relied on is stated as named laws of documented behaviour (\<open>hash_laws\<close>, \<open>iter_laws\<close>, \<open>fib_laws\<close>,
  \<open>fba_laws\<close>, \<open>zmalloc_law\<close>, \<open>mbuf_laws\<close>, \<open>std_laws\<close>, \<open>id_laws\<close>, \<open>addr_laws\<close> and others; bundles are \<open>route_laws\<close>,
  \<open>sweep_laws\<close>, \<open>agent_laws\<close>), and a concrete library (\<open>lib0\<close>, \<open>mlib0\<close>, \<open>io0\<close>, \<open>os0\<close>, \<open>bfrt0\<close>, \<open>bfrt_ids\<close>, \<open>std0\<close>,
  \<open>addr_lib0\<close>) satisfies them in the witnesses. Every answer a law leaves open, such as a full
  table or failed memory of the DPDK, is covered; a failing \<open>malloc\<close> is a NULL that the agent dereferences
  (\<open>malloc_ok\<close>). Statements that need a hardware layer in which no call fails (\<open>hal_never_fails\<close>), tables that
  can be created (\<open>creates_ok\<close>) or assertions compiled out say so.

  The theories and what they model:

  \<^item> Shared: \<open>Prelude\<close> (widths, byte order, bind), \<open>Errno\<close> (\<open>shc_errno.h\<close>), \<open>Dataplane\<close> (\<open>shc_dp.h\<close>),
    \<open>Agent_Types\<close> (the data of all components), \<open>Lib_Laws\<close>, \<open>Obj_Table\<close> (a hash table of pointers to live
    objects: no dangling pointer, no leak), \<open>Decimal\<close> (numbers as text).
  \<^item> Threads and statistics: \<open>Pmd_Ctx\<close> (contexts), \<open>Stat\<close> (\<open>stat.c\<close>).
  \<^item> The agent's tables: \<open>Neigh\<close> (\<open>neigh.c\<close>), \<open>Vrf_Table\<close> and \<open>Vrf_Life\<close> (\<open>vrf.c\<close>), \<open>Tunnel_Map\<close>
    (\<open>tunnel_map.c\<close>), \<open>Nhop\<close>, \<open>Fib_Res\<close>, \<open>Route\<close>, \<open>Route_Cleanup\<close>, \<open>Dest_List\<close>, \<open>Route_Lookup\<close> (\<open>route.c\<close>: shared
    next hops, the array of results, the operations, the sweep, the list of offloaded destinations, the
    lookup), \<open>Hal_Shim\<close> (the calls of the hardware layer), \<open>Entry_Api\<close> (\<open>entry_api.c\<close>).
  \<^item> The packet path: \<open>Mbuf\<close>, \<open>Arp_Probe\<close>, \<open>Packet_Path\<close> (\<open>pmd.c\<close>), \<open>Netio_Filter\<close> (the socket filter of
    \<open>netio.c\<close>, with the instructions it is made of), \<open>Agent_Start\<close> (start-up, event loop and thread body).
  \<^item> The agent as a whole: \<open>Agent_Spec\<close> (three maps and the outcomes of each operation as a step relation),
    \<open>Agent_Frames\<close>, \<open>Agent_System\<close> and \<open>Agent_Refines\<close> (the tables implement it), \<open>Agent_Reach\<close> (reachable
    states, with the callers' promises \<open>op_ok\<close>), \<open>Agent_Live\<close> (reachable states when VRFs are also deleted while
    tunnels lead to them and tunnels unmapped), \<open>Main_Start\<close> (\<open>main.c\<close>), \<open>Process\<close> (all threads over their shared state).
  \<^item> The detection: \<open>Flow_Key\<close>, \<open>Bob_Hash\<close>, \<open>Linked_Arrays\<close>, \<open>Ssummary\<close>, \<open>Ssummary_Inv\<close>, \<open>Counter_Spec\<close> (the
    abstract Space-Saving algorithm), \<open>Space_Saving\<close>, \<open>Top_K\<close> (\<open>top_k/\<close>), \<open>Topk_Diff\<close> (\<open>topk_deal.cpp\<close>).
  \<^item> The hardware layer: \<open>Mac_Word\<close>, \<open>Bfrt\<close> (the vendor's interface, an argument), \<open>Hal_Tables\<close> (the six driver
    classes), \<open>Hal_Api\<close> (\<open>hal_table_api.cpp\<close>), \<open>Hal_Oid\<close> and \<open>Object_Id\<close> (identifiers), \<open>Digest\<close> (the two
    callbacks), \<open>Hal_Start\<close> (\<open>hal_init\<close> and the registrations), \<open>Hal_Log\<close> (\<open>utils/log.cpp\<close>).
  \<^item> The common library: \<open>Ip_Prefix\<close>, \<open>Lpm_Trie\<close>, \<open>Ip_List\<close>.

  What is shown.

  \<^item> The agent refines three maps: from every state it reaches from its start, whatever packets come between,
    a sequence of operations that keep the callers' promises (no deletion of a VRF that tunnels lead to, no
    unmapping) is a run of the specification (\<open>Agent_Reach\<close>). Without those two promises the VRFs and routes
    stay sound together, with every route in a VRF that exists and a new VRF without routes, while the table
    of tunnels may hold freed records (\<open>Agent_Live\<close>).
  \<^item> The process: what the command line means, when \<open>main\<close> ends (\<open>Main_Start\<close>), and that every tick of the timer
    dereferences the NULL detection, since \<open>main\<close> never runs \<open>hal_init\<close> (\<open>Process\<close>). The theorems on the detection
    below are about the code as it would run after \<open>hal_init\<close>.
  \<^item> Each operation on its own, on every branch: the contracts of \<open>Route_Ops\<close>, \<open>Vrf_Life\<close>, \<open>Neigh\<close>,
    \<open>Tunnel_Map\<close>, with rollback after each failure, reference counts, and freed memory.
  \<^item> The offload: the hardware holds an entry exactly while its users are counted, for at most 127 users at any
    time (\<open>peak\<close>; locale \<open>offload_counter\<close>, interpreted for neighbours, tunnels and next hops), down to the device's tables (\<open>Hal_Api\<close>, locale
    \<open>hal_table\<close>, interpreted for the six classes); and where this breaks: an 8-bit counter that wraps, entries
    that are never removed.
  \<^item> The packet path and the filter: the header checks as one equation for well-formed VXLAN frames, the
    encapsulation of a served flow with and without a gateway, balance of buffers and locks along the loop, and the filter's program as a predicate on datagrams
    (it looks at the fragment offset only, so first fragments pass).
  \<^item> The detection: the arrays implement Space-Saving (\<open>Ssummary_Inv\<close> has one lemma per operation), with its
    error bound, from zeroed memory and for the first interval; the first dump is exact; a tick whose dump
    returns makes the calls of the multiset difference of the two tables; a second dump can fault.
  \<^item> The library: masks and prefixes as bits, the route table as a map with longest match, text round trips.
  \<^item> Where the program does not do what it means to, a theorem or lemma says what it does instead.

  Interfaces. \<open>sweep\<close> (a table swept by an iterator while entries are deleted), \<open>bag\<close> (a counted list),
  \<open>offload_counter\<close> and \<open>hal_table\<close> are locales; each is interpreted on the model's own operations in the theory
  that defines them.

  Bounds and fuel. The sweep of a table has fuel: \<open>sweep_fuel\<close> is one more than the number of results a table
  can hold, and a sweep takes at most one step per entry and one more (\<open>Route_Cleanup\<close>). Decimal texts have ten
  digits, which is enough for 32 bits. Loops over linked arrays and the merge of the dumps are partial
  functions, whose end is proved on sound states. Reference counters have 32 bits: statements over runs
  assume fewer than \<open>2 ^ 32\<close> control operations. The detection's statements assume fewer than a million counted flows, the
  length of its arrays of buckets.

  Not modelled. The P4 program (\<open>platform/p4src\<close>, another language) and the vendor's library under the
  drivers; printing and the format of log messages; the test programs (\<open>agent/T*.c\<close>, \<open>test_hal/\<close>,
  \<open>top_k/demo.cpp\<close>, \<open>test_for_learn/\<close>); wrappers that only pass a call on (\<open>hal_common_api.cpp\<close>, the session
  helpers of \<open>hal_utils.hpp\<close>, \<open>common/log.cpp\<close>); files that nothing includes (\<open>BOBHash64.h\<close>, \<open>BOBHash32.h\<close>); and
  the earlier versions under \<open>bak/\<close>, copies of the agent's files from before the present ones that no build uses.
  Threads are interleaved by whole calls: the code has no lock between the packet thread and the timer's
  signal, and what a signal in the middle of a call does is outside the model.
\<close>

end
